(* ===== verification/Prelude.thy ===== *)
theory Prelude
  imports Main "HOL-Library.Multiset" "HOL-Library.Product_Lexorder"
begin

text \<open>
  Shared vocabulary of the development: the exceptions the modelled Python code can raise, the
  result type that makes them values, a bind for it, insertion-ordered dictionaries, and a generic
  interface for transition systems with the invariant rule that the components reuse.
\<close>

section \<open>Exceptions as values\<close>

datatype PyError =
    TypeError
  | IndexError
  | KeyError
  | AttributeError
  | AssertionError
  | ValueError
  | ChannelNotFound
  | NoSuchJobError
  | UserError
  | AccessError
  | ValidationError

type_synonym 'a result = "PyError + 'a"

text \<open>Sequencing of two statements: an exception of the first one skips the second.\<close>

fun rbind :: "'e + 'a \<Rightarrow> ('a \<Rightarrow> 'e + 'b) \<Rightarrow> 'e + 'b" where
  "rbind (Inl e) f = Inl e"
| "rbind (Inr x) f = f x"

lemma rbind_cong [fundef_cong]:
  "r = r' \<Longrightarrow> (\<And>x. r' = Inr x \<Longrightarrow> f x = f' x) \<Longrightarrow> rbind r f = rbind r' f'"
  by (cases r') auto

lemma rbind_eq_Inr: "rbind r f = Inr y \<longleftrightarrow> (\<exists>x. r = Inr x \<and> f x = Inr y)"
  by (cases r) auto

lemma rbind_eq_Inl: "rbind r f = Inl e \<longleftrightarrow> r = Inl e \<or> (\<exists>x. r = Inr x \<and> f x = Inl e)"
  by (cases r) auto

lemma rbindE:
  assumes "rbind r f = Inr y" obtains x where "r = Inr x" and "f x = Inr y"
  using assms by (cases r) auto

section \<open>Insertion-ordered dictionaries\<close>

text \<open>
  A Python \<open>dict\<close> keeps its keys in insertion order, and assigning to an existing key keeps the
  key's place. A dictionary is an association list with this update; lookup is \<open>map_of\<close>.
\<close>

fun dict_set :: "'k \<Rightarrow> 'v \<Rightarrow> ('k \<times> 'v) list \<Rightarrow> ('k \<times> 'v) list" where
  "dict_set k v [] = [(k, v)]"
| "dict_set k v ((k', v') # d) = (if k' = k then (k, v) # d else (k', v') # dict_set k v d)"

definition dict_del :: "'k \<Rightarrow> ('k \<times> 'v) list \<Rightarrow> ('k \<times> 'v) list" where
  "dict_del k d = filter (\<lambda>p. fst p \<noteq> k) d"

text \<open>\<open>del d[k]\<close> raises when the key is missing.\<close>

definition dict_pop :: "'k \<Rightarrow> ('k \<times> 'v) list \<Rightarrow> ('k \<times> 'v) list result" where
  "dict_pop k d = (if k \<in> fst ` set d then Inr (dict_del k d) else Inl KeyError)"

lemma map_of_dict_set [simp]: "map_of (dict_set k v d) = (map_of d)(k \<mapsto> v)"
  by (induction d) (auto simp: fun_eq_iff)

lemma map_of_dict_del [simp]: "map_of (dict_del k d) = (map_of d)(k := None)"
  by (induction d) (auto simp: dict_del_def fun_eq_iff)

lemma map_fst_dict_set:
  "map fst (dict_set k v d) = (if k \<in> fst ` set d then map fst d else map fst d @ [k])"
proof (induction d)
  case (Cons p d)
  then show ?case by (cases p) (auto simp: image_iff)
qed simp

lemma fst_dict_set: "fst ` set (dict_set k v d) = insert k (fst ` set d)"
proof -
  have "set (map fst (dict_set k v d)) = insert k (set (map fst d))"
    by (cases "k \<in> fst ` set d") (auto simp only: map_fst_dict_set if_True if_False set_append
      set_map list.set insert_absorb Un_insert_right sup_bot_right)
  then show ?thesis by (simp only: set_map)
qed

lemma distinct_dict_set: "distinct (map fst d) \<Longrightarrow> distinct (map fst (dict_set k v d))"
  by (simp add: map_fst_dict_set)

lemma distinct_dict_del: "distinct (map fst d) \<Longrightarrow> distinct (map fst (dict_del k d))"
  by (induction d) (auto simp: dict_del_def)

lemma dict_set_pairs:
  assumes "distinct (map fst cs)"
  shows "(m, e) \<in> set (dict_set n c' cs) \<longleftrightarrow> (if m = n then e = c' else (m, e) \<in> set cs)"
proof -
  have "(m, e) \<in> set (dict_set n c' cs) \<longleftrightarrow> map_of (dict_set n c' cs) m = Some e"
    by (rule map_of_eq_Some_iff [OF distinct_dict_set [OF assms], symmetric])
  also have "\<dots> \<longleftrightarrow> (if m = n then e = c' else map_of cs m = Some e)" by auto
  also have "map_of cs m = Some e \<longleftrightarrow> (m, e) \<in> set cs" by (rule map_of_eq_Some_iff [OF assms])
  finally show ?thesis .
qed

text \<open>\<open>dict_[key].append(x)\<close> on a \<open>defaultdict(list)\<close>.\<close>

definition dict_append :: "'k \<Rightarrow> 'a \<Rightarrow> ('k \<times> 'a list) list \<Rightarrow> ('k \<times> 'a list) list" where
  "dict_append k x d = dict_set k ((case map_of d k of None \<Rightarrow> [] | Some xs \<Rightarrow> xs) @ [x]) d"

lemma map_of_append: "map_of (dict_append k x d) j =
    (if j = k then Some ((case map_of d k of None \<Rightarrow> [] | Some xs \<Rightarrow> xs) @ [x]) else map_of d j)"
  by (simp add: dict_append_def)

lemma group_fold:
  "map_of (foldl (\<lambda>d x. dict_append (key x) x d) d xs) k =
     (case map_of d k of
        None \<Rightarrow> if filter (\<lambda>x. key x = k) xs = [] then None else Some (filter (\<lambda>x. key x = k) xs)
      | Some ys \<Rightarrow> Some (ys @ filter (\<lambda>x. key x = k) xs))"
  by (induction xs arbitrary: d) (auto simp: map_of_append split: option.splits)

lemma distinct_group_fold:
  "distinct (map fst d) \<Longrightarrow> distinct (map fst (foldl (\<lambda>d x. dict_append (key x) x d) d xs))"
  by (induction xs arbitrary: d) (auto simp: dict_append_def distinct_dict_set)

section \<open>Lists with the same elements\<close>

text \<open>A stable sort by a test: what passes it comes first.\<close>

lemma sort_key_test: "sort_key (\<lambda>x. if P x then 0 else 1 :: nat) xs = filter P xs @ filter (\<lambda>x. \<not> P x) xs"
proof -
  let ?k = "\<lambda>x. if P x then 0 else 1 :: nat"
  have "sorted (map ?k (filter P xs))" "sorted (map ?k (filter (\<lambda>x. \<not> P x) xs))"
    by (induction xs) auto
  then have "sorted (map ?k (filter P xs @ filter (\<lambda>x. \<not> P x) xs))" by (auto simp: sorted_append)
  moreover have "filter (\<lambda>x. ?k x = k) (filter P xs @ filter (\<lambda>x. \<not> P x) xs) = filter (\<lambda>x. ?k x = k) xs" for k
    by (cases "k = 0"; cases "k = 1") (simp_all add: filter_empty_conv conj_commute)
  ultimately show ?thesis
    using properties_for_sort_key [of "filter P xs @ filter (\<lambda>x. \<not> P x) xs" xs ?k] by (auto simp: multiset_eq_iff)
qed

lemma mset_Cons_set: "mset h = add_mset x (mset l) \<Longrightarrow> set h = insert x (set l)"
  by (metis set_mset_add_mset_insert set_mset_mset)

lemma mset_Cons_distinct: "mset h = add_mset x (mset l) \<Longrightarrow> distinct h \<longleftrightarrow> x \<notin> set l \<and> distinct l"
  using mset_eq_imp_distinct_iff [of h "x # l"] by simp

section \<open>Transition systems\<close>

text \<open>
  The states a component can reach: a start state and a step relation labelled with the event.
\<close>

inductive reachable :: "('s \<Rightarrow> bool) \<Rightarrow> ('s \<Rightarrow> 'e \<Rightarrow> 's \<Rightarrow> bool) \<Rightarrow> 's \<Rightarrow> bool"
  for start :: "'s \<Rightarrow> bool" and step :: "'s \<Rightarrow> 'e \<Rightarrow> 's \<Rightarrow> bool" where
  reachable_start: "start s \<Longrightarrow> reachable start step s"
| reachable_step: "reachable start step s \<Longrightarrow> step s e t \<Longrightarrow> reachable start step t"

text \<open>
  The contract of a component with an invariant: every start state has it, every step keeps it.
  A component proves the two laws once; every reachable state then has the invariant.
\<close>

locale invariant_system =
  fixes start :: "'s \<Rightarrow> bool"
    and step :: "'s \<Rightarrow> 'e \<Rightarrow> 's \<Rightarrow> bool"
    and inv :: "'s \<Rightarrow> bool"
  assumes inv_start: "start s \<Longrightarrow> inv s"
    and inv_step: "inv s \<Longrightarrow> step s e t \<Longrightarrow> inv t"
begin

lemma inv_reachable: "reachable start step s \<Longrightarrow> inv s"
  by (induction rule: reachable.induct) (auto intro: inv_start inv_step)

end

end
