(* ===== verification/Heapq.thy ===== *)
theory Heapq
  imports Prelude
begin

text \<open>
  Python's \<open>heapq\<close> on lists, as far as \<open>queue_job/jobrunner/channels.py\<close> uses it:
  \<open>heappush\<close> and \<open>heappop\<close>. The comparison may raise (two jobs of which one has an eta are not
  comparable), so it is a function into \<open>result\<close>, and the heap operations pass its error on.
  Both implementations of the standard library do these comparisons and moves in this order.
\<close>

section \<open>The operations\<close>

definition swap :: "'a list \<Rightarrow> nat \<Rightarrow> nat \<Rightarrow> 'a list" where
  "swap h i j = h[i := h ! j, j := h ! i]"

definition parent :: "nat \<Rightarrow> nat" where
  "parent pos = (pos - 1) div 2"

lemma parent_less [termination_simp]: "0 < pos \<Longrightarrow> parent pos < pos"
  by (auto simp: parent_def)

fun siftdown :: "('a \<Rightarrow> 'a \<Rightarrow> bool result) \<Rightarrow> nat \<Rightarrow> 'a list \<Rightarrow> 'a list result" where
  "siftdown lt pos h =
     (if 0 < pos
      then rbind (lt (h ! pos) (h ! (parent pos)))
             (\<lambda>b. if b then siftdown lt (parent pos) (swap h pos (parent pos)) else Inr h)
      else Inr h)"

declare siftdown.simps [simp del]

definition smaller_child :: "('a \<Rightarrow> 'a \<Rightarrow> bool result) \<Rightarrow> nat \<Rightarrow> 'a list \<Rightarrow> nat result" where
  "smaller_child lt pos h =
     (if 2 * pos + 2 < length h
      then rbind (lt (h ! (2 * pos + 1)) (h ! (2 * pos + 2)))
             (\<lambda>b. Inr (if b then 2 * pos + 1 else 2 * pos + 2))
      else Inr (2 * pos + 1))"

lemma smaller_child_cases:
  "smaller_child lt pos h = Inr c \<Longrightarrow> c = 2 * pos + 1 \<or> c = 2 * pos + 2 \<and> c < length h"
  by (auto simp: smaller_child_def rbind_eq_Inr split: if_splits)

lemma length_swap [simp]: "length (swap h i j) = length h"
  by (simp add: swap_def)

function siftup :: "('a \<Rightarrow> 'a \<Rightarrow> bool result) \<Rightarrow> nat \<Rightarrow> 'a list \<Rightarrow> 'a list result" where
  "siftup lt pos h =
     (if 2 * pos + 1 < length h
      then rbind (smaller_child lt pos h) (\<lambda>c. siftup lt c (swap h pos c))
      else siftdown lt pos h)"
  by pat_completeness auto
termination
  by (relation "measure (\<lambda>(lt, pos, h). length h - pos)") (auto dest: smaller_child_cases)

declare siftup.simps [simp del]

definition heappush :: "('a \<Rightarrow> 'a \<Rightarrow> bool result) \<Rightarrow> 'a \<Rightarrow> 'a list \<Rightarrow> 'a list result" where
  "heappush lt x h = siftdown lt (length h) (h @ [x])"

definition heappop :: "('a \<Rightarrow> 'a \<Rightarrow> bool result) \<Rightarrow> 'a list \<Rightarrow> ('a \<times> 'a list) result" where
  "heappop lt h =
     (if h = [] then Inl IndexError
      else if butlast h = [] then Inr (last h, [])
      else rbind (siftup lt 0 ((butlast h)[0 := last h])) (\<lambda>h'. Inr (hd h, h')))"

section \<open>Length and contents\<close>

lemma swap_mset [simp]: "i < length h \<Longrightarrow> j < length h \<Longrightarrow> mset (swap h i j) = mset h"
  by (simp add: swap_def mset_swap)

lemma swap_set [simp]: "i < length h \<Longrightarrow> j < length h \<Longrightarrow> set (swap h i j) = set h"
  by (metis swap_mset set_mset_mset)

lemma nth_swap:
  "i < length h \<Longrightarrow> j < length h \<Longrightarrow> swap h i j ! n = (if n = i then h ! j else if n = j then h ! i else h ! n)"
  by (auto simp: swap_def nth_list_update)

lemma siftdown_mset:
  "siftdown lt pos h = Inr h' \<Longrightarrow> pos < length h \<Longrightarrow> mset h' = mset h"
proof (induction lt pos h rule: siftdown.induct)
  case (1 lt pos h)
  let ?p = "parent pos"
  from "1.prems"(1) consider "h' = h"
    | "0 < pos" "lt (h ! pos) (h ! ?p) = Inr True" "siftdown lt ?p (swap h pos ?p) = Inr h'"
    by (auto simp: siftdown.simps [of lt pos h] rbind_eq_Inr split: if_splits)
  then show ?case
  proof cases
    case 2
    then have "?p < length h" using "1.prems"(2) parent_less [of pos] by linarith
    with "1.IH" [OF 2(1,2) _ 2(3)] "1.prems"(2) show ?thesis by simp
  qed simp
qed

lemma siftup_mset:
  "siftup lt pos h = Inr h' \<Longrightarrow> pos < length h \<Longrightarrow> mset h' = mset h"
proof (induction lt pos h rule: siftup.induct)
  case (1 lt pos h)
  show ?case
  proof (cases "2 * pos + 1 < length h")
    case True
    with "1.prems" obtain c where c: "smaller_child lt pos h = Inr c"
      and r: "siftup lt c (swap h pos c) = Inr h'"
      by (auto simp: siftup.simps [of lt pos h] rbind_eq_Inr)
    from True c have "c < length h" by (auto dest: smaller_child_cases)
    with "1.IH" [OF True c r] "1.prems"(2) show ?thesis by simp
  next
    case False
    with "1.prems" show ?thesis by (auto simp: siftup.simps [of lt pos h] intro: siftdown_mset)
  qed
qed

lemma heappush_mset: "heappush lt x h = Inr h' \<Longrightarrow> mset h' = add_mset x (mset h)"
  by (auto simp: heappush_def dest!: siftdown_mset)

lemma heappop_mset:
  assumes "heappop lt h = Inr (x, h')"
  shows "h \<noteq> [] \<and> x = hd h \<and> mset h = add_mset x (mset h')"
proof (cases "butlast h = []")
  case True
  with assms have "h \<noteq> []" and eq: "x = last h" "h' = []"
    by (auto simp: heappop_def split: if_splits)
  with True have "h = [x]" by (metis append_butlast_last_id append_Nil)
  with eq show ?thesis by simp
next
  case False
  then obtain a m where bl: "butlast h = a # m" by (cases "butlast h") auto
  then have h: "h = a # m @ [last h]"
    by (metis append_Cons append_butlast_last_id butlast.simps(1) list.distinct(1))
  from assms False bl have "siftup lt 0 (last h # m) = Inr h'" and x: "x = hd h"
    by (auto simp: heappop_def rbind_eq_Inr split: if_splits)
  then have "mset h' = mset (last h # m)" by (auto dest: siftup_mset)
  moreover have "mset h = add_mset a (mset m + {#last h#})"
    by (subst h) simp
  moreover have "hd h = a" by (subst h) simp
  moreover have "h \<noteq> []" by (subst h) simp
  ultimately show ?thesis using x by simp
qed

lemma heappop_length: "heappop lt h = Inr (x, h') \<Longrightarrow> length h = Suc (length h')"
  using heappop_mset [of lt h x h'] by (metis size_add_mset size_mset)

section \<open>The heap property\<close>

text \<open>
  The comparison agrees with a linearly ordered key on the elements that can occur together.
  The heap property relates each position but 0 with its parent.
\<close>

definition keyed :: "('a \<Rightarrow> 'a \<Rightarrow> bool result) \<Rightarrow> ('a \<Rightarrow> 'k::linorder) \<Rightarrow> 'a set \<Rightarrow> bool" where
  "keyed lt k A \<longleftrightarrow> (\<forall>a\<in>A. \<forall>b\<in>A. lt a b = Inr (k a < k b))"

definition heap_ordered :: "('a \<Rightarrow> 'k::linorder) \<Rightarrow> 'a list \<Rightarrow> bool" where
  "heap_ordered k h \<longleftrightarrow> (\<forall>i. 0 < i \<and> i < length h \<longrightarrow> k (h ! (parent i)) \<le> k (h ! i))"

lemma keyedD: "keyed lt k A \<Longrightarrow> a \<in> A \<Longrightarrow> b \<in> A \<Longrightarrow> lt a b = Inr (k a < k b)"
  by (auto simp: keyed_def)

lemma keyed_mono: "keyed lt k A \<Longrightarrow> B \<subseteq> A \<Longrightarrow> keyed lt k B"
  by (auto simp: keyed_def)

lemma heap_ordered_Nil [simp]: "heap_ordered k []"
  by (simp add: heap_ordered_def)

text \<open>The heap property with one position excused: every other position has it, and the excused
  position's parent is below its children, so that the element there may move up.\<close>

definition heap_except :: "('a \<Rightarrow> 'k::linorder) \<Rightarrow> nat \<Rightarrow> 'a list \<Rightarrow> bool" where
  "heap_except k pos h \<longleftrightarrow>
     (\<forall>i. 0 < i \<and> i < length h \<and> i \<noteq> pos \<and> parent i \<noteq> pos \<longrightarrow> k (h ! (parent i)) \<le> k (h ! i)) \<and>
     (\<forall>i. 0 < i \<and> i < length h \<and> parent i = pos \<and> 0 < pos \<longrightarrow> k (h ! (parent pos)) \<le> k (h ! i))"

lemma heap_exceptD1:
  "heap_except k pos h \<Longrightarrow> 0 < i \<Longrightarrow> i < length h \<Longrightarrow> i \<noteq> pos \<Longrightarrow> parent i \<noteq> pos \<Longrightarrow>
    k (h ! (parent i)) \<le> k (h ! i)"
  by (auto simp: heap_except_def)

lemma heap_exceptD2:
  "heap_except k pos h \<Longrightarrow> 0 < i \<Longrightarrow> i < length h \<Longrightarrow> parent i = pos \<Longrightarrow> 0 < pos \<Longrightarrow>
    k (h ! (parent pos)) \<le> k (h ! i)"
  by (auto simp: heap_except_def)

lemma heap_except_swap_up:
  assumes "0 < pos" and "pos < length h" and he: "heap_except k pos h"
    and lt: "k (h ! pos) < k (h ! (parent pos))"
  shows "heap_except k (parent pos) (swap h pos (parent pos))"
proof -
  let ?p = "parent pos"
  let ?h = "swap h pos ?p"
  have p: "?p < pos" "?p < length h" using assms parent_less [of pos] by auto
  have nth: "?h ! n = (if n = pos then h ! ?p else if n = ?p then h ! pos else h ! n)" for n
    using assms(2) p by (simp add: nth_swap)
  have "k (?h ! (parent i)) \<le> k (?h ! i)"
    if i: "0 < i" "i < length h" "i \<noteq> ?p" "parent i \<noteq> ?p" for i
  proof (cases "parent i = pos")
    case True
    with parent_less [OF i(1)] have "i \<noteq> pos" by simp
    with heap_exceptD2 [OF he i(1,2) True] assms(1) True i show ?thesis by (simp add: nth)
  next
    case False
    with i have "i \<noteq> pos" by auto
    with heap_exceptD1 [OF he i(1,2)] False i show ?thesis by (simp add: nth)
  qed
  moreover have "k (?h ! (parent ?p)) \<le> k (?h ! i)"
    if i: "0 < i" "i < length h" "parent i = ?p" "0 < ?p" for i
  proof -
    have pp: "parent ?p < ?p" using i(4) by (rule parent_less)
    have gp: "k (h ! (parent ?p)) \<le> k (h ! ?p)"
      using heap_exceptD1 [OF he i(4) p(2)] p pp by auto
    show ?thesis
    proof (cases "i = pos")
      case True
      with gp pp p show ?thesis by (simp add: nth)
    next
      case False
      with heap_exceptD1 [OF he i(1,2)] i p have "k (h ! ?p) \<le> k (h ! i)" by auto
      moreover have "i \<noteq> ?p" using parent_less [OF i(1)] i(3) by simp
      ultimately show ?thesis using False gp pp p by (auto simp: nth)
    qed
  qed
  ultimately show ?thesis by (auto simp: heap_except_def)
qed

lemma siftdown_heap:
  assumes "keyed lt k (set h)" and "pos < length h" and "heap_except k pos h"
    and "\<And>i. 0 < i \<Longrightarrow> i < length h \<Longrightarrow> parent i = pos \<Longrightarrow> k (h ! pos) \<le> k (h ! i)"
  shows "\<exists>h'. siftdown lt pos h = Inr h' \<and> heap_ordered k h'"
  using assms
proof (induction pos arbitrary: h rule: less_induct)
  case (less pos)
  let ?p = "parent pos"
  show ?case
  proof (cases "0 < pos")
    case False
    with less.prems(3,4) have "heap_ordered k h"
      unfolding heap_ordered_def heap_except_def by (metis not_gr0)
    with False show ?thesis by (simp add: siftdown.simps)
  next
    case pos: True
    with less.prems(2) have p: "?p < pos" "?p < length h" using parent_less [of pos] by auto
    have lt: "lt (h ! pos) (h ! ?p) = Inr (k (h ! pos) < k (h ! ?p))"
      using less.prems(1,2) p by (auto intro: keyedD)
    show ?thesis
    proof (cases "k (h ! pos) < k (h ! ?p)")
      case True
      let ?h = "swap h pos ?p"
      have nth: "?h ! n = (if n = pos then h ! ?p else if n = ?p then h ! pos else h ! n)" for n
        using less.prems(2) p by (simp add: nth_swap)
      have "keyed lt k (set ?h)" using less.prems(1,2) p by simp
      moreover have "?p < length ?h" using p by simp
      moreover have "heap_except k ?p ?h"
        by (rule heap_except_swap_up [OF pos less.prems(2,3) True])
      moreover have "k (?h ! ?p) \<le> k (?h ! i)" if i: "0 < i" "i < length ?h" "parent i = ?p" for i
      proof (cases "i = pos")
        case False
        then have "i \<noteq> pos" "parent i \<noteq> pos" "i \<noteq> ?p" using i p parent_less [OF i(1)] by auto
        then have "k (h ! ?p) \<le> k (h ! i)"
          using less.prems(3) i by (auto simp: heap_except_def)
        with True False p i show ?thesis by (auto simp: nth)
      qed (use True p in \<open>auto simp: nth\<close>)
      ultimately obtain h' where "siftdown lt ?p ?h = Inr h'" "heap_ordered k h'"
        using less.IH [OF p(1)] by blast
      with lt pos True show ?thesis by (simp add: siftdown.simps [of lt pos h])
    next
      case False
      have "heap_ordered k h"
        using less.prems(3,4) False unfolding heap_ordered_def heap_except_def
        by (metis not_less)
      with lt pos False show ?thesis by (simp add: siftdown.simps [of lt pos h])
    qed
  qed
qed

text \<open>Moving the smaller child up keeps the property, excused at the child's position.\<close>

lemma parent_cases: "0 < i \<Longrightarrow> parent i = pos \<longleftrightarrow> i = 2 * pos + 1 \<or> i = 2 * pos + 2"
  unfolding parent_def by linarith

lemma smaller_child_ok:
  assumes "keyed lt k (set h)" and "2 * pos + 1 < length h"
  shows "\<exists>c. smaller_child lt pos h = Inr c \<and> 0 < c \<and> c < length h \<and> parent c = pos \<and>
           (\<forall>i. 0 < i \<and> i < length h \<and> parent i = pos \<longrightarrow> k (h ! c) \<le> k (h ! i))"
proof (cases "2 * pos + 2 < length h")
  case True
  let ?a = "2 * pos + 1" and ?b = "2 * pos + 2"
  have lt: "lt (h ! ?a) (h ! ?b) = Inr (k (h ! ?a) < k (h ! ?b))"
    using True assms(2) by (intro keyedD [OF assms(1)] nth_mem)
  let ?c = "if k (h ! ?a) < k (h ! ?b) then ?a else ?b"
  have "k (h ! ?c) \<le> k (h ! i)" if "0 < i" "parent i = pos" for i
    using that parent_cases [of i pos] by (cases "i = ?a") auto
  moreover have "smaller_child lt pos h = Inr ?c"
    using True lt by (simp add: smaller_child_def)
  moreover have "0 < ?c" "?c < length h" using True by auto
  moreover have "parent ?c = pos" by (simp add: parent_cases)
  ultimately show ?thesis by blast
next
  case False
  have "i = 2 * pos + 1" if "0 < i" "i < length h" "parent i = pos" for i
    using that parent_cases [of i pos] False by auto
  then have "k (h ! (2 * pos + 1)) \<le> k (h ! i)" if "0 < i" "i < length h" "parent i = pos" for i
    using that by simp
  moreover have "parent (2 * pos + 1) = pos" by (simp add: parent_cases)
  moreover have "smaller_child lt pos h = Inr (2 * pos + 1)"
    using False by (simp add: smaller_child_def)
  ultimately show ?thesis using assms(2) by (metis zero_less_Suc Suc_eq_plus1)
qed

lemma heap_except_swap_down:
  assumes he: "heap_except k pos h" and c: "0 < c" "c < length h" "parent c = pos"
    and least: "\<And>i. 0 < i \<Longrightarrow> i < length h \<Longrightarrow> parent i = pos \<Longrightarrow> k (h ! c) \<le> k (h ! i)"
  shows "heap_except k c (swap h pos c)"
proof -
  let ?h = "swap h pos c"
  have pos: "pos < c" using parent_less [OF c(1)] c(3) by simp
  with c have nth: "?h ! n = (if n = pos then h ! c else if n = c then h ! pos else h ! n)" for n
    by (auto simp: nth_swap)
  have "k (?h ! parent i) \<le> k (?h ! i)"
    if i: "0 < i" "i < length h" "i \<noteq> c" "parent i \<noteq> c" for i
  proof -
    have ineq: "parent i \<noteq> i" using parent_less [OF i(1)] by simp
    consider "parent i = pos" | "i = pos" "parent i \<noteq> pos" | "i \<noteq> pos" "parent i \<noteq> pos" by blast
    then show ?thesis
    proof cases
      case 1
      with least [OF i(1,2)] ineq i pos show ?thesis by (simp add: nth)
    next
      case 2
      with heap_exceptD2 [OF he c] i show ?thesis by (simp add: nth)
    next
      case 3
      with heap_exceptD1 [OF he i(1,2)] i show ?thesis by (simp add: nth)
    qed
  qed
  moreover have "k (?h ! parent c) \<le> k (?h ! i)"
    if i: "0 < i" "i < length h" "parent i = c" for i
  proof -
    have "c < i" using parent_less [OF i(1)] i(3) by simp
    moreover have "k (h ! c) \<le> k (h ! i)"
      using heap_exceptD1 [OF he i(1,2)] i pos \<open>c < i\<close> by simp
    ultimately show ?thesis using c pos by (simp add: nth)
  qed
  ultimately show ?thesis by (auto simp: heap_except_def)
qed

lemma siftup_heap:
  assumes "keyed lt k (set h)" and "pos < length h" and "heap_except k pos h"
  shows "\<exists>h'. siftup lt pos h = Inr h' \<and> heap_ordered k h'"
  using assms
proof (induction lt pos h rule: siftup.induct)
  case (1 lt pos h)
  show ?case
  proof (cases "2 * pos + 1 < length h")
    case True
    obtain c where c: "smaller_child lt pos h = Inr c" "0 < c" "c < length h" "parent c = pos"
      and least: "\<And>i. 0 < i \<Longrightarrow> i < length h \<Longrightarrow> parent i = pos \<Longrightarrow> k (h ! c) \<le> k (h ! i)"
      using smaller_child_ok [OF "1.prems"(1) True] by blast
    let ?h = "swap h pos c"
    have "keyed lt k (set ?h)" "c < length ?h" using "1.prems"(1,2) c(3) by simp_all
    moreover have "heap_except k c ?h"
      by (rule heap_except_swap_down [OF "1.prems"(3) c(2-4) least])
    ultimately have "\<exists>h'. siftup lt c ?h = Inr h' \<and> heap_ordered k h'"
      by (rule "1.IH" [OF True c(1)])
    with True c(1) show ?thesis by (simp add: siftup.simps [of lt pos h])
  next
    case False
    have "\<exists>h'. siftdown lt pos h = Inr h' \<and> heap_ordered k h'"
      using "1.prems" False by (intro siftdown_heap) (auto simp: parent_cases)
    with False show ?thesis by (simp add: siftup.simps [of lt pos h])
  qed
qed

section \<open>The operations on heaps\<close>

lemma heappush_ok:
  assumes "keyed lt k (insert x (set h))" and "heap_ordered k h"
  shows "\<exists>h'. heappush lt x h = Inr h' \<and> heap_ordered k h' \<and> mset h' = add_mset x (mset h)"
proof -
  have "heap_except k (length h) (h @ [x])"
    unfolding heap_except_def
  proof (intro conjI allI impI; elim conjE)
    fix i assume i: "0 < i" "i < length (h @ [x])" "i \<noteq> length h"
    then have "parent i < length h" using parent_less [of i] by simp
    with i assms(2) show "k ((h @ [x]) ! parent i) \<le> k ((h @ [x]) ! i)"
      by (simp add: heap_ordered_def nth_append)
  next
    fix i assume "0 < i" "i < length (h @ [x])" "parent i = length h"
    then show "k ((h @ [x]) ! parent (length h)) \<le> k ((h @ [x]) ! i)"
      using parent_less [of i] by simp
  qed
  then have "\<exists>h'. siftdown lt (length h) (h @ [x]) = Inr h' \<and> heap_ordered k h'"
  proof (rule siftdown_heap [rotated 2])
    show "keyed lt k (set (h @ [x]))" using assms(1) by simp
    fix i assume "0 < i" "i < length (h @ [x])" "parent i = length h"
    then show "k ((h @ [x]) ! length h) \<le> k ((h @ [x]) ! i)" using parent_less [of i] by simp
  qed simp
  then obtain h' where h': "heappush lt x h = Inr h'" "heap_ordered k h'"
    by (auto simp: heappush_def)
  from heappush_mset [OF h'(1)] h' show ?thesis by blast
qed

lemma heap_ordered_least:
  assumes "heap_ordered k h" and "i < length h"
  shows "k (h ! 0) \<le> k (h ! i)"
  using assms(2)
proof (induction i rule: less_induct)
  case (less i)
  show ?case
  proof (cases "0 < i")
    case True
    have "k (h ! 0) \<le> k (h ! parent i)" using less parent_less [OF True] by simp
    also have "\<dots> \<le> k (h ! i)" using assms(1) True less.prems by (simp add: heap_ordered_def)
    finally show ?thesis .
  qed simp
qed

lemma heap_ordered_hd: "heap_ordered k h \<Longrightarrow> y \<in> set h \<Longrightarrow> k (hd h) \<le> k y"
  by (metis heap_ordered_least hd_conv_nth in_set_conv_nth length_pos_if_in_set length_greater_0_conv)

lemma heappop_ok:
  assumes "keyed lt k (set h)" and "heap_ordered k h" and "h \<noteq> []"
  shows "\<exists>h'. heappop lt h = Inr (hd h, h') \<and> heap_ordered k h'"
proof (cases "butlast h = []")
  case True
  with assms(3) have "last h = hd h" by (metis append_Nil append_butlast_last_id list.sel(1))
  with True assms(3) show ?thesis by (simp add: heappop_def)
next
  case False
  let ?h = "(butlast h)[0 := last h]"
  have "set ?h \<subseteq> set h"
    using False assms(3) by (auto dest!: set_update_subset_insert [THEN subsetD] in_set_butlastD)
  then have "keyed lt k (set ?h)" using assms(1) by (rule keyed_mono [rotated])
  moreover have "heap_except k 0 ?h"
    unfolding heap_except_def
  proof (intro conjI allI impI; elim conjE)
    fix i assume i: "0 < i" "i < length ?h" "i \<noteq> 0" "parent i \<noteq> 0"
    then show "k (?h ! parent i) \<le> k (?h ! i)"
      using assms(2) parent_less [OF i(1)] by (simp add: heap_ordered_def nth_butlast)
  qed simp
  ultimately obtain h' where "siftup lt 0 ?h = Inr h'" "heap_ordered k h'"
    using siftup_heap [of lt k ?h 0] False by (metis length_greater_0_conv length_list_update)
  with False assms(3) show ?thesis by (simp add: heappop_def)
qed

end
