(* ===== verification/PriorityQueue.thy ===== *)
theory PriorityQueue
  imports Heapq
begin

text \<open>
  The class \<open>PriorityQueue\<close> of \<open>queue_job/jobrunner/channels.py\<close>: a binary heap with lazy removal.
  \<open>_known\<close> holds every object of the heap, \<open>_removed\<close> the ones that are only marked as removed. The
  abstraction of a queue is the finite set \<open>_known - _removed\<close>; the interface locale
  \<open>priority_queue\<close> states what each operation does to it, and is interpreted on the code's model
  for every comparison that agrees with a key.
\<close>

section \<open>State and operations\<close>

record 'a PriorityQueue =
  pq_heap :: "'a list"
  pq_known :: "'a set"
  pq_removed :: "'a set"

definition pq_init :: "'a PriorityQueue" where
  "pq_init = \<lparr>pq_heap = [], pq_known = {}, pq_removed = {}\<rparr>"

definition pq_len :: "'a PriorityQueue \<Rightarrow> int" where
  "pq_len q = int (card (pq_known q)) - int (card (pq_removed q))"

text \<open>
  \<open>__getitem__(0)\<close> drops the removed objects that have come to the top of the heap. Its assertion
  compares the popped object with the one read.
\<close>

function pq_getitem0 ::
  "('a \<Rightarrow> 'a \<Rightarrow> bool result) \<Rightarrow> 'a PriorityQueue \<Rightarrow> ('a \<times> 'a PriorityQueue) result" where
  "pq_getitem0 lt q =
     (case pq_heap q of
        [] \<Rightarrow> Inl IndexError
      | x # _ \<Rightarrow>
          if x \<in> pq_removed q
          then rbind (heappop lt (pq_heap q)) (\<lambda>(x2, h).
                 if x2 \<noteq> x then Inl AssertionError
                 else if x \<notin> pq_known q then Inl KeyError
                 else pq_getitem0 lt (q\<lparr>pq_heap := h, pq_known := pq_known q - {x},
                                        pq_removed := pq_removed q - {x}\<rparr>))
          else Inr (x, q))"
  by pat_completeness auto
termination
  by (relation "measure (\<lambda>(lt, q). length (pq_heap q))") (auto dest: heappop_length)

declare pq_getitem0.simps [simp del]

definition pq_getitem ::
  "('a \<Rightarrow> 'a \<Rightarrow> bool result) \<Rightarrow> int \<Rightarrow> 'a PriorityQueue \<Rightarrow> ('a \<times> 'a PriorityQueue) result" where
  "pq_getitem lt i q = (if i \<noteq> 0 then Inl IndexError else pq_getitem0 lt q)"

definition pq_contains :: "'a \<Rightarrow> 'a PriorityQueue \<Rightarrow> bool" where
  "pq_contains x q \<longleftrightarrow> x \<in> pq_known q \<and> x \<notin> pq_removed q"

text \<open>The argument \<open>None\<close> raises; an object is \<open>Some x\<close>.\<close>

definition pq_add ::
  "('a \<Rightarrow> 'a \<Rightarrow> bool result) \<Rightarrow> 'a option \<Rightarrow> 'a PriorityQueue \<Rightarrow> 'a PriorityQueue result" where
  "pq_add lt arg q =
     (case arg of
        None \<Rightarrow> Inl ValueError
      | Some x \<Rightarrow>
          (let q1 = q\<lparr>pq_removed := pq_removed q - {x}\<rparr>
           in if x \<in> pq_known q1 then Inr q1
              else rbind (heappush lt x (pq_heap q1)) (\<lambda>h.
                     Inr (q1\<lparr>pq_known := insert x (pq_known q1), pq_heap := h\<rparr>))))"

definition pq_remove :: "'a option \<Rightarrow> 'a PriorityQueue \<Rightarrow> 'a PriorityQueue result" where
  "pq_remove arg q =
     (case arg of
        None \<Rightarrow> Inl ValueError
      | Some x \<Rightarrow>
          if x \<notin> pq_known q then Inr q
          else Inr (q\<lparr>pq_removed := insert x (pq_removed q)\<rparr>))"

function pq_pop ::
  "('a \<Rightarrow> 'a \<Rightarrow> bool result) \<Rightarrow> 'a PriorityQueue \<Rightarrow> ('a option \<times> 'a PriorityQueue) result" where
  "pq_pop lt q =
     (if pq_heap q = [] then Inr (None, q)
      else rbind (heappop lt (pq_heap q)) (\<lambda>(x, h).
             if x \<notin> pq_known q then Inl KeyError
             else (let q1 = q\<lparr>pq_heap := h, pq_known := pq_known q - {x}\<rparr>
                   in if x \<in> pq_removed q1
                      then pq_pop lt (q1\<lparr>pq_removed := pq_removed q1 - {x}\<rparr>)
                      else Inr (Some x, q1))))"
  by pat_completeness auto
termination
  by (relation "measure (\<lambda>(lt, q). length (pq_heap q))") (auto dest: heappop_length)

declare pq_pop.simps [simp del]

text \<open>
  The truth value of a queue, as \<open>while queue\<close> tests it, is whether its length is non-zero; Python
  refuses a negative length.
\<close>

definition pq_truth :: "'a PriorityQueue \<Rightarrow> bool result" where
  "pq_truth q = (if pq_len q < 0 then Inl ValueError else Inr (pq_len q \<noteq> 0))"

text \<open>The operations only shrink the heap and the known objects, whatever the comparison does.\<close>

lemma pq_getitem0_length:
  "pq_getitem0 lt q = Inr (x, q') \<Longrightarrow>
    length (pq_heap q') \<le> length (pq_heap q) \<and> pq_known q' \<subseteq> pq_known q"
proof (induction lt q arbitrary: x q' rule: pq_getitem0.induct)
  case (1 lt q)
  show ?case
  proof (cases "pq_heap q")
    case Nil
    with "1.prems" show ?thesis by (simp add: pq_getitem0.simps [of lt q])
  next
    case (Cons y t)
    show ?thesis
    proof (cases "y \<in> pq_removed q")
      case True
      with "1.prems" Cons obtain h where h: "heappop lt (pq_heap q) = Inr (y, h)" "y \<in> pq_known q"
        and r: "pq_getitem0 lt (q\<lparr>pq_heap := h, pq_known := pq_known q - {y}, pq_removed := pq_removed q - {y}\<rparr>) = Inr (x, q')"
        by (auto simp: pq_getitem0.simps [of lt q] rbind_eq_Inr split: if_splits)
      have "length (pq_heap q') \<le> length h \<and> pq_known q' \<subseteq> pq_known q - {y}"
        using "1.IH" [OF Cons True h(1) refl _ _ r] h(2) by simp
      with heappop_length [OF h(1)] show ?thesis by auto
    next
      case False
      with "1.prems" Cons show ?thesis by (simp add: pq_getitem0.simps [of lt q])
    qed
  qed
qed

lemma pq_pop_length:
  "pq_pop lt q = Inr (r, q') \<Longrightarrow>
    length (pq_heap q') \<le> length (pq_heap q) \<and> pq_known q' \<subseteq> pq_known q \<and>
    (r \<noteq> None \<longrightarrow> length (pq_heap q') < length (pq_heap q)) \<and>
    (\<forall>x. r = Some x \<longrightarrow> x \<notin> pq_known q')"
proof (induction lt q arbitrary: r q' rule: pq_pop.induct)
  case (1 lt q)
  show ?case
  proof (cases "pq_heap q = []")
    case True
    with "1.prems" show ?thesis by (simp add: pq_pop.simps [of lt q])
  next
    case False
    with "1.prems" obtain x h where h: "heappop lt (pq_heap q) = Inr (x, h)" "x \<in> pq_known q"
      and r: "(if x \<in> pq_removed q
        then pq_pop lt (q\<lparr>pq_heap := h, pq_known := pq_known q - {x}, pq_removed := pq_removed q - {x}\<rparr>)
        else Inr (Some x, q\<lparr>pq_heap := h, pq_known := pq_known q - {x}\<rparr>)) = Inr (r, q')"
      by (auto simp: pq_pop.simps [of lt q] rbind_eq_Inr Let_def split: if_splits)
    have "length (pq_heap q') \<le> length h \<and> pq_known q' \<subseteq> pq_known q \<and>
        (\<forall>x. r = Some x \<longrightarrow> x \<notin> pq_known q')"
    proof (cases "x \<in> pq_removed q")
      case True
      from True r have r': "pq_pop lt (q\<lparr>pq_heap := h, pq_known := pq_known q - {x}, pq_removed := pq_removed q - {x}\<rparr>) = Inr (r, q')"
        by simp
      from "1.IH" [OF False h(1) refl _ refl _ , of r q'] True h(2) r' show ?thesis by auto
    qed (use r in auto)
    with heappop_length [OF h(1)] show ?thesis by simp
  qed
qed

lemma heappush_length: "heappush lt x h = Inr h' \<Longrightarrow> length h' = Suc (length h)"
  by (metis heappush_mset size_add_mset size_mset)

lemma pq_add_length:
  "pq_add lt (Some x) q = Inr q' \<Longrightarrow>
    length (pq_heap q') \<le> Suc (length (pq_heap q)) \<and> pq_known q' \<subseteq> insert x (pq_known q)"
  by (auto simp: pq_add_def rbind_eq_Inr Let_def split: option.splits if_splits dest: heappush_length)

section \<open>The interface\<close>

text \<open>
  What a client relies on, over the abstract set of objects: adding, removing and testing act as on
  a set; reading and popping give an object with the least key. \<open>A\<close> is the set of the objects the
  comparison is meant for.
\<close>

locale priority_queue =
  fixes A :: "'a set"
    and k :: "'a \<Rightarrow> 'k::linorder"
    and elems :: "'q \<Rightarrow> 'a set"
    and invar :: "'q \<Rightarrow> bool"
    and usable :: bool
    and empty :: "'q"
    and len :: "'q \<Rightarrow> int"
    and contains :: "'a \<Rightarrow> 'q \<Rightarrow> bool"
    and peek :: "'q \<Rightarrow> ('a \<times> 'q) result"
    and add :: "'a \<Rightarrow> 'q \<Rightarrow> 'q result"
    and remove :: "'a \<Rightarrow> 'q \<Rightarrow> 'q result"
    and pop :: "'q \<Rightarrow> ('a option \<times> 'q) result"
  assumes elems_finite: "invar q \<Longrightarrow> finite (elems q)"
    and elems_carrier: "invar q \<Longrightarrow> elems q \<subseteq> A"
    and invar_empty: "usable \<Longrightarrow> invar empty" and elems_empty: "elems empty = {}"
    and len_eq: "invar q \<Longrightarrow> len q = int (card (elems q))"
    and contains_eq: "invar q \<Longrightarrow> contains x q \<longleftrightarrow> x \<in> elems q"
    and peek_nonempty: "invar q \<Longrightarrow> elems q \<noteq> {} \<Longrightarrow>
      \<exists>x q'. peek q = Inr (x, q') \<and> invar q' \<and> elems q' = elems q \<and> x \<in> elems q \<and> (\<forall>y\<in>elems q. k x \<le> k y)"
    and add_ok: "invar q \<Longrightarrow> x \<in> A \<Longrightarrow> \<exists>q'. add x q = Inr q' \<and> invar q' \<and> elems q' = insert x (elems q)"
    and remove_ok: "invar q \<Longrightarrow> \<exists>q'. remove x q = Inr q' \<and> invar q' \<and> elems q' = elems q - {x}"
    and pop_empty: "invar q \<Longrightarrow> elems q = {} \<Longrightarrow> \<exists>q'. pop q = Inr (None, q') \<and> invar q' \<and> elems q' = {}"
    and pop_nonempty: "invar q \<Longrightarrow> elems q \<noteq> {} \<Longrightarrow>
      \<exists>x q'. pop q = Inr (Some x, q') \<and> invar q' \<and> x \<in> elems q \<and> elems q' = elems q - {x} \<and>
             (\<forall>y\<in>elems q. k x \<le> k y)"
begin

lemma len_pos: "invar q \<Longrightarrow> 0 < len q \<longleftrightarrow> elems q \<noteq> {}"
  by (simp add: len_eq card_gt_0_iff elems_finite)

lemma len_zero: "invar q \<Longrightarrow> len q = 0 \<longleftrightarrow> elems q = {}"
  by (simp add: len_eq elems_finite)

lemma pop_total: "invar q \<Longrightarrow> \<exists>r q'. pop q = Inr (r, q') \<and> invar q'"
  by (cases "elems q = {}") (blast dest: pop_empty pop_nonempty)+

lemma pop_SomeD:
  assumes "invar q" and "pop q = Inr (Some x, q')"
  shows "invar q' \<and> x \<in> elems q \<and> elems q' = elems q - {x} \<and> (\<forall>y\<in>elems q. k x \<le> k y)"
proof (cases "elems q = {}")
  case True
  with pop_empty [OF assms(1)] assms(2) show ?thesis by auto
next
  case False
  with pop_nonempty [OF assms(1)] assms(2) show ?thesis by auto
qed

lemma pop_NoneD: "invar q \<Longrightarrow> pop q = Inr (None, q') \<Longrightarrow> invar q' \<and> elems q = {} \<and> elems q' = {}"
  using pop_empty [of q] pop_nonempty [of q] by (cases "elems q = {}") auto

lemma peekD:
  assumes "invar q" and "elems q \<noteq> {}" and "peek q = Inr (x, q')"
  shows "invar q' \<and> elems q' = elems q \<and> x \<in> elems q \<and> (\<forall>y\<in>elems q. k x \<le> k y)"
  using peek_nonempty [OF assms(1,2)] assms(3) by auto

lemma addD: "invar q \<Longrightarrow> x \<in> A \<Longrightarrow> add x q = Inr q' \<Longrightarrow> invar q' \<and> elems q' = insert x (elems q)"
  using add_ok [of q x] by auto

lemma removeD: "invar q \<Longrightarrow> remove x q = Inr q' \<Longrightarrow> invar q' \<and> elems q' = elems q - {x}"
  using remove_ok [of q x] by auto

text \<open>An object that is removed and added again is there once, and one that sorts before all
  others is the next one popped.\<close>

lemma pop_after_add:
  assumes "invar q" and "x \<in> A" and "\<And>y. y \<in> elems q \<Longrightarrow> y \<noteq> x \<Longrightarrow> k x < k y"
    and "add x q = Inr q'"
  shows "\<exists>q''. pop q' = Inr (Some x, q'') \<and> elems q'' = elems q - {x}"
proof -
  from addD [OF assms(1,2,4)] have q': "invar q'" "elems q' = insert x (elems q)" by auto
  then obtain z q'' where z: "pop q' = Inr (Some z, q'')" "z \<in> elems q'" "elems q'' = elems q' - {z}"
    "\<forall>y\<in>elems q'. k z \<le> k y"
    using pop_nonempty [of q'] by auto
  then have "z = x" using assms(3) [of z] q'(2) by (metis insertE insertI1 not_less)
  with z q'(2) show ?thesis by auto
qed

end

section \<open>The model satisfies the interface\<close>

definition pq_abs :: "'a PriorityQueue \<Rightarrow> 'a set" where
  "pq_abs q = pq_known q - pq_removed q"

definition pq_inv ::
  "('a \<Rightarrow> 'a \<Rightarrow> bool result) \<Rightarrow> ('a \<Rightarrow> 'k::linorder) \<Rightarrow> 'a set \<Rightarrow> 'a PriorityQueue \<Rightarrow> bool" where
  "pq_inv lt k A q \<longleftrightarrow>
     keyed lt k A \<and> pq_known q = set (pq_heap q) \<and> distinct (pq_heap q) \<and>
     pq_removed q \<subseteq> pq_known q \<and> pq_known q \<subseteq> A \<and> heap_ordered k (pq_heap q)"

lemma pq_inv_init: "keyed lt k A \<Longrightarrow> pq_inv lt k A pq_init"
  by (simp add: pq_inv_def pq_init_def)

lemma pq_abs_init [simp]: "pq_abs pq_init = {}"
  by (simp add: pq_abs_def pq_init_def)

lemma pq_inv_finite: "pq_inv lt k A q \<Longrightarrow> finite (pq_known q)"
  by (simp add: pq_inv_def)

lemma pq_len_abs: "pq_inv lt k A q \<Longrightarrow> pq_len q = int (card (pq_abs q))"
proof -
  assume inv: "pq_inv lt k A q"
  then have sub: "pq_removed q \<subseteq> pq_known q" and fin: "finite (pq_known q)"
    by (auto simp: pq_inv_def)
  then have "card (pq_abs q) = card (pq_known q) - card (pq_removed q)"
    unfolding pq_abs_def by (intro card_Diff_subset) (auto intro: finite_subset)
  with card_mono [OF fin sub] show ?thesis by (simp add: pq_len_def of_nat_diff)
qed

lemma pq_contains_abs: "pq_contains x q \<longleftrightarrow> x \<in> pq_abs q"
  by (simp add: pq_contains_def pq_abs_def)

text \<open>One turn of the two loops: the object at the top of the heap leaves it.\<close>

lemma heappop_pq:
  assumes "pq_inv lt k A q" and "pq_heap q = x # t"
  obtains h where "heappop lt (pq_heap q) = Inr (x, h)"
    and "pq_inv lt k A (q\<lparr>pq_heap := h, pq_known := pq_known q - {x}, pq_removed := pq_removed q - {x}\<rparr>)"
    and "length h < length (pq_heap q)"
proof -
  have kd: "keyed lt k (set (pq_heap q))"
    by (rule keyed_mono [of lt k A]) (use assms in \<open>auto simp: pq_inv_def\<close>)
  from heappop_ok [OF kd] assms obtain h where h: "heappop lt (pq_heap q) = Inr (x, h)"
    and ho: "heap_ordered k h"
    by (auto simp: pq_inv_def)
  from heappop_mset [OF h] have ms: "mset (pq_heap q) = add_mset x (mset h)" by simp
  have "distinct (pq_heap q)" using assms(1) by (simp add: pq_inv_def)
  then have d: "distinct h" "x \<notin> set h" using mset_Cons_distinct [OF ms] by auto
  from ms have "set (pq_heap q) = insert x (set h)" by (rule mset_Cons_set)
  with d assms(1) ho
  have "pq_inv lt k A (q\<lparr>pq_heap := h, pq_known := pq_known q - {x}, pq_removed := pq_removed q - {x}\<rparr>)"
    by (auto simp: pq_inv_def)
  with h heappop_length [OF h] show thesis by (intro that) auto
qed

lemma pq_getitem0_ok:
  assumes "pq_inv lt k A q" and "pq_abs q \<noteq> {}"
  shows "\<exists>x q'. pq_getitem0 lt q = Inr (x, q') \<and> pq_inv lt k A q' \<and> pq_abs q' = pq_abs q \<and>
           x \<in> pq_abs q \<and> (\<forall>y\<in>pq_abs q. k x \<le> k y)"
  using assms
proof (induction "length (pq_heap q)" arbitrary: q rule: less_induct)
  case less
  from less.prems obtain x t where heap: "pq_heap q = x # t"
    by (cases "pq_heap q") (auto simp: pq_inv_def pq_abs_def)
  then have xk: "x \<in> pq_known q" using less.prems(1) by (simp add: pq_inv_def)
  show ?case
  proof (cases "x \<in> pq_removed q")
    case True
    obtain h where h: "heappop lt (pq_heap q) = Inr (x, h)" "length h < length (pq_heap q)"
      and inv: "pq_inv lt k A (q\<lparr>pq_heap := h, pq_known := pq_known q - {x}, pq_removed := pq_removed q - {x}\<rparr>)"
      by (rule heappop_pq [OF less.prems(1) heap])
    have "pq_abs (q\<lparr>pq_heap := h, pq_known := pq_known q - {x}, pq_removed := pq_removed q - {x}\<rparr>) = pq_abs q"
      using True by (auto simp: pq_abs_def)
    with less.hyps [OF _ inv] h(2) less.prems(2) h(1) heap True xk show ?thesis
      by (simp add: pq_getitem0.simps [of lt q])
  next
    case False
    have "k x \<le> k y" if "y \<in> pq_abs q" for y
      using that less.prems(1) heap heap_ordered_hd [of k "pq_heap q" y]
      by (auto simp: pq_inv_def pq_abs_def)
    with False heap xk less.prems show ?thesis
      by (simp add: pq_getitem0.simps [of lt q] pq_abs_def)
  qed
qed

lemma pq_pop_ok:
  assumes "pq_inv lt k A q"
  shows "\<exists>r q'. pq_pop lt q = Inr (r, q') \<and> pq_inv lt k A q' \<and>
           (case r of None \<Rightarrow> pq_abs q = {} \<and> pq_abs q' = {}
            | Some x \<Rightarrow> x \<in> pq_abs q \<and> pq_abs q' = pq_abs q - {x} \<and> (\<forall>y\<in>pq_abs q. k x \<le> k y))"
  using assms
proof (induction "length (pq_heap q)" arbitrary: q rule: less_induct)
  case less
  show ?case
  proof (cases "pq_heap q")
    case Nil
    with less.prems have "pq_abs q = {}" by (auto simp: pq_inv_def pq_abs_def)
    with Nil less.prems show ?thesis by (simp add: pq_pop.simps [of lt q])
  next
    case (Cons x t)
    then have xk: "x \<in> pq_known q" using less.prems by (simp add: pq_inv_def)
    obtain h where h: "heappop lt (pq_heap q) = Inr (x, h)" "length h < length (pq_heap q)"
      and inv: "pq_inv lt k A (q\<lparr>pq_heap := h, pq_known := pq_known q - {x}, pq_removed := pq_removed q - {x}\<rparr>)"
      by (rule heappop_pq [OF less.prems Cons])
    show ?thesis
    proof (cases "x \<in> pq_removed q")
      case True
      let ?q = "q\<lparr>pq_heap := h, pq_known := pq_known q - {x}, pq_removed := pq_removed q - {x}\<rparr>"
      have abs: "pq_abs ?q = pq_abs q" using True by (auto simp: pq_abs_def)
      have eq: "pq_pop lt q = pq_pop lt ?q"
        using h(1) Cons True xk by (simp add: pq_pop.simps [of lt q])
      have "length (pq_heap ?q) < length (pq_heap q)" using h(2) by simp
      from less.hyps [OF this inv] show ?thesis unfolding eq abs .
    next
      case False
      have "k x \<le> k y" if "y \<in> pq_abs q" for y
        using that less.prems Cons heap_ordered_hd [of k "pq_heap q" y]
        by (auto simp: pq_inv_def pq_abs_def)
      moreover from False have "pq_removed q - {x} = pq_removed q" by auto
      ultimately show ?thesis using False h Cons xk inv
        by (auto simp: pq_pop.simps [of lt q] pq_abs_def)
    qed
  qed
qed

lemma pq_add_ok:
  assumes "pq_inv lt k A q" and "x \<in> A"
  shows "\<exists>q'. pq_add lt (Some x) q = Inr q' \<and> pq_inv lt k A q' \<and> pq_abs q' = insert x (pq_abs q)"
proof (cases "x \<in> pq_known q")
  case True
  with assms show ?thesis by (auto simp: pq_add_def pq_inv_def pq_abs_def)
next
  case False
  have "keyed lt k (insert x (set (pq_heap q)))"
    by (rule keyed_mono [of lt k A]) (use assms in \<open>auto simp: pq_inv_def\<close>)
  moreover have "heap_ordered k (pq_heap q)" using assms(1) by (simp add: pq_inv_def)
  ultimately obtain h where h: "heappush lt x (pq_heap q) = Inr h" "heap_ordered k h"
    "mset h = add_mset x (mset (pq_heap q))"
    using heappush_ok [of lt k x "pq_heap q"] by auto
  let ?q = "q\<lparr>pq_heap := h, pq_known := insert x (pq_known q), pq_removed := pq_removed q - {x}\<rparr>"
  have "pq_add lt (Some x) q = Inr ?q" using False h(1) by (simp add: pq_add_def)
  moreover have "pq_inv lt k A ?q"
    using mset_Cons_set [OF h(3)] mset_Cons_distinct [OF h(3)] False h(2) assms
    by (auto simp: pq_inv_def)
  moreover have "pq_abs ?q = insert x (pq_abs q)" by (auto simp: pq_abs_def)
  ultimately show ?thesis by blast
qed

lemma pq_remove_ok:
  "pq_inv lt k A q \<Longrightarrow> \<exists>q'. pq_remove (Some x) q = Inr q' \<and> pq_inv lt k A q' \<and> pq_abs q' = pq_abs q - {x}"
  by (auto simp: pq_remove_def pq_inv_def pq_abs_def)

interpretation pq: priority_queue A k pq_abs "pq_inv lt k A" "keyed lt k A" pq_init
    pq_len pq_contains "pq_getitem0 lt" "\<lambda>x. pq_add lt (Some x)" "\<lambda>x. pq_remove (Some x)" "pq_pop lt"
  for A :: "'a set" and k :: "'a \<Rightarrow> 'k::linorder" and lt
proof unfold_locales
  fix q :: "'a PriorityQueue"
  assume inv: "pq_inv lt k A q"
  then show "finite (pq_abs q)" "pq_abs q \<subseteq> A" by (auto simp: pq_inv_def pq_abs_def)
  show "pq_len q = int (card (pq_abs q))" using inv by (rule pq_len_abs)
  show "\<exists>q'. pq_pop lt q = Inr (None, q') \<and> pq_inv lt k A q' \<and> pq_abs q' = {}" if "pq_abs q = {}"
    using pq_pop_ok [OF inv] that by (auto split: option.splits)
  show "\<exists>x q'. pq_pop lt q = Inr (Some x, q') \<and> pq_inv lt k A q' \<and> x \<in> pq_abs q \<and>
      pq_abs q' = pq_abs q - {x} \<and> (\<forall>y\<in>pq_abs q. k x \<le> k y)" if "pq_abs q \<noteq> {}"
    using pq_pop_ok [OF inv] that by (auto split: option.splits)
qed (simp_all add: pq_inv_init pq_contains_abs pq_getitem0_ok pq_add_ok pq_remove_ok)

end
