(* ===== verification/ChannelQueue.thy ===== *)
theory ChannelQueue
  imports PriorityQueue
begin

text \<open>
  The classes \<open>ChannelJob\<close> and \<open>ChannelQueue\<close> of \<open>queue_job/jobrunner/channels.py\<close>. Jobs are
  objects that several queues share and that \<open>set_no_eta\<close> mutates, so they live in a store from
  identities to records and the queues hold identities. Timestamps are integers in one unit.
\<close>

section \<open>Jobs\<close>

record JobSortingKey =
  sk_eta :: "int option"
  sk_priority :: int
  sk_date_created :: int
  sk_seq :: int

text \<open>A channel is identified by the list of names below the root channel.\<close>

type_synonym chan_path = "string list"

record ChannelJob =
  cj_db_name :: string
  cj_channel :: chan_path
  cj_uuid :: string
  cj_key :: JobSortingKey

type_synonym jid = nat
type_synonym jobs = "jid \<Rightarrow> ChannelJob"

definition cj_init ::
  "string \<Rightarrow> chan_path \<Rightarrow> string \<Rightarrow> int \<Rightarrow> int \<Rightarrow> int \<Rightarrow> int option \<Rightarrow> ChannelJob" where
  "cj_init db channel uuid seq date_created priority eta =
     \<lparr>cj_db_name = db, cj_channel = channel, cj_uuid = uuid,
      cj_key = \<lparr>sk_eta = eta, sk_priority = priority, sk_date_created = date_created, sk_seq = seq\<rparr>\<rparr>"

definition cj_eta :: "ChannelJob \<Rightarrow> int option" where
  "cj_eta j = sk_eta (cj_key j)"

definition set_no_eta :: "jid \<Rightarrow> jobs \<Rightarrow> jobs" where
  "set_no_eta j js = js(j := (js j)\<lparr>cj_key := (cj_key (js j))\<lparr>sk_eta := None\<rparr>\<rparr>)"

text \<open>\<open>_sorting_key[1:]\<close>, compared as a tuple of integers.\<close>

definition sorting_key_ignoring_eta :: "ChannelJob \<Rightarrow> int \<times> int \<times> int" where
  "sorting_key_ignoring_eta j =
     (sk_priority (cj_key j), sk_date_created (cj_key j), sk_seq (cj_key j))"

text \<open>
  \<open>__lt__\<close> compares the named tuples: the first components that differ decide. When the etas differ
  and one of them is \<open>None\<close>, the comparison raises.
\<close>

definition key_lt :: "JobSortingKey \<Rightarrow> JobSortingKey \<Rightarrow> bool result" where
  "key_lt a b =
     (if sk_eta a \<noteq> sk_eta b
      then (case (sk_eta a, sk_eta b) of
              (Some x, Some y) \<Rightarrow> Inr (x < y)
            | _ \<Rightarrow> Inl TypeError)
      else if sk_priority a \<noteq> sk_priority b then Inr (sk_priority a < sk_priority b)
      else if sk_date_created a \<noteq> sk_date_created b then Inr (sk_date_created a < sk_date_created b)
      else Inr (sk_seq a < sk_seq b))"

definition job_lt :: "jobs \<Rightarrow> jid \<Rightarrow> jid \<Rightarrow> bool result" where
  "job_lt js a b = key_lt (cj_key (js a)) (cj_key (js b))"

text \<open>\<open>if job.eta\<close>: neither \<open>None\<close> nor \<open>0\<close>.\<close>

definition eta_set :: "int option \<Rightarrow> bool" where
  "eta_set e = (case e of None \<Rightarrow> False | Some t \<Rightarrow> t \<noteq> 0)"

section \<open>Operations of the queue\<close>

record ChannelQueue =
  cq_queue :: "jid PriorityQueue"
  cq_eta_queue :: "jid PriorityQueue"
  cq_sequential :: bool

definition cq_init :: "bool \<Rightarrow> ChannelQueue" where
  "cq_init sequential = \<lparr>cq_queue = pq_init, cq_eta_queue = pq_init, cq_sequential = sequential\<rparr>"

definition cq_len :: "ChannelQueue \<Rightarrow> int" where
  "cq_len q = pq_len (cq_eta_queue q) + pq_len (cq_queue q)"

definition cq_contains :: "jid \<Rightarrow> ChannelQueue \<Rightarrow> bool" where
  "cq_contains j q \<longleftrightarrow> pq_contains j (cq_eta_queue q) \<or> pq_contains j (cq_queue q)"

definition cq_add :: "jobs \<Rightarrow> jid \<Rightarrow> ChannelQueue \<Rightarrow> ChannelQueue result" where
  "cq_add js j q =
     (if eta_set (cj_eta (js j))
      then rbind (pq_add (job_lt js) (Some j) (cq_eta_queue q)) (\<lambda>p. Inr (q\<lparr>cq_eta_queue := p\<rparr>))
      else rbind (pq_add (job_lt js) (Some j) (cq_queue q)) (\<lambda>p. Inr (q\<lparr>cq_queue := p\<rparr>)))"

definition cq_remove :: "jid \<Rightarrow> ChannelQueue \<Rightarrow> ChannelQueue result" where
  "cq_remove j q =
     rbind (pq_remove (Some j) (cq_eta_queue q)) (\<lambda>pe.
     rbind (pq_remove (Some j) (cq_queue q)) (\<lambda>p.
     Inr (q\<lparr>cq_queue := p, cq_eta_queue := pe\<rparr>)))"

text \<open>
  The first loop of \<open>pop\<close>: while the queue of jobs with an eta is not empty and its first eta is not
  after \<open>now\<close>, that job loses its eta and moves to the other queue. Popping \<open>None\<close> would make the
  call of \<open>set_no_eta\<close> raise; an eta of \<open>None\<close> would make the comparison with \<open>now\<close> raise.
\<close>

function cq_move_due :: "int \<Rightarrow> jobs \<Rightarrow> ChannelQueue \<Rightarrow> (jobs \<times> ChannelQueue) result" where
  "cq_move_due now js q =
     rbind (pq_truth (cq_eta_queue q)) (\<lambda>nonempty.
     if \<not> nonempty then Inr (js, q)
     else rbind (pq_getitem (job_lt js) 0 (cq_eta_queue q)) (\<lambda>(top, eq).
       case cj_eta (js top) of
         None \<Rightarrow> Inl TypeError
       | Some e \<Rightarrow>
           if \<not> e \<le> now then Inr (js, q\<lparr>cq_eta_queue := eq\<rparr>)
           else rbind (pq_pop (job_lt js) eq) (\<lambda>(r, eq').
             case r of
               None \<Rightarrow> Inl AttributeError
             | Some eta_job \<Rightarrow>
                 rbind (pq_add (job_lt (set_no_eta eta_job js)) (Some eta_job) (cq_queue q)) (\<lambda>nq.
                   cq_move_due now (set_no_eta eta_job js) (q\<lparr>cq_queue := nq, cq_eta_queue := eq'\<rparr>)))))"
  by pat_completeness auto
termination
  by (relation "measure (\<lambda>(now, js, q). length (pq_heap (cq_eta_queue q)))")
     (auto simp: pq_getitem_def dest!: pq_getitem0_length pq_pop_length)

declare cq_move_due.simps [simp del]

text \<open>
  \<open>pop\<close>: after that loop, a sequential queue whose first job with an eta sorts before its first job
  without one (etas ignored) waits; otherwise the first job without an eta is popped.
\<close>

definition cq_pop :: "int \<Rightarrow> jobs \<Rightarrow> ChannelQueue \<Rightarrow> (jid option \<times> jobs \<times> ChannelQueue) result" where
  "cq_pop now js0 q0 =
     rbind (cq_move_due now js0 q0) (\<lambda>(js, q).
     rbind (if cq_sequential q
            then rbind (pq_truth (cq_eta_queue q)) (\<lambda>b. if b then pq_truth (cq_queue q) else Inr False)
            else Inr False) (\<lambda>check.
     rbind (if check
            then rbind (pq_getitem (job_lt js) 0 (cq_eta_queue q)) (\<lambda>(eta_job, eq).
                 rbind (pq_getitem (job_lt js) 0 (cq_queue q)) (\<lambda>(job, nq).
                 Inr (sorting_key_ignoring_eta (js eta_job) < sorting_key_ignoring_eta (js job),
                      q\<lparr>cq_queue := nq, cq_eta_queue := eq\<rparr>)))
            else Inr (False, q)) (\<lambda>(wait, q1).
     if wait then Inr (None, js, q1)
     else rbind (pq_pop (job_lt js) (cq_queue q1)) (\<lambda>(r, nq).
            Inr (r, js, q1\<lparr>cq_queue := nq\<rparr>)))))"

text \<open>A job that is popped leaves the two heaps together shorter, whatever the comparison does.\<close>

definition cq_size :: "ChannelQueue \<Rightarrow> nat" where
  "cq_size q = length (pq_heap (cq_queue q)) + length (pq_heap (cq_eta_queue q))"

lemma pq_getitem_length: "pq_getitem lt i q = Inr (x, q') \<Longrightarrow> length (pq_heap q') \<le> length (pq_heap q)"
  using pq_getitem0_length [of lt q x q'] by (simp add: pq_getitem_def split: if_splits)

lemma cq_move_due_cases:
  assumes "cq_move_due now js q = Inr (js', q')"
  obtains "q' = q" "js' = js"
    | top eq where "pq_getitem (job_lt js) 0 (cq_eta_queue q) = Inr (top, eq)" "q' = q\<lparr>cq_eta_queue := eq\<rparr>"
    | top eq e j eq' nq where "pq_truth (cq_eta_queue q) = Inr True"
        "pq_getitem (job_lt js) 0 (cq_eta_queue q) = Inr (top, eq)" "cj_eta (js top) = Some e" "e \<le> now"
        "pq_pop (job_lt js) eq = Inr (Some j, eq')"
        "pq_add (job_lt (set_no_eta j js)) (Some j) (cq_queue q) = Inr nq"
        "cq_move_due now (set_no_eta j js) (q\<lparr>cq_queue := nq, cq_eta_queue := eq'\<rparr>) = Inr (js', q')"
proof -
  from assms obtain b where b: "pq_truth (cq_eta_queue q) = Inr b"
    by (subst (asm) cq_move_due.simps) (auto elim: rbindE)
  show thesis
  proof (cases b)
    case False
    with assms b that(1) show thesis by (simp add: cq_move_due.simps [of now js q])
  next
    case True
    with assms b obtain top eq e where t: "pq_getitem (job_lt js) 0 (cq_eta_queue q) = Inr (top, eq)"
      "cj_eta (js top) = Some e"
      by (simp add: cq_move_due.simps [of now js q]) (auto elim!: rbindE split: option.split_asm)
    show thesis
    proof (cases "e \<le> now")
      case False
      with assms b t True that(2) show thesis by (simp add: cq_move_due.simps [of now js q])
    next
      case le: True
      from assms b t True le have "rbind (pq_pop (job_lt js) eq) (\<lambda>(r, eq').
          case r of None \<Rightarrow> Inl AttributeError
          | Some j \<Rightarrow> rbind (pq_add (job_lt (set_no_eta j js)) (Some j) (cq_queue q)) (\<lambda>nq.
              cq_move_due now (set_no_eta j js) (q\<lparr>cq_queue := nq, cq_eta_queue := eq'\<rparr>))) = Inr (js', q')"
        by (simp add: cq_move_due.simps [of now js q])
      then obtain j eq' nq where "pq_pop (job_lt js) eq = Inr (Some j, eq')"
        "pq_add (job_lt (set_no_eta j js)) (Some j) (cq_queue q) = Inr nq"
        "cq_move_due now (set_no_eta j js) (q\<lparr>cq_queue := nq, cq_eta_queue := eq'\<rparr>) = Inr (js', q')"
        by (elim rbindE) (auto elim!: rbindE split: option.split_asm)
      with b t True le that(3) show thesis by simp
    qed
  qed
qed

lemma cq_move_due_size: "cq_move_due now js q = Inr (js', q') \<Longrightarrow> cq_size q' \<le> cq_size q"
proof (induction now js q arbitrary: js' q' rule: cq_move_due.induct)
  case (1 now js q)
  show ?case
    using "1.prems"
  proof (cases rule: cq_move_due_cases)
    case 1
    then show ?thesis by simp
  next
    case 2
    then show ?thesis using pq_getitem_length [OF 2(1)] by (simp add: cq_size_def)
  next
    case (3 top eq e j eq' nq)
    have "cq_size q' \<le> cq_size (q\<lparr>cq_queue := nq, cq_eta_queue := eq'\<rparr>)"
      using "1.IH" [OF 3(1) _ 3(2) refl 3(3) _ 3(5) refl refl 3(6) 3(7)] 3(4) by simp
    also have "\<dots> \<le> cq_size q"
      using pq_getitem_length [OF 3(2)] pq_pop_length [OF 3(5)] pq_add_length [OF 3(6)]
      by (simp add: cq_size_def)
    finally show ?thesis .
  qed
qed

lemma cq_pop_size: "cq_pop now js q = Inr (Some j, js', q') \<Longrightarrow> cq_size q' < cq_size q"
proof -
  assume "cq_pop now js q = Inr (Some j, js', q')"
  then obtain q1 q2 nq where q1: "cq_move_due now js q = Inr (js', q1)"
    and q2: "q2 = q1 \<or> (\<exists>x y eq nq. pq_getitem (job_lt js') 0 (cq_eta_queue q1) = Inr (x, eq) \<and>
        pq_getitem (job_lt js') 0 (cq_queue q1) = Inr (y, nq) \<and> q2 = q1\<lparr>cq_queue := nq, cq_eta_queue := eq\<rparr>)"
    and nq: "pq_pop (job_lt js') (cq_queue q2) = Inr (Some j, nq)"
      "cq_size q' = length (pq_heap nq) + length (pq_heap (cq_eta_queue q2))"
    by (fastforce simp: cq_pop_def cq_size_def elim!: rbindE split: if_split_asm prod.split_asm)
  have "cq_size q2 \<le> cq_size q1" using q2 by (auto simp: cq_size_def dest!: pq_getitem_length)
  with cq_move_due_size [OF q1] nq(2) pq_pop_length [OF nq(1)] show ?thesis by (simp add: cq_size_def)
qed

text \<open>
  Wakeup times are falsy when there is nothing to wake up for; \<open>0\<close> stands for that. Reading the top
  of the queue may drop removed jobs, so the queue is returned as well.
\<close>

definition cq_get_wakeup_time :: "jobs \<Rightarrow> int \<Rightarrow> ChannelQueue \<Rightarrow> (int \<times> ChannelQueue) result" where
  "cq_get_wakeup_time js wakeup_time q =
     rbind (pq_truth (cq_eta_queue q)) (\<lambda>nonempty.
     if \<not> nonempty then Inr (wakeup_time, q)
     else rbind (pq_getitem (job_lt js) 0 (cq_eta_queue q)) (\<lambda>(top, eq).
       if wakeup_time = 0
       then Inr (case cj_eta (js top) of None \<Rightarrow> 0 | Some e \<Rightarrow> e, q\<lparr>cq_eta_queue := eq\<rparr>)
       else (case cj_eta (js top) of
               None \<Rightarrow> Inl TypeError
             | Some e \<Rightarrow> Inr (min wakeup_time e, q\<lparr>cq_eta_queue := eq\<rparr>))))"

section \<open>Well-formed queues\<close>

text \<open>
  The jobs of the first queue have no eta, those of the second have one, so that the comparison is
  total on either of them and agrees with the key.
\<close>

definition job_key :: "jobs \<Rightarrow> jid \<Rightarrow> int \<times> int \<times> int \<times> int" where
  "job_key js j = (case cj_eta (js j) of None \<Rightarrow> 0 | Some e \<Rightarrow> e, sorting_key_ignoring_eta (js j))"

definition no_eta :: "jobs \<Rightarrow> jid set" where
  "no_eta js = {j. cj_eta (js j) = None}"

definition with_eta :: "jobs \<Rightarrow> jid set" where
  "with_eta js = {j. eta_set (cj_eta (js j))}"

abbreviation nq_inv :: "jobs \<Rightarrow> jid PriorityQueue \<Rightarrow> bool" where
  "nq_inv js \<equiv> pq_inv (job_lt js) (job_key js) (no_eta js)"

abbreviation eq_inv :: "jobs \<Rightarrow> jid PriorityQueue \<Rightarrow> bool" where
  "eq_inv js \<equiv> pq_inv (job_lt js) (job_key js) (with_eta js)"

definition cq_inv :: "jobs \<Rightarrow> ChannelQueue \<Rightarrow> bool" where
  "cq_inv js q \<longleftrightarrow> nq_inv js (cq_queue q) \<and> eq_inv js (cq_eta_queue q)"

definition cq_now :: "ChannelQueue \<Rightarrow> jid set" where
  "cq_now q = pq_abs (cq_queue q)"

definition cq_later :: "ChannelQueue \<Rightarrow> jid set" where
  "cq_later q = pq_abs (cq_eta_queue q)"

lemma keyed_no_eta: "keyed (job_lt js) (job_key js) (no_eta js)"
  by (auto simp: keyed_def no_eta_def job_lt_def key_lt_def job_key_def cj_eta_def
      sorting_key_ignoring_eta_def less_prod_def)

lemma keyed_with_eta: "keyed (job_lt js) (job_key js) (with_eta js)"
  by (auto simp: keyed_def with_eta_def eta_set_def job_lt_def key_lt_def job_key_def cj_eta_def
      sorting_key_ignoring_eta_def less_prod_def split: option.splits)

lemma cq_inv_init: "cq_inv js (cq_init s)"
  by (simp add: cq_inv_def cq_init_def pq_inv_init keyed_no_eta keyed_with_eta)

text \<open>A change of the store that leaves the jobs of a queue alone keeps the queue well-formed.\<close>

lemma pq_inv_cong:
  assumes "pq_inv lt k A q" and "keyed lt' k' A'" and "pq_known q \<subseteq> A'"
    and "\<And>j. j \<in> pq_known q \<Longrightarrow> k' j = k j"
  shows "pq_inv lt' k' A' q"
proof -
  have "heap_ordered k' (pq_heap q)"
    unfolding heap_ordered_def
  proof (intro allI impI; elim conjE)
    fix i assume i: "0 < i" "i < length (pq_heap q)"
    then have "parent i < length (pq_heap q)" using parent_less [of i] by simp
    with i assms(1,4) show "k' (pq_heap q ! parent i) \<le> k' (pq_heap q ! i)"
      by (simp add: pq_inv_def heap_ordered_def)
  qed
  with assms(1-3) show ?thesis by (auto simp: pq_inv_def)
qed

lemma nq_inv_store:
  assumes "nq_inv js q" and "\<And>j. j \<in> pq_known q \<Longrightarrow> js' j = js j"
  shows "nq_inv js' q"
  by (rule pq_inv_cong [OF assms(1) keyed_no_eta])
     (use assms in \<open>auto simp: pq_inv_def no_eta_def job_key_def\<close>)

lemma eq_inv_store:
  assumes "eq_inv js q" and "\<And>j. j \<in> pq_known q \<Longrightarrow> js' j = js j"
  shows "eq_inv js' q"
  by (rule pq_inv_cong [OF assms(1) keyed_with_eta])
     (use assms in \<open>auto simp: pq_inv_def with_eta_def job_key_def\<close>)

section \<open>What the operations do to a well-formed queue\<close>

lemma pq_truth_ok: "pq_inv lt k A q \<Longrightarrow> pq_truth q = Inr (pq_abs q \<noteq> {})"
  using pq.len_zero [of lt k A q] pq_len_abs [of lt k A q] by (simp add: pq_truth_def)

lemma cq_add_ok:
  assumes "cq_inv js q" and "cj_eta (js j) \<noteq> Some 0"
  shows "\<exists>q'. cq_add js j q = Inr q' \<and> cq_inv js q' \<and> cq_sequential q' = cq_sequential q \<and>
    cq_now q' = (if eta_set (cj_eta (js j)) then cq_now q else insert j (cq_now q)) \<and>
    cq_later q' = (if eta_set (cj_eta (js j)) then insert j (cq_later q) else cq_later q) \<and>
    pq_known (cq_eta_queue q') \<subseteq> insert j (pq_known (cq_eta_queue q)) \<and>
    (cj_eta (js j) = None \<longrightarrow> cq_eta_queue q' = cq_eta_queue q)"
proof (cases "eta_set (cj_eta (js j))")
  case True
  then have "j \<in> with_eta js" by (simp add: with_eta_def)
  with assms(1) obtain p where p: "pq_add (job_lt js) (Some j) (cq_eta_queue q) = Inr p"
    "eq_inv js p" "pq_abs p = insert j (pq_abs (cq_eta_queue q))"
    using pq.add_ok [of "job_lt js" "job_key js" "with_eta js" "cq_eta_queue q" j]
    by (auto simp: cq_inv_def)
  with True pq_add_length [OF p(1)] assms(1) show ?thesis
    by (auto simp: cq_add_def cq_inv_def cq_now_def cq_later_def eta_set_def split: option.splits)
next
  case False
  with assms(2) have none: "cj_eta (js j) = None" by (simp add: eta_set_def split: option.splits)
  then have "j \<in> no_eta js" by (simp add: no_eta_def)
  with assms(1) obtain p where p: "pq_add (job_lt js) (Some j) (cq_queue q) = Inr p"
    "nq_inv js p" "pq_abs p = insert j (pq_abs (cq_queue q))"
    using pq.add_ok [of "job_lt js" "job_key js" "no_eta js" "cq_queue q" j]
    by (auto simp: cq_inv_def)
  with False assms(1) show ?thesis
    by (auto simp: cq_add_def cq_inv_def cq_now_def cq_later_def)
qed

lemma cq_remove_ok:
  assumes "cq_inv js q"
  shows "\<exists>q'. cq_remove j q = Inr q' \<and> cq_inv js q' \<and> cq_sequential q' = cq_sequential q \<and>
    cq_now q' = cq_now q - {j} \<and> cq_later q' = cq_later q - {j} \<and>
    pq_known (cq_eta_queue q') = pq_known (cq_eta_queue q)"
proof -
  from assms obtain p where p: "pq_remove (Some j) (cq_queue q) = Inr p" "nq_inv js p"
    "pq_abs p = pq_abs (cq_queue q) - {j}"
    using pq.remove_ok [of "job_lt js" "job_key js" "no_eta js" "cq_queue q" j]
    by (auto simp: cq_inv_def)
  from assms obtain pe where pe: "pq_remove (Some j) (cq_eta_queue q) = Inr pe" "eq_inv js pe"
    "pq_abs pe = pq_abs (cq_eta_queue q) - {j}"
    using pq.remove_ok [of "job_lt js" "job_key js" "with_eta js" "cq_eta_queue q" j]
    by (auto simp: cq_inv_def)
  have "pq_known pe = pq_known (cq_eta_queue q)"
    using pe(1) by (auto simp: pq_remove_def split: if_splits)
  with p pe show ?thesis
    by (simp add: cq_remove_def cq_inv_def cq_now_def cq_later_def)
qed

lemma cq_contains_ok: "cq_contains j q \<longleftrightarrow> j \<in> cq_now q \<union> cq_later q"
  by (auto simp: cq_contains_def cq_now_def cq_later_def pq_contains_abs)

text \<open>The jobs whose eta has come, and the store in which they have lost it.\<close>

definition due :: "int \<Rightarrow> jobs \<Rightarrow> jid set \<Rightarrow> jid set" where
  "due now js J = {j \<in> J. case cj_eta (js j) of None \<Rightarrow> False | Some e \<Rightarrow> e \<le> now}"

definition clear_etas :: "jid set \<Rightarrow> jobs \<Rightarrow> jobs" where
  "clear_etas J js = (\<lambda>j. if j \<in> J then (js j)\<lparr>cj_key := (cj_key (js j))\<lparr>sk_eta := None\<rparr>\<rparr> else js j)"

lemma clear_etas_empty [simp]: "clear_etas {} js = js"
  by (simp add: clear_etas_def)

lemma clear_etas_insert: "clear_etas J (set_no_eta j js) = clear_etas (insert j J) js"
  by (auto simp: clear_etas_def set_no_eta_def fun_eq_iff)

lemma sorting_key_clear_etas [simp]:
  "sorting_key_ignoring_eta (clear_etas J js j) = sorting_key_ignoring_eta (js j)"
  by (simp add: clear_etas_def sorting_key_ignoring_eta_def)

lemma cj_clear_etas [simp]:
  "cj_channel (clear_etas J js j) = cj_channel (js j)"
  "cj_uuid (clear_etas J js j) = cj_uuid (js j)"
  "cj_db_name (clear_etas J js j) = cj_db_name (js j)"
  by (simp_all add: clear_etas_def)

lemma cj_eta_clear_etas: "cj_eta (clear_etas J js j) = (if j \<in> J then None else cj_eta (js j))"
  by (simp add: clear_etas_def cj_eta_def)

lemma job_key_le_eta:
  assumes "job_key js x \<le> job_key js y" and "cj_eta (js x) = Some a" and "cj_eta (js y) = Some b"
  shows "a \<le> b"
  using assms by (auto simp: job_key_def less_eq_prod_def)

lemma set_no_eta_same: "i \<noteq> j \<Longrightarrow> set_no_eta j js i = js i"
  by (simp add: set_no_eta_def)

text \<open>One turn of the loop, on the job that leaves the queue of jobs with an eta.\<close>

lemma move_one:
  assumes "cq_inv js q" and "pq_pop (job_lt js) eq = Inr (Some x, eq')" and "eq_inv js eq"
    and "x \<in> pq_abs eq"
  obtains nq where "pq_add (job_lt (set_no_eta x js)) (Some x) (cq_queue q) = Inr nq"
    and "cq_inv (set_no_eta x js) (q\<lparr>cq_queue := nq, cq_eta_queue := eq'\<rparr>)"
    and "pq_abs nq = insert x (cq_now q)"
proof -
  let ?js = "set_no_eta x js"
  have "x \<in> with_eta js" using assms(3,4) by (auto simp: pq_inv_def pq_abs_def)
  then have "x \<notin> no_eta js" by (auto simp: with_eta_def no_eta_def eta_set_def split: option.splits)
  with assms(1) have "x \<notin> pq_known (cq_queue q)" by (auto simp: cq_inv_def pq_inv_def)
  with assms(1) have nq: "nq_inv ?js (cq_queue q)"
    unfolding cq_inv_def by (elim conjE nq_inv_store) (auto simp: set_no_eta_def)
  have xn: "x \<in> no_eta ?js" by (simp add: no_eta_def set_no_eta_def cj_eta_def)
  obtain p where p: "pq_add (job_lt ?js) (Some x) (cq_queue q) = Inr p"
    "nq_inv ?js p" "pq_abs p = insert x (cq_now q)"
    using pq.add_ok [OF nq xn] unfolding cq_now_def by blast
  have "x \<notin> pq_known eq'" using pq_pop_length [OF assms(2)] by auto
  moreover have "eq_inv js eq'" using pq.pop_SomeD [OF assms(3,2)] by auto
  ultimately have "eq_inv ?js eq'"
    by (elim eq_inv_store) (auto simp: set_no_eta_def)
  with p(2) have "cq_inv ?js (q\<lparr>cq_queue := p, cq_eta_queue := eq'\<rparr>)" by (simp add: cq_inv_def)
  with p(1,3) show thesis by (intro that)
qed

lemma cq_move_due_ok:
  assumes "cq_inv js q"
  shows "\<exists>q'. cq_move_due now js q = Inr (clear_etas (due now js (cq_later q)) js, q') \<and>
    cq_inv (clear_etas (due now js (cq_later q)) js) q' \<and> cq_sequential q' = cq_sequential q \<and>
    cq_now q' = cq_now q \<union> due now js (cq_later q) \<and>
    cq_later q' = cq_later q - due now js (cq_later q) \<and>
    pq_known (cq_eta_queue q') \<subseteq> pq_known (cq_eta_queue q)"
  using assms
proof (induction "length (pq_heap (cq_eta_queue q))" arbitrary: q js rule: less_induct)
  case less
  let ?E = "cq_eta_queue q"
  from less.prems have ei: "eq_inv js ?E" and ni: "nq_inv js (cq_queue q)" by (auto simp: cq_inv_def)
  have truth: "pq_truth ?E = Inr (cq_later q \<noteq> {})"
    using pq_truth_ok [OF ei] by (simp add: cq_later_def)
  show ?case
  proof (cases "cq_later q = {}")
    case True
    with truth less.prems show ?thesis by (simp add: cq_move_due.simps [of now js q] due_def)
  next
    case False
    then obtain t eq where t: "pq_getitem0 (job_lt js) ?E = Inr (t, eq)" "eq_inv js eq"
      "pq_abs eq = cq_later q" "t \<in> cq_later q" "\<forall>y\<in>cq_later q. job_key js t \<le> job_key js y"
      using pq.peek_nonempty [OF ei] by (auto simp: cq_later_def)
    have later: "cq_later q \<subseteq> with_eta js"
      using ei by (auto simp: pq_inv_def cq_later_def pq_abs_def)
    with t(4) obtain e where e: "cj_eta (js t) = Some e"
      by (auto simp: with_eta_def eta_set_def split: option.splits)
    show ?thesis
    proof (cases "e \<le> now")
      case False
      have "due now js (cq_later q) = {}"
        using False t(5) job_key_le_eta [of js t _ e, OF _ e]
        by (fastforce simp: due_def split: option.splits)
      with truth t e False \<open>cq_later q \<noteq> {}\<close> ni pq_getitem0_length [OF t(1)] show ?thesis
        by (simp add: cq_move_due.simps [of now js q] pq_getitem_def cq_inv_def cq_now_def cq_later_def)
    next
      case True
      obtain x eq' where x: "pq_pop (job_lt js) eq = Inr (Some x, eq')" "x \<in> cq_later q"
        "pq_abs eq' = cq_later q - {x}" "\<forall>y\<in>cq_later q. job_key js x \<le> job_key js y"
        using pq.pop_nonempty [OF t(2)] t(3) \<open>cq_later q \<noteq> {}\<close> by auto
      from later x(2) obtain a where a: "cj_eta (js x) = Some a"
        by (auto simp: with_eta_def eta_set_def split: option.splits)
      have "a \<le> now" using job_key_le_eta [of js x t a e] a e x(4) t(4) True by fastforce
      then have xdue: "x \<in> due now js (cq_later q)" using x(2) a by (simp add: due_def)
      have "x \<in> pq_abs eq" using x(2) t(3) by simp
      with less.prems x(1) t(2) obtain nq where
        nq: "pq_add (job_lt (set_no_eta x js)) (Some x) (cq_queue q) = Inr nq"
        "cq_inv (set_no_eta x js) (q\<lparr>cq_queue := nq, cq_eta_queue := eq'\<rparr>)"
        "pq_abs nq = insert x (cq_now q)"
        by (rule move_one)
      let ?q = "q\<lparr>cq_queue := nq, cq_eta_queue := eq'\<rparr>"
      have len: "length (pq_heap (cq_eta_queue ?q)) < length (pq_heap ?E)"
        using pq_getitem0_length [OF t(1)] pq_pop_length [OF x(1)] by simp
      have known: "pq_known eq' \<subseteq> pq_known ?E"
        using pq_getitem0_length [OF t(1)] pq_pop_length [OF x(1)] by auto
      have step: "cq_move_due now js q = cq_move_due now (set_no_eta x js) ?q"
        using truth \<open>cq_later q \<noteq> {}\<close> t(1) e True x(1) nq(1)
        by (simp add: cq_move_due.simps [of now js q] pq_getitem_def)
      have later': "cq_later ?q = cq_later q - {x}" using x(3) by (simp add: cq_later_def)
      have now': "cq_now ?q = insert x (cq_now q)" using nq(3) by (simp add: cq_now_def)
      have "due now (set_no_eta x js) (cq_later ?q) = due now js (cq_later q) - {x}"
        by (auto simp: later' due_def set_no_eta_same)
      moreover from this have "clear_etas (due now (set_no_eta x js) (cq_later ?q)) (set_no_eta x js)
          = clear_etas (due now js (cq_later q)) js"
        using xdue by (simp add: clear_etas_insert insert_absorb)
      ultimately have IH: "\<exists>q'. cq_move_due now js q = Inr (clear_etas (due now js (cq_later q)) js, q') \<and>
          cq_inv (clear_etas (due now js (cq_later q)) js) q' \<and> cq_sequential q' = cq_sequential q \<and>
          cq_now q' = insert x (cq_now q) \<union> (due now js (cq_later q) - {x}) \<and>
          cq_later q' = cq_later q - {x} - (due now js (cq_later q) - {x}) \<and> pq_known (cq_eta_queue q') \<subseteq> pq_known eq'"
        using less.hyps [OF len nq(2)] unfolding step later' now' by simp
      have sets: "insert x (cq_now q) \<union> (due now js (cq_later q) - {x}) = cq_now q \<union> due now js (cq_later q)"
        "cq_later q - {x} - (due now js (cq_later q) - {x}) = cq_later q - due now js (cq_later q)"
        using xdue by auto
      from IH known show ?thesis unfolding sets by blast
    qed
  qed
qed

text \<open>
  A sequential queue waits when the first of its jobs with an eta sorts, etas ignored, before every
  job that could run now.
\<close>

definition waits :: "jobs \<Rightarrow> bool \<Rightarrow> jid set \<Rightarrow> jid set \<Rightarrow> bool" where
  "waits js sequential now later \<longleftrightarrow> sequential \<and> now \<noteq> {} \<and>
     (\<exists>e\<in>later. (\<forall>y\<in>later. job_key js e \<le> job_key js y) \<and>
        (\<forall>y\<in>now. sorting_key_ignoring_eta (js e) < sorting_key_ignoring_eta (js y)))"

lemma job_key_no_eta:
  "x \<in> no_eta js \<Longrightarrow> y \<in> no_eta js \<Longrightarrow>
    job_key js x \<le> job_key js y \<longleftrightarrow> sorting_key_ignoring_eta (js x) \<le> sorting_key_ignoring_eta (js y)"
  by (auto simp: no_eta_def job_key_def less_eq_prod_def)

lemma job_key_skey:
  "job_key js x = job_key js y \<Longrightarrow> sorting_key_ignoring_eta (js x) = sorting_key_ignoring_eta (js y)"
  by (simp add: job_key_def)

lemma cq_now_no_eta: "cq_inv js q \<Longrightarrow> cq_now q \<subseteq> no_eta js"
  by (auto simp: cq_inv_def pq_inv_def cq_now_def pq_abs_def)

lemma cq_later_with_eta: "cq_inv js q \<Longrightarrow> cq_later q \<subseteq> with_eta js"
  by (auto simp: cq_inv_def pq_inv_def cq_later_def pq_abs_def)

lemma cq_check_ok:
  assumes inv: "cq_inv js q" and ne: "cq_later q \<noteq> {}" "cq_now q \<noteq> {}"
  shows "\<exists>e j q'. pq_getitem (job_lt js) 0 (cq_eta_queue q) = Inr (e, cq_eta_queue q') \<and>
    pq_getitem (job_lt js) 0 (cq_queue q) = Inr (j, cq_queue q') \<and> cq_inv js q' \<and>
    cq_sequential q' = cq_sequential q \<and> cq_now q' = cq_now q \<and> cq_later q' = cq_later q \<and>
    pq_known (cq_eta_queue q') \<subseteq> pq_known (cq_eta_queue q) \<and>
    (sorting_key_ignoring_eta (js e) < sorting_key_ignoring_eta (js j) \<longleftrightarrow>
     waits js True (cq_now q) (cq_later q))"
proof -
  from inv have ei: "eq_inv js (cq_eta_queue q)" and ni: "nq_inv js (cq_queue q)"
    by (auto simp: cq_inv_def)
  obtain e eq where e: "pq_getitem0 (job_lt js) (cq_eta_queue q) = Inr (e, eq)" "eq_inv js eq"
    "pq_abs eq = cq_later q" "e \<in> cq_later q" "\<forall>y\<in>cq_later q. job_key js e \<le> job_key js y"
    using pq.peek_nonempty [OF ei] ne by (auto simp: cq_later_def)
  obtain j nq where j: "pq_getitem0 (job_lt js) (cq_queue q) = Inr (j, nq)" "nq_inv js nq"
    "pq_abs nq = cq_now q" "j \<in> cq_now q" "\<forall>y\<in>cq_now q. job_key js j \<le> job_key js y"
    using pq.peek_nonempty [OF ni] ne by (auto simp: cq_now_def)
  let ?q = "q\<lparr>cq_queue := nq, cq_eta_queue := eq\<rparr>"
  have js_le: "sorting_key_ignoring_eta (js j) \<le> sorting_key_ignoring_eta (js y)" if "y \<in> cq_now q" for y
    using that j(4,5) cq_now_no_eta [OF inv] job_key_no_eta [of j js y] by auto
  have "sorting_key_ignoring_eta (js e) < sorting_key_ignoring_eta (js j) \<longleftrightarrow>
        waits js True (cq_now q) (cq_later q)"
  proof
    assume "sorting_key_ignoring_eta (js e) < sorting_key_ignoring_eta (js j)"
    with js_le e(4,5) ne(2) show "waits js True (cq_now q) (cq_later q)"
      unfolding waits_def by (meson less_le_trans)
  next
    assume "waits js True (cq_now q) (cq_later q)"
    then obtain e' where e': "e' \<in> cq_later q" "\<forall>y\<in>cq_later q. job_key js e' \<le> job_key js y"
      "\<forall>y\<in>cq_now q. sorting_key_ignoring_eta (js e') < sorting_key_ignoring_eta (js y)"
      unfolding waits_def by blast
    then have "job_key js e' = job_key js e" using e(4,5) by (meson antisym)
    then show "sorting_key_ignoring_eta (js e) < sorting_key_ignoring_eta (js j)"
      using job_key_skey [of js e' e] e'(3) j(4) by simp
  qed
  moreover have "cq_inv js ?q" using e(2) j(2) by (simp add: cq_inv_def)
  ultimately show ?thesis
    using e(1,3) j(1,3) pq_getitem0_length [OF e(1)]
    by (intro exI [of _ e] exI [of _ j] exI [of _ ?q]) (simp add: pq_getitem_def cq_now_def cq_later_def)
qed

lemma cq_pop_queue_ok:
  assumes "cq_inv js q"
  shows "\<exists>r nq. pq_pop (job_lt js) (cq_queue q) = Inr (r, nq) \<and> cq_inv js (q\<lparr>cq_queue := nq\<rparr>) \<and>
    (case r of None \<Rightarrow> cq_now q = {} \<and> pq_abs nq = {}
     | Some x \<Rightarrow> x \<in> cq_now q \<and> pq_abs nq = cq_now q - {x} \<and>
         (\<forall>y\<in>cq_now q. sorting_key_ignoring_eta (js x) \<le> sorting_key_ignoring_eta (js y)))"
proof -
  from assms have ni: "nq_inv js (cq_queue q)" by (simp add: cq_inv_def)
  show ?thesis
  proof (cases "cq_now q = {}")
    case True
    with pq.pop_empty [OF ni] assms show ?thesis by (auto simp: cq_now_def cq_inv_def)
  next
    case False
    then obtain x nq where x: "pq_pop (job_lt js) (cq_queue q) = Inr (Some x, nq)" "nq_inv js nq"
      "x \<in> cq_now q" "pq_abs nq = cq_now q - {x}" "\<forall>y\<in>cq_now q. job_key js x \<le> job_key js y"
      using pq.pop_nonempty [OF ni] by (auto simp: cq_now_def)
    have "sorting_key_ignoring_eta (js x) \<le> sorting_key_ignoring_eta (js y)" if "y \<in> cq_now q" for y
      using that x(3,5) cq_now_no_eta [OF assms] job_key_no_eta [of x js y] by auto
    with x assms show ?thesis
      by (intro exI [of _ "Some x"] exI [of _ nq]) (simp add: cq_inv_def)
  qed
qed

lemma cq_pop_ok:
  fixes now :: int
  assumes "cq_inv js q"
  defines "D \<equiv> due now js (cq_later q)"
  shows "\<exists>r q'. cq_pop now js q = Inr (r, clear_etas D js, q') \<and> cq_inv (clear_etas D js) q' \<and>
    cq_sequential q' = cq_sequential q \<and> cq_later q' = cq_later q - D \<and>
    pq_known (cq_eta_queue q') \<subseteq> pq_known (cq_eta_queue q) \<and>
    (case r of
       None \<Rightarrow> cq_now q' = cq_now q \<union> D \<and>
         (cq_now q \<union> D = {} \<or> waits (clear_etas D js) (cq_sequential q) (cq_now q \<union> D) (cq_later q - D))
     | Some x \<Rightarrow> x \<in> cq_now q \<union> D \<and> cq_now q' = cq_now q \<union> D - {x} \<and>
         \<not> waits (clear_etas D js) (cq_sequential q) (cq_now q \<union> D) (cq_later q - D) \<and>
         (\<forall>y\<in>cq_now q \<union> D. sorting_key_ignoring_eta (js x) \<le> sorting_key_ignoring_eta (js y)))"
proof -
  let ?js = "clear_etas D js"
  obtain q1 where q1: "cq_move_due now js q = Inr (?js, q1)" "cq_inv ?js q1"
    "cq_sequential q1 = cq_sequential q" "cq_now q1 = cq_now q \<union> D" "cq_later q1 = cq_later q - D"
    "pq_known (cq_eta_queue q1) \<subseteq> pq_known (cq_eta_queue q)"
    using cq_move_due_ok [OF assms(1), of now] unfolding D_def by blast
  have te: "pq_truth (cq_eta_queue q1) = Inr (cq_later q1 \<noteq> {})"
    using q1(2) pq_truth_ok unfolding cq_inv_def cq_later_def by blast
  have tn: "pq_truth (cq_queue q1) = Inr (cq_now q1 \<noteq> {})"
    using q1(2) pq_truth_ok unfolding cq_inv_def cq_now_def by blast
  let ?check = "cq_sequential q \<and> cq_later q1 \<noteq> {} \<and> cq_now q1 \<noteq> {}"
  show ?thesis
  proof (cases ?check)
    case False
    then have nw: "\<not> waits ?js (cq_sequential q) (cq_now q1) (cq_later q1)" by (auto simp: waits_def)
    obtain r nq where r: "pq_pop (job_lt ?js) (cq_queue q1) = Inr (r, nq)"
      "cq_inv ?js (q1\<lparr>cq_queue := nq\<rparr>)"
      "case r of None \<Rightarrow> cq_now q1 = {} \<and> pq_abs nq = {}
       | Some x \<Rightarrow> x \<in> cq_now q1 \<and> pq_abs nq = cq_now q1 - {x} \<and>
           (\<forall>y\<in>cq_now q1. sorting_key_ignoring_eta (?js x) \<le> sorting_key_ignoring_eta (?js y))"
      using cq_pop_queue_ok [OF q1(2)] by blast
    have "cq_pop now js q = Inr (r, ?js, q1\<lparr>cq_queue := nq\<rparr>)"
      using False q1(1,3) te tn r(1) by (auto simp: cq_pop_def)
    with r(2,3) nw q1(3-6) show ?thesis
      by (intro exI [of _ r] exI [of _ "q1\<lparr>cq_queue := nq\<rparr>"])
         (auto simp: cq_now_def [of "q1\<lparr>cq_queue := nq\<rparr>"] cq_later_def [of "q1\<lparr>cq_queue := nq\<rparr>"]
           cq_later_def [of q1, symmetric] split: option.splits)
  next
    case True
    then obtain e j q2 where q2: "pq_getitem (job_lt ?js) 0 (cq_eta_queue q1) = Inr (e, cq_eta_queue q2)"
      "pq_getitem (job_lt ?js) 0 (cq_queue q1) = Inr (j, cq_queue q2)" "cq_inv ?js q2"
      "cq_sequential q2 = cq_sequential q1" "cq_now q2 = cq_now q1" "cq_later q2 = cq_later q1"
      "pq_known (cq_eta_queue q2) \<subseteq> pq_known (cq_eta_queue q1)"
      "sorting_key_ignoring_eta (?js e) < sorting_key_ignoring_eta (?js j) \<longleftrightarrow>
       waits ?js True (cq_now q1) (cq_later q1)"
      using cq_check_ok [OF q1(2)] by blast
    have q2': "q1\<lparr>cq_queue := cq_queue q2, cq_eta_queue := cq_eta_queue q2\<rparr> = q2"
      using q2(4) by simp
    let ?w = "sorting_key_ignoring_eta (?js e) < sorting_key_ignoring_eta (?js j)"
    have pop: "cq_pop now js q =
        (if ?w then Inr (None, ?js, q2)
         else rbind (pq_pop (job_lt ?js) (cq_queue q2)) (\<lambda>(r, nq). Inr (r, ?js, q2\<lparr>cq_queue := nq\<rparr>)))"
      using True q1(1,3) te tn q2(1,2) by (simp add: cq_pop_def q2')
    show ?thesis
    proof (cases ?w)
      case w: True
      with pop q2 q1(3-6) True show ?thesis
        by (intro exI [of _ None] exI [of _ q2]) auto
    next
      case nw: False
      obtain r nq where r: "pq_pop (job_lt ?js) (cq_queue q2) = Inr (r, nq)"
        "cq_inv ?js (q2\<lparr>cq_queue := nq\<rparr>)"
        "case r of None \<Rightarrow> cq_now q2 = {} \<and> pq_abs nq = {}
         | Some x \<Rightarrow> x \<in> cq_now q2 \<and> pq_abs nq = cq_now q2 - {x} \<and>
             (\<forall>y\<in>cq_now q2. sorting_key_ignoring_eta (?js x) \<le> sorting_key_ignoring_eta (?js y))"
        using cq_pop_queue_ok [OF q2(3)] by blast
      have "cq_pop now js q = Inr (r, ?js, q2\<lparr>cq_queue := nq\<rparr>)" using pop nw r(1) by simp
      with r(2,3) nw q1(3-6) q2(4-8) True show ?thesis
        by (intro exI [of _ r] exI [of _ "q2\<lparr>cq_queue := nq\<rparr>"])
           (auto simp: cq_now_def [of "q2\<lparr>cq_queue := nq\<rparr>"] cq_later_def [of "q2\<lparr>cq_queue := nq\<rparr>"]
             cq_later_def [of q2, symmetric] split: option.splits)
    qed
  qed
qed

end
