(* ===== verification/PyString.thy ===== *)
theory PyString
  imports Prelude
begin

text \<open>
  The string operations of the standard library that the modelled code uses: \<open>split\<close>, \<open>rsplit\<close>,
  \<open>join\<close>, \<open>strip\<close>, \<open>startswith\<close>, \<open>endswith\<close>, \<open>int\<close> and the decimal notation of an integer.
  Characters are the code points below 256.
\<close>

section \<open>Whitespace\<close>

definition py_isspace :: "char \<Rightarrow> bool" where
  "py_isspace c = (let n = of_char c :: nat in 9 \<le> n \<and> n \<le> 13 \<or> 28 \<le> n \<and> n \<le> 32 \<or> n = 133 \<or> n = 160)"

definition py_strip :: "string \<Rightarrow> string" where
  "py_strip s = rev (dropWhile py_isspace (rev (dropWhile py_isspace s)))"

text \<open>A string that \<open>strip\<close> leaves alone.\<close>

definition stripped :: "string \<Rightarrow> bool" where
  "stripped s \<longleftrightarrow> s = [] \<or> \<not> py_isspace (hd s) \<and> \<not> py_isspace (last s)"

lemma py_strip_stripped: "stripped s \<Longrightarrow> py_strip s = s"
proof (cases s)
  case (Cons a t)
  assume st: "stripped s"
  then have hd: "dropWhile py_isspace s = s" and l: "\<not> py_isspace (last s)"
    by (auto simp: Cons stripped_def)
  have "dropWhile py_isspace (rev s) = rev s"
    using l by (simp add: dropWhile_eq_self_iff hd_rev)
  with hd show ?thesis by (simp add: py_strip_def)
qed (simp add: py_strip_def)

lemma last_dropWhile: "dropWhile P xs \<noteq> [] \<Longrightarrow> last (dropWhile P xs) = last xs"
  by (induction xs) auto

lemma stripped_py_strip [simp]: "stripped (py_strip s)"
proof (cases "py_strip s = []")
  case False
  let ?a = "dropWhile py_isspace s"
  let ?b = "dropWhile py_isspace (rev ?a)"
  from False have b: "?b \<noteq> []" unfolding py_strip_def by (metis rev.simps(1))
  then have a: "?a \<noteq> []" by (metis dropWhile.simps(1) rev.simps(1))
  have "\<not> py_isspace (hd ?b)" using b by (rule hd_dropWhile)
  moreover have "\<not> py_isspace (last ?b)"
    using last_dropWhile [OF b] a hd_dropWhile [OF a] by (simp add: last_rev)
  ultimately show ?thesis using b by (simp add: stripped_def py_strip_def hd_rev last_rev)
qed (simp add: stripped_def)

section \<open>Splitting and joining\<close>

fun py_split :: "char \<Rightarrow> string \<Rightarrow> string list" where
  "py_split sep [] = [[]]"
| "py_split sep (c # s) =
     (if c = sep then [] # py_split sep s
      else (case py_split sep s of [] \<Rightarrow> [[c]] | w # ws \<Rightarrow> (c # w) # ws))"

fun py_join :: "string \<Rightarrow> string list \<Rightarrow> string" where
  "py_join sep [] = []"
| "py_join sep [w] = w"
| "py_join sep (w # ws) = w @ sep @ py_join sep ws"

lemma py_split_nonempty [simp]: "py_split sep s \<noteq> []"
  by (induction s) (auto split: list.splits)

lemma py_split_no_sep: "sep \<notin> set s \<Longrightarrow> py_split sep s = [s]"
  by (induction s) auto

lemma py_split_append: "sep \<notin> set w \<Longrightarrow> py_split sep (w @ sep # s) = w # py_split sep s"
  by (induction w) auto

lemma py_split_join:
  "ws \<noteq> [] \<Longrightarrow> (\<And>w. w \<in> set ws \<Longrightarrow> sep \<notin> set w) \<Longrightarrow> py_split sep (py_join [sep] ws) = ws"
  by (induction "[sep]" ws rule: py_join.induct) (auto simp: py_split_no_sep py_split_append)

lemma py_join_split: "py_join [sep] (py_split sep s) = s"
proof (induction s)
  case (Cons c s)
  obtain w ws where "py_split sep s = w # ws" by (cases "py_split sep s") auto
  with Cons show ?case by (cases ws) auto
qed simp

lemma py_split_words: "w \<in> set (py_split sep s) \<Longrightarrow> sep \<notin> set w \<and> set w \<subseteq> set s"
proof (induction s arbitrary: w)
  case (Cons c s)
  obtain v vs where v: "py_split sep s = v # vs" by (cases "py_split sep s") auto
  then have IH: "\<And>u. u \<in> set (v # vs) \<Longrightarrow> sep \<notin> set u \<and> set u \<subseteq> set s" using Cons.IH by simp
  show ?case
  proof (cases "c = sep")
    case True
    with Cons.prems v have "w = [] \<or> w \<in> set (v # vs)" by simp
    with IH [of w] show ?thesis by auto
  next
    case False
    with Cons.prems v have "w = c # v \<or> w \<in> set (v # vs)" by auto
    with IH [of w] IH [of v] False show ?thesis by auto
  qed
qed simp

lemma py_join_inj:
  assumes "py_join [sep] us = py_join [sep] vs" and "us \<noteq> []" and "vs \<noteq> []"
    and "\<And>w. w \<in> set us \<Longrightarrow> sep \<notin> set w" and "\<And>w. w \<in> set vs \<Longrightarrow> sep \<notin> set w"
  shows "us = vs"
proof -
  have "us = py_split sep (py_join [sep] us)" using py_split_join [OF assms(2,4)] by (rule sym)
  also have "\<dots> = vs" unfolding assms(1) by (rule py_split_join [OF assms(3,5)])
  finally show ?thesis .
qed

text \<open>\<open>s.rsplit(sep, 1)[:-1]\<close>: the part before the last separator, if there is one.\<close>

fun py_rsplit1_init :: "char \<Rightarrow> string \<Rightarrow> string option" where
  "py_rsplit1_init sep [] = None"
| "py_rsplit1_init sep (c # s) =
     (case py_rsplit1_init sep s of
        Some p \<Rightarrow> Some (c # p)
      | None \<Rightarrow> if c = sep then Some [] else None)"

lemma py_rsplit1_init_length [termination_simp]:
  "py_rsplit1_init sep s = Some p \<Longrightarrow> length p < length s"
  by (induction s arbitrary: p) (auto split: option.splits if_splits)

lemma py_rsplit1_init_None: "sep \<notin> set s \<longleftrightarrow> py_rsplit1_init sep s = None"
  by (induction s) (auto split: option.splits)

lemma py_rsplit1_init_append:
  "sep \<notin> set w \<Longrightarrow> py_rsplit1_init sep (s @ sep # w) = Some s"
  by (induction s) (auto simp: py_rsplit1_init_None)

section \<open>Prefixes and suffixes\<close>

definition py_startswith :: "string \<Rightarrow> string \<Rightarrow> bool" where
  "py_startswith s p = (take (length p) s = p)"

definition py_endswith :: "string \<Rightarrow> string \<Rightarrow> bool" where
  "py_endswith s p = (length p \<le> length s \<and> drop (length s - length p) s = p)"

lemma py_startswith_append [simp]: "py_startswith (p @ s) p"
  by (simp add: py_startswith_def)

lemma py_startswithD: "py_startswith s p \<Longrightarrow> \<exists>t. s = p @ t"
  by (metis append_take_drop_id py_startswith_def)

lemma py_endswith_append [simp]: "py_endswith (s @ p) p"
  by (simp add: py_endswith_def)

section \<open>Integers\<close>

definition digit_val :: "char \<Rightarrow> nat option" where
  "digit_val c = (let n = of_char c :: nat in if 48 \<le> n \<and> n \<le> 57 then Some (n - 48) else None)"

text \<open>Digits, single underscores between them allowed; \<open>prev\<close> says that the last character was a
  digit.\<close>

fun py_digits :: "string \<Rightarrow> nat \<Rightarrow> bool \<Rightarrow> nat option" where
  "py_digits [] acc prev = (if prev then Some acc else None)"
| "py_digits (c # s) acc prev =
     (case digit_val c of
        Some d \<Rightarrow> py_digits s (10 * acc + d) True
      | None \<Rightarrow> if c = CHR ''_'' \<and> prev then py_digits s acc False else None)"

text \<open>\<open>int(s)\<close>; \<open>None\<close> is a \<open>ValueError\<close>.\<close>

definition py_int :: "string \<Rightarrow> int option" where
  "py_int s0 =
     (case py_strip s0 of
        [] \<Rightarrow> None
      | c # s \<Rightarrow>
          if c = CHR ''-'' then map_option (\<lambda>n. - int n) (py_digits s 0 False)
          else if c = CHR ''+'' then map_option int (py_digits s 0 False)
          else map_option int (py_digits (c # s) 0 False))"

text \<open>\<open>str(n)\<close> of an integer.\<close>

definition digit_char :: "nat \<Rightarrow> char" where
  "digit_char d = char_of (48 + d)"

fun show_nat :: "nat \<Rightarrow> string" where
  "show_nat n = (if n < 10 then [digit_char n] else show_nat (n div 10) @ [digit_char (n mod 10)])"

declare show_nat.simps [simp del]

definition show_int :: "int \<Rightarrow> string" where
  "show_int n = (if n < 0 then CHR ''-'' # show_nat (nat (- n)) else show_nat (nat n))"

lemma digit_val_char: "d < 10 \<Longrightarrow> digit_val (digit_char d) = Some d"
  by (simp add: digit_val_def digit_char_def Let_def)

lemma py_digits_append:
  "py_digits s acc prev = Some n \<Longrightarrow> s \<noteq> [] \<Longrightarrow> digit_val c = Some d \<Longrightarrow>
    py_digits (s @ [c]) acc prev = Some (10 * n + d)"
proof (induction s acc prev rule: py_digits.induct)
  case (2 c' s acc prev)
  then show ?case by (cases s) (auto split: option.splits if_splits)
qed simp

lemma show_nat_nonempty [simp]: "show_nat n \<noteq> []"
  by (subst show_nat.simps) simp

lemma py_digits_show_nat: "py_digits (show_nat n) 0 False = Some n"
proof (induction n rule: show_nat.induct)
  case (1 n)
  show ?case
  proof (cases "n < 10")
    case True
    then show ?thesis by (simp add: show_nat.simps [of n] digit_val_char)
  next
    case False
    with 1 have "py_digits (show_nat (n div 10)) 0 False = Some (n div 10)" by simp
    then have "py_digits (show_nat (n div 10) @ [digit_char (n mod 10)]) 0 False
        = Some (10 * (n div 10) + n mod 10)"
      by (rule py_digits_append) (simp_all add: digit_val_char)
    with False show ?thesis by (simp add: show_nat.simps [of n])
  qed
qed

lemma show_nat_digits: "c \<in> set (show_nat n) \<Longrightarrow> \<exists>d<10. c = digit_char d"
proof (induction n rule: show_nat.induct)
  case (1 n)
  have "n mod 10 < 10" by simp
  with 1 show ?case by (cases "n < 10") (auto simp: show_nat.simps [of n] simp del: mod_less_divisor)
qed

text \<open>No digit is whitespace or one of the characters the configuration syntax reserves.\<close>

lemma digit_char_plain:
  "d < 10 \<Longrightarrow> \<not> py_isspace (digit_char d) \<and> digit_char d \<noteq> CHR ''-'' \<and> digit_char d \<noteq> CHR ''+'' \<and>
    digit_char d \<noteq> CHR '','' \<and> digit_char d \<noteq> CHR '':'' \<and> digit_char d \<noteq> CHR ''='' \<and> digit_char d \<noteq> CHR ''\<newline>''"
proof -
  assume "d < 10"
  then have "d \<in> {0, 1, 2, 3, 4, 5, 6, 7, 8, 9}" by auto
  then show ?thesis by (elim insertE emptyE) (simp_all add: digit_char_def py_isspace_def char_of_def)
qed

lemma show_int_plain:
  assumes "c \<in> set (show_int n)"
  shows "\<not> py_isspace c \<and> c \<noteq> CHR '','' \<and> c \<noteq> CHR '':'' \<and> c \<noteq> CHR ''='' \<and> c \<noteq> CHR ''\<newline>''"
proof -
  from assms consider "c = CHR ''-''" | m where "c \<in> set (show_nat m)"
    by (auto simp: show_int_def split: if_splits)
  then show ?thesis
  proof cases
    case 1
    then show ?thesis by (simp add: py_isspace_def)
  next
    case 2
    then obtain d where "d < 10" "c = digit_char d" using show_nat_digits by blast
    then show ?thesis using digit_char_plain [of d] by simp
  qed
qed

lemma stripped_plain: "(\<And>c. c \<in> set s \<Longrightarrow> \<not> py_isspace c) \<Longrightarrow> stripped s"
  by (auto simp: stripped_def)

lemma stripped_show_int [simp]: "stripped (show_int n)"
  using show_int_plain by (blast intro: stripped_plain)

lemma stripped_append: "stripped a \<Longrightarrow> stripped b \<Longrightarrow> \<not> py_isspace c \<Longrightarrow> stripped (a @ c # b)"
  by (auto simp: stripped_def hd_append)

lemma stripped_join:
  "\<not> py_isspace c \<Longrightarrow> (\<And>w. w \<in> set ws \<Longrightarrow> stripped w) \<Longrightarrow> stripped (py_join [c] ws)"
proof (induction "[c]" ws rule: py_join.induct)
  case (3 w v ws)
  then have "stripped (w @ c # py_join [c] (v # ws))" by (intro stripped_append) auto
  then show ?case by simp
qed (auto simp: stripped_def)

text \<open>\<open>int(str(n)) == n\<close>.\<close>

lemma py_int_show_int: "py_int (show_int n) = Some n"
proof (cases "n < 0")
  case True
  then have "show_int n = CHR ''-'' # show_nat (nat (- n))" by (simp add: show_int_def)
  moreover have "py_strip (show_int n) = show_int n" by (simp add: py_strip_stripped)
  ultimately show ?thesis using True by (simp add: py_int_def py_digits_show_nat)
next
  case False
  then have sn: "show_int n = show_nat (nat n)" by (simp add: show_int_def)
  have "show_int n \<noteq> []" by (simp add: sn)
  then obtain c s where c: "show_int n = c # s" unfolding neq_Nil_conv by blast
  then have "c \<in> set (show_nat (nat n))" using sn by simp
  then obtain d where "d < 10" "c = digit_char d" using show_nat_digits by blast
  then have "c \<noteq> CHR ''-''" "c \<noteq> CHR ''+''" using digit_char_plain [of d] by simp_all
  moreover have "py_strip (show_int n) = c # s"
    using py_strip_stripped [OF stripped_show_int, of n] c by simp
  moreover have "py_digits (c # s) 0 False = Some (nat n)"
    using py_digits_show_nat [of "nat n"] sn c by simp
  ultimately show ?thesis using False by (simp add: py_int_def del: py_digits.simps)
qed

end
