(* ===== verification/ChannelConfig.thy ===== *)
theory ChannelConfig
  imports PyString
begin

text \<open>
  The configuration syntax of the channels: \<open>split_strip\<close> and \<open>ChannelManager.parse_simple_config\<close>
  of \<open>queue_job/jobrunner/channels.py\<close>, and the round trip from a configuration to its text.
\<close>

section \<open>Parsing\<close>

text \<open>The values of a configuration dictionary: a key without a value has the value \<open>True\<close>.\<close>

datatype cfg_val = CInt int | CStr string | CTrue

type_synonym config = "(string \<times> cfg_val) list"

definition split_strip :: "string \<Rightarrow> char \<Rightarrow> string list" where
  "split_strip s sep = map py_strip (py_split sep s)"

definition config_add :: "string \<Rightarrow> cfg_val \<Rightarrow> config \<Rightarrow> config result" where
  "config_add k v config =
     (if k \<in> fst ` set config then Inl ValueError else Inr (dict_set k v config))"

fun parse_config_items :: "string list \<Rightarrow> config \<Rightarrow> config result" where
  "parse_config_items [] config = Inr config"
| "parse_config_items (config_item # items) config =
     (case split_strip config_item (CHR ''='') of
        [k] \<Rightarrow> rbind (config_add k CTrue config) (parse_config_items items)
      | [k, v] \<Rightarrow> rbind (config_add k (CStr v) config) (parse_config_items items)
      | _ \<Rightarrow> Inl ValueError)"

definition parse_channel_config :: "string \<Rightarrow> config result" where
  "parse_channel_config channel_config_string =
     (case split_strip channel_config_string (CHR '':'') of
        [] \<Rightarrow> Inl IndexError
      | name # config_items \<Rightarrow>
          if name = [] then Inl ValueError
          else (case config_items of
                  [] \<Rightarrow> Inr [(''name'', CStr name), (''capacity'', CInt 1)]
                | capacity # items \<Rightarrow>
                    (case py_int capacity of
                       None \<Rightarrow> Inl ValueError
                     | Some n \<Rightarrow>
                         parse_config_items items [(''name'', CStr name), (''capacity'', CInt n)])))"

fun parse_channel_configs :: "string list \<Rightarrow> config list result" where
  "parse_channel_configs [] = Inr []"
| "parse_channel_configs (s # ss) =
     (if s = [] then parse_channel_configs ss
      else rbind (parse_channel_config s) (\<lambda>config.
           rbind (parse_channel_configs ss) (\<lambda>res. Inr (config # res))))"

definition parse_simple_config :: "string \<Rightarrow> config list result" where
  "parse_simple_config config_string =
     parse_channel_configs
       (split_strip (map (\<lambda>c. if c = CHR ''\<newline>'' then CHR '','' else c) config_string) (CHR '',''))"

section \<open>What a parsed configuration looks like\<close>

text \<open>The first two keys are the name and the capacity, and no key occurs twice.\<close>

definition config_shape :: "config \<Rightarrow> bool" where
  "config_shape config \<longleftrightarrow> distinct (map fst config) \<and>
     (\<exists>name n opts. config = (''name'', CStr name) # (''capacity'', CInt n) # opts \<and> name \<noteq> [] \<and>
        stripped name \<and> (\<forall>v \<in> snd ` set opts. \<forall>i. v \<noteq> CInt i))"

lemma dict_set_new: "k \<notin> fst ` set d \<Longrightarrow> dict_set k v d = d @ [(k, v)]"
  by (induction d) auto

lemma config_add_shape:
  assumes "config_shape config" and "config_add k v config = Inr config'" and "\<forall>i. v \<noteq> CInt i"
  shows "config_shape config'"
proof -
  from assms(2) have k: "k \<notin> fst ` set config" and c': "config' = config @ [(k, v)]"
    by (auto simp: config_add_def dict_set_new split: if_splits)
  from assms(1) obtain name n opts where c: "config = (''name'', CStr name) # (''capacity'', CInt n) # opts"
    "name \<noteq> []" "stripped name" "\<forall>v \<in> snd ` set opts. \<forall>i. v \<noteq> CInt i"
    by (auto simp: config_shape_def)
  have "config' = (''name'', CStr name) # (''capacity'', CInt n) # (opts @ [(k, v)])"
    using c' c(1) by simp
  moreover have "\<forall>u \<in> snd ` set (opts @ [(k, v)]). \<forall>i. u \<noteq> CInt i" using c(4) assms(3) by auto
  moreover have "distinct (map fst config')" using assms(1) k c' by (auto simp: config_shape_def)
  ultimately show ?thesis using c(2,3) unfolding config_shape_def by blast
qed

lemma parse_config_items_Cons:
  "parse_config_items (item # items) config = Inr config' \<longleftrightarrow>
     (\<exists>k v config1. config_add k v config = Inr config1 \<and> parse_config_items items config1 = Inr config' \<and>
       (split_strip item (CHR ''='') = [k] \<and> v = CTrue \<or>
        (\<exists>s. split_strip item (CHR ''='') = [k, s] \<and> v = CStr s)))"
proof -
  consider "split_strip item (CHR ''='') = []" | k where "split_strip item (CHR ''='') = [k]"
    | k s where "split_strip item (CHR ''='') = [k, s]"
    | k s t u where "split_strip item (CHR ''='') = k # s # t # u"
    by (metis list.exhaust)
  then show ?thesis by cases (auto simp: rbind_eq_Inr)
qed

lemma parse_config_items_shape:
  "parse_config_items items config = Inr config' \<Longrightarrow> config_shape config \<Longrightarrow> config_shape config'"
proof (induction items arbitrary: config)
  case (Cons item items)
  then obtain k v config1 where c: "config_add k v config = Inr config1" "\<forall>i. v \<noteq> CInt i"
    and "parse_config_items items config1 = Inr config'"
    by (auto simp only: parse_config_items_Cons cfg_val.distinct)
  moreover have "config_shape config1" by (rule config_add_shape [OF Cons.prems(2) c])
  ultimately show ?case using Cons.IH by blast
qed simp

section \<open>Printing, and the round trip\<close>

text \<open>
  A channel as an administrator writes it: its name, its capacity and its options in order. The
  documented syntax prints it; parsing gives back the dictionary of what was printed.
\<close>

type_synonym channel_spec = "string \<times> int \<times> (string \<times> string option) list"

definition render_option :: "string \<times> string option \<Rightarrow> string" where
  "render_option kv = (case kv of (k, None) \<Rightarrow> k | (k, Some v) \<Rightarrow> k @ CHR ''='' # v)"

definition render_channel :: "channel_spec \<Rightarrow> string" where
  "render_channel = (\<lambda>(name, capacity, opts).
     py_join '':'' (name # show_int capacity # map render_option opts))"

definition render_config :: "channel_spec list \<Rightarrow> string" where
  "render_config cs = py_join '','' (map render_channel cs)"

definition option_value :: "string option \<Rightarrow> cfg_val" where
  "option_value v = (case v of None \<Rightarrow> CTrue | Some s \<Rightarrow> CStr s)"

definition spec_config :: "channel_spec \<Rightarrow> config" where
  "spec_config = (\<lambda>(name, capacity, opts).
     (''name'', CStr name) # (''capacity'', CInt capacity) # map (\<lambda>(k, v). (k, option_value v)) opts)"

text \<open>No separator inside the parts, no whitespace around them, no key twice.\<close>

definition plain :: "string \<Rightarrow> bool" where
  "plain s \<longleftrightarrow> stripped s \<and> CHR '','' \<notin> set s \<and> CHR '':'' \<notin> set s \<and> CHR ''\<newline>'' \<notin> set s"

definition plain_option :: "string \<times> string option \<Rightarrow> bool" where
  "plain_option kv \<longleftrightarrow> plain (fst kv) \<and> CHR ''='' \<notin> set (fst kv) \<and>
     (case snd kv of None \<Rightarrow> True | Some v \<Rightarrow> plain v \<and> CHR ''='' \<notin> set v)"

definition wf_spec :: "channel_spec \<Rightarrow> bool" where
  "wf_spec = (\<lambda>(name, capacity, opts).
     name \<noteq> [] \<and> plain name \<and> list_all plain_option opts \<and>
     distinct (''name'' # ''capacity'' # map fst opts))"

lemma py_strip_id_list: "(\<And>w. w \<in> set ws \<Longrightarrow> stripped w) \<Longrightarrow> map py_strip ws = ws"
  by (induction ws) (auto simp: py_strip_stripped)

lemma split_strip_join:
  "ws \<noteq> [] \<Longrightarrow> (\<And>w. w \<in> set ws \<Longrightarrow> stripped w \<and> sep \<notin> set w) \<Longrightarrow> split_strip (py_join [sep] ws) sep = ws"
  unfolding split_strip_def by (subst py_split_join) (auto intro: py_strip_id_list)

lemma py_join_set: "set (py_join [sep] ws) \<subseteq> insert sep (\<Union> (set ` set ws))"
  by (induction "[sep]" ws rule: py_join.induct) auto

lemma plain_join:
  assumes "\<And>w. w \<in> set ws \<Longrightarrow> plain w"
  shows "stripped (py_join '':'' ws) \<and> CHR '','' \<notin> set (py_join '':'' ws) \<and>
    CHR ''\<newline>'' \<notin> set (py_join '':'' ws)"
proof -
  have "stripped (py_join '':'' ws)"
    by (rule stripped_join) (use assms in \<open>auto simp: plain_def py_isspace_def\<close>)
  moreover have "CHR '','' \<notin> set (py_join '':'' ws)" "CHR ''\<newline>'' \<notin> set (py_join '':'' ws)"
    using py_join_set [of "CHR '':''" ws] assms by (auto simp: plain_def)
  ultimately show ?thesis by blast
qed

lemma plain_show_int: "plain (show_int n)"
  using show_int_plain by (auto simp: plain_def)

lemma plain_render_option: "plain_option kv \<Longrightarrow> plain (render_option kv)"
  by (auto simp: plain_option_def render_option_def plain_def py_isspace_def intro: stripped_append
      split: option.splits prod.splits)

lemma split_strip_option:
  "plain_option (k, v) \<Longrightarrow>
    split_strip (render_option (k, v)) (CHR ''='') = (case v of None \<Rightarrow> [k] | Some s \<Rightarrow> [k, s])"
  by (auto simp: plain_option_def render_option_def plain_def split_strip_def py_split_no_sep
      py_split_append py_strip_stripped split: option.splits)

lemma parse_items_render:
  "list_all plain_option opts \<Longrightarrow> distinct (map fst config @ map fst opts) \<Longrightarrow>
    parse_config_items (map render_option opts) config
      = Inr (config @ map (\<lambda>(k, v). (k, option_value v)) opts)"
proof (induction opts arbitrary: config)
  case (Cons kv opts)
  obtain k v where kv: "kv = (k, v)" by fastforce
  let ?config = "config @ [(k, option_value v)]"
  have k: "k \<notin> fst ` set config" using Cons.prems(2) kv by auto
  then have add: "config_add k (option_value v) config = Inr ?config"
    by (simp add: config_add_def dict_set_new)
  have "parse_config_items (map render_option opts) ?config
      = Inr (?config @ map (\<lambda>(k, v). (k, option_value v)) opts)"
    by (rule Cons.IH) (use Cons.prems kv in auto)
  moreover have "split_strip (render_option kv) (CHR ''='') = (case v of None \<Rightarrow> [k] | Some s \<Rightarrow> [k, s])"
    using Cons.prems(1) split_strip_option kv by simp
  ultimately have "parse_config_items (render_option kv # map render_option opts) config
      = Inr (?config @ map (\<lambda>(k, v). (k, option_value v)) opts)"
    unfolding parse_config_items_Cons using add
    by (intro exI [of _ k] exI [of _ "option_value v"] exI [of _ ?config])
       (auto simp: option_value_def split: option.splits)
  then show ?case by (simp add: kv)
qed simp

lemma render_channel_plain:
  assumes "wf_spec c"
  shows "stripped (render_channel c) \<and> CHR '','' \<notin> set (render_channel c) \<and>
    CHR ''\<newline>'' \<notin> set (render_channel c) \<and> render_channel c \<noteq> []"
proof -
  obtain name n opts where c: "c = (name, n, opts)" by (cases c)
  have "plain w" if "w \<in> set (name # show_int n # map render_option opts)" for w
    using that assms by (auto simp: c wf_spec_def plain_show_int plain_render_option list_all_iff)
  then have "stripped (render_channel c) \<and> CHR '','' \<notin> set (render_channel c) \<and>
      CHR ''\<newline>'' \<notin> set (render_channel c)"
    unfolding c render_channel_def prod.case by (rule plain_join)
  moreover have "render_channel c \<noteq> []" using assms by (simp add: c render_channel_def wf_spec_def)
  ultimately show ?thesis by blast
qed

lemma parse_channel_render: "wf_spec c \<Longrightarrow> parse_channel_config (render_channel c) = Inr (spec_config c)"
proof -
  assume wf: "wf_spec c"
  obtain name n opts where c: "c = (name, n, opts)" by (cases c)
  have "split_strip (render_channel c) (CHR '':'') = name # show_int n # map render_option opts"
    unfolding c render_channel_def prod.case
  proof (rule split_strip_join)
    fix w assume "w \<in> set (name # show_int n # map render_option opts)"
    with wf have "plain w"
      by (auto simp: c wf_spec_def plain_show_int plain_render_option list_all_iff)
    then show "stripped w \<and> CHR '':'' \<notin> set w" by (simp add: plain_def)
  qed simp
  moreover have "parse_config_items (map render_option opts) [(''name'', CStr name), (''capacity'', CInt n)]
      = Inr (spec_config c)"
    using parse_items_render [of opts "[(''name'', CStr name), (''capacity'', CInt n)]"] wf
    by (simp add: c wf_spec_def spec_config_def)
  ultimately show ?thesis using wf
    by (simp add: parse_channel_config_def py_int_show_int c wf_spec_def)
qed

lemma parse_channels_render:
  "list_all wf_spec cs \<Longrightarrow> parse_channel_configs (map render_channel cs) = Inr (map spec_config cs)"
proof (induction cs)
  case (Cons c cs)
  then have "wf_spec c" by simp
  with Cons parse_channel_render [of c] render_channel_plain [of c] show ?case by simp
qed simp

lemma parse_render_config: 
  assumes "list_all wf_spec cs"
  shows "parse_simple_config (render_config cs) = Inr (map spec_config cs)"
proof -
  have plain: "\<And>w. w \<in> set (map render_channel cs) \<Longrightarrow> stripped w \<and> CHR '','' \<notin> set w \<and> CHR ''\<newline>'' \<notin> set w"
    using render_channel_plain assms by (auto simp: list_all_iff)
  then have "CHR ''\<newline>'' \<notin> set (render_config cs)"
  proof -
    assume *: "\<And>w. w \<in> set (map render_channel cs) \<Longrightarrow>
      stripped w \<and> CHR '','' \<notin> set w \<and> CHR ''\<newline>'' \<notin> set w"
    have "CHR ''\<newline>'' \<notin> insert (CHR '','') (\<Union> (set ` set (map render_channel cs)))"
      using * by auto
    then show ?thesis using py_join_set unfolding render_config_def by blast
  qed
  then have nl: "map (\<lambda>c. if c = CHR ''\<newline>'' then CHR '','' else c) (render_config cs) = render_config cs"
    by (intro map_idI) auto
  show ?thesis
  proof (cases "cs = []")
    case True
    then show ?thesis by (simp add: parse_simple_config_def render_config_def split_strip_def py_strip_def)
  next
    case False
    with plain have "split_strip (render_config cs) (CHR '','') = map render_channel cs"
      unfolding render_config_def by (intro split_strip_join) auto
    then show ?thesis unfolding parse_simple_config_def nl by (simp add: parse_channels_render assms)
  qed
qed

end
