(* ===== verification/Channel.thy ===== *)
theory Channel
  imports ChannelQueue ChannelConfig
begin

text \<open>
  The class \<open>Channel\<close> of \<open>queue_job/jobrunner/channels.py\<close>: a tree of channels, each with a queue,
  the sets of its running and failed jobs, and its configuration. The parent link of a channel is
  its place in the tree; a reference to a channel is its path of names below the root.
\<close>

section \<open>Channels\<close>

record ChannelData =
  ch_name :: string
  ch_queue :: ChannelQueue
  ch_running :: "jid set"
  ch_failed :: "jid set"
  ch_pause_until :: int
  ch_capacity :: "int option"
  ch_throttle :: int

datatype Channel = Channel (ch_data: ChannelData) (ch_children: "(string \<times> Channel) list")

definition ch_init :: "string \<Rightarrow> int option \<Rightarrow> bool \<Rightarrow> int \<Rightarrow> Channel" where
  "ch_init name capacity sequential throttle =
     Channel \<lparr>ch_name = name, ch_queue = cq_init sequential, ch_running = {}, ch_failed = {},
              ch_pause_until = 0, ch_capacity = capacity, ch_throttle = throttle\<rparr> []"

definition ch_sequential :: "ChannelData \<Rightarrow> bool" where
  "ch_sequential d = cq_sequential (ch_queue d)"

definition ch_set_sequential :: "bool \<Rightarrow> ChannelData \<Rightarrow> ChannelData" where
  "ch_set_sequential b d = d\<lparr>ch_queue := (ch_queue d)\<lparr>cq_sequential := b\<rparr>\<rparr>"

section \<open>Configuration\<close>

text \<open>\<open>bool(v)\<close> and \<open>int(v)\<close> of a configuration value.\<close>

fun cfg_bool :: "cfg_val \<Rightarrow> bool" where
  "cfg_bool (CInt n) = (n \<noteq> 0)"
| "cfg_bool (CStr s) = (s \<noteq> [])"
| "cfg_bool CTrue = True"

fun cfg_int :: "cfg_val \<Rightarrow> int result" where
  "cfg_int (CInt n) = Inr n"
| "cfg_int (CStr s) = (case py_int s of None \<Rightarrow> Inl ValueError | Some n \<Rightarrow> Inr n)"
| "cfg_int CTrue = Inr 1"

text \<open>
  The capacity is stored as it is; only a number (or \<open>True\<close>, which compares as one) is represented,
  since the parser never produces another capacity.
\<close>

definition cfg_capacity :: "config \<Rightarrow> int option result" where
  "cfg_capacity config =
     (case map_of config ''capacity'' of
        None \<Rightarrow> Inr None
      | Some (CInt n) \<Rightarrow> Inr (Some n)
      | Some CTrue \<Rightarrow> Inr (Some 1)
      | Some (CStr s) \<Rightarrow> Inl TypeError)"

definition ch_configure :: "string \<Rightarrow> config \<Rightarrow> ChannelData \<Rightarrow> ChannelData result" where
  "ch_configure fullname config d =
     (case map_of config ''name'' of
        Some (CStr name) \<Rightarrow>
          if \<not> py_endswith fullname name then Inl AssertionError
          else rbind (cfg_capacity config) (\<lambda>capacity.
               let sequential = (case map_of config ''sequential'' of None \<Rightarrow> False | Some v \<Rightarrow> cfg_bool v)
               in rbind (case map_of config ''throttle'' of None \<Rightarrow> Inr 0 | Some v \<Rightarrow> cfg_int v) (\<lambda>throttle.
                  if sequential \<and> capacity \<noteq> Some 1 then Inl ValueError
                  else Inr (ch_set_sequential sequential
                         (d\<lparr>ch_capacity := capacity, ch_throttle := throttle\<rparr>))))
      | Some v \<Rightarrow> Inl TypeError
      | None \<Rightarrow> Inl KeyError)"

section \<open>State transitions of a job\<close>

text \<open>
  Each of these methods changes the channel of the job and then, in some cases only, calls a method
  of the parent. The model of the part that concerns one channel returns the channel and whether the
  parent is called.
\<close>

definition ch_remove1 :: "jid \<Rightarrow> ChannelData \<Rightarrow> (ChannelData \<times> bool) result" where
  "ch_remove1 j d =
     rbind (cq_remove j (ch_queue d)) (\<lambda>q.
     Inr (d\<lparr>ch_queue := q, ch_running := ch_running d - {j}, ch_failed := ch_failed d - {j}\<rparr>, True))"

definition ch_set_pending1 :: "jobs \<Rightarrow> jid \<Rightarrow> ChannelData \<Rightarrow> (ChannelData \<times> bool) result" where
  "ch_set_pending1 js j d =
     (if \<not> cq_contains j (ch_queue d)
      then rbind (cq_add js j (ch_queue d)) (\<lambda>q.
           Inr (d\<lparr>ch_queue := q, ch_running := ch_running d - {j}, ch_failed := ch_failed d - {j}\<rparr>, True))
      else Inr (d, False))"

definition ch_set_running1 :: "jid \<Rightarrow> ChannelData \<Rightarrow> (ChannelData \<times> bool) result" where
  "ch_set_running1 j d =
     (if j \<notin> ch_running d
      then rbind (cq_remove j (ch_queue d)) (\<lambda>q.
           Inr (d\<lparr>ch_queue := q, ch_running := insert j (ch_running d), ch_failed := ch_failed d - {j}\<rparr>, True))
      else Inr (d, False))"

definition ch_set_failed1 :: "jid \<Rightarrow> ChannelData \<Rightarrow> (ChannelData \<times> bool) result" where
  "ch_set_failed1 j d =
     (if j \<notin> ch_failed d
      then rbind (cq_remove j (ch_queue d)) (\<lambda>q.
           Inr (d\<lparr>ch_queue := q, ch_running := ch_running d - {j}, ch_failed := insert j (ch_failed d)\<rparr>, True))
      else Inr (d, False))"

text \<open>
  \<open>here\<close> at the end of the path, then \<open>above\<close> on each channel on the way up to the root, as long as
  the parent is called. A path that leads to no channel stands for no Python object.
\<close>

fun on_path ::
  "(ChannelData \<Rightarrow> (ChannelData \<times> bool) result) \<Rightarrow> (ChannelData \<Rightarrow> (ChannelData \<times> bool) result) \<Rightarrow>
   chan_path \<Rightarrow> Channel \<Rightarrow> (Channel \<times> bool) result" where
  "on_path here upward [] (Channel d cs) = rbind (here d) (\<lambda>(d', up). Inr (Channel d' cs, up))"
| "on_path here upward (n # p) (Channel d cs) =
     (case map_of cs n of
        None \<Rightarrow> Inl KeyError
      | Some c \<Rightarrow>
          rbind (on_path here upward p c) (\<lambda>(c', up).
          if up then rbind (upward d) (\<lambda>(d', up'). Inr (Channel d' (dict_set n c' cs), up'))
          else Inr (Channel d (dict_set n c' cs), False)))"

definition ch_remove :: "chan_path \<Rightarrow> jid \<Rightarrow> Channel \<Rightarrow> Channel result" where
  "ch_remove p j c = rbind (on_path (ch_remove1 j) (ch_remove1 j) p c) (\<lambda>(c', _). Inr c')"

definition ch_set_done :: "chan_path \<Rightarrow> jid \<Rightarrow> Channel \<Rightarrow> Channel result" where
  "ch_set_done p j c = ch_remove p j c"

definition ch_set_pending :: "jobs \<Rightarrow> chan_path \<Rightarrow> jid \<Rightarrow> Channel \<Rightarrow> Channel result" where
  "ch_set_pending js p j c =
     rbind (on_path (ch_set_pending1 js j) (ch_remove1 j) p c) (\<lambda>(c', _). Inr c')"

definition ch_set_running :: "chan_path \<Rightarrow> jid \<Rightarrow> Channel \<Rightarrow> Channel result" where
  "ch_set_running p j c =
     rbind (on_path (ch_set_running1 j) (ch_set_running1 j) p c) (\<lambda>(c', _). Inr c')"

definition ch_set_failed :: "chan_path \<Rightarrow> jid \<Rightarrow> Channel \<Rightarrow> Channel result" where
  "ch_set_failed p j c =
     rbind (on_path (ch_set_failed1 j) (ch_remove1 j) p c) (\<lambda>(c', _). Inr c')"

section \<open>Capacity and the jobs to run\<close>

definition has_capacity :: "ChannelData \<Rightarrow> bool" where
  "has_capacity d =
     (if ch_sequential d \<and> ch_failed d \<noteq> {} then False
      else (case ch_capacity d of
              None \<Rightarrow> True
            | Some c \<Rightarrow> if c = 0 then True else int (card (ch_running d)) < c))"

text \<open>
  \<open>get_jobs_to_run\<close> is a generator. What the caller does with each job it is given, before it asks
  for the next one, is \<open>deliver\<close>, on the caller's own state: the parent channel adds the job to its
  queue, the runner appends it to the list of the jobs it has got.
\<close>

function run_loop ::
  "(jobs \<Rightarrow> jid \<Rightarrow> 'q \<Rightarrow> 'q result) \<Rightarrow> int \<Rightarrow> 'q \<Rightarrow> jobs \<Rightarrow> ChannelData \<Rightarrow> ('q \<times> jobs \<times> ChannelData) result" where
  "run_loop deliver now sink js d =
     (if \<not> has_capacity d then Inr (sink, js, d)
      else rbind (cq_pop now js (ch_queue d)) (\<lambda>(r, js1, q1).
        case r of
          None \<Rightarrow> Inr (sink, js1, d\<lparr>ch_queue := q1\<rparr>)
        | Some j \<Rightarrow>
            rbind (deliver js1 j sink) (\<lambda>sink1.
              if ch_throttle d \<noteq> 0
              then Inr (sink1, js1, d\<lparr>ch_queue := q1, ch_running := insert j (ch_running d),
                                      ch_pause_until := now + ch_throttle d\<rparr>)
              else run_loop deliver now sink1 js1
                     (d\<lparr>ch_queue := q1, ch_running := insert j (ch_running d)\<rparr>))))"
  by pat_completeness auto
termination
  by (relation "measure (\<lambda>(deliver, now, sink, js, d). cq_size (ch_queue d))") (auto dest: cq_pop_size)

declare run_loop.simps [simp del]

definition run_channel ::
  "(jobs \<Rightarrow> jid \<Rightarrow> 'q \<Rightarrow> 'q result) \<Rightarrow> int \<Rightarrow> 'q \<Rightarrow> jobs \<Rightarrow> ChannelData \<Rightarrow> ('q \<times> jobs \<times> ChannelData) result" where
  "run_channel deliver now sink js d =
     (if ch_throttle d \<noteq> 0 \<and> ch_pause_until d \<noteq> 0
      then if now < ch_pause_until d then Inr (sink, js, d)
           else run_loop deliver now sink js (d\<lparr>ch_pause_until := 0\<rparr>)
      else run_loop deliver now sink js d)"

text \<open>
  The children come first, in the order of the dictionary, each with its own children before it; a
  child's generator is run to its end, and every job it yields goes to the queue of its parent.
\<close>

fun children_jobs ::
  "int \<Rightarrow> ChannelQueue \<Rightarrow> jobs \<Rightarrow> (string \<times> Channel) list \<Rightarrow>
   (ChannelQueue \<times> jobs \<times> (string \<times> Channel) list) result" where
  "children_jobs now q js [] = Inr (q, js, [])"
| "children_jobs now q js ((n, Channel d cs) # rest) =
     rbind (children_jobs now (ch_queue d) js cs) (\<lambda>(q1, js1, cs1).
     rbind (run_channel cq_add now q js1 (d\<lparr>ch_queue := q1\<rparr>)) (\<lambda>(q2, js2, d2).
     rbind (children_jobs now q2 js2 rest) (\<lambda>(q3, js3, rest3).
     Inr (q3, js3, (n, Channel d2 cs1) # rest3))))"

definition ch_get_jobs_to_run ::
  "(jobs \<Rightarrow> jid \<Rightarrow> 'q \<Rightarrow> 'q result) \<Rightarrow> int \<Rightarrow> 'q \<Rightarrow> jobs \<Rightarrow> Channel \<Rightarrow> ('q \<times> jobs \<times> Channel) result" where
  "ch_get_jobs_to_run deliver now sink js c =
     (case c of Channel d cs \<Rightarrow>
        rbind (children_jobs now (ch_queue d) js cs) (\<lambda>(q1, js1, cs1).
        rbind (run_channel deliver now sink js1 (d\<lparr>ch_queue := q1\<rparr>)) (\<lambda>(sink2, js2, d2).
        Inr (sink2, js2, Channel d2 cs1))))"

text \<open>The runner collects the jobs of the root channel.\<close>

definition collect :: "jobs \<Rightarrow> jid \<Rightarrow> jid list \<Rightarrow> jid list result" where
  "collect js j js_so_far = Inr (js_so_far @ [j])"

section \<open>Wakeup time\<close>

fun ch_get_wakeup_time :: "jobs \<Rightarrow> int \<Rightarrow> Channel \<Rightarrow> (int \<times> Channel) result"
and children_wakeup_time ::
  "jobs \<Rightarrow> int \<Rightarrow> (string \<times> Channel) list \<Rightarrow> (int \<times> (string \<times> Channel) list) result" where
  "ch_get_wakeup_time js wakeup_time (Channel d cs) =
     (if \<not> has_capacity d then Inr (wakeup_time, Channel d cs)
      else if ch_pause_until d \<noteq> 0
      then Inr (if wakeup_time = 0 then ch_pause_until d else min wakeup_time (ch_pause_until d),
                Channel d cs)
      else rbind (cq_get_wakeup_time js wakeup_time (ch_queue d)) (\<lambda>(w, q).
           rbind (children_wakeup_time js w cs) (\<lambda>(w', cs').
           Inr (w', Channel (d\<lparr>ch_queue := q\<rparr>) cs'))))"
| "children_wakeup_time js wakeup_time [] = Inr (wakeup_time, [])"
| "children_wakeup_time js wakeup_time ((n, c) # rest) =
     rbind (ch_get_wakeup_time js wakeup_time c) (\<lambda>(w, c').
     rbind (children_wakeup_time js w rest) (\<lambda>(w', rest').
     Inr (w', (n, c') # rest')))"

end
