(* ===== verification/ChannelRun.thy ===== *)
theory ChannelRun
  imports Channel
begin

text \<open>
  What one channel does in \<open>get_jobs_to_run\<close>: the interface of the caller that receives its jobs
  (locale \<open>job_sink\<close>), the specification \<open>ran\<close> of the loop, and the proof that the loop meets it
  for every caller that satisfies the interface. The interface is interpreted on the queue of the
  parent channel and on the list of the runner.
\<close>

section \<open>Changes of the job store\<close>

definition cq_etas :: "ChannelQueue \<Rightarrow> jid set" where
  "cq_etas q = pq_known (cq_eta_queue q)"

lemma cq_inv_clear:
  assumes "cq_inv js q" and "D \<subseteq> with_eta js" and "D \<inter> cq_etas q = {}"
  shows "cq_inv (clear_etas D js) q"
proof -
  have "clear_etas D js j = js j" if "j \<in> pq_known (cq_queue q)" for j
  proof -
    have "j \<in> no_eta js" using that assms(1) by (auto simp: cq_inv_def pq_inv_def)
    with assms(2) have "j \<notin> D" by (auto simp: no_eta_def with_eta_def eta_set_def)
    then show ?thesis by (simp add: clear_etas_def)
  qed
  moreover have "clear_etas D js j = js j" if "j \<in> pq_known (cq_eta_queue q)" for j
    using that assms(3) by (auto simp: clear_etas_def cq_etas_def)
  ultimately show ?thesis
    using assms(1) nq_inv_store [of js "cq_queue q" "clear_etas D js"]
      eq_inv_store [of js "cq_eta_queue q" "clear_etas D js"]
    by (simp add: cq_inv_def)
qed

lemma cq_later_etas: "cq_later q \<subseteq> cq_etas q"
  by (auto simp: cq_later_def cq_etas_def pq_abs_def)

lemma due_subset: "due now js J \<subseteq> J"
  by (auto simp: due_def)

lemma due_cleared: "due now (clear_etas (due now js J) js) (J - due now js J) = {}"
  by (auto simp: due_def cj_eta_clear_etas)

lemma clear_etas_twice: "clear_etas E (clear_etas D js) = clear_etas (D \<union> E) js"
  by (auto simp: clear_etas_def fun_eq_iff)

lemma with_eta_clear: "with_eta (clear_etas D js) = with_eta js - D"
  by (auto simp: with_eta_def cj_eta_clear_etas eta_set_def)

section \<open>The interface of the caller\<close>

fun deliver_all :: "(jid \<Rightarrow> 's \<Rightarrow> 's result) \<Rightarrow> jid list \<Rightarrow> 's \<Rightarrow> 's result" where
  "deliver_all deliver [] s = Inr s"
| "deliver_all deliver (j # ys) s = rbind (deliver j s) (deliver_all deliver ys)"

locale job_sink =
  fixes deliver :: "jobs \<Rightarrow> jid \<Rightarrow> 's \<Rightarrow> 's result"
    and sink_inv :: "jobs \<Rightarrow> 's \<Rightarrow> bool"
    and received :: "'s \<Rightarrow> jid set"
    and etas :: "'s \<Rightarrow> jid set"
    and rest :: "'s \<Rightarrow> 'r"
  assumes deliver_ok: "sink_inv js s \<Longrightarrow> cj_eta (js j) = None \<Longrightarrow>
      \<exists>s'. deliver js j s = Inr s' \<and> sink_inv js s' \<and> received s' = insert j (received s) \<and>
           etas s' = etas s \<and> rest s' = rest s"
    and sink_store: "sink_inv js s \<Longrightarrow> D \<subseteq> with_eta js \<Longrightarrow> D \<inter> etas s = {} \<Longrightarrow> sink_inv (clear_etas D js) s"
begin

lemma deliver_all_ok:
  "sink_inv js s \<Longrightarrow> (\<And>j. j \<in> set ys \<Longrightarrow> cj_eta (js j) = None) \<Longrightarrow>
    \<exists>s'. deliver_all (deliver js) ys s = Inr s' \<and> sink_inv js s' \<and> received s' = received s \<union> set ys \<and>
         etas s' = etas s \<and> rest s' = rest s"
proof (induction ys arbitrary: s)
  case (Cons j ys)
  then obtain s1 where s1: "deliver js j s = Inr s1" "sink_inv js s1" "received s1 = insert j (received s)"
    "etas s1 = etas s" "rest s1 = rest s"
    using deliver_ok [of js s j] by auto
  with Cons obtain s' where "deliver_all (deliver js) ys s1 = Inr s'" "sink_inv js s'"
    "received s' = received s1 \<union> set ys" "etas s' = etas s1" "rest s' = rest s1"
    by (metis list.set_intros(2))
  with s1 show ?case by auto
qed simp

end

text \<open>The queue of the parent channel, and the list of the runner.\<close>

interpretation queue_sink: job_sink cq_add cq_inv cq_now cq_etas "\<lambda>q. (cq_eta_queue q, cq_sequential q)"
proof unfold_locales
  fix js q j
  assume q: "cq_inv js q" and j: "cj_eta (js j) = None"
  then obtain q' where "cq_add js j q = Inr q' \<and> cq_inv js q' \<and> cq_sequential q' = cq_sequential q \<and>
    cq_now q' = insert j (cq_now q) \<and> cq_eta_queue q' = cq_eta_queue q"
    using cq_add_ok [of js q j] by (auto simp: eta_set_def)
  then show "\<exists>q'. cq_add js j q = Inr q' \<and> cq_inv js q' \<and> cq_now q' = insert j (cq_now q) \<and>
    cq_etas q' = cq_etas q \<and> (cq_eta_queue q', cq_sequential q') = (cq_eta_queue q, cq_sequential q)"
    by (intro exI [of _ q']) (simp add: cq_etas_def)
qed (rule cq_inv_clear)

interpretation list_sink: job_sink collect "\<lambda>_ _. True" set "\<lambda>_. {}" "\<lambda>_. ()"
  by unfold_locales (auto simp: collect_def)

lemma deliver_all_collect: "deliver_all (collect js) ys s = Inr (s @ ys)"
  by (induction ys arbitrary: s) (simp_all add: collect_def)

section \<open>The specification of the loop\<close>

text \<open>
  The jobs whose eta has come join the jobs that can run, provided the channel has capacity at all;
  of these the channel hands over \<open>ys\<close>, in the order of their keys and before all that stay, and
  marks them running. It stops when it has no capacity, after one job when it is throttled, when no
  job is left, or when a sequential channel waits for an eta.
\<close>

definition released :: "int \<Rightarrow> jobs \<Rightarrow> ChannelData \<Rightarrow> jid set" where
  "released now js d = (if has_capacity d then due now js (cq_later (ch_queue d)) else {})"

definition capacity_ok :: "ChannelData \<Rightarrow> bool" where
  "capacity_ok d =
     (case ch_capacity d of None \<Rightarrow> True | Some c \<Rightarrow> c = 0 \<or> int (card (ch_running d)) \<le> c)"

definition same_config :: "ChannelData \<Rightarrow> ChannelData \<Rightarrow> bool" where
  "same_config d d' \<longleftrightarrow> ch_name d' = ch_name d \<and> ch_failed d' = ch_failed d \<and>
     ch_capacity d' = ch_capacity d \<and> ch_throttle d' = ch_throttle d \<and> ch_sequential d' = ch_sequential d"

definition in_order :: "jobs \<Rightarrow> jid list \<Rightarrow> jid set \<Rightarrow> bool" where
  "in_order js ys rest \<longleftrightarrow> distinct ys \<and> sorted (map (\<lambda>j. sorting_key_ignoring_eta (js j)) ys) \<and>
     (\<forall>y\<in>set ys. \<forall>z\<in>rest. sorting_key_ignoring_eta (js y) \<le> sorting_key_ignoring_eta (js z))"

definition ran :: "int \<Rightarrow> jobs \<Rightarrow> ChannelData \<Rightarrow> jid list \<Rightarrow> jobs \<Rightarrow> ChannelData \<Rightarrow> bool" where
  "ran now js d ys js' d' \<longleftrightarrow>
     js' = clear_etas (released now js d) js \<and>
     cq_inv js' (ch_queue d') \<and> cq_etas (ch_queue d') \<subseteq> cq_etas (ch_queue d) \<and>
     set ys \<subseteq> cq_now (ch_queue d) \<union> released now js d \<and>
     cq_now (ch_queue d') = cq_now (ch_queue d) \<union> released now js d - set ys \<and>
     cq_later (ch_queue d') = cq_later (ch_queue d) - released now js d \<and>
     in_order js ys (cq_now (ch_queue d')) \<and>
     ch_running d' = ch_running d \<union> set ys \<and> same_config d d' \<and>
     ch_pause_until d' = (if ch_throttle d \<noteq> 0 \<and> ys \<noteq> [] then now + ch_throttle d else ch_pause_until d) \<and>
     (ch_throttle d \<noteq> 0 \<longrightarrow> length ys \<le> 1) \<and>
     (ys \<noteq> [] \<longrightarrow> has_capacity d \<and> capacity_ok d') \<and>
     (\<not> has_capacity d' \<or> ch_throttle d \<noteq> 0 \<and> ys \<noteq> [] \<or> cq_now (ch_queue d') = {} \<or>
      waits js' (ch_sequential d) (cq_now (ch_queue d')) (cq_later (ch_queue d')))"

lemma ran_etas: "ran now js d ys js' d' \<Longrightarrow> cq_inv js (ch_queue d) \<Longrightarrow>
    \<exists>D. js' = clear_etas D js \<and> D \<subseteq> cq_later (ch_queue d) \<and> D \<subseteq> with_eta js"
  using cq_later_with_eta [of js "ch_queue d"]
  by (intro exI [of _ "released now js d"]) (auto simp: ran_def released_def due_def)

lemma ran_now: "ran now js d ys js' d' \<Longrightarrow> cq_inv js (ch_queue d) \<Longrightarrow> j \<in> set ys \<Longrightarrow> cj_eta (js' j) = None"
  using cq_now_no_eta [of js "ch_queue d"]
  by (auto simp: ran_def cj_eta_clear_etas no_eta_def)

lemma ran_none:
  assumes "cq_inv js (ch_queue d)" and "\<not> has_capacity d"
  shows "ran now js d [] js d"
  using assms by (auto simp: ran_def released_def same_config_def in_order_def)

text \<open>The three ways one turn of the loop ends, from what \<open>pop\<close> does.\<close>

lemma released_capacity: "has_capacity d \<Longrightarrow> released now js d = due now js (cq_later (ch_queue d))"
  by (simp add: released_def)

lemma ran_pop_none:
  assumes inv: "cq_inv js (ch_queue d)" and cap: "has_capacity d"
    and pop: "cq_pop now js (ch_queue d) = Inr (None, js1, q1)"
  shows "ran now js d [] js1 (d\<lparr>ch_queue := q1\<rparr>)"
  using cq_pop_ok [OF inv, of now] pop cap
  by (auto simp: ran_def released_capacity same_config_def in_order_def ch_sequential_def cq_etas_def)

lemma ran_pop_some:
  assumes inv: "cq_inv js (ch_queue d)" and cap: "has_capacity d"
    and pop: "cq_pop now js (ch_queue d) = Inr (Some j, js1, q1)"
  defines "D \<equiv> due now js (cq_later (ch_queue d))"
  shows "js1 = clear_etas D js \<and> cq_inv js1 q1 \<and> cq_etas q1 \<subseteq> cq_etas (ch_queue d) \<and>
    cq_sequential q1 = cq_sequential (ch_queue d) \<and> cq_later q1 = cq_later (ch_queue d) - D \<and>
    j \<in> cq_now (ch_queue d) \<union> D \<and> cq_now q1 = cq_now (ch_queue d) \<union> D - {j} \<and>
    (\<forall>y\<in>cq_now q1. sorting_key_ignoring_eta (js j) \<le> sorting_key_ignoring_eta (js y)) \<and> due now js1 (cq_later q1) = {}"
  using cq_pop_ok [OF inv, of now] pop due_cleared unfolding D_def by (auto simp: cq_etas_def)

lemma capacity_ok_insert:
  assumes "has_capacity d" and "finite (ch_running d)"
  shows "capacity_ok (d\<lparr>ch_queue := q1, ch_running := insert j (ch_running d)\<rparr>)"
    and "capacity_ok (d\<lparr>ch_queue := q1, ch_running := insert j (ch_running d), ch_pause_until := t\<rparr>)"
proof -
  have "card (insert j (ch_running d)) \<le> Suc (card (ch_running d))"
    using assms(2) by (simp add: card_insert_if)
  then show "capacity_ok (d\<lparr>ch_queue := q1, ch_running := insert j (ch_running d)\<rparr>)"
    and "capacity_ok (d\<lparr>ch_queue := q1, ch_running := insert j (ch_running d), ch_pause_until := t\<rparr>)"
    using assms(1) by (auto simp: capacity_ok_def has_capacity_def split: option.splits if_splits)
qed

lemma ran_pop_throttle:
  assumes inv: "cq_inv js (ch_queue d)" and cap: "has_capacity d" and fin: "finite (ch_running d)"
    and pop: "cq_pop now js (ch_queue d) = Inr (Some j, js1, q1)" and thr: "ch_throttle d \<noteq> 0"
  shows "ran now js d [j] js1
    (d\<lparr>ch_queue := q1, ch_running := insert j (ch_running d), ch_pause_until := now + ch_throttle d\<rparr>)"
proof -
  from ran_pop_some [OF inv cap pop]
  have f: "js1 = clear_etas (due now js (cq_later (ch_queue d))) js" "cq_inv js1 q1"
    "cq_etas q1 \<subseteq> cq_etas (ch_queue d)" "cq_sequential q1 = cq_sequential (ch_queue d)"
    "cq_later q1 = cq_later (ch_queue d) - due now js (cq_later (ch_queue d))"
    "j \<in> cq_now (ch_queue d) \<union> due now js (cq_later (ch_queue d))"
    "cq_now q1 = cq_now (ch_queue d) \<union> due now js (cq_later (ch_queue d)) - {j}"
    "\<forall>y\<in>cq_now q1. sorting_key_ignoring_eta (js j) \<le> sorting_key_ignoring_eta (js y)"
    by auto
  show ?thesis
    unfolding ran_def released_capacity [OF cap]
    using f thr capacity_ok_insert(2) [OF cap fin, where ?q1.0 = q1 and j = j and t = "now + ch_throttle d"] cap
    by (simp add: same_config_def in_order_def ch_sequential_def)
qed

lemma ran_pop_more:
  assumes inv: "cq_inv js (ch_queue d)" and cap: "has_capacity d" and fin: "finite (ch_running d)"
    and pop: "cq_pop now js (ch_queue d) = Inr (Some j, js1, q1)" and thr: "ch_throttle d = 0"
    and more: "ran now js1 (d\<lparr>ch_queue := q1, ch_running := insert j (ch_running d)\<rparr>) ys js' d'"
  shows "ran now js d (j # ys) js' d'"
proof -
  let ?d = "d\<lparr>ch_queue := q1, ch_running := insert j (ch_running d)\<rparr>"
  let ?D = "due now js (cq_later (ch_queue d))"
  from ran_pop_some [OF inv cap pop]
  have f: "js1 = clear_etas ?D js" "cq_inv js1 q1" "cq_etas q1 \<subseteq> cq_etas (ch_queue d)"
    "cq_sequential q1 = cq_sequential (ch_queue d)" "cq_later q1 = cq_later (ch_queue d) - ?D"
    "j \<in> cq_now (ch_queue d) \<union> ?D" "cq_now q1 = cq_now (ch_queue d) \<union> ?D - {j}"
    "\<forall>y\<in>cq_now q1. sorting_key_ignoring_eta (js j) \<le> sorting_key_ignoring_eta (js y)"
    "due now js1 (cq_later q1) = {}"
    by auto
  then have r: "released now js1 ?d = {}" by (simp add: released_def)
  from more have m: "js' = js1" "cq_inv js' (ch_queue d')" "cq_etas (ch_queue d') \<subseteq> cq_etas q1"
    "set ys \<subseteq> cq_now q1" "cq_now (ch_queue d') = cq_now q1 - set ys"
    "cq_later (ch_queue d') = cq_later q1" "in_order js1 ys (cq_now (ch_queue d'))"
    "ch_running d' = insert j (ch_running d) \<union> set ys" "same_config ?d d'"
    "ch_pause_until d' = ch_pause_until d" "ys \<noteq> [] \<longrightarrow> has_capacity ?d \<and> capacity_ok d'"
    and stop: "\<not> has_capacity d' \<or> cq_now (ch_queue d') = {} \<or>
      waits js' (ch_sequential ?d) (cq_now (ch_queue d')) (cq_later (ch_queue d'))"
    using thr unfolding ran_def r by auto
  have sc: "same_config d d'" using m(9) f(4) by (simp add: same_config_def ch_sequential_def)
  have ord: "in_order js (j # ys) (cq_now (ch_queue d'))"
    using m(4,5,7) f(1,7,8) by (auto simp: in_order_def)
  have cap': "capacity_ok d'"
  proof (cases "ys = []")
    case True
    with m(8,9) capacity_ok_insert(1) [OF cap fin, where ?q1.0 = q1 and j = j] show ?thesis
      by (auto simp: capacity_ok_def same_config_def split: option.splits)
  next
    case False
    with m(11) show ?thesis by simp
  qed
  have sets: "set (j # ys) \<subseteq> cq_now (ch_queue d) \<union> ?D"
    "cq_now (ch_queue d') = cq_now (ch_queue d) \<union> ?D - set (j # ys)"
    "cq_later (ch_queue d') = cq_later (ch_queue d) - ?D"
    "ch_running d' = ch_running d \<union> set (j # ys)" "cq_etas (ch_queue d') \<subseteq> cq_etas (ch_queue d)"
    using m(3-6,8) f(3,5-7) by auto
  have seq: "ch_sequential ?d = ch_sequential d" using f(4) by (simp add: ch_sequential_def)
  show ?thesis
    unfolding ran_def released_capacity [OF cap]
    using sets ord sc cap cap' m(1,2,10) f(1) thr stop [unfolded seq] by auto
qed

context job_sink begin

text \<open>The loop meets the specification, and the caller gets exactly the jobs it hands over.\<close>

lemma run_loop_ok:
  assumes "cq_inv js (ch_queue d)" and "finite (ch_running d)" and "sink_inv js s"
    and "etas s \<inter> cq_etas (ch_queue d) = {}"
  shows "\<exists>ys s' js' d'. run_loop deliver now s js d = Inr (s', js', d') \<and> ran now js d ys js' d' \<and>
    sink_inv js' s \<and> deliver_all (deliver js') ys s = Inr s'"
  using assms
proof (induction "cq_size (ch_queue d)" arbitrary: d js s rule: less_induct)
  case less
  note inv = less.prems(1)
  show ?case
  proof (cases "has_capacity d")
    case False
    with ran_none [OF inv False, of now] less.prems show ?thesis
      by (intro exI [of _ "[]"]) (simp add: run_loop.simps [of deliver now s js d])
  next
    case cap: True
    obtain r js1 q1 where pop: "cq_pop now js (ch_queue d) = Inr (r, js1, q1)"
      and js1: "js1 = clear_etas (due now js (cq_later (ch_queue d))) js"
      using cq_pop_ok [OF inv, of now] by blast
    let ?D = "due now js (cq_later (ch_queue d))"
    have D: "?D \<subseteq> with_eta js" "?D \<inter> etas s = {}"
      using cq_later_with_eta [OF inv] cq_later_etas [of "ch_queue d"] due_subset [of now js "cq_later (ch_queue d)"]
        less.prems(4) by blast+
    with less.prems(3) have s1: "sink_inv js1 s" unfolding js1 by (intro sink_store)
    show ?thesis
    proof (cases r)
      case None
      with pop cap have "run_loop deliver now s js d = Inr (s, js1, d\<lparr>ch_queue := q1\<rparr>)"
        by (simp add: run_loop.simps [of deliver now s js d])
      with ran_pop_none [OF inv cap] pop None s1 show ?thesis
        by (intro exI [of _ "[]"]) auto
    next
      case (Some j)
      note pop = pop [unfolded Some]
      note f = ran_pop_some [OF inv cap pop]
      have "cj_eta (js1 j) = None"
        using f cq_now_no_eta [OF inv] by (auto simp: cj_eta_clear_etas no_eta_def)
      then obtain s1' where s1': "deliver js1 j s = Inr s1'" "sink_inv js1 s1'" "etas s1' = etas s"
        using deliver_ok [OF s1] by blast
      show ?thesis
      proof (cases "ch_throttle d = 0")
        case False
        with pop cap s1'(1) have "run_loop deliver now s js d = Inr (s1', js1, d\<lparr>ch_queue := q1,
            ch_running := insert j (ch_running d), ch_pause_until := now + ch_throttle d\<rparr>)"
          by (simp add: run_loop.simps [of deliver now s js d])
        with ran_pop_throttle [OF inv cap less.prems(2) pop False] s1 s1'(1) show ?thesis
          by (intro exI [of _ "[j]"]) auto
      next
        case True
        let ?d = "d\<lparr>ch_queue := q1, ch_running := insert j (ch_running d)\<rparr>"
        have eq: "run_loop deliver now s js d = run_loop deliver now s1' js1 ?d"
          using pop cap s1'(1) True by (simp add: run_loop.simps [of deliver now s js d])
        have "cq_size (ch_queue ?d) < cq_size (ch_queue d)" using cq_pop_size [OF pop] by simp
        moreover have "etas s1' \<inter> cq_etas (ch_queue ?d) = {}" using s1'(3) f less.prems(4) by auto
        moreover have "cq_inv js1 (ch_queue ?d)" "finite (ch_running ?d)" using f less.prems(2) by auto
        ultimately obtain ys s' js' d' where IH: "run_loop deliver now s1' js1 ?d = Inr (s', js', d')"
          "ran now js1 ?d ys js' d'" "deliver_all (deliver js') ys s1' = Inr s'"
          using less.hyps s1'(2) by blast
        have "due now js1 (cq_later q1) = {}" using f by blast
        then have "released now js1 ?d = {}" by (simp add: released_def)
        then have "js' = js1" using IH(2) by (simp add: ran_def)
        with IH eq s1 s1'(1) ran_pop_more [OF inv cap less.prems(2) pop True IH(2)] show ?thesis
          by (intro exI [of _ "j # ys"]) auto
      qed
    qed
  qed
qed

end

end
