(* ===== verification/ChannelTree.thy ===== *)
theory ChannelTree
  imports ChannelRun "HOL-Library.Sublist"
begin

text \<open>
  The tree of channels as a whole: the invariant that places every job exactly once on the way from
  its channel to the root (\<open>tree_inv\<close>), and its preservation by \<open>get_jobs_to_run\<close>, which raises
  nothing, loses no job and exceeds no capacity.
\<close>

section \<open>One channel, pauses included\<close>

definition paused :: "int \<Rightarrow> ChannelData \<Rightarrow> bool" where
  "paused now d \<longleftrightarrow> ch_throttle d \<noteq> 0 \<and> ch_pause_until d \<noteq> 0 \<and> now < ch_pause_until d"

definition unpause :: "ChannelData \<Rightarrow> ChannelData" where
  "unpause d = (if ch_throttle d \<noteq> 0 \<and> ch_pause_until d \<noteq> 0 then d\<lparr>ch_pause_until := 0\<rparr> else d)"

lemma run_channel_unpause:
  "run_channel deliver now s js d =
     (if paused now d then Inr (s, js, d) else run_loop deliver now s js (unpause d))"
  by (auto simp: run_channel_def paused_def unpause_def)

lemma unpause_simps [simp]:
  "ch_queue (unpause d) = ch_queue d" "ch_running (unpause d) = ch_running d"
  "ch_failed (unpause d) = ch_failed d" "ch_capacity (unpause d) = ch_capacity d"
  "ch_throttle (unpause d) = ch_throttle d" "ch_name (unpause d) = ch_name d"
  "ch_sequential (unpause d) = ch_sequential d" "has_capacity (unpause d) = has_capacity d"
  by (auto simp: unpause_def ch_sequential_def has_capacity_def split: option.splits)

definition ran_channel :: "int \<Rightarrow> jobs \<Rightarrow> ChannelData \<Rightarrow> jid list \<Rightarrow> jobs \<Rightarrow> ChannelData \<Rightarrow> bool" where
  "ran_channel now js d ys js' d' \<longleftrightarrow>
     (if paused now d then ys = [] \<and> js' = js \<and> d' = d else ran now js (unpause d) ys js' d')"

context job_sink begin

lemma run_channel_ok:
  assumes "cq_inv js (ch_queue d)" and "finite (ch_running d)" and "sink_inv js s"
    and "etas s \<inter> cq_etas (ch_queue d) = {}"
  shows "\<exists>ys s' js' d'. run_channel deliver now s js d = Inr (s', js', d') \<and>
    ran_channel now js d ys js' d' \<and> sink_inv js' s \<and> deliver_all (deliver js') ys s = Inr s'"
proof (cases "paused now d")
  case True
  with assms(3) show ?thesis
    by (intro exI [of _ "[]"]) (simp add: run_channel_unpause ran_channel_def)
next
  case False
  with run_loop_ok [of js "unpause d" s now] assms show ?thesis
    by (simp add: run_channel_unpause ran_channel_def)
qed

end

text \<open>What the rest of the tree relies on.\<close>

definition handed_over :: "int \<Rightarrow> jobs \<Rightarrow> ChannelData \<Rightarrow> jid set \<Rightarrow> jid list \<Rightarrow> jobs \<Rightarrow> ChannelData \<Rightarrow> bool" where
  "handed_over now js d D ys js' d' \<longleftrightarrow>
     js' = clear_etas D js \<and> due now js D = D \<and> D \<subseteq> cq_later (ch_queue d) \<and> D \<subseteq> with_eta js \<and> cq_inv js' (ch_queue d') \<and>
     cq_etas (ch_queue d') \<subseteq> cq_etas (ch_queue d) \<and> set ys \<subseteq> cq_now (ch_queue d) \<union> D \<and>
     cq_now (ch_queue d') = cq_now (ch_queue d) \<union> D - set ys \<and>
     cq_later (ch_queue d') = cq_later (ch_queue d) - D \<and>
     ch_running d' = ch_running d \<union> set ys \<and> same_config d d' \<and>
     (ys \<noteq> [] \<longrightarrow> capacity_ok d') \<and> (\<forall>j\<in>set ys. cj_eta (js' j) = None)"

lemma ran_channel_handed_over:
  assumes "ran_channel now js d ys js' d'" and inv: "cq_inv js (ch_queue d)"
  shows "\<exists>D. handed_over now js d D ys js' d'"
proof (cases "paused now d")
  case True
  with assms show ?thesis
    by (intro exI [of _ "{}"]) (auto simp: ran_channel_def handed_over_def same_config_def due_def)
next
  case False
  with assms have r: "ran now js (unpause d) ys js' d'" by (simp add: ran_channel_def)
  have n: "\<forall>j\<in>set ys. cj_eta (js' j) = None" using ran_now [OF r] inv by simp
  have "released now js (unpause d) \<subseteq> cq_later (ch_queue d)"
    using due_subset by (auto simp: released_def)
  then have "released now js (unpause d) \<subseteq> cq_later (ch_queue d) \<and> released now js (unpause d) \<subseteq> with_eta js"
    using cq_later_with_eta [OF inv] by blast
  moreover have "due now js (released now js (unpause d)) = released now js (unpause d)"
    by (auto simp: released_def due_def)
  ultimately show ?thesis using r n
    by (intro exI [of _ "released now js (unpause d)"]) (auto simp: handed_over_def ran_def same_config_def)
qed

section \<open>Channels by path\<close>

fun channel_at :: "chan_path \<Rightarrow> Channel \<Rightarrow> Channel option" where
  "channel_at [] c = Some c"
| "channel_at (n # p) (Channel d cs) = (case map_of cs n of None \<Rightarrow> None | Some c \<Rightarrow> channel_at p c)"

definition settings :: "Channel \<Rightarrow> string \<times> int option \<times> int \<times> bool \<times> string list" where
  "settings c = (case c of Channel d cs \<Rightarrow>
     (ch_name d, ch_capacity d, ch_throttle d, ch_sequential d, map fst cs))"

definition same_shape :: "Channel \<Rightarrow> Channel \<Rightarrow> bool" where
  "same_shape c c' \<longleftrightarrow> (\<forall>q. map_option settings (channel_at q c') = map_option settings (channel_at q c))"

lemma same_shape_refl [simp]: "same_shape c c"
  by (simp add: same_shape_def)

lemma same_shape_at: "same_shape c c' \<Longrightarrow> channel_at q c' = None \<longleftrightarrow> channel_at q c = None"
  by (metis same_shape_def map_option_is_None)

section \<open>The invariant of the tree\<close>

definition below :: "jobs \<Rightarrow> chan_path \<Rightarrow> jid set \<Rightarrow> jid set" where
  "below js p J = {j \<in> J. prefix p (cj_channel (js j))}"

definition queued :: "ChannelQueue \<Rightarrow> jid set" where
  "queued q = cq_now q \<union> cq_later q"

definition node_jobs :: "ChannelData \<Rightarrow> jid set" where
  "node_jobs d = queued (ch_queue d) \<union> ch_running d \<union> ch_failed d"

text \<open>
  In one channel with the children \<open>ns\<close>: a job is queued, running or failed, and only one of these;
  it belongs to this channel or to one below; only a job of this very channel waits for an eta or
  has failed here.
\<close>

definition node_inv :: "jobs \<Rightarrow> chan_path \<Rightarrow> string list \<Rightarrow> ChannelData \<Rightarrow> bool" where
  "node_inv js p ns d \<longleftrightarrow>
     cq_inv js (ch_queue d) \<and> finite (ch_running d) \<and> finite (ch_failed d) \<and>
     (\<forall>j\<in>cq_etas (ch_queue d). cj_channel (js j) = p) \<and>
     (\<forall>j\<in>ch_failed d. cj_channel (js j) = p) \<and>
     (\<forall>j\<in>node_jobs d. cj_channel (js j) = p \<or> (\<exists>n\<in>set ns. prefix (p @ [n]) (cj_channel (js j)))) \<and>
     queued (ch_queue d) \<inter> ch_running d = {} \<and> queued (ch_queue d) \<inter> ch_failed d = {} \<and>
     ch_running d \<inter> ch_failed d = {}"

text \<open>
  Between a channel and a child: the jobs running in the child are those of the child's subtree that
  are queued or running in the channel.
\<close>

definition linked :: "jobs \<Rightarrow> chan_path \<Rightarrow> jid set \<Rightarrow> (string \<times> Channel) list \<Rightarrow> bool" where
  "linked js p J cs \<longleftrightarrow> (\<forall>(n, c)\<in>set cs. ch_running (ch_data c) = below js (p @ [n]) J)"

fun tree_inv :: "jobs \<Rightarrow> chan_path \<Rightarrow> Channel \<Rightarrow> bool" where
  "tree_inv js p (Channel d cs) \<longleftrightarrow>
     node_inv js p (map fst cs) d \<and> linked js p (cq_now (ch_queue d) \<union> ch_running d) cs \<and>
     distinct (map fst cs) \<and> list_all (\<lambda>(n, c). tree_inv js (p @ [n]) c) cs"

definition forest_inv :: "jobs \<Rightarrow> chan_path \<Rightarrow> (string \<times> Channel) list \<Rightarrow> bool" where
  "forest_inv js p cs \<longleftrightarrow> distinct (map fst cs) \<and> (\<forall>(n, c)\<in>set cs. tree_inv js (p @ [n]) c)"

lemma tree_inv_Channel:
  "tree_inv js p (Channel d cs) \<longleftrightarrow>
     node_inv js p (map fst cs) d \<and> linked js p (cq_now (ch_queue d) \<union> ch_running d) cs \<and> forest_inv js p cs"
  by (auto simp: forest_inv_def list_all_iff)

declare tree_inv.simps [simp del]

fun tree_jobs :: "Channel \<Rightarrow> jid set" where
  "tree_jobs (Channel d cs) = node_jobs d \<union> \<Union> (set (map (\<lambda>(n, c). tree_jobs c) cs))"

definition forest_jobs :: "(string \<times> Channel) list \<Rightarrow> jid set" where
  "forest_jobs cs = (\<Union>(n, c)\<in>set cs. tree_jobs c)"

lemma tree_jobs_Channel: "tree_jobs (Channel d cs) = node_jobs d \<union> forest_jobs cs"
  by (auto simp: forest_jobs_def)

declare tree_jobs.simps [simp del]

text \<open>No channel runs more jobs than its capacity.\<close>

fun within_capacity :: "Channel \<Rightarrow> bool" where
  "within_capacity (Channel d cs) \<longleftrightarrow> capacity_ok d \<and> list_all (\<lambda>(n, c). within_capacity c) cs"

section \<open>Frame lemmas\<close>

lemma below_clear [simp]: "below (clear_etas D js) p J = below js p J"
  by (simp add: below_def)

lemma linked_clear [simp]: "linked (clear_etas D js) p J cs = linked js p J cs"
  by (simp add: linked_def)

lemma node_inv_clear:
  assumes "node_inv js p ns d" and "D \<subseteq> with_eta js" and "\<And>j. j \<in> D \<Longrightarrow> cj_channel (js j) \<noteq> p"
  shows "node_inv (clear_etas D js) p ns d"
proof -
  have "D \<inter> cq_etas (ch_queue d) = {}" using assms(1,3) by (auto simp: node_inv_def)
  with assms(1,2) cq_inv_clear show ?thesis by (simp add: node_inv_def)
qed

lemma tree_inv_clear:
  "tree_inv js p c \<Longrightarrow> D \<subseteq> with_eta js \<Longrightarrow> (\<And>j. j \<in> D \<Longrightarrow> \<not> prefix p (cj_channel (js j))) \<Longrightarrow>
    tree_inv (clear_etas D js) p c"
proof (induction js p c rule: tree_inv.induct)
  case (1 js p d cs)
  have "tree_inv (clear_etas D js) (p @ [n]) c" if "(n, c) \<in> set cs" for n c
  proof (rule "1.IH" [OF that refl])
    show "tree_inv js (p @ [n]) c"
      using that "1.prems"(1) by (auto simp: tree_inv_Channel forest_inv_def)
    show "D \<subseteq> with_eta js" by fact
    show "\<not> prefix (p @ [n]) (cj_channel (js j))" if "j \<in> D" for j
      using "1.prems"(3) [OF that] append_prefixD by blast
  qed
  moreover have "node_inv (clear_etas D js) p (map fst cs) d"
    using "1.prems" by (intro node_inv_clear) (auto simp: tree_inv_Channel)
  ultimately show ?case using "1.prems"(1) by (auto simp: tree_inv_Channel forest_inv_def)
qed

lemma forest_inv_clear:
  assumes "forest_inv js p cs" and "D \<subseteq> with_eta js"
    and "\<And>j n. j \<in> D \<Longrightarrow> n \<in> fst ` set cs \<Longrightarrow> \<not> prefix (p @ [n]) (cj_channel (js j))"
  shows "forest_inv (clear_etas D js) p cs"
  using assms by (fastforce simp: forest_inv_def intro!: tree_inv_clear)

lemma prefix_child_unique: "prefix (p @ [m]) l \<Longrightarrow> prefix (p @ [n]) l \<Longrightarrow> m = n"
  by (auto simp: prefix_def)

lemma not_prefix_child [simp]: "\<not> prefix (p @ [n]) p"
  by (auto simp: prefix_def)

section \<open>One channel in the tree\<close>

lemma node_handed_over:
  assumes n: "node_inv js p ns d" and h: "handed_over now js d D ys js' d'"
  shows "node_inv js' p ns d'" and "node_jobs d' = node_jobs d"
    and "cq_now (ch_queue d') \<union> ch_running d' = cq_now (ch_queue d) \<union> ch_running d \<union> D"
    and "j \<in> D \<Longrightarrow> cj_channel (js j) = p"
    and "set ys \<inter> ch_running d = {}"
    and "set ys \<subseteq> queued (ch_queue d)"
proof -
  have "D \<subseteq> cq_later (ch_queue d)" using h by (simp add: handed_over_def)
  moreover from this have "D \<subseteq> cq_etas (ch_queue d)" using cq_later_etas by blast
  ultimately have D: "\<And>j. j \<in> D \<Longrightarrow> cj_channel (js j) = p" "D \<subseteq> cq_later (ch_queue d)"
    using n by (auto simp: node_inv_def)
  then show "j \<in> D \<Longrightarrow> cj_channel (js j) = p" by blast
  show ys: "set ys \<subseteq> queued (ch_queue d)"
    using h D(2) by (auto simp: handed_over_def queued_def)
  with n show "set ys \<inter> ch_running d = {}" by (auto simp: node_inv_def)
  have q: "queued (ch_queue d') \<union> set ys = queued (ch_queue d)"
    "queued (ch_queue d') \<subseteq> queued (ch_queue d)"
    using h by (auto simp: handed_over_def queued_def)
  have f: "ch_failed d' = ch_failed d" using h by (simp add: handed_over_def same_config_def)
  have r: "ch_running d' = ch_running d \<union> set ys" using h by (simp add: handed_over_def)
  show nj: "node_jobs d' = node_jobs d" using q(1) f r by (auto simp: node_jobs_def)
  show "cq_now (ch_queue d') \<union> ch_running d' = cq_now (ch_queue d) \<union> ch_running d \<union> D"
    using h by (auto simp: handed_over_def)
  have dis: "cq_now (ch_queue d') \<inter> set ys = {}" "cq_later (ch_queue d') \<inter> set ys = {}"
  proof -
    show "cq_now (ch_queue d') \<inter> set ys = {}" using h by (auto simp: handed_over_def)
    have "\<forall>j\<in>set ys. cj_eta (js' j) = None" and ci: "cq_inv js' (ch_queue d')"
      using h by (auto simp: handed_over_def)
    then show "cq_later (ch_queue d') \<inter> set ys = {}"
      using cq_later_with_eta [OF ci] by (auto simp: with_eta_def eta_set_def)
  qed
  have nq: "queued (ch_queue d') \<inter> ch_running d' = {}" "queued (ch_queue d') \<inter> ch_failed d' = {}"
    "ch_running d' \<inter> ch_failed d' = {}"
    using n q dis ys f r by (auto simp: node_inv_def queued_def)
  have "cj_channel (js' j) = cj_channel (js j)" for j using h by (auto simp: handed_over_def)
  with n h f r nq show "node_inv js' p ns d'"
    unfolding node_inv_def nj by (auto simp: handed_over_def)
qed

text \<open>A channel that gets jobs of its children, none of which runs in it.\<close>

lemma node_receive:
  assumes n: "node_inv js p ns d" and inv: "cq_inv js' q'"
    and js': "js' = clear_etas D js"
    and q': "cq_now q' = cq_now (ch_queue d) \<union> Y" "cq_eta_queue q' = cq_eta_queue (ch_queue d)"
    and Y: "\<And>j. j \<in> Y \<Longrightarrow> \<exists>m\<in>set ns. prefix (p @ [m]) (cj_channel (js j))" "Y \<inter> ch_running d = {}"
  shows "node_inv js' p ns (d\<lparr>ch_queue := q'\<rparr>)" and "node_jobs (d\<lparr>ch_queue := q'\<rparr>) = node_jobs d \<union> Y"
proof -
  have l: "cq_later q' = cq_later (ch_queue d)" "cq_etas q' = cq_etas (ch_queue d)"
    using q'(2) by (simp_all add: cq_later_def cq_etas_def)
  then have q: "queued q' = queued (ch_queue d) \<union> Y" using q'(1) by (auto simp: queued_def)
  then show nj: "node_jobs (d\<lparr>ch_queue := q'\<rparr>) = node_jobs d \<union> Y" by (auto simp: node_jobs_def)
  have c: "cj_channel (js' j) = cj_channel (js j)" for j using js' by simp
  have Yf: "Y \<inter> ch_failed d = {}" using n Y(1) by (fastforce simp: node_inv_def)
  show "node_inv js' p ns (d\<lparr>ch_queue := q'\<rparr>)"
    unfolding node_inv_def nj using n inv q l c Y Yf by (auto simp: node_inv_def)
qed

section \<open>The children of a channel\<close>

lemma due_union:
  assumes "due now js D = D" and "E \<subseteq> with_eta (clear_etas D js)" and "due now (clear_etas D js) E = E"
  shows "due now js (D \<union> E) = D \<union> E"
proof -
  have E: "E \<inter> D = {}" using assms(2) by (auto simp: with_eta_clear)
  have "due now (clear_etas D js) E = due now js E"
    using E by (auto simp: due_def cj_eta_clear_etas)
  then show ?thesis using assms(1,3) by (auto simp: due_def)
qed

lemma same_shape_node:
  assumes "ch_name d' = ch_name d" "ch_capacity d' = ch_capacity d" "ch_throttle d' = ch_throttle d"
    "ch_sequential d' = ch_sequential d" "map fst cs' = map fst cs"
    and "\<And>n. rel_option same_shape (map_of cs n) (map_of cs' n)"
  shows "same_shape (Channel d cs) (Channel d' cs')"
  unfolding same_shape_def
proof
  fix q
  show "map_option settings (channel_at q (Channel d' cs')) = map_option settings (channel_at q (Channel d cs))"
  proof (cases q)
    case Nil
    with assms show ?thesis by (simp add: settings_def)
  next
    case (Cons n p)
    with assms(6) [of n] show ?thesis
      by (cases "map_of cs n"; cases "map_of cs' n") (auto simp: same_shape_def)
  qed
qed

definition descends :: "jobs \<Rightarrow> chan_path \<Rightarrow> (string \<times> Channel) list \<Rightarrow> jid set \<Rightarrow> bool" where
  "descends js p cs J \<longleftrightarrow> (\<forall>j\<in>J. \<exists>n\<in>fst ` set cs. prefix (p @ [n]) (cj_channel (js j)))"

definition forest_ran ::
  "int \<Rightarrow> jobs \<Rightarrow> chan_path \<Rightarrow> jid set \<Rightarrow> ChannelQueue \<Rightarrow> (string \<times> Channel) list \<Rightarrow> jid set \<Rightarrow> jid set \<Rightarrow>
   ChannelQueue \<Rightarrow> jobs \<Rightarrow> (string \<times> Channel) list \<Rightarrow> bool" where
  "forest_ran now js p R q cs D Y q' js' cs' \<longleftrightarrow>
     js' = clear_etas D js \<and> due now js D = D \<and> D \<subseteq> with_eta js \<and> descends js p cs D \<and>
     cq_inv js' q' \<and> cq_now q' = cq_now q \<union> Y \<and> cq_eta_queue q' = cq_eta_queue q \<and>
     cq_sequential q' = cq_sequential q \<and> descends js p cs Y \<and> Y \<inter> R = {} \<and>
     forest_inv js' p cs' \<and> linked js' p (cq_now q' \<union> R) cs' \<and> map fst cs' = map fst cs \<and>
     forest_jobs cs' = forest_jobs cs \<and> Y \<subseteq> forest_jobs cs \<and>
     (\<forall>n. rel_option same_shape (map_of cs n) (map_of cs' n)) \<and>
     ((\<forall>(n, c)\<in>set cs. within_capacity c) \<longrightarrow> (\<forall>(n, c)\<in>set cs'. within_capacity c))"

definition children_ready ::
  "jobs \<Rightarrow> chan_path \<Rightarrow> jid set \<Rightarrow> ChannelQueue \<Rightarrow> (string \<times> Channel) list \<Rightarrow> bool" where
  "children_ready js p R q cs \<longleftrightarrow>
     forest_inv js p cs \<and> cq_inv js q \<and> (\<forall>j\<in>cq_etas q. cj_channel (js j) = p) \<and>
     linked js p (cq_now q \<union> R) cs"

lemma tree_children_ready:
  "tree_inv js p (Channel d cs) \<Longrightarrow> children_ready js p (ch_running d) (ch_queue d) cs"
  by (auto simp: tree_inv_Channel children_ready_def node_inv_def)

text \<open>A child whose own children have run: its own turn, with the parent's queue as the receiver.\<close>

lemma child_ran:
  assumes t: "tree_inv js p (Channel d cs)"
    and f: "forest_ran now js p (ch_running d) (ch_queue d) cs D Y q1 js1 cs1"
    and h: "handed_over now js1 (d\<lparr>ch_queue := q1\<rparr>) E ys js2 d2"
  shows "tree_inv js2 p (Channel d2 cs1)" and "tree_jobs (Channel d2 cs1) = tree_jobs (Channel d cs)"
    and "\<forall>j\<in>D \<union> E \<union> set ys. prefix p (cj_channel (js j))"
    and "set ys \<inter> ch_running d = {}" and "set ys \<subseteq> tree_jobs (Channel d cs)"
    and "within_capacity (Channel d cs) \<Longrightarrow> within_capacity (Channel d2 cs1)"
    and "same_shape (Channel d cs) (Channel d2 cs1)" and "due now js (D \<union> E) = D \<union> E"
proof -
  let ?d = "d\<lparr>ch_queue := q1\<rparr>"
  from t have n: "node_inv js p (map fst cs) d" by (simp add: tree_inv_Channel)
  have Y: "\<exists>m\<in>set (map fst cs). prefix (p @ [m]) (cj_channel (js j))" if "j \<in> Y" for j
    using f that by (auto simp: forest_ran_def descends_def)
  have q1: "cq_inv js1 q1" "js1 = clear_etas D js" "cq_now q1 = cq_now (ch_queue d) \<union> Y"
    "cq_eta_queue q1 = cq_eta_queue (ch_queue d)" "Y \<inter> ch_running d = {}"
    using f by (auto simp: forest_ran_def)
  note n1 = node_receive [OF n q1(1-4) Y q1(5)]
  note n2 = node_handed_over [OF n1(1) h]
  have mf: "map fst cs1 = map fst cs" using f by (simp add: forest_ran_def)
  have E: "E \<subseteq> with_eta js1" "js2 = clear_etas E js1" using h by (auto simp: handed_over_def)
  have Ep: "cj_channel (js1 j) = p" if "j \<in> E" for j using n2(4) that by blast
  have "forest_inv js2 p cs1"
    unfolding E(2) by (rule forest_inv_clear) (use f E Ep in \<open>auto simp: forest_ran_def\<close>)
  moreover have "linked js2 p (cq_now (ch_queue d2) \<union> ch_running d2) cs1"
  proof -
    have "below js1 (p @ [m]) (cq_now q1 \<union> ch_running d \<union> E) = below js1 (p @ [m]) (cq_now q1 \<union> ch_running d)" for m
      using Ep by (auto simp: below_def)
    moreover have "linked js1 p (cq_now q1 \<union> ch_running d) cs1"
      using f unfolding forest_ran_def by blast
    ultimately have "linked js1 p (cq_now q1 \<union> ch_running d \<union> E) cs1" by (simp only: linked_def)
    with n2(3) E(2) show ?thesis by simp
  qed
  ultimately show "tree_inv js2 p (Channel d2 cs1)" using n2(1) mf by (simp add: tree_inv_Channel)
  show "tree_jobs (Channel d2 cs1) = tree_jobs (Channel d cs)"
    using n2(2) n1(2) f by (auto simp: tree_jobs_Channel forest_ran_def)
  have c: "cj_channel (js1 j) = cj_channel (js j)" for j using q1(2) by simp
  have ysn: "set ys \<subseteq> node_jobs ?d" using n2(6) by (auto simp: node_jobs_def)
  have "prefix p (cj_channel (js j))" if "j \<in> node_jobs ?d" for j
    using that n1(1) c by (auto simp: node_inv_def dest: append_prefixD)
  moreover have "prefix p (cj_channel (js j))" if "j \<in> D" for j
    using that f by (auto simp: forest_ran_def descends_def dest: append_prefixD)
  ultimately show "\<forall>j\<in>D \<union> E \<union> set ys. prefix p (cj_channel (js j))" using ysn Ep c by auto
  show "set ys \<inter> ch_running d = {}" using n2(5) by simp
  have "Y \<subseteq> forest_jobs cs" using f by (simp add: forest_ran_def)
  with ysn n1(2) show "set ys \<subseteq> tree_jobs (Channel d cs)" by (auto simp: tree_jobs_Channel)
  have "capacity_ok d \<Longrightarrow> capacity_ok d2"
    using h by (cases "ys = []")
      (auto simp: handed_over_def capacity_ok_def same_config_def split: option.splits)
  then show "within_capacity (Channel d cs) \<Longrightarrow> within_capacity (Channel d2 cs1)"
    using f by (auto simp: forest_ran_def list_all_iff)
  show "same_shape (Channel d cs) (Channel d2 cs1)"
    using f h q1(4) by (intro same_shape_node) (auto simp: forest_ran_def handed_over_def same_config_def ch_sequential_def)
  show "due now js (D \<union> E) = D \<union> E"
    using f h by (intro due_union) (auto simp: forest_ran_def handed_over_def)
qed

text \<open>The parent's queue, the siblings and the links after the turn of one child.\<close>

lemma siblings_ready:
  assumes ready: "children_ready js p R q ((n, c) # rest)"
    and js': "js' = clear_etas D js" "D \<subseteq> with_eta js"
    and D: "\<forall>j\<in>D. prefix (p @ [n]) (cj_channel (js j))"
    and q': "cq_inv js' q'" "cq_now q' = cq_now q \<union> Y" "cq_eta_queue q' = cq_eta_queue q"
    and Y: "\<forall>j\<in>Y. prefix (p @ [n]) (cj_channel (js j))"
  shows "children_ready js' p R q' rest"
proof -
  from ready have fi: "forest_inv js p rest" and n: "n \<notin> fst ` set rest"
    by (auto simp: children_ready_def forest_inv_def)
  have sep: "\<not> prefix (p @ [m]) (cj_channel (js j))"
    if "prefix (p @ [n]) (cj_channel (js j))" "m \<in> fst ` set rest" for j m
    using that n prefix_child_unique by metis
  have "forest_inv js' p rest"
    unfolding js'(1) by (rule forest_inv_clear [OF fi js'(2)]) (use D sep in blast)
  moreover have "linked js' p (cq_now q' \<union> R) rest"
  proof -
    have "below js (p @ [m]) (cq_now q' \<union> R) = below js (p @ [m]) (cq_now q \<union> R)"
      if "m \<in> fst ` set rest" for m
      using that Y sep q'(2) by (auto simp: below_def)
    with ready show ?thesis unfolding js'(1) by (auto simp: children_ready_def linked_def split: prod.splits)
        (force simp: image_iff)+
  qed
  moreover have "\<forall>j\<in>cq_etas q'. cj_channel (js' j) = p"
    using ready q'(3) js'(1) by (simp add: children_ready_def cq_etas_def)
  ultimately show ?thesis using q'(1) by (simp add: children_ready_def)
qed

lemma forest_ran_Cons:
  assumes ready: "children_ready js p R q ((n, c) # rest)"
    and c': "tree_inv js1 (p @ [n]) c'" "tree_jobs c' = tree_jobs c"
      "within_capacity c \<Longrightarrow> within_capacity c'" "same_shape c c'" "ch_running (ch_data c') = ch_running (ch_data c) \<union> Y"
    and js1: "js1 = clear_etas D js" "D \<subseteq> with_eta js"
    and D: "\<forall>j\<in>D. prefix (p @ [n]) (cj_channel (js j))" "due now js D = D"
    and q1: "cq_now q1 = cq_now q \<union> Y" "cq_eta_queue q1 = cq_eta_queue q" "cq_sequential q1 = cq_sequential q"
    and Y: "\<forall>j\<in>Y. prefix (p @ [n]) (cj_channel (js j))" "Y \<inter> R = {}" "Y \<subseteq> tree_jobs c"
    and f: "forest_ran now js1 p R q1 rest E Z q' js' rest'"
  shows "forest_ran now js p R q ((n, c) # rest) (D \<union> E) (Y \<union> Z) q' js' ((n, c') # rest')"
proof -
  from ready have n: "n \<notin> fst ` set rest" by (auto simp: children_ready_def forest_inv_def)
  have E: "js' = clear_etas E js1" "E \<subseteq> with_eta js1" using f by (auto simp: forest_ran_def)
  have cc: "cj_channel (js1 j) = cj_channel (js j)" for j using js1(1) by simp
  have EZ: "descends js p rest (E \<union> Z)"
    using f cc by (auto simp: forest_ran_def descends_def)
  have sep: "\<not> prefix (p @ [n]) (cj_channel (js j))" if j: "j \<in> E \<union> Z" for j
  proof
    assume pn: "prefix (p @ [n]) (cj_channel (js j))"
    from j EZ obtain m where "m \<in> fst ` set rest" "prefix (p @ [m]) (cj_channel (js j))"
      unfolding descends_def by blast
    with pn n prefix_child_unique show False by metis
  qed
  have t: "tree_inv js' (p @ [n]) c'"
    unfolding E(1) by (rule tree_inv_clear [OF c'(1) E(2)]) (use sep cc in auto)
  have mf: "map fst rest' = map fst rest" using f by (simp add: forest_ran_def)
  then have nr: "n \<notin> set (map fst rest')" using n by simp
  have fi: "forest_inv js' p rest'" using f unfolding forest_ran_def by blast
  have F: "forest_inv js' p ((n, c') # rest')"
    using t fi nr by (simp add: forest_inv_def)
  have L: "linked js' p (cq_now q' \<union> R) ((n, c') # rest')"
  proof -
    have "ch_running (ch_data c) = below js (p @ [n]) (cq_now q \<union> R)"
      using ready by (simp add: children_ready_def linked_def)
    moreover have "cq_now q' = cq_now q \<union> Y \<union> Z" using f q1(1) by (simp add: forest_ran_def)
    ultimately have "ch_running (ch_data c') = below js (p @ [n]) (cq_now q' \<union> R)"
      using c'(5) Y(1) sep by (auto simp: below_def)
    moreover have "linked js' p (cq_now q' \<union> R) rest'"
      using f unfolding forest_ran_def by blast
    ultimately show ?thesis using E(1) js1(1) by (simp add: linked_def)
  qed
  have J: "js' = clear_etas (D \<union> E) js" "D \<union> E \<subseteq> with_eta js" "due now js (D \<union> E) = D \<union> E"
  proof -
    show "js' = clear_etas (D \<union> E) js" "D \<union> E \<subseteq> with_eta js"
      using E js1 by (auto simp: clear_etas_twice with_eta_clear)
    show "due now js (D \<union> E) = D \<union> E"
      using f js1(1) D(2) by (intro due_union) (auto simp: forest_ran_def)
  qed
  have S: "descends js p ((n, c) # rest) (D \<union> E)" "descends js p ((n, c) # rest) (Y \<union> Z)"
    using D(1) Y(1) EZ by (auto simp: descends_def)
  have FJ: "forest_jobs ((n, c') # rest') = forest_jobs ((n, c) # rest)"
    "Y \<union> Z \<subseteq> forest_jobs ((n, c) # rest)"
    using f c'(2) Y(3) by (auto simp: forest_ran_def forest_jobs_def)
  have W: "\<forall>m. rel_option same_shape (map_of ((n, c) # rest) m) (map_of ((n, c') # rest') m)"
    "(\<forall>(n, c)\<in>set ((n, c) # rest). within_capacity c) \<longrightarrow> (\<forall>(n, c)\<in>set ((n, c') # rest'). within_capacity c)"
    using f c'(3,4) by (auto simp: forest_ran_def)
  have Q: "cq_inv js' q'" "cq_now q' = cq_now q \<union> (Y \<union> Z)" "cq_eta_queue q' = cq_eta_queue q"
    "cq_sequential q' = cq_sequential q" "(Y \<union> Z) \<inter> R = {}"
    using f q1 Y(2) by (auto simp: forest_ran_def)
  show ?thesis
    unfolding forest_ran_def using F L J S FJ W Q mf by simp
qed

lemma children_jobs_ok:
  "children_ready js p R q cs \<Longrightarrow>
    \<exists>q' js' cs' D Y. children_jobs now q js cs = Inr (q', js', cs') \<and> forest_ran now js p R q cs D Y q' js' cs'"
proof (induction now q js cs arbitrary: p R rule: children_jobs.induct)
  case (1 now q js)
  then show ?case
    by (intro exI [of _ q] exI [of _ js] exI [of _ "[]"] exI [of _ "{}"])
       (simp add: forest_ran_def children_ready_def descends_def forest_jobs_def due_def)
next
  case (2 now q js n d cs rest)
  let ?p = "p @ [n]"
  note ready = "2.prems"
  have t: "tree_inv js ?p (Channel d cs)" and eq: "\<forall>j\<in>cq_etas q. cj_channel (js j) = p"
    and iq: "cq_inv js q"
    using ready by (auto simp: children_ready_def forest_inv_def)
  obtain q1 js1 cs1 D1 Y1 where c1: "children_jobs now (ch_queue d) js cs = Inr (q1, js1, cs1)"
    and f1: "forest_ran now js ?p (ch_running d) (ch_queue d) cs D1 Y1 q1 js1 cs1"
    using "2.IH"(1) [OF tree_children_ready [OF t]] by blast
  let ?d = "d\<lparr>ch_queue := q1\<rparr>"
  from f1 have js1: "js1 = clear_etas D1 js" "D1 \<subseteq> with_eta js" "descends js ?p cs D1"
    "cq_inv js1 q1" "cq_etas q1 = cq_etas (ch_queue d)"
    by (auto simp: forest_ran_def cq_etas_def)
  have D1: "\<not> prefix (cj_channel (js j)) p" if "j \<in> D1" for j
    using that js1(3) by (auto simp: descends_def prefix_def)
  have "cq_inv js1 q" unfolding js1(1)
  proof (rule cq_inv_clear [OF iq js1(2)])
    have "j \<notin> D1" if "j \<in> cq_etas q" for j using D1 [of j] eq that by auto
    then show "D1 \<inter> cq_etas q = {}" by blast
  qed
  moreover have "cq_etas q \<inter> cq_etas (ch_queue ?d) = {}"
  proof -
    have "\<forall>j\<in>cq_etas (ch_queue d). cj_channel (js j) = ?p"
      using t by (simp add: tree_inv_Channel node_inv_def)
    with eq have "x \<notin> cq_etas (ch_queue d)" if "x \<in> cq_etas q" for x using that by force
    then show ?thesis by (auto simp: js1(5))
  qed
  moreover have "finite (ch_running ?d)" using t by (simp add: tree_inv_Channel node_inv_def)
  ultimately obtain ys q2 js2 d2 where c2: "run_channel cq_add now q js1 ?d = Inr (q2, js2, d2)"
    and r2: "ran_channel now js1 ?d ys js2 d2" and s2: "cq_inv js2 q"
    and dl: "deliver_all (cq_add js2) ys q = Inr q2"
    using queue_sink.run_channel_ok [of js1 ?d q now] js1(4) by auto
  obtain D2 where h: "handed_over now js1 ?d D2 ys js2 d2"
    using ran_channel_handed_over [OF r2] js1(4) by auto
  note c' = child_ran [OF t f1 h]
  have "\<And>j. j \<in> set ys \<Longrightarrow> cj_eta (js2 j) = None" using h by (auto simp: handed_over_def)
  then have "\<exists>s'. deliver_all (cq_add js2) ys q = Inr s' \<and> cq_inv js2 s' \<and> cq_now s' = cq_now q \<union> set ys \<and>
      cq_etas s' = cq_etas q \<and> (cq_eta_queue s', cq_sequential s') = (cq_eta_queue q, cq_sequential q)"
    by (intro queue_sink.deliver_all_ok [OF s2])
  with dl have q2: "cq_inv js2 q2" "cq_now q2 = cq_now q \<union> set ys" "cq_eta_queue q2 = cq_eta_queue q"
    "cq_sequential q2 = cq_sequential q"
    by auto
  have js2: "js2 = clear_etas (D1 \<union> D2) js" "D1 \<union> D2 \<subseteq> with_eta js"
    using h js1(1,2) by (auto simp: handed_over_def clear_etas_twice with_eta_clear)
  have pre: "\<forall>j\<in>D1 \<union> D2. prefix ?p (cj_channel (js j))" "\<forall>j\<in>set ys. prefix ?p (cj_channel (js j))"
    using c'(3) by auto
  have due2: "due now js (D1 \<union> D2) = D1 \<union> D2" by (rule c'(8))
  have rest: "children_ready js2 p R q2 rest"
    by (rule siblings_ready [OF ready js2 pre(1) q2(1-3) pre(2)])
  then obtain q3 js3 rest3 D3 Y3 where c3: "children_jobs now q2 js2 rest = Inr (q3, js3, rest3)"
    and f3: "forest_ran now js2 p R q2 rest D3 Y3 q3 js3 rest3"
    using "2.IH"(2) [OF c1 refl refl c2 refl refl rest] by blast
  have YR: "set ys \<inter> R = {}"
  proof -
    have "ch_running d = below js ?p (cq_now q \<union> R)"
      using ready by (simp add: children_ready_def linked_def)
    with c'(4) pre(2) show ?thesis by (auto simp: below_def)
  qed
  have "forest_ran now js p R q ((n, Channel d cs) # rest) (D1 \<union> D2 \<union> D3) (set ys \<union> Y3) q3 js3
      ((n, Channel d2 cs1) # rest3)"
  proof (rule forest_ran_Cons [OF ready c'(1,2,6,7) _ js2 pre(1) due2 q2(2-4) pre(2) YR c'(5) f3])
    show "ch_running (ch_data (Channel d2 cs1)) = ch_running (ch_data (Channel d cs)) \<union> set ys"
      using h by (simp add: handed_over_def)
  qed
  moreover have "children_jobs now q js ((n, Channel d cs) # rest) = Inr (q3, js3, (n, Channel d2 cs1) # rest3)"
    by (simp add: c1 c2 c3)
  ultimately show ?case by blast
qed

end
