(* ===== verification/ChannelJobs.thy ===== *)
theory ChannelJobs
  imports ChannelTree
begin

text \<open>
  The state transitions of a job in the tree of channels: \<open>remove\<close>, \<open>set_pending\<close>, \<open>set_running\<close> and
  \<open>set_failed\<close> share a contract (locale \<open>transition\<close>), under which the walk up the tree succeeds and
  keeps the invariant; each of them is an interpretation of it. The file ends with the trail of a
  job through the tree and with \<open>get_jobs_to_run\<close> of the root.
\<close>

lemma same_shape_Channel:
  assumes "same_config' = (ch_name d' = ch_name d \<and> ch_capacity d' = ch_capacity d \<and>
      ch_throttle d' = ch_throttle d \<and> ch_sequential d' = ch_sequential d)" and same_config'
    and "map_of cs n = Some c" and "same_shape c c'"
  shows "same_shape (Channel d cs) (Channel d' (dict_set n c' cs))"
  unfolding same_shape_def
proof
  fix q
  have "map fst (dict_set n c' cs) = map fst cs"
    using assms(3) by (simp add: map_fst_dict_set) (metis fst_conv image_eqI map_of_SomeD)
  then show "map_option settings (channel_at q (Channel d' (dict_set n c' cs)))
      = map_option settings (channel_at q (Channel d cs))"
    using assms by (cases q) (auto simp: settings_def same_shape_def)
qed

section \<open>The contract of a transition\<close>

text \<open>One channel of the tree, where at most the job \<open>j\<close> has changed its place.\<close>

definition moved :: "jobs \<Rightarrow> chan_path \<Rightarrow> string list \<Rightarrow> jid \<Rightarrow> ChannelData \<Rightarrow> ChannelData \<Rightarrow> bool" where
  "moved js p ns j d d' \<longleftrightarrow>
     node_inv js p ns d' \<and> ch_running d' - {j} = ch_running d - {j} \<and>
     cq_now (ch_queue d') \<union> ch_running d' - {j} = cq_now (ch_queue d) \<union> ch_running d - {j} \<and>
     node_jobs d' - {j} = node_jobs d - {j} \<and> ch_name d' = ch_name d \<and> ch_capacity d' = ch_capacity d \<and>
     ch_throttle d' = ch_throttle d \<and> ch_sequential d' = ch_sequential d"

locale transition =
  fixes js :: jobs and j :: jid
    and usable :: bool
    and target :: bool
    and done_here :: "ChannelData \<Rightarrow> bool"
    and here :: "ChannelData \<Rightarrow> (ChannelData \<times> bool) result"
    and upward :: "ChannelData \<Rightarrow> (ChannelData \<times> bool) result"
  assumes here_ok: "usable \<Longrightarrow> node_inv js (cj_channel (js j)) ns d \<Longrightarrow>
      \<exists>d' up. here d = Inr (d', up) \<and> moved js (cj_channel (js j)) ns j d d' \<and> done_here d' \<and>
        (if up then j \<in> ch_running d' \<longleftrightarrow> target else j \<in> ch_running d' \<longleftrightarrow> j \<in> ch_running d)"
    and upward_ok: "node_inv js p ns d \<Longrightarrow> n \<in> set ns \<Longrightarrow> prefix (p @ [n]) (cj_channel (js j)) \<Longrightarrow>
      \<exists>d' up. upward d = Inr (d', up) \<and> moved js p ns j d d' \<and>
        (j \<in> cq_now (ch_queue d') \<union> ch_running d' \<longleftrightarrow> target) \<and>
        (if up then j \<in> ch_running d' \<longleftrightarrow> target else j \<in> ch_running d' \<longleftrightarrow> j \<in> ch_running d)"
begin

definition walked :: "chan_path \<Rightarrow> chan_path \<Rightarrow> Channel \<Rightarrow> Channel \<Rightarrow> bool \<Rightarrow> bool" where
  "walked p0 p c c' up \<longleftrightarrow>
     tree_inv js p0 c' \<and> ch_running (ch_data c') - {j} = ch_running (ch_data c) - {j} \<and>
     (if up then j \<in> ch_running (ch_data c') \<longleftrightarrow> target
      else j \<in> ch_running (ch_data c') \<longleftrightarrow> j \<in> ch_running (ch_data c)) \<and>
     tree_jobs c' - {j} = tree_jobs c - {j} \<and> same_shape c c' \<and>
     (\<exists>e. channel_at p c' = Some e \<and> done_here (ch_data e))"

lemma walked_here:
  assumes u: usable and t: "tree_inv js (cj_channel (js j)) (Channel d cs)"
  shows "\<exists>d' up. here d = Inr (d', up) \<and> walked (cj_channel (js j)) [] (Channel d cs) (Channel d' cs) up"
proof -
  let ?p = "cj_channel (js j)"
  from t have n: "node_inv js ?p (map fst cs) d" by (simp add: tree_inv_Channel)
  from here_ok [OF u this] obtain d' up where d': "here d = Inr (d', up)" "moved js ?p (map fst cs) j d d'"
    "done_here d'" "if up then j \<in> ch_running d' \<longleftrightarrow> target else j \<in> ch_running d' \<longleftrightarrow> j \<in> ch_running d"
    by blast
  have "below js (?p @ [m]) (cq_now (ch_queue d') \<union> ch_running d')
      = below js (?p @ [m]) (cq_now (ch_queue d) \<union> ch_running d)" for m
    using d'(2) not_prefix_child [of ?p m] unfolding below_def moved_def by blast
  then have "tree_inv js ?p (Channel d' cs)"
    using t d'(2) by (simp add: tree_inv_Channel linked_def moved_def)
  moreover have "same_shape (Channel d cs) (Channel d' cs)"
    unfolding same_shape_def
  proof
    fix q
    show "map_option settings (channel_at q (Channel d' cs)) = map_option settings (channel_at q (Channel d cs))"
      using d'(2) by (cases q) (simp_all add: settings_def moved_def)
  qed
  moreover have "tree_jobs (Channel d' cs) - {j} = tree_jobs (Channel d cs) - {j}"
    using d'(2) by (simp add: tree_jobs_Channel moved_def Un_Diff)
  ultimately have "walked ?p [] (Channel d cs) (Channel d' cs) up"
    using d' by (simp add: walked_def moved_def)
  with d'(1) show ?thesis by blast
qed

lemma forest_jobs_iff: "x \<in> forest_jobs cs \<longleftrightarrow> (\<exists>m e. (m, e) \<in> set cs \<and> x \<in> tree_jobs e)"
  by (auto simp: forest_jobs_def)

lemma dict_set_forest:
  assumes f: "forest_inv js p cs" and c: "map_of cs n = Some c" and c': "tree_inv js (p @ [n]) c'"
    and tj: "tree_jobs c' - {j} = tree_jobs c - {j}"
  shows "forest_inv js p (dict_set n c' cs)" and "map fst (dict_set n c' cs) = map fst cs"
    and "forest_jobs (dict_set n c' cs) - {j} = forest_jobs cs - {j}"
proof -
  have nc: "(n, c) \<in> set cs" using c by (rule map_of_SomeD)
  then have n: "n \<in> fst ` set cs" by force
  have d: "distinct (map fst cs)" using f by (simp add: forest_inv_def)
  note s = dict_set_pairs [OF d]
  show mf: "map fst (dict_set n c' cs) = map fst cs" unfolding map_fst_dict_set using n by (rule if_P)
  have "tree_inv js (p @ [m]) e" if "(m, e) \<in> set (dict_set n c' cs)" for m e
    using that f c' unfolding s by (cases "m = n") (auto simp: forest_inv_def)
  then show "forest_inv js p (dict_set n c' cs)" using d by (auto simp: forest_inv_def mf)
  have "x \<in> forest_jobs (dict_set n c' cs) \<longleftrightarrow> x \<in> forest_jobs cs" if x: "x \<noteq> j" for x
  proof -
    have u: "e = c" if "(n, e) \<in> set cs" for e
      using that c map_of_eq_Some_iff [OF d, of n e] by simp
    have cx: "x \<in> tree_jobs c' \<longleftrightarrow> x \<in> tree_jobs c" using tj x by blast
    have "x \<in> forest_jobs (dict_set n c' cs) \<longleftrightarrow>
        x \<in> tree_jobs c' \<or> (\<exists>m e. m \<noteq> n \<and> (m, e) \<in> set cs \<and> x \<in> tree_jobs e)"
      unfolding forest_jobs_iff s by (metis (full_types))
    also have "\<dots> \<longleftrightarrow> x \<in> forest_jobs cs" unfolding forest_jobs_iff cx using u nc by metis
    finally show ?thesis .
  qed
  then show "forest_jobs (dict_set n c' cs) - {j} = forest_jobs cs - {j}"
    by (intro set_eqI) (simp only: Diff_iff singleton_iff, metis)
qed

lemma linked_child:
  assumes l: "linked js p J cs" and c: "map_of cs n = Some c" and d: "distinct (map fst cs)"
    and j: "prefix (p @ [n]) (cj_channel (js j))"
    and J: "J' - {j} = J - {j}"
    and r: "ch_running (ch_data c') - {j} = ch_running (ch_data c) - {j}"
      "j \<in> ch_running (ch_data c') \<longleftrightarrow> j \<in> J'"
  shows "linked js p J' (dict_set n c' cs)"
proof -
  have rc: "ch_running (ch_data c) = below js (p @ [n]) J"
    using l map_of_SomeD [OF c] by (auto simp: linked_def)
  have "ch_running (ch_data e) = below js (p @ [m]) J'" if "(m, e) \<in> set (dict_set n c' cs)" for m e
  proof (cases "m = n")
    case True
    with that have "e = c'" by (simp add: dict_set_pairs [OF d])
    moreover have "x \<in> ch_running (ch_data c') \<longleftrightarrow> x \<in> below js (p @ [n]) J'" for x
    proof (cases "x = j")
      case True
      with r(2) j show ?thesis by (simp add: below_def)
    next
      case False
      then have "x \<in> ch_running (ch_data c') \<longleftrightarrow> x \<in> ch_running (ch_data c)" "x \<in> J' \<longleftrightarrow> x \<in> J"
        using r(1) J by blast+
      with rc show ?thesis by (simp add: below_def)
    qed
    then have "ch_running (ch_data c') = below js (p @ [n]) J'" by (rule set_eqI)
    ultimately show ?thesis using True by (simp only:)
  next
    case False
    with that have "(m, e) \<in> set cs" by (simp add: dict_set_pairs [OF d])
    then have "ch_running (ch_data e) = below js (p @ [m]) J" using l by (auto simp: linked_def)
    moreover have np: "\<not> prefix (p @ [m]) (cj_channel (js j))"
      by (metis False j prefix_child_unique)
    have "x \<in> below js (p @ [m]) J' \<longleftrightarrow> x \<in> below js (p @ [m]) J" for x
    proof (cases "x = j")
      case True
      with np show ?thesis by (simp add: below_def)
    next
      case False
      with J have "x \<in> J' \<longleftrightarrow> x \<in> J" by blast
      then show ?thesis by (simp add: below_def)
    qed
    then have "below js (p @ [m]) J' = below js (p @ [m]) J" by (rule set_eqI)
    ultimately show ?thesis by (simp only:)
  qed
  then show ?thesis unfolding linked_def by blast
qed

lemma walked_up:
  assumes t: "tree_inv js p0 (Channel d cs)" and c: "map_of cs n = Some c"
    and j: "cj_channel (js j) = p0 @ n # p" and w: "walked (p0 @ [n]) p c c' True"
  shows "\<exists>d' up. upward d = Inr (d', up) \<and>
    walked p0 (n # p) (Channel d cs) (Channel d' (dict_set n c' cs)) up"
proof -
  have n: "n \<in> set (map fst cs)" using c by (metis fst_conv image_eqI list.set_map map_of_SomeD)
  have pre: "prefix (p0 @ [n]) (cj_channel (js j))" using j by (simp add: prefix_def)
  from t have ni: "node_inv js p0 (map fst cs) d" and fi: "forest_inv js p0 cs"
    and li: "linked js p0 (cq_now (ch_queue d) \<union> ch_running d) cs" by (auto simp: tree_inv_Channel)
  from upward_ok [OF ni n pre] obtain d' up where d': "upward d = Inr (d', up)" "moved js p0 (map fst cs) j d d'"
    "j \<in> cq_now (ch_queue d') \<union> ch_running d' \<longleftrightarrow> target"
    "if up then j \<in> ch_running d' \<longleftrightarrow> target else j \<in> ch_running d' \<longleftrightarrow> j \<in> ch_running d"
    by blast
  have w': "tree_inv js (p0 @ [n]) c'" "tree_jobs c' - {j} = tree_jobs c - {j}" "same_shape c c'"
    "ch_running (ch_data c') - {j} = ch_running (ch_data c) - {j}"
    "j \<in> ch_running (ch_data c') \<longleftrightarrow> target"
    using w by (auto simp: walked_def)
  note f = dict_set_forest [OF fi c w'(1,2)]
  have "linked js p0 (cq_now (ch_queue d') \<union> ch_running d') (dict_set n c' cs)"
  proof (rule linked_child [OF li c _ pre _ w'(4)])
    show "distinct (map fst cs)" using fi by (simp add: forest_inv_def)
    show "cq_now (ch_queue d') \<union> ch_running d' - {j} = cq_now (ch_queue d) \<union> ch_running d - {j}"
      using d'(2) by (simp add: moved_def)
    show "j \<in> ch_running (ch_data c') \<longleftrightarrow> j \<in> cq_now (ch_queue d') \<union> ch_running d'"
      using w'(5) d'(3) by simp
  qed
  then have "tree_inv js p0 (Channel d' (dict_set n c' cs))"
    using d'(2) f by (simp add: tree_inv_Channel moved_def)
  moreover have "same_shape (Channel d cs) (Channel d' (dict_set n c' cs))"
    using d'(2) by (intro same_shape_Channel [OF refl _ c w'(3)]) (simp add: moved_def)
  moreover have "tree_jobs (Channel d' (dict_set n c' cs)) - {j} = tree_jobs (Channel d cs) - {j}"
    using d'(2) f(3) by (simp add: tree_jobs_Channel moved_def Un_Diff)
  moreover have "\<exists>e. channel_at (n # p) (Channel d' (dict_set n c' cs)) = Some e \<and> done_here (ch_data e)"
    using w by (simp add: walked_def)
  ultimately have "walked p0 (n # p) (Channel d cs) (Channel d' (dict_set n c' cs)) up"
    using d'(2,4) by (simp add: walked_def moved_def)
  with d'(1) show ?thesis by blast
qed

lemma walked_stop:
  assumes t: "tree_inv js p0 (Channel d cs)" and c: "map_of cs n = Some c"
    and j: "cj_channel (js j) = p0 @ n # p" and w: "walked (p0 @ [n]) p c c' False"
  shows "walked p0 (n # p) (Channel d cs) (Channel d (dict_set n c' cs)) False"
proof -
  have pre: "prefix (p0 @ [n]) (cj_channel (js j))" using j by (simp add: prefix_def)
  from t have ni: "node_inv js p0 (map fst cs) d" and fi: "forest_inv js p0 cs"
    and li: "linked js p0 (cq_now (ch_queue d) \<union> ch_running d) cs" by (auto simp: tree_inv_Channel)
  have w': "tree_inv js (p0 @ [n]) c'" "tree_jobs c' - {j} = tree_jobs c - {j}" "same_shape c c'"
    "ch_running (ch_data c') - {j} = ch_running (ch_data c) - {j}"
    "j \<in> ch_running (ch_data c') \<longleftrightarrow> j \<in> ch_running (ch_data c)"
    using w by (auto simp: walked_def)
  note f = dict_set_forest [OF fi c w'(1,2)]
  have "ch_running (ch_data c) = below js (p0 @ [n]) (cq_now (ch_queue d) \<union> ch_running d)"
    using li map_of_SomeD [OF c] by (auto simp: linked_def)
  then have "linked js p0 (cq_now (ch_queue d) \<union> ch_running d) (dict_set n c' cs)"
    using fi pre w'(5) by (intro linked_child [OF li c _ pre refl w'(4)]) (auto simp: forest_inv_def below_def)
  then have "tree_inv js p0 (Channel d (dict_set n c' cs))"
    using ni f by (simp add: tree_inv_Channel)
  moreover have "same_shape (Channel d cs) (Channel d (dict_set n c' cs))"
    by (intro same_shape_Channel [OF refl _ c w'(3)]) simp
  moreover have "tree_jobs (Channel d (dict_set n c' cs)) - {j} = tree_jobs (Channel d cs) - {j}"
    using f(3) by (simp add: tree_jobs_Channel Un_Diff)
  moreover have "\<exists>e. channel_at (n # p) (Channel d (dict_set n c' cs)) = Some e \<and> done_here (ch_data e)"
    using w by (simp add: walked_def)
  ultimately show ?thesis by (simp add: walked_def)
qed

lemma on_path_ok:
  "usable \<Longrightarrow> tree_inv js p0 c \<Longrightarrow> cj_channel (js j) = p0 @ p \<Longrightarrow> channel_at p c \<noteq> None \<Longrightarrow>
    \<exists>c' up. on_path here upward p c = Inr (c', up) \<and> walked p0 p c c' up"
proof (induction p arbitrary: p0 c)
  case Nil
  obtain d cs where "c = Channel d cs" by (cases c)
  with Nil walked_here [of d cs] show ?case by force
next
  case (Cons n p)
  obtain d cs where c: "c = Channel d cs" by (cases c)
  with Cons.prems(4) obtain e where e: "map_of cs n = Some e" "channel_at p e \<noteq> None"
    by (auto split: option.splits)
  then have "tree_inv js (p0 @ [n]) e"
    using Cons.prems(2) map_of_SomeD [OF e(1)] by (auto simp: c tree_inv_Channel forest_inv_def)
  then obtain e' up where e': "on_path here upward p e = Inr (e', up)" "walked (p0 @ [n]) p e e' up"
    using Cons.IH [of "p0 @ [n]" e] Cons.prems(1,3) e(2) by auto
  note t = Cons.prems(2) [unfolded c]
  show ?case
  proof (cases up)
    case True
    with e'(2) have "walked (p0 @ [n]) p e e' True" by simp
    from walked_up [OF t e(1) Cons.prems(3) this] obtain d' up' where "upward d = Inr (d', up')"
      "walked p0 (n # p) (Channel d cs) (Channel d' (dict_set n e' cs)) up'"
      by blast
    with e(1) e'(1) True show ?thesis by (auto simp: c)
  next
    case False
    with walked_stop [OF t e(1) Cons.prems(3)] e' show ?thesis by (auto simp: c e(1))
  qed
qed

lemma transition_ok:
  assumes usable and "tree_inv js [] c" and "channel_at (cj_channel (js j)) c \<noteq> None"
  obtains c' up e where "on_path here upward (cj_channel (js j)) c = Inr (c', up)" and "tree_inv js [] c'"
    and "tree_jobs c' - {j} = tree_jobs c - {j}" and "same_shape c c'"
    and "channel_at (cj_channel (js j)) c' = Some e" and "done_here (ch_data e)"
  using on_path_ok [OF assms(1,2) _ assms(3)] by (auto simp: walked_def)

end

section \<open>The transitions satisfy the contract\<close>

text \<open>A queue after adding or removing one job.\<close>

lemma cq_removeE:
  assumes "cq_inv js q"
  obtains q' where "cq_remove j q = Inr q'" and "cq_inv js q'" and "queued q' = queued q - {j}"
    and "cq_now q' = cq_now q - {j}" and "cq_etas q' = cq_etas q" and "cq_sequential q' = cq_sequential q"
  using cq_remove_ok [OF assms, of j] by (auto simp: queued_def cq_etas_def)

lemma cq_addE:
  assumes "cq_inv js q" and "cj_eta (js j) \<noteq> Some 0"
  obtains q' where "cq_add js j q = Inr q'" and "cq_inv js q'" and "queued q' = insert j (queued q)"
    and "cq_now q' - {j} = cq_now q - {j}" and "cq_etas q' \<subseteq> insert j (cq_etas q)"
    and "cq_sequential q' = cq_sequential q"
  using cq_add_ok [OF assms] by (auto simp: queued_def cq_etas_def split: if_splits)

text \<open>The part of a transition at one channel, whatever it does with the job.\<close>

lemma moved_queue:
  assumes n: "node_inv js p ns d" and q: "cq_inv js q'" "cq_sequential q' = cq_sequential (ch_queue d)"
    and qs: "queued q' - {j} = queued (ch_queue d) - {j}" "cq_now q' - {j} = cq_now (ch_queue d) - {j}"
    and e: "cq_etas q' \<subseteq> cq_etas (ch_queue d) \<or> cj_channel (js j) = p \<and> cq_etas q' \<subseteq> insert j (cq_etas (ch_queue d))"
    and rf: "finite R" "R - {j} = ch_running d - {j}" "finite F" "F - {j} = ch_failed d - {j}"
    and one: "\<not> (j \<in> queued q' \<and> j \<in> R)" "\<not> (j \<in> queued q' \<and> j \<in> F)" "\<not> (j \<in> R \<and> j \<in> F)"
    and chan: "j \<in> F \<Longrightarrow> cj_channel (js j) = p"
      "j \<in> queued q' \<union> R \<Longrightarrow> cj_channel (js j) = p \<or> (\<exists>n\<in>set ns. prefix (p @ [n]) (cj_channel (js j)))"
  shows "moved js p ns j d (d\<lparr>ch_queue := q', ch_running := R, ch_failed := F\<rparr>)"
proof -
  let ?d = "d\<lparr>ch_queue := q', ch_running := R, ch_failed := F\<rparr>"
  have sets: "x \<noteq> j \<Longrightarrow> x \<in> queued q' \<longleftrightarrow> x \<in> queued (ch_queue d)" "x \<noteq> j \<Longrightarrow> x \<in> R \<longleftrightarrow> x \<in> ch_running d"
    "x \<noteq> j \<Longrightarrow> x \<in> F \<longleftrightarrow> x \<in> ch_failed d" for x
    using qs(1) rf(2,4) by auto
  have "queued q' \<inter> R = {} \<and> queued q' \<inter> F = {} \<and> R \<inter> F = {}"
    using n one sets by (auto simp: node_inv_def) (metis disjoint_iff)+
  moreover have "\<forall>x\<in>cq_etas q'. cj_channel (js x) = p" using n e by (auto simp: node_inv_def)
  moreover have "\<forall>x\<in>F. cj_channel (js x) = p" using n chan(1) sets(3) by (metis node_inv_def)
  moreover have "\<forall>x\<in>node_jobs ?d. cj_channel (js x) = p \<or> (\<exists>n\<in>set ns. prefix (p @ [n]) (cj_channel (js x)))"
  proof
    fix x assume x: "x \<in> node_jobs ?d"
    show "cj_channel (js x) = p \<or> (\<exists>n\<in>set ns. prefix (p @ [n]) (cj_channel (js x)))"
    proof (cases "x = j")
      case True
      with x chan show ?thesis by (auto simp: node_jobs_def)
    next
      case False
      with x sets [OF False] have "x \<in> node_jobs d" by (auto simp: node_jobs_def)
      with n show ?thesis by (auto simp: node_inv_def)
    qed
  qed
  ultimately have "node_inv js p ns ?d" using q rf by (auto simp: node_inv_def)
  moreover have "cq_now q' \<union> R - {j} = cq_now (ch_queue d) \<union> ch_running d - {j}"
    "node_jobs ?d - {j} = node_jobs d - {j}"
    using qs rf by (auto simp: node_jobs_def)
  ultimately show ?thesis using q(2) rf(2) by (simp add: moved_def ch_sequential_def)
qed

lemma moved_refl: "node_inv js p ns d \<Longrightarrow> moved js p ns j d d"
  by (simp add: moved_def)

lemma ch_remove1_ok:
  assumes "node_inv js p ns d"
  shows "\<exists>d'. ch_remove1 j d = Inr (d', True) \<and> moved js p ns j d d' \<and> j \<notin> node_jobs d'"
proof -
  from assms have "cq_inv js (ch_queue d)" by (simp add: node_inv_def)
  then obtain q' where q': "cq_remove j (ch_queue d) = Inr q'" "cq_inv js q'"
    "queued q' = queued (ch_queue d) - {j}" "cq_now q' = cq_now (ch_queue d) - {j}"
    "cq_etas q' = cq_etas (ch_queue d)" "cq_sequential q' = cq_sequential (ch_queue d)"
    by (rule cq_removeE)
  have "moved js p ns j d (d\<lparr>ch_queue := q', ch_running := ch_running d - {j}, ch_failed := ch_failed d - {j}\<rparr>)"
    by (rule moved_queue [OF assms]) (use q' assms in \<open>auto simp: node_inv_def\<close>)
  with q' show ?thesis by (auto simp: ch_remove1_def node_jobs_def)
qed

lemma not_node_jobs: "j \<notin> node_jobs d \<longleftrightarrow> j \<notin> queued (ch_queue d) \<and> j \<notin> ch_running d \<and> j \<notin> ch_failed d"
  by (simp add: node_jobs_def)

text \<open>The part of \<open>remove\<close> that concerns the channels above is shared by three transitions.\<close>

lemma remove_above:
  assumes "node_inv js p ns d"
  shows "\<exists>d' up. ch_remove1 j d = Inr (d', up) \<and> moved js p ns j d d' \<and>
    (j \<in> cq_now (ch_queue d') \<union> ch_running d' \<longleftrightarrow> False) \<and>
    (if up then j \<in> ch_running d' \<longleftrightarrow> False else j \<in> ch_running d' \<longleftrightarrow> j \<in> ch_running d)"
  using ch_remove1_ok [OF assms, of j] by (auto simp: not_node_jobs queued_def)

interpretation remove: transition js j True False "\<lambda>d. j \<notin> node_jobs d" "ch_remove1 j" "ch_remove1 j"
  for js j
proof unfold_locales
  fix ns d assume "node_inv js (cj_channel (js j)) ns d"
  from ch_remove1_ok [OF this, of j]
  show "\<exists>d' up. ch_remove1 j d = Inr (d', up) \<and> moved js (cj_channel (js j)) ns j d d' \<and> j \<notin> node_jobs d' \<and>
      (if up then j \<in> ch_running d' \<longleftrightarrow> False else j \<in> ch_running d' \<longleftrightarrow> j \<in> ch_running d)"
    by (auto simp: not_node_jobs)
qed (rule remove_above)

text \<open>A job whose eta is \<open>0\<close> would be compared with jobs that have none, which raises.\<close>

interpretation set_pending: transition js j "cj_eta (js j) \<noteq> Some 0" False
    "\<lambda>d. j \<in> queued (ch_queue d)" "ch_set_pending1 js j" "ch_remove1 j"
  for js j
proof unfold_locales
  let ?p = "cj_channel (js j)"
  fix ns d assume eta: "cj_eta (js j) \<noteq> Some 0" and n: "node_inv js ?p ns d"
  then have inv: "cq_inv js (ch_queue d)" by (simp add: node_inv_def)
  show "\<exists>d' up. ch_set_pending1 js j d = Inr (d', up) \<and> moved js ?p ns j d d' \<and> j \<in> queued (ch_queue d') \<and>
      (if up then j \<in> ch_running d' \<longleftrightarrow> False else j \<in> ch_running d' \<longleftrightarrow> j \<in> ch_running d)"
  proof (cases "j \<in> queued (ch_queue d)")
    case True
    then have "ch_set_pending1 js j d = Inr (d, False)"
      by (simp add: ch_set_pending1_def cq_contains_ok queued_def)
    with True n show ?thesis by (auto simp: moved_refl)
  next
    case False
    obtain q' where q': "cq_add js j (ch_queue d) = Inr q'" "cq_inv js q'"
      "queued q' = insert j (queued (ch_queue d))" "cq_now q' - {j} = cq_now (ch_queue d) - {j}"
      "cq_etas q' \<subseteq> insert j (cq_etas (ch_queue d))" "cq_sequential q' = cq_sequential (ch_queue d)"
      by (rule cq_addE [OF inv eta])
    let ?d = "d\<lparr>ch_queue := q', ch_running := ch_running d - {j}, ch_failed := ch_failed d - {j}\<rparr>"
    have "moved js ?p ns j d ?d"
      by (rule moved_queue [OF n]) (use q' n in \<open>auto simp: node_inv_def\<close>)
    moreover have "ch_set_pending1 js j d = Inr (?d, True)"
      using False q'(1) by (simp add: ch_set_pending1_def cq_contains_ok queued_def)
    ultimately show ?thesis using q'(3) by auto
  qed
qed (rule remove_above)

lemma ch_set_running1_ok:
  assumes n: "node_inv js p ns d"
    and p: "cj_channel (js j) = p \<or> (\<exists>n\<in>set ns. prefix (p @ [n]) (cj_channel (js j)))"
  shows "\<exists>d' up. ch_set_running1 j d = Inr (d', up) \<and> moved js p ns j d d' \<and> j \<in> ch_running d' \<and>
    (\<not> up \<longrightarrow> j \<in> ch_running d)"
proof (cases "j \<in> ch_running d")
  case True
  with n show ?thesis by (auto simp: ch_set_running1_def moved_refl)
next
  case False
  from n have "cq_inv js (ch_queue d)" by (simp add: node_inv_def)
  then obtain q' where q': "cq_remove j (ch_queue d) = Inr q'" "cq_inv js q'"
    "queued q' = queued (ch_queue d) - {j}" "cq_now q' = cq_now (ch_queue d) - {j}"
    "cq_etas q' = cq_etas (ch_queue d)" "cq_sequential q' = cq_sequential (ch_queue d)"
    by (rule cq_removeE)
  let ?d = "d\<lparr>ch_queue := q', ch_running := insert j (ch_running d), ch_failed := ch_failed d - {j}\<rparr>"
  have "moved js p ns j d ?d"
    by (rule moved_queue [OF n]) (use q' n p in \<open>auto simp: node_inv_def\<close>)
  with False q'(1) show ?thesis by (auto simp: ch_set_running1_def)
qed

interpretation set_running: transition js j True True "\<lambda>d. j \<in> ch_running d" "ch_set_running1 j" "ch_set_running1 j"
  for js j
proof unfold_locales
  fix ns d assume "node_inv js (cj_channel (js j)) ns d"
  then have "\<exists>d' up. ch_set_running1 j d = Inr (d', up) \<and> moved js (cj_channel (js j)) ns j d d' \<and>
      j \<in> ch_running d' \<and> (\<not> up \<longrightarrow> j \<in> ch_running d)"
    by (rule ch_set_running1_ok) simp
  then show "\<exists>d' up. ch_set_running1 j d = Inr (d', up) \<and> moved js (cj_channel (js j)) ns j d d' \<and> j \<in> ch_running d' \<and>
      (if up then j \<in> ch_running d' \<longleftrightarrow> True else j \<in> ch_running d' \<longleftrightarrow> j \<in> ch_running d)"
    by metis
next
  fix p ns d n
  assume a: "node_inv js p ns d" "n \<in> set ns" "prefix (p @ [n]) (cj_channel (js j))"
  then have "\<exists>d' up. ch_set_running1 j d = Inr (d', up) \<and> moved js p ns j d d' \<and> j \<in> ch_running d' \<and>
      (\<not> up \<longrightarrow> j \<in> ch_running d)"
    by (intro ch_set_running1_ok [OF a(1)]) blast
  then show "\<exists>d' up. ch_set_running1 j d = Inr (d', up) \<and> moved js p ns j d d' \<and>
      (j \<in> cq_now (ch_queue d') \<union> ch_running d' \<longleftrightarrow> True) \<and>
      (if up then j \<in> ch_running d' \<longleftrightarrow> True else j \<in> ch_running d' \<longleftrightarrow> j \<in> ch_running d)"
    by (metis UnCI)
qed

interpretation set_failed: transition js j True False "\<lambda>d. j \<in> ch_failed d" "ch_set_failed1 j" "ch_remove1 j"
  for js j
proof unfold_locales
  let ?p = "cj_channel (js j)"
  fix ns d assume n: "node_inv js ?p ns d"
  show "\<exists>d' up. ch_set_failed1 j d = Inr (d', up) \<and> moved js ?p ns j d d' \<and> j \<in> ch_failed d' \<and>
      (if up then j \<in> ch_running d' \<longleftrightarrow> False else j \<in> ch_running d' \<longleftrightarrow> j \<in> ch_running d)"
  proof (cases "j \<in> ch_failed d")
    case True
    with n show ?thesis by (auto simp: ch_set_failed1_def moved_refl)
  next
    case False
    from n have "cq_inv js (ch_queue d)" by (simp add: node_inv_def)
    then obtain q' where q': "cq_remove j (ch_queue d) = Inr q'" "cq_inv js q'"
      "queued q' = queued (ch_queue d) - {j}" "cq_now q' = cq_now (ch_queue d) - {j}"
      "cq_etas q' = cq_etas (ch_queue d)" "cq_sequential q' = cq_sequential (ch_queue d)"
      by (rule cq_removeE)
    let ?d = "d\<lparr>ch_queue := q', ch_running := ch_running d - {j}, ch_failed := insert j (ch_failed d)\<rparr>"
    have "moved js ?p ns j d ?d"
      by (rule moved_queue [OF n]) (use q' n in \<open>auto simp: node_inv_def\<close>)
    with False q'(1) show ?thesis by (auto simp: ch_set_failed1_def)
  qed
qed (rule remove_above)

section \<open>Where a job is\<close>

datatype place = Absent | Queued | Running | Failed

definition place_in :: "jid \<Rightarrow> ChannelData \<Rightarrow> place" where
  "place_in j d =
     (if j \<in> ch_running d then Running else if j \<in> ch_failed d then Failed
      else if cq_contains j (ch_queue d) then Queued else Absent)"

text \<open>The places of a job in the channels from the root down to the end of the path.\<close>

fun trail :: "jid \<Rightarrow> chan_path \<Rightarrow> Channel \<Rightarrow> place list" where
  "trail j [] (Channel d cs) = [place_in j d]"
| "trail j (n # p) (Channel d cs) =
     place_in j d # (case map_of cs n of None \<Rightarrow> [] | Some c \<Rightarrow> trail j p c)"

definition good_trail :: "place list \<Rightarrow> bool" where
  "good_trail ps \<longleftrightarrow>
     (\<exists>a x b. ps = replicate a Absent @ x # replicate b Running \<and>
        (x = Failed \<or> x = Absent \<longrightarrow> b = 0) \<and> (x = Running \<longrightarrow> a = 0))"

lemma good_trail_single: "good_trail [x]"
  unfolding good_trail_def by (intro exI [of _ 0] exI [of _ x]) simp

lemma good_trail_Absent:
  assumes "good_trail ps" and "hd ps \<noteq> Running"
  shows "good_trail (Absent # ps)"
proof -
  from assms(1) obtain a x b where ps: "ps = replicate a Absent @ x # replicate b Running"
    "x = Failed \<or> x = Absent \<longrightarrow> b = 0" "x = Running \<longrightarrow> a = 0"
    unfolding good_trail_def by blast
  with assms(2) have "x \<noteq> Running" by auto
  with ps show ?thesis
    unfolding good_trail_def by (intro exI [of _ "Suc a"] exI [of _ x] exI [of _ b]) simp
qed

lemma good_trail_Running:
  assumes "good_trail ps" and "hd ps = Running"
  obtains b where "ps = replicate (Suc b) Running"
proof -
  from assms(1) obtain a x b where ps: "ps = replicate a Absent @ x # replicate b Running"
    "x = Failed \<or> x = Absent \<longrightarrow> b = 0" "x = Running \<longrightarrow> a = 0"
    unfolding good_trail_def by blast
  with assms(2) have "a = 0" "x = Running" by (cases a; auto)+
  with ps show thesis by (intro that [of b]) simp
qed

lemma good_trail_Cons:
  assumes "good_trail ps" and "hd ps = Running" and "y = Queued \<or> y = Running"
  shows "good_trail (y # ps)"
proof -
  obtain b where "ps = replicate (Suc b) Running" by (rule good_trail_Running [OF assms(1,2)])
  with assms(3) show ?thesis
    unfolding good_trail_def by (intro exI [of _ 0] exI [of _ y] exI [of _ "Suc b"]) auto
qed

lemma place_Running: "place_in j d = Running \<longleftrightarrow> j \<in> ch_running d"
  by (simp add: place_in_def)

lemma place_Absent: "place_in j d = Absent \<longleftrightarrow> j \<notin> node_jobs d"
  by (auto simp: place_in_def node_jobs_def cq_contains_ok queued_def)

lemma hd_trail: "hd (trail j p c) = place_in j (ch_data c)"
  by (cases c; cases p) simp_all

text \<open>
  Above its own channel a job is queued or running just when it runs in the channel below.
\<close>

lemma place_above:
  assumes t: "tree_inv js p0 (Channel d cs)" and c: "(n, c) \<in> set cs"
    and j: "prefix (p0 @ [n]) (cj_channel (js j))"
  shows "if j \<in> ch_running (ch_data c) then place_in j d = Queued \<or> place_in j d = Running
    else place_in j d = Absent"
proof -
  have ne: "cj_channel (js j) \<noteq> p0" using j by auto
  from t have ni: "node_inv js p0 (map fst cs) d" by (simp add: tree_inv_Channel)
  then have nf: "j \<notin> ch_failed d" using ne by (auto simp: node_inv_def)
  have nl: "j \<notin> cq_later (ch_queue d)"
    using ni ne cq_later_etas [of "ch_queue d"] by (auto simp: node_inv_def)
  have "ch_running (ch_data c) = below js (p0 @ [n]) (cq_now (ch_queue d) \<union> ch_running d)"
    using t c by (auto simp: tree_inv_Channel linked_def)
  then have "j \<in> ch_running (ch_data c) \<longleftrightarrow> j \<in> cq_now (ch_queue d) \<or> j \<in> ch_running d"
    using j by (simp add: below_def)
  with nf nl show ?thesis by (simp add: place_in_def cq_contains_ok)
qed

lemma tree_trail:
  "tree_inv js p0 c \<Longrightarrow> cj_channel (js j) = p0 @ p \<Longrightarrow> channel_at p c \<noteq> None \<Longrightarrow> good_trail (trail j p c)"
proof (induction p arbitrary: p0 c)
  case Nil
  then show ?case by (cases c) (simp add: good_trail_single)
next
  case (Cons n p)
  obtain d cs where c: "c = Channel d cs" by (cases c)
  with Cons.prems(3) obtain e where e: "map_of cs n = Some e" "channel_at p e \<noteq> None"
    by (auto split: option.splits)
  then have "tree_inv js (p0 @ [n]) e"
    using Cons.prems(1) map_of_SomeD [OF e(1)] by (auto simp: c tree_inv_Channel forest_inv_def)
  then have IH: "good_trail (trail j p e)" using Cons.IH [of "p0 @ [n]" e] Cons.prems(2) e(2) by simp
  have pre: "prefix (p0 @ [n]) (cj_channel (js j))" using Cons.prems(2) by (simp add: prefix_def)
  have eq: "trail j (n # p) c = place_in j d # trail j p e" using c e(1) by simp
  have hd: "hd (trail j p e) = Running \<longleftrightarrow> j \<in> ch_running (ch_data e)"
    by (simp add: hd_trail place_Running)
  note pa = place_above [OF Cons.prems(1) [unfolded c] map_of_SomeD [OF e(1)] pre]
  show ?case
  proof (cases "j \<in> ch_running (ch_data e)")
    case True
    with pa hd have "hd (trail j p e) = Running" "place_in j d = Queued \<or> place_in j d = Running" by auto
    then show ?thesis unfolding eq by (rule good_trail_Cons [OF IH])
  next
    case False
    with pa hd have "hd (trail j p e) \<noteq> Running" "place_in j d = Absent" by auto
    then show ?thesis unfolding eq using good_trail_Absent [OF IH] by simp
  qed
qed

lemma tree_jobs_prefix:
  "tree_inv js p c \<Longrightarrow> j \<in> tree_jobs c \<Longrightarrow> prefix p (cj_channel (js j))"
proof (induction js p c rule: tree_inv.induct)
  case (1 js p d cs)
  from "1.prems"(2) consider "j \<in> node_jobs d" | n c where "(n, c) \<in> set cs" "j \<in> tree_jobs c"
    by (auto simp: tree_jobs_Channel forest_jobs_def)
  then show ?case
  proof cases
    case 1
    with "1.prems"(1) show ?thesis
      by (auto simp: tree_inv_Channel node_inv_def dest: append_prefixD)
  next
    case (2 n c)
    then have "tree_inv js (p @ [n]) c" using "1.prems"(1) by (auto simp: tree_inv_Channel forest_inv_def)
    with 2 "1.IH" [OF 2(1) refl] show ?thesis by (blast dest: append_prefixD)
  qed
qed

text \<open>A job that is not in its own channel is nowhere.\<close>

lemma running_tree_jobs: "ch_running (ch_data c) \<subseteq> tree_jobs c"
  by (cases c) (auto simp: tree_jobs_Channel node_jobs_def)

lemma tree_absent:
  "tree_inv js p0 c \<Longrightarrow> cj_channel (js j) = p0 @ p \<Longrightarrow> channel_at p c = Some e \<Longrightarrow>
    j \<notin> node_jobs (ch_data e) \<Longrightarrow> j \<notin> tree_jobs c"
proof (induction p arbitrary: p0 c)
  case Nil
  obtain d cs where c: "c = Channel d cs" by (cases c)
  have "j \<notin> tree_jobs x" if "(m, x) \<in> set cs" for m x
  proof
    assume "j \<in> tree_jobs x"
    moreover have "tree_inv js (p0 @ [m]) x"
      using Nil.prems(1) that by (auto simp: c tree_inv_Channel forest_inv_def)
    ultimately have "prefix (p0 @ [m]) (cj_channel (js j))" by (intro tree_jobs_prefix)
    then show False using Nil.prems(2) by simp
  qed
  with Nil.prems(3,4) show ?case by (auto simp: c tree_jobs_Channel forest_jobs_def)
next
  case (Cons n p)
  obtain d cs where c: "c = Channel d cs" by (cases c)
  with Cons.prems(3) obtain x where x: "map_of cs n = Some x" "channel_at p x = Some e"
    by (auto split: option.splits)
  note nx = map_of_SomeD [OF x(1)]
  have ti: "tree_inv js (p0 @ [m]) y" if "(m, y) \<in> set cs" for m y
    using Cons.prems(1) that by (auto simp: c tree_inv_Channel forest_inv_def)
  have "cj_channel (js j) = (p0 @ [n]) @ p" using Cons.prems(2) by simp
  from Cons.IH [OF ti [OF nx] this x(2) Cons.prems(4)] have jx: "j \<notin> tree_jobs x" .
  have pre: "prefix (p0 @ [n]) (cj_channel (js j))" using Cons.prems(2) by (simp add: prefix_def)
  have "j \<notin> ch_running (ch_data x)" using jx running_tree_jobs by blast
  with place_above [OF Cons.prems(1) [unfolded c] nx pre] have "j \<notin> node_jobs d"
    by (simp add: place_Absent)
  moreover have "j \<notin> tree_jobs y" if y: "(m, y) \<in> set cs" for m y
  proof
    assume "j \<in> tree_jobs y"
    with ti [OF y] have "prefix (p0 @ [m]) (cj_channel (js j))" by (rule tree_jobs_prefix)
    with pre have "m = n" by (metis prefix_child_unique)
    then have "y = x" using y x(1) Cons.prems(1) by (auto simp: c tree_inv.simps)
    with \<open>j \<in> tree_jobs y\<close> jx show False by simp
  qed
  ultimately show ?case by (auto simp: c tree_jobs_Channel forest_jobs_def)
qed

section \<open>The jobs to run of the whole tree\<close>

text \<open>
  What the runner gets from the root: the jobs in order, each of them newly running in the root and
  past its eta; no job is lost and no capacity exceeded.
\<close>

definition runnable :: "int \<Rightarrow> jobs \<Rightarrow> jid \<Rightarrow> bool" where
  "runnable now js j \<longleftrightarrow> (case cj_eta (js j) of None \<Rightarrow> True | Some e \<Rightarrow> e \<le> now)"

lemma get_jobs_ok:
  assumes t: "tree_inv js [] c"
  shows "\<exists>ys js' c' D. ch_get_jobs_to_run collect now [] js c = Inr (ys, js', c') \<and>
    js' = clear_etas D js \<and> due now js D = D \<and> tree_inv js' [] c' \<and> tree_jobs c' = tree_jobs c \<and>
    (within_capacity c \<longrightarrow> within_capacity c') \<and> same_shape c c' \<and>
    distinct ys \<and> sorted (map (\<lambda>j. sorting_key_ignoring_eta (js j)) ys) \<and>
    ch_running (ch_data c') = ch_running (ch_data c) \<union> set ys \<and> set ys \<inter> ch_running (ch_data c) = {} \<and>
    (\<forall>j\<in>set ys. runnable now js j)"
proof -
  obtain d cs where c: "c = Channel d cs" by (cases c)
  note t = t [unfolded c]
  obtain q1 js1 cs1 D1 Y1 where c1: "children_jobs now (ch_queue d) js cs = Inr (q1, js1, cs1)"
    and f1: "forest_ran now js [] (ch_running d) (ch_queue d) cs D1 Y1 q1 js1 cs1"
    using children_jobs_ok [OF tree_children_ready [OF t]] by blast
  let ?d = "d\<lparr>ch_queue := q1\<rparr>"
  from f1 have js1: "js1 = clear_etas D1 js" "cq_inv js1 q1" unfolding forest_ran_def by blast+
  have "finite (ch_running ?d)" using t by (simp add: tree_inv_Channel node_inv_def)
  with js1(2) obtain ys sink js2 d2 where c2: "run_channel collect now [] js1 ?d = Inr (sink, js2, d2)"
    and r: "ran_channel now js1 ?d ys js2 d2" and dl: "deliver_all (collect js2) ys [] = Inr sink"
    using list_sink.run_channel_ok [where js = js1 and d = ?d and s = "[]" and now = now] by auto
  have sink: "sink = ys" using dl by (simp add: deliver_all_collect)
  obtain D2 where h: "handed_over now js1 ?d D2 ys js2 d2"
    using ran_channel_handed_over [OF r] js1(2) by auto
  note c' = child_ran [OF t f1 h]
  have e: "ch_get_jobs_to_run collect now [] js c = Inr (ys, js2, Channel d2 cs1)"
    by (simp add: ch_get_jobs_to_run_def c c1 c2 sink)
  have js2: "js2 = clear_etas (D1 \<union> D2) js"
    using h js1(1) by (simp add: handed_over_def clear_etas_twice)
  have ord: "distinct ys \<and> sorted (map (\<lambda>j. sorting_key_ignoring_eta (js1 j)) ys)"
    using r by (auto simp: ran_channel_def ran_def in_order_def split: if_splits)
  have sk: "sorting_key_ignoring_eta (js1 j) = sorting_key_ignoring_eta (js j)" for j
    using js1(1) by simp
  have run: "runnable now js j" if "j \<in> set ys" for j
  proof -
    have "\<forall>j\<in>set ys. cj_eta (js2 j) = None" using h unfolding handed_over_def by (elim conjE)
    then have "cj_eta (js2 j) = None" using that by (rule bspec)
    then have "j \<in> D1 \<union> D2 \<or> cj_eta (js j) = None" by (auto simp: js2 cj_eta_clear_etas split: if_splits)
    moreover have "j \<in> due now js (D1 \<union> D2)" if "j \<in> D1 \<union> D2" using c'(8) that by simp
    ultimately show ?thesis by (auto simp: runnable_def due_def split: option.splits)
  qed
  have "ch_running d2 = ch_running d \<union> set ys" using h by (simp add: handed_over_def)
  then show ?thesis
    using e js2 c'(1,2,4,6,7,8) ord run
    by (intro exI [of _ ys] exI [of _ js2] exI [of _ "Channel d2 cs1"] exI [of _ "D1 \<union> D2"])
       (simp add: c sk)
qed

end
