(* ===== verification/ChannelRefs.thy ===== *)
theory ChannelRefs
  imports ChannelJobs
begin

text \<open>
  Which job objects the channels reference. The index of jobs of the manager holds weak references,
  so this decides which entries it keeps. No operation makes a channel reference a job that no
  channel referenced before, except the one it is called with; this needs no invariant.
\<close>

section \<open>References\<close>

text \<open>The lazily removed jobs that are still in a heap are referenced.\<close>

definition pq_refs :: "jid PriorityQueue \<Rightarrow> jid set" where
  "pq_refs q = set (pq_heap q) \<union> pq_known q \<union> pq_removed q"

definition node_refs :: "ChannelData \<Rightarrow> jid set" where
  "node_refs d = pq_refs (cq_queue (ch_queue d)) \<union> pq_refs (cq_eta_queue (ch_queue d)) \<union>
     ch_running d \<union> ch_failed d"

fun ch_refers :: "jid \<Rightarrow> Channel \<Rightarrow> bool" where
  "ch_refers j (Channel d cs) \<longleftrightarrow> j \<in> node_refs d \<or> list_ex (\<lambda>(n, c). ch_refers j c) cs"

section \<open>Queues\<close>

lemma heappop_set: "heappop lt h = Inr (x, h') \<Longrightarrow> set h = insert x (set h')"
  using heappop_mset [of lt h x h'] by (intro mset_Cons_set) simp

lemma heappush_set: "heappush lt x h = Inr h' \<Longrightarrow> set h' = insert x (set h)"
  by (intro mset_Cons_set heappush_mset)

lemma pq_getitem0_refs: "pq_getitem0 lt q = Inr (x, q') \<Longrightarrow> pq_refs q' \<subseteq> pq_refs q"
proof (induction lt q arbitrary: x q' rule: pq_getitem0.induct)
  case (1 lt q)
  show ?case
  proof (cases "pq_heap q")
    case Nil
    with "1.prems" show ?thesis by (simp add: pq_getitem0.simps [of lt q])
  next
    case (Cons y t)
    show ?thesis
    proof (cases "y \<in> pq_removed q")
      case True
      with "1.prems" Cons obtain h where h: "heappop lt (pq_heap q) = Inr (y, h)" "y \<in> pq_known q"
        and r: "pq_getitem0 lt (q\<lparr>pq_heap := h, pq_known := pq_known q - {y}, pq_removed := pq_removed q - {y}\<rparr>) = Inr (x, q')"
        by (auto simp: pq_getitem0.simps [of lt q] rbind_eq_Inr split: if_splits)
      have "pq_refs q' \<subseteq> pq_refs (q\<lparr>pq_heap := h, pq_known := pq_known q - {y}, pq_removed := pq_removed q - {y}\<rparr>)"
        using "1.IH" [OF Cons True h(1) refl _ _ r] h(2) by simp
      with heappop_set [OF h(1)] show ?thesis by (auto simp: pq_refs_def)
    next
      case False
      with "1.prems" Cons show ?thesis by (simp add: pq_getitem0.simps [of lt q])
    qed
  qed
qed

lemma pq_getitem_refs: "pq_getitem lt i q = Inr (x, q') \<Longrightarrow> pq_refs q' \<subseteq> pq_refs q"
  using pq_getitem0_refs [of lt q x q'] by (simp add: pq_getitem_def split: if_splits)

lemma pq_pop_refs:
  "pq_pop lt q = Inr (r, q') \<Longrightarrow> pq_refs q' \<subseteq> pq_refs q \<and> (\<forall>x. r = Some x \<longrightarrow> x \<in> pq_refs q)"
proof (induction lt q arbitrary: r q' rule: pq_pop.induct)
  case (1 lt q)
  show ?case
  proof (cases "pq_heap q = []")
    case True
    with "1.prems" show ?thesis by (simp add: pq_pop.simps [of lt q])
  next
    case False
    with "1.prems" obtain x h where h: "heappop lt (pq_heap q) = Inr (x, h)" "x \<in> pq_known q"
      and r: "(if x \<in> pq_removed q
        then pq_pop lt (q\<lparr>pq_heap := h, pq_known := pq_known q - {x}, pq_removed := pq_removed q - {x}\<rparr>)
        else Inr (Some x, q\<lparr>pq_heap := h, pq_known := pq_known q - {x}\<rparr>)) = Inr (r, q')"
      by (auto simp: pq_pop.simps [of lt q] rbind_eq_Inr Let_def split: if_splits)
    show ?thesis
    proof (cases "x \<in> pq_removed q")
      case True
      let ?q = "q\<lparr>pq_heap := h, pq_known := pq_known q - {x}, pq_removed := pq_removed q - {x}\<rparr>"
      from True r have r': "pq_pop lt ?q = Inr (r, q')" by simp
      have "pq_refs q' \<subseteq> pq_refs ?q \<and> (\<forall>x. r = Some x \<longrightarrow> x \<in> pq_refs ?q)"
        using "1.IH" [OF False h(1) refl _ refl _ , of r q'] True h(2) r' by simp
      moreover have "pq_refs ?q \<subseteq> pq_refs q"
        using heappop_set [OF h(1)] by (auto simp: pq_refs_def)
      ultimately show ?thesis by blast
    next
      case False
      have eq: "set (pq_heap q) = insert x (set h)" by (rule heappop_set [OF h(1)])
      from False r have q': "q' = q\<lparr>pq_heap := h, pq_known := pq_known q - {x}\<rparr>" and "r = Some x" by simp_all
      then show ?thesis unfolding q' pq_refs_def eq by auto
    qed
  qed
qed

lemma pq_add_refs: "pq_add lt (Some x) q = Inr q' \<Longrightarrow> pq_refs q' \<subseteq> insert x (pq_refs q)"
  by (auto simp: pq_add_def rbind_eq_Inr Let_def pq_refs_def split: if_splits dest: heappush_set)

lemma pq_remove_refs: "pq_remove (Some x) q = Inr q' \<Longrightarrow> pq_refs q' \<subseteq> pq_refs q"
  by (auto simp: pq_remove_def pq_refs_def split: if_splits)

definition cq_refs :: "ChannelQueue \<Rightarrow> jid set" where
  "cq_refs q = pq_refs (cq_queue q) \<union> pq_refs (cq_eta_queue q)"

lemma cq_add_refs: "cq_add js j q = Inr q' \<Longrightarrow> cq_refs q' \<subseteq> insert j (cq_refs q)"
  by (auto simp: cq_add_def cq_refs_def rbind_eq_Inr split: if_splits dest!: pq_add_refs)

lemma cq_remove_refs: "cq_remove j q = Inr q' \<Longrightarrow> cq_refs q' \<subseteq> cq_refs q"
  by (auto simp: cq_remove_def cq_refs_def rbind_eq_Inr dest!: pq_remove_refs)

lemma cq_move_due_refs: "cq_move_due now js q = Inr (js', q') \<Longrightarrow> cq_refs q' \<subseteq> cq_refs q"
proof (induction now js q arbitrary: js' q' rule: cq_move_due.induct)
  case (1 now js q)
  show ?case
    using "1.prems"
  proof (cases rule: cq_move_due_cases)
    case 1
    then show ?thesis by simp
  next
    case (2 top eq)
    then show ?thesis using pq_getitem_refs [OF 2(1)] by (auto simp: cq_refs_def)
  next
    case (3 top eq e j eq' nq)
    have "cq_refs q' \<subseteq> cq_refs (q\<lparr>cq_queue := nq, cq_eta_queue := eq'\<rparr>)"
      using "1.IH" [OF 3(1) _ 3(2) refl 3(3) _ 3(5) refl refl 3(6) 3(7)] 3(4) by simp
    moreover have "pq_refs eq' \<subseteq> pq_refs (cq_eta_queue q)" "j \<in> pq_refs (cq_eta_queue q)"
      using pq_getitem_refs [OF 3(2)] pq_pop_refs [OF 3(5)] by auto
    ultimately show ?thesis using pq_add_refs [OF 3(6)] by (auto simp: cq_refs_def)
  qed
qed

lemma cq_pop_refs:
  assumes "cq_pop now js q = Inr (r, js', q')"
  shows "cq_refs q' \<subseteq> cq_refs q \<and> (\<forall>x. r = Some x \<longrightarrow> x \<in> cq_refs q)"
proof -
  from assms obtain q1 q2 where q1: "cq_move_due now js q = Inr (js', q1)"
    and q2: "q2 = q1 \<or> (\<exists>x y eq nq. pq_getitem (job_lt js') 0 (cq_eta_queue q1) = Inr (x, eq) \<and>
        pq_getitem (job_lt js') 0 (cq_queue q1) = Inr (y, nq) \<and> q2 = q1\<lparr>cq_queue := nq, cq_eta_queue := eq\<rparr>)"
    and r: "r = None \<and> q' = q2 \<or> (\<exists>nq. pq_pop (job_lt js') (cq_queue q2) = Inr (r, nq) \<and>
        cq_refs q' = pq_refs nq \<union> pq_refs (cq_eta_queue q2))"
    by (fastforce simp: cq_pop_def cq_refs_def elim!: rbindE split: if_split_asm prod.split_asm)
  have "cq_refs q2 \<subseteq> cq_refs q1" using q2 by (auto simp: cq_refs_def dest!: pq_getitem_refs)
  moreover have "cq_refs q' \<subseteq> cq_refs q2 \<and> (\<forall>x. r = Some x \<longrightarrow> x \<in> cq_refs q2)"
    using r pq_pop_refs by (fastforce simp: cq_refs_def)
  ultimately show ?thesis using cq_move_due_refs [OF q1] by blast
qed

section \<open>Channels\<close>

lemma node_refs_cq: "node_refs d = cq_refs (ch_queue d) \<union> ch_running d \<union> ch_failed d"
  by (auto simp: node_refs_def cq_refs_def)

definition ch_refs :: "Channel \<Rightarrow> jid set" where
  "ch_refs c = {j. ch_refers j c}"

definition forest_refs :: "(string \<times> Channel) list \<Rightarrow> jid set" where
  "forest_refs cs = (\<Union>(n, c)\<in>set cs. ch_refs c)"

lemma ch_refs_Channel: "ch_refs (Channel d cs) = node_refs d \<union> forest_refs cs"
  by (auto simp: ch_refs_def forest_refs_def list_ex_iff)

lemma forest_refs_simps [simp]:
  "forest_refs [] = {}" "forest_refs ((n, c) # cs) = ch_refs c \<union> forest_refs cs"
  by (auto simp: forest_refs_def)

lemma forest_refs_set: "forest_refs (dict_set n c cs) \<subseteq> ch_refs c \<union> forest_refs cs"
  by (induction n c cs rule: dict_set.induct) auto

lemma forest_refs_map_of: "map_of cs n = Some c \<Longrightarrow> ch_refs c \<subseteq> forest_refs cs"
  by (auto simp: forest_refs_def dest!: map_of_SomeD)

text \<open>The transitions of a job.\<close>

definition only_adds :: "jid set \<Rightarrow> (ChannelData \<Rightarrow> (ChannelData \<times> bool) result) \<Rightarrow> bool" where
  "only_adds J f \<longleftrightarrow> (\<forall>d d' up. f d = Inr (d', up) \<longrightarrow> node_refs d' \<subseteq> J \<union> node_refs d)"

lemma on_path_refs:
  "only_adds J here \<Longrightarrow> only_adds J upward \<Longrightarrow> on_path here upward p c = Inr (c', up) \<Longrightarrow>
    ch_refs c' \<subseteq> J \<union> ch_refs c"
proof (induction here upward p c arbitrary: c' up rule: on_path.induct)
  case (1 here upward d cs)
  then obtain d' where "here d = Inr (d', up)" "c' = Channel d' cs" by (auto simp: rbind_eq_Inr)
  with 1 show ?case by (fastforce simp: only_adds_def ch_refs_Channel)
next
  case (2 here upward n p d cs)
  from "2.prems"(3) obtain c c1 up1 where c: "map_of cs n = Some c"
    and c1: "on_path here upward p c = Inr (c1, up1)"
    and c': "\<exists>d'. c' = Channel d' (dict_set n c1 cs) \<and> (d' = d \<or> upward d = Inr (d', up))"
    by (auto simp: rbind_eq_Inr split: option.splits if_splits)
  from c' obtain d' where d': "c' = Channel d' (dict_set n c1 cs)" "d' = d \<or> upward d = Inr (d', up)" by blast
  have "node_refs d' \<subseteq> J \<union> node_refs d" using d'(2) "2.prems"(2) by (auto simp: only_adds_def)
  moreover have "ch_refs c1 \<subseteq> J \<union> forest_refs cs"
    using "2.IH" [OF c "2.prems"(1,2) c1] forest_refs_map_of [OF c] by blast
  ultimately show ?case
    using forest_refs_set [of n c1 cs] unfolding d'(1) ch_refs_Channel by blast
qed

lemma transitions_only_add:
  "only_adds {j} (ch_remove1 j)" "only_adds {j} (ch_set_pending1 js j)"
  "only_adds {j} (ch_set_running1 j)" "only_adds {j} (ch_set_failed1 j)"
  by (auto simp: only_adds_def node_refs_cq ch_remove1_def ch_set_pending1_def ch_set_running1_def
      ch_set_failed1_def rbind_eq_Inr split: if_splits dest!: cq_remove_refs cq_add_refs)

text \<open>Removing a job adds nothing at all.\<close>

lemma remove_only_adds: "only_adds {} (ch_remove1 j)"
  by (auto simp: only_adds_def node_refs_cq ch_remove1_def rbind_eq_Inr dest!: cq_remove_refs)

lemma ch_remove_refs: "ch_remove p j c = Inr c' \<Longrightarrow> ch_refs c' \<subseteq> ch_refs c"
  using on_path_refs [OF remove_only_adds remove_only_adds] by (fastforce simp: ch_remove_def rbind_eq_Inr)

lemma ch_set_refs:
  "ch_set_pending js p j c = Inr c' \<Longrightarrow> ch_refs c' \<subseteq> insert j (ch_refs c)"
  "ch_set_running p j c = Inr c' \<Longrightarrow> ch_refs c' \<subseteq> insert j (ch_refs c)"
  "ch_set_failed p j c = Inr c' \<Longrightarrow> ch_refs c' \<subseteq> insert j (ch_refs c)"
  using on_path_refs [OF transitions_only_add(2) transitions_only_add(1)]
    on_path_refs [OF transitions_only_add(3) transitions_only_add(3)]
    on_path_refs [OF transitions_only_add(4) transitions_only_add(1)]
  by (fastforce simp: ch_set_pending_def ch_set_running_def ch_set_failed_def rbind_eq_Inr)+

section \<open>Running\<close>

definition sink_adds :: "('s \<Rightarrow> jid set) \<Rightarrow> (jobs \<Rightarrow> jid \<Rightarrow> 's \<Rightarrow> 's result) \<Rightarrow> bool" where
  "sink_adds srefs deliver \<longleftrightarrow> (\<forall>js j s s'. deliver js j s = Inr s' \<longrightarrow> srefs s' \<subseteq> insert j (srefs s))"

lemma run_loop_refs:
  "sink_adds srefs deliver \<Longrightarrow>
    run_loop deliver now s js d = Inr (s', js', d') \<Longrightarrow>
    node_refs d' \<subseteq> node_refs d \<and> srefs s' \<subseteq> srefs s \<union> node_refs d"
proof (induction deliver now s js d arbitrary: s' js' d' rule: run_loop.induct)
  case (1 deliver now s js d)
  show ?case
  proof (cases "has_capacity d")
    case False
    with "1.prems"(2) show ?thesis by (simp add: run_loop.simps [of deliver now s js d])
  next
    case cap: True
    with "1.prems"(2) obtain r js1 q1 where pop: "cq_pop now js (ch_queue d) = Inr (r, js1, q1)"
      by (auto simp: run_loop.simps [of deliver now s js d] elim!: rbindE)
    note f = cq_pop_refs [OF pop]
    show ?thesis
    proof (cases r)
      case None
      with "1.prems"(2) cap pop f show ?thesis
        by (auto simp: run_loop.simps [of deliver now s js d] node_refs_cq)
    next
      case (Some j)
      with "1.prems"(2) cap pop obtain s1 where s1: "deliver js1 j s = Inr s1"
        by (auto simp: run_loop.simps [of deliver now s js d] elim!: rbindE)
      have s1r: "srefs s1 \<subseteq> insert j (srefs s)" using "1.prems"(1) s1 by (auto simp: sink_adds_def)
      have jr: "j \<in> cq_refs (ch_queue d)" using f Some by blast
      show ?thesis
      proof (cases "ch_throttle d = 0")
        case False
        with "1.prems"(2) cap pop Some s1 have "s' = s1" "d' = d\<lparr>ch_queue := q1,
            ch_running := insert j (ch_running d), ch_pause_until := now + ch_throttle d\<rparr>"
          by (auto simp: run_loop.simps [of deliver now s js d])
        with s1r f jr show ?thesis by (auto simp: node_refs_cq)
      next
        case True
        let ?d = "d\<lparr>ch_queue := q1, ch_running := insert j (ch_running d)\<rparr>"
        from "1.prems"(2) cap pop Some s1 True have r: "run_loop deliver now s1 js1 ?d = Inr (s', js', d')"
          by (simp add: run_loop.simps [of deliver now s js d])
        have d1: "node_refs ?d \<subseteq> node_refs d" using f jr by (auto simp: node_refs_cq)
        have "node_refs d' \<subseteq> node_refs ?d \<and> srefs s' \<subseteq> srefs s1 \<union> node_refs ?d"
          using "1.IH" [of _ _ _ js1 q1 j s1 s' js' d'] cap pop Some s1 True r "1.prems"(1) by auto
        moreover have "srefs s1 \<subseteq> srefs s \<union> node_refs d" using s1r jr by (auto simp: node_refs_cq)
        ultimately show ?thesis using d1 by blast
      qed
    qed
  qed
qed

lemma run_channel_refs:
  assumes "sink_adds srefs deliver" and "run_channel deliver now s js d = Inr (s', js', d')"
  shows "node_refs d' \<subseteq> node_refs d \<and> srefs s' \<subseteq> srefs s \<union> node_refs d"
proof (cases "paused now d")
  case True
  with assms(2) show ?thesis by (simp add: run_channel_unpause)
next
  case False
  with assms(2) have "run_loop deliver now s js (unpause d) = Inr (s', js', d')"
    by (simp add: run_channel_unpause)
  from run_loop_refs [OF assms(1) this] show ?thesis by (simp add: node_refs_cq)
qed

lemma cq_add_sink: "sink_adds cq_refs cq_add"
  using cq_add_refs by (auto simp: sink_adds_def)

lemma children_jobs_refs:
  "children_jobs now q js cs = Inr (q', js', cs') \<Longrightarrow>
    forest_refs cs' \<subseteq> forest_refs cs \<and> cq_refs q' \<subseteq> cq_refs q \<union> forest_refs cs"
proof (induction now q js cs arbitrary: q' js' cs' rule: children_jobs.induct)
  case (2 now q js n d cs rest)
  from "2.prems" obtain q1 js1 cs1 q2 js2 d2 rest3 where
    c1: "children_jobs now (ch_queue d) js cs = Inr (q1, js1, cs1)" and
    c2: "run_channel cq_add now q js1 (d\<lparr>ch_queue := q1\<rparr>) = Inr (q2, js2, d2)" and
    c3: "children_jobs now q2 js2 rest = Inr (q', js', rest3)" and
    cs': "cs' = (n, Channel d2 cs1) # rest3"
    by (auto elim!: rbindE)
  note r1 = "2.IH"(1) [OF c1]
  note r2 = run_channel_refs [OF cq_add_sink c2]
  note r3 = "2.IH"(2) [OF c1 refl refl c2 refl refl c3]
  have "node_refs (d\<lparr>ch_queue := q1\<rparr>) \<subseteq> node_refs d \<union> forest_refs cs"
    using r1 by (auto simp: node_refs_cq)
  then have "node_refs d2 \<subseteq> ch_refs (Channel d cs)" "cq_refs q2 \<subseteq> cq_refs q \<union> ch_refs (Channel d cs)"
    using r2 unfolding ch_refs_Channel by blast+
  with r1 r3 show ?case unfolding cs' by (auto simp: ch_refs_Channel)
qed simp

lemma collect_sink: "sink_adds set collect"
  by (auto simp: sink_adds_def collect_def)

lemma ch_get_jobs_refs:
  assumes "ch_get_jobs_to_run collect now [] js c = Inr (ys, js', c')"
  shows "ch_refs c' \<subseteq> ch_refs c"
proof -
  obtain d cs where c: "c = Channel d cs" by (cases c)
  from assms obtain q1 js1 cs1 d2 where
    c1: "children_jobs now (ch_queue d) js cs = Inr (q1, js1, cs1)" and
    c2: "run_channel collect now [] js1 (d\<lparr>ch_queue := q1\<rparr>) = Inr (ys, js', d2)" and
    c': "c' = Channel d2 cs1"
    by (auto simp: ch_get_jobs_to_run_def c elim!: rbindE)
  note r2 = run_channel_refs [OF collect_sink c2]
  from children_jobs_refs [OF c1] r2 show ?thesis
    unfolding c c' by (auto simp: ch_refs_Channel node_refs_cq)
qed

lemma cq_get_wakeup_time_refs:
  assumes "cq_get_wakeup_time js w q = Inr (w', q')"
  shows "cq_refs q' \<subseteq> cq_refs q"
proof -
  from assms have "q' = q \<or> (\<exists>top eq. pq_getitem (job_lt js) 0 (cq_eta_queue q) = Inr (top, eq) \<and>
      q' = q\<lparr>cq_eta_queue := eq\<rparr>)"
    by (fastforce simp: cq_get_wakeup_time_def elim!: rbindE split: if_split_asm option.split_asm)
  then show ?thesis using pq_getitem_refs by (fastforce simp: cq_refs_def)
qed

lemma ch_get_wakeup_time_refs:
  "ch_get_wakeup_time js w c = Inr (w', c') \<Longrightarrow> ch_refs c' \<subseteq> ch_refs c"
  "children_wakeup_time js w cs = Inr (w', cs') \<Longrightarrow> forest_refs cs' \<subseteq> forest_refs cs"
proof (induction js w c and js w cs arbitrary: w' c' and w' cs'
    rule: ch_get_wakeup_time_children_wakeup_time.induct)
  case (1 js w d cs)
  show ?case
  proof (cases "has_capacity d \<and> ch_pause_until d = 0")
    case True
    with "1.prems" obtain w1 q cs1 where q: "cq_get_wakeup_time js w (ch_queue d) = Inr (w1, q)"
      and c: "children_wakeup_time js w1 cs = Inr (w', cs1)" "c' = Channel (d\<lparr>ch_queue := q\<rparr>) cs1"
      by (auto elim!: rbindE)
    from "1.IH" [OF _ _ q refl c(1)] True have "forest_refs cs1 \<subseteq> forest_refs cs" by simp
    with cq_get_wakeup_time_refs [OF q] show ?thesis
      unfolding c(2) by (auto simp: ch_refs_Channel node_refs_cq)
  next
    case False
    with "1.prems" show ?thesis by (auto split: if_splits)
  qed
next
  case (3 js w n c rest)
  then obtain w1 c1 rest1 where c: "ch_get_wakeup_time js w c = Inr (w1, c1)"
    "children_wakeup_time js w1 rest = Inr (w', rest1)" "cs' = (n, c1) # rest1"
    by (auto elim!: rbindE)
  from "3.IH"(1) [OF c(1)] "3.IH"(2) [OF c(1) refl c(2)] show ?case unfolding c(3) by auto
qed simp

section \<open>The invariant under changes of the store\<close>

lemma node_inv_store:
  assumes "node_inv js p ns d" and "\<And>j. j \<in> node_refs d \<Longrightarrow> js' j = js j"
  shows "node_inv js' p ns d"
proof -
  have r: "\<And>j. j \<in> cq_refs (ch_queue d) \<Longrightarrow> js' j = js j" "\<And>j. j \<in> node_jobs d \<Longrightarrow> js' j = js j"
    "\<And>j. j \<in> cq_etas (ch_queue d) \<Longrightarrow> js' j = js j" "\<And>j. j \<in> ch_failed d \<Longrightarrow> js' j = js j"
    using assms(2) by (auto simp: node_refs_cq cq_refs_def pq_refs_def node_jobs_def queued_def
        cq_now_def cq_later_def pq_abs_def cq_etas_def)
  have "cq_inv js' (ch_queue d)"
    using assms(1) r(1) nq_inv_store [of js "cq_queue (ch_queue d)" js']
      eq_inv_store [of js "cq_eta_queue (ch_queue d)" js']
    by (simp add: node_inv_def cq_inv_def cq_refs_def pq_refs_def)
  with assms(1) r(2-4) show ?thesis by (simp add: node_inv_def)
qed

lemma tree_inv_store:
  "tree_inv js p c \<Longrightarrow> (\<And>j. ch_refers j c \<Longrightarrow> js' j = js j) \<Longrightarrow> tree_inv js' p c"
proof (induction js p c rule: tree_inv.induct)
  case (1 js p d cs)
  have r: "\<And>j. j \<in> node_refs d \<Longrightarrow> js' j = js j" using "1.prems"(2) by simp
  have "tree_inv js' (p @ [n]) c" if "(n, c) \<in> set cs" for n c
  proof (rule "1.IH" [OF that refl])
    show "tree_inv js (p @ [n]) c" using that "1.prems"(1) by (auto simp: tree_inv_Channel forest_inv_def)
    show "js' j = js j" if "ch_refers j c" for j
      using "1.prems"(2) [of j] that \<open>(n, c) \<in> set cs\<close> by (auto simp: list_ex_iff)
  qed
  moreover have "node_inv js' p (map fst cs) d"
  proof (rule node_inv_store)
    show "node_inv js p (map fst cs) d" using "1.prems"(1) by (simp add: tree_inv_Channel)
  qed (rule r)
  moreover have "linked js' p (cq_now (ch_queue d) \<union> ch_running d) cs"
  proof -
    have "j \<in> node_refs d" if "j \<in> cq_now (ch_queue d) \<union> ch_running d" for j
      using that by (auto simp: node_refs_def pq_refs_def cq_now_def pq_abs_def)
    then have "below js' q (cq_now (ch_queue d) \<union> ch_running d) = below js q (cq_now (ch_queue d) \<union> ch_running d)" for q
      using r by (auto simp: below_def)
    moreover have "linked js p (cq_now (ch_queue d) \<union> ch_running d) cs"
      using "1.prems"(1) by (simp add: tree_inv_Channel)
    ultimately show ?thesis by (simp add: linked_def)
  qed
  moreover have "distinct (map fst cs)" using "1.prems"(1) by (simp add: tree_inv_Channel forest_inv_def)
  ultimately show ?case unfolding tree_inv_Channel forest_inv_def by blast
qed

lemma tree_jobs_refs: "tree_jobs c \<subseteq> ch_refs c"
proof (induction c rule: tree_jobs.induct)
  case (1 d cs)
  have "node_jobs d \<subseteq> node_refs d"
    by (auto simp: node_jobs_def node_refs_def pq_refs_def queued_def cq_now_def cq_later_def pq_abs_def)
  with 1 show ?case by (fastforce simp: tree_jobs_Channel ch_refs_Channel forest_jobs_def forest_refs_def)
qed

end
