(* ===== verification/ChannelManager.thy ===== *)
theory ChannelManager
  imports ChannelRefs
begin

text \<open>
  The class \<open>ChannelManager\<close> of \<open>queue_job/jobrunner/channels.py\<close>: the tree of channels, the index
  of channels by full name and the index of jobs by uuid, with \<open>get_channel_by_name\<close>, \<open>notify\<close>,
  \<open>remove_job\<close>, \<open>remove_db\<close>, \<open>get_jobs_to_run\<close> and \<open>get_wakeup_time\<close>.

  Both indexes are \<open>WeakValueDictionary\<close>s. A channel is always referenced by its parent, so the
  index of channels never loses an entry. A job may only be referenced by the index; it is dropped
  from it at the end of the operation that leaves it so (\<open>cm_collect\<close>), as reference counting does.
\<close>

section \<open>State\<close>

record ChannelManager =
  cm_jobs :: jobs
  cm_next :: jid
  cm_jobs_by_uuid :: "(string \<times> jid) list"
  cm_root :: Channel
  cm_channels_by_name :: "(string \<times> chan_path) list"

definition cm_init :: ChannelManager where
  "cm_init =
     \<lparr>cm_jobs = (\<lambda>_. cj_init [] [] [] 0 0 0 None), cm_next = 0, cm_jobs_by_uuid = [],
      cm_root = ch_init ''root'' (Some 1) False 0, cm_channels_by_name = [(''root'', [])]\<rparr>"

definition cm_collect :: "ChannelManager \<Rightarrow> ChannelManager" where
  "cm_collect m =
     m\<lparr>cm_jobs_by_uuid := filter (\<lambda>(u, j). ch_refers j (cm_root m)) (cm_jobs_by_uuid m)\<rparr>"

section \<open>Channels by name\<close>

fun ch_fullname :: "chan_path \<Rightarrow> Channel \<Rightarrow> string" where
  "ch_fullname [] (Channel d cs) = ch_name d"
| "ch_fullname (n # p) (Channel d cs) =
     (case map_of cs n of None \<Rightarrow> ch_name d | Some c \<Rightarrow> ch_name d @ ''.'' @ ch_fullname p c)"

fun ch_update :: "chan_path \<Rightarrow> (Channel \<Rightarrow> Channel) \<Rightarrow> Channel \<Rightarrow> Channel" where
  "ch_update [] f c = f c"
| "ch_update (n # p) f (Channel d cs) =
     (case map_of cs n of
        None \<Rightarrow> Channel d cs
      | Some c \<Rightarrow> Channel d (dict_set n (ch_update p f c) cs))"

text \<open>\<open>Channel(name, parent, capacity=None)\<close> enters itself into the children of its parent.\<close>

definition ch_add_child :: "string \<Rightarrow> Channel \<Rightarrow> Channel" where
  "ch_add_child n c = (case c of Channel d cs \<Rightarrow> Channel d (dict_set n (ch_init n None False 0) cs))"

text \<open>The loop of the parent fallback; the name gets shorter on each turn.\<close>

function find_parent :: "(string \<times> chan_path) list \<Rightarrow> string \<Rightarrow> chan_path result" where
  "find_parent channels name =
     (case py_rsplit1_init (CHR ''.'') name of
        None \<Rightarrow> Inl IndexError
      | Some parent_name \<Rightarrow>
          if parent_name = ''root'' then Inr []
          else (case map_of channels parent_name of
                  Some p \<Rightarrow> Inr p
                | None \<Rightarrow> find_parent channels parent_name))"
  by pat_completeness auto
termination
  by (relation "measure (\<lambda>(channels, name). length name)") (auto dest: py_rsplit1_init_length)

declare find_parent.simps [simp del]

text \<open>The descent along the names below the root, which creates the channels that are missing.\<close>

fun descend ::
  "string list \<Rightarrow> chan_path \<Rightarrow> Channel \<times> (string \<times> chan_path) list \<Rightarrow>
   chan_path \<times> Channel \<times> (string \<times> chan_path) list" where
  "descend [] here st = (here, st)"
| "descend (n # ns) here (root, channels) =
     (let sub = here @ [n] in
      if channel_at sub root \<noteq> None then descend ns sub (root, channels)
      else (let root' = ch_update here (ch_add_child n) root
            in descend ns sub (root', dict_set (ch_fullname sub root') sub channels)))"

definition get_channel_by_name ::
  "string option \<Rightarrow> bool \<Rightarrow> bool \<Rightarrow> ChannelManager \<Rightarrow> (chan_path \<times> ChannelManager) result" where
  "get_channel_by_name channel_name autocreate parent_fallback m =
     (case channel_name of
        None \<Rightarrow> Inr ([], m)
      | Some name0 \<Rightarrow>
          if name0 = [] \<or> name0 = ''root'' then Inr ([], m)
          else (let name = (if py_startswith name0 ''root.'' then name0 else ''root.'' @ name0) in
            case map_of (cm_channels_by_name m) name of
              Some p \<Rightarrow> Inr (p, m)
            | None \<Rightarrow>
                if \<not> autocreate \<and> \<not> parent_fallback then Inl ChannelNotFound
                else rbind (if parent_fallback then find_parent (cm_channels_by_name m) name else Inr []) (\<lambda>parent.
                     let (p, root, channels) =
                       descend (tl (py_split (CHR ''.'') name)) parent (cm_root m, cm_channels_by_name m)
                     in Inr (p, m\<lparr>cm_root := root, cm_channels_by_name := channels\<rparr>))))"

section \<open>Configuration\<close>

fun configure_at :: "chan_path \<Rightarrow> string \<Rightarrow> config \<Rightarrow> Channel \<Rightarrow> Channel result" where
  "configure_at [] fullname config (Channel d cs) =
     rbind (ch_configure fullname config d) (\<lambda>d'. Inr (Channel d' cs))"
| "configure_at (n # p) fullname config (Channel d cs) =
     (case map_of cs n of
        None \<Rightarrow> Inl KeyError
      | Some c \<Rightarrow> rbind (configure_at p fullname config c) (\<lambda>c'. Inr (Channel d (dict_set n c' cs))))"

definition get_channel_from_config :: "config \<Rightarrow> ChannelManager \<Rightarrow> (chan_path \<times> ChannelManager) result" where
  "get_channel_from_config config m =
     (case map_of config ''name'' of
        Some (CStr name) \<Rightarrow>
          rbind (get_channel_by_name (Some name) True False m) (\<lambda>(p, m1).
          rbind (configure_at p (ch_fullname p (cm_root m1)) config (cm_root m1)) (\<lambda>root.
          Inr (p, m1\<lparr>cm_root := root\<rparr>)))
      | Some v \<Rightarrow> Inl TypeError
      | None \<Rightarrow> Inl KeyError)"

fun configure_all :: "config list \<Rightarrow> ChannelManager \<Rightarrow> ChannelManager result" where
  "configure_all [] m = Inr m"
| "configure_all (config # rest) m =
     rbind (get_channel_from_config config m) (\<lambda>(_, m1). configure_all rest m1)"

definition simple_configure :: "string \<Rightarrow> ChannelManager \<Rightarrow> ChannelManager result" where
  "simple_configure config_string m =
     rbind (parse_simple_config config_string) (\<lambda>configs. configure_all configs m)"

section \<open>Jobs\<close>

definition cm_get_job :: "string \<Rightarrow> ChannelManager \<Rightarrow> jid option" where
  "cm_get_job uuid m = map_of (cm_jobs_by_uuid m) uuid"

definition remove_job0 :: "string \<Rightarrow> ChannelManager \<Rightarrow> ChannelManager result" where
  "remove_job0 uuid m =
     (case cm_get_job uuid m of
        None \<Rightarrow> Inr m
      | Some j \<Rightarrow>
          rbind (ch_remove (cj_channel (cm_jobs m j)) j (cm_root m)) (\<lambda>root.
          rbind (dict_pop (cj_uuid (cm_jobs m j)) (cm_jobs_by_uuid m)) (\<lambda>index.
          Inr (m\<lparr>cm_jobs_by_uuid := index, cm_root := root\<rparr>))))"

definition remove_job :: "string \<Rightarrow> ChannelManager \<Rightarrow> ChannelManager result" where
  "remove_job uuid m = rbind (remove_job0 uuid m) (\<lambda>m1. Inr (cm_collect m1))"

fun remove_db_jobs :: "string \<Rightarrow> jid list \<Rightarrow> ChannelManager \<Rightarrow> ChannelManager result" where
  "remove_db_jobs db_name [] m = Inr m"
| "remove_db_jobs db_name (j # rest) m =
     (if cj_db_name (cm_jobs m j) = db_name
      then rbind (ch_remove (cj_channel (cm_jobs m j)) j (cm_root m)) (\<lambda>root.
           rbind (dict_pop (cj_uuid (cm_jobs m j)) (cm_jobs_by_uuid m)) (\<lambda>index.
           remove_db_jobs db_name rest (m\<lparr>cm_jobs_by_uuid := index, cm_root := root\<rparr>)))
      else remove_db_jobs db_name rest m)"

definition remove_db :: "string \<Rightarrow> ChannelManager \<Rightarrow> ChannelManager result" where
  "remove_db db_name m =
     rbind (remove_db_jobs db_name (map snd (cm_jobs_by_uuid m)) m) (\<lambda>m1. Inr (cm_collect m1))"

text \<open>The job states of \<open>queue_job/job.py\<close>; any other text is an unexpected state.\<close>

definition state_transition :: "string option \<Rightarrow> jid \<Rightarrow> ChannelManager \<Rightarrow> Channel result" where
  "state_transition state j m =
     (let js = cm_jobs m; p = cj_channel (js j); root = cm_root m in
      case state of
        None \<Rightarrow> ch_set_done p j root
      | Some s \<Rightarrow>
          if s \<in> {'''', ''done'', ''cancelled''} then ch_set_done p j root
          else if s = ''pending'' then ch_set_pending js p j root
          else if s \<in> {''enqueued'', ''started''} then ch_set_running p j root
          else if s = ''failed'' then ch_set_failed p j root
          else Inr root)"

text \<open>
  The job of the notification: the known one if none of its scheduling properties has changed, a new
  one otherwise. The database and the creation date of a known job must not differ.
\<close>

definition notified_job ::
  "string \<Rightarrow> chan_path \<Rightarrow> string \<Rightarrow> int \<Rightarrow> int \<Rightarrow> int \<Rightarrow> int option \<Rightarrow> ChannelManager \<Rightarrow>
   (jid \<times> ChannelManager) result" where
  "notified_job db_name channel uuid seq date_created priority eta m =
     (let create = (\<lambda>m. let j = cm_next m in
            (j, m\<lparr>cm_jobs := (cm_jobs m)(j := cj_init db_name channel uuid seq date_created priority eta),
                  cm_next := Suc j, cm_jobs_by_uuid := dict_set uuid j (cm_jobs_by_uuid m)\<rparr>))
      in case cm_get_job uuid m of
           None \<Rightarrow> Inr (create m)
         | Some j \<Rightarrow>
             (let job = cm_jobs m j; key = cj_key job in
              if cj_db_name job \<noteq> db_name then Inl AssertionError
              else if sk_date_created key \<noteq> date_created then Inl AssertionError
              else if seq \<noteq> sk_seq key \<or> priority \<noteq> sk_priority key \<or> eta \<noteq> sk_eta key \<or>
                      channel \<noteq> cj_channel job
              then rbind (remove_job0 uuid m) (\<lambda>m1. Inr (create m1))
              else Inr (j, m)))"

definition notify ::
  "string \<Rightarrow> string option \<Rightarrow> string \<Rightarrow> int \<Rightarrow> int \<Rightarrow> int \<Rightarrow> int option \<Rightarrow> string option \<Rightarrow>
   ChannelManager \<Rightarrow> ChannelManager result" where
  "notify db_name channel_name uuid seq date_created priority eta state m =
     rbind (get_channel_by_name channel_name False True m) (\<lambda>(channel, m1).
     rbind (notified_job db_name channel uuid seq date_created priority eta m1) (\<lambda>(j, m2).
     rbind (state_transition state j m2) (\<lambda>root.
     Inr (cm_collect (m2\<lparr>cm_root := root\<rparr>)))))"

section \<open>Running\<close>

definition cm_get_jobs_to_run :: "int \<Rightarrow> ChannelManager \<Rightarrow> (jid list \<times> ChannelManager) result" where
  "cm_get_jobs_to_run now m =
     rbind (ch_get_jobs_to_run collect now [] (cm_jobs m) (cm_root m)) (\<lambda>(ys, js, root).
     Inr (ys, cm_collect (m\<lparr>cm_jobs := js, cm_root := root\<rparr>)))"

definition cm_get_wakeup_time :: "ChannelManager \<Rightarrow> (int \<times> ChannelManager) result" where
  "cm_get_wakeup_time m =
     rbind (ch_get_wakeup_time (cm_jobs m) 0 (cm_root m)) (\<lambda>(w, root).
     Inr (w, cm_collect (m\<lparr>cm_root := root\<rparr>)))"

end
