(* ===== verification/ManagerNames.thy ===== *)
theory ManagerNames
  imports ChannelManager
begin

text \<open>
  The index of channels by name: it holds exactly the channels of the tree, each under its full
  name. \<open>get_channel_by_name\<close> keeps that, finds every channel by its full name with or without the
  leading \<open>root.\<close>, creates a missing one under the requested name when asked to, and in the parent
  fallback descends from the closest existing ancestor.
\<close>

section \<open>Replacing a channel in the tree\<close>

definition exists_at :: "chan_path \<Rightarrow> Channel \<Rightarrow> bool" where
  "exists_at p c \<longleftrightarrow> channel_at p c \<noteq> None"

lemma exists_at_Nil [simp]: "exists_at [] c"
  by (simp add: exists_at_def)

lemma exists_at_Cons: "exists_at (n # p) (Channel d cs) \<longleftrightarrow> (\<exists>c. map_of cs n = Some c \<and> exists_at p c)"
  by (auto simp: exists_at_def split: option.splits)

lemma exists_at_append: "exists_at (p @ q) c \<Longrightarrow> exists_at p c"
proof (induction p arbitrary: c)
  case (Cons n p)
  then show ?case by (cases c) (auto simp: exists_at_Cons)
qed simp

text \<open>A channel that has changed in a way that the invariant and the jobs do not notice.\<close>

definition alike :: "jobs \<Rightarrow> Channel \<Rightarrow> Channel \<Rightarrow> bool" where
  "alike js c c' \<longleftrightarrow> (\<forall>p. tree_inv js p c \<longrightarrow> tree_inv js p c') \<and>
     ch_running (ch_data c') = ch_running (ch_data c) \<and> ch_name (ch_data c') = ch_name (ch_data c) \<and>
     tree_jobs c' = tree_jobs c \<and> ch_refs c' = ch_refs c"

lemma alike_refl [simp]: "alike js c c"
  by (simp add: alike_def)

lemma alike_trans: "alike js a b \<Longrightarrow> alike js b c \<Longrightarrow> alike js a c"
  by (simp add: alike_def)

lemma dict_set_same: "map_of cs n = Some c \<Longrightarrow> map fst (dict_set n c' cs) = map fst cs"
  unfolding map_fst_dict_set by (rule if_P) (auto dest!: map_of_SomeD simp: image_iff intro: bexI [rotated])

lemma dict_set_mem:
  assumes "x \<in> set (dict_set n c cs)" and "distinct (map fst cs)"
  shows "x = (n, c) \<or> x \<in> set cs \<and> fst x \<noteq> n"
proof -
  obtain m e where x: "x = (m, e)" by fastforce
  with assms(1) have "if m = n then e = c else (m, e) \<in> set cs"
    by (simp add: dict_set_pairs [OF assms(2)])
  then show ?thesis by (auto simp: x split: if_splits)
qed

lemma UN_dict_set:
  assumes "map_of cs n = Some c" and "f c' = f c"
  shows "(\<Union>(m, x)\<in>set (dict_set n c' cs). f x) = (\<Union>(m, x)\<in>set cs. f x)"
  using assms
proof (induction n c' cs rule: dict_set.induct)
  case (2 k v k' v' d)
  then show ?case by (cases "k' = k") auto
qed simp

lemma alike_child:
  assumes c: "map_of cs n = Some c" and a: "alike js c c'"
  shows "alike js (Channel d cs) (Channel d (dict_set n c' cs))"
proof -
  have "tree_inv js p (Channel d (dict_set n c' cs))" if t: "tree_inv js p (Channel d cs)" for p
  proof -
    have d: "distinct (map fst cs)" and n: "(n, c) \<in> set cs"
      using t map_of_SomeD [OF c] by (auto simp: tree_inv_Channel forest_inv_def)
    have ok: "tree_inv js (p @ [m]) x \<and> ch_running (ch_data x) = below js (p @ [m]) (cq_now (ch_queue d) \<union> ch_running d)"
      if "(m, x) \<in> set (dict_set n c' cs)" for m x
      using dict_set_mem [OF that d] t n a
      by (auto simp: tree_inv_Channel forest_inv_def linked_def alike_def)
    then show ?thesis
      using t by (auto simp: tree_inv_Channel forest_inv_def linked_def dict_set_same [OF c])
  qed
  moreover have "forest_jobs (dict_set n c' cs) = forest_jobs cs" "forest_refs (dict_set n c' cs) = forest_refs cs"
    unfolding forest_jobs_def forest_refs_def
    using a by (intro UN_dict_set [OF c]; simp add: alike_def)+
  ultimately show ?thesis by (simp add: alike_def tree_jobs_Channel ch_refs_Channel)
qed

lemma alike_update:
  "channel_at p c = Some e \<Longrightarrow> alike js e (f e) \<Longrightarrow> alike js c (ch_update p f c)"
proof (induction p arbitrary: c)
  case (Cons n p)
  obtain d cs where c: "c = Channel d cs" by (cases c)
  with Cons.prems(1) obtain x where x: "map_of cs n = Some x" "channel_at p x = Some e"
    by (auto split: option.splits)
  with Cons.IH [OF x(2) Cons.prems(2)] show ?case by (simp add: c alike_child)
qed simp

lemma exists_at_update:
  "channel_at p c = Some e \<Longrightarrow> (\<And>r. exists_at r (f e) \<longleftrightarrow> exists_at r e \<or> r \<in> R) \<Longrightarrow>
    exists_at q (ch_update p f c) \<longleftrightarrow> exists_at q c \<or> (\<exists>r\<in>R. q = p @ r)"
proof (induction p arbitrary: c q)
  case (Cons n p)
  obtain d cs where c: "c = Channel d cs" by (cases c)
  with Cons.prems(1) obtain x where x: "map_of cs n = Some x" "channel_at p x = Some e"
    by (auto split: option.splits)
  show ?case
  proof (cases q)
    case Nil
    then show ?thesis by simp
  next
    case (Cons m q')
    with Cons.IH [OF x(2) Cons.prems(2), of q'] x(1) show ?thesis
      by (auto simp: c exists_at_Cons)
  qed
qed simp

section \<open>Names\<close>

definition full_name :: "chan_path \<Rightarrow> string" where
  "full_name p = py_join ''.'' (''root'' # p)"

fun names_ok :: "Channel \<Rightarrow> bool" where
  "names_ok (Channel d cs) \<longleftrightarrow>
     list_all (\<lambda>(n, c). ch_name (ch_data c) = n \<and> CHR ''.'' \<notin> set n \<and> names_ok c) cs"

lemma names_ok_path: "names_ok c \<Longrightarrow> exists_at p c \<Longrightarrow> n \<in> set p \<Longrightarrow> CHR ''.'' \<notin> set n"
proof (induction p arbitrary: c)
  case (Cons m p)
  then show ?case by (cases c) (auto simp: exists_at_Cons list_all_iff dest!: map_of_SomeD)
qed simp

lemma ch_fullname_join:
  "names_ok c \<Longrightarrow> exists_at p c \<Longrightarrow> ch_fullname p c = py_join ''.'' (ch_name (ch_data c) # p)"
proof (induction p arbitrary: c)
  case Nil
  then show ?case by (cases c) simp
next
  case (Cons n p)
  obtain d cs where c: "c = Channel d cs" by (cases c)
  with Cons.prems(2) obtain x where x: "map_of cs n = Some x" "exists_at p x" by (auto simp: exists_at_Cons)
  with Cons.prems(1) have "ch_name (ch_data x) = n" "names_ok x"
    by (auto simp: c list_all_iff dest!: map_of_SomeD)
  with Cons.IH [of x] x show ?case by (simp add: c)
qed

lemma py_join_snoc: "ws \<noteq> [] \<Longrightarrow> py_join [sep] (ws @ [w]) = py_join [sep] ws @ sep # w"
  by (induction "[sep]" ws rule: py_join.induct) auto

lemma full_name_snoc: "full_name (p @ [n]) = full_name p @ CHR ''.'' # n"
  using py_join_snoc [of "''root'' # p" "CHR ''.''" n] by (simp add: full_name_def)

lemma full_name_inj:
  assumes "full_name p = full_name q" and "\<And>n. n \<in> set p \<Longrightarrow> CHR ''.'' \<notin> set n"
    and "\<And>n. n \<in> set q \<Longrightarrow> CHR ''.'' \<notin> set n"
  shows "p = q"
proof -
  have "''root'' # p = ''root'' # q"
    by (rule py_join_inj [of "CHR ''.''"]) (use assms in \<open>auto simp: full_name_def\<close>)
  then show ?thesis by simp
qed

text \<open>Every name that starts with \<open>root.\<close> is the full name of the words after the first dot.\<close>

lemma split_full_name:
  assumes "py_startswith name ''root.''"
  obtains ns where "name = full_name ns" and "py_split (CHR ''.'') name = ''root'' # ns" and "ns \<noteq> []"
    and "\<forall>n\<in>set ns. CHR ''.'' \<notin> set n"
proof -
  from py_startswithD [OF assms] obtain t where t: "name = ''root'' @ CHR ''.'' # t" by auto
  let ?ns = "py_split (CHR ''.'') t"
  have s: "py_split (CHR ''.'') name = ''root'' # ?ns"
    unfolding t by (rule py_split_append) simp
  have "name = py_join ''.'' (py_split (CHR ''.'') name)" by (simp add: py_join_split)
  with s have "name = full_name ?ns" by (simp add: full_name_def)
  then show thesis using s py_split_words by (intro that [of ?ns]) auto
qed

section \<open>The index\<close>

definition index_ok :: "Channel \<Rightarrow> (string \<times> chan_path) list \<Rightarrow> bool" where
  "index_ok root channels \<longleftrightarrow> names_ok root \<and> ch_name (ch_data root) = ''root'' \<and>
     (\<forall>name p. map_of channels name = Some p \<longleftrightarrow> exists_at p root \<and> name = full_name p)"

lemma names_ok_update:
  "names_ok c \<Longrightarrow> channel_at p c = Some e \<Longrightarrow> names_ok (f e) \<Longrightarrow> ch_name (ch_data (f e)) = ch_name (ch_data e) \<Longrightarrow>
    names_ok (ch_update p f c) \<and> ch_name (ch_data (ch_update p f c)) = ch_name (ch_data c)"
proof (induction p arbitrary: c)
  case (Cons n p)
  obtain d cs where c: "c = Channel d cs" by (cases c)
  with Cons.prems(2) obtain x where x: "map_of cs n = Some x" "channel_at p x = Some e"
    by (auto split: option.splits)
  with Cons.prems(1) have nx: "ch_name (ch_data x) = n" "CHR ''.'' \<notin> set n" "names_ok x"
    by (auto simp: c list_all_iff dest!: map_of_SomeD)
  have IH: "names_ok (ch_update p f x)" "ch_name (ch_data (ch_update p f x)) = n"
    using Cons.IH [OF nx(3) x(2) Cons.prems(3,4)] nx(1) by auto
  have "set (dict_set n (ch_update p f x) cs) \<subseteq> insert (n, ch_update p f x) (set cs)"
    by (induction n "ch_update p f x" cs rule: dict_set.induct) auto
  with Cons.prems(1) IH nx(2) show ?case by (auto simp: c x(1) list_all_iff)
qed (auto)

section \<open>A new channel\<close>

lemma ch_add_child_new:
  "n \<notin> fst ` set cs \<Longrightarrow> ch_add_child n (Channel d cs) = Channel d (cs @ [(n, ch_init n None False 0)])"
  by (simp add: ch_add_child_def dict_set_new)

lemma tree_inv_init: "tree_inv js p (ch_init n capacity s t)"
  by (simp add: ch_init_def tree_inv_Channel node_inv_def cq_inv_init linked_def forest_inv_def
      node_jobs_def queued_def cq_now_def cq_later_def cq_init_def pq_init_def cq_etas_def pq_abs_def)
     (simp add: cq_inv_init [unfolded cq_init_def pq_init_def])

lemma init_empty [simp]:
  "tree_jobs (ch_init n capacity s t) = {}" "ch_refs (ch_init n capacity s t) = {}"
  "ch_running (ch_data (ch_init n capacity s t)) = {}" "ch_name (ch_data (ch_init n capacity s t)) = n"
  "names_ok (ch_init n capacity s t)" "exists_at r (ch_init n capacity s t) \<longleftrightarrow> r = []"
  by (auto simp: ch_init_def tree_jobs_Channel node_jobs_def queued_def cq_now_def cq_later_def
      cq_init_def pq_init_def pq_abs_def forest_jobs_def ch_refs_Channel node_refs_def pq_refs_def)
     (cases r; simp add: exists_at_Cons)+

lemma add_child_alike:
  assumes n: "n \<notin> fst ` set cs"
  shows "alike js (Channel d cs) (ch_add_child n (Channel d cs))"
proof -
  let ?new = "ch_init n None False 0"
  have "tree_inv js p (Channel d (cs @ [(n, ?new)]))" if t: "tree_inv js p (Channel d cs)" for p
  proof -
    have ni: "node_inv js p (map fst cs) d" using t by (simp add: tree_inv_Channel)
    then have "node_inv js p (map fst (cs @ [(n, ?new)])) d" by (auto simp: node_inv_def)
    moreover have "below js (p @ [n]) (cq_now (ch_queue d) \<union> ch_running d) = {}"
    proof -
      have "\<not> prefix (p @ [n]) (cj_channel (js j))" if "j \<in> cq_now (ch_queue d) \<union> ch_running d" for j
      proof
        assume pn: "prefix (p @ [n]) (cj_channel (js j))"
        have "j \<in> node_jobs d" using that by (auto simp: node_jobs_def queued_def)
        with ni have "cj_channel (js j) = p \<or> (\<exists>m\<in>set (map fst cs). prefix (p @ [m]) (cj_channel (js j)))"
          by (simp add: node_inv_def)
        with pn obtain m where "m \<in> set (map fst cs)" "prefix (p @ [m]) (cj_channel (js j))" by auto
        with pn n show False using prefix_child_unique [of p n "cj_channel (js j)" m] by auto
      qed
      then show ?thesis by (auto simp: below_def)
    qed
    ultimately show ?thesis
      using t n by (simp add: tree_inv_Channel linked_def forest_inv_def tree_inv_init)
  qed
  moreover have "forest_jobs (cs @ [(n, ?new)]) = forest_jobs cs" "forest_refs (cs @ [(n, ?new)]) = forest_refs cs"
    by (simp_all add: forest_jobs_def forest_refs_def)
  ultimately show ?thesis
    by (simp add: alike_def ch_add_child_new [OF n] tree_jobs_Channel ch_refs_Channel)
qed

lemma add_child_exists:
  "n \<notin> fst ` set cs \<Longrightarrow>
    exists_at r (ch_add_child n (Channel d cs)) \<longleftrightarrow> exists_at r (Channel d cs) \<or> r \<in> {[n]}"
  by (cases r) (auto simp: ch_add_child_new exists_at_Cons map_add_Some_iff map_of_eq_None_iff
      split: if_splits)

lemma add_child_names:
  "n \<notin> fst ` set cs \<Longrightarrow> CHR ''.'' \<notin> set n \<Longrightarrow> names_ok (Channel d cs) \<Longrightarrow>
    names_ok (ch_add_child n (Channel d cs)) \<and> ch_name (ch_data (ch_add_child n (Channel d cs))) = ch_name d"
  by (simp add: ch_add_child_new)

text \<open>One missing channel, entered below an existing one.\<close>

lemma channel_at_snoc:
  "channel_at p c = Some (Channel d cs) \<Longrightarrow> channel_at (p @ [n]) c = map_of cs n"
proof (induction p arbitrary: c)
  case Nil
  then show ?case by (simp split: option.splits)
next
  case (Cons m p)
  then show ?case by (cases c) (auto split: option.splits)
qed

lemma names_ok_at: "names_ok c \<Longrightarrow> channel_at p c = Some e \<Longrightarrow> names_ok e"
proof (induction p arbitrary: c)
  case (Cons m p)
  then show ?case by (cases c) (auto simp: list_all_iff split: option.splits dest!: map_of_SomeD)
qed simp

lemma add_channel_ok:
  assumes i: "index_ok root channels" and par: "exists_at par root" and new: "\<not> exists_at (par @ [n]) root"
    and dot: "CHR ''.'' \<notin> set n"
  defines "root1 \<equiv> ch_update par (ch_add_child n) root"
  shows "alike js root root1" and "exists_at q root1 \<longleftrightarrow> exists_at q root \<or> q = par @ [n]"
    and "index_ok root1 (dict_set (ch_fullname (par @ [n]) root1) (par @ [n]) channels)"
proof -
  from par obtain d cs where e: "channel_at par root = Some (Channel d cs)"
    unfolding exists_at_def by (metis Channel.exhaust not_None_eq)
  have "map_of cs n = None"
    using new channel_at_snoc [OF e, of n] by (simp add: exists_at_def)
  then have n: "n \<notin> fst ` set cs" by (simp add: map_of_eq_None_iff)
  have ex: "exists_at q root1 \<longleftrightarrow> exists_at q root \<or> q = par @ [n]" for q
    using exists_at_update [where f = "ch_add_child n" and R = "{[n]}", OF e add_child_exists [OF n]]
    by (simp add: root1_def)
  then show "exists_at q root1 \<longleftrightarrow> exists_at q root \<or> q = par @ [n]" .
  show "alike js root root1"
    unfolding root1_def by (rule alike_update [where f = "ch_add_child n", OF e add_child_alike [OF n]])
  have nr: "names_ok root" "ch_name (ch_data root) = ''root''" using i by (auto simp: index_ok_def)
  note ac = add_child_names [OF n dot names_ok_at [OF nr(1) e]]
  have nr': "names_ok root1" "ch_name (ch_data root1) = ''root''"
    unfolding root1_def
    using names_ok_update [where f = "ch_add_child n", OF nr(1) e] ac nr(2) by simp_all
  have fn: "ch_fullname (par @ [n]) root1 = full_name (par @ [n])"
    using ch_fullname_join [OF nr'(1), of "par @ [n]"] nr'(2) by (simp add: ex full_name_def)
  have subr: "exists_at (par @ [n]) root1" by (simp add: ex)
  have inj: "p = par @ [n]" if "exists_at p root1" "full_name (par @ [n]) = full_name p" for p
    by (rule full_name_inj [OF that(2), symmetric])
      (use names_ok_path [OF nr'(1) subr] names_ok_path [OF nr'(1) that(1)] in blast)+
  have m: "map_of channels name = Some p \<longleftrightarrow> exists_at p root \<and> name = full_name p" for name p
    using i by (simp add: index_ok_def)
  have "map_of (dict_set (full_name (par @ [n])) (par @ [n]) channels) name = Some p \<longleftrightarrow>
      exists_at p root1 \<and> name = full_name p" for name p
  proof (cases "name = full_name (par @ [n])")
    case True
    then show ?thesis using subr inj [of p] by auto
  next
    case False
    then show ?thesis by (auto simp: m ex)
  qed
  with nr' show "index_ok root1 (dict_set (ch_fullname (par @ [n]) root1) (par @ [n]) channels)"
    unfolding index_ok_def fn by blast
qed

lemma descend_ok:
  "index_ok root channels \<Longrightarrow> exists_at par root \<Longrightarrow> \<forall>n\<in>set ns. CHR ''.'' \<notin> set n \<Longrightarrow>
    \<exists>root' channels'. descend ns par (root, channels) = (par @ ns, root', channels') \<and>
      index_ok root' channels' \<and> alike js root root' \<and> exists_at (par @ ns) root' \<and>
      (\<forall>q. exists_at q root \<longrightarrow> exists_at q root') \<and>
      (exists_at (par @ ns) root \<longrightarrow> root' = root \<and> channels' = channels)"
proof (induction ns arbitrary: par root channels)
  case Nil
  then show ?case by simp
next
  case (Cons n ns)
  let ?sub = "par @ [n]"
  show ?case
  proof (cases "exists_at ?sub root")
    case True
    then have "descend (n # ns) par (root, channels) = descend ns ?sub (root, channels)"
      by (simp add: exists_at_def)
    with Cons.IH [OF Cons.prems(1) True] Cons.prems(3) show ?thesis by simp
  next
    case False
    let ?root = "ch_update par (ch_add_child n) root"
    let ?channels = "dict_set (ch_fullname ?sub ?root) ?sub channels"
    have dot: "CHR ''.'' \<notin> set n" using Cons.prems(3) by simp
    note ac = add_channel_ok [OF Cons.prems(1,2) False dot]
    have step: "descend (n # ns) par (root, channels) = descend ns ?sub (?root, ?channels)"
      using False by (simp add: exists_at_def Let_def)
    have sub: "exists_at ?sub ?root" using ac(2) by simp
    from Cons.prems(3) have "\<forall>m\<in>set ns. CHR ''.'' \<notin> set m" by simp
    from Cons.IH [OF ac(3) sub this] obtain root' channels' where IH:
      "descend ns ?sub (?root, ?channels) = (?sub @ ns, root', channels')"
      "index_ok root' channels'" "alike js ?root root'" "exists_at (?sub @ ns) root'"
      "\<forall>q. exists_at q ?root \<longrightarrow> exists_at q root'"
      by blast
    have "\<not> exists_at (par @ n # ns) root"
      using False exists_at_append [of ?sub ns root] by auto
    moreover have "\<forall>q. exists_at q root \<longrightarrow> exists_at q root'" using IH(5) ac(2) by blast
    moreover have "alike js root root'" by (rule alike_trans [OF ac(1) IH(3)])
    ultimately show ?thesis unfolding step using IH(1,2,4) by simp
  qed
qed

section \<open>Finding a channel\<close>

text \<open>The closest existing ancestor.\<close>

lemma find_parent_ok:
  assumes i: "index_ok root channels"
  shows "(\<And>m. m \<in> set (ns @ [n]) \<Longrightarrow> CHR ''.'' \<notin> set m) \<Longrightarrow>
    \<exists>k. find_parent channels (full_name (ns @ [n])) = Inr (take k ns) \<and> k \<le> length ns \<and>
      exists_at (take k ns) root \<and> (\<forall>l. k < l \<and> l \<le> length ns \<longrightarrow> \<not> exists_at (take l ns) root)"
proof (induction ns arbitrary: n rule: rev_induct)
  case Nil
  have "py_rsplit1_init (CHR ''.'') (full_name [n]) = Some ''root''"
    using py_rsplit1_init_append [of "CHR ''.''" n "''root''"] Nil by (simp add: full_name_def)
  then show ?case by (simp add: find_parent.simps [of channels])
next
  case (snoc m ns)
  have rs: "py_rsplit1_init (CHR ''.'') (full_name ((ns @ [m]) @ [n])) = Some (full_name (ns @ [m]))"
    using full_name_snoc [of "ns @ [m]" n] snoc.prems py_rsplit1_init_append [of "CHR ''.''" n "full_name (ns @ [m])"]
    by simp
  have nr: "full_name (ns @ [m]) \<noteq> ''root''"
  proof
    assume "full_name (ns @ [m]) = ''root''"
    then have "full_name (ns @ [m]) = full_name []" by (simp add: full_name_def)
    then have "ns @ [m] = []" by (rule full_name_inj) (use snoc.prems in auto)
    then show False by simp
  qed
  show ?case
  proof (cases "exists_at (ns @ [m]) root")
    case True
    then have "map_of channels (full_name (ns @ [m])) = Some (ns @ [m])" using i by (simp add: index_ok_def)
    then have "find_parent channels (full_name ((ns @ [m]) @ [n])) = Inr (ns @ [m])"
      using rs nr by (simp add: find_parent.simps [of channels "full_name (ns @ [m, n])"])
    with True show ?thesis by (intro exI [of _ "length (ns @ [m])"]) auto
  next
    case False
    have "map_of channels (full_name (ns @ [m])) = None"
    proof (rule ccontr)
      assume "map_of channels (full_name (ns @ [m])) \<noteq> None"
      then obtain p where "map_of channels (full_name (ns @ [m])) = Some p" by auto
      then have p: "exists_at p root" "full_name (ns @ [m]) = full_name p" using i by (auto simp: index_ok_def)
      have "ns @ [m] = p"
        by (rule full_name_inj [OF p(2)])
          (use snoc.prems names_ok_path [of root p] p(1) i in \<open>auto simp: index_ok_def\<close>)
      with p(1) False show False by simp
    qed
    then have eq: "find_parent channels (full_name ((ns @ [m]) @ [n])) = find_parent channels (full_name (ns @ [m]))"
      using rs nr by (simp add: find_parent.simps [of channels "full_name (ns @ [m, n])"])
    obtain k where k: "find_parent channels (full_name (ns @ [m])) = Inr (take k ns)" "k \<le> length ns"
      "exists_at (take k ns) root" "\<forall>l. k < l \<and> l \<le> length ns \<longrightarrow> \<not> exists_at (take l ns) root"
      using snoc.IH [of m] snoc.prems by auto
    have "\<not> exists_at (take l (ns @ [m])) root" if "k < l" "l \<le> length (ns @ [m])" for l
      using that k(4) False by (cases "l \<le> length ns") (auto simp: le_Suc_eq)
    with k eq show ?thesis by (intro exI [of _ k]) auto
  qed
qed

text \<open>Names survive every change that keeps the shape of the tree.\<close>

lemma same_shape_child:
  assumes s: "same_shape (Channel d cs) (Channel d' cs')" and x: "map_of cs' n = Some x'"
  obtains x where "map_of cs n = Some x" and "same_shape x x'"
proof -
  have "map_option settings (channel_at [] (Channel d' cs')) = map_option settings (channel_at [] (Channel d cs))"
    using s unfolding same_shape_def by blast
  then have "map fst cs' = map fst cs" by (simp add: settings_def)
  moreover have "n \<in> set (map fst cs')" using map_of_SomeD [OF x] by force
  ultimately obtain x0 where x0: "map_of cs n = Some x0"
    by (metis map_of_eq_None_iff not_None_eq set_map)
  have "map_option settings (channel_at q x') = map_option settings (channel_at q x0)" for q
  proof -
    have "map_option settings (channel_at (n # q) (Channel d' cs')) = map_option settings (channel_at (n # q) (Channel d cs))"
      using s unfolding same_shape_def by blast
    then show ?thesis by (simp add: x x0)
  qed
  then have "same_shape x0 x'" by (simp add: same_shape_def)
  with x0 show thesis by (rule that)
qed

lemma same_shape_name: "same_shape c c' \<Longrightarrow> ch_name (ch_data c') = ch_name (ch_data c)"
proof -
  assume "same_shape c c'"
  then have "map_option settings (channel_at [] c') = map_option settings (channel_at [] c)"
    unfolding same_shape_def by blast
  then show ?thesis by (cases c; cases c') (simp add: settings_def)
qed

lemma names_ok_shape:
  "tree_inv js p c' \<Longrightarrow> same_shape c c' \<Longrightarrow> names_ok c \<Longrightarrow> names_ok c'"
proof (induction js p c' arbitrary: c rule: tree_inv.induct)
  case (1 js p d' cs')
  obtain d cs where c: "c = Channel d cs" by (cases c)
  have dis: "distinct (map fst cs')" using "1.prems"(1) by (simp add: tree_inv_Channel forest_inv_def)
  have "ch_name (ch_data x') = n \<and> CHR ''.'' \<notin> set n \<and> names_ok x'" if x': "(n, x') \<in> set cs'" for n x'
  proof -
    have "map_of cs' n = Some x'" using x' dis by simp
    then obtain x where x: "map_of cs n = Some x" "same_shape x x'"
      by (rule same_shape_child [OF "1.prems"(2) [unfolded c]])
    have nx: "ch_name (ch_data x) = n" "CHR ''.'' \<notin> set n" "names_ok x"
      using "1.prems"(3) map_of_SomeD [OF x(1)] by (auto simp: c list_all_iff)
    have "tree_inv js (p @ [n]) x'" using "1.prems"(1) x' by (auto simp: tree_inv_Channel forest_inv_def)
    from "1.IH" [OF x' refl this x(2) nx(3)] show ?thesis using nx same_shape_name [OF x(2)] by simp
  qed
  then show ?case by (auto simp: list_all_iff)
qed

lemma exists_at_shape: "same_shape c c' \<Longrightarrow> exists_at p c' \<longleftrightarrow> exists_at p c"
  by (simp add: exists_at_def same_shape_at)

lemma index_ok_shape:
  assumes "index_ok c channels" and "same_shape c c'" and "tree_inv js p c'"
  shows "index_ok c' channels"
  using assms names_ok_shape [OF assms(3,2)] same_shape_name [OF assms(2)] exists_at_shape [OF assms(2)]
  by (simp add: index_ok_def)

end
