(* ===== verification/ManagerInv.thy ===== *)
theory ManagerInv
  imports ManagerNames
begin

text \<open>
  The invariant of the manager (\<open>cm_inv\<close>): the tree is well-formed, the index of channels is exact,
  and every job in a queue, running or failed is the one its uuid is entered under. Every operation
  keeps it; the operations as labelled steps form an \<open>invariant_system\<close>.
\<close>

section \<open>The invariant\<close>

definition known_job :: "ChannelManager \<Rightarrow> string \<Rightarrow> jid \<Rightarrow> bool" where
  "known_job m u j \<longleftrightarrow> cj_uuid (cm_jobs m j) = u \<and> j < cm_next m \<and>
     exists_at (cj_channel (cm_jobs m j)) (cm_root m) \<and> cj_eta (cm_jobs m j) \<noteq> Some 0"

definition jobs_ok :: "ChannelManager \<Rightarrow> bool" where
  "jobs_ok m \<longleftrightarrow> distinct (map fst (cm_jobs_by_uuid m)) \<and>
     (\<forall>(u, j)\<in>set (cm_jobs_by_uuid m). known_job m u j) \<and>
     (\<forall>j\<in>tree_jobs (cm_root m). map_of (cm_jobs_by_uuid m) (cj_uuid (cm_jobs m j)) = Some j) \<and>
     (\<forall>j\<in>ch_refs (cm_root m). j < cm_next m)"

definition cm_inv :: "ChannelManager \<Rightarrow> bool" where
  "cm_inv m \<longleftrightarrow> tree_inv (cm_jobs m) [] (cm_root m) \<and>
     index_ok (cm_root m) (cm_channels_by_name m) \<and> jobs_ok m"

lemma cm_inv_init: "cm_inv cm_init"
proof -
  have r: "cm_root cm_init = ch_init ''root'' (Some 1) False 0" by (simp add: cm_init_def)
  have "tree_inv (cm_jobs cm_init) [] (cm_root cm_init)" unfolding r by (rule tree_inv_init)
  moreover have "index_ok (cm_root cm_init) (cm_channels_by_name cm_init)"
    unfolding r by (auto simp: cm_init_def index_ok_def full_name_def)
  moreover have "jobs_ok cm_init" unfolding jobs_ok_def r by (simp add: cm_init_def)
  ultimately show ?thesis by (simp add: cm_inv_def)
qed

lemma jobs_okD:
  assumes "jobs_ok m" and "map_of (cm_jobs_by_uuid m) u = Some j"
  shows "known_job m u j"
  using assms map_of_SomeD by (fastforce simp: jobs_ok_def)

text \<open>A change of the tree that keeps the jobs and the store, as creating or configuring a channel.\<close>

lemma cm_inv_alike:
  assumes "cm_inv m" and a: "alike (cm_jobs m) (cm_root m) root" and i: "index_ok root channels"
    and e: "\<forall>q. exists_at q (cm_root m) \<longrightarrow> exists_at q root"
  shows "cm_inv (m\<lparr>cm_root := root, cm_channels_by_name := channels\<rparr>)"
proof -
  have t: "tree_jobs root = tree_jobs (cm_root m)" "ch_refs root = ch_refs (cm_root m)"
    using a by (simp_all add: alike_def)
  have "tree_inv (cm_jobs m) [] root" using assms(1) a by (simp add: cm_inv_def alike_def)
  moreover have "jobs_ok (m\<lparr>cm_root := root, cm_channels_by_name := channels\<rparr>)"
    using assms(1) e unfolding cm_inv_def jobs_ok_def known_job_def
    by (simp add: t) (auto split: prod.splits)
  ultimately show ?thesis using i by (simp add: cm_inv_def)
qed

section \<open>Channels by name\<close>

text \<open>
  With \<open>autocreate\<close> or the parent fallback a channel is always found or created. The path is the
  requested one, below the closest existing ancestor in the case of the fallback.
\<close>

definition channel_words :: "string option \<Rightarrow> chan_path" where
  "channel_words channel_name =
     (case channel_name of
        None \<Rightarrow> []
      | Some name \<Rightarrow>
          if name = [] \<or> name = ''root'' then []
          else tl (py_split (CHR ''.'')
                 (if py_startswith name ''root.'' then name else ''root.'' @ name)))"

text \<open>The lookup of a full name in the index finds the channel exactly when it exists.\<close>

lemma channel_lookup:
  assumes inv: "cm_inv m" and n0: "n0 \<noteq> []" "n0 \<noteq> ''root''"
  obtains ns where "(if py_startswith n0 ''root.'' then n0 else ''root.'' @ n0) = full_name ns"
    and "py_split (CHR ''.'') (full_name ns) = ''root'' # ns" and "ns \<noteq> []"
    and "\<forall>n\<in>set ns. CHR ''.'' \<notin> set n" and "channel_words (Some n0) = ns"
    and "map_of (cm_channels_by_name m) (full_name ns) = (if exists_at ns (cm_root m) then Some ns else None)"
proof -
  let ?name = "if py_startswith n0 ''root.'' then n0 else ''root.'' @ n0"
  have st: "py_startswith ?name ''root.''" by (simp add: py_startswith_def)
  obtain ns where ns: "?name = full_name ns" "py_split (CHR ''.'') ?name = ''root'' # ns" "ns \<noteq> []"
    "\<forall>n\<in>set ns. CHR ''.'' \<notin> set n"
    by (rule split_full_name [OF st])
  have w: "channel_words (Some n0) = ns" using n0 ns(2) by (simp add: channel_words_def)
  have i: "index_ok (cm_root m) (cm_channels_by_name m)" using inv by (simp add: cm_inv_def)
  have nok: "names_ok (cm_root m)" using i by (simp add: index_ok_def)
  have look: "map_of (cm_channels_by_name m) (full_name ns) = (if exists_at ns (cm_root m) then Some ns else None)"
  proof (cases "map_of (cm_channels_by_name m) (full_name ns)")
    case None
    have "exists_at ns (cm_root m) \<Longrightarrow> map_of (cm_channels_by_name m) (full_name ns) = Some ns"
      using i unfolding index_ok_def by blast
    with None show ?thesis by auto
  next
    case (Some p)
    with i have p: "exists_at p (cm_root m)" "full_name ns = full_name p" by (auto simp: index_ok_def)
    have "ns = p" by (rule full_name_inj [OF p(2)]) (use ns(4) names_ok_path [OF nok p(1)] in blast)+
    with Some p show ?thesis by simp
  qed
  from that [OF ns(1) _ ns(3,4) w look] ns(1,2) show thesis by simp
qed

lemma get_channel_ok:
  assumes inv: "cm_inv m" and f: "autocreate \<or> parent_fallback"
  shows "\<exists>p m'. get_channel_by_name name autocreate parent_fallback m = Inr (p, m') \<and> cm_inv m' \<and>
    exists_at p (cm_root m') \<and> cm_jobs m' = cm_jobs m \<and> cm_next m' = cm_next m \<and>
    tree_jobs (cm_root m') = tree_jobs (cm_root m) \<and> cm_jobs_by_uuid m' = cm_jobs_by_uuid m \<and> (\<forall>q. exists_at q (cm_root m) \<longrightarrow> exists_at q (cm_root m')) \<and>
    (if exists_at (channel_words name) (cm_root m) then p = channel_words name \<and> m' = m
     else \<exists>a. exists_at a (cm_root m) \<and> p = a @ channel_words name \<and> (\<not> parent_fallback \<longrightarrow> a = []))"
proof (cases "name = None \<or> name = Some [] \<or> name = Some ''root''")
  case True
  then have "get_channel_by_name name autocreate parent_fallback m = Inr ([], m)" "channel_words name = []"
    by (auto simp: get_channel_by_name_def channel_words_def)
  with inv show ?thesis by simp
next
  case False
  then obtain n0 where n0: "name = Some n0" "n0 \<noteq> []" "n0 \<noteq> ''root''" by (cases name) auto
  obtain ns where ns: "(if py_startswith n0 ''root.'' then n0 else ''root.'' @ n0) = full_name ns"
    "py_split (CHR ''.'') (full_name ns) = ''root'' # ns" "ns \<noteq> []" "\<forall>n\<in>set ns. CHR ''.'' \<notin> set n"
    "channel_words (Some n0) = ns"
    "map_of (cm_channels_by_name m) (full_name ns) = (if exists_at ns (cm_root m) then Some ns else None)"
    by (rule channel_lookup [OF inv n0(2,3)])
  have w: "channel_words name = ns" and look: "map_of (cm_channels_by_name m) (full_name ns) =
      (if exists_at ns (cm_root m) then Some ns else None)" using ns(5,6) n0(1) by simp_all
  have i: "index_ok (cm_root m) (cm_channels_by_name m)" using inv by (simp add: cm_inv_def)
  show ?thesis
  proof (cases "exists_at ns (cm_root m)")
    case True
    then have "get_channel_by_name name autocreate parent_fallback m = Inr (ns, m)"
      using n0 ns(1) look by (simp add: get_channel_by_name_def Let_def)
    with True inv w show ?thesis by simp
  next
    case new: False
    obtain a where a: "(if parent_fallback then find_parent (cm_channels_by_name m) (full_name ns) else Inr []) = Inr a"
      "exists_at a (cm_root m)" "\<not> parent_fallback \<longrightarrow> a = []"
    proof (cases parent_fallback)
      case True
      obtain ms l where ms: "ns = ms @ [l]" using ns(3) by (metis append_butlast_last_id)
      have "\<And>x. x \<in> set (ms @ [l]) \<Longrightarrow> CHR ''.'' \<notin> set x" using ns(4) ms by blast
      from find_parent_ok [OF i this] obtain k where
        "find_parent (cm_channels_by_name m) (full_name (ms @ [l])) = Inr (take k ms)"
        "exists_at (take k ms) (cm_root m)" by blast
      with True that [of "take k ms"] show ?thesis by (simp add: ms)
    next
      case False
      with that [of "[]"] show ?thesis by simp
    qed
    from descend_ok [OF i a(2) ns(4), of "cm_jobs m"] obtain root channels where d:
      "descend ns a (cm_root m, cm_channels_by_name m) = (a @ ns, root, channels)"
      "index_ok root channels" "alike (cm_jobs m) (cm_root m) root" "exists_at (a @ ns) root"
      "\<forall>q. exists_at q (cm_root m) \<longrightarrow> exists_at q root"
      by blast
    have "get_channel_by_name name autocreate parent_fallback m
        = Inr (a @ ns, m\<lparr>cm_root := root, cm_channels_by_name := channels\<rparr>)"
      using n0 ns(1,2) look new f a(1) d(1) by (simp add: get_channel_by_name_def Let_def)
    moreover have "tree_jobs root = tree_jobs (cm_root m)" using d(3) by (simp add: alike_def)
    ultimately show ?thesis using new w a(2,3) d(4,5) cm_inv_alike [OF inv d(3,2,5)] by auto
  qed
qed

text \<open>Without either flag only existing channels are found; with any flags they are, unchanged.\<close>

lemma get_channel_existing:
  assumes inv: "cm_inv m" and e: "exists_at (channel_words name) (cm_root m)"
  shows "get_channel_by_name name autocreate parent_fallback m = Inr (channel_words name, m)"
proof (cases "name = None \<or> name = Some [] \<or> name = Some ''root''")
  case True
  then show ?thesis by (auto simp: get_channel_by_name_def channel_words_def)
next
  case False
  then obtain n0 where n0: "name = Some n0" "n0 \<noteq> []" "n0 \<noteq> ''root''" by (cases name) auto
  show ?thesis
    by (rule channel_lookup [OF inv n0(2,3)]) (use n0 e in \<open>simp add: get_channel_by_name_def Let_def\<close>)
qed

lemma get_channel_missing:
  assumes inv: "cm_inv m" and e: "\<not> exists_at (channel_words name) (cm_root m)"
  shows "get_channel_by_name name False False m = Inl ChannelNotFound"
proof -
  have "\<not> (name = None \<or> name = Some [] \<or> name = Some ''root'')"
    using e by (intro notI) (elim disjE; simp add: channel_words_def)
  then obtain n0 where n0: "name = Some n0" "n0 \<noteq> []" "n0 \<noteq> ''root''" by (cases name) auto
  show ?thesis
    by (rule channel_lookup [OF inv n0(2,3)]) (use n0 e in \<open>simp add: get_channel_by_name_def Let_def\<close>)
qed

section \<open>Removing jobs\<close>

text \<open>A transition of a job that is in the index, with the tree and the index of jobs it leaves.\<close>

lemma jobs_ok_update:
  assumes j: "jobs_ok m" and s: "same_shape (cm_root m) root"
    and t: "tree_jobs root \<subseteq> insert j (tree_jobs (cm_root m))" and r: "ch_refs root \<subseteq> insert j (ch_refs (cm_root m))"
    and k: "map_of (cm_jobs_by_uuid m) (cj_uuid (cm_jobs m j)) = Some j"
  shows "jobs_ok (m\<lparr>cm_root := root\<rparr>)"
proof -
  have "j < cm_next m" using jobs_okD [OF j k] by (simp add: known_job_def)
  then show ?thesis
    using j t r k exists_at_shape [OF s] unfolding jobs_ok_def known_job_def by auto
qed

lemma ch_remove_ok:
  assumes inv: "cm_inv m" and k: "exists_at (cj_channel (cm_jobs m j)) (cm_root m)"
  obtains root where "ch_remove (cj_channel (cm_jobs m j)) j (cm_root m) = Inr root"
    and "tree_inv (cm_jobs m) [] root" and "same_shape (cm_root m) root"
    and "tree_jobs root = tree_jobs (cm_root m) - {j}" and "ch_refs root \<subseteq> ch_refs (cm_root m)"
proof -
  have t: "tree_inv (cm_jobs m) [] (cm_root m)" using inv by (simp add: cm_inv_def)
  have k': "channel_at (cj_channel (cm_jobs m j)) (cm_root m) \<noteq> None" using k by (simp add: exists_at_def)
  obtain root up e where r: "on_path (ch_remove1 j) (ch_remove1 j) (cj_channel (cm_jobs m j)) (cm_root m) = Inr (root, up)"
    "tree_inv (cm_jobs m) [] root" "tree_jobs root - {j} = tree_jobs (cm_root m) - {j}"
    "same_shape (cm_root m) root" "channel_at (cj_channel (cm_jobs m j)) root = Some e"
    "j \<notin> node_jobs (ch_data e)"
    by (rule remove.transition_ok [OF TrueI t k'])
  have eq: "ch_remove (cj_channel (cm_jobs m j)) j (cm_root m) = Inr root"
    using r(1) by (simp add: ch_remove_def)
  have "j \<notin> tree_jobs root" by (rule tree_absent [OF r(2) _ r(5,6)]) simp
  with r(3) have "tree_jobs root = tree_jobs (cm_root m) - {j}" by auto
  with that [OF eq r(2,4)] ch_remove_refs [OF eq] show thesis by blast
qed

text \<open>Removing a job from the channels and the index, as \<open>remove_job\<close> and \<open>remove_db\<close> do.\<close>

lemma drop_job_ok:
  assumes inv: "cm_inv m" and k: "map_of (cm_jobs_by_uuid m) u = Some j"
  obtains root where "ch_remove (cj_channel (cm_jobs m j)) j (cm_root m) = Inr root"
    and "dict_pop (cj_uuid (cm_jobs m j)) (cm_jobs_by_uuid m) = Inr (dict_del u (cm_jobs_by_uuid m))"
    and "cm_inv (m\<lparr>cm_jobs_by_uuid := dict_del u (cm_jobs_by_uuid m), cm_root := root\<rparr>)"
    and "tree_jobs root = tree_jobs (cm_root m) - {j}" and "same_shape (cm_root m) root"
proof -
  from inv have jo: "jobs_ok m" and i: "index_ok (cm_root m) (cm_channels_by_name m)"
    by (simp_all add: cm_inv_def)
  from jobs_okD [OF jo k] have kj: "known_job m u j" .
  then have u: "cj_uuid (cm_jobs m j) = u" and ex: "exists_at (cj_channel (cm_jobs m j)) (cm_root m)"
    by (simp_all add: known_job_def)
  obtain root where r: "ch_remove (cj_channel (cm_jobs m j)) j (cm_root m) = Inr root"
    "tree_inv (cm_jobs m) [] root" "same_shape (cm_root m) root"
    "tree_jobs root = tree_jobs (cm_root m) - {j}" "ch_refs root \<subseteq> ch_refs (cm_root m)"
    by (rule ch_remove_ok [OF inv ex])
  have p: "dict_pop (cj_uuid (cm_jobs m j)) (cm_jobs_by_uuid m) = Inr (dict_del u (cm_jobs_by_uuid m))"
    using map_of_SomeD [OF k] by (force simp: dict_pop_def u)
  have sub: "set (dict_del u (cm_jobs_by_uuid m)) \<subseteq> set (cm_jobs_by_uuid m)" by (auto simp: dict_del_def)
  let ?m = "m\<lparr>cm_jobs_by_uuid := dict_del u (cm_jobs_by_uuid m), cm_root := root\<rparr>"
  have "map_of (dict_del u (cm_jobs_by_uuid m)) (cj_uuid (cm_jobs m i)) = Some i"
    if "i \<in> tree_jobs root" for i
  proof -
    have i: "map_of (cm_jobs_by_uuid m) (cj_uuid (cm_jobs m i)) = Some i" "i \<noteq> j"
      using that jo r(4) by (auto simp: jobs_ok_def)
    then have "cj_uuid (cm_jobs m i) \<noteq> u" using k by auto
    with i show ?thesis by simp
  qed
  then have "jobs_ok ?m"
    using jo sub r(5) distinct_dict_del exists_at_shape [OF r(3)]
    unfolding jobs_ok_def known_job_def by auto
  then have "cm_inv ?m" using r(2) index_ok_shape [OF i r(3,2)] by (simp add: cm_inv_def)
  with that [OF r(1) p] r(3,4) show thesis by blast
qed

lemma cm_inv_collect: "cm_inv m \<Longrightarrow> cm_inv (cm_collect m)"
proof -
  assume inv: "cm_inv m"
  let ?f = "filter (\<lambda>(u, j). ch_refers j (cm_root m)) (cm_jobs_by_uuid m)"
  have d: "distinct (map fst (cm_jobs_by_uuid m))" using inv by (simp add: cm_inv_def jobs_ok_def)
  have df: "distinct (map fst ?f)" using d by (induction "cm_jobs_by_uuid m") (auto simp: distinct_map_filter)
  have "map_of ?f (cj_uuid (cm_jobs m j)) = Some j" if "j \<in> tree_jobs (cm_root m)" for j
  proof -
    have "map_of (cm_jobs_by_uuid m) (cj_uuid (cm_jobs m j)) = Some j"
      using inv that by (simp add: cm_inv_def jobs_ok_def)
    moreover have "ch_refers j (cm_root m)" using tree_jobs_refs that by (auto simp: ch_refs_def)
    ultimately have "(cj_uuid (cm_jobs m j), j) \<in> set ?f" by (auto dest: map_of_SomeD)
    then show ?thesis using df by (rule map_of_is_SomeI [rotated])
  qed
  with inv df show ?thesis
    by (auto simp: cm_inv_def jobs_ok_def cm_collect_def known_job_def)
qed

lemma entered:
  "cm_inv m \<Longrightarrow> j \<in> tree_jobs (cm_root m) \<Longrightarrow>
    map_of (cm_jobs_by_uuid m) (cj_uuid (cm_jobs m j)) = Some j"
  by (simp add: cm_inv_def jobs_ok_def)

lemma remove_job0_ok:
  assumes inv: "cm_inv m"
  shows "\<exists>m'. remove_job0 u m = Inr m' \<and> cm_inv m' \<and> cm_jobs m' = cm_jobs m \<and> cm_next m' = cm_next m \<and>
    map_of (cm_jobs_by_uuid m') u = None \<and> same_shape (cm_root m) (cm_root m') \<and>
    tree_jobs (cm_root m') = tree_jobs (cm_root m) - {j. cj_uuid (cm_jobs m j) = u}"
proof (cases "map_of (cm_jobs_by_uuid m) u")
  case None
  have "cj_uuid (cm_jobs m j) \<noteq> u" if "j \<in> tree_jobs (cm_root m)" for j
    using entered [OF inv that] None by auto
  then have "tree_jobs (cm_root m) - {j. cj_uuid (cm_jobs m j) = u} = tree_jobs (cm_root m)" by blast
  with None inv show ?thesis by (simp add: remove_job0_def cm_get_job_def)
next
  case (Some j)
  obtain root where r: "ch_remove (cj_channel (cm_jobs m j)) j (cm_root m) = Inr root"
    "dict_pop (cj_uuid (cm_jobs m j)) (cm_jobs_by_uuid m) = Inr (dict_del u (cm_jobs_by_uuid m))"
    "cm_inv (m\<lparr>cm_jobs_by_uuid := dict_del u (cm_jobs_by_uuid m), cm_root := root\<rparr>)"
    "tree_jobs root = tree_jobs (cm_root m) - {j}" "same_shape (cm_root m) root"
    by (rule drop_job_ok [OF inv Some])
  have "jobs_ok m" using inv by (simp add: cm_inv_def)
  then have "cj_uuid (cm_jobs m j) = u" using jobs_okD [OF _ Some] by (simp add: known_job_def)
  moreover have "i = j" if "i \<in> tree_jobs (cm_root m)" "cj_uuid (cm_jobs m i) = u" for i
    using entered [OF inv that(1)] that(2) Some by simp
  ultimately have "tree_jobs root = tree_jobs (cm_root m) - {i. cj_uuid (cm_jobs m i) = u}"
    unfolding r(4) by blast
  with r Some show ?thesis by (simp add: remove_job0_def cm_get_job_def)
qed

lemma remove_job_ok:
  assumes "cm_inv m"
  shows "\<exists>m'. remove_job u m = Inr m' \<and> cm_inv m' \<and> same_shape (cm_root m) (cm_root m') \<and>
    cm_jobs m' = cm_jobs m \<and>
    tree_jobs (cm_root m') = tree_jobs (cm_root m) - {j. cj_uuid (cm_jobs m j) = u}"
  using remove_job0_ok [OF assms, of u] cm_inv_collect
  by (fastforce simp: remove_job_def cm_collect_def)

text \<open>\<open>remove_db\<close> walks a snapshot of the index; no entry it still has to visit is lost on the way.\<close>

lemma remove_db_jobs_ok:
  "cm_inv m \<Longrightarrow> \<forall>j\<in>set js. map_of (cm_jobs_by_uuid m) (cj_uuid (cm_jobs m j)) = Some j \<Longrightarrow> distinct js \<Longrightarrow>
    \<exists>m'. remove_db_jobs db js m = Inr m' \<and> cm_inv m' \<and> same_shape (cm_root m) (cm_root m') \<and>
      cm_jobs m' = cm_jobs m \<and>
      tree_jobs (cm_root m') = tree_jobs (cm_root m) - {j \<in> set js. cj_db_name (cm_jobs m j) = db}"
proof (induction js arbitrary: m)
  case Nil
  then show ?case by simp
next
  case (Cons j js)
  show ?case
  proof (cases "cj_db_name (cm_jobs m j) = db")
    case False
    with Cons.IH [OF Cons.prems(1)] Cons.prems(2,3) show ?thesis by auto
  next
    case True
    let ?u = "cj_uuid (cm_jobs m j)"
    have k: "map_of (cm_jobs_by_uuid m) ?u = Some j" using Cons.prems(2) by simp
    obtain root where r: "ch_remove (cj_channel (cm_jobs m j)) j (cm_root m) = Inr root"
      "dict_pop ?u (cm_jobs_by_uuid m) = Inr (dict_del ?u (cm_jobs_by_uuid m))"
      "cm_inv (m\<lparr>cm_jobs_by_uuid := dict_del ?u (cm_jobs_by_uuid m), cm_root := root\<rparr>)"
      "tree_jobs root = tree_jobs (cm_root m) - {j}" "same_shape (cm_root m) root"
      by (rule drop_job_ok [OF Cons.prems(1) k])
    let ?m = "m\<lparr>cm_jobs_by_uuid := dict_del ?u (cm_jobs_by_uuid m), cm_root := root\<rparr>"
    have "\<forall>i\<in>set js. map_of (cm_jobs_by_uuid ?m) (cj_uuid (cm_jobs ?m i)) = Some i"
    proof
      fix i assume i: "i \<in> set js"
      then have "map_of (cm_jobs_by_uuid m) (cj_uuid (cm_jobs m i)) = Some i" using Cons.prems(2) by simp
      moreover have "i \<noteq> j" using i Cons.prems(3) by auto
      ultimately show "map_of (cm_jobs_by_uuid ?m) (cj_uuid (cm_jobs ?m i)) = Some i" using k by auto
    qed
    moreover have "distinct js" using Cons.prems(3) by simp
    ultimately obtain m' where m': "remove_db_jobs db js ?m = Inr m'" "cm_inv m'"
      "same_shape (cm_root ?m) (cm_root m')" "cm_jobs m' = cm_jobs ?m"
      "tree_jobs (cm_root m') = tree_jobs (cm_root ?m) - {j \<in> set js. cj_db_name (cm_jobs ?m j) = db}"
      using Cons.IH [OF r(3)] by blast
    have "remove_db_jobs db (j # js) m = Inr m'" using True r(1,2) m'(1) by simp
    moreover have "tree_jobs (cm_root m') = tree_jobs (cm_root m) - {i \<in> set (j # js). cj_db_name (cm_jobs m i) = db}"
      using m'(5) r(4) True by auto
    moreover have "same_shape (cm_root m) (cm_root m')"
      using r(5) m'(3) by (simp add: same_shape_def)
    ultimately show ?thesis using m'(2,4) by simp
  qed
qed

lemma remove_db_ok:
  assumes inv: "cm_inv m"
  shows "\<exists>m'. remove_db db m = Inr m' \<and> cm_inv m' \<and> same_shape (cm_root m) (cm_root m') \<and>
    cm_jobs m' = cm_jobs m \<and>
    tree_jobs (cm_root m') = tree_jobs (cm_root m) - {j. cj_db_name (cm_jobs m j) = db}"
proof -
  let ?js = "map snd (cm_jobs_by_uuid m)"
  have jo: "jobs_ok m" using inv by (simp add: cm_inv_def)
  then have d: "distinct (map fst (cm_jobs_by_uuid m))" by (simp add: jobs_ok_def)
  have u: "cj_uuid (cm_jobs m j) = u" if "(u, j) \<in> set (cm_jobs_by_uuid m)" for u j
    using jobs_okD [OF jo map_of_is_SomeI [OF d that]] by (simp add: known_job_def)
  have k: "\<forall>j\<in>set ?js. map_of (cm_jobs_by_uuid m) (cj_uuid (cm_jobs m j)) = Some j"
    using u d by (auto intro: map_of_is_SomeI)
  have "inj_on snd (set (cm_jobs_by_uuid m))"
    using u by (intro inj_onI) (metis prod.collapse)
  moreover have "distinct (cm_jobs_by_uuid m)" using d by (simp add: distinct_map)
  ultimately have dj: "distinct ?js" by (simp add: distinct_map)
  obtain m' where m': "remove_db_jobs db ?js m = Inr m'" "cm_inv m'" "same_shape (cm_root m) (cm_root m')"
    "cm_jobs m' = cm_jobs m"
    "tree_jobs (cm_root m') = tree_jobs (cm_root m) - {j \<in> set ?js. cj_db_name (cm_jobs m j) = db}"
    using remove_db_jobs_ok [OF inv k dj] by blast
  have "tree_jobs (cm_root m) \<subseteq> set ?js"
    using entered [OF inv] by (force dest: map_of_SomeD)
  then have "tree_jobs (cm_root m') = tree_jobs (cm_root m) - {j. cj_db_name (cm_jobs m j) = db}"
    unfolding m'(5) by blast
  with m' cm_inv_collect [OF m'(2)] show ?thesis
    by (simp add: remove_db_def cm_collect_def)
qed

section \<open>Notifications\<close>

lemma notified_new:
  fixes db :: string and seq date priority :: int
  assumes inv: "cm_inv m" and ex: "exists_at channel (cm_root m)" and eta: "eta \<noteq> Some 0"
    and new: "map_of (cm_jobs_by_uuid m) uuid = None"
  defines "m' \<equiv> m\<lparr>cm_jobs := (cm_jobs m)(cm_next m := cj_init db channel uuid seq date priority eta),
      cm_next := Suc (cm_next m), cm_jobs_by_uuid := dict_set uuid (cm_next m) (cm_jobs_by_uuid m)\<rparr>"
  shows "cm_inv m'"
proof -
  have jo: "jobs_ok m" and t: "tree_inv (cm_jobs m) [] (cm_root m)"
    and i: "index_ok (cm_root m) (cm_channels_by_name m)" using inv by (simp_all add: cm_inv_def)
  have idx: "cm_jobs_by_uuid m' = dict_set uuid (cm_next m) (cm_jobs_by_uuid m)" by (simp add: m'_def)
  have d: "distinct (map fst (cm_jobs_by_uuid m))" using jo by (simp add: jobs_ok_def)
  have fresh: "j \<noteq> cm_next m" if "ch_refers j (cm_root m)" for j
    using jo that by (auto simp: jobs_ok_def ch_refs_def)
  have r: "cm_root m' = cm_root m" "cm_channels_by_name m' = cm_channels_by_name m" by (simp_all add: m'_def)
  have "tree_inv (cm_jobs m') [] (cm_root m')"
    unfolding r by (rule tree_inv_store [OF t]) (auto simp: m'_def dest: fresh)
  moreover have "jobs_ok m'"
    unfolding jobs_ok_def r
  proof (intro conjI ballI)
    show "distinct (map fst (cm_jobs_by_uuid m'))"
      unfolding idx by (rule distinct_dict_set [OF d])
  next
    fix x assume "x \<in> set (cm_jobs_by_uuid m')"
    then have "x = (uuid, cm_next m) \<or> x \<in> set (cm_jobs_by_uuid m)"
      unfolding idx using dict_set_mem [OF _ d] by blast
    then show "case x of (u, j) \<Rightarrow> known_job m' u j"
    proof
      assume "x = (uuid, cm_next m)"
      then show ?thesis using ex eta by (simp add: known_job_def m'_def cj_init_def cj_eta_def)
    next
      assume x: "x \<in> set (cm_jobs_by_uuid m)"
      obtain u j where uj: "x = (u, j)" by fastforce
      with x jobs_okD [OF jo map_of_is_SomeI [OF d]] have "known_job m u j" by simp
      then show ?thesis by (simp add: uj known_job_def m'_def)
    qed
  next
    fix j assume j: "j \<in> tree_jobs (cm_root m)"
    then have "j \<noteq> cm_next m" using fresh tree_jobs_refs by (auto simp: ch_refs_def)
    moreover from this have "cj_uuid (cm_jobs m j) \<noteq> uuid" using entered [OF inv j] new by auto
    ultimately show "map_of (cm_jobs_by_uuid m') (cj_uuid (cm_jobs m' j)) = Some j"
      using entered [OF inv j] by (simp add: m'_def)
  next
    fix j assume "j \<in> ch_refs (cm_root m)"
    then show "j < cm_next m'" using jo by (auto simp: jobs_ok_def m'_def intro: less_SucI)
  qed
  ultimately show ?thesis using i r by (simp add: cm_inv_def)
qed

text \<open>A notification contradicts a known job when the database or the creation date differ.\<close>

definition contradicts :: "string \<Rightarrow> string \<Rightarrow> int \<Rightarrow> ChannelManager \<Rightarrow> bool" where
  "contradicts db uuid date m \<longleftrightarrow>
     (\<exists>j. cm_get_job uuid m = Some j \<and>
        (cj_db_name (cm_jobs m j) \<noteq> db \<or> sk_date_created (cj_key (cm_jobs m j)) \<noteq> date))"

lemma notified_job_ok:
  assumes inv: "cm_inv m" and ex: "exists_at channel (cm_root m)" and eta: "eta \<noteq> Some 0"
  shows "if contradicts db uuid date m
    then notified_job db channel uuid seq date priority eta m = Inl AssertionError
    else \<exists>j m'. notified_job db channel uuid seq date priority eta m = Inr (j, m') \<and> cm_inv m' \<and>
      map_of (cm_jobs_by_uuid m') uuid = Some j \<and>
      cm_jobs m' j = cj_init db channel uuid seq date priority eta \<and> same_shape (cm_root m) (cm_root m') \<and>
      tree_jobs (cm_root m') - {j} = tree_jobs (cm_root m) - {j. cj_uuid (cm_jobs m j) = uuid}"
proof (cases "cm_get_job uuid m")
  case None
  then have n: "map_of (cm_jobs_by_uuid m) uuid = None" by (simp add: cm_get_job_def)
  have "j \<noteq> cm_next m \<and> cj_uuid (cm_jobs m j) \<noteq> uuid" if j: "j \<in> tree_jobs (cm_root m)" for j
    using entered [OF inv j] n jobs_okD [of m _ j] inv by (fastforce simp: cm_inv_def known_job_def)
  then have "tree_jobs (cm_root m) - {cm_next m} = tree_jobs (cm_root m) - {j. cj_uuid (cm_jobs m j) = uuid}"
    by blast
  with None notified_new [OF inv ex eta n] show ?thesis
    by (simp add: notified_job_def contradicts_def Let_def)
next
  case (Some j)
  then have k: "map_of (cm_jobs_by_uuid m) uuid = Some j" by (simp add: cm_get_job_def)
  have jo: "jobs_ok m" using inv by (simp add: cm_inv_def)
  have uj: "cj_uuid (cm_jobs m j) = uuid" using jobs_okD [OF jo k] by (simp add: known_job_def)
  show ?thesis
  proof (cases "contradicts db uuid date m")
    case True
    with Some show ?thesis by (auto simp: notified_job_def contradicts_def Let_def)
  next
    case False
    with Some have db: "cj_db_name (cm_jobs m j) = db" "sk_date_created (cj_key (cm_jobs m j)) = date"
      by (auto simp: contradicts_def)
    have one: "i = j" if "i \<in> tree_jobs (cm_root m)" "cj_uuid (cm_jobs m i) = uuid" for i
      using entered [OF inv that(1)] that(2) k by simp
    show ?thesis
    proof (cases "seq \<noteq> sk_seq (cj_key (cm_jobs m j)) \<or> priority \<noteq> sk_priority (cj_key (cm_jobs m j)) \<or>
        eta \<noteq> sk_eta (cj_key (cm_jobs m j)) \<or> channel \<noteq> cj_channel (cm_jobs m j)")
      case same: False
      have "cm_jobs m j = cj_init db channel uuid seq date priority eta"
        using same db uj by (simp add: cj_init_def)
      moreover have "tree_jobs (cm_root m) - {j} = tree_jobs (cm_root m) - {i. cj_uuid (cm_jobs m i) = uuid}"
        using one uj by blast
      ultimately show ?thesis using False Some db same inv k
        by (simp add: notified_job_def Let_def)
    next
      case changed: True
      obtain m1 where m1: "remove_job0 uuid m = Inr m1" "cm_inv m1" "cm_jobs m1 = cm_jobs m"
        "cm_next m1 = cm_next m" "map_of (cm_jobs_by_uuid m1) uuid = None"
        "same_shape (cm_root m) (cm_root m1)"
        "tree_jobs (cm_root m1) = tree_jobs (cm_root m) - {j. cj_uuid (cm_jobs m j) = uuid}"
        using remove_job0_ok [OF inv] by blast
      have ex1: "exists_at channel (cm_root m1)" using ex exists_at_shape [OF m1(6)] by simp
      have "i \<noteq> cm_next m1" if i: "i \<in> tree_jobs (cm_root m1)" for i
        using m1(2) tree_jobs_refs [of "cm_root m1"] i by (auto simp: cm_inv_def jobs_ok_def)
      then have "tree_jobs (cm_root m1) - {cm_next m1} = tree_jobs (cm_root m) - {j. cj_uuid (cm_jobs m j) = uuid}"
        using m1(7) by blast
      with False Some db changed m1(1,6) notified_new [OF m1(2) ex1 eta m1(5)] show ?thesis
        by (simp add: notified_job_def Let_def)
    qed
  qed
qed

end
