(* ===== verification/ManagerRun.thy ===== *)
theory ManagerRun
  imports ManagerInv
begin

text \<open>
  The remaining operations of the manager: the state transition of a notification, the jobs to run,
  the wakeup time and the configuration. With them, the manager is an \<open>invariant_system\<close>: whatever
  sequence of events it handles, no operation raises, except the documented assertion and the errors
  of a malformed configuration.
\<close>

section \<open>State transitions\<close>

lemma cm_inv_root:
  assumes inv: "cm_inv m" and t: "tree_inv (cm_jobs m) [] root" and s: "same_shape (cm_root m) root"
    and tj: "tree_jobs root \<subseteq> insert j (tree_jobs (cm_root m))" and r: "ch_refs root \<subseteq> insert j (ch_refs (cm_root m))"
    and k: "map_of (cm_jobs_by_uuid m) (cj_uuid (cm_jobs m j)) = Some j"
  shows "cm_inv (m\<lparr>cm_root := root\<rparr>)"
proof -
  have "jobs_ok m" "index_ok (cm_root m) (cm_channels_by_name m)" using inv by (simp_all add: cm_inv_def)
  with jobs_ok_update [OF _ s tj r k] index_ok_shape [OF _ s t] t show ?thesis by (simp add: cm_inv_def)
qed

text \<open>The place the state of the database gives to the job in its own channel.\<close>

definition place_of_state :: "string option \<Rightarrow> place option" where
  "place_of_state state =
     (case state of
        None \<Rightarrow> Some Absent
      | Some s \<Rightarrow>
          if s \<in> {'''', ''done'', ''cancelled''} then Some Absent
          else if s = ''pending'' then Some Queued
          else if s \<in> {''enqueued'', ''started''} then Some Running
          else if s = ''failed'' then Some Failed
          else None)"

definition own_place :: "ChannelManager \<Rightarrow> jid \<Rightarrow> place" where
  "own_place m j =
     (case channel_at (cj_channel (cm_jobs m j)) (cm_root m) of
        None \<Rightarrow> Absent
      | Some c \<Rightarrow> place_in j (ch_data c))"

lemma place_in_node:
  assumes "node_inv js p ns d"
  shows "place_in j d = Queued \<longleftrightarrow> j \<in> queued (ch_queue d)" and "place_in j d = Failed \<longleftrightarrow> j \<in> ch_failed d"
  using assms by (auto simp: place_in_def cq_contains_ok queued_def node_inv_def)

lemma channel_at_node:
  "tree_inv js p c \<Longrightarrow> channel_at q c = Some (Channel d cs) \<Longrightarrow> node_inv js (p @ q) (map fst cs) d"
proof (induction q arbitrary: p c)
  case Nil
  then show ?case by (simp add: tree_inv_Channel)
next
  case (Cons n q)
  obtain d' cs' where c: "c = Channel d' cs'" by (cases c)
  with Cons.prems(2) obtain x where x: "map_of cs' n = Some x" "channel_at q x = Some (Channel d cs)"
    by (auto split: option.splits)
  have "tree_inv js (p @ [n]) x"
    using Cons.prems(1) map_of_SomeD [OF x(1)] by (auto simp: c tree_inv_Channel forest_inv_def)
  from Cons.IH [OF this x(2)] show ?case by simp
qed

lemma own_placeI:
  assumes "tree_inv (cm_jobs m) [] (cm_root m)"
    and "channel_at (cj_channel (cm_jobs m j)) (cm_root m) = Some e"
  shows "j \<in> queued (ch_queue (ch_data e)) \<Longrightarrow> own_place m j = Queued"
    and "j \<in> ch_running (ch_data e) \<Longrightarrow> own_place m j = Running"
    and "j \<in> ch_failed (ch_data e) \<Longrightarrow> own_place m j = Failed"
    and "j \<notin> node_jobs (ch_data e) \<Longrightarrow> own_place m j = Absent"
proof -
  obtain d cs where e: "e = Channel d cs" by (cases e)
  have n: "node_inv (cm_jobs m) ([] @ cj_channel (cm_jobs m j)) (map fst cs) d"
    by (rule channel_at_node [OF assms(1)]) (use assms(2) e in simp)
  have o: "own_place m j = place_in j d" using assms(2) by (simp add: own_place_def e)
  show "j \<in> queued (ch_queue (ch_data e)) \<Longrightarrow> own_place m j = Queued"
    "j \<in> ch_running (ch_data e) \<Longrightarrow> own_place m j = Running"
    "j \<in> ch_failed (ch_data e) \<Longrightarrow> own_place m j = Failed"
    "j \<notin> node_jobs (ch_data e) \<Longrightarrow> own_place m j = Absent"
    using place_in_node [OF n, of j] place_Running [of j d] place_Absent [of j d] by (simp_all add: o e)
qed

lemma state_transition_ok:
  assumes inv: "cm_inv m" and k: "map_of (cm_jobs_by_uuid m) u = Some j"
  shows "\<exists>root. state_transition state j m = Inr root \<and> cm_inv (m\<lparr>cm_root := root\<rparr>) \<and>
    same_shape (cm_root m) root \<and> tree_jobs root - {j} = tree_jobs (cm_root m) - {j} \<and>
    (case place_of_state state of
       None \<Rightarrow> root = cm_root m
     | Some x \<Rightarrow> own_place (m\<lparr>cm_root := root\<rparr>) j = x)"
proof -
  let ?js = "cm_jobs m"
  let ?p = "cj_channel (?js j)"
  have t: "tree_inv ?js [] (cm_root m)" and jo: "jobs_ok m" using inv by (simp_all add: cm_inv_def)
  have kj: "cj_uuid (?js j) = u" "exists_at ?p (cm_root m)" "cj_eta (?js j) \<noteq> Some 0"
    using jobs_okD [OF jo k] by (simp_all add: known_job_def)
  have ex: "channel_at ?p (cm_root m) \<noteq> None" using kj(2) by (simp add: exists_at_def)
  have kk: "map_of (cm_jobs_by_uuid m) (cj_uuid (?js j)) = Some j" using k kj(1) by simp
  have fin: "cm_inv (m\<lparr>cm_root := root\<rparr>)"
    if "tree_inv ?js [] root" "tree_jobs root - {j} = tree_jobs (cm_root m) - {j}"
      "same_shape (cm_root m) root" "ch_refs root \<subseteq> insert j (ch_refs (cm_root m))" for root
    using that by (intro cm_inv_root [OF inv _ _ _ _ kk]) auto
  have dn: "\<exists>root. ch_set_done ?p j (cm_root m) = Inr root \<and> cm_inv (m\<lparr>cm_root := root\<rparr>) \<and>
      same_shape (cm_root m) root \<and> tree_jobs root - {j} = tree_jobs (cm_root m) - {j} \<and>
      own_place (m\<lparr>cm_root := root\<rparr>) j = Absent"
  proof -
    obtain root up e where r: "on_path (ch_remove1 j) (ch_remove1 j) ?p (cm_root m) = Inr (root, up)"
      "tree_inv ?js [] root" "tree_jobs root - {j} = tree_jobs (cm_root m) - {j}"
      "same_shape (cm_root m) root" "channel_at ?p root = Some e" "j \<notin> node_jobs (ch_data e)"
      by (rule remove.transition_ok [OF TrueI t ex])
    have eq: "ch_remove ?p j (cm_root m) = Inr root" using r(1) by (simp add: ch_remove_def)
    have "own_place (m\<lparr>cm_root := root\<rparr>) j = Absent" by (rule own_placeI(4)) (use r in auto)
    with fin [OF r(2,3,4)] ch_remove_refs [OF eq] r(3,4) eq show ?thesis by (auto simp: ch_set_done_def)
  qed
  have pe: "\<exists>root. ch_set_pending ?js ?p j (cm_root m) = Inr root \<and> cm_inv (m\<lparr>cm_root := root\<rparr>) \<and>
      same_shape (cm_root m) root \<and> tree_jobs root - {j} = tree_jobs (cm_root m) - {j} \<and>
      own_place (m\<lparr>cm_root := root\<rparr>) j = Queued"
  proof -
    obtain root up e where r: "on_path (ch_set_pending1 ?js j) (ch_remove1 j) ?p (cm_root m) = Inr (root, up)"
      "tree_inv ?js [] root" "tree_jobs root - {j} = tree_jobs (cm_root m) - {j}"
      "same_shape (cm_root m) root" "channel_at ?p root = Some e" "j \<in> queued (ch_queue (ch_data e))"
      by (rule set_pending.transition_ok [OF kj(3) t ex])
    have eq: "ch_set_pending ?js ?p j (cm_root m) = Inr root" using r(1) by (simp add: ch_set_pending_def)
    have "own_place (m\<lparr>cm_root := root\<rparr>) j = Queued" by (rule own_placeI(1)) (use r in auto)
    with fin [OF r(2,3,4)] ch_set_refs(1) [OF eq] r(3,4) eq show ?thesis by auto
  qed
  have ru: "\<exists>root. ch_set_running ?p j (cm_root m) = Inr root \<and> cm_inv (m\<lparr>cm_root := root\<rparr>) \<and>
      same_shape (cm_root m) root \<and> tree_jobs root - {j} = tree_jobs (cm_root m) - {j} \<and>
      own_place (m\<lparr>cm_root := root\<rparr>) j = Running"
  proof -
    obtain root up e where r: "on_path (ch_set_running1 j) (ch_set_running1 j) ?p (cm_root m) = Inr (root, up)"
      "tree_inv ?js [] root" "tree_jobs root - {j} = tree_jobs (cm_root m) - {j}"
      "same_shape (cm_root m) root" "channel_at ?p root = Some e" "j \<in> ch_running (ch_data e)"
      by (rule set_running.transition_ok [OF TrueI t ex])
    have eq: "ch_set_running ?p j (cm_root m) = Inr root" using r(1) by (simp add: ch_set_running_def)
    have "own_place (m\<lparr>cm_root := root\<rparr>) j = Running" by (rule own_placeI(2)) (use r in auto)
    with fin [OF r(2,3,4)] ch_set_refs(2) [OF eq] r(3,4) eq show ?thesis by auto
  qed
  have fa: "\<exists>root. ch_set_failed ?p j (cm_root m) = Inr root \<and> cm_inv (m\<lparr>cm_root := root\<rparr>) \<and>
      same_shape (cm_root m) root \<and> tree_jobs root - {j} = tree_jobs (cm_root m) - {j} \<and>
      own_place (m\<lparr>cm_root := root\<rparr>) j = Failed"
  proof -
    obtain root up e where r: "on_path (ch_set_failed1 j) (ch_remove1 j) ?p (cm_root m) = Inr (root, up)"
      "tree_inv ?js [] root" "tree_jobs root - {j} = tree_jobs (cm_root m) - {j}"
      "same_shape (cm_root m) root" "channel_at ?p root = Some e" "j \<in> ch_failed (ch_data e)"
      by (rule set_failed.transition_ok [OF TrueI t ex])
    have eq: "ch_set_failed ?p j (cm_root m) = Inr root" using r(1) by (simp add: ch_set_failed_def)
    have "own_place (m\<lparr>cm_root := root\<rparr>) j = Failed" by (rule own_placeI(3)) (use r in auto)
    with fin [OF r(2,3,4)] ch_set_refs(3) [OF eq] r(3,4) eq show ?thesis by auto
  qed
  consider (d) "state = None \<or> state \<in> Some ` {'''', ''done'', ''cancelled''}" | (p) "state = Some ''pending''"
    | (r) "state \<in> Some ` {''enqueued'', ''started''}" | (f) "state = Some ''failed''"
    | (u) s where "state = Some s" "s \<notin> {'''', ''done'', ''cancelled'', ''pending'', ''enqueued'', ''started'', ''failed''}"
    by (cases state) auto
  then show ?thesis
  proof cases
    case d
    then have "state_transition state j m = ch_set_done ?p j (cm_root m)" "place_of_state state = Some Absent"
      by (auto simp: state_transition_def place_of_state_def Let_def)
    with dn show ?thesis by simp
  next
    case p
    then have "state_transition state j m = ch_set_pending ?js ?p j (cm_root m)" "place_of_state state = Some Queued"
      by (auto simp: state_transition_def place_of_state_def Let_def)
    with pe show ?thesis by simp
  next
    case r
    then have "state_transition state j m = ch_set_running ?p j (cm_root m)" "place_of_state state = Some Running"
      by (auto simp: state_transition_def place_of_state_def Let_def)
    with ru show ?thesis by simp
  next
    case f
    then have "state_transition state j m = ch_set_failed ?p j (cm_root m)" "place_of_state state = Some Failed"
      by (auto simp: state_transition_def place_of_state_def Let_def)
    with fa show ?thesis by simp
  next
    case u
    then have "state_transition state j m = Inr (cm_root m)" "place_of_state state = None"
      by (auto simp: state_transition_def place_of_state_def Let_def)
    with inv show ?thesis by simp
  qed
qed

lemma tree_jobs_own:
  assumes "tree_inv (cm_jobs m) [] (cm_root m)" and "j \<in> tree_jobs (cm_root m)"
    and "exists_at (cj_channel (cm_jobs m j)) (cm_root m)"
  shows "own_place m j \<noteq> Absent"
proof -
  obtain e where e: "channel_at (cj_channel (cm_jobs m j)) (cm_root m) = Some e"
    using assms(3) by (auto simp: exists_at_def)
  have "j \<in> node_jobs (ch_data e)"
    using tree_absent [OF assms(1) _ e] assms(2) by auto
  then show ?thesis using place_Absent [of j "ch_data e"] by (simp add: own_place_def e)
qed

lemma notify_ok:
  assumes inv: "cm_inv m" and eta: "eta \<noteq> Some 0"
  shows "\<exists>p m1. get_channel_by_name name False True m = Inr (p, m1) \<and>
    (if contradicts db uuid date m
     then notify db name uuid seq date priority eta state m = Inl AssertionError
     else \<exists>j m'. notify db name uuid seq date priority eta state m = Inr m' \<and> cm_inv m' \<and>
       cm_jobs m' j = cj_init db p uuid seq date priority eta \<and>
       (\<forall>x. place_of_state state = Some x \<longrightarrow> own_place m' j = x) \<and>
       tree_jobs (cm_root m') - {j} = tree_jobs (cm_root m) - {j. cj_uuid (cm_jobs m j) = uuid} \<and>
       (\<forall>q. exists_at q (cm_root m) \<longrightarrow> exists_at q (cm_root m')))"
proof -
  obtain p m1 where m1: "get_channel_by_name name False True m = Inr (p, m1)" "cm_inv m1"
    "exists_at p (cm_root m1)" "cm_jobs m1 = cm_jobs m" "cm_jobs_by_uuid m1 = cm_jobs_by_uuid m"
    "tree_jobs (cm_root m1) = tree_jobs (cm_root m)"
    "\<forall>q. exists_at q (cm_root m) \<longrightarrow> exists_at q (cm_root m1)"
    using get_channel_ok [OF inv, of False True name] by blast
  have c1: "contradicts db uuid date m1 = contradicts db uuid date m"
    by (simp add: contradicts_def cm_get_job_def m1(4,5))
  note nj = notified_job_ok [OF m1(2,3) eta, of db uuid date seq priority]
  show ?thesis
  proof (cases "contradicts db uuid date m")
    case True
    with nj c1 have "notified_job db p uuid seq date priority eta m1 = Inl AssertionError" by simp
    then have "notify db name uuid seq date priority eta state m = Inl AssertionError"
      by (simp add: notify_def m1(1))
    with True m1(1) show ?thesis by simp
  next
    case False
    with nj c1 obtain j m2 where m2: "notified_job db p uuid seq date priority eta m1 = Inr (j, m2)" "cm_inv m2"
      "map_of (cm_jobs_by_uuid m2) uuid = Some j" "cm_jobs m2 j = cj_init db p uuid seq date priority eta"
      "same_shape (cm_root m1) (cm_root m2)"
      "tree_jobs (cm_root m2) - {j} = tree_jobs (cm_root m1) - {j. cj_uuid (cm_jobs m1 j) = uuid}"
      by auto
    obtain root where r: "state_transition state j m2 = Inr root" "cm_inv (m2\<lparr>cm_root := root\<rparr>)"
      "same_shape (cm_root m2) root" "tree_jobs root - {j} = tree_jobs (cm_root m2) - {j}"
      "case place_of_state state of None \<Rightarrow> root = cm_root m2 | Some x \<Rightarrow> own_place (m2\<lparr>cm_root := root\<rparr>) j = x"
      using state_transition_ok [OF m2(2,3), of state] by blast
    let ?m = "cm_collect (m2\<lparr>cm_root := root\<rparr>)"
    have "notify db name uuid seq date priority eta state m = Inr ?m"
      by (simp add: notify_def m1(1) m2(1) r(1))
    moreover have "cm_inv ?m" by (rule cm_inv_collect [OF r(2)])
    moreover have "own_place ?m j = own_place (m2\<lparr>cm_root := root\<rparr>) j"
      by (simp add: own_place_def cm_collect_def)
    moreover have "\<forall>x. place_of_state state = Some x \<longrightarrow> own_place (m2\<lparr>cm_root := root\<rparr>) j = x"
      using r(5) by auto
    moreover have "tree_jobs (cm_root ?m) - {j} = tree_jobs (cm_root m) - {j. cj_uuid (cm_jobs m j) = uuid}"
      using r(4) m2(6) m1(4,6) by (simp add: cm_collect_def)
    moreover have "\<forall>q. exists_at q (cm_root m) \<longrightarrow> exists_at q (cm_root ?m)"
      using m1(7) exists_at_shape [OF m2(5)] exists_at_shape [OF r(3)] by (simp add: cm_collect_def)
    moreover have "cm_jobs ?m j = cj_init db p uuid seq date priority eta"
      using m2(4) by (simp add: cm_collect_def)
    ultimately have "\<exists>j m'. notify db name uuid seq date priority eta state m = Inr m' \<and> cm_inv m' \<and>
       cm_jobs m' j = cj_init db p uuid seq date priority eta \<and>
       (\<forall>x. place_of_state state = Some x \<longrightarrow> own_place m' j = x) \<and>
       tree_jobs (cm_root m') - {j} = tree_jobs (cm_root m) - {j. cj_uuid (cm_jobs m j) = uuid} \<and>
       (\<forall>q. exists_at q (cm_root m) \<longrightarrow> exists_at q (cm_root m'))"
      by (intro exI [of _ j] exI [of _ ?m]) simp
    with False m1(1) show ?thesis by simp
  qed
qed

section \<open>The jobs to run\<close>

lemma cj_clear_uuid: "cj_uuid (clear_etas D js j) = cj_uuid (js j)"
  by simp

lemma cm_get_jobs_ok:
  assumes inv: "cm_inv m"
  shows "\<exists>ys m'. cm_get_jobs_to_run now m = Inr (ys, m') \<and> cm_inv m' \<and>
    same_shape (cm_root m) (cm_root m') \<and> tree_jobs (cm_root m') = tree_jobs (cm_root m) \<and>
    (within_capacity (cm_root m) \<longrightarrow> within_capacity (cm_root m')) \<and>
    distinct ys \<and> sorted (map (\<lambda>j. sorting_key_ignoring_eta (cm_jobs m j)) ys) \<and>
    ch_running (ch_data (cm_root m')) = ch_running (ch_data (cm_root m)) \<union> set ys \<and>
    set ys \<inter> ch_running (ch_data (cm_root m)) = {} \<and> (\<forall>j\<in>set ys. runnable now (cm_jobs m) j)"
proof -
  have t: "tree_inv (cm_jobs m) [] (cm_root m)" and i: "index_ok (cm_root m) (cm_channels_by_name m)"
    and jo: "jobs_ok m" using inv by (simp_all add: cm_inv_def)
  obtain ys js root D where g: "ch_get_jobs_to_run collect now [] (cm_jobs m) (cm_root m) = Inr (ys, js, root)"
    "js = clear_etas D (cm_jobs m)" "tree_inv js [] root" "tree_jobs root = tree_jobs (cm_root m)"
    "within_capacity (cm_root m) \<longrightarrow> within_capacity root" "same_shape (cm_root m) root"
    "distinct ys" "sorted (map (\<lambda>j. sorting_key_ignoring_eta (cm_jobs m j)) ys)"
    "ch_running (ch_data root) = ch_running (ch_data (cm_root m)) \<union> set ys"
    "set ys \<inter> ch_running (ch_data (cm_root m)) = {}" "\<forall>j\<in>set ys. runnable now (cm_jobs m) j"
    using get_jobs_ok [OF t, of now] by blast
  let ?m = "m\<lparr>cm_jobs := js, cm_root := root\<rparr>"
  have eta: "cj_eta (js j) \<noteq> Some 0" if "cj_eta (cm_jobs m j) \<noteq> Some 0" for j
    using that by (simp add: g(2) cj_eta_clear_etas)
  have same: "cj_uuid (js j) = cj_uuid (cm_jobs m j)" "cj_channel (js j) = cj_channel (cm_jobs m j)" for j
    by (simp_all add: g(2))
  have known: "known_job ?m u j" if "known_job m u j" for u j
    using that eta exists_at_shape [OF g(6)] by (simp add: known_job_def same)
  have "jobs_ok ?m"
    unfolding jobs_ok_def
  proof (intro conjI ballI)
    show "distinct (map fst (cm_jobs_by_uuid ?m))" using jo by (simp add: jobs_ok_def)
  next
    fix x assume x: "x \<in> set (cm_jobs_by_uuid ?m)"
    obtain u j where uj: "x = (u, j)" by fastforce
    with x jo have "known_job m u j" by (auto simp: jobs_ok_def)
    then show "case x of (u, j) \<Rightarrow> known_job ?m u j" using known by (simp add: uj)
  next
    fix j assume "j \<in> tree_jobs (cm_root ?m)"
    then show "map_of (cm_jobs_by_uuid ?m) (cj_uuid (cm_jobs ?m j)) = Some j"
      using entered [OF inv, of j] g(4) by (simp add: same)
  next
    fix j assume "j \<in> ch_refs (cm_root ?m)"
    then have "j \<in> ch_refs (cm_root m)" using ch_get_jobs_refs [OF g(1)] by auto
    then show "j < cm_next ?m" using jo by (simp add: jobs_ok_def)
  qed
  then have "cm_inv ?m" using g(3) index_ok_shape [OF i g(6,3)] by (simp add: cm_inv_def)
  from cm_inv_collect [OF this] show ?thesis
    using g by (intro exI [of _ ys] exI [of _ "cm_collect ?m"]) (simp add: cm_get_jobs_to_run_def cm_collect_def)
qed

end
