(* ===== verification/ManagerWakeup.thy ===== *)
theory ManagerWakeup
  imports ManagerRun
begin

text \<open>
  The wakeup time of the channels is the soonest of the times at which one of them could hand over a
  job without a notification: the end of a pause, or the eta of a job, in a channel that has
  capacity below channels that have capacity and are not paused.
\<close>

definition job_times :: "jobs \<Rightarrow> jid set \<Rightarrow> int set" where
  "job_times js J = (\<lambda>j. case cj_eta (js j) of None \<Rightarrow> 0 | Some e \<Rightarrow> e) ` J"

fun wake_times :: "jobs \<Rightarrow> Channel \<Rightarrow> int set" where
  "wake_times js (Channel d cs) =
     (if \<not> has_capacity d then {}
      else if ch_pause_until d \<noteq> 0 then {ch_pause_until d}
      else job_times js (cq_later (ch_queue d)) \<union> \<Union> (set (map (\<lambda>(n, c). wake_times js c) cs)))"

definition soonest :: "int \<Rightarrow> int set \<Rightarrow> int" where
  "soonest w S = (if S = {} then w else if w = 0 then Min S else min w (Min S))"

lemma soonest_empty [simp]: "soonest w {} = w"
  by (simp add: soonest_def)

lemma soonest_union:
  assumes "finite S" and "finite T" and "0 \<notin> S"
  shows "soonest (soonest w S) T = soonest w (S \<union> T)"
proof (cases "S = {} \<or> T = {}")
  case False
  then have ne: "S \<noteq> {}" "T \<noteq> {}" by auto
  have m: "Min (S \<union> T) = min (Min S) (Min T)" using assms ne by (simp add: Min_Un)
  have "Min S \<noteq> 0" using Min_in [OF assms(1) ne(1)] assms(3) by auto
  then show ?thesis using ne by (auto simp: soonest_def m min_def)
qed (auto simp: soonest_def)

lemma cq_wakeup_ok:
  assumes inv: "cq_inv js q"
  shows "\<exists>q'. cq_get_wakeup_time js w q = Inr (soonest w (job_times js (cq_later q)), q') \<and> cq_inv js q' \<and>
    cq_sequential q' = cq_sequential q \<and> cq_now q' = cq_now q \<and> cq_later q' = cq_later q \<and>
    cq_etas q' \<subseteq> cq_etas q"
proof -
  from inv have ei: "eq_inv js (cq_eta_queue q)" by (simp add: cq_inv_def)
  have truth: "pq_truth (cq_eta_queue q) = Inr (cq_later q \<noteq> {})"
    using pq_truth_ok [OF ei] by (simp add: cq_later_def)
  show ?thesis
  proof (cases "cq_later q = {}")
    case True
    with truth inv show ?thesis by (simp add: cq_get_wakeup_time_def job_times_def)
  next
    case False
    then obtain t eq where t: "pq_getitem0 (job_lt js) (cq_eta_queue q) = Inr (t, eq)" "eq_inv js eq"
      "pq_abs eq = cq_later q" "t \<in> cq_later q" "\<forall>y\<in>cq_later q. job_key js t \<le> job_key js y"
      using pq.peek_nonempty [OF ei] by (auto simp: cq_later_def)
    have later: "cq_later q \<subseteq> with_eta js" by (rule cq_later_with_eta [OF inv])
    have eta: "\<exists>e. cj_eta (js y) = Some e" if "y \<in> cq_later q" for y
      using that later by (auto simp: with_eta_def eta_set_def split: option.splits)
    obtain e where e: "cj_eta (js t) = Some e" using eta [OF t(4)] by blast
    have fin: "finite (cq_later q)"
      using pq.elems_finite [OF ei] by (simp add: cq_later_def)
    have "Min (job_times js (cq_later q)) = e"
    proof (rule Min_eqI)
      show "finite (job_times js (cq_later q))" using fin by (simp add: job_times_def)
      show "e \<in> job_times js (cq_later q)" using t(4) e by (force simp: job_times_def)
      fix y assume "y \<in> job_times js (cq_later q)"
      then obtain z where z: "z \<in> cq_later q" "y = (case cj_eta (js z) of None \<Rightarrow> 0 | Some e \<Rightarrow> e)"
        by (auto simp: job_times_def)
      obtain b where b: "cj_eta (js z) = Some b" using eta [OF z(1)] by blast
      show "e \<le> y" using job_key_le_eta [OF _ e b] t(5) z b by simp
    qed
    moreover have "job_times js (cq_later q) \<noteq> {}" using False by (simp add: job_times_def)
    ultimately have s: "soonest w (job_times js (cq_later q)) = (if w = 0 then e else min w e)"
      by (simp add: soonest_def)
    have "cq_get_wakeup_time js w q = Inr (if w = 0 then e else min w e, q\<lparr>cq_eta_queue := eq\<rparr>)"
      using truth False t(1) e by (simp add: cq_get_wakeup_time_def pq_getitem_def)
    with s inv t(2,3) pq_getitem0_length [OF t(1)] show ?thesis
      by (intro exI [of _ "q\<lparr>cq_eta_queue := eq\<rparr>"])
         (simp add: cq_inv_def cq_now_def cq_etas_def cq_later_def)
  qed
qed

text \<open>Looking changes nothing but the jobs already removed.\<close>

definition looked :: "jobs \<Rightarrow> chan_path \<Rightarrow> Channel \<Rightarrow> Channel \<Rightarrow> bool" where
  "looked js p c c' \<longleftrightarrow> tree_inv js p c' \<and> ch_running (ch_data c') = ch_running (ch_data c) \<and>
     tree_jobs c' = tree_jobs c \<and> same_shape c c'"

lemma looked_refl: "tree_inv js p c \<Longrightarrow> looked js p c c"
  by (simp add: looked_def)

lemma wake_times_ok:
  "tree_inv js p c \<Longrightarrow> finite (wake_times js c) \<and> 0 \<notin> wake_times js c"
proof (induction js p c rule: tree_inv.induct)
  case (1 js p d cs)
  have inv: "cq_inv js (ch_queue d)" using "1.prems" by (simp add: tree_inv_Channel node_inv_def)
  have "finite (cq_later (ch_queue d))"
    using inv pq.elems_finite [of "job_lt js" "job_key js" "with_eta js" "cq_eta_queue (ch_queue d)"]
    by (simp add: cq_inv_def cq_later_def)
  moreover have "0 \<notin> job_times js (cq_later (ch_queue d))"
    using cq_later_with_eta [OF inv]
    by (auto simp: job_times_def with_eta_def eta_set_def split: option.splits)
  moreover have "finite (wake_times js c) \<and> 0 \<notin> wake_times js c" if "(n, c) \<in> set cs" for n c
    using "1.IH" [OF that refl] "1.prems" that by (auto simp: tree_inv_Channel forest_inv_def)
  ultimately show ?case by (auto simp: job_times_def)
qed

definition forest_times :: "jobs \<Rightarrow> (string \<times> Channel) list \<Rightarrow> int set" where
  "forest_times js cs = (\<Union>(n, c)\<in>set cs. wake_times js c)"

definition forest_looked :: "jobs \<Rightarrow> chan_path \<Rightarrow> (string \<times> Channel) list \<Rightarrow> (string \<times> Channel) list \<Rightarrow> bool" where
  "forest_looked js p cs cs' \<longleftrightarrow> list_all2 (\<lambda>(n, c) (n', c'). n' = n \<and> looked js (p @ [n]) c c') cs cs'"

lemma forest_looked_node:
  assumes "forest_looked js p cs cs'" and "forest_inv js p cs" and "linked js p J cs"
  shows "forest_inv js p cs'" and "linked js p J cs'" and "map fst cs' = map fst cs"
    and "forest_jobs cs' = forest_jobs cs" and "rel_option same_shape (map_of cs n) (map_of cs' n)"
proof -
  from assms(1) have "map fst cs' = map fst cs \<and> (\<forall>(n, c')\<in>set cs'. tree_inv js (p @ [n]) c') \<and>
      (linked js p J cs \<longrightarrow> linked js p J cs') \<and> forest_jobs cs' = forest_jobs cs \<and>
      rel_option same_shape (map_of cs n) (map_of cs' n)"
    unfolding forest_looked_def
  proof (induction cs cs' rule: list_all2_induct)
    case Nil
    then show ?case by (simp add: linked_def)
  next
    case (Cons x xs y ys)
    then show ?case
      by (cases x; cases y) (auto simp: looked_def linked_def forest_jobs_def)
  qed
  with assms(2,3) show "forest_inv js p cs'" "linked js p J cs'" "map fst cs' = map fst cs"
    "forest_jobs cs' = forest_jobs cs" "rel_option same_shape (map_of cs n) (map_of cs' n)"
    by (auto simp: forest_inv_def)
qed

lemma wakeup_ok:
  "tree_inv js p c \<Longrightarrow> \<exists>c'. ch_get_wakeup_time js w c = Inr (soonest w (wake_times js c), c') \<and> looked js p c c'"
  "\<forall>(n, c)\<in>set cs. tree_inv js (p @ [n]) c \<Longrightarrow>
    \<exists>cs'. children_wakeup_time js w cs = Inr (soonest w (forest_times js cs), cs') \<and> forest_looked js p cs cs'"
proof (induction js w c and js w cs arbitrary: p and p
    rule: ch_get_wakeup_time_children_wakeup_time.induct)
  case (1 js w d cs)
  note t = "1.prems" [unfolded tree_inv_Channel]
  consider "\<not> has_capacity d" | "has_capacity d" "ch_pause_until d \<noteq> 0" | "has_capacity d" "ch_pause_until d = 0"
    by blast
  then show ?case
  proof cases
    case 1
    with looked_refl [OF "1.prems"] show ?thesis by simp
  next
    case 2
    with looked_refl [OF "1.prems"] show ?thesis by (simp add: soonest_def)
  next
    case 3
    have inv: "cq_inv js (ch_queue d)" using t by (simp add: node_inv_def)
    let ?e = "job_times js (cq_later (ch_queue d))"
    obtain q where q: "cq_get_wakeup_time js w (ch_queue d) = Inr (soonest w ?e, q)" "cq_inv js q"
      "cq_sequential q = cq_sequential (ch_queue d)" "cq_now q = cq_now (ch_queue d)"
      "cq_later q = cq_later (ch_queue d)" "cq_etas q \<subseteq> cq_etas (ch_queue d)"
      using cq_wakeup_ok [OF inv] by blast
    have "\<forall>(n, c)\<in>set cs. tree_inv js (p @ [n]) c" using t by (simp add: forest_inv_def)
    from "1.IH" [OF _ _ q(1) refl this] 3 obtain cs' where
      cs': "children_wakeup_time js (soonest w ?e) cs = Inr (soonest (soonest w ?e) (forest_times js cs), cs')"
      "forest_looked js p cs cs'" by auto
    have fe: "finite ?e" "0 \<notin> ?e" using wake_times_ok [OF "1.prems"] 3 by auto
    have fc: "finite (forest_times js cs)"
      using wake_times_ok [OF "1.prems"] 3 by (auto simp: forest_times_def)
    have "wake_times js (Channel d cs) = ?e \<union> forest_times js cs"
      using 3 by (auto simp: forest_times_def)
    with soonest_union [OF fe(1) fc fe(2), of w] q(1) cs'(1) 3
    have eq: "ch_get_wakeup_time js w (Channel d cs) =
        Inr (soonest w (wake_times js (Channel d cs)), Channel (d\<lparr>ch_queue := q\<rparr>) cs')"
      by simp
    note f = forest_looked_node [OF cs'(2)]
    let ?d = "d\<lparr>ch_queue := q\<rparr>"
    have qs: "queued q = queued (ch_queue d)" "node_jobs ?d = node_jobs d"
      using q(4,5) by (simp_all add: queued_def node_jobs_def)
    have li: "linked js p (cq_now (ch_queue d) \<union> ch_running d) cs" and fi: "forest_inv js p cs"
      and ni: "node_inv js p (map fst cs) d" using t by simp_all
    have "node_inv js p (map fst cs) ?d"
      using ni q(2,6) qs(1) unfolding node_inv_def qs(2) by auto
    then have "tree_inv js p (Channel ?d cs')"
      using f(1,2,3) [OF fi li] q(4) by (simp add: tree_inv_Channel)
    moreover have "same_shape (Channel d cs) (Channel ?d cs')"
      by (rule same_shape_node) (use f(3,5) [OF fi li] q(3) in \<open>simp_all add: ch_sequential_def\<close>)
    ultimately have "looked js p (Channel d cs) (Channel ?d cs')"
      using f(4) [OF fi li] qs(2) by (simp add: looked_def tree_jobs_Channel)
    with eq show ?thesis by blast
  qed
next
  case (2 js w)
  then show ?case by (simp add: forest_times_def forest_looked_def)
next
  case (3 js w n c rest)
  have t: "tree_inv js (p @ [n]) c" "\<forall>(n, c)\<in>set rest. tree_inv js (p @ [n]) c" using "3.prems" by auto
  obtain c' where c': "ch_get_wakeup_time js w c = Inr (soonest w (wake_times js c), c')"
    "looked js (p @ [n]) c c'" using "3.IH"(1) [OF t(1)] by blast
  obtain rest' where r: "children_wakeup_time js (soonest w (wake_times js c)) rest
      = Inr (soonest (soonest w (wake_times js c)) (forest_times js rest), rest')"
    "forest_looked js p rest rest'" using "3.IH"(2) [OF c'(1) refl t(2)] by blast
  have f: "finite (wake_times js c)" "0 \<notin> wake_times js c" using wake_times_ok [OF t(1)] by auto
  have "finite (forest_times js rest)" using t(2) wake_times_ok by (fastforce simp: forest_times_def)
  from soonest_union [OF f(1) this f(2), of w]
  have "soonest (soonest w (wake_times js c)) (forest_times js rest) = soonest w (forest_times js ((n, c) # rest))"
    by (simp add: forest_times_def)
  with c' r show ?case by (simp add: forest_looked_def)
qed

lemma cm_wakeup_ok:
  assumes inv: "cm_inv m"
  shows "\<exists>m'. cm_get_wakeup_time m = Inr (soonest 0 (wake_times (cm_jobs m) (cm_root m)), m') \<and> cm_inv m' \<and>
    same_shape (cm_root m) (cm_root m') \<and> tree_jobs (cm_root m') = tree_jobs (cm_root m) \<and> cm_jobs m' = cm_jobs m"
proof -
  have t: "tree_inv (cm_jobs m) [] (cm_root m)" and i: "index_ok (cm_root m) (cm_channels_by_name m)"
    and jo: "jobs_ok m" using inv by (simp_all add: cm_inv_def)
  obtain root where r: "ch_get_wakeup_time (cm_jobs m) 0 (cm_root m)
      = Inr (soonest 0 (wake_times (cm_jobs m) (cm_root m)), root)" "looked (cm_jobs m) [] (cm_root m) root"
    using wakeup_ok(1) [OF t] by blast
  from r(2) have l: "tree_inv (cm_jobs m) [] root" "same_shape (cm_root m) root"
    "tree_jobs root = tree_jobs (cm_root m)" by (simp_all add: looked_def)
  have "jobs_ok (m\<lparr>cm_root := root\<rparr>)"
    using jo l(3) exists_at_shape [OF l(2)] ch_get_wakeup_time_refs(1) [OF r(1)]
    unfolding jobs_ok_def known_job_def by auto
  then have "cm_inv (m\<lparr>cm_root := root\<rparr>)" using l index_ok_shape [OF i l(2,1)] by (simp add: cm_inv_def)
  from cm_inv_collect [OF this] r(1) l show ?thesis
    by (intro exI [of _ "cm_collect (m\<lparr>cm_root := root\<rparr>)"]) (simp add: cm_get_wakeup_time_def cm_collect_def)
qed

end
