(* ===== verification/ManagerSystem.thy ===== *)
theory ManagerSystem
  imports ManagerWakeup
begin

text \<open>
  The configuration of the channels, and the manager as a transition system: the events are the
  calls the runner makes, and the invariant holds in every state the manager can reach from a new
  one, whatever the sequence of these calls.
\<close>

section \<open>Configuration\<close>

text \<open>The configuration of a channel touches neither its queue nor its jobs.\<close>

lemma node_refs_sequential: "node_refs (ch_set_sequential b d) = node_refs d"
  by (simp add: node_refs_def ch_set_sequential_def)

lemma cq_sequential_parts [simp]:
  "cq_now (q\<lparr>cq_sequential := b\<rparr>) = cq_now q" "cq_later (q\<lparr>cq_sequential := b\<rparr>) = cq_later q"
  "cq_etas (q\<lparr>cq_sequential := b\<rparr>) = cq_etas q" "cq_inv js (q\<lparr>cq_sequential := b\<rparr>) = cq_inv js q"
  by (simp_all add: cq_now_def cq_later_def cq_etas_def cq_inv_def)

lemma ch_configure_alike:
  assumes "ch_configure fullname config d = Inr d'"
  shows "alike js (Channel d cs) (Channel d' cs)" and "ch_name d' = ch_name d"
proof -
  from assms obtain cap b th where d': "d' = ch_set_sequential b (d\<lparr>ch_capacity := cap, ch_throttle := th\<rparr>)"
    by (auto simp: ch_configure_def rbind_eq_Inr Let_def split: option.splits cfg_val.splits if_splits)
  let ?q = "(ch_queue d)\<lparr>cq_sequential := b\<rparr>"
  have q: "ch_queue d' = ?q" "ch_running d' = ch_running d" "ch_failed d' = ch_failed d" "ch_name d' = ch_name d"
    by (simp_all add: d' ch_set_sequential_def)
  have nj: "node_jobs d' = node_jobs d" by (simp add: node_jobs_def queued_def q)
  have nr: "node_refs d' = node_refs d" by (simp add: node_refs_def q)
  have "node_inv js p ns d' = node_inv js p ns d" for p ns
    unfolding node_inv_def nj q by (simp add: queued_def)
  then have "tree_inv js p (Channel d' cs) = tree_inv js p (Channel d cs)" for p
    by (simp add: tree_inv_Channel q)
  then show "alike js (Channel d cs) (Channel d' cs)"
    by (simp add: alike_def q tree_jobs_Channel ch_refs_Channel nj nr)
  show "ch_name d' = ch_name d" by (rule q(4))
qed

text \<open>\<open>configure_at\<close> is \<open>ch_configure\<close> at the end of the path.\<close>

lemma configure_at_update:
  "configure_at p fullname config c = Inr c' \<Longrightarrow>
    \<exists>d cs d'. channel_at p c = Some (Channel d cs) \<and> ch_configure fullname config d = Inr d' \<and>
      c' = ch_update p (\<lambda>_. Channel d' cs) c"
proof (induction p arbitrary: c c')
  case Nil
  then show ?case by (cases c) (auto simp: rbind_eq_Inr)
next
  case (Cons n p)
  obtain d cs where c: "c = Channel d cs" by (cases c)
  with Cons.prems obtain x x' where x: "map_of cs n = Some x" "configure_at p fullname config x = Inr x'"
    "c' = Channel d (dict_set n x' cs)" by (auto simp: rbind_eq_Inr split: option.splits)
  from Cons.IH [OF x(2)] x(1,3) show ?case by (auto simp: c)
qed

lemma cm_inv_configure_at:
  assumes inv: "cm_inv m" and r: "configure_at p fullname config (cm_root m) = Inr root"
  shows "cm_inv (m\<lparr>cm_root := root\<rparr>)" and "exists_at q root \<longleftrightarrow> exists_at q (cm_root m)"
    and "tree_jobs root = tree_jobs (cm_root m)"
proof -
  obtain d cs d' where p: "channel_at p (cm_root m) = Some (Channel d cs)"
    and d': "ch_configure fullname config d = Inr d'" and root: "root = ch_update p (\<lambda>_. Channel d' cs) (cm_root m)"
    using configure_at_update [OF r] by blast
  note ca = ch_configure_alike [OF d']
  have a: "alike (cm_jobs m) (cm_root m) root"
    unfolding root by (rule alike_update [OF p]) (rule ca(1))
  have "exists_at r (Channel d' cs) \<longleftrightarrow> exists_at r (Channel d cs) \<or> r \<in> {}" for r
    by (cases r) (simp_all add: exists_at_Cons)
  from exists_at_update [OF p this] have e: "exists_at q root \<longleftrightarrow> exists_at q (cm_root m)" for q
    unfolding root by simp
  have i: "index_ok (cm_root m) (cm_channels_by_name m)" using inv by (simp add: cm_inv_def)
  then have "names_ok (cm_root m)" by (simp add: index_ok_def)
  moreover have "names_ok (Channel d' cs)"
    using names_ok_at [OF \<open>names_ok (cm_root m)\<close> p] by simp
  ultimately have "names_ok root \<and> ch_name (ch_data root) = ch_name (ch_data (cm_root m))"
    unfolding root using names_ok_update [OF _ p, of "\<lambda>_. Channel d' cs"] ca(2) by simp
  then have "index_ok root (cm_channels_by_name m)" using i e by (simp add: index_ok_def)
  from cm_inv_alike [OF inv a this] e show "cm_inv (m\<lparr>cm_root := root\<rparr>)" by simp
  show "exists_at q root \<longleftrightarrow> exists_at q (cm_root m)" by (rule e)
  show "tree_jobs root = tree_jobs (cm_root m)" using a by (simp add: alike_def)
qed

lemma get_channel_from_config_inv:
  assumes inv: "cm_inv m" and g: "get_channel_from_config config m = Inr (p, m')"
  shows "cm_inv m'" and "tree_jobs (cm_root m') = tree_jobs (cm_root m)"
    and "exists_at q (cm_root m) \<Longrightarrow> exists_at q (cm_root m')"
proof -
  from g obtain name m1 root where n: "get_channel_by_name (Some name) True False m = Inr (p, m1)"
    and c: "configure_at p (ch_fullname p (cm_root m1)) config (cm_root m1) = Inr root"
    and m': "m' = m1\<lparr>cm_root := root\<rparr>"
    by (auto simp: get_channel_from_config_def rbind_eq_Inr split: option.splits cfg_val.splits)
  have m1: "cm_inv m1" "tree_jobs (cm_root m1) = tree_jobs (cm_root m)"
    "\<forall>q. exists_at q (cm_root m) \<longrightarrow> exists_at q (cm_root m1)"
    using get_channel_ok [OF inv, of True False "Some name"] n by auto
  note c' = cm_inv_configure_at [OF m1(1) c]
  show "cm_inv m'" "tree_jobs (cm_root m') = tree_jobs (cm_root m)" using c' m1 by (simp_all add: m')
  show "exists_at q (cm_root m) \<Longrightarrow> exists_at q (cm_root m')" using c' m1 by (simp add: m')
qed

lemma configure_all_inv:
  "cm_inv m \<Longrightarrow> configure_all configs m = Inr m' \<Longrightarrow>
    cm_inv m' \<and> tree_jobs (cm_root m') = tree_jobs (cm_root m)"
proof (induction configs m rule: configure_all.induct)
  case (2 config rest m)
  then obtain p m1 where m1: "get_channel_from_config config m = Inr (p, m1)" "configure_all rest m1 = Inr m'"
    by (auto simp: rbind_eq_Inr)
  from get_channel_from_config_inv [OF "2.prems"(1) m1(1)] "2.IH" [OF m1(1) _ _ m1(2)] show ?case by simp
qed simp

lemma simple_configure_inv:
  "cm_inv m \<Longrightarrow> simple_configure s m = Inr m' \<Longrightarrow>
    cm_inv m' \<and> tree_jobs (cm_root m') = tree_jobs (cm_root m)"
  by (auto simp: simple_configure_def rbind_eq_Inr configure_all_inv)

section \<open>The manager as a transition system\<close>

text \<open>
  The events. A notification whose eta is the epoch itself is left out: the code tests an eta for
  its truth value. An assertion that fails in \<open>notify\<close> comes after the lookup of the channel and
  before any other change.
\<close>

datatype event =
    Configure string
  | Notify string "string option" string int int int "int option" "string option"
  | RemoveJob string
  | RemoveDb string
  | GetJobs int "jid list"
  | Wakeup int

fun cm_step :: "ChannelManager \<Rightarrow> event \<Rightarrow> ChannelManager \<Rightarrow> bool" where
  "cm_step m (Configure s) m' \<longleftrightarrow> simple_configure s m = Inr m'"
| "cm_step m (Notify db name uuid seq date priority eta state) m' \<longleftrightarrow>
     eta \<noteq> Some 0 \<and>
     (case notify db name uuid seq date priority eta state m of
        Inr m1 \<Rightarrow> m' = m1
      | Inl e \<Rightarrow> map_sum id snd (get_channel_by_name name False True m) = Inr m')"
| "cm_step m (RemoveJob uuid) m' \<longleftrightarrow> remove_job uuid m = Inr m'"
| "cm_step m (RemoveDb db) m' \<longleftrightarrow> remove_db db m = Inr m'"
| "cm_step m (GetJobs now ys) m' \<longleftrightarrow> cm_get_jobs_to_run now m = Inr (ys, m')"
| "cm_step m (Wakeup w) m' \<longleftrightarrow> cm_get_wakeup_time m = Inr (w, m')"

definition cm_start :: "ChannelManager \<Rightarrow> bool" where
  "cm_start m \<longleftrightarrow> m = cm_init"

lemma notify_step_inv:
  assumes inv: "cm_inv m" and st: "cm_step m (Notify db name uuid seq date priority eta state) m'"
  shows "cm_inv m'"
proof -
  have eta: "eta \<noteq> Some 0" using st by simp
  obtain p m1 where m1: "get_channel_by_name name False True m = Inr (p, m1)" "cm_inv m1"
    using get_channel_ok [OF inv, of False True name] by blast
  note ok = notify_ok [OF inv eta, of name db uuid date seq priority state]
  show ?thesis
  proof (cases "contradicts db uuid date m")
    case True
    with ok have "notify db name uuid seq date priority eta state m = Inl AssertionError"
      by (simp only: if_True) blast
    with st m1 show ?thesis by simp
  next
    case False
    with ok obtain m2 where "notify db name uuid seq date priority eta state m = Inr m2" "cm_inv m2"
      by (simp only: if_False) blast
    with st show ?thesis by simp
  qed
qed

lemma cm_step_inv:
  assumes inv: "cm_inv m" and st: "cm_step m ev m'"
  shows "cm_inv m'"
proof (cases ev)
  case (Configure s)
  with st have "simple_configure s m = Inr m'" by (simp only: cm_step.simps)
  from simple_configure_inv [OF inv this] show ?thesis ..
next
  case (Notify db name uuid seq date priority eta state)
  with st show ?thesis using notify_step_inv [OF inv] by blast
next
  case (RemoveJob u)
  with st have "remove_job u m = Inr m'" by (simp only: cm_step.simps)
  with remove_job_ok [OF inv, of u] show ?thesis by auto
next
  case (RemoveDb db)
  with st have "remove_db db m = Inr m'" by (simp only: cm_step.simps)
  with remove_db_ok [OF inv, of db] show ?thesis by auto
next
  case (GetJobs now ys)
  with st have "cm_get_jobs_to_run now m = Inr (ys, m')" by (simp only: cm_step.simps)
  with cm_get_jobs_ok [OF inv, of now] show ?thesis by auto
next
  case (Wakeup w)
  with st have "cm_get_wakeup_time m = Inr (w, m')" by (simp only: cm_step.simps)
  with cm_wakeup_ok [OF inv] show ?thesis by auto
qed

interpretation manager: invariant_system cm_start cm_step cm_inv
  by unfold_locales (auto simp: cm_start_def cm_inv_init intro: cm_step_inv)

text \<open>The states a runner can bring its manager to.\<close>

definition cm_reachable :: "ChannelManager \<Rightarrow> bool" where
  "cm_reachable = reachable cm_start cm_step"

lemma cm_reachable_inv: "cm_reachable m \<Longrightarrow> cm_inv m"
  unfolding cm_reachable_def by (rule manager.inv_reachable)

lemma cm_reachable_init: "cm_reachable cm_init"
  unfolding cm_reachable_def by (rule reachable_start) (simp add: cm_start_def)

lemma cm_reachable_step: "cm_reachable m \<Longrightarrow> cm_step m ev m' \<Longrightarrow> cm_reachable m'"
  unfolding cm_reachable_def by (rule reachable_step)

end
