(* ===== verification/ManagerSequential.thy ===== *)
theory ManagerSequential
  imports ManagerSystem
begin

text \<open>
  A channel is sequential only with a capacity of one. The constructor, the configuration and the
  lookup by name establish it and nothing else changes the settings of a channel, so that it is an
  invariant of the manager, on top of \<open>cm_inv\<close>.
\<close>

fun seq_ok :: "Channel \<Rightarrow> bool" where
  "seq_ok (Channel d cs) \<longleftrightarrow>
     (ch_sequential d \<longrightarrow> ch_capacity d = Some 1) \<and> list_all (\<lambda>(n, c). seq_ok c) cs"

lemma seq_ok_at: "seq_ok c \<Longrightarrow> channel_at p c = Some e \<Longrightarrow> seq_ok e"
proof (induction p arbitrary: c)
  case (Cons n p)
  then show ?case by (cases c) (auto simp: list_all_iff split: option.splits dest!: map_of_SomeD)
qed simp

lemma seq_ok_dict: "list_all (\<lambda>(n, c). seq_ok c) cs \<Longrightarrow> seq_ok c \<Longrightarrow> list_all (\<lambda>(n, c). seq_ok c) (dict_set n c cs)"
  by (induction n c cs rule: dict_set.induct) auto

lemma seq_ok_update:
  "seq_ok c \<Longrightarrow> (\<And>e. seq_ok e \<Longrightarrow> seq_ok (f e)) \<Longrightarrow> seq_ok (ch_update p f c)"
proof (induction p arbitrary: c)
  case (Cons n p)
  obtain d cs where c: "c = Channel d cs" by (cases c)
  show ?case
  proof (cases "map_of cs n")
    case None
    with Cons.prems c show ?thesis by simp
  next
    case (Some x)
    then have "seq_ok x" using Cons.prems(1) map_of_SomeD [OF Some] by (auto simp: c list_all_iff)
    from Cons.IH [OF this Cons.prems(2)] Some Cons.prems(1) show ?thesis
      by (simp add: c seq_ok_dict)
  qed
qed simp

lemma seq_ok_add_child: "seq_ok c \<Longrightarrow> seq_ok (ch_add_child n c)"
  by (cases c) (simp add: ch_add_child_def seq_ok_dict ch_init_def ch_sequential_def cq_init_def)

lemma seq_ok_descend:
  "seq_ok root \<Longrightarrow> descend ns par (root, channels) = (p, root', channels') \<Longrightarrow> seq_ok root'"
proof (induction ns arbitrary: par root channels)
  case (Cons n ns)
  have "seq_ok (ch_update par (ch_add_child n) root)"
    by (rule seq_ok_update [OF Cons.prems(1) seq_ok_add_child])
  with Cons show ?case by (auto simp: Let_def split: if_splits)
qed simp

lemma seq_ok_get_channel:
  assumes "seq_ok (cm_root m)" and "get_channel_by_name name ac pf m = Inr (p, m')"
  shows "seq_ok (cm_root m')"
proof -
  have "m' = m \<or> (\<exists>ns par root channels. descend ns par (cm_root m, cm_channels_by_name m) = (p, root, channels) \<and>
      m' = m\<lparr>cm_root := root, cm_channels_by_name := channels\<rparr>)"
    using assms(2) unfolding get_channel_by_name_def Let_def
    by (auto elim!: rbindE split: option.split_asm if_split_asm prod.split_asm) blast+
  with assms(1) seq_ok_descend [OF assms(1)] show ?thesis by auto
qed

lemma seq_ok_configure_at:
  assumes ok: "seq_ok c" and r: "configure_at p fullname config c = Inr c'"
  shows "seq_ok c'"
proof -
  obtain d cs d' where p: "channel_at p c = Some (Channel d cs)"
    and d': "ch_configure fullname config d = Inr d'" and c': "c' = ch_update p (\<lambda>_. Channel d' cs) c"
    using configure_at_update [OF r] by blast
  have "ch_sequential d' \<longrightarrow> ch_capacity d' = Some 1"
    using d' by (auto simp: ch_configure_def rbind_eq_Inr Let_def ch_sequential_def ch_set_sequential_def
        split: option.splits cfg_val.splits if_splits)
  with seq_ok_at [OF ok p] have "seq_ok (Channel d' cs)" by simp
  then show ?thesis unfolding c' by (rule seq_ok_update [OF ok])
qed

lemma seq_ok_configure:
  "seq_ok (cm_root m) \<Longrightarrow> configure_all configs m = Inr m' \<Longrightarrow> seq_ok (cm_root m')"
proof (induction configs m rule: configure_all.induct)
  case (2 config rest m)
  then obtain p m1 where m1: "get_channel_from_config config m = Inr (p, m1)" "configure_all rest m1 = Inr m'"
    by (auto simp: rbind_eq_Inr)
  from m1(1) obtain name m0 root where g: "get_channel_by_name (Some name) True False m = Inr (p, m0)"
    "configure_at p (ch_fullname p (cm_root m0)) config (cm_root m0) = Inr root" "m1 = m0\<lparr>cm_root := root\<rparr>"
    by (auto simp: get_channel_from_config_def rbind_eq_Inr split: option.splits cfg_val.splits)
  have "seq_ok (cm_root m1)"
    using seq_ok_configure_at [OF seq_ok_get_channel [OF "2.prems"(1) g(1)] g(2)] g(3) by simp
  from "2.IH" [OF m1(1) _ this m1(2)] show ?case by simp
qed simp

text \<open>The other operations keep the settings of every channel.\<close>

lemma seq_ok_shape:
  "tree_inv js p c' \<Longrightarrow> same_shape c c' \<Longrightarrow> seq_ok c \<Longrightarrow> seq_ok c'"
proof (induction js p c' arbitrary: c rule: tree_inv.induct)
  case (1 js p d' cs')
  obtain d cs where c: "c = Channel d cs" by (cases c)
  have "map_option settings (channel_at [] (Channel d' cs')) = map_option settings (channel_at [] c)"
    using "1.prems"(2) unfolding same_shape_def by blast
  then have own: "ch_sequential d' = ch_sequential d" "ch_capacity d' = ch_capacity d"
    by (simp_all add: c settings_def)
  have "seq_ok x'" if x': "(n, x') \<in> set cs'" for n x'
  proof -
    have "distinct (map fst cs')" using "1.prems"(1) by (simp add: tree_inv_Channel forest_inv_def)
    then have "map_of cs' n = Some x'" using x' by simp
    then obtain x where x: "map_of cs n = Some x" "same_shape x x'"
      by (rule same_shape_child [OF "1.prems"(2) [unfolded c]])
    have "seq_ok x" using "1.prems"(3) map_of_SomeD [OF x(1)] by (auto simp: c list_all_iff)
    moreover have "tree_inv js (p @ [n]) x'"
      using "1.prems"(1) x' by (auto simp: tree_inv_Channel forest_inv_def)
    ultimately show ?thesis using "1.IH" [OF x' refl _ x(2)] by blast
  qed
  with own "1.prems"(3) show ?case by (auto simp: c list_all_iff)
qed

lemma seq_ok_same:
  "cm_inv m' \<Longrightarrow> same_shape (cm_root m) (cm_root m') \<Longrightarrow> seq_ok (cm_root m) \<Longrightarrow> seq_ok (cm_root m')"
  unfolding cm_inv_def by (blast intro: seq_ok_shape)

lemma seq_ok_notify:
  assumes inv: "cm_inv m" and eta: "eta \<noteq> Some 0" and ok: "seq_ok (cm_root m)"
    and n: "notify db name uuid seq date priority eta state m = Inr m'"
  shows "seq_ok (cm_root m')"
proof -
  from n obtain p m1 j m2 root where g: "get_channel_by_name name False True m = Inr (p, m1)"
    and nj: "notified_job db p uuid seq date priority eta m1 = Inr (j, m2)"
    and st: "state_transition state j m2 = Inr root" and m': "m' = cm_collect (m2\<lparr>cm_root := root\<rparr>)"
    by (auto simp: notify_def rbind_eq_Inr)
  have i1: "cm_inv m1" "exists_at p (cm_root m1)"
    using get_channel_ok [OF inv, of False True name] g by auto
  have ok1: "seq_ok (cm_root m1)" by (rule seq_ok_get_channel [OF ok g])
  have "\<not> contradicts db uuid date m1"
    using notified_job_ok [OF i1 eta, of db uuid date seq priority] nj by (auto split: if_splits)
  with notified_job_ok [OF i1 eta, of db uuid date seq priority] nj
  have m2: "cm_inv m2" "map_of (cm_jobs_by_uuid m2) uuid = Some j" "same_shape (cm_root m1) (cm_root m2)"
    by auto
  from state_transition_ok [OF m2(1,2), of state] st
  have r: "cm_inv (m2\<lparr>cm_root := root\<rparr>)" "same_shape (cm_root m2) root" by auto
  have "seq_ok root" using seq_ok_same [OF r(1)] r(2) seq_ok_same [OF m2(1,3) ok1] by simp
  then show ?thesis by (simp add: m' cm_collect_def)
qed

definition cm_seq_inv :: "ChannelManager \<Rightarrow> bool" where
  "cm_seq_inv m \<longleftrightarrow> cm_inv m \<and> seq_ok (cm_root m)"

lemma cm_seq_step:
  assumes "cm_seq_inv m" and st: "cm_step m ev m'"
  shows "cm_seq_inv m'"
proof -
  from assms(1) have inv: "cm_inv m" and ok: "seq_ok (cm_root m)" by (simp_all add: cm_seq_inv_def)
  have inv': "cm_inv m'" by (rule cm_step_inv [OF inv st])
  have "seq_ok (cm_root m')"
  proof (cases ev)
    case (Configure s)
    with st obtain configs where "configure_all configs m = Inr m'"
      by (auto simp: simple_configure_def rbind_eq_Inr)
    with ok show ?thesis by (rule seq_ok_configure)
  next
    case (Notify db name uuid seq date priority eta state)
    with st have eta: "eta \<noteq> Some 0" by simp
    show ?thesis
    proof (cases "notify db name uuid seq date priority eta state m")
      case (Inr m1)
      with st Notify have "m' = m1" by simp
      with seq_ok_notify [OF inv eta ok Inr] show ?thesis by simp
    next
      case (Inl e)
      with st Notify obtain p where "get_channel_by_name name False True m = Inr (p, m')"
        by (cases "get_channel_by_name name False True m") auto
      then show ?thesis by (rule seq_ok_get_channel [OF ok])
    qed
  next
    case (RemoveJob u)
    with st remove_job_ok [OF inv, of u] seq_ok_same [OF inv' _ ok] show ?thesis by auto
  next
    case (RemoveDb db)
    with st remove_db_ok [OF inv, of db] seq_ok_same [OF inv' _ ok] show ?thesis by auto
  next
    case (GetJobs now ys)
    with st have "cm_get_jobs_to_run now m = Inr (ys, m')" by simp
    with cm_get_jobs_ok [OF inv, of now] seq_ok_same [OF inv' _ ok] show ?thesis by auto
  next
    case (Wakeup w)
    with st cm_wakeup_ok [OF inv] seq_ok_same [OF inv' _ ok] show ?thesis by auto
  qed
  with inv' show ?thesis by (simp add: cm_seq_inv_def)
qed

lemma cm_seq_inv_init: "cm_seq_inv cm_init"
  using cm_inv_init by (simp add: cm_seq_inv_def cm_init_def ch_init_def ch_sequential_def cq_init_def)

interpretation sequential_manager: invariant_system cm_start cm_step cm_seq_inv
  by unfold_locales (auto simp: cm_start_def cm_seq_inv_init intro: cm_seq_step)

lemma cm_reachable_seq: "cm_reachable m \<Longrightarrow> seq_ok (cm_root m)"
  unfolding cm_reachable_def using sequential_manager.inv_reachable by (auto simp: cm_seq_inv_def)

end
