(* ===== verification/ChannelProperties.thy ===== *)
theory ChannelProperties
  imports ManagerSequential
begin

text \<open>
  The properties of the channels and of their manager, for the states the manager can reach. The
  examples at which they are applied come first.
\<close>

section \<open>A manager with two channels and three jobs\<close>

definition ex_conf :: ChannelManager where
  "ex_conf = projr (simple_configure ''root:2,root.a:1:sequential'' cm_init)"

definition ex_one :: ChannelManager where
  "ex_one = projr (notify ''db'' (Some ''a'') ''u1'' 1 10 5 None (Some ''pending'') ex_conf)"

definition ex_two :: ChannelManager where
  "ex_two = projr (notify ''db'' (Some ''root.a'') ''u2'' 2 11 4 None (Some ''pending'') ex_one)"

definition ex_three :: ChannelManager where
  "ex_three = projr (notify ''other'' (Some ''b'') ''u3'' 3 12 9 (Some 50) (Some ''pending'') ex_two)"

lemma Inr_projr: "\<not> isl r \<Longrightarrow> r = Inr (projr r)"
  by (cases r) simp_all

lemma ex_conf_step: "cm_step cm_init (Configure ''root:2,root.a:1:sequential'') ex_conf"
  unfolding cm_step.simps ex_conf_def by (rule Inr_projr) code_simp

lemma ex_one_step: "notify ''db'' (Some ''a'') ''u1'' 1 10 5 None (Some ''pending'') ex_conf = Inr ex_one"
  unfolding ex_one_def by (rule Inr_projr) code_simp

lemma ex_two_step: "notify ''db'' (Some ''root.a'') ''u2'' 2 11 4 None (Some ''pending'') ex_one = Inr ex_two"
  unfolding ex_two_def by (rule Inr_projr) code_simp

lemma ex_three_step:
  "notify ''other'' (Some ''b'') ''u3'' 3 12 9 (Some 50) (Some ''pending'') ex_two = Inr ex_three"
  unfolding ex_three_def by (rule Inr_projr) code_simp

lemma ex_reachable: "cm_reachable ex_conf" "cm_reachable ex_one" "cm_reachable ex_two" "cm_reachable ex_three"
proof -
  show c: "cm_reachable ex_conf" by (rule cm_reachable_step [OF cm_reachable_init ex_conf_step])
  show o: "cm_reachable ex_one"
    by (rule cm_reachable_step [OF c, of "Notify ''db'' (Some ''a'') ''u1'' 1 10 5 None (Some ''pending'')"])
       (simp add: ex_one_step)
  show t: "cm_reachable ex_two"
    by (rule cm_reachable_step [OF o, of "Notify ''db'' (Some ''root.a'') ''u2'' 2 11 4 None (Some ''pending'')"])
       (simp add: ex_two_step)
  show "cm_reachable ex_three"
    by (rule cm_reachable_step [OF t, of "Notify ''other'' (Some ''b'') ''u3'' 3 12 9 (Some 50) (Some ''pending'')"])
       (simp add: ex_three_step)
qed

lemma ex_jobs: "cm_jobs_by_uuid ex_three = [(''u1'', 0), (''u2'', 1), (''u3'', 2)]"
  by code_simp


section \<open>Where a job is\<close>

text \<open>C2: In every state the manager can reach, a job that is known under a uuid has this uuid, and it
  sits in its channel and the channels above it as the documentation of \<open>Channel\<close> requires: nowhere;
  or failed in its own channel only; or queued in exactly one of these channels, running in all those
  below it and absent from all those above; or running in all of them up to the root. Every job that is
  queued, running or failed somewhere in the tree is the one its uuid is entered under.\<close>

theorem job_in_one_place:
  assumes "cm_reachable m"
  shows "(map_of (cm_jobs_by_uuid m) u = Some j \<longrightarrow>
      cj_uuid (cm_jobs m j) = u \<and> good_trail (trail j (cj_channel (cm_jobs m j)) (cm_root m))) \<and>
    (\<forall>i\<in>tree_jobs (cm_root m). map_of (cm_jobs_by_uuid m) (cj_uuid (cm_jobs m i)) = Some i)"
proof -
  have inv: "cm_inv m" by (rule cm_reachable_inv [OF assms])
  then have jo: "jobs_ok m" and t: "tree_inv (cm_jobs m) [] (cm_root m)" by (simp_all add: cm_inv_def)
  have "cj_uuid (cm_jobs m j) = u \<and> good_trail (trail j (cj_channel (cm_jobs m j)) (cm_root m))"
    if "map_of (cm_jobs_by_uuid m) u = Some j"
    using jobs_okD [OF jo that] tree_trail [OF t, of j] by (simp add: known_job_def exists_at_def)
  with entered [OF inv] show ?thesis by blast
qed

theorem job_in_one_place_witness:
  "cj_uuid (cm_jobs ex_three 1) = ''u2'' \<and>
   good_trail (trail 1 (cj_channel (cm_jobs ex_three 1)) (cm_root ex_three))"
  using job_in_one_place [OF ex_reachable(4), of "''u2''" 1] by (simp add: ex_jobs)

section \<open>Notifications\<close>



section \<open>The jobs to run\<close>

text \<open>C3: Asking for the jobs to run never fails. It hands over distinct jobs, in the order of priority,
  creation date and sequence, none of which has an eta in the future; exactly these jobs become
  running in the root channel, where they were not; no job gets lost and no configuration changes.\<close>

theorem get_jobs_to_run_correct:
  assumes "cm_reachable m"
  shows "\<exists>ys m'. cm_get_jobs_to_run now m = Inr (ys, m') \<and>
    distinct ys \<and> sorted (map (\<lambda>j. sorting_key_ignoring_eta (cm_jobs m j)) ys) \<and>
    (\<forall>j\<in>set ys. runnable now (cm_jobs m) j) \<and>
    ch_running (ch_data (cm_root m')) = ch_running (ch_data (cm_root m)) \<union> set ys \<and>
    set ys \<inter> ch_running (ch_data (cm_root m)) = {} \<and>
    tree_jobs (cm_root m') = tree_jobs (cm_root m) \<and> same_shape (cm_root m) (cm_root m')"
  using cm_get_jobs_ok [OF cm_reachable_inv [OF assms], of now] by (elim exE conjE) blast

theorem get_jobs_to_run_correct_witness:
  "\<exists>ys m'. cm_get_jobs_to_run 20 ex_three = Inr (ys, m') \<and> (\<forall>j\<in>set ys. runnable 20 (cm_jobs ex_three) j)"
  using get_jobs_to_run_correct [OF ex_reachable(4), of 20] by blast

text \<open>C7: No channel ever hands jobs over beyond its capacity: when no channel runs more jobs than its
  capacity allows, this is still so after any call that gives the jobs to run.\<close>

theorem capacity_respected:
  assumes "cm_reachable m" and "within_capacity (cm_root m)" and "cm_get_jobs_to_run now m = Inr (ys, m')"
  shows "within_capacity (cm_root m')"
  using cm_get_jobs_ok [OF cm_reachable_inv [OF assms(1)], of now] assms(2,3) by auto

theorem capacity_respected_witness:
  "within_capacity (cm_root (snd (projr (cm_get_jobs_to_run 60 ex_three))))"
proof -
  have "\<not> isl (cm_get_jobs_to_run 60 ex_three)" by code_simp
  then have "cm_get_jobs_to_run 60 ex_three =
      Inr (fst (projr (cm_get_jobs_to_run 60 ex_three)), snd (projr (cm_get_jobs_to_run 60 ex_three)))"
    by (simp add: Inr_projr [symmetric])
  moreover have "within_capacity (cm_root ex_three)" by code_simp
  ultimately show ?thesis by (rule capacity_respected [OF ex_reachable(4), rotated])
qed


section \<open>Channels by name\<close>

text \<open>Looking up a channel by name, with or without the prefix of the root: an existing channel is
  found and nothing changes, whatever the flags; a missing one raises without flags; with
  \<open>autocreate\<close> it is created at exactly the requested path, and from then on it is found; with the
  fallback it is created below an existing ancestor. No job is touched and no channel disappears.\<close>

theorem channel_by_name_correct:
  assumes "cm_reachable m"
  shows "if exists_at (channel_words name) (cm_root m)
     then get_channel_by_name name autocreate parent_fallback m = Inr (channel_words name, m)
     else if \<not> autocreate \<and> \<not> parent_fallback
     then get_channel_by_name name autocreate parent_fallback m = Inl ChannelNotFound
     else \<exists>a m'. get_channel_by_name name autocreate parent_fallback m = Inr (a @ channel_words name, m') \<and>
       exists_at a (cm_root m) \<and> (\<not> parent_fallback \<longrightarrow> a = []) \<and>
       exists_at (a @ channel_words name) (cm_root m') \<and>
       cm_jobs m' = cm_jobs m \<and> cm_jobs_by_uuid m' = cm_jobs_by_uuid m \<and>
       tree_jobs (cm_root m') = tree_jobs (cm_root m) \<and>
       (\<forall>q. exists_at q (cm_root m) \<longrightarrow> exists_at q (cm_root m')) \<and>
       (\<not> parent_fallback \<longrightarrow> (\<forall>ac pf. get_channel_by_name name ac pf m' = Inr (channel_words name, m')))"
proof -
  have inv: "cm_inv m" by (rule cm_reachable_inv [OF assms])
  consider (found) "exists_at (channel_words name) (cm_root m)"
    | (missing) "\<not> exists_at (channel_words name) (cm_root m)" "\<not> autocreate \<and> \<not> parent_fallback"
    | (new) "\<not> exists_at (channel_words name) (cm_root m)" "autocreate \<or> parent_fallback" by blast
  then show ?thesis
  proof cases
    case found
    then show ?thesis by (simp add: get_channel_existing [OF inv])
  next
    case missing
    then show ?thesis by (simp add: get_channel_missing [OF inv])
  next
    case new
    obtain a m' where m': "get_channel_by_name name autocreate parent_fallback m = Inr (a @ channel_words name, m')"
      "cm_inv m'" "exists_at (a @ channel_words name) (cm_root m')" "cm_jobs m' = cm_jobs m"
      "tree_jobs (cm_root m') = tree_jobs (cm_root m)" "cm_jobs_by_uuid m' = cm_jobs_by_uuid m"
      "\<forall>q. exists_at q (cm_root m) \<longrightarrow> exists_at q (cm_root m')" "exists_at a (cm_root m)"
      "\<not> parent_fallback \<longrightarrow> a = []"
      using get_channel_ok [OF inv new(2), of name] new(1) by auto
    have "get_channel_by_name name ac pf m' = Inr (channel_words name, m')" if "\<not> parent_fallback" for ac pf
      using get_channel_existing [OF m'(2)] m'(3,9) that by simp
    with m' new show ?thesis by auto
  qed
qed

theorem channel_by_name_correct_witness:
  "\<exists>m'. get_channel_by_name (Some ''a.c'') True False ex_three = Inr ([''a'', ''c''], m') \<and>
     exists_at [''a'', ''c''] (cm_root m')"
proof -
  have "channel_words (Some ''a.c'') = [''a'', ''c'']" by code_simp
  moreover have "\<not> exists_at [''a'', ''c''] (cm_root ex_three)" unfolding exists_at_def by code_simp
  ultimately show ?thesis
    using channel_by_name_correct [OF ex_reachable(4), of "Some ''a.c''" True False] by auto
qed

text \<open>The index of channels by full name is exact in every reachable state: it holds every channel of
  the tree under its full name, the names from the root joined with dots, and nothing else.\<close>

theorem channel_index_exact:
  assumes "cm_reachable m"
  shows "(map_of (cm_channels_by_name m) name = Some p \<longleftrightarrow>
      exists_at p (cm_root m) \<and> name = ch_fullname p (cm_root m))"
proof -
  have i: "index_ok (cm_root m) (cm_channels_by_name m)"
    using cm_reachable_inv [OF assms] by (simp add: cm_inv_def)
  then have "ch_fullname p (cm_root m) = full_name p" if "exists_at p (cm_root m)"
    using ch_fullname_join that by (simp add: index_ok_def full_name_def)
  with i show ?thesis by (auto simp: index_ok_def)
qed

theorem channel_index_exact_witness:
  "map_of (cm_channels_by_name ex_three) ''root.a'' = Some [''a''] \<longleftrightarrow>
   exists_at [''a''] (cm_root ex_three) \<and> ''root.a'' = ch_fullname [''a''] (cm_root ex_three)"
  by (rule channel_index_exact [OF ex_reachable(4)])

section \<open>Removal\<close>

text \<open>Removing a job and removing a database never fail; they remove from all channels exactly the
  job with the uuid, or exactly the jobs of the database, and leave the channels as configured.\<close>

theorem removal_correct:
  assumes "cm_reachable m"
  shows "(\<exists>m'. remove_job u m = Inr m' \<and> same_shape (cm_root m) (cm_root m') \<and>
      tree_jobs (cm_root m') = tree_jobs (cm_root m) - {j. cj_uuid (cm_jobs m j) = u}) \<and>
    (\<exists>m'. remove_db db m = Inr m' \<and> same_shape (cm_root m) (cm_root m') \<and>
      tree_jobs (cm_root m') = tree_jobs (cm_root m) - {j. cj_db_name (cm_jobs m j) = db})"
  using remove_job_ok [OF cm_reachable_inv [OF assms], of u] remove_db_ok [OF cm_reachable_inv [OF assms], of db]
  by blast

theorem removal_correct_witness:
  "\<exists>m'. remove_db ''db'' ex_three = Inr m' \<and>
    tree_jobs (cm_root m') = tree_jobs (cm_root ex_three) - {j. cj_db_name (cm_jobs ex_three j) = ''db''}"
  using removal_correct [OF ex_reachable(4), of "''u1''" "''db''"] by blast

section \<open>Wakeup time\<close>

text \<open>C36: The wakeup time of the manager is the soonest of the times at which a channel could hand over a
  job without a further notification: the end of its pause, or the eta of one of its jobs, for the
  channels that have capacity below channels that have capacity and are not paused; 0 when there is
  none. Asking changes nothing that matters.\<close>

theorem wakeup_time_correct:
  assumes "cm_reachable m"
  shows "\<exists>m'. cm_get_wakeup_time m = Inr (soonest 0 (wake_times (cm_jobs m) (cm_root m)), m') \<and>
    same_shape (cm_root m) (cm_root m') \<and> tree_jobs (cm_root m') = tree_jobs (cm_root m) \<and>
    cm_jobs m' = cm_jobs m"
  using cm_wakeup_ok [OF cm_reachable_inv [OF assms]] by blast

theorem wakeup_time_correct_witness:
  "\<exists>m'. cm_get_wakeup_time ex_three =
     Inr (soonest 0 (wake_times (cm_jobs ex_three) (cm_root ex_three)), m')"
  using wakeup_time_correct [OF ex_reachable(4)] by blast

section \<open>Queues\<close>

lemma reachable_queue:
  assumes "cm_reachable m" and "channel_at p (cm_root m) = Some c"
  shows "cq_inv (cm_jobs m) (ch_queue (ch_data c))"
proof -
  have t: "tree_inv (cm_jobs m) [] (cm_root m)"
    using cm_reachable_inv [OF assms(1)] by (simp add: cm_inv_def)
  obtain d cs where "c = Channel d cs" by (cases c)
  with channel_at_node [OF t, of p d cs] assms(2) show ?thesis by (simp add: node_inv_def)
qed

text \<open>Popping a job at a time from the queue of a channel that is in a well-formed state: the jobs whose
  eta has come lose their eta and join the jobs to run now. The job that is popped is one of these, and
  none sorts before it; it leaves the queue and the others stay. Nothing is popped only when there is no
  such job, or when the queue is sequential and a job whose eta has not come yet precedes them all.\<close>

theorem queue_pop_correct:
  fixes now :: int
  assumes "cq_inv js q"
  shows "\<exists>r q' D. D = due now js (cq_later q) \<and>
    cq_pop now js q = Inr (r, clear_etas D js, q') \<and> cq_inv (clear_etas D js) q' \<and>
    cq_later q' = cq_later q - D \<and>
    (case r of
       None \<Rightarrow> cq_now q' = cq_now q \<union> D \<and>
         (cq_now q \<union> D = {} \<or> waits (clear_etas D js) (cq_sequential q) (cq_now q \<union> D) (cq_later q - D))
     | Some x \<Rightarrow> x \<in> cq_now q \<union> D \<and> cq_now q' = cq_now q \<union> D - {x} \<and>
         \<not> waits (clear_etas D js) (cq_sequential q) (cq_now q \<union> D) (cq_later q - D) \<and>
         (\<forall>y\<in>cq_now q \<union> D. sorting_key_ignoring_eta (js x) \<le> sorting_key_ignoring_eta (js y)))"
  using cq_pop_ok [OF assms, of now] by (elim exE conjE) (intro exI conjI; (rule refl | assumption))

theorem queue_pop_correct_witness:
  "\<exists>r q' D. cq_pop 0 (cm_jobs ex_two) (ch_queue (ch_data (the (channel_at [''a''] (cm_root ex_two)))))
     = Inr (r, clear_etas D (cm_jobs ex_two), q') \<and> cq_inv (clear_etas D (cm_jobs ex_two)) q'"
proof -
  have "\<not> Option.is_none (channel_at [''a''] (cm_root ex_two))" by code_simp
  then have "channel_at [''a''] (cm_root ex_two) = Some (the (channel_at [''a''] (cm_root ex_two)))"
    by (auto simp: Option.is_none_def)
  from queue_pop_correct [OF reachable_queue [OF ex_reachable(3) this], of 0] show ?thesis by blast
qed

text \<open>C35: The priority queue with deferred deletion refines a finite set with a least element: adding and
  removing act on the set, the length is its size, and popping takes an object of least key out of it,
  nothing exactly when it is empty. No assertion of the code fails and no exception is raised.\<close>

theorem priority_queue_refines_set:
  assumes "pq_inv lt k A q" and "x \<in> A"
  shows "(\<exists>q'. pq_add lt (Some x) q = Inr q' \<and> pq_inv lt k A q' \<and> pq_abs q' = insert x (pq_abs q)) \<and>
    (\<exists>q'. pq_remove (Some x) q = Inr q' \<and> pq_inv lt k A q' \<and> pq_abs q' = pq_abs q - {x}) \<and>
    pq_len q = int (card (pq_abs q)) \<and> (pq_contains x q \<longleftrightarrow> x \<in> pq_abs q) \<and>
    (\<exists>r q'. pq_pop lt q = Inr (r, q') \<and> pq_inv lt k A q' \<and>
       (case r of
          None \<Rightarrow> pq_abs q = {} \<and> pq_abs q' = {}
        | Some y \<Rightarrow> y \<in> pq_abs q \<and> pq_abs q' = pq_abs q - {y} \<and> (\<forall>z\<in>pq_abs q. k y \<le> k z)))"
proof (intro conjI)
  show "\<exists>q'. pq_add lt (Some x) q = Inr q' \<and> pq_inv lt k A q' \<and> pq_abs q' = insert x (pq_abs q)"
    by (rule pq.add_ok [OF assms])
  show "\<exists>q'. pq_remove (Some x) q = Inr q' \<and> pq_inv lt k A q' \<and> pq_abs q' = pq_abs q - {x}"
    by (rule pq.remove_ok [OF assms(1)])
  show "pq_len q = int (card (pq_abs q))" by (rule pq.len_eq [OF assms(1)])
  show "pq_contains x q \<longleftrightarrow> x \<in> pq_abs q" by (rule pq.contains_eq [OF assms(1)])
  show "\<exists>r q'. pq_pop lt q = Inr (r, q') \<and> pq_inv lt k A q' \<and>
       (case r of
          None \<Rightarrow> pq_abs q = {} \<and> pq_abs q' = {}
        | Some y \<Rightarrow> y \<in> pq_abs q \<and> pq_abs q' = pq_abs q - {y} \<and> (\<forall>z\<in>pq_abs q. k y \<le> k z))"
    by (rule pq_pop_ok [OF assms(1)])
qed

theorem priority_queue_refines_set_witness:
  "\<exists>q'. pq_add (\<lambda>a b. Inr (a < b)) (Some (3::nat)) pq_init = Inr q' \<and> pq_abs q' = {3}"
proof -
  have "keyed (\<lambda>a b. Inr (a < b)) (\<lambda>x::nat. x) UNIV" by (simp add: keyed_def)
  from priority_queue_refines_set [OF pq_inv_init [OF this] UNIV_I, of 3] show ?thesis by auto
qed


section \<open>One channel\<close>

text \<open>In every state the manager can reach, a channel that is sequential has the capacity one,
  whatever configurations were accepted and whatever channels the notifications created.\<close>

theorem sequential_has_capacity_one:
  assumes "cm_reachable m" and "channel_at p (cm_root m) = Some (Channel d cs)" and "ch_sequential d"
  shows "ch_capacity d = Some 1"
  using seq_ok_at [OF cm_reachable_seq [OF assms(1)] assms(2)] assms(3) by simp

theorem sequential_has_capacity_one_witness:
  "ch_capacity (ch_data (the (channel_at [''a''] (cm_root ex_one)))) = Some 1"
proof (rule sequential_has_capacity_one [OF ex_reachable(2)])
  show "channel_at [''a''] (cm_root ex_one) = Some (Channel
      (ch_data (the (channel_at [''a''] (cm_root ex_one)))) (ch_children (the (channel_at [''a''] (cm_root ex_one)))))"
  proof -
    have "\<not> Option.is_none (channel_at [''a''] (cm_root ex_one))" by code_simp
    then show ?thesis by (auto simp: Option.is_none_def)
  qed
  show "ch_sequential (ch_data (the (channel_at [''a''] (cm_root ex_one))))" by code_simp
qed

text \<open>Running the own queue of a channel never fails. A paused channel hands over nothing. Otherwise it
  hands over distinct jobs, best first, all at most as important as those that stay; they become
  running in the channel, and only if it has capacity, which they do not exceed. A throttled channel
  hands over at most one job and is then paused for the throttle. The channel stops only because it has
  no capacity left, or is throttled, or has no job to run, or is sequential and waits for an eta.\<close>

theorem run_channel_correct:
  assumes "cq_inv js (ch_queue d)" and "finite (ch_running d)"
  shows "\<exists>ys js' d'. run_channel collect now [] js d = Inr (ys, js', d') \<and>
    (if paused now d then ys = [] \<and> d' = d
     else in_order js ys (cq_now (ch_queue d')) \<and> ch_running d' = ch_running d \<union> set ys \<and> same_config d d' \<and>
       cq_now (ch_queue d') \<union> set ys = cq_now (ch_queue d) \<union> released now js d \<and>
       cq_later (ch_queue d') = cq_later (ch_queue d) - released now js d \<and>
       (ys \<noteq> [] \<longrightarrow> has_capacity d \<and> capacity_ok d') \<and>
       (ch_throttle d \<noteq> 0 \<longrightarrow> length ys \<le> 1 \<and> (ys \<noteq> [] \<longrightarrow> ch_pause_until d' = now + ch_throttle d)) \<and>
       (\<not> has_capacity d' \<or> ch_throttle d \<noteq> 0 \<and> ys \<noteq> [] \<or> cq_now (ch_queue d') = {} \<or>
        waits js' (ch_sequential d) (cq_now (ch_queue d')) (cq_later (ch_queue d'))))"
proof -
  obtain ys s js' d' where r: "run_channel collect now [] js d = Inr (s, js', d')"
    "ran_channel now js d ys js' d'" "deliver_all (collect js') ys [] = Inr s"
    using list_sink.run_channel_ok [OF assms, where s = "[]" and now = now] by auto
  have s: "s = ys" using r(3) by (simp add: deliver_all_collect)
  have rel: "released now js (unpause d) = released now js d" by (simp add: released_def)
  show ?thesis
  proof (cases "paused now d")
    case True
    with r(1,2) s show ?thesis
      by (intro exI [of _ ys] exI [of _ js'] exI [of _ d']) (simp add: ran_channel_def)
  next
    case False
    with r(2) have "ran now js (unpause d) ys js' d'" by (simp add: ran_channel_def)
    note ran = this [unfolded ran_def same_config_def rel unpause_simps]
    from ran have q: "set ys \<subseteq> cq_now (ch_queue d) \<union> released now js d"
      "cq_now (ch_queue d') = cq_now (ch_queue d) \<union> released now js d - set ys"
      "cq_later (ch_queue d') = cq_later (ch_queue d) - released now js d"
      and o: "in_order js ys (cq_now (ch_queue d'))" "ch_running d' = ch_running d \<union> set ys"
      "same_config d d'" "ys \<noteq> [] \<longrightarrow> has_capacity d \<and> capacity_ok d'"
      and t: "ch_pause_until d' = (if ch_throttle d \<noteq> 0 \<and> ys \<noteq> [] then now + ch_throttle d else ch_pause_until (unpause d))"
      "ch_throttle d \<noteq> 0 \<longrightarrow> length ys \<le> 1"
      and e: "\<not> has_capacity d' \<or> ch_throttle d \<noteq> 0 \<and> ys \<noteq> [] \<or> cq_now (ch_queue d') = {} \<or>
        waits js' (ch_sequential d) (cq_now (ch_queue d')) (cq_later (ch_queue d'))"
      unfolding same_config_def by - (elim conjE; (intro conjI)?; assumption)+
    from q(1,2) have u: "cq_now (ch_queue d') \<union> set ys = cq_now (ch_queue d) \<union> released now js d" by blast
    have th: "ch_throttle d \<noteq> 0 \<longrightarrow> length ys \<le> 1 \<and> (ys \<noteq> [] \<longrightarrow> ch_pause_until d' = now + ch_throttle d)"
      using t by simp
    show ?thesis
      unfolding if_not_P [OF False]
      by (intro exI [of _ ys] exI [of _ js'] exI [of _ d'] conjI r(1) [unfolded s] o u q(3) th e)
  qed
qed

theorem run_channel_correct_witness:
  "\<exists>ys js' d'. run_channel collect 5 [] (cm_jobs ex_two) (ch_data (the (channel_at [''a''] (cm_root ex_two))))
     = Inr (ys, js', d') \<and> ys \<noteq> []"
proof -
  let ?d = "ch_data (the (channel_at [''a''] (cm_root ex_two)))"
  have n: "\<not> Option.is_none (channel_at [''a''] (cm_root ex_two))" by code_simp
  then have c: "channel_at [''a''] (cm_root ex_two) = Some (the (channel_at [''a''] (cm_root ex_two)))"
    by (auto simp: Option.is_none_def)
  have e: "ch_running ?d = {}" by code_simp
  have "finite (ch_running ?d)" unfolding e by simp
  from run_channel_correct [OF reachable_queue [OF ex_reachable(3) c] this, of 5]
  have "\<exists>ys js' d'. run_channel collect 5 [] (cm_jobs ex_two) ?d = Inr (ys, js', d')" by blast
  moreover have "fst (projr (run_channel collect 5 [] (cm_jobs ex_two) ?d)) = [1]" by code_simp
  ultimately show ?thesis by auto
qed

section \<open>Configuration strings\<close>

text \<open>Reading a configuration string gives back the configuration it was written from: for every list
  of well-formed channel specifications (a name, a capacity, distinct options with or without a value),
  the string with the channels separated by commas and their parts by colons parses to exactly the
  dictionaries with these entries, in this order.\<close>

theorem simple_config_roundtrip:
  assumes "list_all wf_spec cs"
  shows "parse_simple_config (render_config cs) = Inr (map spec_config cs)"
  by (rule parse_render_config [OF assms])

theorem simple_config_roundtrip_witness:
  "parse_simple_config (render_config [(''root'', 4, []), (''root.sub'', 2, [(''sequential'', None), (''throttle'', Some ''5'')])])
     = Inr (map spec_config [(''root'', 4, []), (''root.sub'', 2, [(''sequential'', None), (''throttle'', Some ''5'')])])"
  by (rule simple_config_roundtrip) code_simp

end
