(* ===== verification/DepGraph.thy ===== *)
theory DepGraph
  imports Prelude "HOL-Library.Sublist"
begin

text \<open>
  The class \<open>Graph\<close> of \<open>queue_job/delay.py\<close>: a dictionary from vertices to the set of their children,
  with the paths from a vertex and a topological sort. A set is a list without repetitions; the order in
  which Python iterates over it is the order of the list.
\<close>

section \<open>The graph\<close>

type_synonym 'v graph = "('v \<times> 'v list) list"

definition graph_init :: "'v graph option \<Rightarrow> 'v graph" where
  "graph_init g = (case g of None \<Rightarrow> [] | Some g \<Rightarrow> g)"

definition add_vertex :: "'v \<Rightarrow> 'v graph \<Rightarrow> 'v graph" where
  "add_vertex v g = (if v \<in> fst ` set g then g else g @ [(v, [])])"

definition set_add :: "'v \<Rightarrow> 'v list \<Rightarrow> 'v list" where
  "set_add x xs = (if x \<in> set xs then xs else xs @ [x])"

definition set_union :: "'v list \<Rightarrow> 'v list \<Rightarrow> 'v list" where
  "set_union xs ys = foldl (\<lambda>zs y. set_add y zs) xs ys"

text \<open>\<open>setdefault(parent, set()).add(child)\<close>.\<close>

definition add_children :: "'v \<Rightarrow> 'v list \<Rightarrow> 'v graph \<Rightarrow> 'v graph" where
  "add_children parent cs g =
     dict_set parent (set_union (case map_of g parent of None \<Rightarrow> [] | Some ns \<Rightarrow> ns) cs) g"

definition add_edge :: "'v \<Rightarrow> 'v \<Rightarrow> 'v graph \<Rightarrow> 'v graph" where
  "add_edge parent child g = add_children parent [child] (add_vertex child g)"

definition vertices :: "'v graph \<Rightarrow> 'v list" where
  "vertices g = map fst g"

definition edges :: "'v graph \<Rightarrow> ('v \<times> 'v) list" where
  "edges g = concat (map (\<lambda>(v, ns). map (\<lambda>n. (v, n)) ns) g)"

definition root_vertices :: "'v graph \<Rightarrow> 'v list" where
  "root_vertices g = filter (\<lambda>v. v \<notin> \<Union> (set ` snd ` set g)) (map fst g)"

section \<open>Paths\<close>

definition nodes :: "'v graph \<Rightarrow> 'v set" where
  "nodes g = fst ` set g \<union> \<Union> (set ` snd ` set g)"

lemma finite_nodes [simp]: "finite (nodes g)"
  by (simp add: nodes_def)

fun collect_results :: "'a list result list \<Rightarrow> 'a list result" where
  "collect_results [] = Inr []"
| "collect_results (r # rs) = rbind r (\<lambda>xs. rbind (collect_results rs) (\<lambda>ys. Inr (xs @ ys)))"

lemma child_in_nodes: "map_of g v = Some ns \<Longrightarrow> n \<in> set ns \<Longrightarrow> n \<in> nodes g"
  by (auto simp: nodes_def dest!: map_of_SomeD intro!: bexI [rotated])

text \<open>The path holds the vertices seen; a vertex without an entry in the dictionary raises.\<close>

function search_paths :: "'v graph \<Rightarrow> 'v list \<Rightarrow> 'v list list result" where
  "search_paths g path =
     (case map_of g (last path) of
        None \<Rightarrow> Inl KeyError
      | Some ns \<Rightarrow>
          (let nexts = filter (\<lambda>n. n \<notin> set path) ns in
           if nexts = [] then Inr [path]
           else collect_results (map (\<lambda>n. search_paths g (path @ [n])) nexts)))"
  by pat_completeness auto
termination
proof (relation "measure (\<lambda>(g, path). card (nodes g - set path))", simp)
  fix g :: "'v graph" and path ns x z
  assume ns: "map_of g (last path) = Some ns" and x: "x = filter (\<lambda>n. n \<notin> set path) ns"
    and z: "z \<in> set x"
  then have z: "z \<in> nodes g" "z \<notin> set path" using child_in_nodes [OF ns] by auto
  then have "nodes g - set (path @ [z]) \<subset> nodes g - set path" by auto
  then have "card (nodes g - set (path @ [z])) < card (nodes g - set path)" by (simp add: psubset_card_mono)
  then show "((g, path @ [z]), g, path) \<in> measure (\<lambda>(g, path). card (nodes g - set path))" by simp
qed

declare search_paths.simps [simp del]

definition paths :: "'v graph \<Rightarrow> 'v \<Rightarrow> 'v list list result" where
  "paths g vertex = search_paths g [vertex]"

section \<open>Topological sort\<close>

text \<open>The number of parents of each vertex that are still to come; a missing entry counts as zero.\<close>

definition get_count :: "('v \<times> int) list \<Rightarrow> 'v \<Rightarrow> int" where
  "get_count deps v = (case map_of deps v of None \<Rightarrow> 0 | Some n \<Rightarrow> n)"

definition count_depends :: "'v graph \<Rightarrow> ('v \<times> int) list" where
  "count_depends g = foldl (\<lambda>deps (p, c). dict_set c (get_count deps c + 1) deps) [] (edges g)"

fun release :: "'v list \<Rightarrow> ('v \<times> int) list \<Rightarrow> 'v list \<Rightarrow> ('v \<times> int) list \<times> 'v list" where
  "release [] deps queue = (deps, queue)"
| "release (n # ns) deps queue =
     (let d = get_count deps n - 1
      in release ns (dict_set n d deps) (if d = 0 then queue @ [n] else queue))"

definition pending_total :: "('v \<times> int) list \<Rightarrow> nat" where
  "pending_total deps = sum_list (map (\<lambda>(v, n). nat n) deps)"

lemma pending_total_set:
  "pending_total (dict_set n d deps) + nat (get_count deps n) = pending_total deps + nat d"
  by (induction deps) (auto simp: pending_total_def get_count_def)

lemma release_total:
  "release ns deps queue = (deps', queue') \<Longrightarrow>
    pending_total deps' + length queue' \<le> pending_total deps + length queue"
proof (induction ns deps queue rule: release.induct)
  case (2 n ns deps queue)
  let ?d = "get_count deps n - 1"
  have "pending_total deps' + length queue' \<le>
      pending_total (dict_set n ?d deps) + length (if ?d = 0 then queue @ [n] else queue)"
    using "2.IH" [OF refl] "2.prems" by (simp add: Let_def)
  also have "\<dots> \<le> pending_total deps + length queue"
    using pending_total_set [of n ?d deps] by auto
  finally show ?case .
qed simp

function topo_loop :: "'v graph \<Rightarrow> ('v \<times> int) list \<Rightarrow> 'v list \<Rightarrow> 'v list result" where
  "topo_loop g deps [] = Inr []"
| "topo_loop g deps (v # queue) =
     (case map_of g v of
        None \<Rightarrow> Inl KeyError
      | Some ns \<Rightarrow>
          (let r = release ns deps queue
           in rbind (topo_loop g (fst r) (snd r)) (\<lambda>vs. Inr (v # vs))))"
  by pat_completeness auto
termination
proof (relation "measure (\<lambda>(g, deps, queue). pending_total deps + length queue)", simp)
  fix g :: "'v graph" and deps v queue ns r
  assume "r = release ns deps queue"
  then show "((g, fst r, snd r), g, deps, v # queue) \<in> measure (\<lambda>(g, deps, queue). pending_total deps + length queue)"
    using release_total [of ns deps queue "fst r" "snd r"] by (simp add: case_prod_beta)
qed

definition topological_sort :: "'v graph \<Rightarrow> 'v list result" where
  "topological_sort g = topo_loop g (count_depends g) (root_vertices g)"


section \<open>The topological sort is one\<close>

definition graph_ok :: "'v graph \<Rightarrow> bool" where
  "graph_ok g \<longleftrightarrow> distinct (map fst g) \<and> (\<forall>(v, ns)\<in>set g. distinct ns \<and> set ns \<subseteq> fst ` set g)"

definition edge_set :: "'v graph \<Rightarrow> ('v \<times> 'v) set" where
  "edge_set g = {(p, c). \<exists>ns. map_of g p = Some ns \<and> c \<in> set ns}"

definition preds :: "'v graph \<Rightarrow> 'v \<Rightarrow> 'v set" where
  "preds g n = {p. (p, n) \<in> edge_set g}"

lemma set_edges: "distinct (map fst g) \<Longrightarrow> set (edges g) = edge_set g"
  by (auto simp: edges_def edge_set_def)

lemma finite_preds: "finite (preds g n)"
proof -
  have "preds g n \<subseteq> fst ` set g" by (force simp: preds_def edge_set_def dest!: map_of_SomeD)
  then show ?thesis by (rule finite_subset) simp
qed

lemma distinct_edges: "graph_ok g \<Longrightarrow> distinct (edges g)"
proof -
  have "distinct (map fst g) \<Longrightarrow> \<forall>(v, ns)\<in>set g. distinct ns \<Longrightarrow> distinct (edges g)" for g :: "'v graph"
  proof (induction g)
    case (Cons x g)
    obtain v ns where x: "x = (v, ns)" by fastforce
    have "set (map (\<lambda>n. (v, n)) ns) \<inter> set (edges g) = {}"
      using Cons.prems(1) by (force simp: x edges_def)
    moreover have "distinct (map (\<lambda>n. (v, n)) ns)" using Cons.prems(2) by (simp add: x distinct_map inj_on_def)
    moreover have "distinct (edges g)" by (rule Cons.IH) (use Cons.prems in auto)
    ultimately show ?case by (simp add: x edges_def)
  qed (simp add: edges_def)
  then show "graph_ok g \<Longrightarrow> distinct (edges g)" by (auto simp: graph_ok_def)
qed

lemma get_count_set [simp]: "get_count (dict_set m d deps) n = (if n = m then d else get_count deps n)"
  by (simp add: get_count_def)

lemma get_count_fold:
  "get_count (foldl (\<lambda>deps (p, c). dict_set c (get_count deps c + 1) deps) deps es) n =
     get_count deps n + int (length (filter (\<lambda>e. snd e = n) es))"
  by (induction es arbitrary: deps) auto

lemma count_depends_card:
  assumes "graph_ok g"
  shows "get_count (count_depends g) n = int (card (preds g n))"
proof -
  have d: "distinct (filter (\<lambda>e. snd e = n) (edges g))" using distinct_edges [OF assms] by simp
  have "preds g n = fst ` set (filter (\<lambda>e. snd e = n) (edges g))"
    using set_edges [of g] assms by (force simp: preds_def graph_ok_def)
  moreover have "inj_on fst (set (filter (\<lambda>e. snd e = n) (edges g)))" by (auto simp: inj_on_def)
  ultimately have "card (preds g n) = length (filter (\<lambda>e. snd e = n) (edges g))"
    using distinct_card [OF d] by (simp add: card_image)
  then show ?thesis by (simp add: count_depends_def get_count_fold get_count_def [of "[]"])
qed

lemma release_ok:
  "distinct ns \<Longrightarrow> (\<forall>n. get_count (fst (release ns deps queue)) n = get_count deps n - (if n \<in> set ns then 1 else 0)) \<and>
    snd (release ns deps queue) = queue @ filter (\<lambda>n. get_count deps n = 1) ns"
proof (induction ns deps queue rule: release.induct)
  case (2 m ns deps queue)
  let ?d = "get_count deps m - 1"
  have "filter (\<lambda>n. get_count (dict_set m ?d deps) n = 1) ns = filter (\<lambda>n. get_count deps n = 1) ns"
    using "2.prems" by (intro filter_cong) auto
  with "2.IH" [OF refl] "2.prems" show ?case by (auto simp: Let_def)
qed simp

text \<open>In the loop: what has been yielded, the counts, and the vertices whose parents have all been
  yielded.\<close>

definition topo_inv :: "'v graph \<Rightarrow> 'v list \<Rightarrow> ('v \<times> int) list \<Rightarrow> 'v list \<Rightarrow> bool" where
  "topo_inv g out deps queue \<longleftrightarrow> distinct (out @ queue) \<and> set (out @ queue) \<subseteq> fst ` set g \<and>
     (\<forall>n\<in>fst ` set g. get_count deps n = int (card (preds g n - set out)) \<and>
        (n \<in> set (out @ queue) \<longleftrightarrow> preds g n \<subseteq> set out))"

lemma topo_inv_start:
  assumes "graph_ok g"
  shows "topo_inv g [] (count_depends g) (root_vertices g)"
proof -
  have "n \<in> set (root_vertices g) \<longleftrightarrow> preds g n \<subseteq> {}" if "n \<in> fst ` set g" for n
  proof -
    have "preds g n = {} \<longleftrightarrow> n \<notin> \<Union> (set ` snd ` set g)"
      using assms by (fastforce simp: preds_def edge_set_def graph_ok_def)
    then show ?thesis using that by (auto simp: root_vertices_def)
  qed
  then show ?thesis
    using assms by (auto simp: topo_inv_def count_depends_card root_vertices_def graph_ok_def)
qed

lemma topo_inv_step:
  assumes g: "graph_ok g" and inv: "topo_inv g out deps (v # queue)" and ns: "map_of g v = Some ns"
  shows "topo_inv g (out @ [v]) (fst (release ns deps queue)) (snd (release ns deps queue))"
proof -
  have dns: "distinct ns" "set ns \<subseteq> fst ` set g"
    using g map_of_SomeD [OF ns] by (auto simp: graph_ok_def)
  note r = release_ok [OF dns(1), of deps queue]
  have vp: "v \<in> preds g n \<longleftrightarrow> n \<in> set ns" for n using ns by (simp add: preds_def edge_set_def)
  from inv have d: "distinct (out @ v # queue)" and sub: "set (out @ v # queue) \<subseteq> fst ` set g"
    and cnt: "\<And>n. n \<in> fst ` set g \<Longrightarrow> get_count deps n = int (card (preds g n - set out))"
    and mem: "\<And>n. n \<in> fst ` set g \<Longrightarrow> n \<in> set (out @ v # queue) \<longleftrightarrow> preds g n \<subseteq> set out"
    by (auto simp: topo_inv_def)
  have vo: "v \<notin> set out" using d by simp
  have one: "get_count deps n = 1 \<longleftrightarrow> preds g n - set out = {v}" if n: "n \<in> set ns" for n
  proof -
    have "v \<in> preds g n - set out" using vp n vo by simp
    moreover have "n \<in> fst ` set g" using n dns(2) by blast
    ultimately show ?thesis using cnt [of n] by (metis card_1_singleton_iff of_nat_1 of_nat_eq_iff One_nat_def singletonD)
  qed
  have "distinct (out @ [v] @ queue @ filter (\<lambda>n. get_count deps n = 1) ns)"
  proof -
    have "n \<notin> set (out @ v # queue)" if "n \<in> set ns" "get_count deps n = 1" for n
      using mem [of n] one [OF that(1)] that dns(2) by auto
    then show ?thesis using d dns(1) by auto
  qed
  moreover have "get_count (fst (release ns deps queue)) n = int (card (preds g n - set (out @ [v])))"
    if n: "n \<in> fst ` set g" for n
  proof -
    have fin: "finite (preds g n - set out)" using finite_preds by simp
    have "preds g n - set (out @ [v]) = preds g n - set out - {v}" by auto
    moreover have "0 < card (preds g n - set out)" if "n \<in> set ns"
      using that vp vo fin by (auto simp: card_gt_0_iff)
    ultimately show ?thesis
      using r cnt [OF n] vp [of n] vo by (auto simp: card_Diff_singleton_if)
  qed
  moreover have "n \<in> set (out @ [v] @ queue @ filter (\<lambda>n. get_count deps n = 1) ns) \<longleftrightarrow>
      preds g n \<subseteq> set (out @ [v])" if n: "n \<in> fst ` set g" for n
  proof -
    have "n \<in> set (out @ v # queue) \<or> n \<in> set ns \<and> preds g n - set out = {v} \<longleftrightarrow> preds g n \<subseteq> set (out @ [v])"
      using mem [OF n] vp [of n] vo by auto
    then show ?thesis using one by auto
  qed
  ultimately show ?thesis
    using r sub dns(2) unfolding topo_inv_def by auto
qed

lemma topo_loop_ok:
  "graph_ok g \<Longrightarrow> topo_inv g out deps queue \<Longrightarrow>
    \<exists>ys deps'. topo_loop g deps queue = Inr ys \<and> topo_inv g (out @ ys) deps' [] \<and>
      (\<forall>xs n zs. ys = xs @ n # zs \<longrightarrow> preds g n \<subseteq> set (out @ xs))"
proof (induction g deps queue arbitrary: out rule: topo_loop.induct)
  case (1 g deps)
  then show ?case by auto
next
  case (2 g deps v queue)
  from "2.prems"(2) have v: "v \<in> fst ` set g" "preds g v \<subseteq> set out"
    by (auto simp: topo_inv_def)
  then obtain ns where ns: "map_of g v = Some ns" by (auto simp: image_iff dest: weak_map_of_SomeI)
  let ?r = "release ns deps queue"
  obtain ys deps' where ys: "topo_loop g (fst ?r) (snd ?r) = Inr ys" "topo_inv g ((out @ [v]) @ ys) deps' []"
    "\<forall>xs n zs. ys = xs @ n # zs \<longrightarrow> preds g n \<subseteq> set ((out @ [v]) @ xs)"
    using "2.IH" [OF ns refl "2.prems"(1) topo_inv_step [OF "2.prems" ns]] by blast
  have "preds g n \<subseteq> set (out @ xs)" if "v # ys = xs @ n # zs" for xs n zs
    using that v(2) ys(3) by (cases xs) auto
  with ys ns show ?case by (intro exI [of _ "v # ys"] exI [of _ deps']) (simp add: Let_def)
qed

lemma topological_sort_ok:
  assumes g: "graph_ok g" and acyclic: "acyclic (edge_set g)"
  shows "\<exists>ys. topological_sort g = Inr ys \<and> distinct ys \<and> set ys = set (vertices g) \<and>
    (\<forall>xs n zs. ys = xs @ n # zs \<longrightarrow> preds g n \<subseteq> set xs)"
proof -
  obtain ys deps where ys: "topological_sort g = Inr ys" "topo_inv g ys deps []"
    "\<forall>xs n zs. ys = xs @ n # zs \<longrightarrow> preds g n \<subseteq> set xs"
    using topo_loop_ok [OF g topo_inv_start [OF g]] by (auto simp: topological_sort_def)
  have "finite (edge_set g)"
    using set_edges [of g] g by (metis List.finite_set graph_ok_def)
  then have wf: "wf (edge_set g)" using acyclic by (simp add: finite_acyclic_wf)
  have "n \<in> set ys" if "n \<in> fst ` set g" for n
    using wf that
  proof (induction n rule: wf_induct_rule)
    case (less n)
    have "preds g n \<subseteq> set ys"
    proof
      fix p assume p: "p \<in> preds g n"
      then have "p \<in> fst ` set g" by (force simp: preds_def edge_set_def dest!: map_of_SomeD)
      with less.IH [of p] p show "p \<in> set ys" by (simp add: preds_def)
    qed
    with ys(2) less.prems show ?case unfolding topo_inv_def by auto
  qed
  then have "fst ` set g \<subseteq> set ys" by blast
  moreover have "set ys \<subseteq> fst ` set g" using ys(2) by (simp add: topo_inv_def)
  ultimately have "set ys = set (vertices g)" by (simp add: vertices_def subset_antisym)
  with ys show ?thesis by (simp add: topo_inv_def)
qed


section \<open>The operations keep the graph well-formed\<close>

lemma set_add_set [simp]: "set (set_add x xs) = insert x (set xs)"
  by (auto simp: set_add_def)

lemma distinct_set_add: "distinct xs \<Longrightarrow> distinct (set_add x xs)"
  by (simp add: set_add_def)

lemma set_union_set [simp]: "set (set_union xs ys) = set xs \<union> set ys"
  unfolding set_union_def by (induction ys arbitrary: xs) auto

lemma distinct_set_union: "distinct xs \<Longrightarrow> distinct (set_union xs ys)"
  unfolding set_union_def by (induction ys arbitrary: xs) (auto simp: distinct_set_add)

lemma add_vertex_ok: "graph_ok g \<Longrightarrow> graph_ok (add_vertex v g)"
  by (fastforce simp: graph_ok_def add_vertex_def)

lemma add_vertex_edges: "edge_set (add_vertex v g) = edge_set g"
  by (auto simp: edge_set_def add_vertex_def map_add_Some_iff map_of_eq_None_iff split: if_splits)

lemma add_vertex_vertices: "set (vertices (add_vertex v g)) = insert v (set (vertices g))"
  by (auto simp: vertices_def add_vertex_def)

lemma add_children_ok:
  assumes g: "graph_ok g" and cs: "set cs \<subseteq> insert p (fst ` set g)"
  shows "graph_ok (add_children p cs g)"
proof -
  let ?old = "case map_of g p of None \<Rightarrow> [] | Some ns \<Rightarrow> ns"
  have d: "distinct (map fst g)" using g by (simp add: graph_ok_def)
  have old: "distinct ?old" "set ?old \<subseteq> fst ` set g"
    using g by (auto simp: graph_ok_def split: option.splits dest!: map_of_SomeD)
  have "distinct ns \<and> set ns \<subseteq> insert p (fst ` set g)" if "(v, ns) \<in> set (add_children p cs g)" for v ns
    using that g old cs distinct_set_union [OF old(1), of cs]
    by (auto simp: add_children_def dict_set_pairs [OF d] graph_ok_def split: if_splits)
  then show ?thesis
    using d by (auto simp: graph_ok_def add_children_def fst_dict_set distinct_dict_set)
qed

lemma add_children_edges: "edge_set (add_children p cs g) = edge_set g \<union> {p} \<times> set cs"
  by (auto simp: edge_set_def add_children_def split: option.splits if_splits)

lemma add_children_vertices: "set (vertices (add_children p cs g)) = insert p (set (vertices g))"
  by (simp add: vertices_def add_children_def fst_dict_set)

lemma add_edge_ok: "graph_ok g \<Longrightarrow> graph_ok (add_edge p c g)"
  unfolding add_edge_def using add_vertex_vertices [of c g]
  by (intro add_children_ok add_vertex_ok) (auto simp: vertices_def)

lemma add_edge_edges: "edge_set (add_edge p c g) = insert (p, c) (edge_set g)"
  by (auto simp: add_edge_def add_children_edges add_vertex_edges)

lemma add_edge_vertices: "set (vertices (add_edge p c g)) = insert p (insert c (set (vertices g)))"
  by (simp add: add_edge_def add_children_vertices add_vertex_vertices)

section \<open>The paths are the maximal ones without repetition\<close>

definition simple_path :: "'v graph \<Rightarrow> 'v list \<Rightarrow> bool" where
  "simple_path g q \<longleftrightarrow> q \<noteq> [] \<and> distinct q \<and> (\<forall>xs a b ys. q = xs @ a # b # ys \<longrightarrow> (a, b) \<in> edge_set g)"

definition maximal :: "'v graph \<Rightarrow> 'v list \<Rightarrow> bool" where
  "maximal g q \<longleftrightarrow> (\<forall>n. (last q, n) \<in> edge_set g \<longrightarrow> n \<in> set q)"

lemma collect_results_ok:
  assumes "\<forall>x\<in>set xs. \<exists>ps. f x = Inr ps \<and> set ps = P x"
  shows "\<exists>ps. collect_results (map f xs) = Inr ps \<and> set ps = (\<Union>x\<in>set xs. P x)"
  using assms by (induction xs) fastforce+

lemma consecutive_snoc:
  assumes "path @ [n] = xs @ a # b # ys"
  shows "(\<exists>zs. path = xs @ a # b # zs) \<or> path = xs @ [a] \<and> b = n"
proof (cases ys rule: rev_cases)
  case Nil
  then have "path @ [n] = (xs @ [a]) @ [b]" using assms by simp
  then show ?thesis unfolding append1_eq_conv by simp
next
  case (snoc zs z)
  then have "path @ [n] = (xs @ a # b # zs) @ [z]" using assms by simp
  then show ?thesis unfolding append1_eq_conv by simp
qed

lemma simple_path_snoc:
  assumes "simple_path g path" and "(last path, n) \<in> edge_set g" and "n \<notin> set path"
  shows "simple_path g (path @ [n])"
proof -
  have "(a, b) \<in> edge_set g" if "path @ [n] = xs @ a # b # ys" for xs a b ys
    using consecutive_snoc [OF that]
  proof
    assume "\<exists>zs. path = xs @ a # b # zs"
    with assms(1) show ?thesis unfolding simple_path_def by blast
  next
    assume "path = xs @ [a] \<and> b = n"
    with assms(2) show ?thesis by simp
  qed
  with assms(1,3) show ?thesis unfolding simple_path_def by simp
qed

lemma search_paths_ok:
  "graph_ok g \<Longrightarrow> simple_path g path \<Longrightarrow> last path \<in> fst ` set g \<Longrightarrow>
    \<exists>ps. search_paths g path = Inr ps \<and> set ps = {q. prefix path q \<and> simple_path g q \<and> maximal g q}"
proof (induction g path rule: search_paths.induct)
  case (1 g path)
  obtain ns where ns: "map_of g (last path) = Some ns"
    using "1.prems"(3) by (auto simp: image_iff dest: weak_map_of_SomeI)
  let ?next = "filter (\<lambda>n. n \<notin> set path) ns"
  have edge: "(last path, n) \<in> edge_set g \<longleftrightarrow> n \<in> set ns" for n using ns by (simp add: edge_set_def)
  have ext: "q = path \<or> (\<exists>n\<in>set ?next. prefix (path @ [n]) q)" if q: "prefix path q" "simple_path g q" for q
  proof -
    obtain r where r: "q = path @ r" using q(1) by (auto simp: prefix_def)
    show ?thesis
    proof (cases r)
      case (Cons n r')
      have "path = butlast path @ [last path]" using "1.prems"(2) by (simp add: simple_path_def)
      then have "q = butlast path @ last path # n # r'" using r Cons by (metis append_Cons append_assoc append_Nil)
      then have "(last path, n) \<in> edge_set g" using q(2) unfolding simple_path_def by blast
      moreover have "n \<notin> set path" using q(2) r Cons by (auto simp: simple_path_def)
      ultimately show ?thesis using edge r Cons by (auto simp: prefix_def)
    qed (use r in simp)
  qed
  show ?case
  proof (cases "?next = []")
    case True
    then have "maximal g path" using edge by (auto simp: maximal_def filter_empty_conv)
    then have "{q. prefix path q \<and> simple_path g q \<and> maximal g q} = {path}"
      using ext True "1.prems"(2) by auto
    then show ?thesis using ns True by (simp add: search_paths.simps [of g path])
  next
    case False
    let ?P = "\<lambda>n. {q. prefix (path @ [n]) q \<and> simple_path g q \<and> maximal g q}"
    have "\<exists>ps. search_paths g (path @ [n]) = Inr ps \<and> set ps = ?P n" if n: "n \<in> set ?next" for n
    proof -
      have "n \<in> fst ` set g" using "1.prems"(1) map_of_SomeD [OF ns] n by (auto simp: graph_ok_def)
      moreover have "simple_path g (path @ [n])"
        using simple_path_snoc [OF "1.prems"(2)] edge n by auto
      ultimately show ?thesis using "1.IH" [OF ns refl False n "1.prems"(1)] by simp
    qed
    then obtain ps where ps: "collect_results (map (\<lambda>n. search_paths g (path @ [n])) ?next) = Inr ps"
      "set ps = (\<Union>n\<in>set ?next. ?P n)"
      using collect_results_ok [of ?next "\<lambda>n. search_paths g (path @ [n])" ?P] by blast
    have "\<not> maximal g path" using False edge by (auto simp: maximal_def filter_empty_conv)
    then have "{q. prefix path q \<and> simple_path g q \<and> maximal g q} = (\<Union>n\<in>set ?next. ?P n)"
      using ext by (auto dest: append_prefixD)
    with ps ns False show ?thesis by (simp add: search_paths.simps [of g path])
  qed
qed

lemma paths_ok:
  assumes "graph_ok g" and "v \<in> set (vertices g)"
  shows "\<exists>ps. paths g v = Inr ps \<and> set ps = {q. hd q = v \<and> simple_path g q \<and> maximal g q}"
proof -
  have "simple_path g [v]" by (auto simp: simple_path_def Cons_eq_append_conv)
  from search_paths_ok [OF assms(1) this] assms(2)
  obtain ps where "search_paths g [v] = Inr ps" "set ps = {q. prefix [v] q \<and> simple_path g q \<and> maximal g q}"
    by (auto simp: vertices_def)
  moreover have "prefix [v] q \<and> simple_path g q \<longleftrightarrow> hd q = v \<and> simple_path g q" for q
    by (cases q) (auto simp: simple_path_def)
  ultimately show ?thesis by (auto simp: paths_def)
qed

end
