(* ===== verification/PyValue.thy ===== *)
theory PyValue
  imports PyString
begin

text \<open>
  The Python values that the jobs carry as arguments, results and stored field values, with the
  operations of the language that the code uses on them: truth, \<open>in\<close>, \<open>dict.get\<close>, \<open>dict.update\<close>.
  Datetimes, dates and time differences are integers in one unit; a recordset is its model, its
  identifiers, its user and its superuser flag.
\<close>

record recordset =
  rs_model :: string
  rs_ids :: "int list"
  rs_uid :: int
  rs_su :: bool

datatype pyval =
    PNone
  | PBool bool
  | PInt int
  | PStr string
  | PList "pyval list"
  | PTuple "pyval list"
  | PDict "(string \<times> pyval) list"
  | PRecords recordset
  | PDatetime int
  | PTimedelta int

type_synonym fields = "(string \<times> pyval) list"

text \<open>\<open>bool(v)\<close>. A datetime is always true, a time difference unless it is zero, a recordset unless
  it is empty.\<close>

fun py_true :: "pyval \<Rightarrow> bool" where
  "py_true PNone = False"
| "py_true (PBool b) = b"
| "py_true (PInt n) = (n \<noteq> 0)"
| "py_true (PStr s) = (s \<noteq> [])"
| "py_true (PList xs) = (xs \<noteq> [])"
| "py_true (PTuple xs) = (xs \<noteq> [])"
| "py_true (PDict kvs) = (kvs \<noteq> [])"
| "py_true (PRecords r) = (rs_ids r \<noteq> [])"
| "py_true (PDatetime t) = True"
| "py_true (PTimedelta t) = (t \<noteq> 0)"

text \<open>\<open>a or b\<close>.\<close>

definition py_or :: "pyval \<Rightarrow> pyval \<Rightarrow> pyval" where
  "py_or a b = (if py_true a then a else b)"

text \<open>\<open>d.get(k, default)\<close> and \<open>d.update(e)\<close>.\<close>

definition dict_get :: "'v \<Rightarrow> ('k \<times> 'v) list \<Rightarrow> 'k \<Rightarrow> 'v" where
  "dict_get dflt d k = (case map_of d k of None \<Rightarrow> dflt | Some v \<Rightarrow> v)"

fun dict_update :: "('k \<times> 'v) list \<Rightarrow> ('k \<times> 'v) list \<Rightarrow> ('k \<times> 'v) list" where
  "dict_update d [] = d"
| "dict_update d ((k, v) # e) = dict_update (dict_set k v d) e"

lemma map_of_dict_update: "distinct (map fst e) \<Longrightarrow> map_of (dict_update d e) = map_of d ++ map_of e"
proof (induction d e rule: dict_update.induct)
  case (2 d k v e)
  then have "map_of e k = None" by (simp add: map_of_eq_None_iff)
  with 2 show ?case by (auto simp: fun_eq_iff map_add_def split: option.splits)
qed simp

lemma dict_update_keys: "fst ` set (dict_update d e) = fst ` set d \<union> fst ` set e"
  by (induction d e rule: dict_update.induct) (auto simp: fst_dict_set)

text \<open>An optional value as the code stores it: \<open>None\<close> or the value.\<close>

definition opt_val :: "('a \<Rightarrow> pyval) \<Rightarrow> 'a option \<Rightarrow> pyval" where
  "opt_val f x = (case x of None \<Rightarrow> PNone | Some y \<Rightarrow> f y)"

lemma opt_val_simps [simp]: "opt_val f None = PNone" "opt_val f (Some y) = f y"
  by (simp_all add: opt_val_def)

end
