(* ===== verification/Job.thy ===== *)
theory Job
  imports PyValue "HOL-Library.List_Lexorder" "HOL-Library.Char_ord"
begin

text \<open>
  The class \<open>Job\<close> of \<open>queue_job/job.py\<close>: the life cycle of a job in memory. The clock, the uuid that
  is drawn for a new job, the process id, \<open>randint\<close>, the hash function and the configuration of the
  job functions are arguments. The other jobs a job refers to are looked up by uuid: they are the
  objects in memory when the job was built there, the records of the database when it was loaded.
\<close>

section \<open>Data\<close>

datatype JobState = WAIT_DEPENDENCIES | PENDING | ENQUEUED | CANCELLED | DONE | STARTED | FAILED

fun state_name :: "JobState \<Rightarrow> string" where
  "state_name WAIT_DEPENDENCIES = ''wait_dependencies''"
| "state_name PENDING = ''pending''"
| "state_name ENQUEUED = ''enqueued''"
| "state_name CANCELLED = ''cancelled''"
| "state_name DONE = ''done''"
| "state_name STARTED = ''started''"
| "state_name FAILED = ''failed''"

definition STATES :: "(string \<times> string) list" where
  "STATES =
     [(state_name WAIT_DEPENDENCIES, ''Wait Dependencies''), (state_name PENDING, ''Pending''),
      (state_name ENQUEUED, ''Enqueued''), (state_name STARTED, ''Started''), (state_name DONE, ''Done''),
      (state_name CANCELLED, ''Cancelled''), (state_name FAILED, ''Failed'')]"

definition DEFAULT_PRIORITY :: int where "DEFAULT_PRIORITY = 10"
definition DEFAULT_MAX_RETRIES :: int where "DEFAULT_MAX_RETRIES = 5"
definition RETRY_INTERVAL :: int where "RETRY_INTERVAL = 10 * 60"

text \<open>A number of seconds, a pair of bounds between which one is drawn, or a value that cannot be drawn
  from, with the exception that the attempt raises.\<close>

datatype seconds = Fixed int | Between int int | NotSeconds PyError

record JobConfig =
  jc_channel :: string
  jc_retry_pattern :: "(int \<times> seconds) list"
  jc_related_action_enable :: pyval
  jc_related_action_func_name :: pyval
  jc_related_action_kwargs :: pyval
  jc_job_function_id :: pyval

definition job_default_config :: JobConfig where
  "job_default_config =
     \<lparr>jc_channel = ''root'', jc_retry_pattern = [], jc_related_action_enable = PBool True,
      jc_related_action_func_name = PNone, jc_related_action_kwargs = PDict [], jc_job_function_id = PNone\<rparr>"

record Job =
  j_method_name :: string
  j_recordset :: recordset
  j_config :: JobConfig
  j_state :: JobState
  j_retry :: int
  j_max_retries :: int
  j_uuid :: string
  j_graph_uuid :: "string option"
  j_args :: "pyval list"
  j_kwargs :: fields
  j_depends_on_uuids :: "string list"
  j_reverse_depends_on_uuids :: "string list"
  j_priority :: int
  j_date_created :: int
  j_description :: "string option"
  j_identity_key :: "string option"
  j_identity_key_func :: bool
  j_date_enqueued :: "int option"
  j_date_started :: "int option"
  j_date_done :: "int option"
  j_date_cancelled :: "int option"
  j_result :: pyval
  j_exc_name :: "string option"
  j_exc_message :: "string option"
  j_exc_info :: "string option"
  j_company_id :: int
  j_eta :: "int option"
  j_channel :: "string option"
  j_worker_pid :: "int option"

section \<open>Construction\<close>

text \<open>What can be passed as the function of a job and as its eta. An eta of no duration is none.\<close>

datatype func = ModelMethod recordset string | Function string

datatype eta_arg = NoEta | EtaDelta int | EtaSeconds int | EtaAt int

text \<open>A key, a function that computes one, or none.\<close>

datatype key_arg = NoKey | Key string | KeyFunc

definition is_model_method :: "func \<Rightarrow> bool" where
  "is_model_method f = (case f of ModelMethod _ _ \<Rightarrow> True | Function _ \<Rightarrow> False)"

definition job_function_name :: "string \<Rightarrow> string \<Rightarrow> string" where
  "job_function_name model_name method_name = ''<'' @ model_name @ ''>.'' @ method_name"

definition set_eta :: "int \<Rightarrow> eta_arg \<Rightarrow> Job \<Rightarrow> Job" where
  "set_eta now value j =
     j\<lparr>j_eta := (case value of
         NoEta \<Rightarrow> None
       | EtaDelta d \<Rightarrow> if d = 0 then None else Some (now + d)
       | EtaSeconds n \<Rightarrow> if n = 0 then None else Some (now + n)
       | EtaAt t \<Rightarrow> Some t)\<rparr>"

definition set_identity_key :: "key_arg \<Rightarrow> Job \<Rightarrow> Job" where
  "set_identity_key value j =
     (case value of
        Key s \<Rightarrow> j\<lparr>j_identity_key := Some s, j_identity_key_func := False\<rparr>
      | KeyFunc \<Rightarrow> j\<lparr>j_identity_key := None, j_identity_key_func := True\<rparr>
      | NoKey \<Rightarrow> j\<lparr>j_identity_key := None, j_identity_key_func := False\<rparr>)"

record job_args =
  ja_args :: pyval
  ja_kwargs :: pyval
  ja_priority :: "int option"
  ja_eta :: eta_arg
  ja_job_uuid :: "string option"
  ja_max_retries :: "int option"
  ja_description :: "string option"
  ja_channel :: "string option"
  ja_identity_key :: key_arg

text \<open>The environment of a new job: the time, the uuid that \<open>uuid4\<close> would draw, the company of the
  context if any, the company of the environment, the configuration of the job functions.\<close>

record job_env =
  je_now :: int
  je_fresh_uuid :: string
  je_context_company :: "int option"
  je_company :: int
  je_job_config :: "string \<Rightarrow> JobConfig"

definition job_init :: "job_env \<Rightarrow> func \<Rightarrow> job_args \<Rightarrow> Job result" where
  "job_init env f a =
     rbind (case ja_args a of
              PNone \<Rightarrow> Inr [] | PList xs \<Rightarrow> Inr xs | PTuple xs \<Rightarrow> Inr xs | _ \<Rightarrow> Inl AssertionError) (\<lambda>args.
     rbind (case ja_kwargs a of PNone \<Rightarrow> Inr [] | PDict d \<Rightarrow> Inr d | _ \<Rightarrow> Inl AssertionError) (\<lambda>kwargs.
     case f of
       Function _ \<Rightarrow> Inl TypeError
     | ModelMethod recordset method \<Rightarrow>
         Inr (set_eta (je_now env) (ja_eta a) (set_identity_key (ja_identity_key a)
           \<lparr>j_method_name = method, j_recordset = recordset,
            j_config = je_job_config env (job_function_name (rs_model recordset) method),
            j_state = PENDING, j_retry = 0,
            j_max_retries = (case ja_max_retries a of None \<Rightarrow> DEFAULT_MAX_RETRIES | Some n \<Rightarrow> n),
            j_uuid = (case ja_job_uuid a of None \<Rightarrow> je_fresh_uuid env | Some u \<Rightarrow> u),
            j_graph_uuid = None, j_args = args, j_kwargs = kwargs,
            j_depends_on_uuids = [], j_reverse_depends_on_uuids = [],
            j_priority = (case ja_priority a of None \<Rightarrow> DEFAULT_PRIORITY | Some n \<Rightarrow> n),
            j_date_created = je_now env, j_description = ja_description a,
            j_identity_key = None, j_identity_key_func = False,
            j_date_enqueued = None, j_date_started = None, j_date_done = None, j_date_cancelled = None,
            j_result = PNone, j_exc_name = None, j_exc_message = None, j_exc_info = None,
            j_company_id = (case je_context_company env of None \<Rightarrow> je_company env | Some c \<Rightarrow> c),
            j_eta = None, j_channel = ja_channel a, j_worker_pid = None\<rparr>))))"

section \<open>Properties of the object\<close>

text \<open>\<open>identity_key\<close> computes the key on its first use and keeps it.\<close>

definition identity_key :: "(Job \<Rightarrow> string) \<Rightarrow> Job \<Rightarrow> string option \<times> Job" where
  "identity_key key_func j =
     (case j_identity_key j of
        Some k \<Rightarrow> (Some k, j)
      | None \<Rightarrow>
          if j_identity_key_func j
          then (Some (key_func j), j\<lparr>j_identity_key := Some (key_func j)\<rparr>)
          else (None, j))"

definition job_channel :: "Job \<Rightarrow> string" where
  "job_channel j =
     (case j_channel j of
        Some c \<Rightarrow> if c \<noteq> [] then c else jc_channel (j_config j)
      | None \<Rightarrow> jc_channel (j_config j))"

definition exec_time :: "Job \<Rightarrow> int option" where
  "exec_time j =
     (case (j_date_done j, j_date_started j) of (Some d, Some s) \<Rightarrow> Some (d - s) | _ \<Rightarrow> None)"

text \<open>The first line of a text, as \<open>splitlines()[0]\<close>.\<close>

definition py_linebreak :: "char \<Rightarrow> bool" where
  "py_linebreak c = (let n = of_char c :: nat in 10 \<le> n \<and> n \<le> 13 \<or> 28 \<le> n \<and> n \<le> 30 \<or> n = 133)"

definition first_line :: "string \<Rightarrow> string" where
  "first_line s = py_strip (takeWhile (\<lambda>c. \<not> py_linebreak c) s)"

definition description :: "(string \<Rightarrow> string \<Rightarrow> string option) \<Rightarrow> Job \<Rightarrow> string" where
  "description doc j =
     (case j_description j of
        Some (c # cs) \<Rightarrow> c # cs
      | _ \<Rightarrow>
          (case doc (rs_model (j_recordset j)) (j_method_name j) of
             Some (c # cs) \<Rightarrow> first_line (c # cs)
           | _ \<Rightarrow> rs_model (j_recordset j) @ ''.'' @ j_method_name j))"

definition func_string :: "(pyval \<Rightarrow> string) \<Rightarrow> Job \<Rightarrow> string" where
  "func_string repr j =
     repr (PRecords (j_recordset j)) @ ''.'' @ j_method_name j @ ''('' @
       py_join '', '' (map repr (j_args j) @ map (\<lambda>(k, v). k @ ''='' @ repr v) (j_kwargs j)) @ '')''"

text \<open>The identity of a job by its model, method, records and arguments, for a hash function.\<close>

definition identity_exact :: "(string \<Rightarrow> string) \<Rightarrow> (pyval \<Rightarrow> string) \<Rightarrow> Job \<Rightarrow> string" where
  "identity_exact sha1 repr j =
     sha1 (rs_model (j_recordset j) @ j_method_name j @
       repr (PList (map PInt (sort (rs_ids (j_recordset j))))) @ repr (PTuple (j_args j)) @
       repr (PList (map (\<lambda>(k, v). PTuple [PStr k, v]) (sort_key fst (j_kwargs j)))))"

section \<open>Dependencies\<close>

definition job_depends_on :: "(string \<Rightarrow> Job option) \<Rightarrow> Job \<Rightarrow> Job list" where
  "job_depends_on lookup j = List.map_filter lookup (j_depends_on_uuids j)"

definition job_reverse_depends_on :: "(string \<Rightarrow> Job option) \<Rightarrow> Job \<Rightarrow> Job list" where
  "job_reverse_depends_on lookup j = List.map_filter lookup (j_reverse_depends_on_uuids j)"

definition add_uuids :: "string list \<Rightarrow> string list \<Rightarrow> string list" where
  "add_uuids us vs = us @ filter (\<lambda>v. v \<notin> set us) (remdups vs)"

text \<open>\<open>add_depends\<close> changes the job and the jobs it now depends on.\<close>

definition add_depends :: "Job list \<Rightarrow> Job \<Rightarrow> (Job \<times> Job list) result" where
  "add_depends js j =
     (if j_uuid j \<in> j_uuid ` set js then Inl ValueError
      else Inr (j\<lparr>j_depends_on_uuids := add_uuids (j_depends_on_uuids j) (map j_uuid js),
                  j_state := (if \<exists>p\<in>set js. j_state p \<noteq> DONE then WAIT_DEPENDENCIES else j_state j)\<rparr>,
                map (\<lambda>p. p\<lparr>j_reverse_depends_on_uuids := add_uuids (j_reverse_depends_on_uuids p) [j_uuid j]\<rparr>) js))"

section \<open>Running\<close>

datatype job_exc =
    RetryableJobError string "seconds option" bool
  | FailedJobError string
  | NothingToDoJob string
  | OperationalError string string
  | OtherError string string

text \<open>\<open>perform\<close>, given what the function of the job does.\<close>

definition perform :: "job_exc + pyval \<Rightarrow> Job \<Rightarrow> Job \<times> (job_exc + pyval)" where
  "perform outcome j0 =
     (let j = j0\<lparr>j_retry := j_retry j0 + 1\<rparr> in
      case outcome of
        Inr v \<Rightarrow> (j\<lparr>j_result := v\<rparr>, Inr v)
      | Inl (RetryableJobError msg s ignore_retry) \<Rightarrow>
          if ignore_retry then (j\<lparr>j_retry := j_retry j - 1\<rparr>, outcome)
          else if j_max_retries j = 0 then (j, outcome)
          else if j_retry j \<ge> j_max_retries j
          then (j, Inl (FailedJobError (''Max. retries ('' @ show_int (j_max_retries j) @ '') reached: '' @ msg)))
          else (j, outcome)
      | Inl _ \<Rightarrow> (j, outcome))"

fun retry_scan :: "int \<Rightarrow> (int \<times> seconds) list \<Rightarrow> seconds \<Rightarrow> seconds" where
  "retry_scan retry [] s = s"
| "retry_scan retry ((retry_count, postpone_seconds) # patt) s =
     (if retry \<ge> retry_count then retry_scan retry patt postpone_seconds else s)"

definition get_retry_seconds :: "(int \<Rightarrow> int \<Rightarrow> int) \<Rightarrow> seconds option \<Rightarrow> Job \<Rightarrow> int result" where
  "get_retry_seconds randint s j =
     (let pattern = jc_retry_pattern (j_config j);
          missing = (s = None \<or> s = Some (Fixed 0));
          chosen =
            (if missing \<and> pattern \<noteq> []
             then retry_scan (j_retry j) (sort_key fst pattern) (Fixed RETRY_INTERVAL)
             else if missing then Fixed RETRY_INTERVAL else the s)
      in case chosen of
           Fixed n \<Rightarrow> Inr n
         | Between a b \<Rightarrow> if a \<le> b then Inr (randint a b) else Inl ValueError
         | NotSeconds e \<Rightarrow> Inl e)"

definition set_result :: "pyval option \<Rightarrow> Job \<Rightarrow> Job" where
  "set_result result j = (case result of None \<Rightarrow> j | Some v \<Rightarrow> j\<lparr>j_result := v\<rparr>)"

definition postpone ::
  "(int \<Rightarrow> int \<Rightarrow> int) \<Rightarrow> int \<Rightarrow> pyval option \<Rightarrow> seconds option \<Rightarrow> Job \<Rightarrow> Job result" where
  "postpone randint now result s j =
     rbind (get_retry_seconds randint s j) (\<lambda>eta_seconds.
     Inr (set_result result ((set_eta now (EtaDelta eta_seconds) j)\<lparr>j_exc_name := None, j_exc_info := None\<rparr>)))"

section \<open>States\<close>

definition set_pending :: "(string \<Rightarrow> Job option) \<Rightarrow> pyval option \<Rightarrow> bool \<Rightarrow> Job \<Rightarrow> Job" where
  "set_pending lookup result reset_retry j =
     set_result result
       (j\<lparr>j_state := (if \<exists>p\<in>set (job_depends_on lookup j). j_state p \<noteq> DONE then WAIT_DEPENDENCIES else PENDING),
          j_date_enqueued := None, j_date_started := None, j_date_done := None, j_worker_pid := None,
          j_date_cancelled := None, j_retry := (if reset_retry then 0 else j_retry j)\<rparr>)"

definition set_enqueued :: "int \<Rightarrow> Job \<Rightarrow> Job" where
  "set_enqueued now j =
     j\<lparr>j_state := ENQUEUED, j_date_enqueued := Some now, j_date_started := None, j_worker_pid := None\<rparr>"

definition set_started :: "int \<Rightarrow> int \<Rightarrow> Job \<Rightarrow> Job" where
  "set_started now pid j = j\<lparr>j_state := STARTED, j_date_started := Some now, j_worker_pid := Some pid\<rparr>"

definition set_done :: "int \<Rightarrow> pyval option \<Rightarrow> Job \<Rightarrow> Job" where
  "set_done now result j =
     set_result result (j\<lparr>j_state := DONE, j_exc_name := None, j_exc_info := None, j_date_done := Some now\<rparr>)"

definition set_cancelled :: "int \<Rightarrow> pyval option \<Rightarrow> Job \<Rightarrow> Job" where
  "set_cancelled now result j = set_result result (j\<lparr>j_state := CANCELLED, j_date_cancelled := Some now\<rparr>)"

text \<open>The keyword arguments that are not \<open>None\<close> are set; the callers pass these three.\<close>

definition set_failed :: "string option \<Rightarrow> string option \<Rightarrow> string option \<Rightarrow> Job \<Rightarrow> Job" where
  "set_failed exc_name exc_message exc_info j =
     j\<lparr>j_state := FAILED,
       j_exc_name := (case exc_name of None \<Rightarrow> j_exc_name j | s \<Rightarrow> s),
       j_exc_message := (case exc_message of None \<Rightarrow> j_exc_message j | s \<Rightarrow> s),
       j_exc_info := (case exc_info of None \<Rightarrow> j_exc_info j | s \<Rightarrow> s)\<rparr>"

section \<open>The related action\<close>

text \<open>The method of the job record that is called, with its keyword arguments; \<open>None\<close> when related
  actions are disabled.\<close>

definition related_action :: "string \<Rightarrow> Job \<Rightarrow> (string \<times> pyval) option result" where
  "related_action default_action j =
     (if \<not> py_true (jc_related_action_enable (j_config j)) then Inr None
      else (case py_or (jc_related_action_func_name (j_config j)) (PStr default_action) of
              PStr funcname \<Rightarrow> Inr (Some (funcname, jc_related_action_kwargs (j_config j)))
            | _ \<Rightarrow> Inl ValueError))"

end
