(* ===== verification/JobStore.thy ===== *)
theory JobStore
  imports Job
begin

text \<open>
  The table of the jobs and what \<open>queue_job/job.py\<close> does with it: \<open>_store_values\<close>, \<open>store\<close>,
  \<open>_load_from_db_record\<close>, \<open>load\<close>, \<open>load_many\<close>, the locks, and the query that changes the state of the
  jobs that wait for others. A row maps the names of the fields to their values; a field without a value
  reads as \<open>False\<close>, as the ORM has it.
\<close>

type_synonym row = fields
type_synonym table = "row list"

section \<open>Reading a row\<close>

definition fld :: "string \<Rightarrow> row \<Rightarrow> pyval" where
  "fld k r = (case map_of r k of None \<Rightarrow> PBool False | Some PNone \<Rightarrow> PBool False | Some v \<Rightarrow> v)"

fun val_str :: "pyval \<Rightarrow> string option" where
  "val_str (PStr s) = Some s"
| "val_str _ = None"

fun val_int :: "pyval \<Rightarrow> int option" where
  "val_int (PInt n) = Some n"
| "val_int _ = None"

fun val_date :: "pyval \<Rightarrow> int option" where
  "val_date (PDatetime t) = Some t"
| "val_date _ = None"

fun val_list :: "pyval \<Rightarrow> pyval list" where
  "val_list (PList xs) = xs"
| "val_list (PTuple xs) = xs"
| "val_list _ = []"

fun val_dict :: "pyval \<Rightarrow> fields" where
  "val_dict (PDict d) = d"
| "val_dict _ = []"

definition val_strs :: "pyval \<Rightarrow> string list" where
  "val_strs v = List.map_filter val_str (val_list v)"

definition state_of_name :: "string \<Rightarrow> JobState option" where
  "state_of_name s =
     find (\<lambda>st. state_name st = s) [WAIT_DEPENDENCIES, PENDING, ENQUEUED, CANCELLED, DONE, STARTED, FAILED]"

lemma state_of_name [simp]: "state_of_name (state_name st) = Some st"
  by (cases st) (simp_all add: state_of_name_def)

definition row_uuid :: "row \<Rightarrow> string" where
  "row_uuid r = (case fld ''uuid'' r of PStr s \<Rightarrow> s | _ \<Rightarrow> [])"

definition row_graph :: "row \<Rightarrow> string option" where
  "row_graph r = val_str (fld ''graph_uuid'' r)"

definition row_state :: "row \<Rightarrow> JobState option" where
  "row_state r = (case fld ''state'' r of PStr s \<Rightarrow> state_of_name s | _ \<Rightarrow> None)"

definition row_depends_on :: "row \<Rightarrow> string list" where
  "row_depends_on r = val_strs (dict_get (PList []) (val_dict (fld ''dependencies'' r)) ''depends_on'')"

definition row_reverse_depends_on :: "row \<Rightarrow> string list" where
  "row_reverse_depends_on r =
     val_strs (dict_get (PList []) (val_dict (fld ''dependencies'' r)) ''reverse_depends_on'')"

section \<open>Storing\<close>

text \<open>The values from the model must not replace the ones of the job.\<close>

definition add_model_values :: "fields \<Rightarrow> fields \<Rightarrow> fields" where
  "add_model_values vals_from_model vals =
     dict_update vals (filter (\<lambda>(k, v). k \<notin> fst ` set vals) vals_from_model)"

text \<open>A value that is kept if it is set and replaces a \<open>False\<close>.\<close>

definition or_false :: "('a \<Rightarrow> pyval) \<Rightarrow> 'a option \<Rightarrow> pyval" where
  "or_false f x = (case x of None \<Rightarrow> PBool False | Some y \<Rightarrow> if py_true (f y) then f y else PBool False)"

text \<open>What a job takes from its surroundings when it is stored: \<open>repr\<close> and \<open>str\<close>, its identity function, the
  documentation of the methods, the other jobs, the user, and the values from the model.\<close>

record store_env =
  se_repr :: "pyval \<Rightarrow> string"
  se_str :: "pyval \<Rightarrow> string"
  se_key_func :: "Job \<Rightarrow> string"
  se_doc :: "string \<Rightarrow> string \<Rightarrow> string option"
  se_lookup :: "string \<Rightarrow> Job option"
  se_uid :: int
  se_from_model :: "Job \<Rightarrow> fields"

definition core_values :: "store_env \<Rightarrow> bool \<Rightarrow> Job \<Rightarrow> fields" where
  "core_values env create j =
      ([(''state'', PStr (state_name (j_state j))), (''priority'', PInt (j_priority j)),
        (''retry'', PInt (j_retry j)), (''max_retries'', PInt (j_max_retries j)),
        (''exc_name'', opt_val PStr (j_exc_name j)), (''exc_message'', opt_val PStr (j_exc_message j)),
        (''exc_info'', opt_val PStr (j_exc_info j)), (''company_id'', PInt (j_company_id j)),
        (''result'', if py_true (j_result j) then PStr (se_str env (j_result j)) else PBool False),
        (''date_enqueued'', or_false PDatetime (j_date_enqueued j)),
        (''date_started'', or_false PDatetime (j_date_started j)),
        (''date_done'', or_false PDatetime (j_date_done j)),
        (''exec_time'', or_false PInt (exec_time j)),
        (''date_cancelled'', or_false PDatetime (j_date_cancelled j)),
        (''eta'', or_false PDatetime (j_eta j)),
        (''identity_key'', or_false PStr (fst (identity_key (se_key_func env) j))),
        (''worker_pid'', opt_val PInt (j_worker_pid j)), (''graph_uuid'', opt_val PStr (j_graph_uuid j)),
        (''dependencies'', PDict
          [(''depends_on'', PList (map (PStr \<circ> j_uuid) (job_depends_on (se_lookup env) j))),
           (''reverse_depends_on'', PList (map (PStr \<circ> j_uuid) (job_reverse_depends_on (se_lookup env) j)))])] @
       (if create
        then [(''user_id'', PInt (se_uid env)), (''channel'', PStr (job_channel j)), (''uuid'', PStr (j_uuid j)),
              (''name'', PStr (description (se_doc env) j)), (''func_string'', PStr (func_string (se_repr env) j)),
              (''date_created'', PDatetime (j_date_created j)),
              (''model_name'', PStr (rs_model (j_recordset j))), (''method_name'', PStr (j_method_name j)),
              (''job_function_id'', jc_job_function_id (j_config j)),
              (''channel_method_name'', PStr (job_function_name (rs_model (j_recordset j)) (j_method_name j))),
              (''records'', PRecords (j_recordset j)), (''args'', PTuple (j_args j)),
              (''kwargs'', PDict (j_kwargs j))]
        else []))"

definition store_values :: "store_env \<Rightarrow> bool \<Rightarrow> Job \<Rightarrow> fields" where
  "store_values env create j = add_model_values (se_from_model env j) (core_values env create j)"

text \<open>\<open>store\<close> writes the row of the job if it is there and creates it otherwise.\<close>

definition store :: "store_env \<Rightarrow> Job \<Rightarrow> table \<Rightarrow> table" where
  "store env j db =
     (if \<exists>r\<in>set db. row_uuid r = j_uuid j
      then map (\<lambda>r. if row_uuid r = j_uuid j then dict_update r (store_values env False j) else r) db
      else db @ [store_values env True j])"

section \<open>Loading\<close>

text \<open>
  \<open>_load_from_db_record\<close>. The stored method must be a method of the stored records; otherwise the
  constructor refuses it.
\<close>

definition load_from_db_record :: "job_env \<Rightarrow> (string \<Rightarrow> string \<Rightarrow> bool) \<Rightarrow> row \<Rightarrow> Job result" where
  "load_from_db_record env is_method stored =
     (case (fld ''records'' stored, fld ''method_name'' stored) of
        (PRecords recordset, PStr method) \<Rightarrow>
          rbind (job_init env
             (if is_method (rs_model recordset) method then ModelMethod recordset method else Function method)
             \<lparr>ja_args = fld ''args'' stored, ja_kwargs = fld ''kwargs'' stored,
              ja_priority = val_int (fld ''priority'' stored),
              ja_eta = (case val_date (fld ''eta'' stored) of None \<Rightarrow> NoEta | Some t \<Rightarrow> EtaAt t),
              ja_job_uuid = val_str (fld ''uuid'' stored), ja_max_retries = None,
              ja_description = val_str (fld ''name'' stored), ja_channel = val_str (fld ''channel'' stored),
              ja_identity_key = (case fld ''identity_key'' stored of PStr k \<Rightarrow> Key k | _ \<Rightarrow> NoKey)\<rparr>) (\<lambda>j.
          (case row_state stored of
             None \<Rightarrow> Inl ValueError
           | Some state \<Rightarrow>
          Inr (j\<lparr>j_date_created := (case val_date (fld ''date_created'' stored) of
                    None \<Rightarrow> j_date_created j | Some t \<Rightarrow> t),
                 j_date_enqueued := val_date (fld ''date_enqueued'' stored),
                 j_date_started := val_date (fld ''date_started'' stored),
                 j_date_done := val_date (fld ''date_done'' stored),
                 j_date_cancelled := val_date (fld ''date_cancelled'' stored),
                 j_state := state,
                 j_graph_uuid := (if py_true (fld ''graph_uuid'' stored) then val_str (fld ''graph_uuid'' stored) else None),
                 j_result := (if py_true (fld ''result'' stored) then fld ''result'' stored else PNone),
                 j_exc_info := (if py_true (fld ''exc_info'' stored) then val_str (fld ''exc_info'' stored) else None),
                 j_retry := (case val_int (fld ''retry'' stored) of None \<Rightarrow> 0 | Some n \<Rightarrow> n),
                 j_max_retries := (case val_int (fld ''max_retries'' stored) of None \<Rightarrow> 0 | Some n \<Rightarrow> n),
                 j_company_id := (case val_int (fld ''company_id'' stored) of
                    Some n \<Rightarrow> n | None \<Rightarrow> j_company_id j),
                 j_worker_pid := val_int (fld ''worker_pid'' stored),
                 j_depends_on_uuids := row_depends_on stored,
                 j_reverse_depends_on_uuids := row_reverse_depends_on stored\<rparr>)))
      | _ \<Rightarrow> Inl AttributeError)"

definition db_records_from_uuids :: "table \<Rightarrow> string list \<Rightarrow> table" where
  "db_records_from_uuids db uuids = filter (\<lambda>r. row_uuid r \<in> set uuids) db"

text \<open>A job that is not there is an error for \<open>load\<close> and is ignored by \<open>load_many\<close>.\<close>

definition load :: "job_env \<Rightarrow> (string \<Rightarrow> string \<Rightarrow> bool) \<Rightarrow> table \<Rightarrow> string \<Rightarrow> Job result" where
  "load env is_method db uuid =
     (case db_records_from_uuids db [uuid] of
        [] \<Rightarrow> Inl NoSuchJobError
      | stored # _ \<Rightarrow> load_from_db_record env is_method stored)"

fun load_all :: "job_env \<Rightarrow> (string \<Rightarrow> string \<Rightarrow> bool) \<Rightarrow> row list \<Rightarrow> Job list result" where
  "load_all env is_method [] = Inr []"
| "load_all env is_method (r # rs) =
     rbind (load_from_db_record env is_method r) (\<lambda>j.
     rbind (load_all env is_method rs) (\<lambda>js. Inr (j # js)))"

definition load_many :: "job_env \<Rightarrow> (string \<Rightarrow> string \<Rightarrow> bool) \<Rightarrow> table \<Rightarrow> string list \<Rightarrow> Job list result" where
  "load_many env is_method db uuids = load_all env is_method (db_records_from_uuids db uuids)"

text \<open>\<open>job_record_with_same_identity_key\<close>: a job with the key that has not been started, the first in the
  order of the table.\<close>

definition same_identity :: "string option \<Rightarrow> table \<Rightarrow> row option" where
  "same_identity key db =
     find (\<lambda>r. fld ''identity_key'' r = (case key of None \<Rightarrow> PBool False | Some k \<Rightarrow> PStr k) \<and>
               row_state r \<in> {Some WAIT_DEPENDENCIES, Some PENDING, Some ENQUEUED}) db"

section \<open>Locks\<close>

text \<open>
  The table \<open>queue_job_lock\<close> as the uuids of its jobs. \<open>lock\<close> expects exactly one row for a started
  job.
\<close>

definition add_lock_record :: "table \<Rightarrow> string \<Rightarrow> string list \<Rightarrow> string list" where
  "add_lock_record db uuid locks =
     locks @ filter (\<lambda>u. u \<notin> set locks) (map row_uuid (filter (\<lambda>r. row_uuid r = uuid) db))"

definition lock :: "table \<Rightarrow> string \<Rightarrow> string list \<Rightarrow> job_exc + unit" where
  "lock db uuid locks =
     (if length (filter (\<lambda>u. u \<in> set (map row_uuid
              (filter (\<lambda>r. row_uuid r = uuid \<and> row_state r = Some STARTED) db))) locks) = 1
      then Inr ()
      else Inl (RetryableJobError (''Trying to lock job that wasn't started, uuid: '' @ uuid) None False))"

section \<open>The jobs that depend on a job\<close>

text \<open>
  The query of \<open>_get_common_dependent_jobs_query\<close>: the children of the job in its graph that have a
  parent in the graph, all of whose parents in the graph have the given state. An SQL comparison with
  a missing graph holds for no row.
\<close>

definition same_graph :: "row \<Rightarrow> row \<Rightarrow> bool" where
  "same_graph a b \<longleftrightarrow> row_graph a \<noteq> None \<and> row_graph a = row_graph b"

definition parent_states :: "table \<Rightarrow> row \<Rightarrow> row \<Rightarrow> JobState option list" where
  "parent_states db job child =
     map row_state (filter (\<lambda>p. same_graph p job \<and> row_uuid p \<in> set (row_depends_on child)) db)"

definition dependent_jobs_update :: "JobState \<Rightarrow> string \<Rightarrow> JobState \<Rightarrow> table \<Rightarrow> table" where
  "dependent_jobs_update new uuid all_parents db =
     map (\<lambda>child.
       if row_state child = Some WAIT_DEPENDENCIES \<and>
          (\<exists>job\<in>set db. row_uuid job = uuid \<and> same_graph child job \<and>
             row_uuid child \<in> set (row_reverse_depends_on job) \<and>
             parent_states db job child \<noteq> [] \<and> (\<forall>s\<in>set (parent_states db job child). s = Some all_parents))
       then dict_set ''state'' (PStr (state_name new)) child else child) db"

definition enqueue_waiting :: "string \<Rightarrow> table \<Rightarrow> table" where
  "enqueue_waiting uuid db = dependent_jobs_update PENDING uuid DONE db"

definition cancel_dependent_jobs :: "string \<Rightarrow> table \<Rightarrow> table" where
  "cancel_dependent_jobs uuid db = dependent_jobs_update CANCELLED uuid CANCELLED db"

end
