(* ===== verification/Delay.thy ===== *)
theory Delay
  imports DepGraph JobStore
begin

text \<open>
  \<open>queue_job/delay.py\<close> and \<open>queue_job/utils.py\<close>: delayables, chains and groups, the graph of jobs they
  stand for, and its storage. The elements of a chain or a group never change after its construction, so
  that a delayable is a tree whose nodes carry the identity of their object; the graph of each object,
  which \<open>on_done\<close> extends, and the properties of each single delayable are kept by identity.
\<close>

section \<open>Delayables\<close>

datatype delayable =
    Single nat
  | Chain nat "delayable list"
  | Group nat "delayable list"

fun oid :: "delayable \<Rightarrow> nat" where
  "oid (Single i) = i"
| "oid (Chain i ds) = i"
| "oid (Group i ds) = i"

lemma size_in_list: "x \<in> set ds \<Longrightarrow> size (x :: delayable) \<le> size_list size ds"
  by (induction ds) auto

text \<open>\<open>_head\<close> and \<open>_tail\<close>, as the code has them: a chain asks its first element for its tail, and its last
  one for its head.\<close>

function (sequential) d_head :: "delayable \<Rightarrow> nat list" and d_tail :: "delayable \<Rightarrow> nat list" where
  "d_head (Single i) = [i]"
| "d_head (Chain i []) = []"
| "d_head (Chain i (d # ds)) = d_tail d"
| "d_head (Group i ds) = concat (map d_head ds)"
| "d_tail (Single i) = [i]"
| "d_tail (Chain i []) = []"
| "d_tail (Chain i (d # ds)) = d_head (last (d # ds))"
| "d_tail (Group i ds) = concat (map d_tail ds)"
  by pat_completeness auto
termination
proof (relation "measure (case_sum size size)")
  fix i and d :: delayable and ds :: "delayable list"
  have "size (last ds) \<le> size_list size ds" if "ds \<noteq> []"
    using size_in_list [OF last_in_set [OF that]] .
  then show "(Inl (last (d # ds)), Inr (Chain i (d # ds))) \<in> measure (case_sum size size)" by auto
qed (auto simp: less_Suc_eq_le size_in_list)

text \<open>The graphs of the objects.\<close>

type_synonym graphs = "(nat \<times> delayable graph) list"

definition graph_of :: "graphs \<Rightarrow> nat \<Rightarrow> delayable graph result" where
  "graph_of gs i = (case map_of gs i of None \<Rightarrow> Inl AttributeError | Some g \<Rightarrow> Inr g)"

definition new_single :: "nat \<Rightarrow> graphs \<Rightarrow> delayable \<times> graphs" where
  "new_single i gs = (Single i, dict_set i (add_vertex (Single i) []) gs)"

fun chain_edges :: "delayable \<Rightarrow> delayable list \<Rightarrow> delayable graph \<Rightarrow> delayable graph" where
  "chain_edges head [] g = g"
| "chain_edges head (neighbour # ds) g = chain_edges neighbour ds (add_edge head neighbour g)"

text \<open>\<open>chain\<close> needs an element: \<open>next\<close> raises otherwise.\<close>

definition new_chain :: "nat \<Rightarrow> delayable list \<Rightarrow> graphs \<Rightarrow> (delayable \<times> graphs) result" where
  "new_chain i ds gs =
     (case ds of
        [] \<Rightarrow> Inl IndexError
      | head # rest \<Rightarrow> Inr (Chain i ds, dict_set i (chain_edges head rest (add_vertex head [])) gs))"

definition new_group :: "nat \<Rightarrow> delayable list \<Rightarrow> graphs \<Rightarrow> delayable \<times> graphs" where
  "new_group i ds gs = (Group i (remdups ds), dict_set i (foldl (\<lambda>g d. add_vertex d g) [] ds) gs)"

definition chain_fn :: "nat \<Rightarrow> delayable list \<Rightarrow> graphs \<Rightarrow> (delayable \<times> graphs) result" where
  "chain_fn i ds gs = new_chain i ds gs"

definition group_fn :: "nat \<Rightarrow> delayable list \<Rightarrow> graphs \<Rightarrow> delayable \<times> graphs" where
  "group_fn i ds gs = new_group i ds gs"

text \<open>\<open>on_done\<close>: a single delayable and a chain add edges from themselves or their last element, a group
  from each of its elements.\<close>

definition on_done_sources :: "delayable \<Rightarrow> delayable list" where
  "on_done_sources d = (case d of Single i \<Rightarrow> [d] | Chain i ds \<Rightarrow> [last ds] | Group i ds \<Rightarrow> ds)"

definition on_done :: "delayable \<Rightarrow> delayable list \<Rightarrow> graphs \<Rightarrow> graphs result" where
  "on_done d children gs =
     rbind (graph_of gs (oid d)) (\<lambda>g.
     Inr (dict_set (oid d)
       (foldl (\<lambda>g (p, c). add_edge p c g) g (List.product (on_done_sources d) children)) gs))"

section \<open>The graph of the jobs\<close>

definition merge_vertex :: "nat graph \<Rightarrow> delayable \<times> delayable list \<Rightarrow> nat graph" where
  "merge_vertex target vn =
     foldl (\<lambda>t tl. add_children tl (concat (map d_head (snd vn))) t) target (d_tail (fst vn))"

definition merge_graph :: "delayable graph \<Rightarrow> nat graph \<Rightarrow> nat graph" where
  "merge_graph g target = foldl merge_vertex target g"

fun merge_all :: "graphs \<Rightarrow> delayable list \<Rightarrow> nat graph \<Rightarrow> nat graph result" where
  "merge_all gs [] target = Inr target"
| "merge_all gs (v # vs) target =
     rbind (graph_of gs (oid v)) (\<lambda>g. merge_all gs vs (merge_graph g target))"

text \<open>The visit of the graphs, each once, from the one of the top-level object.\<close>

function connect_loop :: "graphs \<Rightarrow> nat list \<Rightarrow> nat list \<Rightarrow> nat graph \<Rightarrow> nat graph result" where
  "connect_loop gs [] seen target = Inr target"
| "connect_loop gs (current # visit_stack) seen target =
     (if current \<in> set seen then connect_loop gs visit_stack seen target
      else rbind (graph_of gs current) (\<lambda>g.
           rbind (merge_all gs (vertices g) target) (\<lambda>target1.
           connect_loop gs (visit_stack @ map oid (vertices g)) (current # seen) target1)))"
  by pat_completeness auto
termination
proof (relation "measures [\<lambda>(gs, stack, seen, target). card (fst ` set gs - set seen),
    \<lambda>(gs, stack, seen, target). length stack]", simp, simp)
  fix gs :: graphs and current stack seen target g target1
  assume new: "current \<notin> set seen" and g: "graph_of gs current = Inr g"
  then have "current \<in> fst ` set gs" by (force simp: graph_of_def split: option.splits dest!: map_of_SomeD)
  with new have "fst ` set gs - set (current # seen) \<subset> fst ` set gs - set seen" by auto
  then have "card (fst ` set gs - set (current # seen)) < card (fst ` set gs - set seen)"
    by (simp add: psubset_card_mono)
  then show "((gs, stack @ map oid (vertices g), current # seen, target1), gs, current # stack, seen, target)
      \<in> measures [\<lambda>(gs, stack, seen, target). card (fst ` set gs - set seen),
           \<lambda>(gs, stack, seen, target). length stack]" by simp
qed

definition connect_graphs :: "graphs \<Rightarrow> nat \<Rightarrow> nat graph result" where
  "connect_graphs gs i =
     rbind (graph_of gs i) (\<lambda>g. connect_loop gs [i] [] (merge_graph g []))"

section \<open>Single delayables\<close>

record delayable_data =
  dd_recordset :: recordset
  dd_priority :: "int option"
  dd_eta :: eta_arg
  dd_max_retries :: "int option"
  dd_description :: "string option"
  dd_channel :: "string option"
  dd_identity_key :: key_arg
  dd_job_method :: "string option"
  dd_job_args :: "pyval list"
  dd_job_kwargs :: fields
  dd_generated_job :: "Job option"

definition delayable_init :: "recordset \<Rightarrow> job_args \<Rightarrow> delayable_data" where
  "delayable_init recordset a =
     \<lparr>dd_recordset = recordset, dd_priority = ja_priority a, dd_eta = ja_eta a,
      dd_max_retries = ja_max_retries a, dd_description = ja_description a, dd_channel = ja_channel a,
      dd_identity_key = ja_identity_key a, dd_job_method = None, dd_job_args = [], dd_job_kwargs = [],
      dd_generated_job = None\<rparr>"

text \<open>A property that can be set, with its value.\<close>

datatype property =
    Priority "int option"
  | Eta eta_arg
  | MaxRetries "int option"
  | Description "string option"
  | ChannelName "string option"
  | IdentityKey key_arg
  | Other string

definition set_property :: "property \<Rightarrow> delayable_data \<Rightarrow> delayable_data result" where
  "set_property p d =
     (case p of
        Priority v \<Rightarrow> Inr (d\<lparr>dd_priority := v\<rparr>)
      | Eta v \<Rightarrow> Inr (d\<lparr>dd_eta := v\<rparr>)
      | MaxRetries v \<Rightarrow> Inr (d\<lparr>dd_max_retries := v\<rparr>)
      | Description v \<Rightarrow> Inr (d\<lparr>dd_description := v\<rparr>)
      | ChannelName v \<Rightarrow> Inr (d\<lparr>dd_channel := v\<rparr>)
      | IdentityKey v \<Rightarrow> Inr (d\<lparr>dd_identity_key := v\<rparr>)
      | Other name \<Rightarrow> Inl ValueError)"

fun set_from_dict :: "property list \<Rightarrow> delayable_data \<Rightarrow> delayable_data result" where
  "set_from_dict [] d = Inr d"
| "set_from_dict (p # ps) d = rbind (set_property p d) (set_from_dict ps)"

text \<open>\<open>set\<close> takes at most one dictionary and keyword arguments.\<close>

definition delayable_set :: "property list option \<Rightarrow> property list \<Rightarrow> delayable_data \<Rightarrow> delayable_data result" where
  "delayable_set arg kwargs d =
     rbind (case arg of None \<Rightarrow> Inr d | Some ps \<Rightarrow> set_from_dict ps d) (set_from_dict kwargs)"

definition store_args :: "pyval list \<Rightarrow> fields \<Rightarrow> delayable_data \<Rightarrow> delayable_data" where
  "store_args args kwargs d = d\<lparr>dd_job_args := args, dd_job_kwargs := kwargs\<rparr>"

text \<open>The call of a method on the delayable, \<open>__getattr__\<close> and \<open>_store_args\<close>: the fields of the records
  cannot be delayed; the name must be an attribute of the records.\<close>

definition call_method ::
  "(string \<Rightarrow> string set) \<Rightarrow> (string \<Rightarrow> string set) \<Rightarrow> string \<Rightarrow> pyval list \<Rightarrow> fields \<Rightarrow> delayable_data \<Rightarrow>
   delayable_data result" where
  "call_method model_fields model_attrs name args kwargs d =
     (if name \<in> model_fields (rs_model (dd_recordset d)) then Inl AttributeError
      else if name \<notin> model_attrs (rs_model (dd_recordset d)) then Inl AttributeError
      else Inr (store_args args kwargs (d\<lparr>dd_job_method := Some name\<rparr>)))"

definition build_job :: "job_env \<Rightarrow> (string \<Rightarrow> string \<Rightarrow> bool) \<Rightarrow> delayable_data \<Rightarrow> (Job \<times> delayable_data) result" where
  "build_job env is_method d =
     (case dd_generated_job d of
        Some j \<Rightarrow> Inr (j, d)
      | None \<Rightarrow>
          rbind (job_init env
            (case dd_job_method d of
               None \<Rightarrow> Function []
             | Some m \<Rightarrow> if is_method (rs_model (dd_recordset d)) m then ModelMethod (dd_recordset d) m else Function m)
            \<lparr>ja_args = PTuple (dd_job_args d), ja_kwargs = PDict (dd_job_kwargs d),
             ja_priority = dd_priority d, ja_eta = dd_eta d, ja_job_uuid = None,
             ja_max_retries = dd_max_retries d, ja_description = dd_description d,
             ja_channel = dd_channel d, ja_identity_key = dd_identity_key d\<rparr>) (\<lambda>j.
          Inr (j, d\<lparr>dd_generated_job := Some j\<rparr>)))"

text \<open>\<open>split\<close>: delayables for batches of the records, numbered in their descriptions. A size of zero
  makes \<open>range\<close> raise; a negative one makes it empty.\<close>

fun batches :: "nat \<Rightarrow> int list \<Rightarrow> int list list" where
  "batches 0 ids = []"
| "batches (Suc n) [] = []"
| "batches (Suc n) ids = take (Suc n) ids # batches (Suc n) (drop (Suc n) ids)"

definition split_description :: "(string \<Rightarrow> string \<Rightarrow> string option) \<Rightarrow> string \<Rightarrow> delayable_data \<Rightarrow> string" where
  "split_description doc method d =
     (case dd_description d of
        Some (c # cs) \<Rightarrow> c # cs
      | _ \<Rightarrow> (case doc (rs_model (dd_recordset d)) method of
                Some (c # cs) \<Rightarrow> first_line (c # cs)
              | _ \<Rightarrow> rs_model (dd_recordset d) @ ''.'' @ method))"

definition split_delayable ::
  "(string \<Rightarrow> string \<Rightarrow> string option) \<Rightarrow> int \<Rightarrow> delayable_data \<Rightarrow> delayable_data list result" where
  "split_delayable doc batch_size d =
     (case dd_job_method d of
        None \<Rightarrow> Inl ValueError
      | Some method \<Rightarrow>
          if batch_size = 0 then Inl ValueError
          else (let bs = (if batch_size < 0 then [] else batches (nat batch_size) (rs_ids (dd_recordset d)));
                    text = split_description doc method d
                in Inr (map (\<lambda>(i, ids).
                     d\<lparr>dd_recordset := (dd_recordset d)\<lparr>rs_ids := ids\<rparr>, dd_generated_job := None,
                       dd_description := Some (text @ '' (split '' @ show_int (int i + 1) @ ''/'' @
                         show_int (int (length bs)) @ '')'')\<rparr>) (enumerate 0 bs))))"

section \<open>Delaying\<close>

text \<open>\<open>must_run_without_delay\<close>: the environment variables and the context of the records.\<close>

definition must_run_without_delay :: "(string \<Rightarrow> string option) \<Rightarrow> fields \<Rightarrow> bool" where
  "must_run_without_delay getenv context =
     ((\<exists>v\<in>{''TEST_QUEUE_JOB_NO_DELAY'', ''QUEUE_JOB__NO_DELAY''}. getenv v \<noteq> None \<and> getenv v \<noteq> Some []) \<or>
      (\<exists>k\<in>{''_job_force_sync'', ''test_queue_job_no_delay'', ''queue_job__no_delay''}.
         py_true (dict_get PNone context k)))"

definition has_to_execute_directly :: "(string \<Rightarrow> string option) \<Rightarrow> fields list \<Rightarrow> bool" where
  "has_to_execute_directly getenv contexts = list_ex (must_run_without_delay getenv) contexts"

text \<open>\<open>_ensure_same_graph_uuid\<close>, with the uuid that would be drawn. The truth of a graph uuid is that it
  is neither missing nor empty.\<close>

definition graph_set :: "Job \<Rightarrow> bool" where
  "graph_set j \<longleftrightarrow> j_graph_uuid j \<noteq> None \<and> j_graph_uuid j \<noteq> Some []"

definition ensure_same_graph_uuid :: "string \<Rightarrow> Job list \<Rightarrow> Job list result" where
  "ensure_same_graph_uuid fresh js =
     (case js of
        [] \<Rightarrow> Inl ValueError
      | [j] \<Rightarrow> if graph_set j then Inl ValueError else Inr [j]
      | _ \<Rightarrow>
          (case remdups (map j_graph_uuid (filter graph_set js)) of
             [] \<Rightarrow> Inr (map (\<lambda>j. j\<lparr>j_graph_uuid := Some fresh\<rparr>) js)
           | [g] \<Rightarrow> Inr (map (\<lambda>j. j\<lparr>j_graph_uuid := g\<rparr>) js)
           | _ \<Rightarrow> Inl ValueError))"

text \<open>The jobs of the graph, by vertex; an edge makes the job of the child depend on that of the parent.\<close>

type_synonym jobs_of = "(nat \<times> Job) list"

definition job_at :: "jobs_of \<Rightarrow> nat \<Rightarrow> Job result" where
  "job_at js v = (case map_of js v of None \<Rightarrow> Inl AttributeError | Some j \<Rightarrow> Inr j)"

fun add_all_depends :: "(nat \<times> nat) list \<Rightarrow> jobs_of \<Rightarrow> jobs_of result" where
  "add_all_depends [] js = Inr js"
| "add_all_depends ((vertex, neighbour) # es) js =
     rbind (job_at js vertex) (\<lambda>p.
     rbind (job_at js neighbour) (\<lambda>c.
     rbind (add_depends [p] c) (\<lambda>(c', ps).
     add_all_depends es (dict_set neighbour c' (dict_set vertex (hd ps) js)))))"

text \<open>The jobs with an identity key that are all in the table already: the mapping from the vertices to
  the existing records, empty as soon as one of them does not exist. A vertex without a key is skipped.\<close>

fun existing_mapping ::
  "(Job \<Rightarrow> string) \<Rightarrow> table \<Rightarrow> (nat \<Rightarrow> key_arg) \<Rightarrow> jobs_of \<Rightarrow> (nat \<times> row) list \<Rightarrow> (nat \<times> row) list" where
  "existing_mapping key_func db key [] found = found"
| "existing_mapping key_func db key ((v, j) # js) found =
     (if key v = NoKey \<or> key v = Key [] then existing_mapping key_func db key js found
      else (case same_identity (fst (identity_key key_func j)) db of
              None \<Rightarrow> []
            | Some existing \<Rightarrow> existing_mapping key_func db key js (found @ [(v, existing)])))"

fun build_all ::
  "(nat \<Rightarrow> job_env) \<Rightarrow> (string \<Rightarrow> string \<Rightarrow> bool) \<Rightarrow> (nat \<Rightarrow> delayable_data) \<Rightarrow> nat list \<Rightarrow> jobs_of result" where
  "build_all jenv is_method data [] = Inr []"
| "build_all jenv is_method data (v # vs) =
     rbind (build_job (jenv v) is_method (data v)) (\<lambda>(j, _).
     rbind (build_all jenv is_method data vs) (\<lambda>js. Inr ((v, j) # js)))"

text \<open>
  \<open>delay\<close> of a graph. The jobs are executed at once, or an existing record replaces the job of the first
  vertex of the mapping and nothing is stored, as the loop returns in its first round, or all jobs are
  stored.
\<close>

datatype delay_outcome = Executed "nat list" | Replaced nat row | Stored

record delay_env =
  de_jenv :: "nat \<Rightarrow> job_env"
  de_is_method :: "string \<Rightarrow> string \<Rightarrow> bool"
  de_getenv :: "string \<Rightarrow> string option"
  de_context :: "nat \<Rightarrow> fields"
  de_fresh_graph :: string
  de_key_func :: "Job \<Rightarrow> string"

definition delay ::
  "delay_env \<Rightarrow> (jobs_of \<Rightarrow> Job \<Rightarrow> table \<Rightarrow> table) \<Rightarrow> (nat \<Rightarrow> delayable_data) \<Rightarrow> graphs \<Rightarrow> nat \<Rightarrow> table \<Rightarrow>
   (delay_outcome \<times> jobs_of \<times> table) result" where
  "delay env store_job data gs i db =
     rbind (connect_graphs gs i) (\<lambda>g.
     rbind (build_all (de_jenv env) (de_is_method env) data (vertices g)) (\<lambda>js0.
     rbind (ensure_same_graph_uuid (de_fresh_graph env) (map snd js0)) (\<lambda>jobs.
     let js = zip (vertices g) jobs in
     if has_to_execute_directly (de_getenv env) (map (de_context env) (vertices g))
     then rbind (topological_sort g) (\<lambda>order. Inr (Executed order, js, db))
     else rbind (add_all_depends (edges g) js) (\<lambda>js1.
          case existing_mapping (de_key_func env) db (\<lambda>v. dd_identity_key (data v)) js1 [] of
            (v, existing) # _ \<Rightarrow> Inr (Replaced v existing, js1, db)
          | [] \<Rightarrow> Inr (Stored, js1, foldl (\<lambda>db (v, j). store_job js1 j db) db js1)))))"

end
