(* ===== verification/DelayFacts.thy ===== *)
theory DelayFacts
  imports Delay
begin

text \<open>
  Lemmas about delayables: the first and last jobs of chains and groups, the graph that is connected from
  the graphs of the objects, the uuid of a graph, and the batches of a split.
\<close>

section \<open>Heads and tails\<close>

text \<open>The jobs a chain or a group starts and ends with, as the documentation describes them.\<close>

function (sequential) first_jobs :: "delayable \<Rightarrow> nat list" where
  "first_jobs (Single i) = [i]"
| "first_jobs (Chain i []) = []"
| "first_jobs (Chain i (d # ds)) = first_jobs d"
| "first_jobs (Group i ds) = concat (map first_jobs ds)"
  by pat_completeness auto
termination by (relation "measure size") (auto simp: less_Suc_eq_le size_in_list)

function (sequential) last_jobs :: "delayable \<Rightarrow> nat list" where
  "last_jobs (Single i) = [i]"
| "last_jobs (Chain i []) = []"
| "last_jobs (Chain i (d # ds)) = last_jobs (last (d # ds))"
| "last_jobs (Group i ds) = concat (map last_jobs ds)"
  by pat_completeness auto
termination
proof (relation "measure size")
  fix i and d :: delayable and ds :: "delayable list"
  show "(last (d # ds), Chain i (d # ds)) \<in> measure size"
    using size_in_list [OF last_in_set, of "d # ds"] by (simp add: less_Suc_eq_le del: last.simps)
qed (auto simp: less_Suc_eq_le size_in_list)

text \<open>No chain in it, at any depth of groups.\<close>

fun flat :: "delayable \<Rightarrow> bool" where
  "flat (Single i) \<longleftrightarrow> True"
| "flat (Chain i ds) \<longleftrightarrow> False"
| "flat (Group i ds) \<longleftrightarrow> list_all flat ds"

lemma flat_ends: "flat d \<Longrightarrow> d_head d = first_jobs d \<and> d_tail d = first_jobs d \<and> last_jobs d = first_jobs d"
proof (induction d)
  case (Group i ds)
  then have "d_head d = first_jobs d \<and> d_tail d = first_jobs d \<and> last_jobs d = first_jobs d" if "d \<in> set ds" for d
    using that by (auto simp: list_all_iff)
  then have "map d_head ds = map first_jobs ds" "map d_tail ds = map first_jobs ds" "map last_jobs ds = map first_jobs ds"
    by simp_all
  then show ?case by (simp only: d_head.simps d_tail.simps first_jobs.simps last_jobs.simps)
qed simp_all

text \<open>Chains whose first and last elements hold no chain, and groups of such.\<close>

fun plain_ends :: "delayable \<Rightarrow> bool" where
  "plain_ends (Single i) \<longleftrightarrow> True"
| "plain_ends (Chain i ds) \<longleftrightarrow> ds \<noteq> [] \<and> flat (hd ds) \<and> flat (last ds)"
| "plain_ends (Group i ds) \<longleftrightarrow> list_all plain_ends ds"

lemma plain_ends_jobs: "plain_ends d \<Longrightarrow> d_head d = first_jobs d \<and> d_tail d = last_jobs d"
proof (induction d)
  case (Group i ds)
  then have "d_head d = first_jobs d \<and> d_tail d = last_jobs d" if "d \<in> set ds" for d
    using that by (auto simp: list_all_iff)
  then have "map d_head ds = map first_jobs ds" "map d_tail ds = map last_jobs ds" by simp_all
  then show ?case by (simp only: d_head.simps d_tail.simps first_jobs.simps last_jobs.simps)
next
  case (Chain i ds)
  then obtain d es where ds: "ds = d # es" by (cases ds) auto
  with Chain.prems flat_ends [of d] flat_ends [of "last ds"] show ?case by simp
qed simp

section \<open>Connecting the graphs\<close>

definition gr :: "graphs \<Rightarrow> nat \<Rightarrow> delayable graph" where
  "gr gs i = (case map_of gs i of None \<Rightarrow> [] | Some g \<Rightarrow> g)"

definition job_edges :: "delayable graph \<Rightarrow> (nat \<times> nat) set" where
  "job_edges g = {(t, h). \<exists>(v, ns)\<in>set g. t \<in> set (d_tail v) \<and> (\<exists>n\<in>set ns. h \<in> set (d_head n))}"

definition job_tails :: "delayable graph \<Rightarrow> nat set" where
  "job_tails g = (\<Union>v\<in>set (vertices g). set (d_tail v))"

definition tidy :: "'v graph \<Rightarrow> bool" where
  "tidy g \<longleftrightarrow> distinct (map fst g) \<and> (\<forall>(v, ns)\<in>set g. distinct ns)"

lemma tidy_add_children: "tidy g \<Longrightarrow> tidy (add_children p cs g)"
proof -
  assume g: "tidy g"
  then have d: "distinct (map fst g)" by (simp add: tidy_def)
  have "distinct ns" if "(v, ns) \<in> set (add_children p cs g)" for v ns
    using that g by (auto simp: add_children_def dict_set_pairs [OF d] tidy_def distinct_set_union
        split: if_splits option.splits dest!: map_of_SomeD)
  then show ?thesis using d by (auto simp: tidy_def add_children_def distinct_dict_set)
qed

lemma merge_vertex_tails:
  "tidy t \<Longrightarrow> tidy (foldl (\<lambda>t tl. add_children tl hs t) t ts) \<and>
    edge_set (foldl (\<lambda>t tl. add_children tl hs t) t ts) = edge_set t \<union> set ts \<times> set hs \<and>
    set (vertices (foldl (\<lambda>t tl. add_children tl hs t) t ts)) = set (vertices t) \<union> set ts"
proof (induction ts arbitrary: t)
  case (Cons x ts)
  from Cons.IH [OF tidy_add_children [OF Cons.prems]] show ?case
    by (auto simp: add_children_edges add_children_vertices)
qed simp

lemma merge_graph_ok:
  "tidy t \<Longrightarrow> tidy (merge_graph g t) \<and> edge_set (merge_graph g t) = edge_set t \<union> job_edges g \<and>
    set (vertices (merge_graph g t)) = set (vertices t) \<union> job_tails g"
  unfolding merge_graph_def
proof (induction g arbitrary: t)
  case Nil
  then show ?case by (simp add: job_edges_def job_tails_def vertices_def)
next
  case (Cons vn g)
  note m = merge_vertex_tails [OF Cons.prems, of "concat (map d_head (snd vn))" "d_tail (fst vn)", folded merge_vertex_def]
  have e: "job_edges (vn # g) = set (d_tail (fst vn)) \<times> set (concat (map d_head (snd vn))) \<union> job_edges g"
    by (cases vn) (auto simp: job_edges_def)
  have v: "job_tails (vn # g) = set (d_tail (fst vn)) \<union> job_tails g"
    by (simp add: job_tails_def vertices_def)
  from m Cons.IH [of "merge_vertex t vn"] show ?case unfolding e v by auto
qed

text \<open>The objects that the visit reaches.\<close>

definition contains :: "graphs \<Rightarrow> (nat \<times> nat) set" where
  "contains gs = {(i, oid v) |i v. v \<in> set (vertices (gr gs i))}"

definition reached :: "graphs \<Rightarrow> nat \<Rightarrow> nat set" where
  "reached gs i = {k. (i, k) \<in> (contains gs)\<^sup>*}"

definition closed :: "graphs \<Rightarrow> bool" where
  "closed gs \<longleftrightarrow> (\<forall>i. \<forall>v\<in>set (vertices (gr gs i)). oid v \<in> fst ` set gs)"

lemma graph_of_ok: "i \<in> fst ` set gs \<Longrightarrow> graph_of gs i = Inr (gr gs i)"
  by (auto simp: graph_of_def gr_def image_iff split: option.splits dest: weak_map_of_SomeI)

lemma merge_all_ok:
  "tidy t \<Longrightarrow> \<forall>v\<in>set vs. oid v \<in> fst ` set gs \<Longrightarrow>
    \<exists>t'. merge_all gs vs t = Inr t' \<and> tidy t' \<and>
      edge_set t' = edge_set t \<union> (\<Union>v\<in>set vs. job_edges (gr gs (oid v))) \<and>
      set (vertices t') = set (vertices t) \<union> (\<Union>v\<in>set vs. job_tails (gr gs (oid v)))"
proof (induction vs arbitrary: t)
  case (Cons v vs)
  note m = merge_graph_ok [OF Cons.prems(1), of "gr gs (oid v)"]
  from m have "tidy (merge_graph (gr gs (oid v)) t)" by blast
  from Cons.IH [OF this] Cons.prems(2) obtain t' where
    "merge_all gs vs (merge_graph (gr gs (oid v)) t) = Inr t'" "tidy t'"
    "edge_set t' = edge_set (merge_graph (gr gs (oid v)) t) \<union> (\<Union>v\<in>set vs. job_edges (gr gs (oid v)))"
    "set (vertices t') = set (vertices (merge_graph (gr gs (oid v)) t)) \<union> (\<Union>v\<in>set vs. job_tails (gr gs (oid v)))"
    by auto
  with m Cons.prems(2) show ?case by (auto simp: graph_of_ok)
qed simp

definition visit_inv :: "graphs \<Rightarrow> nat \<Rightarrow> nat list \<Rightarrow> nat list \<Rightarrow> nat graph \<Rightarrow> bool" where
  "visit_inv gs start stack seen t \<longleftrightarrow> tidy t \<and> start \<in> set seen \<union> set stack \<and>
     set seen \<union> set stack \<subseteq> reached gs start \<and> set seen \<union> set stack \<subseteq> fst ` set gs \<and>
     (\<forall>j\<in>set seen. \<forall>v\<in>set (vertices (gr gs j)). oid v \<in> set seen \<union> set stack) \<and>
     edge_set t = (\<Union>k\<in>set seen \<union> set stack. job_edges (gr gs k)) \<and>
     set (vertices t) = (\<Union>k\<in>set seen \<union> set stack. job_tails (gr gs k))"

lemma reached_step: "i \<in> reached gs start \<Longrightarrow> v \<in> set (vertices (gr gs i)) \<Longrightarrow> oid v \<in> reached gs start"
  unfolding reached_def contains_def by (auto intro: rtrancl_into_rtrancl)

lemma connect_loop_ok:
  "closed gs \<Longrightarrow> visit_inv gs start stack seen t \<Longrightarrow>
    \<exists>t' seen'. connect_loop gs stack seen t = Inr t' \<and> visit_inv gs start [] seen' t'"
proof (induction gs stack seen t rule: connect_loop.induct)
  case (1 gs seen t)
  then show ?case by auto
next
  case (2 gs current stack seen t)
  show ?case
  proof (cases "current \<in> set seen")
    case True
    have "visit_inv gs start stack seen t"
      using "2.prems"(2) True unfolding visit_inv_def by (simp add: insert_absorb)
    with "2.IH"(1) [OF True "2.prems"(1)] True show ?thesis by simp
  next
    case False
    let ?g = "gr gs current"
    have cur: "current \<in> fst ` set gs" "current \<in> reached gs start" "tidy t"
      using "2.prems"(2) by (auto simp: visit_inv_def)
    have vs: "\<forall>v\<in>set (vertices ?g). oid v \<in> fst ` set gs" using "2.prems"(1) by (simp add: closed_def)
    obtain t1 where t1: "merge_all gs (vertices ?g) t = Inr t1" "tidy t1"
      "edge_set t1 = edge_set t \<union> (\<Union>v\<in>set (vertices ?g). job_edges (gr gs (oid v)))"
      "set (vertices t1) = set (vertices t) \<union> (\<Union>v\<in>set (vertices ?g). job_tails (gr gs (oid v)))"
      using merge_all_ok [OF cur(3) vs] by blast
    have sets: "set (current # seen) \<union> set (stack @ map oid (vertices ?g)) =
        set seen \<union> set (current # stack) \<union> oid ` set (vertices ?g)" by auto
    have "visit_inv gs start (stack @ map oid (vertices ?g)) (current # seen) t1"
      using "2.prems"(2) vs t1(2-4) reached_step [OF cur(2)]
      unfolding visit_inv_def sets by (auto simp: image_iff)
    from "2.IH"(2) [OF False graph_of_ok [OF cur(1)] t1(1) "2.prems"(1) this] show ?thesis
      using False by (simp add: graph_of_ok [OF cur(1)] t1(1))
  qed
qed

lemma connect_ok:
  assumes c: "closed gs" and i: "i \<in> fst ` set gs"
  shows "\<exists>g. connect_graphs gs i = Inr g \<and> tidy g \<and>
    edge_set g = (\<Union>k\<in>reached gs i. job_edges (gr gs k)) \<and>
    set (vertices g) = (\<Union>k\<in>reached gs i. job_tails (gr gs k))"
proof -
  have "tidy []" by (simp add: tidy_def)
  from merge_graph_ok [OF this, of "gr gs i"] have m: "tidy (merge_graph (gr gs i) [])"
    "edge_set (merge_graph (gr gs i) []) = job_edges (gr gs i)"
    "set (vertices (merge_graph (gr gs i) [])) = job_tails (gr gs i)"
    by (auto simp: edge_set_def vertices_def)
  have "visit_inv gs i [i] [] (merge_graph (gr gs i) [])"
    using m i by (simp add: visit_inv_def reached_def)
  from connect_loop_ok [OF c this] obtain t seen where
    t: "connect_loop gs [i] [] (merge_graph (gr gs i) []) = Inr t" "visit_inv gs i [] seen t" by blast
  have "reached gs i \<subseteq> set seen"
  proof
    fix k assume "k \<in> reached gs i"
    then have "(i, k) \<in> (contains gs)\<^sup>*" by (simp add: reached_def)
    then show "k \<in> set seen"
    proof (induction rule: rtrancl_induct)
      case base
      then show ?case using t(2) by (simp add: visit_inv_def)
    next
      case (step j k)
      then show ?case using t(2) by (auto simp: visit_inv_def contains_def)
    qed
  qed
  then have "set seen = reached gs i" using t(2) by (auto simp: visit_inv_def)
  with t show ?thesis by (auto simp: connect_graphs_def graph_of_ok [OF i] visit_inv_def)
qed

section \<open>The uuid of a graph\<close>

lemma remdups_one: "remdups xs = [x] \<Longrightarrow> set xs = {x}"
  by (metis empty_set list.simps(15) set_remdups)

lemma ensure_same_graph_uuid_ok:
  "ensure_same_graph_uuid fresh js =
     (if js = [] \<or> length js = 1 \<and> graph_set (hd js) \<or>
         (\<exists>a\<in>set js. \<exists>b\<in>set js. graph_set a \<and> graph_set b \<and> j_graph_uuid a \<noteq> j_graph_uuid b)
      then Inl ValueError
      else if length js = 1 then Inr js
      else Inr (map (\<lambda>j. j\<lparr>j_graph_uuid :=
             (case filter graph_set js of [] \<Rightarrow> Some fresh | p # _ \<Rightarrow> j_graph_uuid p)\<rparr>) js))"
proof (cases js rule: list.exhaust)
  case (Cons a js')
  show ?thesis
  proof (cases js')
    case Nil
    then show ?thesis using Cons by (auto simp: ensure_same_graph_uuid_def)
  next
    case (Cons b js'')
    let ?gs = "map j_graph_uuid (filter graph_set js)"
    have js: "js = a # b # js''" using Cons \<open>js = a # js'\<close> by simp
    then have e: "ensure_same_graph_uuid fresh js = (case remdups ?gs of
             [] \<Rightarrow> Inr (map (\<lambda>j. j\<lparr>j_graph_uuid := Some fresh\<rparr>) js)
           | [g] \<Rightarrow> Inr (map (\<lambda>j. j\<lparr>j_graph_uuid := g\<rparr>) js)
           | _ \<Rightarrow> Inl ValueError)" by (simp only: ensure_same_graph_uuid_def list.case)
    consider (none) "remdups ?gs = []" | (one) g where "remdups ?gs = [g]"
      | (many) g h t where "remdups ?gs = g # h # t" by (metis list.exhaust)
    then show ?thesis
    proof cases
      case none
      then have "filter graph_set js = []" by (metis list.map_disc_iff remdups_eq_nil_iff)
      then have n: "\<forall>x\<in>set js. \<not> graph_set x" by (simp add: filter_empty_conv)
      have f: "filter graph_set js = []" using n by simp
      have "\<not> (\<exists>a\<in>set js. \<exists>b\<in>set js. graph_set a \<and> graph_set b \<and> j_graph_uuid a \<noteq> j_graph_uuid b)"
        using n by blast
      with none e n f show ?thesis by (simp add: js)
    next
      case one
      then have s: "set ?gs = {g}" by (rule remdups_one)
      have ne: "filter graph_set js \<noteq> []"
      proof
        assume "filter graph_set js = []"
        with one show False by (metis list.simps(8) not_Cons_self2 remdups.simps(1))
      qed
      then obtain p ps where p: "filter graph_set js = p # ps" by (cases "filter graph_set js") auto
      have g: "j_graph_uuid x = g" if "x \<in> set js" "graph_set x" for x
      proof -
        have "j_graph_uuid x \<in> set ?gs" using that by simp
        then show ?thesis unfolding s by (rule singletonD)
      qed
      have "p \<in> set (filter graph_set js)" by (simp add: p)
      then have pg: "j_graph_uuid p = g" by (intro g) simp_all
      have n: "\<not> (\<exists>a\<in>set js. \<exists>b\<in>set js. graph_set a \<and> graph_set b \<and> j_graph_uuid a \<noteq> j_graph_uuid b)"
        using g by (metis (no_types))
      have j1: "js \<noteq> []" "length js \<noteq> 1" by (simp_all add: js)
      have c: "(js = [] \<or> length js = 1 \<and> graph_set (hd js) \<or>
          (\<exists>a\<in>set js. \<exists>b\<in>set js. graph_set a \<and> graph_set b \<and> j_graph_uuid a \<noteq> j_graph_uuid b)) = False"
        using n j1 by blast
      have "ensure_same_graph_uuid fresh js = Inr (map (\<lambda>j. j\<lparr>j_graph_uuid := g\<rparr>) js)"
        using e by (simp only: one list.case)
      then show ?thesis unfolding c by (simp only: j1(2) if_False p list.case pg)
    next
      case many
      have "g \<noteq> h" using distinct_remdups [of ?gs] unfolding many by simp
      moreover have "g \<in> set ?gs" "h \<in> set ?gs" using many by (metis list.set_intros set_remdups)+
      ultimately have "\<exists>a\<in>set js. \<exists>b\<in>set js. graph_set a \<and> graph_set b \<and> j_graph_uuid a \<noteq> j_graph_uuid b"
        by auto
      with many e show ?thesis by simp
    qed
  qed
qed (simp add: ensure_same_graph_uuid_def)

section \<open>Batches\<close>

lemma batches_ok:
  "0 < n \<Longrightarrow> concat (batches n ids) = ids \<and> (\<forall>b\<in>set (batches n ids). b \<noteq> [] \<and> length b \<le> n)"
proof (induction n ids rule: batches.induct)
  case (3 n x xs)
  then have "concat (batches (Suc n) (drop (Suc n) (x # xs))) = drop (Suc n) (x # xs)"
    "\<forall>b\<in>set (batches (Suc n) (drop (Suc n) (x # xs))). b \<noteq> [] \<and> length b \<le> Suc n"
    by simp_all
  then show ?case by (auto simp del: take_Suc_Cons drop_Suc_Cons)
qed auto

end
