(* ===== verification/QueueJob.thy ===== *)
theory QueueJob
  imports JobStore DepGraph
begin

text \<open>
  The model \<open>queue.job\<close> of \<open>queue_job/models/queue_job.py\<close>: the changes of state that the user asks for,
  the guards of \<open>create\<close> and \<open>write\<close>, the graph that is shown for a job, the removal of old jobs, the
  related actions and the messages of failed jobs. The table is the state; an operation that raises leaves
  it, as its transaction is rolled back.
\<close>

section \<open>Loading and storing through the table\<close>

record queue_env =
  qe_job :: job_env
  qe_is_method :: "string \<Rightarrow> string \<Rightarrow> bool"
  qe_repr :: "pyval \<Rightarrow> string"
  qe_str :: "pyval \<Rightarrow> string"
  qe_key_func :: "Job \<Rightarrow> string"
  qe_doc :: "string \<Rightarrow> string \<Rightarrow> string option"
  qe_uid :: int
  qe_from_model :: "Job \<Rightarrow> fields"

definition senv :: "queue_env \<Rightarrow> (string \<Rightarrow> Job option) \<Rightarrow> store_env" where
  "senv qe lookup =
     \<lparr>se_repr = qe_repr qe, se_str = qe_str qe, se_key_func = qe_key_func qe, se_doc = qe_doc qe,
      se_lookup = lookup, se_uid = qe_uid qe, se_from_model = qe_from_model qe\<rparr>"

text \<open>The jobs a loaded job depends on and that depend on it: \<open>depends_on\<close> and \<open>reverse_depends_on\<close> load
  them from the table.\<close>

definition linked_jobs :: "queue_env \<Rightarrow> table \<Rightarrow> Job \<Rightarrow> (string \<Rightarrow> Job option) result" where
  "linked_jobs qe db j =
     rbind (load_many (qe_job qe) (qe_is_method qe) db (j_depends_on_uuids j)) (\<lambda>ps.
     rbind (load_many (qe_job qe) (qe_is_method qe) db (j_reverse_depends_on_uuids j)) (\<lambda>cs.
     Inr (\<lambda>u. find (\<lambda>p. j_uuid p = u) (ps @ cs))))"

definition store_job :: "queue_env \<Rightarrow> Job \<Rightarrow> table \<Rightarrow> table result" where
  "store_job qe j db = rbind (linked_jobs qe db j) (\<lambda>lookup. Inr (store (senv qe lookup) j db))"

definition load_job :: "queue_env \<Rightarrow> table \<Rightarrow> string \<Rightarrow> Job result" where
  "load_job qe db uuid = load (qe_job qe) (qe_is_method qe) db uuid"

section \<open>Changes of state\<close>

definition change_state1 :: "queue_env \<Rightarrow> JobState \<Rightarrow> pyval option \<Rightarrow> string \<Rightarrow> table \<Rightarrow> table result" where
  "change_state1 qe state result uuid db =
     rbind (load_job qe db uuid) (\<lambda>j.
     case state of
       DONE \<Rightarrow>
         rbind (store_job qe (set_done (je_now (qe_job qe)) result j) db) (\<lambda>db1.
         Inr (enqueue_waiting uuid db1))
     | PENDING \<Rightarrow>
         rbind (linked_jobs qe db j) (\<lambda>lookup.
         store_job qe (set_pending lookup result True j) db)
     | CANCELLED \<Rightarrow>
         rbind (store_job qe (set_cancelled (je_now (qe_job qe)) result j) db) (\<lambda>db1.
         Inr (cancel_dependent_jobs uuid db1))
     | _ \<Rightarrow> Inl ValueError)"

fun change_job_state :: "queue_env \<Rightarrow> JobState \<Rightarrow> pyval option \<Rightarrow> string list \<Rightarrow> table \<Rightarrow> table result" where
  "change_job_state qe state result [] db = Inr db"
| "change_job_state qe state result (u # us) db =
     rbind (change_state1 qe state result u db) (change_job_state qe state result us)"

definition button_done :: "queue_env \<Rightarrow> string \<Rightarrow> string list \<Rightarrow> table \<Rightarrow> table result" where
  "button_done qe user_name uuids db =
     change_job_state qe DONE (Some (PStr (''Manually set to done by '' @ user_name))) uuids db"

definition button_cancelled :: "queue_env \<Rightarrow> string \<Rightarrow> string list \<Rightarrow> table \<Rightarrow> table result" where
  "button_cancelled qe user_name uuids db =
     change_job_state qe CANCELLED (Some (PStr (''Cancelled by '' @ user_name))) uuids db"

text \<open>The state of the record of a uuid.\<close>

definition state_of :: "table \<Rightarrow> string \<Rightarrow> JobState option" where
  "state_of db uuid = (case find (\<lambda>r. row_uuid r = uuid) db of None \<Rightarrow> None | Some r \<Rightarrow> row_state r)"

definition requeue :: "queue_env \<Rightarrow> string list \<Rightarrow> table \<Rightarrow> table result" where
  "requeue qe uuids db =
     change_job_state qe PENDING None (filter (\<lambda>u. state_of db u \<noteq> Some WAIT_DEPENDENCIES) uuids) db"

section \<open>The guards of create and write\<close>

definition protected_fields :: "string list" where
  "protected_fields =
     [''uuid'', ''name'', ''date_created'', ''model_name'', ''method_name'', ''func_string'',
      ''channel_method_name'', ''job_function_id'', ''records'', ''args'', ''kwargs'']"

definition queue_job_create :: "bool \<Rightarrow> row list \<Rightarrow> table \<Rightarrow> table result" where
  "queue_job_create sentinel vals_list db = (if sentinel then Inr (db @ vals_list) else Inl AccessError)"

definition with_user :: "int \<Rightarrow> pyval \<Rightarrow> pyval" where
  "with_user uid v = (case v of PRecords rs \<Rightarrow> PRecords (rs\<lparr>rs_uid := uid, rs_su := False\<rparr>) | _ \<Rightarrow> v)"

text \<open>\<open>write\<close> by a user on some records. The field \<open>records\<close> keeps the environment of the job: a new
  \<open>user_id\<close> goes into it unless it is the one of the current user.\<close>

definition write_row :: "int \<Rightarrow> fields \<Rightarrow> row \<Rightarrow> row" where
  "write_row env_uid vals r =
     (let r1 = dict_update r vals in
      case dict_get PNone vals ''user_id'' of
        PInt uid \<Rightarrow>
          if uid \<noteq> 0 \<and> env_uid \<noteq> uid
          then dict_set ''records'' (with_user uid (fld ''records'' r1)) r1 else r1
      | _ \<Rightarrow> r1)"

definition queue_job_write :: "bool \<Rightarrow> int \<Rightarrow> fields \<Rightarrow> string list \<Rightarrow> table \<Rightarrow> table result" where
  "queue_job_write sentinel env_uid vals uuids db =
     (if \<not> sentinel \<and> filter (\<lambda>k. k \<in> set protected_fields) (map fst vals) \<noteq> [] then Inl AccessError
      else Inr (map (\<lambda>r. if row_uuid r \<in> set uuids then write_row env_uid vals r else r) db))"

section \<open>Messages of failed jobs\<close>

text \<open>\<open>_subscribe_users_domain\<close>: the members of the group of the managers, of the companies of the jobs
  if they have one; \<open>None\<close> when the group is missing.\<close>

definition job_companies :: "row list \<Rightarrow> int list" where
  "job_companies rs = remdups (List.map_filter (\<lambda>r. val_int (fld ''company_id'' r)) rs)"

definition subscribe_users_domain :: "int option \<Rightarrow> row list \<Rightarrow> pyval" where
  "subscribe_users_domain manager_group rs =
     (case manager_group of
        None \<Rightarrow> PNone
      | Some g \<Rightarrow>
          PList (PTuple [PStr ''groups_id'', PStr ''='', PInt g] #
            (if job_companies rs = [] then []
             else [PTuple [PStr ''company_id'', PStr ''in'', PList (map PInt (job_companies rs))]])))"

definition message_failed_job :: string where
  "message_failed_job =
     ''Something bad happened during the execution of the job. More details in the 'Exception Information' section.''"

text \<open>The followers and the message of each record. The search of the users for a domain, the partner of
  a user and the hook \<open>_subscribe_job_creator\<close> are arguments.\<close>

definition message_post_on_failure ::
  "(pyval \<Rightarrow> int list) \<Rightarrow> (int \<Rightarrow> int) \<Rightarrow> bool \<Rightarrow> int option \<Rightarrow> row list \<Rightarrow> (string \<times> int list \<times> string) list" where
  "message_post_on_failure search_users partner_of subscribe_job_creator manager_group rs =
     (let base_users = search_users (subscribe_users_domain manager_group rs) in
      map (\<lambda>r.
        let users = (if subscribe_job_creator
              then remdups (base_users @ (case val_int (fld ''user_id'' r) of None \<Rightarrow> [] | Some u \<Rightarrow> [u]))
              else base_users)
        in (row_uuid r, remdups (map partner_of users), message_failed_job)) rs)"

definition write_messages :: "(row list \<Rightarrow> 'm list) \<Rightarrow> fields \<Rightarrow> string list \<Rightarrow> table \<Rightarrow> 'm list" where
  "write_messages post vals uuids db =
     (if dict_get PNone vals ''state'' = PStr ''failed''
      then post (filter (\<lambda>r. row_uuid r \<in> set uuids) db) else [])"

definition needaction_domain_get :: pyval where
  "needaction_domain_get = PList [PTuple [PStr ''state'', PStr ''='', PStr ''failed'']]"

end
