(* ===== verification/RunJob.thy ===== *)
theory RunJob
  imports QueueJob
begin

text \<open>
  The controller of \<open>queue_job/controllers/main.py\<close> that runs one job. The table before the call is
  committed; \<open>at_committed\<close> is what later transactions see and \<open>at_working\<close> what the transaction of the
  request sees. The function of the job, the errors that the database may raise and the text of the
  traceback are arguments.
\<close>

definition PG_RETRY :: int where "PG_RETRY = 5"

definition DEPENDS_MAX_TRIES_ON_CONCURRENCY_FAILURE :: nat where
  "DEPENDS_MAX_TRIES_ON_CONCURRENCY_FAILURE = 5"

text \<open>What the run of a job takes from its surroundings: the process, the errors of the database when the
  start and the end of the job are committed, the function of the job with its effect on the table, the
  codes of the errors that are retried, the names of the classes of exceptions.\<close>

record run_env =
  re_queue :: queue_env
  re_pid :: int
  re_start_error :: "job_exc option"
  re_end_error :: "job_exc option"
  re_work :: "Job \<Rightarrow> table \<Rightarrow> table \<times> (job_exc + pyval)"
  re_retry_code :: "string \<Rightarrow> bool"
  re_class_name :: "job_exc \<Rightarrow> string"
  re_traceback :: "job_exc \<Rightarrow> string"
  re_randint :: "int \<Rightarrow> int \<Rightarrow> int"
  re_depends_errors :: "(string \<times> string) list"

record attempt =
  at_committed :: table
  at_working :: table
  at_locks :: "string list"
  at_job :: Job
  at_error :: "job_exc option"

definition re_now :: "run_env \<Rightarrow> int" where
  "re_now re = je_now (qe_job (re_queue re))"

text \<open>An exception of the ORM is any exception to the handlers of the controller.\<close>

definition orm_error :: "PyError \<Rightarrow> job_exc" where
  "orm_error e = OtherError ''Exception'' []"

definition try_perform_job :: "run_env \<Rightarrow> Job \<Rightarrow> string list \<Rightarrow> table \<Rightarrow> attempt" where
  "try_perform_job re j0 locks db =
     (let j1 = set_started (re_now re) (re_pid re) j0 in
      case store_job (re_queue re) j1 db of
        Inl e \<Rightarrow> \<lparr>at_committed = db, at_working = db, at_locks = locks, at_job = j1, at_error = Some (orm_error e)\<rparr>
      | Inr db1 \<Rightarrow>
      (case re_start_error re of
        Some e \<Rightarrow> \<lparr>at_committed = db, at_working = db, at_locks = locks, at_job = j1, at_error = Some e\<rparr>
      | None \<Rightarrow>
      (let locks1 = add_lock_record db (j_uuid j1) locks in
       case lock db1 (j_uuid j1) locks1 of
         Inl e \<Rightarrow> \<lparr>at_committed = db1, at_working = db1, at_locks = locks1, at_job = j1, at_error = Some e\<rparr>
       | Inr _ \<Rightarrow>
       (let (db2, outcome) = re_work re j1 db1;
            (j2, performed) = perform outcome j1
        in case performed of
             Inl e \<Rightarrow> \<lparr>at_committed = db1, at_working = db2, at_locks = locks1, at_job = j2, at_error = Some e\<rparr>
           | Inr _ \<Rightarrow>
           (let j3 = set_done (re_now re) None j2 in
            case store_job (re_queue re) j3 db2 of
              Inl e \<Rightarrow> \<lparr>at_committed = db1, at_working = db2, at_locks = locks1, at_job = j3,
                        at_error = Some (orm_error e)\<rparr>
            | Inr db3 \<Rightarrow>
                (case re_end_error re of
                   Some e \<Rightarrow> \<lparr>at_committed = db1, at_working = db2, at_locks = locks1, at_job = j3, at_error = Some e\<rparr>
                 | None \<Rightarrow> \<lparr>at_committed = db3, at_working = db3, at_locks = locks1, at_job = j3, at_error = None\<rparr>))))))"

text \<open>The concurrency errors of the database make the job retryable.\<close>

definition convert_error :: "run_env \<Rightarrow> job_exc \<Rightarrow> job_exc" where
  "convert_error re e =
     (case e of
        OperationalError code msg \<Rightarrow>
          if re_retry_code re code then RetryableJobError msg (Some (Fixed PG_RETRY)) False else e
      | _ \<Rightarrow> e)"

text \<open>The update of the dependent jobs, tried again after an error that may be retried; the list holds
  the errors of the tries until one has none.\<close>

fun enqueue_dependent_jobs ::
  "(string \<Rightarrow> bool) \<Rightarrow> (string \<times> string) list \<Rightarrow> nat \<Rightarrow> string \<Rightarrow> table \<Rightarrow> job_exc + table" where
  "enqueue_dependent_jobs retry_code [] tries uuid db = Inr (enqueue_waiting uuid db)"
| "enqueue_dependent_jobs retry_code ((code, msg) # errors) tries uuid db =
     (if \<not> retry_code code then Inl (OperationalError code msg)
      else if tries \<ge> DEPENDS_MAX_TRIES_ON_CONCURRENCY_FAILURE then Inl (OperationalError code msg)
      else enqueue_dependent_jobs retry_code errors (tries + 1) uuid db)"

definition get_failure_values :: "run_env \<Rightarrow> job_exc \<Rightarrow> string option \<times> string option \<times> string option" where
  "get_failure_values re e =
     (Some (re_class_name re e),
      Some (case e of RetryableJobError m _ _ \<Rightarrow> m | FailedJobError m \<Rightarrow> m | NothingToDoJob m \<Rightarrow> m
            | OperationalError _ m \<Rightarrow> m | OtherError _ m \<Rightarrow> m),
      Some (re_traceback re e))"

text \<open>\<open>retry_postpone\<close>, in a transaction of its own.\<close>

definition retry_postpone :: "run_env \<Rightarrow> Job \<Rightarrow> string \<Rightarrow> seconds option \<Rightarrow> table \<Rightarrow> table result" where
  "retry_postpone re j message seconds db =
     rbind (postpone (re_randint re) (re_now re) (Some (PStr message)) seconds j) (\<lambda>j1.
     rbind (linked_jobs (re_queue re) db j1) (\<lambda>lookup.
     store_job (re_queue re) (set_pending lookup None False j1) db))"

definition run_failed :: "run_env \<Rightarrow> Job \<Rightarrow> job_exc \<Rightarrow> table \<Rightarrow> table result" where
  "run_failed re j e db =
     (let (exc_name, exc_message, exc_info) = get_failure_values re e in
      store_job (re_queue re) (set_failed exc_name exc_message exc_info j) db)"

definition nothing_to_do_message :: "string \<Rightarrow> string" where
  "nothing_to_do_message msg =
     (if msg \<noteq> [] then msg else ''Job interrupted and set to Done: nothing to do.'')"

text \<open>What the request answers: an empty text or the exception that leaves the controller.\<close>

datatype run_response = Answered | Raised job_exc

definition finish_run :: "run_env \<Rightarrow> string \<Rightarrow> table \<Rightarrow> table \<times> run_response" where
  "finish_run re uuid db =
     (case enqueue_dependent_jobs (re_retry_code re) (re_depends_errors re) 0 uuid db of
        Inl e \<Rightarrow> (db, Raised e)
      | Inr db1 \<Rightarrow> (db1, Answered))"

text \<open>The handlers of the exceptions of the attempt: the committed table afterwards and the answer.\<close>

definition handle_attempt :: "run_env \<Rightarrow> string \<Rightarrow> attempt \<Rightarrow> table \<times> run_response" where
  "handle_attempt re uuid at =
     (case map_option (convert_error re) (at_error at) of
        None \<Rightarrow> finish_run re uuid (at_committed at)
      | Some (NothingToDoJob msg) \<Rightarrow>
          (case store_job (re_queue re)
                  (set_done (re_now re) (Some (PStr (nothing_to_do_message msg))) (at_job at)) (at_working at) of
             Inl e \<Rightarrow> (at_committed at, Raised (orm_error e))
           | Inr db1 \<Rightarrow> finish_run re uuid db1)
      | Some (RetryableJobError msg seconds _) \<Rightarrow>
          (case retry_postpone re (at_job at) msg seconds (at_committed at) of
             Inl e \<Rightarrow> (at_committed at, Raised (orm_error e))
           | Inr db1 \<Rightarrow> (db1, Answered))
      | Some e \<Rightarrow>
          (case run_failed re (at_job at) e (at_committed at) of
             Inl e' \<Rightarrow> (at_committed at, Raised (orm_error e'))
           | Inr db1 \<Rightarrow> (db1, Raised e)))"

text \<open>The committed table after the request, the locks and the answer.\<close>

definition runjob :: "run_env \<Rightarrow> string \<Rightarrow> string list \<Rightarrow> table \<Rightarrow> table \<times> string list \<times> run_response" where
  "runjob re uuid locks db =
     (if \<not> (\<exists>r\<in>set db. row_uuid r = uuid \<and> row_state r = Some ENQUEUED) then (db, locks, Answered)
      else case load_job (re_queue re) db uuid of
        Inl e \<Rightarrow> (db, locks, Raised (orm_error e))
      | Inr j \<Rightarrow>
        if j_state j \<noteq> ENQUEUED then (db, locks, Raised (orm_error AssertionError))
        else (let at = try_perform_job re j locks db
              in case handle_attempt re uuid at of (db1, resp) \<Rightarrow> (db1, at_locks at, resp)))"

section \<open>The tries to update the dependent jobs\<close>

lemma enqueue_dependent_jobs_ok:
  "enqueue_dependent_jobs retry_code errors tries uuid db = Inr db' \<longleftrightarrow>
     (\<forall>e\<in>set errors. retry_code (fst e)) \<and> (errors = [] \<or> tries + length errors \<le> 5) \<and>
     db' = enqueue_waiting uuid db"
proof (induction retry_code errors tries uuid db rule: enqueue_dependent_jobs.induct)
  case (2 retry_code code msg errors tries uuid db)
  then show ?case
    by (cases errors) (auto simp: DEPENDS_MAX_TRIES_ON_CONCURRENCY_FAILURE_def)
qed auto

end
