(* ===== verification/JobFacts.thy ===== *)
theory JobFacts
  imports JobStore
begin

text \<open>
  Lemmas about single jobs: what is stored is what is loaded, what the values from the model can and
  cannot replace, the retries and the time to the next one, the identity of a job.
\<close>

section \<open>Stored values\<close>

lemma dict_update_other: "k \<notin> fst ` set e \<Longrightarrow> map_of (dict_update d e) k = map_of d k"
  by (induction d e rule: dict_update.induct) auto

lemma distinct_dict_update: "distinct (map fst d) \<Longrightarrow> distinct (map fst (dict_update d e))"
  by (induction d e rule: dict_update.induct) (auto simp: distinct_dict_set)

lemma add_model_values_core:
  "k \<in> fst ` set vals \<Longrightarrow> map_of (add_model_values fm vals) k = map_of vals k"
  unfolding add_model_values_def by (rule dict_update_other) force

lemma add_model_values_none:
  assumes "k \<notin> fst ` set vals" and "k \<notin> fst ` set fm"
  shows "map_of (add_model_values fm vals) k = None"
proof -
  have "k \<notin> fst ` set (filter (\<lambda>(k, v). k \<notin> fst ` set vals) fm)" using assms(2) by auto
  then show ?thesis
    unfolding add_model_values_def by (simp add: dict_update_other map_of_eq_None_iff assms(1))
qed

definition created_keys :: "string list" where
  "created_keys = [''user_id'', ''channel'', ''uuid'', ''name'', ''func_string'', ''date_created'', ''model_name'',
     ''method_name'', ''job_function_id'', ''channel_method_name'', ''records'', ''args'', ''kwargs'']"

definition job_keys :: "string list" where
  "job_keys = [''state'', ''priority'', ''retry'', ''max_retries'', ''exc_name'', ''exc_message'', ''exc_info'',
     ''company_id'', ''result'', ''date_enqueued'', ''date_started'', ''date_done'', ''exec_time'', ''date_cancelled'',
     ''eta'', ''identity_key'', ''worker_pid'', ''graph_uuid'', ''dependencies'']"

lemma core_values_keys: "map fst (core_values env create j) = job_keys @ (if create then created_keys else [])"
  by (cases create) (simp_all add: core_values_def created_keys_def job_keys_def)

lemma core_values_distinct: "distinct (map fst (core_values env create j))"
  unfolding core_values_keys by (cases create) (simp_all add: created_keys_def job_keys_def)

lemma core_values_set: "fst ` set (core_values env create j) = set (job_keys @ (if create then created_keys else []))"
  using core_values_keys [of env create j] by (metis set_map)

lemma store_values_core:
  "k \<in> set job_keys \<or> create \<and> k \<in> set created_keys \<Longrightarrow>
    map_of (store_values env create j) k = map_of (core_values env create j) k"
  unfolding store_values_def by (rule add_model_values_core) (auto simp: core_values_set)

lemma store_values_other:
  assumes "k \<in> set created_keys" and "k \<notin> fst ` set (se_from_model env j)"
  shows "map_of (store_values env False j) k = None"
proof -
  have "set created_keys \<inter> set job_keys = {}" by (simp add: created_keys_def job_keys_def)
  with assms show ?thesis
    unfolding store_values_def by (intro add_model_values_none) (auto simp: core_values_set)
qed

lemma store_values_distinct: "distinct (map fst (store_values env create j))"
  unfolding store_values_def add_model_values_def by (rule distinct_dict_update) (rule core_values_distinct)

lemma fld_update:
  "fld k (dict_update r (store_values env create j)) =
     (case map_of (store_values env create j) k of None \<Rightarrow> fld k r | Some v \<Rightarrow> fld k [(k, v)])"
  by (simp add: fld_def map_of_dict_update [OF store_values_distinct] map_add_def split: option.splits)


section \<open>A stored job is loaded as it was\<close>

text \<open>The values of a new row, one by one.\<close>

lemma fld_created:
  "k \<in> set job_keys \<union> set created_keys \<Longrightarrow>
    fld k (store_values env True j) = fld k (core_values env True j)"
  unfolding fld_def by (subst store_values_core) auto

lemma fld_core_values:
  "fld ''records'' (core_values env True j) = PRecords (j_recordset j)"
  "fld ''method_name'' (core_values env True j) = PStr (j_method_name j)"
  "fld ''args'' (core_values env True j) = PTuple (j_args j)"
  "fld ''kwargs'' (core_values env True j) = PDict (j_kwargs j)"
  "fld ''uuid'' (core_values env True j) = PStr (j_uuid j)"
  "fld ''name'' (core_values env True j) = PStr (description (se_doc env) j)"
  "fld ''channel'' (core_values env True j) = PStr (job_channel j)"
  "fld ''date_created'' (core_values env True j) = PDatetime (j_date_created j)"
  by (simp_all add: core_values_def fld_def)

lemma fld_job_values:
  "fld ''state'' (core_values env create j) = PStr (state_name (j_state j))"
  "fld ''priority'' (core_values env create j) = PInt (j_priority j)"
  "fld ''retry'' (core_values env create j) = PInt (j_retry j)"
  "fld ''max_retries'' (core_values env create j) = PInt (j_max_retries j)"
  "fld ''company_id'' (core_values env create j) = PInt (j_company_id j)"
  "fld ''result'' (core_values env create j) =
     (if py_true (j_result j) then PStr (se_str env (j_result j)) else PBool False)"
  "fld ''date_enqueued'' (core_values env create j) = or_false PDatetime (j_date_enqueued j)"
  "fld ''date_started'' (core_values env create j) = or_false PDatetime (j_date_started j)"
  "fld ''date_done'' (core_values env create j) = or_false PDatetime (j_date_done j)"
  "fld ''date_cancelled'' (core_values env create j) = or_false PDatetime (j_date_cancelled j)"
  "fld ''eta'' (core_values env create j) = or_false PDatetime (j_eta j)"
  "fld ''identity_key'' (core_values env create j) =
     or_false PStr (fst (identity_key (se_key_func env) j))"
  "fld ''exc_info'' (core_values env create j) = (case j_exc_info j of None \<Rightarrow> PBool False | Some s \<Rightarrow> PStr s)"
  "fld ''graph_uuid'' (core_values env create j) = (case j_graph_uuid j of None \<Rightarrow> PBool False | Some s \<Rightarrow> PStr s)"
  "fld ''worker_pid'' (core_values env create j) = (case j_worker_pid j of None \<Rightarrow> PBool False | Some n \<Rightarrow> PInt n)"
  "fld ''dependencies'' (core_values env create j) = PDict
     [(''depends_on'', PList (map (PStr \<circ> j_uuid) (job_depends_on (se_lookup env) j))),
      (''reverse_depends_on'', PList (map (PStr \<circ> j_uuid) (job_reverse_depends_on (se_lookup env) j)))]"
  by (simp_all add: core_values_def fld_def opt_val_def or_false_def split: option.splits)

lemma val_date_or_false [simp]: "val_date (or_false PDatetime x) = x"
  by (cases x) (simp_all add: or_false_def)

lemma val_strs_map [simp]: "val_strs (PList (map (PStr \<circ> f) xs)) = map f xs"
  by (induction xs) (simp_all add: val_strs_def map_filter_simps)

text \<open>The dependencies that are stored are those whose jobs are there.\<close>

lemma lookup_uuids:
  assumes "\<And>u p. lookup u = Some p \<Longrightarrow> j_uuid p = u"
  shows "map j_uuid (List.map_filter lookup us) = filter (\<lambda>u. lookup u \<noteq> None) us"
  using assms by (induction us) (auto simp: map_filter_simps split: option.splits)

lemma row_deps_core:
  assumes "\<And>u p. se_lookup env u = Some p \<Longrightarrow> j_uuid p = u"
    and d: "fld ''dependencies'' r = fld ''dependencies'' (core_values env create j)"
  shows "row_depends_on r = filter (\<lambda>u. se_lookup env u \<noteq> None) (j_depends_on_uuids j)"
    and "row_reverse_depends_on r = filter (\<lambda>u. se_lookup env u \<noteq> None) (j_reverse_depends_on_uuids j)"
  using lookup_uuids [of "se_lookup env"] assms(1)
  by (simp_all add: row_depends_on_def row_reverse_depends_on_def d fld_job_values dict_get_def
      job_depends_on_def job_reverse_depends_on_def)

text \<open>What is left of a value that is stored only if it is true.\<close>

definition nonempty :: "string option \<Rightarrow> string option" where
  "nonempty x = (case x of Some [] \<Rightarrow> None | _ \<Rightarrow> x)"

lemma description_again:
  "j_description j' = Some (description doc j) \<Longrightarrow> j_recordset j' = j_recordset j \<Longrightarrow>
    j_method_name j' = j_method_name j \<Longrightarrow> description doc j' = description doc j"
  by (auto simp: description_def split: option.splits list.splits)

lemma val_int_case: "val_int (case x of None \<Rightarrow> PBool False | Some n \<Rightarrow> PInt n) = x"
  by (cases x) simp_all

lemma job_channel_again:
  "j_channel j' = Some (job_channel j) \<Longrightarrow> j_config j' = j_config j \<Longrightarrow> job_channel j' = job_channel j"
  by (auto simp: job_channel_def split: option.splits)

text \<open>The job that a well-formed row stands for, field by field.\<close>

definition loaded :: "job_env \<Rightarrow> recordset \<Rightarrow> string \<Rightarrow> pyval list \<Rightarrow> fields \<Rightarrow> JobState \<Rightarrow> row \<Rightarrow> Job" where
  "loaded env recordset method args kwargs state r =
     \<lparr>j_method_name = method, j_recordset = recordset,
      j_config = je_job_config env (job_function_name (rs_model recordset) method),
      j_state = state,
      j_retry = (case val_int (fld ''retry'' r) of None \<Rightarrow> 0 | Some n \<Rightarrow> n),
      j_max_retries = (case val_int (fld ''max_retries'' r) of None \<Rightarrow> 0 | Some n \<Rightarrow> n),
      j_uuid = (case val_str (fld ''uuid'' r) of None \<Rightarrow> je_fresh_uuid env | Some u \<Rightarrow> u),
      j_graph_uuid = (if py_true (fld ''graph_uuid'' r) then val_str (fld ''graph_uuid'' r) else None),
      j_args = args, j_kwargs = kwargs, j_depends_on_uuids = row_depends_on r,
      j_reverse_depends_on_uuids = row_reverse_depends_on r,
      j_priority = (case val_int (fld ''priority'' r) of None \<Rightarrow> DEFAULT_PRIORITY | Some n \<Rightarrow> n),
      j_date_created = (case val_date (fld ''date_created'' r) of None \<Rightarrow> je_now env | Some t \<Rightarrow> t),
      j_description = val_str (fld ''name'' r),
      j_identity_key = val_str (fld ''identity_key'' r), j_identity_key_func = False,
      j_date_enqueued = val_date (fld ''date_enqueued'' r), j_date_started = val_date (fld ''date_started'' r),
      j_date_done = val_date (fld ''date_done'' r), j_date_cancelled = val_date (fld ''date_cancelled'' r),
      j_result = (if py_true (fld ''result'' r) then fld ''result'' r else PNone),
      j_exc_name = None, j_exc_message = None,
      j_exc_info = (if py_true (fld ''exc_info'' r) then val_str (fld ''exc_info'' r) else None),
      j_company_id = (case val_int (fld ''company_id'' r) of
         None \<Rightarrow> (case je_context_company env of None \<Rightarrow> je_company env | Some c \<Rightarrow> c) | Some n \<Rightarrow> n),
      j_eta = val_date (fld ''eta'' r), j_channel = val_str (fld ''channel'' r),
      j_worker_pid = val_int (fld ''worker_pid'' r)\<rparr>"

lemma load_ok:
  assumes "fld ''records'' r = PRecords recordset" and "fld ''method_name'' r = PStr method"
    and "fld ''args'' r = PTuple args" and "fld ''kwargs'' r = PDict kwargs"
    and "is_method (rs_model recordset) method" and "row_state r = Some state"
  shows "load_from_db_record env is_method r = Inr (loaded env recordset method args kwargs state r)"
proof -
  have e: "(case (case val_date v of None \<Rightarrow> NoEta | Some t \<Rightarrow> EtaAt t) of NoEta \<Rightarrow> None
      | EtaDelta d \<Rightarrow> if d = 0 then None else Some (je_now env + d)
      | EtaSeconds n \<Rightarrow> if n = 0 then None else Some (je_now env + n)
      | EtaAt t \<Rightarrow> Some t) = val_date v" for v
    by (cases "val_date v") simp_all
  show ?thesis
    unfolding load_from_db_record_def using assms
    by (cases "fld ''identity_key'' r") (simp_all add: job_init_def loaded_def set_eta_def set_identity_key_def e cong: option.case_cong)
qed

lemma load_created:
  assumes m: "is_method (rs_model (j_recordset j)) (j_method_name j)"
    and look: "\<And>u p. se_lookup env u = Some p \<Longrightarrow> j_uuid p = u"
    and conf: "j_config j = je_job_config jenv (job_function_name (rs_model (j_recordset j)) (j_method_name j))"
  shows "\<exists>j'. load_from_db_record jenv is_method (store_values env True j) = Inr j' \<and>
    j_recordset j' = j_recordset j \<and> j_method_name j' = j_method_name j \<and> j_config j' = j_config j \<and>
    j_uuid j' = j_uuid j \<and> j_graph_uuid j' = nonempty (j_graph_uuid j) \<and>
    j_args j' = j_args j \<and> j_kwargs j' = j_kwargs j \<and>
    j_state j' = j_state j \<and> j_retry j' = j_retry j \<and> j_max_retries j' = j_max_retries j \<and>
    j_priority j' = j_priority j \<and> j_company_id j' = j_company_id j \<and> j_eta j' = j_eta j \<and>
    j_date_created j' = j_date_created j \<and> j_date_enqueued j' = j_date_enqueued j \<and>
    j_date_started j' = j_date_started j \<and> j_date_done j' = j_date_done j \<and>
    j_date_cancelled j' = j_date_cancelled j \<and> j_worker_pid j' = j_worker_pid j \<and>
    j_exc_info j' = nonempty (j_exc_info j) \<and>
    description (se_doc env) j' = description (se_doc env) j \<and> job_channel j' = job_channel j \<and>
    fst (identity_key kf j') = nonempty (fst (identity_key (se_key_func env) j)) \<and>
    j_depends_on_uuids j' = filter (\<lambda>u. se_lookup env u \<noteq> None) (j_depends_on_uuids j) \<and>
    j_reverse_depends_on_uuids j' = filter (\<lambda>u. se_lookup env u \<noteq> None) (j_reverse_depends_on_uuids j)"
proof -
  let ?r = "store_values env True j"
  have jk: "fld k ?r = fld k (core_values env True j)" if "k \<in> set job_keys" for k
    using that by (simp add: fld_created)
  have ck: "fld k ?r = fld k (core_values env True j)" if "k \<in> set created_keys" for k
    using that by (simp add: fld_created)
  note vals = jk [unfolded job_keys_def, simplified] ck [unfolded created_keys_def, simplified]
  have "fld ''dependencies'' ?r = fld ''dependencies'' (core_values env True j)"
    by (rule jk) (simp add: job_keys_def)
  note deps = row_deps_core [OF look this]
  have st: "row_state ?r = Some (j_state j)" by (simp add: row_state_def vals fld_job_values)
  let ?j = "loaded jenv (j_recordset j) (j_method_name j) (j_args j) (j_kwargs j) (j_state j) ?r"
  have l: "load_from_db_record jenv is_method ?r = Inr ?j"
    by (rule load_ok) (simp_all add: m st vals fld_core_values)
  have id: "fst (identity_key kf ?j) = nonempty (fst (identity_key (se_key_func env) j))"
    by (auto simp: identity_key_def loaded_def vals fld_job_values or_false_def nonempty_def split: option.splits list.splits)
  have ch: "job_channel ?j = job_channel j"
    by (rule job_channel_again) (simp_all add: loaded_def vals fld_core_values conf)
  have de: "description (se_doc env) ?j = description (se_doc env) j"
    by (rule description_again) (simp_all add: loaded_def vals fld_core_values)
  have gu: "j_graph_uuid ?j = nonempty (j_graph_uuid j)"
    by (auto simp: loaded_def vals fld_job_values nonempty_def split: option.split list.split)
  have ei: "j_exc_info ?j = nonempty (j_exc_info j)"
    by (auto simp: loaded_def vals fld_job_values nonempty_def split: option.split list.split)
  show ?thesis
    by (rule exI [of _ ?j], simp only: l id ch de gu ei simp_thms)
       (simp add: loaded_def vals fld_core_values fld_job_values val_int_case deps conf)
qed


section \<open>Retries\<close>

text \<open>Performing a job again and again with the same outcome.\<close>

definition perform_step :: "job_exc + pyval \<Rightarrow> Job \<Rightarrow> Job" where
  "perform_step out j = fst (perform out j)"

lemma perform_step_fields:
  "j_retry (perform_step (Inl (RetryableJobError msg s False)) j) = j_retry j + 1"
  "j_max_retries (perform_step out j) = j_max_retries j"
  by (auto simp: perform_step_def perform_def Let_def split: sum.splits job_exc.splits)

lemma perform_steps:
  "j_retry ((perform_step (Inl (RetryableJobError msg s False)) ^^ k) j) = j_retry j + int k"
  "j_max_retries ((perform_step out ^^ k) j) = j_max_retries j"
  by (induction k) (simp_all add: perform_step_fields)

lemma perform_retryable:
  "snd (perform (Inl (RetryableJobError msg s False)) j) =
     (if j_max_retries j \<noteq> 0 \<and> j_max_retries j \<le> j_retry j + 1
      then Inl (FailedJobError (''Max. retries ('' @ show_int (j_max_retries j) @ '') reached: '' @ msg))
      else Inl (RetryableJobError msg s False))"
  by (simp add: perform_def Let_def)

section \<open>The time to the next try\<close>

text \<open>
  The pattern gives the delay of the largest count that has been reached, whatever the order of its
  entries, and the default when none has.
\<close>

definition pattern_delay :: "int \<Rightarrow> (int \<times> seconds) list \<Rightarrow> seconds" where
  "pattern_delay retry pattern =
     (let reached = filter (\<lambda>(c, s). c \<le> retry) pattern in
      if reached = [] then Fixed RETRY_INTERVAL
      else the (map_of pattern (Max (fst ` set reached))))"

lemma retry_scan_takeWhile:
  "retry_scan retry patt s = (case takeWhile (\<lambda>(c, _). c \<le> retry) patt of [] \<Rightarrow> s | xs \<Rightarrow> snd (last xs))"
  by (induction retry patt s rule: retry_scan.induct) (auto split: list.splits)

lemma takeWhile_sorted_filter:
  "sorted (map fst xs) \<Longrightarrow> takeWhile (\<lambda>(c, _). c \<le> n) xs = filter (\<lambda>(c, _). c \<le> (n::int)) xs"
  by (induction xs) (auto intro!: filter_False [symmetric])

lemma last_sorted_Max:
  "sorted (map fst xs) \<Longrightarrow> xs \<noteq> [] \<Longrightarrow> fst (last xs) = Max (fst ` set (xs :: (int \<times> 'a) list))"
proof (induction xs)
  case (Cons x xs)
  show ?case
  proof (cases "xs = []")
    case False
    obtain y where y: "y \<in> set xs" using False by (cases xs) auto
    have "fst x \<le> fst y" using Cons.prems(1) y by auto
    also have "fst y \<le> Max (fst ` set xs)" using y by simp
    finally have "fst x \<le> Max (fst ` set xs)" .
    then show ?thesis using Cons False by simp
  qed simp
qed simp

lemma retry_scan_pattern:
  assumes "distinct (map fst pattern)"
  shows "retry_scan retry (sort_key fst pattern) (Fixed RETRY_INTERVAL) = pattern_delay retry pattern"
proof -
  let ?s = "sort_key fst pattern"
  let ?f = "filter (\<lambda>(c, s). c \<le> retry)"
  have so: "sorted (map fst ?s)" by simp
  have ss: "set (?f ?s) = set (?f pattern)" by simp
  have tw: "takeWhile (\<lambda>(c, _). c \<le> retry) ?s = ?f ?s" by (rule takeWhile_sorted_filter [OF so])
  show ?thesis
  proof (cases "?f pattern = []")
    case True
    then have "?f ?s = []" using ss by (metis set_empty)
    with True show ?thesis by (simp add: retry_scan_takeWhile tw pattern_delay_def)
  next
    case False
    then have ne: "?f ?s \<noteq> []" using ss by (metis set_empty)
    have "sorted (map fst (?f ?s))" using so by (induction ?s) (auto simp: sorted_filter)
    from last_sorted_Max [OF this ne] have m: "fst (last (?f ?s)) = Max (fst ` set (?f pattern))" by (simp only: ss)
    have "last (?f ?s) \<in> set pattern" using last_in_set [OF ne] by auto
    then have "map_of pattern (fst (last (?f ?s))) = Some (snd (last (?f ?s)))" using assms by simp
    then have "pattern_delay retry pattern = snd (last (?f ?s))"
      using False by (simp add: pattern_delay_def m)
    then show ?thesis using ne by (simp add: retry_scan_takeWhile tw split: list.split)
  qed
qed

section \<open>Identity\<close>

lemma sort_key_mset:
  assumes "mset xs = mset ys" and "distinct (map fst xs)"
  shows "sort_key fst xs = sort_key (fst :: (string \<times> 'a) \<Rightarrow> string) ys"
proof (rule properties_for_sort_key)
  show "mset (sort_key fst ys) = mset xs" using assms(1) by simp
  have inj: "inj_on fst (set xs)" and d: "distinct xs" using assms(2) by (simp_all add: distinct_map)
  show "filter (\<lambda>x. fst k = fst x) (sort_key fst ys) = filter (\<lambda>x. fst k = fst x) xs" if "k \<in> set (sort_key fst ys)" for k
  proof -
    have kx: "k \<in> set xs" using that mset_eq_setD [OF assms(1)] by simp
    have dy: "distinct (sort_key fst ys)" using d assms(1) mset_eq_imp_distinct_iff by fastforce
    have sy: "set (sort_key fst ys) = set xs" using mset_eq_setD [OF assms(1)] by simp
    have one: "filter (\<lambda>x. fst k = fst x) zs = [k]" if "distinct zs" "set zs = set xs" for zs
    proof -
      have "fst k = fst x \<longleftrightarrow> x = k" if "x \<in> set zs" for x
        using inj_onD [OF inj, of k x] that kx \<open>set zs = set xs\<close> by auto
      then have "filter (\<lambda>x. fst k = fst x) zs = filter (\<lambda>x. x = k) zs" by (intro filter_cong) auto
      also have "\<dots> = [k]"
        using that(1) kx [folded that(2)]
      proof (induction zs)
        case (Cons z zs)
        then show ?case by (cases "z = k") (auto simp: filter_empty_conv)
      qed simp
      finally show ?thesis .
    qed
    show ?thesis using one [OF dy sy] one [OF d refl] by simp
  qed
  show "sorted (map fst (sort_key fst ys))" by simp
qed

end
