(* ===== verification/JobGraph.thy ===== *)
theory JobGraph
  imports JobFacts
begin

text \<open>
  The jobs that wait for others. In the table, a job that can run or runs has all its parents done, and
  a job that waits has a parent that is not done: no job starts too early and none waits for nothing.
  This theory shows what the changes of a state do to it; the operations are those of \<open>JobStore\<close>.
\<close>

section \<open>Tables with dependencies\<close>

definition set_row_state :: "JobState \<Rightarrow> row \<Rightarrow> row" where
  "set_row_state st r = dict_set ''state'' (PStr (state_name st)) r"

definition set_state_of :: "string \<Rightarrow> JobState \<Rightarrow> table \<Rightarrow> table" where
  "set_state_of u st db = map (\<lambda>r. if row_uuid r = u then set_row_state st r else r) db"

lemma fld_dict_set: "fld k (dict_set k' v r) = (if k = k' then fld k [(k, v)] else fld k r)"
  by (simp add: fld_def)

lemma row_set_state [simp]:
  "row_uuid (set_row_state st r) = row_uuid r" "row_graph (set_row_state st r) = row_graph r"
  "row_depends_on (set_row_state st r) = row_depends_on r"
  "row_reverse_depends_on (set_row_state st r) = row_reverse_depends_on r"
  "row_state (set_row_state st r) = Some st"
  by (simp_all add: set_row_state_def row_uuid_def row_graph_def row_depends_on_def
      row_reverse_depends_on_def row_state_def fld_dict_set) (simp add: fld_def)

text \<open>What the queries see of a row, but for its state.\<close>

definition row_links :: "row \<Rightarrow> string \<times> string option \<times> string list \<times> string list" where
  "row_links r = (row_uuid r, row_graph r, row_depends_on r, row_reverse_depends_on r)"

lemma row_links_set_state [simp]: "row_links (set_row_state st r) = row_links r"
  by (simp add: row_links_def)

text \<open>
  The dependencies of a table: the uuids are distinct; parents and children refer to each other, in
  the same graph; no job depends on itself.
\<close>

definition links_ok :: "table \<Rightarrow> bool" where
  "links_ok db \<longleftrightarrow> distinct (map row_uuid db) \<and>
     (\<forall>r\<in>set db. row_uuid r \<notin> set (row_depends_on r) \<and>
       (\<forall>u\<in>set (row_depends_on r). \<exists>p\<in>set db. row_uuid p = u \<and> same_graph r p \<and>
          row_uuid r \<in> set (row_reverse_depends_on p)) \<and>
       (\<forall>u\<in>set (row_reverse_depends_on r). \<exists>c\<in>set db. row_uuid c = u \<and> same_graph c r \<and>
          row_uuid r \<in> set (row_depends_on c)))"

lemma parent_exists:
  "links_ok db \<Longrightarrow> r \<in> set db \<Longrightarrow> u \<in> set (row_depends_on r) \<Longrightarrow>
    \<exists>p\<in>set db. row_uuid p = u \<and> same_graph r p \<and> row_uuid r \<in> set (row_reverse_depends_on p)"
  unfolding links_ok_def by blast

lemma child_exists:
  "links_ok db \<Longrightarrow> r \<in> set db \<Longrightarrow> u \<in> set (row_reverse_depends_on r) \<Longrightarrow>
    \<exists>c\<in>set db. row_uuid c = u \<and> same_graph c r \<and> row_uuid r \<in> set (row_depends_on c)"
  unfolding links_ok_def by blast

definition parents :: "table \<Rightarrow> row \<Rightarrow> row list" where
  "parents db r = filter (\<lambda>p. row_uuid p \<in> set (row_depends_on r)) db"

definition parents_done :: "table \<Rightarrow> row \<Rightarrow> bool" where
  "parents_done db r \<longleftrightarrow> (\<forall>p\<in>set (parents db r). row_state p = Some DONE)"

definition dep_inv :: "table \<Rightarrow> bool" where
  "dep_inv db \<longleftrightarrow> (\<forall>r\<in>set db.
     (row_state r \<in> Some ` {PENDING, ENQUEUED, STARTED} \<longrightarrow> parents_done db r) \<and>
     (row_state r = Some WAIT_DEPENDENCIES \<longrightarrow> \<not> parents_done db r))"

text \<open>Both depend only on what the rows show.\<close>

lemma links_ok_cong:
  assumes "map row_links db' = map row_links db"
  shows "links_ok db' \<longleftrightarrow> links_ok db"
proof -
  have *: "links_ok db \<longleftrightarrow>
      (let L = map row_links db in distinct (map fst L) \<and>
       (\<forall>(u, g, ds, rs)\<in>set L. u \<notin> set ds \<and>
         (\<forall>v\<in>set ds. \<exists>(u', g', ds', rs')\<in>set L. u' = v \<and> (g \<noteq> None \<and> g = g') \<and> u \<in> set rs') \<and>
         (\<forall>v\<in>set rs. \<exists>(u', g', ds', rs')\<in>set L. u' = v \<and> (g' \<noteq> None \<and> g' = g) \<and> u \<in> set ds')))" for db
    by (simp add: links_ok_def row_links_def Let_def comp_def same_graph_def)
  show ?thesis unfolding * assms ..
qed

lemma parents_done_alt:
  "parents_done db r \<longleftrightarrow> (\<forall>p\<in>set db. row_uuid p \<in> set (row_depends_on r) \<longrightarrow> row_state p = Some DONE)"
  by (auto simp: parents_done_def parents_def)

lemma parents_done_map:
  assumes "\<And>r. r \<in> set db \<Longrightarrow> row_uuid (f r) = row_uuid r"
    and "\<And>r. r \<in> set db \<Longrightarrow> row_state (f r) = Some DONE \<longleftrightarrow> row_state r = Some DONE"
  shows "parents_done (map f db) x \<longleftrightarrow> parents_done db x"
  unfolding parents_done_alt set_map ball_simps using assms by simp

lemma dep_inv_cong:
  assumes "map (\<lambda>r. (row_links r, row_state r)) db' = map (\<lambda>r. (row_links r, row_state r)) db"
  shows "dep_inv db' \<longleftrightarrow> dep_inv db"
proof -
  have *: "dep_inv db \<longleftrightarrow>
      (let L = map (\<lambda>r. (row_links r, row_state r)) db in
       \<forall>((u, g, ds, rs), st)\<in>set L.
         (st \<in> Some ` {PENDING, ENQUEUED, STARTED} \<longrightarrow>
            (\<forall>((u', g', ds', rs'), st')\<in>set L. u' \<in> set ds \<longrightarrow> st' = Some DONE)) \<and>
         (st = Some WAIT_DEPENDENCIES \<longrightarrow>
            \<not> (\<forall>((u', g', ds', rs'), st')\<in>set L. u' \<in> set ds \<longrightarrow> st' = Some DONE)))" for db
    by (simp add: dep_inv_def row_links_def Let_def comp_def parents_done_alt)
  show ?thesis unfolding * assms ..
qed

section \<open>A change of one state\<close>

lemma links_set_state [simp]: "links_ok (set_state_of u st db) = links_ok db"
  by (rule links_ok_cong) (simp add: set_state_of_def)

lemma dep_inv_set_state:
  assumes l: "links_ok db" and inv: "dep_inv db" and r: "r \<in> set db" "row_uuid r = u"
    and st: "st \<noteq> DONE" "row_state r \<noteq> Some DONE"
    and act: "st \<in> {PENDING, ENQUEUED, STARTED} \<Longrightarrow> parents_done db r"
    and wait: "st = WAIT_DEPENDENCIES \<Longrightarrow> \<not> parents_done db r"
  shows "dep_inv (set_state_of u st db)"
proof -
  have d: "distinct (map row_uuid db)" using l by (simp add: links_ok_def)
  have same: "parents_done (set_state_of u st db) x \<longleftrightarrow> parents_done db x" for x
  proof -
    have "s = r" if "s \<in> set db" "row_uuid s = u" for s
      using d that r by (metis distinct_map inj_onD)
    with st show ?thesis unfolding set_state_of_def by (intro parents_done_map) auto
  qed
  show ?thesis
    unfolding dep_inv_def
  proof
    fix x assume "x \<in> set (set_state_of u st db)"
    then obtain y where y: "y \<in> set db" "x = (if row_uuid y = u then set_row_state st y else y)"
      by (auto simp: set_state_of_def)
    have pd: "parents_done db x \<longleftrightarrow> parents_done db y" using y(2) by (simp add: parents_done_alt)
    show "(row_state x \<in> Some ` {PENDING, ENQUEUED, STARTED} \<longrightarrow> parents_done (set_state_of u st db) x) \<and>
        (row_state x = Some WAIT_DEPENDENCIES \<longrightarrow> \<not> parents_done (set_state_of u st db) x)"
    proof (cases "row_uuid y = u")
      case True
      then have "y = r" using d y(1) r by (metis distinct_map inj_onD)
      with True y(2) act wait show ?thesis unfolding same pd by auto
    next
      case False
      with y inv show ?thesis unfolding same pd by (auto simp: dep_inv_def)
    qed
  qed
qed

section \<open>A job that is done\<close>

lemma parent_states_links:
  assumes l: "links_ok db" and j: "job \<in> set db" and c: "child \<in> set db" "same_graph child job"
    "row_uuid child \<in> set (row_reverse_depends_on job)"
  shows "parent_states db job child = map row_state (parents db child)"
proof -
  have d: "distinct (map row_uuid db)" using l by (simp add: links_ok_def)
  have "same_graph p job" if p: "p \<in> set db" "row_uuid p \<in> set (row_depends_on child)" for p
  proof -
    obtain q where q: "q \<in> set db" "row_uuid q = row_uuid p" "same_graph child q"
      using parent_exists [OF l c(1) p(2)] by blast
    then have "q = p" using d p(1) by (metis distinct_map inj_onD)
    with q(3) c(2) show ?thesis by (metis same_graph_def)
  qed
  then show ?thesis by (auto simp: parent_states_def parents_def intro!: arg_cong [where f = "map row_state"] filter_cong)
qed

text \<open>The children of a job, as the query finds them, are the jobs that depend on it.\<close>

lemma child_of_job:
  assumes l: "links_ok db" and j: "job \<in> set db" and c: "child \<in> set db"
  shows "same_graph child job \<and> row_uuid child \<in> set (row_reverse_depends_on job) \<longleftrightarrow>
    row_uuid job \<in> set (row_depends_on child)"
proof -
  have d: "distinct (map row_uuid db)" using l by (simp add: links_ok_def)
  have one: "x = y" if "x \<in> set db" "y \<in> set db" "row_uuid x = row_uuid y" for x y
    using d that by (metis distinct_map inj_onD)
  show ?thesis
  proof
    assume a: "same_graph child job \<and> row_uuid child \<in> set (row_reverse_depends_on job)"
    then obtain x where "x \<in> set db" "row_uuid x = row_uuid child" "row_uuid job \<in> set (row_depends_on x)"
      using child_exists [OF l j] by blast
    with one c show "row_uuid job \<in> set (row_depends_on child)" by blast
  next
    assume "row_uuid job \<in> set (row_depends_on child)"
    then obtain p where "p \<in> set db" "row_uuid p = row_uuid job" "same_graph child p"
      "row_uuid child \<in> set (row_reverse_depends_on p)"
      using parent_exists [OF l c] by blast
    with one j show "same_graph child job \<and> row_uuid child \<in> set (row_reverse_depends_on job)" by blast
  qed
qed

text \<open>With this the query has a simple reading: of the jobs that wait, those that depend on the job
  and whose parents all have the given state.\<close>

definition all_parents :: "JobState \<Rightarrow> table \<Rightarrow> row \<Rightarrow> bool" where
  "all_parents st db r \<longleftrightarrow> (\<forall>p\<in>set (parents db r). row_state p = Some st)"

lemma dependent_jobs_update_links:
  assumes l: "links_ok db" and j: "job \<in> set db" "row_uuid job = u"
  shows "dependent_jobs_update new u st db =
    map (\<lambda>r. if row_state r = Some WAIT_DEPENDENCIES \<and> u \<in> set (row_depends_on r) \<and> all_parents st db r
             then set_row_state new r else r) db"
proof -
  have d: "distinct (map row_uuid db)" using l by (simp add: links_ok_def)
  have one: "x = job" if "x \<in> set db" "row_uuid x = u" for x
    using d that j by (metis distinct_map inj_onD)
  have "(\<exists>job\<in>set db. row_uuid job = u \<and> same_graph child job \<and> row_uuid child \<in> set (row_reverse_depends_on job) \<and>
        parent_states db job child \<noteq> [] \<and> (\<forall>s\<in>set (parent_states db job child). s = Some st)) \<longleftrightarrow>
      u \<in> set (row_depends_on child) \<and> all_parents st db child" (is "?l \<longleftrightarrow> ?r")
    if c: "child \<in> set db" for child
  proof
    assume ?l
    then have q: "same_graph child job" "row_uuid child \<in> set (row_reverse_depends_on job)"
      "\<forall>s\<in>set (parent_states db job child). s = Some st" using one by blast+
    with child_of_job [OF l j(1) c] parent_states_links [OF l j(1) c q(1,2)] j(2) show ?r
      by (auto simp: all_parents_def)
  next
    assume r: ?r
    then have q: "same_graph child job" "row_uuid child \<in> set (row_reverse_depends_on job)"
      using child_of_job [OF l j(1) c] j(2) by auto
    have "job \<in> set (parents db child)" using r j by (simp add: parents_def)
    with r j q parent_states_links [OF l j(1) c q] show ?l
      by (intro bexI [of _ job]) (auto simp: all_parents_def)
  qed
  then show ?thesis
    unfolding dependent_jobs_update_def by (intro map_cong refl) (auto simp: set_row_state_def)
qed

lemma links_dependent_jobs [simp]: "links_ok (dependent_jobs_update new u st db) = links_ok db"
  by (rule links_ok_cong) (simp add: dependent_jobs_update_def row_links_set_state [unfolded set_row_state_def])

lemma done_keeps_dep_inv:
  assumes l: "links_ok db" and inv: "dep_inv db" and r: "r \<in> set db" "row_uuid r = u"
  shows "dep_inv (enqueue_waiting u (set_state_of u DONE db))"
proof -
  let ?db = "set_state_of u DONE db"
  have d: "distinct (map row_uuid db)" and irr: "u \<notin> set (row_depends_on r)"
    using l r by (auto simp: links_ok_def)
  have one: "x = r" if "x \<in> set db" "row_uuid x = u" for x
    using d that r by (metis distinct_map inj_onD)
  let ?rd = "set_row_state DONE r"
  have rd: "?rd \<in> set ?db" using r by (force simp: set_state_of_def)
  note upd = dependent_jobs_update_links [OF _ rd, of u PENDING DONE, simplified, OF l r(2), folded enqueue_waiting_def]
  let ?p = "\<lambda>x. row_state x = Some WAIT_DEPENDENCIES \<and> u \<in> set (row_depends_on x) \<and> all_parents DONE ?db x"
  let ?f = "\<lambda>x. if ?p x then set_row_state PENDING x else x"
  have pd: "parents_done ?db x \<longleftrightarrow>
      (\<forall>p\<in>set db. row_uuid p \<in> set (row_depends_on x) \<longrightarrow> row_uuid p = u \<or> row_state p = Some DONE)" for x
    by (auto simp: parents_done_alt set_state_of_def)
  have mono: "parents_done ?db x" if "parents_done db x" for x
    using that unfolding pd by (auto simp: parents_done_alt)
  have fin: "parents_done (map ?f ?db) x \<longleftrightarrow> parents_done ?db x" for x
    by (rule parents_done_map) auto
  have ap: "all_parents DONE ?db x \<longleftrightarrow> parents_done ?db x" for x
    by (simp add: all_parents_def parents_done_def)
  show ?thesis
    unfolding upd dep_inv_def
  proof
    fix x assume "x \<in> set (map ?f ?db)"
    then obtain y where y: "y \<in> set ?db" "x = ?f y" by auto
    then obtain z where z: "z \<in> set db" "y = (if row_uuid z = u then set_row_state DONE z else z)"
      by (auto simp: set_state_of_def)
    have dy: "row_depends_on y = row_depends_on z" "row_depends_on x = row_depends_on y" using y z by auto
    have pdx: "parents_done ?db x \<longleftrightarrow> parents_done ?db z" "parents_done ?db y \<longleftrightarrow> parents_done ?db z"
      by (simp_all add: parents_done_alt dy)
    show "(row_state x \<in> Some ` {PENDING, ENQUEUED, STARTED} \<longrightarrow> parents_done (map ?f ?db) x) \<and>
        (row_state x = Some WAIT_DEPENDENCIES \<longrightarrow> \<not> parents_done (map ?f ?db) x)"
    proof (cases "row_uuid z = u")
      case True
      then show ?thesis using y z by auto
    next
      case False
      then have yz: "y = z" using z by simp
      show ?thesis
      proof (cases "?p y")
        case True
        then show ?thesis unfolding fin using y(2) ap pdx by auto
      next
        case np: False
        then have "?f y = y" by (rule if_not_P)
        then have xz: "x = z" using y(2) yz by (simp only:)
        have active: "parents_done ?db z" if "row_state z \<in> Some ` {PENDING, ENQUEUED, STARTED}"
          using inv z(1) that mono by (auto simp: dep_inv_def)
        have "\<not> parents_done ?db z" if w: "row_state z = Some WAIT_DEPENDENCIES"
        proof
          assume p: "parents_done ?db z"
          with np w yz ap have nu: "u \<notin> set (row_depends_on z)" by auto
          have np: "\<not> parents_done db z" using inv z(1) w by (auto simp: dep_inv_def)
          show False using np [unfolded parents_done_alt] p [unfolded pd] nu by auto
        qed
        with active show ?thesis unfolding fin xz by blast
      qed
    qed
  qed
qed

text \<open>Cancelling touches only jobs that wait.\<close>

lemma cancel_keeps_dep_inv:
  assumes inv: "dep_inv db"
  shows "dep_inv (cancel_dependent_jobs u db)"
proof -
  let ?f = "\<lambda>child. if row_state child = Some WAIT_DEPENDENCIES \<and>
          (\<exists>job\<in>set db. row_uuid job = u \<and> same_graph child job \<and>
             row_uuid child \<in> set (row_reverse_depends_on job) \<and>
             parent_states db job child \<noteq> [] \<and> (\<forall>s\<in>set (parent_states db job child). s = Some CANCELLED))
       then set_row_state CANCELLED child else child"
  have eq: "cancel_dependent_jobs u db = map ?f db"
    by (simp only: cancel_dependent_jobs_def dependent_jobs_update_def set_row_state_def)
  have pd: "parents_done (map ?f db) x \<longleftrightarrow> parents_done db x" for x
    by (rule parents_done_map) (simp_all split: if_split)
  show ?thesis
    unfolding eq dep_inv_def pd
  proof
    fix x assume "x \<in> set (map ?f db)"
    then obtain y where y: "y \<in> set db" "x = ?f y" unfolding set_map by (rule imageE) (rule that)
    have "parents_done db x \<longleftrightarrow> parents_done db y" using y(2) by (simp add: parents_done_alt)
    then show "(row_state x \<in> Some ` {PENDING, ENQUEUED, STARTED} \<longrightarrow> parents_done db x) \<and>
        (row_state x = Some WAIT_DEPENDENCIES \<longrightarrow> \<not> parents_done db x)"
      using inv y by (auto simp: dep_inv_def)
  qed
qed

end
