(* ===== verification/JobTable.thy ===== *)
theory JobTable
  imports RunJob JobFacts JobGraph
begin

text \<open>
  What the operations on single jobs do to the table as a whole: its rows can be loaded, an operation that
  stores a loaded job changes the state of its row and keeps the links between the rows.
\<close>

section \<open>Well-formed tables\<close>

text \<open>The hook of the models adds no value that is set at the creation of a job.\<close>

definition model_ok :: "queue_env \<Rightarrow> bool" where
  "model_ok qe \<longleftrightarrow> (\<forall>j. fst ` set (qe_from_model qe j) \<inter> set created_keys = {})"

definition row_ok :: "queue_env \<Rightarrow> row \<Rightarrow> bool" where
  "row_ok qe r \<longleftrightarrow>
     (\<exists>rs m. fld ''records'' r = PRecords rs \<and> fld ''method_name'' r = PStr m \<and> qe_is_method qe (rs_model rs) m) \<and>
     (\<exists>xs. fld ''args'' r = PTuple xs) \<and> (\<exists>d. fld ''kwargs'' r = PDict d) \<and>
     (\<exists>st. row_state r = Some st) \<and> (\<exists>u. fld ''uuid'' r = PStr u) \<and> row_graph r \<noteq> Some []"

definition table_ok :: "queue_env \<Rightarrow> table \<Rightarrow> bool" where
  "table_ok qe db \<longleftrightarrow> links_ok db \<and> (\<forall>r\<in>set db. row_ok qe r)"

text \<open>The part of the table that the dependencies are about.\<close>

definition tab :: "table \<Rightarrow> ((string \<times> string option \<times> string list \<times> string list) \<times> JobState option) list" where
  "tab db = map (\<lambda>r. (row_links r, row_state r)) db"

lemma links_ok_tab: "tab db' = tab db \<Longrightarrow> links_ok db' \<longleftrightarrow> links_ok db"
  by (rule links_ok_cong) (metis (no_types, lifting) map_map comp_def fst_conv map_eq_conv tab_def)

lemma dep_inv_tab: "tab db' = tab db \<Longrightarrow> dep_inv db' \<longleftrightarrow> dep_inv db"
  unfolding tab_def by (rule dep_inv_cong)

section \<open>Loading\<close>

lemma find_SomeD: "find P xs = Some x \<Longrightarrow> x \<in> set xs \<and> P x"
  by (induction xs) (auto split: if_splits)

lemma load_row_ok:
  assumes "row_ok qe r"
  shows "\<exists>j. load_from_db_record (qe_job qe) (qe_is_method qe) r = Inr j \<and> j_uuid j = row_uuid r \<and>
    row_state r = Some (j_state j) \<and> j_depends_on_uuids j = row_depends_on r \<and>
    j_reverse_depends_on_uuids j = row_reverse_depends_on r \<and> j_graph_uuid j = row_graph r"
proof -
  obtain rs m xs d st u where r: "fld ''records'' r = PRecords rs" "fld ''method_name'' r = PStr m"
    "qe_is_method qe (rs_model rs) m" "fld ''args'' r = PTuple xs" "fld ''kwargs'' r = PDict d"
    "row_state r = Some st" "fld ''uuid'' r = PStr u" and g: "row_graph r \<noteq> Some []"
    using assms by (auto simp: row_ok_def)
  have "(if py_true (fld ''graph_uuid'' r) then val_str (fld ''graph_uuid'' r) else None) = row_graph r"
    using g by (cases "fld ''graph_uuid'' r") (auto simp: row_graph_def)
  then show ?thesis
    using load_ok [of r rs m xs d "qe_is_method qe" st "qe_job qe"] r by (auto simp: loaded_def row_uuid_def)
qed

lemma load_all_ok:
  "\<forall>r\<in>set rs. row_ok qe r \<Longrightarrow>
    \<exists>js. load_all (qe_job qe) (qe_is_method qe) rs = Inr js \<and>
      map (\<lambda>j. (j_uuid j, Some (j_state j))) js = map (\<lambda>r. (row_uuid r, row_state r)) rs"
proof (induction rs)
  case (Cons r rs)
  obtain j where j: "load_from_db_record (qe_job qe) (qe_is_method qe) r = Inr j" "j_uuid j = row_uuid r"
    "row_state r = Some (j_state j)" using load_row_ok [of qe r] Cons.prems by auto
  obtain js where "load_all (qe_job qe) (qe_is_method qe) rs = Inr js"
    "map (\<lambda>j. (j_uuid j, Some (j_state j))) js = map (\<lambda>r. (row_uuid r, row_state r)) rs"
    using Cons by auto
  with j show ?case by simp
qed simp

lemma load_job_ok:
  assumes ok: "table_ok qe db" and r: "r \<in> set db"
  shows "\<exists>j. load_job qe db (row_uuid r) = Inr j \<and> j_uuid j = row_uuid r \<and>
    row_state r = Some (j_state j) \<and> j_depends_on_uuids j = row_depends_on r \<and>
    j_reverse_depends_on_uuids j = row_reverse_depends_on r \<and> j_graph_uuid j = row_graph r"
proof -
  have d: "distinct (map row_uuid db)" using ok by (simp add: table_ok_def links_ok_def)
  then have f: "filter (\<lambda>s. row_uuid s = row_uuid r) db = [r]"
    using r
  proof (induction db)
    case (Cons s db)
    have "filter (\<lambda>x. row_uuid x = row_uuid s) db = []"
      using Cons.prems(1) by (simp add: filter_empty_conv) (metis image_eqI)
    moreover have "row_uuid s \<noteq> row_uuid r" if "s \<noteq> r"
      using Cons.prems that by (auto intro: rev_image_eqI)
    ultimately show ?case using Cons by (cases "s = r") auto
  qed simp
  then have "load_job qe db (row_uuid r) = load_from_db_record (qe_job qe) (qe_is_method qe) r"
    by (simp add: load_job_def load_def db_records_from_uuids_def)
  then show ?thesis using load_row_ok [of qe r] ok r by (simp add: table_ok_def)
qed

text \<open>The row of a uuid is the only one.\<close>

lemma row_unique: "links_ok db \<Longrightarrow> r \<in> set db \<Longrightarrow> s \<in> set db \<Longrightarrow> row_uuid s = row_uuid r \<Longrightarrow> s = r"
  unfolding links_ok_def distinct_map by (meson inj_onD)

lemma linked_jobs_ok:
  assumes ok: "table_ok qe db"
  shows "\<exists>lookup. linked_jobs qe db j = Inr lookup \<and> (\<forall>u p. lookup u = Some p \<longrightarrow> j_uuid p = u) \<and>
    (\<forall>r\<in>set db. row_uuid r \<in> set (j_depends_on_uuids j) \<union> set (j_reverse_depends_on_uuids j) \<longrightarrow>
      (\<exists>p. lookup (row_uuid r) = Some p \<and> row_state r = Some (j_state p)))"
proof -
  have l: "links_ok db" using ok by (simp add: table_ok_def)
  have "\<forall>r\<in>set (db_records_from_uuids db us). row_ok qe r" for us
    using ok by (auto simp: table_ok_def db_records_from_uuids_def)
  note L = load_all_ok [OF this, folded load_many_def]
  define js where "js us = projr (load_many (qe_job qe) (qe_is_method qe) db us)" for us
  have js: "load_many (qe_job qe) (qe_is_method qe) db us = Inr (js us)"
    "map (\<lambda>j. (j_uuid j, Some (j_state j))) (js us) =
       map (\<lambda>r. (row_uuid r, row_state r)) (db_records_from_uuids db us)" for us
    using L [of us] by (auto simp: js_def)
  let ?all = "js (j_depends_on_uuids j) @ js (j_reverse_depends_on_uuids j)"
  let ?lookup = "\<lambda>u. find (\<lambda>p. j_uuid p = u) ?all"
  have mem: "(u, s) \<in> (\<lambda>j. (j_uuid j, Some (j_state j))) ` set (js us) \<longleftrightarrow>
      (\<exists>r\<in>set db. row_uuid r \<in> set us \<and> u = row_uuid r \<and> s = row_state r)" for u s us
    using arg_cong [OF js(2) [of us], of set] by (auto simp: db_records_from_uuids_def)
  have A: "\<exists>p. ?lookup (row_uuid r) = Some p \<and> row_state r = Some (j_state p)"
    if r: "r \<in> set db" "row_uuid r \<in> set (j_depends_on_uuids j) \<union> set (j_reverse_depends_on_uuids j)" for r
  proof -
    have "(row_uuid r, row_state r) \<in> (\<lambda>j. (j_uuid j, Some (j_state j))) ` set ?all"
      using r mem by (simp add: image_Un) blast
    then obtain q where "(row_uuid r, row_state r) = (j_uuid q, Some (j_state q))" "q \<in> set ?all" by (rule imageE)
    then obtain p where p: "?lookup (row_uuid r) = Some p"
      by (cases "?lookup (row_uuid r)") (auto simp: find_None_iff)
    note pa = conjunct1 [OF find_SomeD [OF p]] and u = conjunct2 [OF find_SomeD [OF p]]
    have "(j_uuid p, Some (j_state p)) \<in> (\<lambda>j. (j_uuid j, Some (j_state j))) ` set ?all" using pa by (rule imageI)
    then obtain s where s: "s \<in> set db" "j_uuid p = row_uuid s" "Some (j_state p) = row_state s"
      using mem by (simp add: image_Un) blast
    have "s = r" by (rule row_unique [OF l r(1) s(1)]) (simp only: s(2) [symmetric] u)
    then have "row_state r = Some (j_state p)" by (simp only: s(3))
    with p show ?thesis by (intro exI conjI)
  qed
  have B: "j_uuid p = u" if "?lookup u = Some p" for u p
    by (rule conjunct2 [OF find_SomeD [OF that]])
  have C: "linked_jobs qe db j = Inr ?lookup"
    unfolding linked_jobs_def js(1) rbind.simps by (rule refl)
  show ?thesis by (intro exI [of _ ?lookup] conjI allI impI ballI C A B)
qed

section \<open>Storing\<close>

lemma stored_row:
  assumes m: "model_ok qe" and ok: "row_ok qe r"
    and look: "\<And>u p. lookup u = Some p \<Longrightarrow> j_uuid p = u"
    and g: "j_graph_uuid j = row_graph r"
  defines "r' \<equiv> dict_update r (store_values (senv qe lookup) False j)"
  shows "row_ok qe r' \<and> row_uuid r' = row_uuid r \<and> row_graph r' = row_graph r \<and> row_state r' = Some (j_state j) \<and>
    row_depends_on r' = filter (\<lambda>u. lookup u \<noteq> None) (j_depends_on_uuids j) \<and>
    row_reverse_depends_on r' = filter (\<lambda>u. lookup u \<noteq> None) (j_reverse_depends_on_uuids j)"
proof -
  have "k \<notin> fst ` set (se_from_model (senv qe lookup) j)" if "k \<in> set created_keys" for k
    using m that by (auto simp: model_ok_def senv_def)
  then have kept: "fld k r' = fld k r" if "k \<in> set created_keys" for k
    using that by (simp add: r'_def fld_update store_values_other)
  have new: "fld k r' = fld k (core_values (senv qe lookup) False j)" if k: "k \<in> set job_keys" for k
  proof -
    have c: "map_of (store_values (senv qe lookup) False j) k = map_of (core_values (senv qe lookup) False j) k"
      using k by (intro store_values_core) simp
    have "k \<in> fst ` set (core_values (senv qe lookup) False j)" using k by (simp add: core_values_set)
    then obtain v where "map_of (core_values (senv qe lookup) False j) k = Some v"
      by (auto simp: image_iff dest: weak_map_of_SomeI)
    then show ?thesis by (simp add: r'_def fld_update c) (simp add: fld_def)
  qed
  note keys = kept [unfolded created_keys_def, simplified] new [unfolded job_keys_def, simplified]
  have "fld ''dependencies'' r' = fld ''dependencies'' (core_values (senv qe lookup) False j)"
    by (rule new) (simp add: job_keys_def)
  note deps = row_deps_core [of "senv qe lookup", unfolded senv_def queue_env.simps store_env.simps, OF look
      this [unfolded senv_def]]
  have st: "row_state r' = Some (j_state j)" by (simp add: row_state_def keys fld_job_values)
  have gr: "row_graph r' = row_graph r"
    by (simp add: row_graph_def keys fld_job_values g split: option.split) (simp add: g row_graph_def)?
  show ?thesis
    using ok deps st gr by (simp add: row_ok_def keys row_uuid_def)
qed

text \<open>A loaded job that is stored again with another state.\<close>

definition of_row :: "Job \<Rightarrow> row \<Rightarrow> bool" where
  "of_row j r \<longleftrightarrow> j_uuid j = row_uuid r \<and> j_graph_uuid j = row_graph r \<and>
     j_depends_on_uuids j = row_depends_on r \<and> j_reverse_depends_on_uuids j = row_reverse_depends_on r"

lemma store_job_ok:
  assumes m: "model_ok qe" and ok: "table_ok qe db" and r: "r \<in> set db" and j: "of_row j r"
  shows "\<exists>db'. store_job qe j db = Inr db' \<and> table_ok qe db' \<and>
    tab db' = tab (set_state_of (row_uuid r) (j_state j) db)"
proof -
  have l: "links_ok db" and rows: "\<And>x. x \<in> set db \<Longrightarrow> row_ok qe x" using ok by (auto simp: table_ok_def)
  obtain lookup where lk: "linked_jobs qe db j = Inr lookup" "\<And>u p. lookup u = Some p \<Longrightarrow> j_uuid p = u"
    and ex: "\<And>x. x \<in> set db \<Longrightarrow> row_uuid x \<in> set (row_depends_on r) \<union> set (row_reverse_depends_on r) \<Longrightarrow>
      \<exists>p. lookup (row_uuid x) = Some p"
    using linked_jobs_ok [OF ok, of j] j unfolding of_row_def by metis
  have look: "lookup u \<noteq> None" if "u \<in> set (row_depends_on r) \<union> set (row_reverse_depends_on r)" for u
    using that parent_exists [OF l r, of u] child_exists [OF l r, of u] ex by blast
  have keep: "filter (\<lambda>u. lookup u \<noteq> None) us = us"
    if "set us \<subseteq> set (row_depends_on r) \<union> set (row_reverse_depends_on r)" for us
    using that look by (auto simp: filter_id_conv)
  let ?new = "\<lambda>x. dict_update x (store_values (senv qe lookup) False j)"
  have st: "row_ok qe (?new r)" "row_links (?new r) = row_links r" "row_state (?new r) = Some (j_state j)"
    using stored_row [OF m rows [OF r] lk(2), where j = j] j keep by (auto simp: of_row_def row_links_def)
  let ?f = "\<lambda>x. if row_uuid x = row_uuid r then ?new x else x"
  have db': "store_job qe j db = Inr (map ?f db)"
    using r j by (auto simp: store_job_def lk(1) store_def of_row_def)
  have f: "row_ok qe (?f x) \<and> (row_links (?f x), row_state (?f x)) =
      (row_links x, if row_uuid x = row_uuid r then Some (j_state j) else row_state x)" if "x \<in> set db" for x
    using that st rows row_unique [OF l r that] by (cases "row_uuid x = row_uuid r") auto
  have t: "tab (map ?f db) = tab (set_state_of (row_uuid r) (j_state j) db)"
    using f by (simp add: tab_def set_state_of_def)
  moreover have "links_ok (map ?f db)" using l links_ok_tab [OF t] by simp
  moreover have "\<forall>x\<in>set (map ?f db). row_ok qe x" 
  proof
    fix y assume "y \<in> set (map ?f db)"
    then obtain x where "y = ?f x" "x \<in> set db" unfolding set_map by (rule imageE)
    then show "row_ok qe y" using f by blast
  qed
  ultimately show ?thesis using db' by (simp add: table_ok_def)
qed

section \<open>The jobs that wait, on the part of the table that matters\<close>

fun wake :: "JobState \<Rightarrow> string \<Rightarrow> JobState \<Rightarrow>
    ((string \<times> string option \<times> string list \<times> string list) \<times> JobState option) set \<Rightarrow>
    (string \<times> string option \<times> string list \<times> string list) \<times> JobState option \<Rightarrow>
    (string \<times> string option \<times> string list \<times> string list) \<times> JobState option" where
  "wake new u st all ((v, g, deps, revs), s) =
     ((v, g, deps, revs),
      if s = Some WAIT_DEPENDENCIES \<and> u \<in> set deps \<and> (\<forall>((w, _), t)\<in>all. w \<in> set deps \<longrightarrow> t = Some st)
      then Some new else s)"

lemma tab_dependent:
  assumes l: "links_ok db" and r: "r \<in> set db" "row_uuid r = u"
  shows "tab (dependent_jobs_update new u st db) = map (wake new u st (set (tab db))) (tab db)"
proof -
  have "(\<forall>((w, _), t)\<in>set (tab db). w \<in> set (row_depends_on x) \<longrightarrow> t = Some st) \<longleftrightarrow> all_parents st db x" for x
    by (auto simp: tab_def row_links_def all_parents_def parents_def)
  then show ?thesis
    unfolding dependent_jobs_update_links [OF l r]
    by (auto simp: tab_def row_links_def)
qed

lemma tab_dependent_cong:
  assumes t: "tab db1 = tab db2" and l: "links_ok db2" and r: "r \<in> set db2" "row_uuid r = u"
  shows "tab (dependent_jobs_update new u st db1) = tab (dependent_jobs_update new u st db2)"
proof -
  have l1: "links_ok db1" using l links_ok_tab [OF t] by simp
  have "u \<in> row_uuid ` set db2" using r by blast
  moreover have "row_uuid ` set db = (fst \<circ> fst) ` set (tab db)" for db
    by (auto simp: tab_def row_links_def image_image)
  ultimately have "u \<in> row_uuid ` set db1" using t by metis
  then obtain r1 where "r1 \<in> set db1" "row_uuid r1 = u" by auto
  from tab_dependent [OF l1 this] tab_dependent [OF l r] show ?thesis by (simp only: t)
qed

lemma row_ok_set_state: "row_ok qe r \<Longrightarrow> row_ok qe (dict_set ''state'' (PStr (state_name st)) r)"
  using row_set_state [of st r] by (auto simp: row_ok_def fld_dict_set set_row_state_def)

lemma table_ok_dependent [simp]: "table_ok qe db \<Longrightarrow> table_ok qe (dependent_jobs_update new u st db)"
  by (auto simp: table_ok_def) (auto simp: dependent_jobs_update_def intro: row_ok_set_state)

end
