(* ===== verification/JobChannel.thy ===== *)
theory JobChannel
  imports PyValue
begin

text \<open>
  The model \<open>queue.job.channel\<close> of \<open>queue_job/models/queue_job_channel.py\<close>: the complete names, the check
  on the parent, and the guards that keep the root channel.
\<close>

section \<open>Channels\<close>

record queue_channel =
  qc_id :: int
  qc_name :: string
  qc_parent :: "int option"
  qc_complete_name :: string
  qc_removal_interval :: int
  qc_noupdate :: bool

definition removal_interval_default :: int where "removal_interval_default = 30"

definition channel_of :: "queue_channel list \<Rightarrow> int \<Rightarrow> queue_channel option" where
  "channel_of cs i = find (\<lambda>c. qc_id c = i) cs"

text \<open>The complete name from that of the parent, as it is stored.\<close>

definition compute_complete_name :: "queue_channel list \<Rightarrow> queue_channel \<Rightarrow> string" where
  "compute_complete_name cs c =
     (if qc_name c = [] then []
      else case (case qc_parent c of None \<Rightarrow> None | Some p \<Rightarrow> channel_of cs p) of
             Some p \<Rightarrow> py_join ''.'' [qc_complete_name p, qc_name c]
           | None \<Rightarrow> qc_name c)"

definition parent_required :: "queue_channel list \<Rightarrow> unit result" where
  "parent_required records =
     (if list_ex (\<lambda>c. qc_name c \<noteq> ''root'' \<and> qc_parent c = None) records then Inl ValidationError else Inr ())"

text \<open>The values of a write: the fields it names.\<close>

record channel_vals =
  cv_name :: "string option"
  cv_parent :: "int option option"
  cv_removal_interval :: "int option"

definition apply_vals :: "channel_vals \<Rightarrow> queue_channel \<Rightarrow> queue_channel" where
  "apply_vals v c =
     c\<lparr>qc_name := (case cv_name v of None \<Rightarrow> qc_name c | Some n \<Rightarrow> n),
       qc_parent := (case cv_parent v of None \<Rightarrow> qc_parent c | Some p \<Rightarrow> p),
       qc_removal_interval := (case cv_removal_interval v of None \<Rightarrow> qc_removal_interval c | Some n \<Rightarrow> n)\<rparr>"

text \<open>The names of the channels below a renamed one follow it; a chain of parents is no longer than the
  list of channels.\<close>

definition recompute :: "queue_channel list \<Rightarrow> queue_channel list" where
  "recompute cs = map (\<lambda>c. c\<lparr>qc_complete_name := compute_complete_name cs c\<rparr>) cs"

definition recompute_all :: "queue_channel list \<Rightarrow> queue_channel list" where
  "recompute_all cs = (recompute ^^ length cs) cs"

definition channel_write ::
  "bool \<Rightarrow> channel_vals \<Rightarrow> int list \<Rightarrow> queue_channel list \<Rightarrow> queue_channel list result" where
  "channel_write install_mode vals ids cs =
     (if list_ex (\<lambda>c. qc_id c \<in> set ids \<and> \<not> install_mode \<and> qc_name c = ''root'' \<and>
            (cv_name vals \<noteq> None \<or> cv_parent vals \<noteq> None)) cs
      then Inl UserError
      else (let cs1 = map (\<lambda>c. if qc_id c \<in> set ids then apply_vals vals c else c) cs in
            rbind (if cv_name vals = None \<and> cv_parent vals = None then Inr ()
                   else parent_required (filter (\<lambda>c. qc_id c \<in> set ids) cs1)) (\<lambda>_.
            Inr (recompute_all cs1))))"

text \<open>Removing a channel that is the parent of another is refused by the database.\<close>

definition channel_unlink :: "int list \<Rightarrow> queue_channel list \<Rightarrow> queue_channel list result" where
  "channel_unlink ids cs =
     (if list_ex (\<lambda>c. qc_id c \<in> set ids \<and> qc_name c = ''root'') cs then Inl UserError
      else if list_ex (\<lambda>c. qc_id c \<notin> set ids \<and> (case qc_parent c of None \<Rightarrow> False | Some p \<Rightarrow> p \<in> set ids)) cs
      then Inl ValidationError
      else Inr (filter (\<lambda>c. qc_id c \<notin> set ids) cs))"

definition vals_of :: "queue_channel \<Rightarrow> channel_vals" where
  "vals_of c = \<lparr>cv_name = Some (qc_name c), cv_parent = Some (qc_parent c),
     cv_removal_interval = Some (qc_removal_interval c)\<rparr>"

text \<open>While a module is installed, a channel of the same name and parent is written instead, unless it is
  marked not to be updated. A name and a parent that are missing or zero are not looked up.\<close>

fun rebind_channels :: "queue_channel list \<Rightarrow> queue_channel list \<Rightarrow> int list \<Rightarrow> queue_channel list \<Rightarrow>
    (queue_channel list \<times> int list \<times> queue_channel list) result" where
  "rebind_channels [] cs records new_vals = Inr (cs, records, new_vals)"
| "rebind_channels (vals # rest) cs records new_vals =
     (case (if qc_name vals = [] \<or> qc_parent vals = None \<or> qc_parent vals = Some 0 then None
            else find (\<lambda>c. qc_name c = qc_name vals \<and> qc_parent c = qc_parent vals) cs) of
        None \<Rightarrow> rebind_channels rest cs records (new_vals @ [vals])
      | Some existing \<Rightarrow>
          rbind (if qc_noupdate existing then Inr cs
                 else channel_write True (vals_of vals) [qc_id existing] cs) (\<lambda>cs1.
          rebind_channels rest cs1 (records @ [qc_id existing]) new_vals))"

definition channel_create ::
  "bool \<Rightarrow> queue_channel list \<Rightarrow> queue_channel list \<Rightarrow> (int list \<times> queue_channel list) result" where
  "channel_create install_mode vals_list cs =
     rbind (if install_mode then rebind_channels vals_list cs [] [] else Inr (cs, [], vals_list))
       (\<lambda>(cs1, records, new_vals).
     rbind (parent_required new_vals) (\<lambda>_.
     Inr (records @ map qc_id new_vals, recompute_all (cs1 @ new_vals))))"

section \<open>The root channel stays\<close>

definition has_root :: "queue_channel list \<Rightarrow> bool" where
  "has_root cs \<longleftrightarrow> (\<exists>c\<in>set cs. qc_name c = ''root'' \<and> qc_parent c = None \<and> qc_complete_name c = ''root'')"

lemma recompute_root: "has_root cs \<Longrightarrow> has_root (recompute cs)"
  unfolding has_root_def recompute_def set_map by (force simp: compute_complete_name_def)

lemma recompute_all_root: "has_root cs \<Longrightarrow> has_root (recompute_all cs)"
proof -
  have "has_root cs \<Longrightarrow> has_root ((recompute ^^ n) cs)" for n
    by (induction n) (auto intro: recompute_root)
  then show "has_root cs \<Longrightarrow> has_root (recompute_all cs)" by (simp add: recompute_all_def)
qed

lemma channel_write_root:
  assumes "has_root cs" and "channel_write False vals ids cs = Inr cs'"
  shows "has_root cs'"
proof -
  let ?cs1 = "map (\<lambda>c. if qc_id c \<in> set ids then apply_vals vals c else c) cs"
  obtain c where c: "c \<in> set cs" "qc_name c = ''root''" "qc_parent c = None" "qc_complete_name c = ''root''"
    using assms(1) by (auto simp: has_root_def)
  have ok: "\<not> (qc_id c \<in> set ids \<and> (cv_name vals \<noteq> None \<or> cv_parent vals \<noteq> None))"
    and cs': "cs' = recompute_all ?cs1"
    using assms(2) c(1,2) by (auto simp: channel_write_def list_ex_iff Let_def rbind_eq_Inr split: if_splits)
  let ?c = "if qc_id c \<in> set ids then apply_vals vals c else c"
  have "qc_name ?c = ''root'' \<and> qc_parent ?c = None \<and> qc_complete_name ?c = ''root''"
    using ok c(2-4) by (auto simp: apply_vals_def)
  moreover have "?c \<in> set ?cs1" unfolding set_map using c(1) by (rule imageI)
  ultimately have "has_root ?cs1" unfolding has_root_def by blast
  then show ?thesis unfolding cs' by (rule recompute_all_root)
qed

lemma channel_unlink_root:
  "has_root cs \<Longrightarrow> channel_unlink ids cs = Inr cs' \<Longrightarrow> has_root cs'"
  by (force simp: has_root_def channel_unlink_def list_ex_iff split: if_splits)

lemma channel_create_root:
  assumes "has_root cs" and "channel_create False vals_list cs = Inr (ids, cs')"
  shows "has_root cs'"
proof -
  have "cs' = recompute_all (cs @ vals_list)"
    using assms(2) by (auto simp: channel_create_def rbind_eq_Inr)
  moreover have "has_root (cs @ vals_list)" using assms(1) by (auto simp: has_root_def)
  ultimately show ?thesis by (simp add: recompute_all_root)
qed

section \<open>Changes of the channels\<close>

datatype channel_event =
    WriteChannels channel_vals "int list"
  | UnlinkChannels "int list"
  | CreateChannels "queue_channel list"

fun channel_step :: "queue_channel list \<Rightarrow> channel_event \<Rightarrow> queue_channel list \<Rightarrow> bool" where
  "channel_step cs (WriteChannels vals ids) cs' \<longleftrightarrow> channel_write False vals ids cs = Inr cs'"
| "channel_step cs (UnlinkChannels ids) cs' \<longleftrightarrow> channel_unlink ids cs = Inr cs'"
| "channel_step cs (CreateChannels vals_list) cs' \<longleftrightarrow> (\<exists>ids. channel_create False vals_list cs = Inr (ids, cs'))"

text \<open>At first there is the root channel alone, as the data of the add-on has it.\<close>

definition channel_start :: "queue_channel list \<Rightarrow> bool" where
  "channel_start cs \<longleftrightarrow> (\<exists>i days noupdate. cs =
     [\<lparr>qc_id = i, qc_name = ''root'', qc_parent = None, qc_complete_name = ''root'',
       qc_removal_interval = days, qc_noupdate = noupdate\<rparr>])"

lemma channel_step_root: "has_root cs \<Longrightarrow> channel_step cs ev cs' \<Longrightarrow> has_root cs'"
  by (cases ev) (auto intro: channel_write_root channel_unlink_root channel_create_root)

interpretation channel_table: invariant_system channel_start channel_step has_root
  by (unfold_locales, force simp: channel_start_def has_root_def, rule channel_step_root)

definition channels_reachable :: "queue_channel list \<Rightarrow> bool" where
  "channels_reachable cs \<longleftrightarrow> reachable channel_start channel_step cs"

lemma channels_reachable_root: "channels_reachable cs \<Longrightarrow> has_root cs"
  unfolding channels_reachable_def by (rule channel_table.inv_reachable)

end
