(* ===== verification/QueueJobViews.thy ===== *)
theory QueueJobViews
  imports QueueJob JobChannel
begin

text \<open>
  The rest of \<open>queue_job/models/queue_job.py\<close>: the dependency graph of a job as its widget shows it, the
  number of jobs of a graph, the removal of old jobs, and the actions that open the records of a job or
  the jobs of its graph.
\<close>

section \<open>The dependency graph\<close>

definition row_id :: "row \<Rightarrow> int" where
  "row_id r = (case fld ''id'' r of PInt n \<Rightarrow> n | _ \<Rightarrow> 0)"

definition row_text :: "string \<Rightarrow> row \<Rightarrow> string" where
  "row_text k r = (case fld k r of PStr s \<Rightarrow> s | _ \<Rightarrow> ''False'')"

record vis_node =
  vn_id :: int
  vn_title :: string
  vn_color :: string
  vn_border :: string
  vn_shadow :: bool

text \<open>The colours of a state: the background and the border.\<close>

definition state_colors :: "JobState option \<Rightarrow> string \<times> string" where
  "state_colors st =
     (case st of
        Some DONE \<Rightarrow> (''#C2FABC'', ''#4AD63A'')
      | Some FAILED \<Rightarrow> (''#FB7E81'', ''#FA0A10'')
      | Some STARTED \<Rightarrow> (''#FFFF00'', ''#FFA500'')
      | _ \<Rightarrow> (''#D2E5FF'', ''#2B7CE9''))"

definition dependency_graph_vis_node :: "(string \<Rightarrow> string) \<Rightarrow> row \<Rightarrow> vis_node" where
  "dependency_graph_vis_node html_escape r =
     \<lparr>vn_id = row_id r,
      vn_title = ''<strong>'' @ html_escape (row_text ''name'' r) @ ''</strong><br/>'' @
        html_escape (row_text ''func_string'' r),
      vn_color = fst (state_colors (row_state r)), vn_border = snd (state_colors (row_state r)),
      vn_shadow = True\<rparr>"

text \<open>The identifiers by uuid, as the dictionary comprehension builds them.\<close>

fun ids_by_uuid :: "row list \<Rightarrow> (string \<times> int) list \<Rightarrow> (string \<times> int) list" where
  "ids_by_uuid [] d = d"
| "ids_by_uuid (r # rs) d = ids_by_uuid rs (dict_set (row_uuid r) (row_id r) d)"

text \<open>The edges to the parents and to the children whose record is in the graph. An identifier of zero
  counts as none.\<close>

definition graph_id :: "(string \<times> int) list \<Rightarrow> string \<Rightarrow> int option" where
  "graph_id graph_ids u = (case map_of graph_ids u of Some n \<Rightarrow> if n = 0 then None else Some n | None \<Rightarrow> None)"

definition add_job_to_graph :: "(string \<times> int) list \<Rightarrow> int graph \<Rightarrow> row \<Rightarrow> int graph" where
  "add_job_to_graph graph_ids g r =
     (let g1 = add_vertex (row_id r) g;
          g2 = foldl (\<lambda>g u. case graph_id graph_ids u of None \<Rightarrow> g | Some p \<Rightarrow> add_edge p (row_id r) g)
                 g1 (row_depends_on r)
      in foldl (\<lambda>g u. case graph_id graph_ids u of None \<Rightarrow> g | Some c \<Rightarrow> add_edge (row_id r) c g)
           g2 (row_reverse_depends_on r))"

definition graph_jobs :: "table \<Rightarrow> row \<Rightarrow> row list" where
  "graph_jobs db r = filter (\<lambda>s. row_graph s = row_graph r) db"

definition graph_of_jobs :: "row list \<Rightarrow> int graph" where
  "graph_of_jobs jobs = foldl (add_job_to_graph (ids_by_uuid jobs [])) (graph_init None) jobs"

definition row_of_id :: "row list \<Rightarrow> int \<Rightarrow> row result" where
  "row_of_id jobs i = (case find (\<lambda>r. row_id r = i) jobs of None \<Rightarrow> Inl KeyError | Some r \<Rightarrow> Inr r)"

fun vis_nodes :: "(string \<Rightarrow> string) \<Rightarrow> row list \<Rightarrow> int list \<Rightarrow> vis_node list result" where
  "vis_nodes html_escape jobs [] = Inr []"
| "vis_nodes html_escape jobs (i # ids) =
     rbind (row_of_id jobs i) (\<lambda>r.
     rbind (vis_nodes html_escape jobs ids) (\<lambda>ns. Inr (dependency_graph_vis_node html_escape r # ns)))"

text \<open>A job without a graph has none to show.\<close>

definition compute_dependency_graph ::
  "(string \<Rightarrow> string) \<Rightarrow> table \<Rightarrow> row \<Rightarrow> (vis_node list \<times> (int \<times> int) list) option result" where
  "compute_dependency_graph html_escape db r =
     (if row_graph r = None \<or> row_graph r = Some [] then Inr None
      else if graph_jobs db r = [] then Inr None
      else (let g = graph_of_jobs (graph_jobs db r) in
            rbind (vis_nodes html_escape (graph_jobs db r) (vertices g)) (\<lambda>ns. Inr (Some (ns, edges g)))))"

definition compute_graph_jobs_count :: "table \<Rightarrow> row \<Rightarrow> nat" where
  "compute_graph_jobs_count db r =
     (if row_graph r = None \<or> row_graph r = Some [] then 0 else length (graph_jobs db r))"

section \<open>Removal of old jobs\<close>

text \<open>A comparison with a missing date does not hold.\<close>

definition old_job :: "int \<Rightarrow> string \<Rightarrow> row \<Rightarrow> bool" where
  "old_job deadline channel r \<longleftrightarrow>
     ((case val_date (fld ''date_done'' r) of Some t \<Rightarrow> t \<le> deadline | None \<Rightarrow> False) \<or>
      (case val_date (fld ''date_cancelled'' r) of Some t \<Rightarrow> t \<le> deadline | None \<Rightarrow> False)) \<and>
     fld ''channel'' r = PStr channel"

text \<open>Ascending order of the database: missing dates come last.\<close>

definition nulls_last :: "int option \<Rightarrow> bool \<times> int" where
  "nulls_last d = (case d of None \<Rightarrow> (True, 0) | Some t \<Rightarrow> (False, t))"

definition search_old :: "nat \<Rightarrow> int \<Rightarrow> string \<Rightarrow> table \<Rightarrow> row list" where
  "search_old limit deadline channel db =
     take limit (sort_key (\<lambda>r. (nulls_last (val_date (fld ''date_done'' r)), nulls_last (val_date (fld ''date_created'' r))))
       (filter (old_job deadline channel) db))"

definition unlink_rows :: "row list \<Rightarrow> table \<Rightarrow> table" where
  "unlink_rows jobs db = filter (\<lambda>r. row_id r \<notin> row_id ` set jobs) db"

lemma search_old_set: "r \<in> set (search_old limit deadline channel db) \<Longrightarrow> r \<in> set db \<and> old_job deadline channel r"
  by (auto simp: search_old_def dest: in_set_takeD)

lemma unlink_fewer:
  assumes "jobs \<noteq> []" and "set jobs \<subseteq> set db"
  shows "length (unlink_rows jobs db) < length db"
proof -
  obtain r where "r \<in> set jobs" using assms(1) by (cases jobs) auto
  then have "r \<in> set db" "\<not> (row_id r \<notin> row_id ` set jobs)" using assms(2) by auto
  then show ?thesis unfolding unlink_rows_def by (rule length_filter_less)
qed

function vacuum_channel :: "int \<Rightarrow> string \<Rightarrow> table \<Rightarrow> table" where
  "vacuum_channel deadline channel db =
     (let jobs = search_old 1000 deadline channel db in
      if jobs = [] then db else vacuum_channel deadline channel (unlink_rows jobs db))"
  by pat_completeness auto
termination
  by (relation "measure (\<lambda>(_, _, db). length db)") (auto intro!: unlink_fewer dest: search_old_set)

declare vacuum_channel.simps [simp del]

text \<open>The length of a day in the unit of the dates is an argument.\<close>

definition autovacuum :: "int \<Rightarrow> int \<Rightarrow> queue_channel list \<Rightarrow> table \<Rightarrow> table" where
  "autovacuum day now channels db =
     foldl (\<lambda>db c. vacuum_channel (now - qc_removal_interval c * day) (qc_complete_name c) db) db channels"

section \<open>Actions\<close>

definition id_domain :: "int list \<Rightarrow> pyval" where
  "id_domain ids = PList [PTuple [PStr ''id'', PStr ''in'', PList (map PInt ids)]]"

definition open_graph_jobs :: "fields \<Rightarrow> table \<Rightarrow> row \<Rightarrow> fields" where
  "open_graph_jobs action db r =
     dict_update action
       [(''name'', PStr (''Jobs for graph '' @ row_text ''graph_uuid'' r)), (''context'', PDict []),
        (''domain'', id_domain (map row_id (graph_jobs db r)))]"

text \<open>The records of the job that still exist decide between no action, a form and a list.\<close>

definition related_action_open_record :: "(recordset \<Rightarrow> recordset) \<Rightarrow> row \<Rightarrow> fields option result" where
  "related_action_open_record exists_fn r =
     (case fld ''records'' r of
        PRecords rs \<Rightarrow>
          (let records = exists_fn rs;
               action =
                 [(''name'', PStr ''Related Record''), (''type'', PStr ''ir.actions.act_window''),
                  (''view_mode'', PStr ''form''), (''res_model'', PStr (rs_model records))]
           in Inr (case rs_ids records of
                [] \<Rightarrow> None
              | [i] \<Rightarrow> Some (dict_set ''res_id'' (PInt i) action)
              | ids \<Rightarrow> Some (dict_update action
                  [(''name'', PStr ''Related Records''), (''view_mode'', PStr ''tree,form''),
                   (''domain'', id_domain ids)])))
      | _ \<Rightarrow> Inl AttributeError)"

text \<open>The method of the record that the configuration of the job names is an argument.\<close>

definition open_related_action ::
  "queue_env \<Rightarrow> (string \<Rightarrow> pyval \<Rightarrow> row \<Rightarrow> fields option result) \<Rightarrow> table \<Rightarrow> row \<Rightarrow> fields result" where
  "open_related_action qe call db r =
     rbind (load_job qe db (row_uuid r)) (\<lambda>j.
     rbind (related_action ''related_action_open_record'' j) (\<lambda>found.
     case found of
       None \<Rightarrow> Inl UserError
     | Some (funcname, kwargs) \<Rightarrow>
         rbind (call funcname kwargs r) (\<lambda>action.
         case action of None \<Rightarrow> Inl UserError | Some a \<Rightarrow> Inr a)))"

section \<open>What the removal removes\<close>

lemma sort_key_Nil: "sort_key f xs = [] \<longleftrightarrow> xs = []"
  using length_sort [of f xs] by (cases xs) auto

lemma search_old_nil: "0 < limit \<Longrightarrow> search_old limit deadline channel db = [] \<longleftrightarrow> filter (old_job deadline channel) db = []"
  by (simp add: search_old_def sort_key_Nil)

lemma unlink_rows_filter:
  assumes d: "distinct (map row_id db)" and s: "set jobs \<subseteq> set (filter (old_job deadline channel) db)"
  shows "filter (\<lambda>r. \<not> old_job deadline channel r) (unlink_rows jobs db) = filter (\<lambda>r. \<not> old_job deadline channel r) db"
proof -
  have "row_id r \<notin> row_id ` set jobs" if "r \<in> set db" "\<not> old_job deadline channel r" for r
  proof
    assume "row_id r \<in> row_id ` set jobs"
    then obtain j where j: "j \<in> set jobs" "row_id j = row_id r" by auto
    then have "j \<in> set db" using s by auto
    then have "j = r" using inj_onD [OF distinct_map [THEN iffD1, OF d, THEN conjunct2]] j(2) that(1) by blast
    then show False using s j(1) that(2) by auto
  qed
  then show ?thesis unfolding unlink_rows_def filter_filter by (intro filter_cong) auto
qed

lemma distinct_unlink_rows: "distinct (map row_id db) \<Longrightarrow> distinct (map row_id (unlink_rows jobs db))"
  by (simp add: unlink_rows_def distinct_map_filter)

lemma vacuum_channel_filter:
  "distinct (map row_id db) \<Longrightarrow>
    vacuum_channel deadline channel db = filter (\<lambda>r. \<not> old_job deadline channel r) db"
proof (induction deadline channel db rule: vacuum_channel.induct)
  case (1 deadline channel db)
  let ?jobs = "search_old 1000 deadline channel db"
  show ?case
  proof (cases "?jobs = []")
    case True
    then have "filter (old_job deadline channel) db = []" by (simp add: search_old_nil)
    then have "filter (\<lambda>r. \<not> old_job deadline channel r) db = db" by (simp add: filter_empty_conv)
    then show ?thesis using True by (simp add: vacuum_channel.simps [of deadline channel db])
  next
    case False
    have "set ?jobs \<subseteq> set (filter (old_job deadline channel) db)" using search_old_set by auto
    from unlink_rows_filter [OF "1.prems" this] "1.IH" [OF refl False distinct_unlink_rows [OF "1.prems"]]
    show ?thesis using False by (simp add: vacuum_channel.simps [of deadline channel db])
  qed
qed

lemma autovacuum_filter:
  "distinct (map row_id db) \<Longrightarrow>
    autovacuum day now channels db =
      filter (\<lambda>r. \<not> (\<exists>c\<in>set channels. old_job (now - qc_removal_interval c * day) (qc_complete_name c) r)) db"
proof (induction channels arbitrary: db)
  case (Cons c channels)
  let ?db = "vacuum_channel (now - qc_removal_interval c * day) (qc_complete_name c) db"
  have v: "?db = filter (\<lambda>r. \<not> old_job (now - qc_removal_interval c * day) (qc_complete_name c) r) db"
    using Cons.prems by (rule vacuum_channel_filter)
  have "distinct (map row_id ?db)" using Cons.prems by (simp add: v distinct_map_filter)
  from Cons.IH [OF this] show ?case by (simp add: autovacuum_def v conj_commute)
qed (simp add: autovacuum_def)

section \<open>What the graph shows\<close>

lemma map_of_ids_by_uuid:
  "distinct (map row_uuid rs) \<Longrightarrow>
    map_of (ids_by_uuid rs d) u =
      (case map_of (map (\<lambda>r. (row_uuid r, row_id r)) rs) u of None \<Rightarrow> map_of d u | Some n \<Rightarrow> Some n)"
proof (induction rs d rule: ids_by_uuid.induct)
  case (2 r rs d)
  then have "map_of (map (\<lambda>r. (row_uuid r, row_id r)) rs) (row_uuid r) = None"
    by (auto simp: map_of_eq_None_iff)
  with 2 show ?case by (auto split: option.splits)
qed simp

lemma graph_id_iff:
  assumes "distinct (map row_uuid jobs)" and "\<forall>r\<in>set jobs. row_id r \<noteq> 0"
  shows "graph_id (ids_by_uuid jobs []) u = Some n \<longleftrightarrow> (\<exists>r\<in>set jobs. row_uuid r = u \<and> row_id r = n)"
proof -
  have d: "distinct (map fst (map (\<lambda>r. (row_uuid r, row_id r)) jobs))" using assms(1) by (simp add: comp_def)
  have "map_of (ids_by_uuid jobs []) u = Some n \<longleftrightarrow> (\<exists>r\<in>set jobs. row_uuid r = u \<and> row_id r = n)"
    unfolding map_of_ids_by_uuid [OF assms(1)] using map_of_eq_Some_iff [OF d, of u n] by (auto split: option.split)
  then show ?thesis using assms(2) by (auto simp: graph_id_def split: option.splits if_splits)
qed

lemma foldl_add_edges:
  fixes a b :: "'x \<Rightarrow> 'v" and m :: "'u \<Rightarrow> 'x option"
  assumes "graph_ok g"
  defines "f \<equiv> \<lambda>g u. case m u of None \<Rightarrow> g | Some x \<Rightarrow> add_edge (a x) (b x) g"
  shows "graph_ok (foldl f g us) \<and>
    edge_set (foldl f g us) = edge_set g \<union> {(a x, b x) |x. Some x \<in> m ` set us} \<and>
    set (vertices (foldl f g us)) = set (vertices g) \<union> {v. \<exists>x. Some x \<in> m ` set us \<and> (v = a x \<or> v = b x)}"
  using assms(1)
proof (induction us arbitrary: g)
  case (Cons u us)
  show ?case
  proof (cases "m u")
    case None
    then show ?thesis using Cons.IH [OF Cons.prems] by (simp add: f_def)
  next
    case (Some x)
    have "f g u = add_edge (a x) (b x) g" by (simp add: f_def Some)
    then show ?thesis
      using Cons.IH [OF add_edge_ok [OF Cons.prems], of "a x" "b x"] Some
      by (auto simp: add_edge_edges add_edge_vertices)
  qed
qed simp

definition job_links :: "(string \<times> int) list \<Rightarrow> row \<Rightarrow> (int \<times> int) set" where
  "job_links gi r =
     {(p, row_id r) |p. Some p \<in> graph_id gi ` set (row_depends_on r)} \<union>
     {(row_id r, c) |c. Some c \<in> graph_id gi ` set (row_reverse_depends_on r)}"

definition job_nodes :: "(string \<times> int) list \<Rightarrow> row \<Rightarrow> int set" where
  "job_nodes gi r =
     insert (row_id r) {p. Some p \<in> graph_id gi ` set (row_depends_on r @ row_reverse_depends_on r)}"

lemma add_job_to_graph_ok:
  assumes "graph_ok g"
  shows "graph_ok (add_job_to_graph gi g r) \<and>
    edge_set (add_job_to_graph gi g r) = edge_set g \<union> job_links gi r \<and>
    set (vertices (add_job_to_graph gi g r)) = set (vertices g) \<union> job_nodes gi r"
proof -
  have g1: "graph_ok (add_vertex (row_id r) g)" using assms by (rule add_vertex_ok)
  note e1 = foldl_add_edges [OF g1, where m = "graph_id gi" and a = "\<lambda>x. x" and b = "\<lambda>_. row_id r"
      and us = "row_depends_on r"]
  note e2 = foldl_add_edges [OF conjunct1 [OF e1], where m = "graph_id gi" and a = "\<lambda>_. row_id r"
      and b = "\<lambda>x. x" and us = "row_reverse_depends_on r"]
  show ?thesis
    unfolding add_job_to_graph_def Let_def job_links_def job_nodes_def
    using e1 e2 by (auto simp: add_vertex_edges add_vertex_vertices)
qed

lemma graph_of_jobs_steps:
  "graph_ok g \<Longrightarrow>
    graph_ok (foldl (add_job_to_graph gi) g rs) \<and>
    edge_set (foldl (add_job_to_graph gi) g rs) = edge_set g \<union> \<Union> (job_links gi ` set rs) \<and>
    set (vertices (foldl (add_job_to_graph gi) g rs)) = set (vertices g) \<union> \<Union> (job_nodes gi ` set rs)"
proof (induction rs arbitrary: g)
  case (Cons r rs)
  note a = add_job_to_graph_ok [OF Cons.prems, of gi r]
  from Cons.IH [OF conjunct1 [OF a]] a show ?case by (simp add: Un_assoc)
qed simp

lemma graph_of_jobs_ok:
  assumes d: "distinct (map row_uuid jobs)" and i: "\<forall>r\<in>set jobs. row_id r \<noteq> 0"
  shows "graph_ok (graph_of_jobs jobs) \<and> set (vertices (graph_of_jobs jobs)) = row_id ` set jobs \<and>
    edge_set (graph_of_jobs jobs) =
      {(row_id p, row_id c) |p c. p \<in> set jobs \<and> c \<in> set jobs \<and>
        (row_uuid p \<in> set (row_depends_on c) \<or> row_uuid c \<in> set (row_reverse_depends_on p))}"
proof -
  let ?gi = "ids_by_uuid jobs []"
  have g: "Some n \<in> graph_id ?gi ` set us \<longleftrightarrow> (\<exists>p\<in>set jobs. row_uuid p \<in> set us \<and> row_id p = n)" for n us
    using graph_id_iff [OF d i] by (metis (no_types, lifting) image_iff)
  have "graph_ok ([] :: int graph)" by (simp add: graph_ok_def)
  note st = graph_of_jobs_steps [OF this, of ?gi jobs, folded graph_of_jobs_def]
  have "edge_set (graph_of_jobs jobs) = \<Union> (job_links ?gi ` set jobs)"
    using st by (simp add: graph_of_jobs_def graph_init_def edge_set_def)
  also have "\<dots> = {(row_id p, row_id c) |p c. p \<in> set jobs \<and> c \<in> set jobs \<and>
        (row_uuid p \<in> set (row_depends_on c) \<or> row_uuid c \<in> set (row_reverse_depends_on p))}"
    unfolding job_links_def g by blast
  finally have e: "edge_set (graph_of_jobs jobs) = \<dots>" .
  have "set (vertices (graph_of_jobs jobs)) = \<Union> (job_nodes ?gi ` set jobs)"
    using st by (simp add: graph_of_jobs_def graph_init_def vertices_def)
  also have "\<dots> = row_id ` set jobs" unfolding job_nodes_def g by blast
  finally have v: "set (vertices (graph_of_jobs jobs)) = row_id ` set jobs" .
  show ?thesis using st v e by (simp add: graph_of_jobs_def graph_init_def)
qed

lemma vis_nodes_ok:
  assumes "set ids \<subseteq> row_id ` set jobs"
  shows "\<exists>ns. vis_nodes esc jobs ids = Inr ns \<and> map vn_id ns = ids"
  using assms
proof (induction ids)
  case (Cons i ids)
  then obtain ns where ns: "vis_nodes esc jobs ids = Inr ns" "map vn_id ns = ids" by auto
  obtain r where "find (\<lambda>r. row_id r = i) jobs = Some r"
    using Cons.prems by (cases "find (\<lambda>r. row_id r = i) jobs") (auto simp: find_None_iff)
  moreover from this have "row_id r = i" by (auto simp: find_Some_iff)
  ultimately show ?case using ns by (simp add: row_of_id_def dependency_graph_vis_node_def)
qed simp

end
