(* ===== verification/Runner.thy ===== *)
theory Runner
  imports ChannelManager QueueJobViews
begin

text \<open>
  The runner of \<open>queue_job/jobrunner/runner.py\<close>: its configuration, the databases it serves with their
  tables and pending notifications, the queries it makes on them, and the four steps of its loop. The
  connections, the HTTP requests and the wait are not modelled beyond what is sent and for how long is
  waited; the table of each database is part of the state.
\<close>

definition SELECT_TIMEOUT :: int where "SELECT_TIMEOUT = 60"

datatype runner_exc = MasterElectionLost | KeyboardInterrupt | InterruptedError | OtherException

section \<open>Configuration\<close>

text \<open>The environment, and the section of the configuration file; \<open>a or b\<close> of their values.\<close>

type_synonym environ = "string \<Rightarrow> string option"
type_synonym config_section = "(string \<times> string) list"

definition env_or :: "environ \<Rightarrow> string \<Rightarrow> config_section \<Rightarrow> string \<Rightarrow> pyval" where
  "env_or getenv name conf key = py_or (opt_val PStr (getenv name)) (opt_val PStr (map_of conf key))"

definition channels_config :: "environ \<Rightarrow> config_section \<Rightarrow> pyval" where
  "channels_config getenv conf =
     py_or (env_or getenv ''ODOO_QUEUE_JOB_CHANNELS'' conf ''channels'') (PStr ''root:1'')"

definition is_runner_enabled :: "environ \<Rightarrow> config_section \<Rightarrow> bool" where
  "is_runner_enabled getenv conf =
     (case channels_config getenv conf of PStr s \<Rightarrow> \<not> py_startswith (py_strip s) ''root:0'' | _ \<Rightarrow> True)"

fun py_upper :: "string \<Rightarrow> string" where
  "py_upper [] = []"
| "py_upper (c # s) =
     (let n = of_char c :: nat in (if 97 \<le> n \<and> n \<le> 122 then char_of (n - 32) else c) # py_upper s)"

definition connection_info_for :: "environ \<Rightarrow> config_section \<Rightarrow> fields \<Rightarrow> fields" where
  "connection_info_for getenv conf info =
     foldl (\<lambda>info p.
       let cfg = env_or getenv (''ODOO_QUEUE_JOB_JOBRUNNER_DB_'' @ py_upper p) conf (''jobrunner_db_'' @ p)
       in if py_true cfg then dict_set p cfg info else info)
       info [''host'', ''port'', ''user'', ''password'']"

record runner_config =
  rc_scheme :: pyval
  rc_host :: pyval
  rc_port :: pyval
  rc_user :: pyval
  rc_password :: pyval

definition from_environ_or_config :: "environ \<Rightarrow> config_section \<Rightarrow> pyval \<Rightarrow> pyval \<Rightarrow> runner_config" where
  "from_environ_or_config getenv conf http_interface http_port =
     \<lparr>rc_scheme = py_or (env_or getenv ''ODOO_QUEUE_JOB_SCHEME'' conf ''scheme'') (PStr ''http''),
      rc_host = py_or (py_or (env_or getenv ''ODOO_QUEUE_JOB_HOST'' conf ''host'') http_interface) (PStr ''localhost''),
      rc_port = py_or (py_or (env_or getenv ''ODOO_QUEUE_JOB_PORT'' conf ''port'') http_port) (PInt 8069),
      rc_user = env_or getenv ''ODOO_QUEUE_JOB_HTTP_AUTH_USER'' conf ''http_auth_user'',
      rc_password = env_or getenv ''ODOO_QUEUE_JOB_HTTP_AUTH_PASSWORD'' conf ''http_auth_password''\<rparr>"

definition str_val :: "pyval \<Rightarrow> string" where
  "str_val v = (case v of PStr s \<Rightarrow> s | PInt n \<Rightarrow> show_int n | _ \<Rightarrow> ''None'')"

text \<open>The address that is requested for a job, and the credentials that go with it.\<close>

definition runjob_url :: "runner_config \<Rightarrow> string \<Rightarrow> string \<Rightarrow> string" where
  "runjob_url c db_name job_uuid =
     str_val (rc_scheme c) @ ''://'' @ str_val (rc_host c) @ '':'' @ str_val (rc_port c) @
     ''/queue_job/runjob?db='' @ db_name @ ''&job_uuid='' @ job_uuid"

definition runjob_auth :: "runner_config \<Rightarrow> (pyval \<times> pyval) option" where
  "runjob_auth c = (if py_true (rc_user c) then Some (rc_user c, rc_password c) else None)"

definition get_db_names :: "string option \<Rightarrow> string list \<Rightarrow> string list" where
  "get_db_names config_db_name list_dbs =
     (case config_db_name of
        Some (c # cs) \<Rightarrow> py_split (CHR '','') (c # cs)
      | _ \<Rightarrow> list_dbs)"

section \<open>A database\<close>

text \<open>Its jobs, the rows of its lock table, those of them that a running job holds, and the notifications
  that have arrived, the latest last.\<close>

record database =
  db_table :: table
  db_locks :: "string list"
  db_held :: "string list"
  db_notifies :: "string list"
  db_has_queue_job :: bool

text \<open>Whether the module is there: the tables, the modules with their states, the triggers by table.\<close>

definition has_queue_job :: "string list \<Rightarrow> (string \<times> string) list \<Rightarrow> (string \<times> string) list \<Rightarrow> bool" where
  "has_queue_job tables modules triggers \<longleftrightarrow>
     ''ir_module_module'' \<in> set tables \<and>
     (''queue_job'', ''installed'') \<in> set modules \<and>
     length (filter (\<lambda>t. t = (''queue_job'', ''queue_job_notify'')) triggers) = 3"

text \<open>The constructor: the master lock is taken only where the module is.\<close>

definition database_init ::
  "string list \<Rightarrow> (string \<times> string) list \<Rightarrow> (string \<times> string) list \<Rightarrow> bool \<Rightarrow> table \<Rightarrow> string list \<Rightarrow>
   string list \<Rightarrow> runner_exc + database" where
  "database_init tables modules triggers lock_free tbl locks held =
     (let has = has_queue_job tables modules triggers in
      if has \<and> \<not> lock_free then Inl MasterElectionLost
      else Inr \<lparr>db_table = tbl, db_locks = locks, db_held = held, db_notifies = [], db_has_queue_job = has\<rparr>)"

definition set_job_enqueued :: "int \<Rightarrow> string \<Rightarrow> table \<Rightarrow> table" where
  "set_job_enqueued now uuid db =
     map (\<lambda>r. if row_uuid r = uuid
              then dict_update r [(''state'', PStr (state_name ENQUEUED)), (''date_enqueued'', PDatetime now)]
              else r) db"

text \<open>The query that puts dead jobs back. A missing number makes a comparison not hold; \<open>buffer\<close> is ten
  seconds.\<close>

definition too_many_retries :: "row \<Rightarrow> bool" where
  "too_many_retries r =
     (case (val_int (fld ''max_retries'' r), val_int (fld ''retry'' r)) of
        (Some max_retries, Some retry) \<Rightarrow> max_retries \<noteq> 0 \<and> retry > max_retries
      | _ \<Rightarrow> False)"

definition is_dead :: "int \<Rightarrow> int \<Rightarrow> string list \<Rightarrow> string list \<Rightarrow> row \<Rightarrow> bool" where
  "is_dead buffer now locks held r \<longleftrightarrow>
     (row_state r = Some ENQUEUED \<or> row_state r = Some STARTED) \<and>
     (case val_date (fld ''date_enqueued'' r) of Some t \<Rightarrow> t < now - buffer | None \<Rightarrow> False) \<and>
     (row_uuid r \<in> set locks \<and> row_uuid r \<notin> set held \<or> row_uuid r \<notin> set locks)"

definition requeue_dead_row :: "row \<Rightarrow> row" where
  "requeue_dead_row r =
     dict_update r
       [(''state'', PStr (state_name (if too_many_retries r then FAILED else PENDING))),
        (''retry'', if row_state r = Some STARTED
                    then PInt ((case val_int (fld ''retry'' r) of None \<Rightarrow> 0 | Some n \<Rightarrow> n) + 1) else fld ''retry'' r),
        (''exc_name'', if too_many_retries r then PStr ''JobFoundDead'' else fld ''exc_name'' r),
        (''exc_info'', if too_many_retries r then PStr ''Job found dead after too many retries''
                     else fld ''exc_info'' r)]"

definition requeue_dead_jobs :: "int \<Rightarrow> int \<Rightarrow> database \<Rightarrow> database" where
  "requeue_dead_jobs buffer now d =
     d\<lparr>db_table := map (\<lambda>r. if is_dead buffer now (db_locks d) (db_held d) r then requeue_dead_row r else r)
                     (db_table d)\<rparr>"

section \<open>The runner\<close>

record runner =
  rn_cm :: ChannelManager
  rn_dbs :: "(string \<times> database) list"
  rn_stop :: bool

definition runner_init :: "string \<Rightarrow> runner result" where
  "runner_init channel_config_string =
     rbind (simple_configure channel_config_string cm_init) (\<lambda>m.
     Inr \<lparr>rn_cm = m, rn_dbs = [], rn_stop = False\<rparr>)"

text \<open>What \<open>select_jobs\<close> reads of a row goes to the manager.\<close>

definition notify_row :: "string \<Rightarrow> row \<Rightarrow> ChannelManager \<Rightarrow> ChannelManager result" where
  "notify_row db_name r m =
     notify db_name (val_str (fld ''channel'' r)) (row_uuid r) (row_id r)
       (case val_date (fld ''date_created'' r) of None \<Rightarrow> 0 | Some t \<Rightarrow> t)
       (case val_int (fld ''priority'' r) of None \<Rightarrow> 0 | Some n \<Rightarrow> n)
       (val_date (fld ''eta'' r)) (val_str (fld ''state'' r)) m"

fun notify_rows :: "string \<Rightarrow> row list \<Rightarrow> ChannelManager \<Rightarrow> ChannelManager result" where
  "notify_rows db_name [] m = Inr m"
| "notify_rows db_name (r # rs) m = rbind (notify_row db_name r m) (notify_rows db_name rs)"

definition NOT_DONE :: "JobState list" where
  "NOT_DONE = [WAIT_DEPENDENCIES, PENDING, ENQUEUED, STARTED, FAILED]"

definition select_not_done :: "table \<Rightarrow> row list" where
  "select_not_done db = filter (\<lambda>r. row_state r \<in> Some ` set NOT_DONE) db"

text \<open>The databases in the order of their names; an exception leaves those that came before.\<close>

fun initialize_loop :: "(string \<Rightarrow> runner_exc + database) \<Rightarrow> string list \<Rightarrow> runner \<Rightarrow> runner \<times> runner_exc option" where
  "initialize_loop open_db [] rn = (rn, None)"
| "initialize_loop open_db (n # ns) rn =
     (case open_db n of
        Inl e \<Rightarrow> (rn, Some e)
      | Inr d \<Rightarrow>
          if db_has_queue_job d
          then (let rn1 = rn\<lparr>rn_dbs := dict_set n d (rn_dbs rn)\<rparr> in
                case notify_rows n (select_not_done (db_table d)) (rn_cm rn1) of
                  Inl e \<Rightarrow> (rn1, Some OtherException)
                | Inr m \<Rightarrow> initialize_loop open_db ns (rn1\<lparr>rn_cm := m\<rparr>))
          else initialize_loop open_db ns rn)"

definition initialize_databases ::
  "(string \<Rightarrow> runner_exc + database) \<Rightarrow> string list \<Rightarrow> runner \<Rightarrow> runner \<times> runner_exc option" where
  "initialize_databases open_db names rn = initialize_loop open_db (sort names) rn"

text \<open>An exception of the manager is logged and the next database is closed.\<close>

fun close_loop :: "string list \<Rightarrow> ChannelManager \<Rightarrow> ChannelManager" where
  "close_loop [] m = m"
| "close_loop (n # ns) m = close_loop ns (case remove_db n m of Inl e \<Rightarrow> m | Inr m1 \<Rightarrow> m1)"

definition close_databases :: "bool \<Rightarrow> runner \<Rightarrow> runner" where
  "close_databases remove_jobs rn =
     rn\<lparr>rn_cm := (if remove_jobs then close_loop (map fst (rn_dbs rn)) (rn_cm rn) else rn_cm rn), rn_dbs := []\<rparr>"

definition runner_requeue_dead_jobs :: "int \<Rightarrow> int \<Rightarrow> runner \<Rightarrow> runner" where
  "runner_requeue_dead_jobs buffer now rn =
     rn\<lparr>rn_dbs := map (\<lambda>(n, d). (n, if db_has_queue_job d then requeue_dead_jobs buffer now d else d)) (rn_dbs rn)\<rparr>"

text \<open>The jobs that the manager gives are set enqueued one by one and requested.\<close>

fun run_loop_jobs ::
  "int \<Rightarrow> (string \<times> string) list \<Rightarrow> (string \<times> database) list \<Rightarrow>
   ((string \<times> database) list \<times> (string \<times> string) list) result" where
  "run_loop_jobs now [] dbs = Inr (dbs, [])"
| "run_loop_jobs now ((n, uuid) # jobs) dbs =
     (case map_of dbs n of
        None \<Rightarrow> Inl KeyError
      | Some d \<Rightarrow>
          rbind (run_loop_jobs now jobs
            (dict_set n (d\<lparr>db_table := set_job_enqueued now uuid (db_table d)\<rparr>) dbs)) (\<lambda>(dbs1, requests).
          Inr (dbs1, (n, uuid) # requests)))"

definition run_jobs :: "int \<Rightarrow> runner \<Rightarrow> (runner \<times> (string \<times> string) list) result" where
  "run_jobs now rn =
     rbind (cm_get_jobs_to_run now (rn_cm rn)) (\<lambda>(jobs, m).
     rbind (run_loop_jobs now (map (\<lambda>j. (cj_db_name (cm_jobs m j), cj_uuid (cm_jobs m j))) jobs) (rn_dbs rn))
       (\<lambda>(dbs, requests). Inr (rn\<lparr>rn_cm := m, rn_dbs := dbs\<rparr>, requests)))"

text \<open>The notifications of a database, the last one first: the manager hears of the job as it is now, or
  of its removal.\<close>

definition process_notification :: "string \<Rightarrow> table \<Rightarrow> string \<Rightarrow> ChannelManager \<Rightarrow> ChannelManager result" where
  "process_notification db_name db uuid m =
     (case find (\<lambda>r. row_uuid r = uuid) db of
        Some r \<Rightarrow> notify_row db_name r m
      | None \<Rightarrow> remove_job uuid m)"

fun process_db :: "string \<Rightarrow> table \<Rightarrow> string list \<Rightarrow> ChannelManager \<Rightarrow> ChannelManager result" where
  "process_db db_name db [] m = Inr m"
| "process_db db_name db (u # us) m = rbind (process_notification db_name db u m) (process_db db_name db us)"

fun process_dbs :: "(string \<times> database) list \<Rightarrow> ChannelManager \<Rightarrow> ChannelManager result" where
  "process_dbs [] m = Inr m"
| "process_dbs ((n, d) # dbs) m = rbind (process_db n (db_table d) (rev (db_notifies d)) m) (process_dbs dbs)"

definition process_notifications :: "runner \<Rightarrow> runner result" where
  "process_notifications rn =
     (if rn_stop rn then Inr rn
      else rbind (process_dbs (rn_dbs rn) (rn_cm rn)) (\<lambda>m.
           Inr (rn\<lparr>rn_cm := m, rn_dbs := map (\<lambda>(n, d). (n, d\<lparr>db_notifies := []\<rparr>)) (rn_dbs rn)\<rparr>)))"

text \<open>For how long the runner waits; \<open>None\<close> when it does not.\<close>

definition wait_notification :: "int \<Rightarrow> runner \<Rightarrow> (int option \<times> runner) result" where
  "wait_notification now rn =
     (if \<exists>(n, d)\<in>set (rn_dbs rn). db_notifies d \<noteq> [] then Inr (None, rn)
      else rbind (cm_get_wakeup_time (rn_cm rn)) (\<lambda>(wakeup_time, m).
           let timeout = (if wakeup_time = 0 then SELECT_TIMEOUT else wakeup_time - now)
           in Inr (if timeout > 0 \<and> \<not> rn_stop rn then Some timeout else None, rn\<lparr>rn_cm := m\<rparr>)))"

definition runner_stop :: "runner \<Rightarrow> runner" where
  "runner_stop rn = rn\<lparr>rn_stop := True\<rparr>"

text \<open>One turn of the inner loop; the requests are what is sent.\<close>

definition runner_turn :: "int \<Rightarrow> int \<Rightarrow> runner \<Rightarrow> (runner \<times> (string \<times> string) list \<times> int option) result" where
  "runner_turn buffer now rn =
     rbind (process_notifications (runner_requeue_dead_jobs buffer now rn)) (\<lambda>rn1.
     rbind (run_jobs now rn1) (\<lambda>(rn2, requests).
     rbind (wait_notification now rn2) (\<lambda>(timeout, rn3). Inr (rn3, requests, timeout))))"

text \<open>How the outer loop recovers from an exception.\<close>

definition runner_recover :: "runner_exc \<Rightarrow> runner \<Rightarrow> runner" where
  "runner_recover e rn =
     (case e of
        KeyboardInterrupt \<Rightarrow> runner_stop rn
      | InterruptedError \<Rightarrow> runner_stop rn
      | MasterElectionLost \<Rightarrow> close_databases True rn
      | OtherException \<Rightarrow> close_databases True rn)"

end
