(* ===== verification/QueueSystem.thy ===== *)
theory QueueSystem
  imports JobTable Runner
begin

text \<open>
  The table of the jobs as a transition system: the runner enqueues pending jobs and puts dead ones back,
  the controller runs enqueued jobs, the users set jobs done, cancel or requeue them. A job is pending,
  enqueued or started only when the jobs it depends on are done, and no job waits for jobs that are all
  done.
\<close>

section \<open>Changes of state keep the dependencies\<close>

lemma set_state_fields [simp]:
  "of_row (set_pending lookup result b j) r = of_row j r" "of_row (set_started now pid j) r = of_row j r"
  "of_row (set_done now result j) r = of_row j r" "of_row (set_cancelled now result j) r = of_row j r"
  "of_row (set_failed n m i j) r = of_row j r" "of_row (set_result result j) r = of_row j r"
  by (auto simp: of_row_def set_pending_def set_started_def set_done_def set_cancelled_def set_failed_def
      set_result_def split: option.splits)

lemma set_state_state [simp]:
  "j_state (set_started now pid j) = STARTED" "j_state (set_done now result j) = DONE"
  "j_state (set_cancelled now result j) = CANCELLED" "j_state (set_failed n m i j) = FAILED"
  "j_state (set_pending lookup result b j) =
     (if \<exists>p\<in>set (job_depends_on lookup j). j_state p \<noteq> DONE then WAIT_DEPENDENCIES else PENDING)"
  by (auto simp: set_pending_def set_started_def set_done_def set_cancelled_def set_failed_def
      set_result_def split: option.splits)

definition sys_ok :: "queue_env \<Rightarrow> table \<Rightarrow> bool" where
  "sys_ok qe db \<longleftrightarrow> table_ok qe db \<and> dep_inv db"

lemma sys_links: "sys_ok qe db \<Longrightarrow> links_ok db"
  by (simp add: sys_ok_def table_ok_def)

lemma store_state_ok:
  assumes m: "model_ok qe" and ok: "sys_ok qe db" and r: "r \<in> set db" and j: "of_row j r"
    and st: "j_state j \<noteq> DONE" "row_state r \<noteq> Some DONE"
    and act: "j_state j \<in> {PENDING, ENQUEUED, STARTED} \<Longrightarrow> parents_done db r"
    and wait: "j_state j = WAIT_DEPENDENCIES \<Longrightarrow> \<not> parents_done db r"
  shows "\<exists>db'. store_job qe j db = Inr db' \<and> sys_ok qe db' \<and>
    tab db' = tab (set_state_of (row_uuid r) (j_state j) db)"
proof -
  have t: "table_ok qe db" and d: "dep_inv db" using ok by (simp_all add: sys_ok_def)
  obtain db' where db': "store_job qe j db = Inr db'" "table_ok qe db'"
    "tab db' = tab (set_state_of (row_uuid r) (j_state j) db)"
    using store_job_ok [OF m t r j] by blast
  have "dep_inv (set_state_of (row_uuid r) (j_state j) db)"
    by (rule dep_inv_set_state [OF sys_links [OF ok] d r refl st act wait])
  with dep_inv_tab [OF db'(3)] db' show ?thesis by (simp add: sys_ok_def)
qed

lemma store_done_ok:
  assumes m: "model_ok qe" and ok: "sys_ok qe db" and r: "r \<in> set db" and j: "of_row j r" "j_state j = DONE"
  shows "\<exists>db'. store_job qe j db = Inr db' \<and> sys_ok qe (enqueue_waiting (row_uuid r) db') \<and>
    tab (enqueue_waiting (row_uuid r) db') = tab (enqueue_waiting (row_uuid r) (set_state_of (row_uuid r) DONE db))"
proof -
  have t: "table_ok qe db" and d: "dep_inv db" using ok by (simp_all add: sys_ok_def)
  obtain db' where db': "store_job qe j db = Inr db'" "table_ok qe db'"
    "tab db' = tab (set_state_of (row_uuid r) DONE db)"
    using store_job_ok [OF m t r j(1)] j(2) by metis
  have "set_row_state DONE r \<in> set (set_state_of (row_uuid r) DONE db)"
    using r by (force simp: set_state_of_def)
  from tab_dependent_cong [OF db'(3) _ this, of "row_uuid r"] sys_links [OF ok]
  have e: "tab (enqueue_waiting (row_uuid r) db') = tab (enqueue_waiting (row_uuid r) (set_state_of (row_uuid r) DONE db))"
    by (simp add: enqueue_waiting_def)
  have "dep_inv (enqueue_waiting (row_uuid r) (set_state_of (row_uuid r) DONE db))"
    by (rule done_keeps_dep_inv [OF sys_links [OF ok] d r refl])
  with dep_inv_tab [OF e] e db' show ?thesis by (simp add: sys_ok_def enqueue_waiting_def)
qed

lemma pending_state:
  assumes l: "links_ok db" and r: "r \<in> set db" and j: "of_row j r"
    and look: "\<forall>x\<in>set db. row_uuid x \<in> set (j_depends_on_uuids j) \<union> set (j_reverse_depends_on_uuids j) \<longrightarrow>
      (\<exists>p. lookup (row_uuid x) = Some p \<and> row_state x = Some (j_state p))"
  shows "(\<exists>p\<in>set (job_depends_on lookup j). j_state p \<noteq> DONE) \<longleftrightarrow> \<not> parents_done db r"
proof -
  have d: "j_depends_on_uuids j = row_depends_on r" using j by (simp add: of_row_def)
  have m: "p \<in> set (job_depends_on lookup j) \<longleftrightarrow> (\<exists>u\<in>set (row_depends_on r). lookup u = Some p)" for p
    by (force simp: job_depends_on_def d map_filter_def)
  have p: "\<exists>x\<in>set db. row_uuid x = u" if "u \<in> set (row_depends_on r)" for u
    using parent_exists [OF l r that] by blast
  show ?thesis
  proof
    assume "\<exists>p\<in>set (job_depends_on lookup j). j_state p \<noteq> DONE"
    then obtain u q where q: "u \<in> set (row_depends_on r)" "lookup u = Some q" "j_state q \<noteq> DONE"
      using m by blast
    then obtain x where "x \<in> set db" "row_uuid x = u" using p by blast
    with look q d show "\<not> parents_done db r" by (fastforce simp: parents_done_alt)
  next
    assume "\<not> parents_done db r"
    then obtain x where "x \<in> set db" "row_uuid x \<in> set (row_depends_on r)" "row_state x \<noteq> Some DONE"
      by (auto simp: parents_done_alt)
    with look d m show "\<exists>p\<in>set (job_depends_on lookup j). j_state p \<noteq> DONE" by fastforce
  qed
qed

lemma store_pending_ok:
  assumes m: "model_ok qe" and ok: "sys_ok qe db" and r: "r \<in> set db" and j: "of_row j r"
    and st: "row_state r \<noteq> Some DONE"
  shows "\<exists>lookup db'. linked_jobs qe db j = Inr lookup \<and>
    store_job qe (set_pending lookup result b j) db = Inr db' \<and> sys_ok qe db' \<and>
    tab db' = tab (set_state_of (row_uuid r) (if parents_done db r then PENDING else WAIT_DEPENDENCIES) db)"
proof -
  have t: "table_ok qe db" using ok by (simp add: sys_ok_def)
  obtain lookup where lk: "linked_jobs qe db j = Inr lookup"
    "\<forall>x\<in>set db. row_uuid x \<in> set (j_depends_on_uuids j) \<union> set (j_reverse_depends_on_uuids j) \<longrightarrow>
      (\<exists>p. lookup (row_uuid x) = Some p \<and> row_state x = Some (j_state p))"
    using linked_jobs_ok [OF t, of j] by blast
  note p = pending_state [OF sys_links [OF ok] r j lk(2)]
  have s: "j_state (set_pending lookup result b j) = (if parents_done db r then PENDING else WAIT_DEPENDENCIES)"
    using p by simp
  have "\<exists>db'. store_job qe (set_pending lookup result b j) db = Inr db' \<and> sys_ok qe db' \<and>
    tab db' = tab (set_state_of (row_uuid r) (j_state (set_pending lookup result b j)) db)"
    by (rule store_state_ok [OF m ok r _ _ st])
       (use j in \<open>simp_all only: s set_state_fields split: if_splits, simp_all\<close>)
  with lk(1) s show ?thesis by metis
qed

section \<open>What the users do\<close>

definition after_change :: "JobState \<Rightarrow> row \<Rightarrow> table \<Rightarrow> table" where
  "after_change st r db =
     (case st of
        DONE \<Rightarrow> enqueue_waiting (row_uuid r) (set_state_of (row_uuid r) DONE db)
      | CANCELLED \<Rightarrow> cancel_dependent_jobs (row_uuid r) (set_state_of (row_uuid r) CANCELLED db)
      | _ \<Rightarrow> set_state_of (row_uuid r) (if parents_done db r then PENDING else WAIT_DEPENDENCIES) db)"

lemma change_state1_ok:
  assumes m: "model_ok qe" and ok: "sys_ok qe db" and r: "r \<in> set db"
    and st: "st \<in> {DONE, PENDING, CANCELLED}" "st \<noteq> DONE \<Longrightarrow> row_state r \<noteq> Some DONE"
  shows "\<exists>db'. change_state1 qe st result (row_uuid r) db = Inr db' \<and> sys_ok qe db' \<and>
    tab db' = tab (after_change st r db)"
proof -
  have t: "table_ok qe db" using ok by (simp add: sys_ok_def)
  obtain j where j: "load_job qe db (row_uuid r) = Inr j" "of_row j r"
    using load_job_ok [OF t r] by (auto simp: of_row_def)
  consider "st = DONE" | "st = PENDING" | "st = CANCELLED" using st(1) by blast
  then show ?thesis
  proof cases
    case 1
    show ?thesis
      using store_done_ok [OF m ok r, of "set_done (je_now (qe_job qe)) result j"] j
      by (auto simp: change_state1_def after_change_def 1)
  next
    case 2
    then have "row_state r \<noteq> Some DONE" using st(2) by simp
    from store_pending_ok [OF m ok r j(2) this, of result True] show ?thesis
      by (auto simp: change_state1_def after_change_def 2 j(1))
  next
    case 3
    then have nd: "row_state r \<noteq> Some DONE" using st(2) by simp
    let ?j = "set_cancelled (je_now (qe_job qe)) result j"
    obtain db1 where db1: "store_job qe ?j db = Inr db1" "sys_ok qe db1"
      "tab db1 = tab (set_state_of (row_uuid r) CANCELLED db)"
      using store_state_ok [OF m ok r, of ?j] j(2) nd by auto
    have "set_row_state CANCELLED r \<in> set (set_state_of (row_uuid r) CANCELLED db)"
      using r by (force simp: set_state_of_def)
    from tab_dependent_cong [OF db1(3) _ this, of "row_uuid r"] sys_links [OF ok]
    have "tab (cancel_dependent_jobs (row_uuid r) db1) = tab (after_change CANCELLED r db)"
      by (simp add: cancel_dependent_jobs_def after_change_def)
    moreover have "sys_ok qe (cancel_dependent_jobs (row_uuid r) db1)"
      using db1(2) cancel_keeps_dep_inv [of db1 "row_uuid r"] by (simp add: sys_ok_def cancel_dependent_jobs_def)
    ultimately show ?thesis using db1(1) j(1) by (simp add: change_state1_def 3)
  qed
qed

lemma load_job_row: "load_job qe db u = Inr j \<Longrightarrow> \<exists>r\<in>set db. row_uuid r = u"
  by (cases "db_records_from_uuids db [u]")
     (auto simp: load_job_def load_def db_records_from_uuids_def filter_eq_Cons_iff)

lemma done_tab: "tab db' = tab db \<Longrightarrow> (\<exists>x\<in>set db'. row_uuid x = u \<and> row_state x = s) \<longleftrightarrow>
    (\<exists>x\<in>set db. row_uuid x = u \<and> row_state x = s)"
proof -
  have "(\<exists>x\<in>set d. row_uuid x = u \<and> row_state x = s) \<longleftrightarrow> (u, s) \<in> (\<lambda>(l, s). (fst l, s)) ` set (tab d)" for d
    by (auto simp: tab_def row_links_def image_iff) 
  then show "tab db' = tab db \<Longrightarrow> ?thesis" by simp
qed

lemma dependent_done:
  assumes "x \<in> set (dependent_jobs_update new u st db)" and "row_state x = Some DONE" and "new \<noteq> DONE"
  shows "x \<in> set db"
proof -
  from assms(1) obtain c where "c \<in> set db" "x = c \<or> x = set_row_state new c"
    unfolding dependent_jobs_update_def set_map set_row_state_def by (elim imageE) (auto split: if_splits)
  with assms(2,3) show ?thesis by auto
qed

lemma set_state_of_done:
  "x \<in> set (set_state_of u st db) \<Longrightarrow> row_state x = Some DONE \<Longrightarrow> st \<noteq> DONE \<Longrightarrow> x \<in> set db"
  unfolding set_state_of_def set_map by (elim imageE) (auto split: if_splits)

lemma after_change_done:
  assumes "st \<in> {PENDING, CANCELLED}" and "x \<in> set (after_change st r db)" and "row_state x = Some DONE"
  shows "x \<in> set db"
  using assms
  by (auto simp: after_change_def cancel_dependent_jobs_def dest!: dependent_done set_state_of_done split: if_splits)

definition no_done :: "string list \<Rightarrow> table \<Rightarrow> bool" where
  "no_done us db \<longleftrightarrow> (\<forall>r\<in>set db. row_uuid r \<in> set us \<longrightarrow> row_state r \<noteq> Some DONE)"

lemma change_job_state_ok:
  "model_ok qe \<Longrightarrow> sys_ok qe db \<Longrightarrow> st \<in> {DONE, PENDING, CANCELLED} \<Longrightarrow> (st \<noteq> DONE \<Longrightarrow> no_done us db) \<Longrightarrow>
    change_job_state qe st result us db = Inr db' \<Longrightarrow> sys_ok qe db'"
proof (induction qe st result us db rule: change_job_state.induct)
  case (2 qe state result u us db)
  from "2.prems"(5) obtain db1 where db1: "change_state1 qe state result u db = Inr db1"
    "change_job_state qe state result us db1 = Inr db'" by (auto simp: rbind_eq_Inr)
  then obtain j where "load_job qe db u = Inr j" by (auto simp: change_state1_def rbind_eq_Inr)
  from load_job_row [OF this] obtain r where r: "r \<in> set db" "row_uuid r = u" by blast
  have "state \<noteq> DONE \<Longrightarrow> row_state r \<noteq> Some DONE" using "2.prems"(4) r by (auto simp: no_done_def)
  from change_state1_ok [OF "2.prems"(1,2) r(1) "2.prems"(3) this, of result] db1(1) r(2)
  have c: "sys_ok qe db1" "tab db1 = tab (after_change state r db)" by auto
  have "no_done us db1" if "state \<noteq> DONE"
  proof -
    have st: "state \<in> {PENDING, CANCELLED}" using that "2.prems"(3) by simp
    have nd: "no_done (u # us) db" using "2.prems"(4) that by simp
    show ?thesis
      unfolding no_done_def
    proof (intro ballI impI notI)
      fix x assume x: "x \<in> set db1" "row_uuid x \<in> set us" "row_state x = Some DONE"
      then obtain y where "y \<in> set (after_change state r db)" "row_uuid y = row_uuid x" "row_state y = Some DONE"
        using done_tab [OF c(2), of "row_uuid x" "Some DONE"] by blast
      from after_change_done [OF st this(1,3)] this(2,3) nd x(2) show False
        unfolding no_done_def by auto
    qed
  qed
  from "2.IH" [OF db1(1) "2.prems"(1) c(1) "2.prems"(3) this db1(2)] show ?case .
qed simp

section \<open>What the runner does\<close>

lemma set_job_enqueued_tab: "tab (set_job_enqueued now u db) = tab (set_state_of u ENQUEUED db)"
proof -
  have "row_state (dict_update r [(''state'', PStr (state_name ENQUEUED)), (''date_enqueued'', v)]) = Some ENQUEUED" for r v
    using state_of_name [of ENQUEUED] by (simp add: row_state_def fld_dict_set fld_def del: state_of_name)
  moreover have "row_links (dict_update r [(''state'', w), (''date_enqueued'', v)]) = row_links r" for r v w
    by (simp add: row_links_def row_uuid_def row_graph_def row_depends_on_def row_reverse_depends_on_def fld_dict_set)
  ultimately show ?thesis by (simp add: tab_def set_job_enqueued_def set_state_of_def)
qed

lemma dep_inv_map:
  assumes l: "\<And>r. r \<in> set db \<Longrightarrow> row_links (f r) = row_links r"
    and st: "\<And>r. r \<in> set db \<Longrightarrow> row_state (f r) = row_state r \<or>
      row_state r \<in> Some ` {PENDING, ENQUEUED, STARTED} \<and> row_state (f r) \<in> Some ` {PENDING, ENQUEUED, STARTED, FAILED}"
    and inv: "dep_inv db"
  shows "dep_inv (map f db)"
proof -
  have p: "parents_done (map f db) (f r) \<longleftrightarrow> parents_done db r" if "r \<in> set db" for r
  proof -
    have "parents_done (map f db) x \<longleftrightarrow> parents_done db x" for x
    proof (rule parents_done_map)
      show "row_uuid (f r) = row_uuid r" if "r \<in> set db" for r using l [OF that] by (simp add: row_links_def)
      show "row_state (f r) = Some DONE \<longleftrightarrow> row_state r = Some DONE" if "r \<in> set db" for r
        using st [OF that] by auto
    qed
    moreover have "parents_done db (f r) \<longleftrightarrow> parents_done db r"
      using l [OF that] by (simp add: parents_done_alt row_links_def)
    ultimately show ?thesis by simp
  qed
  show ?thesis
    unfolding dep_inv_def
  proof (intro ballI conjI impI)
    fix y assume "y \<in> set (map f db)"
    then obtain r where r: "y = f r" "r \<in> set db" unfolding set_map by (rule imageE)
    show "parents_done (map f db) y" if "row_state y \<in> Some ` {PENDING, ENQUEUED, STARTED}"
      using st [OF r(2)] inv r that p [OF r(2)] unfolding dep_inv_def by auto
    show "\<not> parents_done (map f db) y" if "row_state y = Some WAIT_DEPENDENCIES"
      using st [OF r(2)] inv r that p [OF r(2)] unfolding dep_inv_def by auto
  qed
qed

lemma row_ok_update:
  assumes "row_ok qe r" and "fst ` set vals \<inter> set (''state'' # ''graph_uuid'' # ''dependencies'' # created_keys) = {}"
  shows "row_ok qe (dict_update r vals)" and "row_links (dict_update r vals) = row_links r"
    and "row_state (dict_update r vals) = row_state r"
proof -
  have "fld k (dict_update r vals) = fld k r" if "k \<in> set (''state'' # ''graph_uuid'' # ''dependencies'' # created_keys)" for k
  proof -
    have "k \<notin> fst ` set vals" using assms(2) that by blast
    then show ?thesis by (simp add: fld_def dict_update_other)
  qed
  note f = this [unfolded created_keys_def, simplified]
  show "row_ok qe (dict_update r vals)" using assms(1) by (simp add: row_ok_def f row_state_def row_graph_def)
  show "row_links (dict_update r vals) = row_links r"
    by (simp add: row_links_def row_uuid_def row_graph_def row_depends_on_def row_reverse_depends_on_def f)
  show "row_state (dict_update r vals) = row_state r" by (simp add: row_state_def f)
qed

lemma requeue_dead_row_ok:
  assumes "row_ok qe r"
  shows "row_ok qe (requeue_dead_row r)" and "row_links (requeue_dead_row r) = row_links r"
    and "row_state (requeue_dead_row r) = Some (if too_many_retries r then FAILED else PENDING)"
proof -
  define r1 where "r1 = set_row_state (if too_many_retries r then FAILED else PENDING) r"
  have r1: "row_ok qe r1" "row_links r1 = row_links r"
    "row_state r1 = Some (if too_many_retries r then FAILED else PENDING)"
    using row_ok_set_state [OF assms, folded set_row_state_def] by (auto simp: r1_def)
  let ?vals = "[(''retry'', if row_state r = Some STARTED
        then PInt ((case val_int (fld ''retry'' r) of None \<Rightarrow> 0 | Some n \<Rightarrow> n) + 1) else fld ''retry'' r),
      (''exc_name'', if too_many_retries r then PStr ''JobFoundDead'' else fld ''exc_name'' r),
      (''exc_info'', if too_many_retries r then PStr ''Job found dead after too many retries'' else fld ''exc_info'' r)]"
  have v: "requeue_dead_row r = dict_update r1 ?vals"
    by (simp add: requeue_dead_row_def r1_def set_row_state_def)
  have "fst ` set ?vals \<inter> set (''state'' # ''graph_uuid'' # ''dependencies'' # created_keys) = {}"
    by (simp add: created_keys_def)
  from row_ok_update [OF r1(1) this] r1 v
  show "row_ok qe (requeue_dead_row r)" "row_links (requeue_dead_row r) = row_links r"
    "row_state (requeue_dead_row r) = Some (if too_many_retries r then FAILED else PENDING)" by simp_all
qed

lemma sys_ok_map:
  assumes ok: "sys_ok qe db"
    and f: "\<And>r. r \<in> set db \<Longrightarrow> row_ok qe (f r) \<and> row_links (f r) = row_links r \<and> (row_state (f r) = row_state r \<or>
      row_state r \<in> Some ` {PENDING, ENQUEUED, STARTED} \<and> row_state (f r) \<in> Some ` {PENDING, ENQUEUED, STARTED, FAILED})"
  shows "sys_ok qe (map f db)"
proof -
  have "dep_inv (map f db)" using ok f by (intro dep_inv_map) (auto simp: sys_ok_def)
  moreover have "map row_links (map f db) = map row_links db" using f by simp
  from links_ok_cong [OF this] have "links_ok (map f db)" using sys_links [OF ok] by simp
  ultimately show ?thesis using f by (auto simp: sys_ok_def table_ok_def)
qed

lemma requeue_dead_jobs_ok:
  assumes "sys_ok qe (db_table d)"
  shows "sys_ok qe (db_table (requeue_dead_jobs buffer now d))"
proof -
  let ?f = "\<lambda>r. if is_dead buffer now (db_locks d) (db_held d) r then requeue_dead_row r else r"
  have "sys_ok qe (map ?f (db_table d))"
  proof (rule sys_ok_map [OF assms])
    fix r assume "r \<in> set (db_table d)"
    then have "row_ok qe r" using assms by (simp add: sys_ok_def table_ok_def)
    from requeue_dead_row_ok [OF this] this
    show "row_ok qe (?f r) \<and> row_links (?f r) = row_links r \<and> (row_state (?f r) = row_state r \<or>
      row_state r \<in> Some ` {PENDING, ENQUEUED, STARTED} \<and> row_state (?f r) \<in> Some ` {PENDING, ENQUEUED, STARTED, FAILED})"
      by (auto simp: is_dead_def)
  qed
  then show ?thesis by (simp add: requeue_dead_jobs_def)
qed

lemma set_job_enqueued_ok:
  assumes ok: "sys_ok qe db" and p: "\<And>r. r \<in> set db \<Longrightarrow> row_uuid r = u \<Longrightarrow> row_state r = Some PENDING"
  shows "sys_ok qe (set_job_enqueued now u db)"
  unfolding set_job_enqueued_def
proof (rule sys_ok_map [OF ok])
  fix r assume r: "r \<in> set db"
  then have "row_ok qe r" using ok by (simp add: sys_ok_def table_ok_def)
  then have 1: "row_ok qe (set_row_state ENQUEUED r)" by (rule row_ok_set_state [folded set_row_state_def])
  have e: "dict_update r [(''state'', PStr (state_name ENQUEUED)), (''date_enqueued'', PDatetime now)] =
      dict_update (set_row_state ENQUEUED r) [(''date_enqueued'', PDatetime now)]" by (simp add: set_row_state_def)
  have k: "fst ` set [(''date_enqueued'', PDatetime now)] \<inter>
      set (''state'' # ''graph_uuid'' # ''dependencies'' # created_keys) = {}" by (simp add: created_keys_def)
  let ?r = "if row_uuid r = u then dict_update r [(''state'', PStr (state_name ENQUEUED)), (''date_enqueued'', PDatetime now)] else r"
  show "row_ok qe ?r \<and> row_links ?r = row_links r \<and> (row_state ?r = row_state r \<or>
      row_state r \<in> Some ` {PENDING, ENQUEUED, STARTED} \<and> row_state ?r \<in> Some ` {PENDING, ENQUEUED, STARTED, FAILED})"
    unfolding e using row_ok_update [OF 1 k] p [OF r] \<open>row_ok qe r\<close> by simp
qed

end
