(* ===== verification/RunFacts.thy ===== *)
theory RunFacts
  imports QueueSystem
begin

text \<open>
  What the run of a job does to the table, for every way it can end.
\<close>

section \<open>The attempt\<close>

text \<open>The function of a job may change the table, by delaying jobs or setting others done, as long as it
  keeps the dependencies in order and leaves the jobs that are there, with their states and links.\<close>

definition work_ok :: "run_env \<Rightarrow> bool" where
  "work_ok re \<longleftrightarrow> (\<forall>j db. sys_ok (re_queue re) db \<longrightarrow> sys_ok (re_queue re) (fst (re_work re j db)) \<and>
     set (tab db) \<subseteq> set (tab (fst (re_work re j db))))"

lemma of_row_links: "row_links r' = row_links r \<Longrightarrow> of_row j r' = of_row j r"
  by (auto simp: of_row_def row_links_def)

lemma perform_fields: "of_row (fst (perform out j)) r = of_row j r" "j_state (fst (perform out j)) = j_state j"
  by (auto simp: perform_def of_row_def Let_def split: sum.splits job_exc.splits)

text \<open>The table still has the row of the job, enqueued or started.\<close>

definition still_running :: "queue_env \<Rightarrow> row \<Rightarrow> table \<Rightarrow> bool" where
  "still_running qe r db \<longleftrightarrow> sys_ok qe db \<and>
     (\<exists>s\<in>set db. row_links s = row_links r \<and> row_state s \<in> Some ` {ENQUEUED, STARTED})"

definition done_stored :: "queue_env \<Rightarrow> row \<Rightarrow> table \<Rightarrow> bool" where
  "done_stored qe r db' \<longleftrightarrow> (\<exists>db s j. sys_ok qe db \<and> s \<in> set db \<and> row_links s = row_links r \<and>
     of_row j s \<and> j_state j = DONE \<and> store_job qe j db = Inr db')"

lemma tab_row: "(row_links r, s) \<in> set (tab db) \<longleftrightarrow> (\<exists>x\<in>set db. row_links x = row_links r \<and> row_state x = s)"
  unfolding tab_def set_map image_iff prod.inject by (metis (no_types))

lemma started_ok:
  assumes m: "model_ok qe" and ok: "sys_ok qe db" and r: "r \<in> set db" "row_state r = Some ENQUEUED"
    and j: "of_row j r"
  shows "\<exists>db1. store_job qe (set_started now pid j) db = Inr db1 \<and> still_running qe r db1"
proof -
  have "parents_done db r" using ok r by (auto simp: sys_ok_def dep_inv_def)
  then obtain db1 where db1: "store_job qe (set_started now pid j) db = Inr db1" "sys_ok qe db1"
    "tab db1 = tab (set_state_of (row_uuid r) STARTED db)"
    using store_state_ok [OF m ok r(1), of "set_started now pid j"] j r(2) by auto
  have "(row_links r, Some STARTED) \<in> set (tab (set_state_of (row_uuid r) STARTED db))"
    unfolding tab_row set_state_of_def using r(1) by (intro bexI [of _ "set_row_state STARTED r"]) force+
  then obtain x where "x \<in> set db1" "row_links x = row_links r" "row_state x = Some STARTED"
    unfolding db1(3) [symmetric] tab_row by blast
  with db1 show ?thesis by (auto simp: still_running_def)
qed

lemma try_perform_ok:
  fixes re
  defines "qe \<equiv> re_queue re"
  assumes m: "model_ok qe" and w: "work_ok re" and ok: "sys_ok qe db"
    and r: "r \<in> set db" "row_state r = Some ENQUEUED" and j: "of_row j r"
  shows "of_row (at_job (try_perform_job re j locks db)) r \<and>
    (case at_error (try_perform_job re j locks db) of
       None \<Rightarrow> done_stored qe r (at_committed (try_perform_job re j locks db))
     | Some e \<Rightarrow> still_running qe r (at_committed (try_perform_job re j locks db)) \<and>
         still_running qe r (at_working (try_perform_job re j locks db)))"
proof -
  let ?j1 = "set_started (re_now re) (re_pid re) j"
  obtain db1 where db1: "store_job qe ?j1 db = Inr db1" "still_running qe r db1"
    using started_ok [OF m ok r j] by blast
  have s0: "still_running qe r db" using ok r by (auto simp: still_running_def)
  obtain db2 out where work: "re_work re ?j1 db1 = (db2, out)" by (cases "re_work re ?j1 db1")
  have "sys_ok qe db1" using db1(2) by (simp add: still_running_def)
  with w work have db2: "sys_ok qe db2" "set (tab db1) \<subseteq> set (tab db2)"
    unfolding work_ok_def qe_def by (metis fst_conv)+
  obtain x where x: "x \<in> set db2" "row_links x = row_links r" "row_state x \<in> Some ` {ENQUEUED, STARTED}"
  proof -
    from db1(2) obtain y where y: "y \<in> set db1" "row_links y = row_links r" "row_state y \<in> Some ` {ENQUEUED, STARTED}"
      by (auto simp: still_running_def)
    then have "(row_links y, row_state y) \<in> set (tab db2)" using db2(2) tab_row by blast
    with y(2,3) that show ?thesis unfolding tab_row by force
  qed
  then have s2: "still_running qe r db2" using db2(1) by (auto simp: still_running_def)
  obtain j2 res where p: "perform out ?j1 = (j2, res)" by (cases "perform out ?j1")
  have j2: "of_row j2 r" using perform_fields(1) [of out ?j1 r] p j by simp
  let ?j3 = "set_done (re_now re) None j2"
  have j3: "of_row ?j3 x" using j2 of_row_links [OF x(2)] by simp
  obtain db3 where db3: "store_job qe ?j3 db2 = Inr db3"
    using store_done_ok [OF m db2(1) x(1) j3] by auto
  have d3: "done_stored qe r db3" unfolding done_stored_def using db2(1) x j3 db3 by (metis set_state_state(2))
  show ?thesis
    unfolding try_perform_job_def Let_def qe_def [symmetric] db1(1) sum.case
    using j j2 s0 db1(2) s2 db3 d3 by (auto simp: work p split: option.split sum.split)
qed

section \<open>The whole run\<close>

lemma finish_run_ok:
  assumes m: "model_ok (re_queue re)" and d: "done_stored (re_queue re) r db"
    and e: "\<forall>e\<in>set (re_depends_errors re). re_retry_code re (fst e)" "length (re_depends_errors re) \<le> 5"
  shows "\<exists>db'. finish_run re (row_uuid r) db = (db', Answered) \<and> sys_ok (re_queue re) db' \<and>
    (\<exists>x\<in>set db'. row_links x = row_links r \<and> row_state x = Some DONE)"
proof -
  from d obtain db0 s j where s: "sys_ok (re_queue re) db0" "s \<in> set db0" "row_links s = row_links r"
    "of_row j s" "j_state j = DONE" "store_job (re_queue re) j db0 = Inr db" by (auto simp: done_stored_def)
  have u: "row_uuid s = row_uuid r" using s(3) by (simp add: row_links_def)
  have "enqueue_dependent_jobs (re_retry_code re) (re_depends_errors re) 0 (row_uuid r) db =
      Inr (enqueue_waiting (row_uuid r) db)"
    unfolding enqueue_dependent_jobs_ok using e by simp
  moreover have ok: "sys_ok (re_queue re) (enqueue_waiting (row_uuid r) db)"
    and t: "tab (enqueue_waiting (row_uuid r) db) = tab (enqueue_waiting (row_uuid r) (set_state_of (row_uuid r) DONE db0))"
    using store_done_ok [OF m s(1,2,4,5)] s(6) u by auto
  have x: "set_row_state DONE s \<in> set (set_state_of (row_uuid r) DONE db0)"
    using s(2) u by (force simp: set_state_of_def)
  then have "set_row_state DONE s \<in> set (enqueue_waiting (row_uuid r) (set_state_of (row_uuid r) DONE db0))"
    by (force simp: enqueue_waiting_def dependent_jobs_update_def)
  then have "(row_links r, Some DONE) \<in> set (tab (enqueue_waiting (row_uuid r) db))"
    unfolding t tab_row using s(3) by (intro bexI [of _ "set_row_state DONE s"]) simp_all
  with ok calculation show ?thesis unfolding tab_row by (simp add: finish_run_def)
qed

text \<open>The state a job ends in, by the exception that ended it.\<close>

fun end_state :: "job_exc option \<Rightarrow> JobState" where
  "end_state None = DONE"
| "end_state (Some (NothingToDoJob m)) = DONE"
| "end_state (Some (RetryableJobError m s i)) = PENDING"
| "end_state (Some (FailedJobError m)) = FAILED"
| "end_state (Some (OperationalError c m)) = FAILED"
| "end_state (Some (OtherError n m)) = FAILED"

lemma running_row:
  assumes "still_running qe r db" and "of_row j r"
  obtains x where "x \<in> set db" "row_links x = row_links r" "row_state x \<in> Some ` {ENQUEUED, STARTED}" "of_row j x"
    "sys_ok qe db" "parents_done db x"
proof -
  from assms(1) obtain x where x: "x \<in> set db" "row_links x = row_links r" "row_state x \<in> Some ` {ENQUEUED, STARTED}"
    "sys_ok qe db" by (auto simp: still_running_def)
  moreover have "parents_done db x" using x by (auto simp: sys_ok_def dep_inv_def)
  ultimately show thesis using that assms(2) of_row_links [OF x(2)] by blast
qed

lemma state_row:
  assumes "tab db' = tab (set_state_of (row_uuid x) st db)" and "x \<in> set db" and "row_links x = row_links r"
  shows "\<exists>y\<in>set db'. row_links y = row_links r \<and> row_state y = Some st"
proof -
  have "(row_links r, Some st) \<in> set (tab (set_state_of (row_uuid x) st db))"
    unfolding tab_row set_state_of_def using assms(2,3) by (intro bexI [of _ "set_row_state st x"]) force+
  then show ?thesis unfolding assms(1) [symmetric] tab_row .
qed

lemma retry_postpone_ok:
  assumes m: "model_ok (re_queue re)" and st: "still_running (re_queue re) r db" and j: "of_row j r"
  shows "case get_retry_seconds (re_randint re) s j of
      Inl e \<Rightarrow> retry_postpone re j msg s db = Inl e
    | Inr n \<Rightarrow> \<exists>db'. retry_postpone re j msg s db = Inr db' \<and> sys_ok (re_queue re) db' \<and>
        (\<exists>y\<in>set db'. row_links y = row_links r \<and> row_state y = Some PENDING)"
proof (cases "get_retry_seconds (re_randint re) s j")
  case (Inr n)
  obtain x where x: "x \<in> set db" "row_links x = row_links r" "row_state x \<in> Some ` {ENQUEUED, STARTED}" "of_row j x"
    "sys_ok (re_queue re) db" "parents_done db x" by (rule running_row [OF st j])
  obtain j1 where j1: "postpone (re_randint re) (re_now re) (Some (PStr msg)) s j = Inr j1" "of_row j1 x"
    using Inr x(4) by (auto simp: postpone_def of_row_def set_result_def set_eta_def)
  have nd: "row_state x \<noteq> Some DONE" using x(3) by auto
  obtain lookup db' where "linked_jobs (re_queue re) db j1 = Inr lookup"
    "store_job (re_queue re) (set_pending lookup None False j1) db = Inr db'" "sys_ok (re_queue re) db'"
    "tab db' = tab (set_state_of (row_uuid x) PENDING db)"
    using store_pending_ok [OF m x(5,1) j1(2) nd, of None False] x(6) by auto
  with state_row [OF this(4) x(1,2)] Inr j1(1) show ?thesis by (auto simp: retry_postpone_def)
qed (simp add: retry_postpone_def postpone_def)

lemma run_failed_ok:
  assumes m: "model_ok (re_queue re)" and st: "still_running (re_queue re) r db" and j: "of_row j r"
  shows "\<exists>db'. run_failed re j e db = Inr db' \<and> sys_ok (re_queue re) db' \<and>
    (\<exists>y\<in>set db'. row_links y = row_links r \<and> row_state y = Some FAILED)"
proof -
  obtain x where x: "x \<in> set db" "row_links x = row_links r" "row_state x \<in> Some ` {ENQUEUED, STARTED}" "of_row j x"
    "sys_ok (re_queue re) db" "parents_done db x" by (rule running_row [OF st j])
  obtain n i t where v: "get_failure_values re e = (n, i, t)" by (cases "get_failure_values re e")
  obtain db' where db': "store_job (re_queue re) (set_failed n i t j) db = Inr db'" "sys_ok (re_queue re) db'"
    "tab db' = tab (set_state_of (row_uuid x) FAILED db)"
    using store_state_ok [OF m x(5,1), of "set_failed n i t j"] x(3,4) by auto
  with state_row [OF db'(3) x(1,2)] show ?thesis by (auto simp: run_failed_def v)
qed

lemma handle_attempt_ok:
  fixes re
  defines "qe \<equiv> re_queue re"
  assumes m: "model_ok qe"
    and e: "\<forall>e\<in>set (re_depends_errors re). re_retry_code re (fst e)" "length (re_depends_errors re) \<le> 5"
    and jr: "of_row (at_job at) r"
    and tp: "case at_error at of
       None \<Rightarrow> done_stored qe r (at_committed at)
     | Some e \<Rightarrow> still_running qe r (at_committed at) \<and> still_running qe r (at_working at)"
  shows "sys_ok qe (fst (handle_attempt re (row_uuid r) at)) \<and>
    (case map_option (convert_error re) (at_error at) of
       Some (RetryableJobError m s i) \<Rightarrow>
         if isl (get_retry_seconds (re_randint re) s (at_job at))
         then still_running qe r (fst (handle_attempt re (row_uuid r) at))
         else snd (handle_attempt re (row_uuid r) at) = Answered \<and>
           (\<exists>y\<in>set (fst (handle_attempt re (row_uuid r) at)). row_links y = row_links r \<and> row_state y = Some PENDING)
     | err \<Rightarrow> snd (handle_attempt re (row_uuid r) at) = (if end_state err = FAILED then Raised (the err) else Answered) \<and>
         (\<exists>y\<in>set (fst (handle_attempt re (row_uuid r) at)). row_links y = row_links r \<and> row_state y = Some (end_state err)))"
proof (cases "at_error at")
  case None
  then have "done_stored qe r (at_committed at)" using tp by simp
  from finish_run_ok [OF m [unfolded qe_def] this [unfolded qe_def] e] show ?thesis
    by (auto simp: None handle_attempt_def qe_def)
next
  case (Some e0)
  then have c: "still_running qe r (at_committed at)"
    and wk: "still_running qe r (at_working at)" using tp by simp_all
  have failed: "\<exists>db'. run_failed re (at_job at) e (at_committed at) = Inr db' \<and> sys_ok qe db' \<and>
      (\<exists>y\<in>set db'. row_links y = row_links r \<and> row_state y = Some FAILED)" for e
    using run_failed_ok [OF m [unfolded qe_def] c [unfolded qe_def] jr] by (simp add: qe_def)
  show ?thesis
  proof (cases "convert_error re e0")
    case (RetryableJobError msg s i)
    have c': "sys_ok qe (at_committed at)" using c by (simp add: still_running_def)
    show ?thesis
      using retry_postpone_ok [OF m [unfolded qe_def] c [unfolded qe_def] jr, where s = s and msg = msg] c c'
      by (cases "get_retry_seconds (re_randint re) s (at_job at)")
         (auto simp: Some RetryableJobError handle_attempt_def qe_def)
  next
    case (NothingToDoJob msg)
    let ?j = "set_done (re_now re) (Some (PStr (nothing_to_do_message msg))) (at_job at)"
    obtain x where x: "x \<in> set (at_working at)" "row_links x = row_links r" "of_row (at_job at) x"
      "sys_ok qe (at_working at)" by (rule running_row [OF wk jr])
    obtain db1 where db1: "store_job qe ?j (at_working at) = Inr db1"
      using store_done_ok [OF m x(4,1), of ?j] x(3) by auto
    have "done_stored qe r db1" unfolding done_stored_def using x db1 by (metis set_state_fields(3) set_state_state(2))
    from finish_run_ok [OF m [unfolded qe_def] this [unfolded qe_def] e] show ?thesis
      using db1 by (auto simp: Some NothingToDoJob handle_attempt_def qe_def)
  next
    case (FailedJobError msg)
    then show ?thesis using failed [of "FailedJobError msg"] by (auto simp: Some handle_attempt_def)
  next
    case (OperationalError code msg)
    then show ?thesis using failed [of "OperationalError code msg"] by (auto simp: Some handle_attempt_def)
  next
    case (OtherError n msg)
    then show ?thesis using failed [of "OtherError n msg"] by (auto simp: Some handle_attempt_def)
  qed
qed

text \<open>The attempt at a job that is enqueued, and what the run makes of it.\<close>

lemma runjob_attempt:
  assumes t: "table_ok (re_queue re) db" and r: "r \<in> set db" "row_state r = Some ENQUEUED"
  shows "\<exists>j. load_job (re_queue re) db (row_uuid r) = Inr j \<and> of_row j r \<and>
    runjob re (row_uuid r) locks db =
      (let at = try_perform_job re j locks db
       in (fst (handle_attempt re (row_uuid r) at), at_locks at, snd (handle_attempt re (row_uuid r) at)))"
proof -
  obtain j where j: "load_job (re_queue re) db (row_uuid r) = Inr j" "of_row j r" "j_state j = ENQUEUED"
    using load_job_ok [OF t r(1)] r(2) by (auto simp: of_row_def)
  have "\<exists>s\<in>set db. row_uuid s = row_uuid r \<and> row_state s = Some ENQUEUED" using r by blast
  with j show ?thesis by (simp add: runjob_def Let_def split: prod.split)
qed

lemma runjob_keeps:
  assumes m: "model_ok (re_queue re)" and w: "work_ok re" and ok: "sys_ok (re_queue re) db"
    and e: "\<forall>e\<in>set (re_depends_errors re). re_retry_code re (fst e)" "length (re_depends_errors re) \<le> 5"
  shows "sys_ok (re_queue re) (fst (runjob re u locks db))"
proof (cases "\<exists>r\<in>set db. row_uuid r = u \<and> row_state r = Some ENQUEUED")
  case True
  then obtain r where r: "r \<in> set db" "row_state r = Some ENQUEUED" "row_uuid r = u" by blast
  have t: "table_ok (re_queue re) db" using ok by (simp add: sys_ok_def)
  obtain j where j: "of_row j r" "runjob re (row_uuid r) locks db =
      (let at = try_perform_job re j locks db
       in (fst (handle_attempt re (row_uuid r) at), at_locks at, snd (handle_attempt re (row_uuid r) at)))"
    using runjob_attempt [OF t r(1,2)] by blast
  note tp = try_perform_ok [OF m w ok r(1,2) j(1), of locks]
  from handle_attempt_ok [OF m e conjunct1 [OF tp] conjunct2 [OF tp]] j(2) r(3) show ?thesis
    by (simp add: Let_def)
next
  case False
  then show ?thesis using ok by (simp add: runjob_def)
qed

end
