(* ===== verification/DelayStore.thy ===== *)
theory DelayStore
  imports DelayFacts RunFacts
begin

text \<open>
  What delaying a graph of jobs leaves in the table: the jobs of all its vertices, linked as the edges of
  the graph say, waiting where they have parents and pending where they have none.
\<close>

section \<open>The graph\<close>

lemma merge_all_tidy: "merge_all gs vs t = Inr t' \<Longrightarrow> tidy t \<Longrightarrow> tidy t'"
proof (induction gs vs t rule: merge_all.induct)
  case (2 gs v vs target)
  then obtain g where "graph_of gs (oid v) = Inr g" "merge_all gs vs (merge_graph g target) = Inr t'"
    by (auto simp: rbind_eq_Inr)
  with "2.IH" "2.prems"(2) merge_graph_ok [OF "2.prems"(2), of g] show ?case by blast
qed simp

lemma connect_loop_tidy: "connect_loop gs stack seen t = Inr t' \<Longrightarrow> tidy t \<Longrightarrow> tidy t'"
proof (induction gs stack seen t rule: connect_loop.induct)
  case (2 gs current stack seen t)
  show ?case
  proof (cases "current \<in> set seen")
    case True
    with "2.IH"(1) "2.prems" show ?thesis by simp
  next
    case False
    then obtain g t1 where g: "graph_of gs current = Inr g" "merge_all gs (vertices g) t = Inr t1"
      "connect_loop gs (stack @ map oid (vertices g)) (current # seen) t1 = Inr t'"
      using "2.prems"(1) by (auto simp: rbind_eq_Inr)
    from "2.IH"(2) [OF False g merge_all_tidy [OF g(2) "2.prems"(2)]] show ?thesis .
  qed
qed simp

lemma connect_tidy: "connect_graphs gs i = Inr g \<Longrightarrow> tidy g"
proof -
  assume "connect_graphs gs i = Inr g"
  then obtain g0 where "connect_loop gs [i] [] (merge_graph g0 []) = Inr g"
    by (auto simp: connect_graphs_def rbind_eq_Inr)
  moreover have "tidy []" by (simp add: tidy_def)
  ultimately show ?thesis using connect_loop_tidy merge_graph_ok by blast
qed

lemma set_edges_tidy: "tidy g \<Longrightarrow> set (edges g) = edge_set g"
  by (simp add: tidy_def set_edges)

section \<open>The new jobs\<close>

definition fresh_job :: "(nat \<Rightarrow> job_env) \<Rightarrow> (string \<Rightarrow> string \<Rightarrow> bool) \<Rightarrow> nat \<Rightarrow> Job \<Rightarrow> bool" where
  "fresh_job jenv im v j \<longleftrightarrow> j_uuid j = je_fresh_uuid (jenv v) \<and> j_state j = PENDING \<and>
     j_depends_on_uuids j = [] \<and> j_reverse_depends_on_uuids j = [] \<and> j_graph_uuid j = None \<and>
     im (rs_model (j_recordset j)) (j_method_name j)"

lemma build_job_fresh:
  assumes "build_job (jenv v) im d = Inr (j, d')" and "dd_generated_job d = None"
  shows "fresh_job jenv im v j"
  using assms
  by (auto simp: build_job_def rbind_eq_Inr job_init_def fresh_job_def set_eta_def set_identity_key_def
      split: option.splits if_splits key_arg.splits)

lemma build_all_fresh:
  "build_all jenv im data vs = Inr js \<Longrightarrow> \<forall>v\<in>set vs. dd_generated_job (data v) = None \<Longrightarrow>
    map fst js = vs \<and> (\<forall>(v, j)\<in>set js. fresh_job jenv im v j)"
proof (induction jenv im data vs arbitrary: js rule: build_all.induct)
  case (2 jenv im data v vs)
  then obtain j d' js' where j: "build_job (jenv v) im (data v) = Inr (j, d')"
    "build_all jenv im data vs = Inr js'" "js = (v, j) # js'"
    by (auto simp: rbind_eq_Inr)
  with "2.IH" [OF j(1) refl j(2)] "2.prems"(2) build_job_fresh [of jenv v im "data v" j d'] j(1)
  show ?case by simp
qed simp

section \<open>The dependencies of the new jobs\<close>

text \<open>The jobs after the edges \<open>E\<close>: \<open>U\<close> is the uuid of a vertex.\<close>

definition linked :: "(nat \<Rightarrow> string) \<Rightarrow> (string \<Rightarrow> string \<Rightarrow> bool) \<Rightarrow> string option \<Rightarrow> (nat \<times> nat) set \<Rightarrow> nat \<Rightarrow> Job \<Rightarrow> bool" where
  "linked U im G E v j \<longleftrightarrow> j_uuid j = U v \<and> j_graph_uuid j = G \<and>
     im (rs_model (j_recordset j)) (j_method_name j) \<and>
     set (j_depends_on_uuids j) = U ` {p. (p, v) \<in> E} \<and> set (j_reverse_depends_on_uuids j) = U ` {c. (v, c) \<in> E} \<and>
     j_state j = (if \<exists>p. (p, v) \<in> E then WAIT_DEPENDENCIES else PENDING)"

definition all_linked :: "(nat \<Rightarrow> string) \<Rightarrow> (string \<Rightarrow> string \<Rightarrow> bool) \<Rightarrow> string option \<Rightarrow> nat list \<Rightarrow> (nat \<times> nat) set \<Rightarrow> jobs_of \<Rightarrow> bool" where
  "all_linked U im G vs E js \<longleftrightarrow> map fst js = vs \<and> (\<forall>v\<in>set vs. \<exists>j. map_of js v = Some j \<and> linked U im G E v j) \<and>
     (\<forall>(p, c)\<in>E. p \<in> set vs \<and> c \<in> set vs \<and> p \<noteq> c)"

lemma set_add_uuids: "set (add_uuids us vs) = set us \<union> set vs"
  by (auto simp: add_uuids_def)

lemma add_edge_linked:
  assumes a: "all_linked U im G vs E js" and v: "job_at js p = Inr jp" "job_at js c = Inr jc"
    and d: "add_depends [jp] jc = Inr (jc', ps)"
  shows "all_linked U im G vs (insert (p, c) E) (dict_set c jc' (dict_set p (hd ps) js))"
proof -
  have m: "map_of js p = Some jp" "map_of js c = Some jc"
    using v by (auto simp: job_at_def split: option.splits)
  then have "p \<in> fst ` set js" "c \<in> fst ` set js"
    by (force dest: map_of_SomeD)+
  moreover have "set vs = fst ` set js" using a unfolding all_linked_def by (metis set_map)
  ultimately have pc: "p \<in> set vs" "c \<in> set vs" by simp_all
  then have lp: "linked U im G E p jp" and lc: "linked U im G E c jc" using a m by (auto simp: all_linked_def)
  have ne: "p \<noteq> c" using d m by (auto simp: add_depends_def)
  have st: "j_state jp \<noteq> DONE" using lp by (simp add: linked_def split: if_splits)
  have jc': "jc' = jc\<lparr>j_depends_on_uuids := add_uuids (j_depends_on_uuids jc) [j_uuid jp], j_state := WAIT_DEPENDENCIES\<rparr>"
    and ps: "hd ps = jp\<lparr>j_reverse_depends_on_uuids := add_uuids (j_reverse_depends_on_uuids jp) [j_uuid jc]\<rparr>"
    using d st by (auto simp: add_depends_def split: if_splits)
  have "linked U im G (insert (p, c) E) c jc'"
    using lc lp ne unfolding jc' by (auto simp: linked_def set_add_uuids)
  moreover have "linked U im G (insert (p, c) E) p (hd ps)"
    using lc lp ne unfolding ps by (auto simp: linked_def set_add_uuids)
  moreover have "linked U im G (insert (p, c) E) v j" if "linked U im G E v j" "v \<noteq> p" "v \<noteq> c" for v j
    using that by (simp add: linked_def)
  moreover have "map fst (dict_set c jc' (dict_set p (hd ps) js)) = vs"
    using a pc by (auto simp: all_linked_def map_fst_dict_set fst_dict_set)
  ultimately show ?thesis using a pc ne by (auto simp: all_linked_def)
qed

lemma add_all_linked:
  "add_all_depends es js = Inr js' \<Longrightarrow> all_linked U im G vs E js \<Longrightarrow> all_linked U im G vs (E \<union> set es) js'"
proof (induction es js arbitrary: E rule: add_all_depends.induct)
  case (2 p c es js)
  from "2.prems"(1) obtain jp jc jc' ps where s: "job_at js p = Inr jp" "job_at js c = Inr jc"
    "add_depends [jp] jc = Inr (jc', ps)"
    "add_all_depends es (dict_set c jc' (dict_set p (hd ps) js)) = Inr js'"
    by (auto simp: rbind_eq_Inr)
  from "2.IH" [OF s(1-3) refl s(4) add_edge_linked [OF "2.prems"(2) s(1-3)]] show ?case by simp
qed simp

section \<open>Storing the new jobs\<close>

definition memory_lookup :: "jobs_of \<Rightarrow> string \<Rightarrow> Job option" where
  "memory_lookup js u = find (\<lambda>j. j_uuid j = u) (map snd js)"

definition store_delayed :: "queue_env \<Rightarrow> jobs_of \<Rightarrow> Job \<Rightarrow> table \<Rightarrow> table" where
  "store_delayed qe js j db = store (senv qe (memory_lookup js)) j db"

lemma created_row:
  assumes look: "\<And>u p. lookup u = Some p \<Longrightarrow> j_uuid p = u"
    and m: "qe_is_method qe (rs_model (j_recordset j)) (j_method_name j)" and g: "j_graph_uuid j \<noteq> Some []"
  defines "r \<equiv> store_values (senv qe lookup) True j"
  shows "row_ok qe r \<and> row_uuid r = j_uuid j \<and> row_graph r = j_graph_uuid j \<and> row_state r = Some (j_state j) \<and>
    row_depends_on r = filter (\<lambda>u. lookup u \<noteq> None) (j_depends_on_uuids j) \<and>
    row_reverse_depends_on r = filter (\<lambda>u. lookup u \<noteq> None) (j_reverse_depends_on_uuids j)"
proof -
  have f: "fld k r = fld k (core_values (senv qe lookup) True j)" if "k \<in> set job_keys \<union> set created_keys" for k
    unfolding r_def using that by (rule fld_created)
  note keys = f [unfolded job_keys_def created_keys_def, simplified]
  have "fld ''dependencies'' r = fld ''dependencies'' (core_values (senv qe lookup) True j)"
    by (rule f) (simp add: job_keys_def)
  note deps = row_deps_core [of "senv qe lookup", unfolded senv_def queue_env.simps store_env.simps, OF look
      this [unfolded senv_def]]
  have st: "row_state r = Some (j_state j)" by (simp add: row_state_def keys fld_job_values)
  have gr: "row_graph r = j_graph_uuid j"
    by (simp add: row_graph_def keys fld_job_values split: option.split)
  show ?thesis
    using m g deps st gr by (simp add: row_ok_def keys row_uuid_def fld_core_values)
qed

lemma store_all:
  assumes "\<And>j. j \<in> snd ` set js \<Longrightarrow> row_uuid (store_values (senv qe lookup) True j) = j_uuid j"
    and "distinct (map (j_uuid \<circ> snd) js)" and "row_uuid ` set db \<inter> (j_uuid \<circ> snd) ` set js = {}"
  shows "foldl (\<lambda>db (v, j). store (senv qe lookup) j db) db js = db @ map (store_values (senv qe lookup) True \<circ> snd) js"
  using assms
proof (induction js arbitrary: db)
  case (Cons x js)
  obtain v j where x: "x = (v, j)" by (cases x)
  let ?row = "store_values (senv qe lookup) True j"
  have "j_uuid j \<notin> row_uuid ` set db" using Cons.prems(3) x by simp
  then have st: "store (senv qe lookup) j db = db @ [?row]" unfolding store_def by (simp add: image_iff) metis
  have "row_uuid ?row = j_uuid j" using Cons.prems(1) x by simp
  then have "row_uuid ` set (db @ [?row]) \<inter> (j_uuid \<circ> snd) ` set js = {}"
    using Cons.prems(2,3) x by auto
  from Cons.IH [OF Cons.prems(1) _ this] Cons.prems(2) x st show ?case by simp
qed simp

text \<open>Rows \<open>R v\<close> that are linked among themselves as the edges \<open>E\<close> say, with uuids \<open>U v\<close> that a table does
  not have.\<close>

definition new_rows :: "table \<Rightarrow> (nat \<Rightarrow> string) \<Rightarrow> string option \<Rightarrow> (nat \<times> nat) set \<Rightarrow> nat list \<Rightarrow> (nat \<Rightarrow> row) \<Rightarrow> bool" where
  "new_rows db U G E vs R \<longleftrightarrow>
     distinct vs \<and> inj_on U (set vs) \<and> row_uuid ` set db \<inter> U ` set vs = {} \<and>
     (\<forall>(p, c)\<in>E. p \<in> set vs \<and> c \<in> set vs \<and> p \<noteq> c \<and> G \<noteq> None) \<and>
     (\<forall>v\<in>set vs. row_uuid (R v) = U v \<and> row_graph (R v) = G \<and>
        set (row_depends_on (R v)) = U ` {p. (p, v) \<in> E} \<and> set (row_reverse_depends_on (R v)) = U ` {c. (v, c) \<in> E} \<and>
        row_state (R v) = Some (if \<exists>p. (p, v) \<in> E then WAIT_DEPENDENCIES else PENDING))"

lemma new_rowsD:
  assumes "new_rows db U G E vs R"
  shows "distinct vs" and "inj_on U (set vs)" and "row_uuid ` set db \<inter> U ` set vs = {}"
    and "(p, c) \<in> E \<Longrightarrow> p \<in> set vs \<and> c \<in> set vs \<and> p \<noteq> c \<and> G \<noteq> None"
    and "v \<in> set vs \<Longrightarrow> row_uuid (R v) = U v"
    and "v \<in> set vs \<Longrightarrow> row_graph (R v) = G"
    and "v \<in> set vs \<Longrightarrow> set (row_depends_on (R v)) = U ` {p. (p, v) \<in> E}"
    and "v \<in> set vs \<Longrightarrow> set (row_reverse_depends_on (R v)) = U ` {c. (v, c) \<in> E}"
    and "v \<in> set vs \<Longrightarrow> row_state (R v) = Some (if \<exists>p. (p, v) \<in> E then WAIT_DEPENDENCIES else PENDING)"
  using assms unfolding new_rows_def by blast+

lemma new_rows_distinct:
  assumes n: "new_rows db U G E vs R" and l: "links_ok db"
  shows "distinct (map row_uuid (db @ map R vs))"
proof -
  have u: "map row_uuid (map R vs) = map U vs" using new_rowsD(5) [OF n] by simp
  have "distinct (map U vs)" using new_rowsD(1,2) [OF n] by (simp add: distinct_map)
  moreover have "distinct (map row_uuid db)" using l by (simp add: links_ok_def)
  moreover have "set (map row_uuid db) \<inter> set (map U vs) = {}" using new_rowsD(3) [OF n] by simp
  ultimately show ?thesis unfolding map_append u distinct_append by blast
qed

lemma new_rows_links:
  assumes n: "new_rows db U G E vs R" and v: "v \<in> set vs"
  shows "row_uuid (R v) \<notin> set (row_depends_on (R v)) \<and>
    (\<forall>u\<in>set (row_depends_on (R v)). \<exists>p\<in>set vs. row_uuid (R p) = u \<and> same_graph (R v) (R p) \<and>
       row_uuid (R v) \<in> set (row_reverse_depends_on (R p))) \<and>
    (\<forall>u\<in>set (row_reverse_depends_on (R v)). \<exists>c\<in>set vs. row_uuid (R c) = u \<and> same_graph (R c) (R v) \<and>
       row_uuid (R v) \<in> set (row_depends_on (R c)))"
proof (intro conjI ballI)
  note d = new_rowsD [OF n]
  show "row_uuid (R v) \<notin> set (row_depends_on (R v))"
  proof
    assume "row_uuid (R v) \<in> set (row_depends_on (R v))"
    then obtain p where p: "(p, v) \<in> E" "U v = U p" unfolding d(5) [OF v] d(7) [OF v] by blast
    with d(4) [OF p(1)] inj_onD [OF d(2) p(2)] show False by blast
  qed
  show "\<exists>p\<in>set vs. row_uuid (R p) = u \<and> same_graph (R v) (R p) \<and> row_uuid (R v) \<in> set (row_reverse_depends_on (R p))"
    if u: "u \<in> set (row_depends_on (R v))" for u
  proof -
    obtain p where p: "(p, v) \<in> E" "u = U p" using u unfolding d(7) [OF v] by blast
    from d(4) [OF p(1)] have e: "p \<in> set vs" "G \<noteq> None" by simp_all
    show ?thesis
      using p by (intro bexI [of _ p]) (simp_all add: same_graph_def d(5,6,8) [OF e(1)] d(5,6) [OF v] e)
  qed
  show "\<exists>c\<in>set vs. row_uuid (R c) = u \<and> same_graph (R c) (R v) \<and> row_uuid (R v) \<in> set (row_depends_on (R c))"
    if u: "u \<in> set (row_reverse_depends_on (R v))" for u
  proof -
    obtain c where c: "(v, c) \<in> E" "u = U c" using u unfolding d(8) [OF v] by blast
    from d(4) [OF c(1)] have e: "c \<in> set vs" "G \<noteq> None" by simp_all
    show ?thesis
      using c by (intro bexI [of _ c]) (simp_all add: same_graph_def d(5,6,7) [OF e(1)] d(5,6) [OF v] e)
  qed
qed

lemma append_links:
  assumes n: "new_rows db U G E vs R" and l: "links_ok db"
  shows "links_ok (db @ map R vs)"
  unfolding links_ok_def
proof (intro conjI new_rows_distinct [OF n l] ballI)
  fix r assume r: "r \<in> set (db @ map R vs)"
  show "row_uuid r \<notin> set (row_depends_on r)"
    using r l new_rows_links [OF n] unfolding links_ok_def set_append set_map by blast
  show "\<exists>p\<in>set (db @ map R vs). row_uuid p = u \<and> same_graph r p \<and> row_uuid r \<in> set (row_reverse_depends_on p)"
    if u: "u \<in> set (row_depends_on r)" for u
  proof (cases "r \<in> set db")
    case True
    from parent_exists [OF l True u] show ?thesis unfolding set_append by blast
  next
    case False
    then obtain v where v: "v \<in> set vs" "r = R v" using r by auto
    from new_rows_links [OF n v(1)] u v(2) show ?thesis unfolding set_append set_map by blast
  qed
  show "\<exists>c\<in>set (db @ map R vs). row_uuid c = u \<and> same_graph c r \<and> row_uuid r \<in> set (row_depends_on c)"
    if u: "u \<in> set (row_reverse_depends_on r)" for u
  proof (cases "r \<in> set db")
    case True
    from child_exists [OF l True u] show ?thesis unfolding set_append by blast
  next
    case False
    then obtain v where v: "v \<in> set vs" "r = R v" using r by auto
    from new_rows_links [OF n v(1)] u v(2) show ?thesis unfolding set_append set_map by blast
  qed
qed

lemma old_parents_done:
  assumes n: "new_rows db U G E vs R" and l: "links_ok db" and r: "r \<in> set db"
  shows "parents_done (db @ map R vs) r \<longleftrightarrow> parents_done db r"
proof -
  have "row_uuid (R v) \<notin> set (row_depends_on r)" if v: "v \<in> set vs" for v
  proof
    assume u: "row_uuid (R v) \<in> set (row_depends_on r)"
    from parent_exists [OF l r u] have "row_uuid (R v) \<in> row_uuid ` set db" by (auto intro: rev_image_eqI)
    then show False using new_rowsD(3) [OF n] v unfolding new_rowsD(5) [OF n v] by blast
  qed
  then show ?thesis unfolding parents_done_alt by auto
qed

lemma new_row_state:
  assumes n: "new_rows db U G E vs R" and v: "v \<in> set vs"
  shows "row_state (R v) = Some PENDING \<and> row_depends_on (R v) = [] \<or>
    row_state (R v) = Some WAIT_DEPENDENCIES \<and> (\<exists>p\<in>set vs. row_uuid (R p) \<in> set (row_depends_on (R v)))"
proof (cases "\<exists>p. (p, v) \<in> E")
  case True
  then obtain p where p: "(p, v) \<in> E" by blast
  then have "p \<in> set vs" using new_rowsD(4) [OF n p] by simp
  with p True show ?thesis
    using new_rowsD(5) [OF n, of p] new_rowsD(7,9) [OF n v] by (intro disjI2) auto
next
  case False
  then have "set (row_depends_on (R v)) = {}" using new_rowsD(7) [OF n v] by auto
  with False show ?thesis using new_rowsD(9) [OF n v] by (intro disjI1) simp
qed

lemma append_dep_inv:
  assumes n: "new_rows db U G E vs R" and l: "links_ok db" and i: "dep_inv db"
  shows "dep_inv (db @ map R vs)"
  unfolding dep_inv_def
proof (intro ballI conjI impI)
  fix r assume r: "r \<in> set (db @ map R vs)"
  have nd: "row_state (R p) \<noteq> Some DONE" if "p \<in> set vs" for p using new_row_state [OF n that] by auto
  show "parents_done (db @ map R vs) r" if a: "row_state r \<in> Some ` {PENDING, ENQUEUED, STARTED}"
  proof (cases "r \<in> set db")
    case True
    then show ?thesis using old_parents_done [OF n l True] i a by (auto simp: dep_inv_def)
  next
    case False
    then obtain v where v: "v \<in> set vs" "r = R v" using r by auto
    with new_row_state [OF n v(1)] a show ?thesis by (auto simp: parents_done_alt)
  qed
  show "\<not> parents_done (db @ map R vs) r" if w: "row_state r = Some WAIT_DEPENDENCIES"
  proof (cases "r \<in> set db")
    case True
    then show ?thesis using old_parents_done [OF n l True] i w by (simp add: dep_inv_def)
  next
    case False
    then obtain v where v: "v \<in> set vs" "r = R v" using r by auto
    then obtain p where "p \<in> set vs" "row_uuid (R p) \<in> set (row_depends_on r)"
      using new_row_state [OF n v(1)] w by auto
    with nd show ?thesis unfolding parents_done_alt by auto
  qed
qed

section \<open>Delaying a graph\<close>

lemma stored_jobs_ok:
  assumes ok: "sys_ok qe db" and l: "all_linked U (qe_is_method qe) G vs E js" and d: "distinct vs"
    and inj: "inj_on U (set vs)" and new: "row_uuid ` set db \<inter> U ` set vs = {}"
    and g: "G \<noteq> Some []" "E \<noteq> {} \<Longrightarrow> G \<noteq> None"
  shows "\<exists>R. foldl (\<lambda>db (v, j). store_delayed qe js j db) db js = db @ map R vs \<and>
    new_rows db U G E vs R \<and> sys_ok qe (db @ map R vs)"
proof -
  define lookup where "lookup = memory_lookup js"
  define R where "R v = store_values (senv qe lookup) True (the (map_of js v))" for v
  have fs: "map fst js = vs" using l by (simp add: all_linked_def)
  then have dj: "distinct (map fst js)" using d by simp
  have job: "map_of js v = Some (the (map_of js v)) \<and> linked U (qe_is_method qe) G E v (the (map_of js v))"
    if "v \<in> set vs" for v
    using l that by (auto simp: all_linked_def)
  have mem: "v \<in> set vs \<and> j = the (map_of js v)" if "(v, j) \<in> set js" for v j
    using that dj fs by force
  have look: "j_uuid p = u" if "lookup u = Some p" for u p
    using conjunct2 [OF find_SomeD [OF that [unfolded lookup_def memory_lookup_def]]] .
  have found: "lookup (U v) \<noteq> None" if v: "v \<in> set vs" for v
  proof -
    have "the (map_of js v) \<in> set (map snd js)" using map_of_SomeD [OF conjunct1 [OF job [OF v]]] by force
    moreover have "j_uuid (the (map_of js v)) = U v" using job [OF v] by (simp add: linked_def)
    ultimately show ?thesis unfolding lookup_def memory_lookup_def find_None_iff by blast
  qed
  have row: "row_ok qe (R v) \<and> row_uuid (R v) = U v \<and> row_graph (R v) = G \<and>
      set (row_depends_on (R v)) = U ` {p. (p, v) \<in> E} \<and> set (row_reverse_depends_on (R v)) = U ` {c. (v, c) \<in> E} \<and>
      row_state (R v) = Some (if \<exists>p. (p, v) \<in> E then WAIT_DEPENDENCIES else PENDING)" if v: "v \<in> set vs" for v
  proof -
    let ?j = "the (map_of js v)"
    have lj: "linked U (qe_is_method qe) G E v ?j" using job [OF v] by simp
    have e: "p \<in> set vs \<and> c \<in> set vs" if "(p, c) \<in> E" for p c using l that by (auto simp: all_linked_def)
    have c: "row_ok qe (R v) \<and> row_uuid (R v) = j_uuid ?j \<and> row_graph (R v) = j_graph_uuid ?j \<and>
      row_state (R v) = Some (j_state ?j) \<and>
      row_depends_on (R v) = filter (\<lambda>u. lookup u \<noteq> None) (j_depends_on_uuids ?j) \<and>
      row_reverse_depends_on (R v) = filter (\<lambda>u. lookup u \<noteq> None) (j_reverse_depends_on_uuids ?j)"
      unfolding R_def by (rule created_row [OF look]) (use lj g(1) in \<open>simp_all add: linked_def\<close>)
    have "filter (\<lambda>u. lookup u \<noteq> None) (j_depends_on_uuids ?j) = j_depends_on_uuids ?j"
      "filter (\<lambda>u. lookup u \<noteq> None) (j_reverse_depends_on_uuids ?j) = j_reverse_depends_on_uuids ?j"
      using lj e found by (auto simp: filter_id_conv linked_def)
    with c lj show ?thesis by (simp add: linked_def)
  qed
  have n: "new_rows db U G E vs R"
    unfolding new_rows_def
  proof (intro conjI d inj new ballI)
    show "case e of (p, c) \<Rightarrow> p \<in> set vs \<and> c \<in> set vs \<and> p \<noteq> c \<and> G \<noteq> None" if "e \<in> E" for e
      using l g(2) that by (auto simp: all_linked_def)
  qed (use row in blast)+
  have "foldl (\<lambda>db (v, j). store (senv qe lookup) j db) db js = db @ map (store_values (senv qe lookup) True \<circ> snd) js"
  proof (rule store_all)
    show "row_uuid (store_values (senv qe lookup) True j) = j_uuid j" if j: "j \<in> snd ` set js" for j
    proof -
      obtain v where "(v, j) \<in> set js" using j by auto
      from mem [OF this] row [of v] job [of v] show ?thesis by (auto simp: R_def linked_def)
    qed
    have ju: "j_uuid j = U v" if vj: "(v, j) \<in> set js" for v j
      using mem [OF vj] job [of v] by (simp add: linked_def)
    have u: "map (j_uuid \<circ> snd) js = map U vs"
      unfolding fs [symmetric] using ju by auto
    show "distinct (map (j_uuid \<circ> snd) js)" unfolding u using d inj by (simp add: distinct_map)
    show "row_uuid ` set db \<inter> (j_uuid \<circ> snd) ` set js = {}" using new u by (metis set_map)
  qed
  also have "map (store_values (senv qe lookup) True \<circ> snd) js = map R vs"
    unfolding fs [symmetric] R_def using mem by auto
  finally have st: "foldl (\<lambda>db (v, j). store_delayed qe js j db) db js = db @ map R vs"
    by (simp add: store_delayed_def lookup_def)
  have "table_ok qe (db @ map R vs)"
    using append_links [OF n sys_links [OF ok]] ok row by (auto simp: table_ok_def sys_ok_def)
  moreover have "dep_inv (db @ map R vs)"
    using append_dep_inv [OF n sys_links [OF ok]] ok by (simp add: sys_ok_def)
  ultimately show ?thesis using st n by (auto simp: sys_ok_def)
qed

text \<open>What is assumed of a graph that is delayed: its single delayables have not been delayed before, and the
  uuids that are drawn are new and distinct.\<close>

definition fresh_env :: "delay_env \<Rightarrow> (nat \<Rightarrow> delayable_data) \<Rightarrow> nat list \<Rightarrow> table \<Rightarrow> bool" where
  "fresh_env env data vs db \<longleftrightarrow> (\<forall>v\<in>set vs. dd_generated_job (data v) = None) \<and>
     inj_on (\<lambda>v. je_fresh_uuid (de_jenv env v)) (set vs) \<and>
     row_uuid ` set db \<inter> (\<lambda>v. je_fresh_uuid (de_jenv env v)) ` set vs = {} \<and> de_fresh_graph env \<noteq> []"

lemma delay_ok:
  assumes ok: "sys_ok qe db" and im: "de_is_method env = qe_is_method qe"
    and r: "delay env (store_delayed qe) data gs i db = Inr (Stored, js, db')"
    and g: "connect_graphs gs i = Inr g" and f: "fresh_env env data (vertices g) db"
  shows "\<exists>R. db' = db @ map R (vertices g) \<and> sys_ok qe db' \<and>
    new_rows db (\<lambda>v. je_fresh_uuid (de_jenv env v)) (if length g = 1 then None else Some (de_fresh_graph env))
      (edge_set g) (vertices g) R"
proof -
  let ?vs = "vertices g" and ?U = "\<lambda>v. je_fresh_uuid (de_jenv env v)"
  let ?G = "if length g = 1 then None else Some (de_fresh_graph env)"
  have t: "tidy g" using g by (rule connect_tidy)
  then have d: "distinct ?vs" by (simp add: tidy_def vertices_def)
  have len: "length ?vs = length g" by (simp add: vertices_def)
  obtain js0 jobs where b: "build_all (de_jenv env) (de_is_method env) data ?vs = Inr js0"
    and e: "ensure_same_graph_uuid (de_fresh_graph env) (map snd js0) = Inr jobs"
    and a: "add_all_depends (edges g) (zip ?vs jobs) = Inr js"
    and db': "db' = foldl (\<lambda>db (v, j). store_delayed qe js j db) db js"
    using r g by (auto simp: delay_def rbind_eq_Inr Let_def split: if_splits list.splits) (metis list.exhaust prod.exhaust)
  have fr: "map fst js0 = ?vs" "\<forall>(v, j)\<in>set js0. fresh_job (de_jenv env) (de_is_method env) v j"
    using build_all_fresh [OF b] f by (simp_all add: fresh_env_def)
  then have ns: "\<forall>j\<in>set (map snd js0). \<not> graph_set j" by (auto simp: fresh_job_def graph_set_def)
  then have fl: "filter graph_set (map snd js0) = []" by (simp add: filter_empty_conv)
  have l0: "length js0 = length g" using arg_cong [OF fr(1), of length] len by simp
  have jobs: "jobs = map (\<lambda>j. j\<lparr>j_graph_uuid := ?G\<rparr>) (map snd js0)"
  proof -
    have "jobs = (if length js0 = 1 then map snd js0
        else map (\<lambda>j. j\<lparr>j_graph_uuid := Some (de_fresh_graph env)\<rparr>) (map snd js0))"
      using e unfolding ensure_same_graph_uuid_ok fl by (auto split: if_splits)
    moreover have "j\<lparr>j_graph_uuid := None\<rparr> = j" if "j \<in> set (map snd js0)" for j
      using that fr(2) by (auto simp: fresh_job_def)
    then have "map (\<lambda>j. j\<lparr>j_graph_uuid := None\<rparr>) (map snd js0) = map snd js0" by (rule map_idI)
    ultimately show ?thesis using l0 by simp
  qed
  have l: "all_linked ?U (qe_is_method qe) ?G ?vs {} (zip ?vs jobs)"
  proof -
    have z: "zip ?vs jobs = map (\<lambda>(v, j). (v, j\<lparr>j_graph_uuid := ?G\<rparr>)) js0"
      unfolding jobs fr(1) [symmetric] by (induction js0) auto
    have "linked ?U (qe_is_method qe) ?G {} v (j\<lparr>j_graph_uuid := ?G\<rparr>)" if "(v, j) \<in> set js0" for v j
      using that fr(2) im by (auto simp: fresh_job_def linked_def)
    then have lk: "linked ?U (qe_is_method qe) ?G {} v j" if "(v, j) \<in> set (zip ?vs jobs)" for v j
      using that unfolding z by auto
    have fz: "map fst (zip ?vs jobs) = ?vs" using fr(1) by (simp only: z map_map comp_def split_beta fst_conv)
    have "\<exists>j. map_of (zip ?vs jobs) v = Some j \<and> linked ?U (qe_is_method qe) ?G {} v j" if v: "v \<in> set ?vs" for v
    proof -
      obtain j where "map_of (zip ?vs jobs) v = Some j"
        using v fz by (metis map_of_eq_None_iff not_None_eq set_map)
      with lk [OF map_of_SomeD [OF this]] show ?thesis by blast
    qed
    with fz show ?thesis unfolding all_linked_def by blast
  qed
  have l1: "all_linked ?U (qe_is_method qe) ?G ?vs (edge_set g) js"
    using add_all_linked [OF a l] set_edges_tidy [OF t] by simp
  have "?G \<noteq> None" if ne: "edge_set g \<noteq> {}"
  proof -
    obtain p c where "p \<in> set ?vs" "c \<in> set ?vs" "p \<noteq> c" using ne l1 unfolding all_linked_def by fast
    then have "length ?vs \<noteq> 1" by (auto simp: length_Suc_conv)
    then show ?thesis using len by simp
  qed
  moreover have "?G \<noteq> Some []" using f by (simp add: fresh_env_def)
  ultimately show ?thesis
    using stored_jobs_ok [OF ok l1 d] f unfolding db' fresh_env_def by (metis (no_types, lifting))
qed

lemma delay_other:
  "delay env sj data gs i db = Inr (out, js, db') \<Longrightarrow> out \<noteq> Stored \<Longrightarrow> db' = db"
  by (auto simp: delay_def rbind_eq_Inr Let_def split: if_splits list.splits) (metis list.exhaust prod.exhaust)

end
