(* ===== verification/JobSystem.thy ===== *)
theory JobSystem
  imports DelayStore
begin

text \<open>
  All that happens to the table of the jobs, as one transition system that starts with the empty table, and
  its invariant.
\<close>

text \<open>
  A user may set any job done. A job that is done may not be cancelled or put back, as its children may
  have started since; the code itself does not refuse this. A run ends properly: what is retried of the
  update of the dependent jobs succeeds in the end. The environment of an operation holds the clock and the
  user, and agrees with the others on the methods that exist.
\<close>

datatype job_event =
    DelayGraph delay_env queue_env "nat \<Rightarrow> delayable_data" graphs nat
  | SetEnqueued int string
  | RunJob run_env string "string list"
  | ButtonDone queue_env string "string list"
  | ButtonCancelled queue_env string "string list"
  | Requeue queue_env "string list"
  | RequeueDead int int "string list" "string list"

definition env_ok :: "(string \<Rightarrow> string \<Rightarrow> bool) \<Rightarrow> queue_env \<Rightarrow> bool" where
  "env_ok is_method qe \<longleftrightarrow> model_ok qe \<and> qe_is_method qe = is_method"

definition run_env_ok :: "(string \<Rightarrow> string \<Rightarrow> bool) \<Rightarrow> run_env \<Rightarrow> bool" where
  "run_env_ok is_method re \<longleftrightarrow> env_ok is_method (re_queue re) \<and> work_ok re \<and>
     (\<forall>e\<in>set (re_depends_errors re). re_retry_code re (fst e)) \<and>
     length (re_depends_errors re) \<le> DEPENDS_MAX_TRIES_ON_CONCURRENCY_FAILURE"

fun job_step :: "(string \<Rightarrow> string \<Rightarrow> bool) \<Rightarrow> table \<Rightarrow> job_event \<Rightarrow> table \<Rightarrow> bool" where
  "job_step im db (DelayGraph env qe data gs i) db' \<longleftrightarrow>
     env_ok im qe \<and> de_is_method env = im \<and>
     (\<exists>g out js. connect_graphs gs i = Inr g \<and> fresh_env env data (vertices g) db \<and>
        delay env (store_delayed qe) data gs i db = Inr (out, js, db'))"
| "job_step im db (SetEnqueued now u) db' \<longleftrightarrow>
     no_done [u] db \<and> (\<forall>r\<in>set db. row_uuid r = u \<longrightarrow> row_state r = Some PENDING) \<and> db' = set_job_enqueued now u db"
| "job_step im db (RunJob re u locks) db' \<longleftrightarrow> run_env_ok im re \<and> db' = fst (runjob re u locks db)"
| "job_step im db (ButtonDone qe user us) db' \<longleftrightarrow> env_ok im qe \<and> button_done qe user us db = Inr db'"
| "job_step im db (ButtonCancelled qe user us) db' \<longleftrightarrow>
     env_ok im qe \<and> no_done us db \<and> button_cancelled qe user us db = Inr db'"
| "job_step im db (Requeue qe us) db' \<longleftrightarrow> env_ok im qe \<and> no_done us db \<and> requeue qe us db = Inr db'"
| "job_step im db (RequeueDead buffer now locks held) db' \<longleftrightarrow>
     db' = db_table (requeue_dead_jobs buffer now
       \<lparr>db_table = db, db_locks = locks, db_held = held, db_notifies = [], db_has_queue_job = True\<rparr>)"


definition jobs_ok_inv :: "(string \<Rightarrow> string \<Rightarrow> bool) \<Rightarrow> table \<Rightarrow> bool" where
  "jobs_ok_inv im db \<longleftrightarrow> (\<exists>qe. env_ok im qe \<and> sys_ok qe db)"

lemma row_ok_methods: "qe_is_method qe = qe_is_method qe' \<Longrightarrow> row_ok qe = row_ok qe'"
  by (simp add: row_ok_def fun_eq_iff)

lemma sys_ok_methods: "qe_is_method qe = qe_is_method qe' \<Longrightarrow> sys_ok qe db = sys_ok qe' db"
  unfolding sys_ok_def table_ok_def by (drule row_ok_methods) simp

lemma jobs_ok_env:
  assumes "jobs_ok_inv im db" and "env_ok im qe"
  shows "sys_ok qe db"
proof -
  obtain q where q: "env_ok im q" "sys_ok q db" using assms(1) unfolding jobs_ok_inv_def by blast
  have "qe_is_method q = qe_is_method qe" using q(1) assms(2) by (simp only: env_ok_def)
  from sys_ok_methods [OF this, of db] q(2) show ?thesis by (rule iffD1)
qed

lemma job_step_inv:
  assumes inv: "jobs_ok_inv im db" and st: "job_step im db ev db'"
  shows "jobs_ok_inv im db'"
proof -
  obtain qe0 where q0: "env_ok im qe0" "sys_ok qe0 db" using inv by (auto simp: jobs_ok_inv_def)
  have sys: "sys_ok qe db" if "env_ok im qe" for qe using jobs_ok_env [OF inv that] .
  show ?thesis
  proof (cases ev)
    case (DelayGraph env qe data gs i)
    then obtain g out js where d: "env_ok im qe" "de_is_method env = im" "connect_graphs gs i = Inr g"
      "fresh_env env data (vertices g) db" "delay env (store_delayed qe) data gs i db = Inr (out, js, db')"
      using st by auto
    have m: "de_is_method env = qe_is_method qe" using d(1,2) by (simp add: env_ok_def)
    have "sys_ok qe db'"
    proof (cases "out = Stored")
      case True
      from delay_ok [OF sys [OF d(1)] m d(5) [unfolded True] d(3,4)] show ?thesis by blast
    next
      case False
      with delay_other [OF d(5)] sys [OF d(1)] show ?thesis by simp
    qed
    with d(1) show ?thesis by (auto simp: jobs_ok_inv_def)
  next
    case (SetEnqueued now u)
    then show ?thesis
      using st q0(1) set_job_enqueued_ok [OF q0(2), of u now] by (auto simp: jobs_ok_inv_def)
  next
    case (RunJob re u locks)
    then have re: "run_env_ok im re" "db' = fst (runjob re u locks db)" using st by simp_all
    then have e: "env_ok im (re_queue re)" by (simp add: run_env_ok_def)
    have "sys_ok (re_queue re) db'"
      unfolding re(2) using re(1) e sys [OF e]
      by (intro runjob_keeps) (simp_all add: run_env_ok_def env_ok_def DEPENDS_MAX_TRIES_ON_CONCURRENCY_FAILURE_def)
    with e show ?thesis by (auto simp: jobs_ok_inv_def)
  next
    case (ButtonDone qe user us)
    then have e: "env_ok im qe" "button_done qe user us db = Inr db'" using st by simp_all
    have "sys_ok qe db'"
      by (rule change_job_state_ok [OF _ sys [OF e(1)] _ _ e(2) [unfolded button_done_def]])
         (use e(1) in \<open>simp_all add: env_ok_def\<close>)
    with e show ?thesis by (auto simp: jobs_ok_inv_def)
  next
    case (ButtonCancelled qe user us)
    then have e: "env_ok im qe" "no_done us db" "button_cancelled qe user us db = Inr db'" using st by simp_all
    have "sys_ok qe db'"
      by (rule change_job_state_ok [OF _ sys [OF e(1)] _ e(2) e(3) [unfolded button_cancelled_def]])
         (use e(1) in \<open>simp_all add: env_ok_def\<close>)
    with e show ?thesis by (auto simp: jobs_ok_inv_def)
  next
    case (Requeue qe us)
    then have e: "env_ok im qe" "no_done us db" "requeue qe us db = Inr db'" using st by simp_all
    have n: "no_done (filter P us) db" for P using e(2) by (auto simp: no_done_def)
    have "sys_ok qe db'"
      by (rule change_job_state_ok [OF _ sys [OF e(1)] _ n e(3) [unfolded requeue_def]])
         (use e(1) in \<open>simp_all add: env_ok_def\<close>)
    with e show ?thesis by (auto simp: jobs_ok_inv_def)
  next
    case (RequeueDead buffer now locks held)
    have "sys_ok qe0 db'"
      using requeue_dead_jobs_ok [of qe0 "\<lparr>db_table = db, db_locks = locks, db_held = held, db_notifies = [],
        db_has_queue_job = True\<rparr>" buffer now] q0(2) st RequeueDead by simp
    with q0(1) show ?thesis by (auto simp: jobs_ok_inv_def)
  qed
qed

definition job_start :: "table \<Rightarrow> bool" where
  "job_start db \<longleftrightarrow> db = []"

lemma job_start_inv: "job_start db \<Longrightarrow> jobs_ok_inv im db"
proof -
  assume d: "job_start db"
  obtain qe :: queue_env where q: "qe_is_method qe = im" "qe_from_model qe = (\<lambda>_. [])"
    by (metis queue_env.select_convs(2,8))
  then have "env_ok im qe" by (simp add: env_ok_def model_ok_def)
  moreover have "sys_ok qe db"
    using d by (simp add: job_start_def sys_ok_def table_ok_def links_ok_def dep_inv_def)
  ultimately show ?thesis by (auto simp: jobs_ok_inv_def)
qed

interpretation jobs: invariant_system job_start "job_step im" "jobs_ok_inv im" for im
  by unfold_locales (blast intro: job_start_inv job_step_inv)+

definition job_reachable :: "(string \<Rightarrow> string \<Rightarrow> bool) \<Rightarrow> table \<Rightarrow> bool" where
  "job_reachable im db \<longleftrightarrow> reachable job_start (job_step im) db"

lemma jobs_reachable_inv: "job_reachable im db \<Longrightarrow> jobs_ok_inv im db"
  unfolding job_reachable_def by (rule jobs.inv_reachable)

end
