(* ===== verification/JobBase.thy ===== *)
theory JobBase
  imports Delay
begin

text \<open>
  The methods that \<open>queue_job/models/base.py\<close> adds to every model: how a delayable is made, when a patched
  method is delayed instead of called, and the part of the context that goes with a job.
\<close>

section \<open>Delayables of records\<close>

definition job_options_init :: job_args where
  "job_options_init =
     \<lparr>ja_args = PNone, ja_kwargs = PNone, ja_priority = None, ja_eta = NoEta, ja_job_uuid = None,
      ja_max_retries = None, ja_description = None, ja_channel = None, ja_identity_key = NoKey\<rparr>"

definition delayable_of :: "recordset \<Rightarrow> job_args \<Rightarrow> delayable_data" where
  "delayable_of self options = delayable_init self options"

text \<open>A method that is called on the result of \<open>with_delay\<close> makes the delayable, calls the method on it and
  delays it at once: the data of the one delayable, and the graph of it alone.\<close>

definition with_delay ::
  "(string \<Rightarrow> string set) \<Rightarrow> (string \<Rightarrow> string set) \<Rightarrow> recordset \<Rightarrow> job_args \<Rightarrow> string \<Rightarrow> pyval list \<Rightarrow> fields \<Rightarrow>
   nat \<Rightarrow> (delayable_data \<times> graphs) result" where
  "with_delay model_fields model_attrs self options method args kwargs i =
     rbind (call_method model_fields model_attrs method args kwargs (delayable_of self options)) (\<lambda>d.
     Inr (d, snd (new_single i [])))"

section \<open>Automatic delay\<close>

datatype auto_call = CallOrigin | DelayWith "property list"

text \<open>The wrapper that \<open>_patch_job_auto_delay\<close> makes; the options are those of the method named after the
  patched one, if the model has it.\<close>

definition auto_delay_wrapper ::
  "(string \<Rightarrow> string option) \<Rightarrow> fields \<Rightarrow> string option \<Rightarrow> property list option \<Rightarrow> auto_call" where
  "auto_delay_wrapper getenv context context_key job_options =
     (let context_delay =
            (case context_key of
               Some (c # cs) \<Rightarrow> py_true (dict_get PNone context (c # cs))
             | _ \<Rightarrow> True)
      in if py_true (dict_get PNone context ''job_uuid'') \<or> \<not> context_delay \<or> must_run_without_delay getenv context
         then CallOrigin
         else DelayWith (case job_options of None \<Rightarrow> [] | Some ps \<Rightarrow> ps))"

section \<open>Hooks\<close>

definition job_store_values :: "Job \<Rightarrow> fields" where
  "job_store_values j = []"

definition context_keys :: "string list" where
  "context_keys = [''tz'', ''lang'', ''allowed_company_ids'', ''force_company'', ''active_test'']"

definition job_prepare_context_before_enqueue :: "fields \<Rightarrow> fields" where
  "job_prepare_context_before_enqueue context = filter (\<lambda>(k, v). k \<in> set context_keys) context"

text \<open>\<open>_store_values_from_model\<close>: the hooks of the model that exist, the general one last.\<close>

definition store_values_from_model :: "(string \<Rightarrow> (Job \<Rightarrow> fields) option) \<Rightarrow> Job \<Rightarrow> fields" where
  "store_values_from_model handler j =
     foldl (\<lambda>vals candidate. case handler candidate of None \<Rightarrow> vals | Some f \<Rightarrow> f j) []
       [''_job_store_values_for_'' @ j_method_name j, ''_job_store_values'']"

end
