(* ===== verification/TestJobs.thy ===== *)
theory TestJobs
  imports JobBase QueueJob
begin

text \<open>
  The test jobs of \<open>queue_job/controllers/main.py\<close>, the wizards of \<open>queue_job/wizards\<close> that change the state
  of many jobs, and the trigger of \<open>queue_job/post_init_hook.py\<close> that notifies the runner. What \<open>random\<close>
  draws is given as functions of the round.
\<close>

section \<open>The parameters of a test job\<close>

datatype http_error = Forbidden | BadRequest | HttpTypeError

text \<open>A parameter that is not given keeps its default; \<open>None\<close> inside is the value \<open>None\<close> of a caller.\<close>

definition parse_failure_rate :: "(string \<Rightarrow> 'f :: linordered_idom option) \<Rightarrow> string option \<Rightarrow> 'f option" where
  "parse_failure_rate py_float v = (case v of None \<Rightarrow> None | Some s \<Rightarrow> (case py_float s of None \<Rightarrow> Some 0 | r \<Rightarrow> r))"

definition parse_size :: "string option \<Rightarrow> int option" where
  "parse_size v = (case v of None \<Rightarrow> None | Some s \<Rightarrow> (case py_int s of None \<Rightarrow> Some 1 | r \<Rightarrow> r))"

definition parse_number :: "string option \<Rightarrow> int option" where
  "parse_number v = (case v of None \<Rightarrow> None | Some s \<Rightarrow> py_int s)"

datatype 'f test_request =
    SingleTestJob "int option" "int option" 'f
  | GraphTestJobs int "int option" "int option" 'f
  | NoTestJob

definition create_test_job ::
  "(string \<Rightarrow> 'f :: linordered_idom option) \<Rightarrow> bool \<Rightarrow> string option \<Rightarrow> string option \<Rightarrow> string option \<Rightarrow>
   string option \<Rightarrow> http_error + 'f test_request" where
  "create_test_job py_float is_manager priority max_retries jobs_size failure_rate =
     (if \<not> is_manager then Inl Forbidden
      else (case parse_failure_rate py_float failure_rate of
        None \<Rightarrow> Inl HttpTypeError
      | Some rate \<Rightarrow>
          if \<not> (0 \<le> rate \<and> rate \<le> 1) then Inl BadRequest
          else (case parse_size jobs_size of
            None \<Rightarrow> Inl HttpTypeError
          | Some n \<Rightarrow>
              if n = 1 then Inr (SingleTestJob (parse_number priority) (parse_number max_retries) rate)
              else if n > 1 then Inr (GraphTestJobs n (parse_number priority) (parse_number max_retries) rate)
              else Inr NoTestJob)))"

definition single_test_options :: "int option \<Rightarrow> int option \<Rightarrow> string option \<Rightarrow> string \<Rightarrow> job_args" where
  "single_test_options priority max_retries channel descr =
     job_options_init\<lparr>ja_priority := priority, ja_max_retries := max_retries, ja_channel := channel,
       ja_description := Some descr\<rparr>"

section \<open>A graph of test jobs\<close>

definition TEST_GRAPH_MAX_PER_GROUP :: nat where "TEST_GRAPH_MAX_PER_GROUP = 5"

text \<open>The numbers of jobs of the groups, for what \<open>randint\<close> draws between one and the maximum.\<close>

function group_counts :: "(nat \<Rightarrow> nat) \<Rightarrow> nat \<Rightarrow> nat \<Rightarrow> nat \<Rightarrow> nat list" where
  "group_counts draw k goal current_count =
     (if current_count < goal
      then (let jobs_count = min (goal - current_count) (1 + draw k mod TEST_GRAPH_MAX_PER_GROUP)
            in jobs_count # group_counts draw (k + 1) goal (current_count + jobs_count))
      else [])"
  by pat_completeness auto
termination by (relation "measure (\<lambda>(draw, k, goal, current). goal - current)") auto

declare group_counts.simps [simp del]

record test_graph =
  tg_graphs :: graphs
  tg_root :: "delayable option"
  tg_tails :: "delayable list"

text \<open>One round: a chain or a group of new jobs, which follows one of the earlier ones. The objects are
  numbered: first the jobs, then the chains and groups.\<close>

definition add_group :: "(nat \<Rightarrow> bool) \<Rightarrow> (nat \<Rightarrow> nat) \<Rightarrow> nat \<Rightarrow> nat \<Rightarrow> nat \<Rightarrow> nat \<Rightarrow> test_graph \<Rightarrow> test_graph result" where
  "add_group choose_chain choose_tail goal k first n tg =
     (let jobs = map Single [first..<first + n];
          gs = foldl (\<lambda>gs i. snd (new_single i gs)) (tg_graphs tg) [first..<first + n]
      in rbind (if choose_chain k then chain_fn (goal + k) jobs gs else Inr (group_fn (goal + k) jobs gs)) (\<lambda>(d, gs1).
         case tg_root tg of
           None \<Rightarrow> Inr \<lparr>tg_graphs = gs1, tg_root = Some d, tg_tails = tg_tails tg @ [d]\<rparr>
         | Some _ \<Rightarrow>
             if tg_tails tg = [] then Inl IndexError
             else rbind (on_done (tg_tails tg ! (choose_tail k mod length (tg_tails tg))) [d] gs1) (\<lambda>gs2.
                  Inr (tg\<lparr>tg_graphs := gs2, tg_tails := tg_tails tg @ [d]\<rparr>))))"

fun add_groups :: "(nat \<Rightarrow> bool) \<Rightarrow> (nat \<Rightarrow> nat) \<Rightarrow> nat \<Rightarrow> nat \<Rightarrow> nat \<Rightarrow> nat list \<Rightarrow> test_graph \<Rightarrow> test_graph result" where
  "add_groups choose_chain choose_tail goal k first [] tg = Inr tg"
| "add_groups choose_chain choose_tail goal k first (c # cs) tg =
     rbind (add_group choose_chain choose_tail goal k first c tg)
       (add_groups choose_chain choose_tail goal (k + 1) (first + c) cs)"

definition create_graph_test_jobs ::
  "(nat \<Rightarrow> nat) \<Rightarrow> (nat \<Rightarrow> bool) \<Rightarrow> (nat \<Rightarrow> nat) \<Rightarrow> nat \<Rightarrow> test_graph result" where
  "create_graph_test_jobs draw choose_chain choose_tail goal =
     add_groups choose_chain choose_tail goal 0 0 (group_counts draw 0 goal 0)
       \<lparr>tg_graphs = [], tg_root = None, tg_tails = []\<rparr>"

definition test_description :: "string \<Rightarrow> nat \<Rightarrow> string" where
  "test_description descr current_count = descr @ '' #'' @ show_nat current_count"

lemma group_counts_ok:
  "current \<le> goal \<Longrightarrow> sum_list (group_counts draw k goal current) = goal - current \<and>
    (\<forall>c\<in>set (group_counts draw k goal current). 1 \<le> c \<and> c \<le> TEST_GRAPH_MAX_PER_GROUP)"
proof (induction draw k goal current rule: group_counts.induct)
  case (1 draw k goal current)
  have "1 + draw k mod TEST_GRAPH_MAX_PER_GROUP \<le> TEST_GRAPH_MAX_PER_GROUP"
    by (simp add: TEST_GRAPH_MAX_PER_GROUP_def Suc_le_eq)
  with 1 show ?case
    by (subst (1 2) group_counts.simps) (auto simp: Let_def)
qed

section \<open>The wizards\<close>

definition default_job_ids :: "string option \<Rightarrow> int list option \<Rightarrow> int list option" where
  "default_job_ids active_model active_ids =
     (if active_model = Some ''queue.job'' \<and> active_ids \<noteq> None \<and> active_ids \<noteq> Some [] then active_ids else None)"

definition wizard_requeue :: "queue_env \<Rightarrow> string list \<Rightarrow> table \<Rightarrow> table result" where
  "wizard_requeue qe job_ids db = requeue qe job_ids db"

definition wizard_set_done :: "queue_env \<Rightarrow> string \<Rightarrow> string list \<Rightarrow> table \<Rightarrow> table result" where
  "wizard_set_done qe user job_ids db = button_done qe user job_ids db"

definition wizard_set_cancelled :: "queue_env \<Rightarrow> string \<Rightarrow> string list \<Rightarrow> table \<Rightarrow> table result" where
  "wizard_set_cancelled qe user job_ids db =
     button_cancelled qe user
       (filter (\<lambda>u. state_of db u \<in> Some ` {WAIT_DEPENDENCIES, PENDING, FAILED, ENQUEUED}) job_ids) db"

section \<open>Notifications\<close>

text \<open>The trigger on an insert, an update or a delete of a row: the rows before and after.\<close>

definition queue_job_notify :: "row option \<Rightarrow> row option \<Rightarrow> string list" where
  "queue_job_notify old new =
     (case new of
        Some r \<Rightarrow> [row_uuid r]
      | None \<Rightarrow> (case old of None \<Rightarrow> [] | Some r \<Rightarrow> if row_state r \<noteq> Some DONE then [row_uuid r] else []))"

end
