(* ===== verification/JobFields.thy ===== *)
theory JobFields
  imports PyValue
begin

text \<open>
  The serialised fields of \<open>queue_job/fields.py\<close>: what the encoder makes of the values of a job, and what
  the decoder makes of it again. The text of a JSON value, the notation of dates, and the context of a
  recordset are arguments.
\<close>

section \<open>JSON values\<close>

datatype json =
    JNull
  | JBool bool
  | JInt int
  | JStr string
  | JArr "json list"
  | JObj "(string \<times> json) list"

text \<open>What the encoder needs of the recordsets and of the dates: the context that is kept, and the notation
  of a date.\<close>

definition record_json :: "(recordset \<Rightarrow> (string \<times> json) list) \<Rightarrow> recordset \<Rightarrow> json" where
  "record_json context r =
     JObj [(''_type'', JStr ''odoo_recordset''), (''model'', JStr (rs_model r)),
           (''ids'', JArr (map JInt (rs_ids r))), (''uid'', JInt (rs_uid r)), (''su'', JBool (rs_su r)),
           (''context'', JObj (context r))]"

definition datetime_json :: "(int \<Rightarrow> string) \<Rightarrow> int \<Rightarrow> json" where
  "datetime_json isoformat t = JObj [(''_type'', JStr ''datetime_isoformat''), (''value'', JStr (isoformat t))]"

text \<open>\<open>json.dumps\<close> with the encoder: a tuple becomes an array; a time difference is refused.\<close>

fun encode :: "(recordset \<Rightarrow> (string \<times> json) list) \<Rightarrow> (int \<Rightarrow> string) \<Rightarrow> pyval \<Rightarrow> json result"
  and encode_list :: "(recordset \<Rightarrow> (string \<times> json) list) \<Rightarrow> (int \<Rightarrow> string) \<Rightarrow> pyval list \<Rightarrow> json list result"
  and encode_items :: "(recordset \<Rightarrow> (string \<times> json) list) \<Rightarrow> (int \<Rightarrow> string) \<Rightarrow> (string \<times> pyval) list \<Rightarrow>
    (string \<times> json) list result" where
  "encode ctx fmt PNone = Inr JNull"
| "encode ctx fmt (PBool b) = Inr (JBool b)"
| "encode ctx fmt (PInt n) = Inr (JInt n)"
| "encode ctx fmt (PStr s) = Inr (JStr s)"
| "encode ctx fmt (PList xs) = rbind (encode_list ctx fmt xs) (\<lambda>js. Inr (JArr js))"
| "encode ctx fmt (PTuple xs) = rbind (encode_list ctx fmt xs) (\<lambda>js. Inr (JArr js))"
| "encode ctx fmt (PDict d) = rbind (encode_items ctx fmt d) (\<lambda>js. Inr (JObj js))"
| "encode ctx fmt (PRecords r) = Inr (record_json ctx r)"
| "encode ctx fmt (PDatetime t) = Inr (datetime_json fmt t)"
| "encode ctx fmt (PTimedelta t) = Inl TypeError"
| "encode_list ctx fmt [] = Inr []"
| "encode_list ctx fmt (x # xs) = rbind (encode ctx fmt x) (\<lambda>j. rbind (encode_list ctx fmt xs) (\<lambda>js. Inr (j # js)))"
| "encode_items ctx fmt [] = Inr []"
| "encode_items ctx fmt ((k, v) # d) =
     rbind (encode ctx fmt v) (\<lambda>j. rbind (encode_items ctx fmt d) (\<lambda>js. Inr ((k, j) # js)))"

section \<open>Decoding\<close>

text \<open>The environment of the decoder: its user and superuser flag, and the parser of dates.\<close>

record decode_env =
  dn_uid :: int
  dn_su :: bool
  dn_parse :: "string \<Rightarrow> int option"
  dn_with_context :: "pyval \<Rightarrow> recordset \<Rightarrow> recordset"

fun ints_of :: "pyval list \<Rightarrow> int list result" where
  "ints_of [] = Inr []"
| "ints_of (PInt n # vs) = rbind (ints_of vs) (\<lambda>ns. Inr (n # ns))"
| "ints_of (v # vs) = Inl TypeError"

definition decode_record :: "decode_env \<Rightarrow> fields \<Rightarrow> pyval result" where
  "decode_record env obj =
     (case (map_of obj ''model'', map_of obj ''ids'') of
        (Some (PStr model), Some (PList vs)) \<Rightarrow>
          rbind (ints_of vs) (\<lambda>ids.
          let uid = dict_get PNone obj ''uid''; su = dict_get PNone obj ''su'';
              r = \<lparr>rs_model = model, rs_ids = ids,
                   rs_uid = (case uid of PInt u \<Rightarrow> u | _ \<Rightarrow> dn_uid env),
                   rs_su = (case su of PBool b \<Rightarrow> b | _ \<Rightarrow> uid = PNone \<and> dn_su env)\<rparr>;
              context = dict_get PNone obj ''context''
          in Inr (PRecords (if py_true context then dn_with_context env context r else r)))
      | (None, _) \<Rightarrow> Inl KeyError
      | (_, None) \<Rightarrow> Inl KeyError
      | _ \<Rightarrow> Inl TypeError)"

text \<open>The hook for each object: its fields are decoded already.\<close>

definition object_hook :: "decode_env \<Rightarrow> fields \<Rightarrow> pyval result" where
  "object_hook env obj =
     (case map_of obj ''_type'' of
        None \<Rightarrow> Inr (PDict obj)
      | Some type_ \<Rightarrow>
          if type_ = PStr ''odoo_recordset'' then decode_record env obj
          else if type_ = PStr ''datetime_isoformat'' then
            (case map_of obj ''value'' of
               Some (PStr s) \<Rightarrow> (case dn_parse env s of Some t \<Rightarrow> Inr (PDatetime t) | None \<Rightarrow> Inl ValueError)
             | Some _ \<Rightarrow> Inl TypeError
             | None \<Rightarrow> Inl KeyError)
          else Inr (PDict obj))"

fun decode :: "decode_env \<Rightarrow> json \<Rightarrow> pyval result"
  and decode_list :: "decode_env \<Rightarrow> json list \<Rightarrow> pyval list result"
  and decode_items :: "decode_env \<Rightarrow> (string \<times> json) list \<Rightarrow> fields result" where
  "decode env JNull = Inr PNone"
| "decode env (JBool b) = Inr (PBool b)"
| "decode env (JInt n) = Inr (PInt n)"
| "decode env (JStr s) = Inr (PStr s)"
| "decode env (JArr js) = rbind (decode_list env js) (\<lambda>vs. Inr (PList vs))"
| "decode env (JObj d) = rbind (decode_items env d) (object_hook env)"
| "decode_list env [] = Inr []"
| "decode_list env (j # js) = rbind (decode env j) (\<lambda>v. rbind (decode_list env js) (\<lambda>vs. Inr (v # vs)))"
| "decode_items env [] = Inr []"
| "decode_items env ((k, j) # d) = rbind (decode env j) (\<lambda>v. rbind (decode_items env d) (\<lambda>vs. Inr ((k, v) # vs)))"

section \<open>The field\<close>

datatype base_type = DictType | ListType | TupleType | ModelType

definition is_instance :: "base_type \<Rightarrow> pyval \<Rightarrow> bool" where
  "is_instance bt v =
     (case v of PDict _ \<Rightarrow> bt = DictType | PList _ \<Rightarrow> bt = ListType | PTuple _ \<Rightarrow> bt = TupleType
      | PRecords _ \<Rightarrow> bt = ModelType | _ \<Rightarrow> False)"

definition default_json :: "base_type \<Rightarrow> int \<Rightarrow> json" where
  "default_json bt uid =
     (case bt of
        DictType \<Rightarrow> JObj []
      | ListType \<Rightarrow> JArr []
      | TupleType \<Rightarrow> JArr []
      | ModelType \<Rightarrow> JObj [(''_type'', JStr ''odoo_recordset''), (''model'', JStr ''base''), (''ids'', JArr []),
          (''uid'', JInt uid)])"

text \<open>What the cache and the column hold: the text of the JSON value, or the value itself when it is not of
  the base type.\<close>

definition convert_to_cache ::
  "(json \<Rightarrow> string) \<Rightarrow> (recordset \<Rightarrow> (string \<times> json) list) \<Rightarrow> (int \<Rightarrow> string) \<Rightarrow> base_type \<Rightarrow> pyval \<Rightarrow> pyval result" where
  "convert_to_cache dumps ctx fmt bt v =
     (if is_instance bt v then rbind (encode ctx fmt v) (\<lambda>j. Inr (PStr (dumps j)))
      else Inr (if py_true v then v else PNone))"

definition convert_to_record ::
  "(string \<Rightarrow> json option) \<Rightarrow> decode_env \<Rightarrow> base_type \<Rightarrow> pyval \<Rightarrow> pyval result" where
  "convert_to_record loads env bt v =
     (if py_true v
      then (case v of
              PStr s \<Rightarrow> (case loads s of Some j \<Rightarrow> decode env j | None \<Rightarrow> Inl ValueError)
            | _ \<Rightarrow> Inl TypeError)
      else decode env (default_json bt (dn_uid env)))"

section \<open>What comes back\<close>

text \<open>A value after it was stored: tuples are lists.\<close>

fun as_json :: "pyval \<Rightarrow> pyval" where
  "as_json (PTuple xs) = PList (map as_json xs)"
| "as_json (PList xs) = PList (map as_json xs)"
| "as_json (PDict d) = PDict (map (\<lambda>(k, v). (k, as_json v)) d)"
| "as_json v = v"

text \<open>Values the encoder takes and no dictionary of which has the key that marks an encoded object.\<close>

fun plain :: "pyval \<Rightarrow> bool" where
  "plain (PTuple xs) \<longleftrightarrow> list_all plain xs"
| "plain (PList xs) \<longleftrightarrow> list_all plain xs"
| "plain (PDict d) \<longleftrightarrow> ''_type'' \<notin> fst ` set d \<and> list_all (\<lambda>(k, v). plain v) d"
| "plain (PTimedelta t) \<longleftrightarrow> False"
| "plain v \<longleftrightarrow> True"

lemma ints_of_map [simp]: "ints_of (map PInt ns) = Inr ns"
  by (induction ns) simp_all

lemma decode_ints [simp]: "decode_list env (map JInt ns) = Inr (map PInt ns)"
  by (induction ns) simp_all

definition decodes :: "decode_env \<Rightarrow> (int \<Rightarrow> string) \<Rightarrow> (recordset \<Rightarrow> (string \<times> json) list) \<Rightarrow> bool" where
  "decodes env fmt ctx \<longleftrightarrow> (\<forall>t. dn_parse env (fmt t) = Some t) \<and> (\<forall>c r. dn_with_context env c r = r) \<and>
     (\<forall>r. \<exists>c. decode_items env (ctx r) = Inr c \<and> ''_type'' \<notin> fst ` set c)"

lemma decode_record_json:
  assumes "decodes env fmt ctx"
  shows "decode env (record_json ctx r) = Inr (PRecords r)"
proof -
  obtain c where c: "decode_items env (ctx r) = Inr c" "''_type'' \<notin> fst ` set c"
    using assms unfolding decodes_def by blast
  have "map_of c ''_type'' = None" using c(2) by (simp add: map_of_eq_None_iff)
  then have "object_hook env c = Inr (PDict c)" by (simp add: object_hook_def)
  moreover have "dn_with_context env (PDict c) r = r" using assms by (simp add: decodes_def)
  ultimately show ?thesis
    using c(1) by (cases r) (simp add: record_json_def object_hook_def decode_record_def dict_get_def Let_def)
qed

lemma decode_encode:
  shows "decodes env fmt ctx \<Longrightarrow> plain v \<Longrightarrow> \<exists>j. encode ctx fmt v = Inr j \<and> decode env j = Inr (as_json v)"
    and "decodes env fmt ctx \<Longrightarrow> list_all plain xs \<Longrightarrow> \<exists>js. encode_list ctx fmt xs = Inr js \<and> decode_list env js = Inr (map as_json xs)"
    and "decodes env fmt ctx \<Longrightarrow> list_all (\<lambda>(k, v). plain v) d \<Longrightarrow> \<exists>js. encode_items ctx fmt d = Inr js \<and>
      decode_items env js = Inr (map (\<lambda>(k, v). (k, as_json v)) d)"
proof (induction ctx fmt v and ctx fmt xs and ctx fmt d rule: encode_encode_list_encode_items.induct)
  case (7 ctx fmt d)
  then obtain js where js: "encode_items ctx fmt d = Inr js"
    "decode_items env js = Inr (map (\<lambda>(k, v). (k, as_json v)) d)" by auto
  have "map_of (map (\<lambda>(k, v). (k, as_json v)) d) ''_type'' = None"
    using "7.prems" by (auto simp: map_of_eq_None_iff image_iff split_beta)
  with js show ?case by (simp add: object_hook_def)
next
  case (8 ctx fmt r)
  then show ?case using decode_record_json [OF "8.prems"(1)] by simp
next
  case (9 ctx fmt t)
  then show ?case by (simp add: datetime_json_def object_hook_def decodes_def)
qed auto

end
