(* ===== verification/JobFunction.thy ===== *)
theory JobFunction
  imports Job
begin

text \<open>
  The model \<open>queue.job.function\<close> of \<open>queue_job/models/queue_job_function.py\<close>: the names of job functions,
  their retry patterns and related actions with the checks on them, their creation, and the configuration of
  a job function with its cache. The parser of Python literals is an argument.
\<close>

section \<open>Names\<close>

definition is_model_char :: "char \<Rightarrow> bool" where
  "is_model_char c = (let n = of_char c :: nat in 48 \<le> n \<and> n \<le> 57 \<or> 97 \<le> n \<and> n \<le> 122 \<or> n = 95 \<or> n = 46)"

definition is_method_char :: "char \<Rightarrow> bool" where
  "is_method_char c = (let n = of_char c :: nat in
     48 \<le> n \<and> n \<le> 57 \<or> 97 \<le> n \<and> n \<le> 122 \<or> 65 \<le> n \<and> n \<le> 90 \<or> n = 95)"

text \<open>The regular expression of the names. Its \<open>$\<close> also matches before a line feed at the end.\<close>

definition strip_final_newline :: "string \<Rightarrow> string" where
  "strip_final_newline s = (if s \<noteq> [] \<and> last s = char_of (10 :: nat) then butlast s else s)"

definition match_job_function_name :: "string \<Rightarrow> (string \<times> string) option" where
  "match_job_function_name s =
     (case s of
        [] \<Rightarrow> None
      | c # rest \<Rightarrow>
          if c \<noteq> CHR ''<'' then None
          else (let model = takeWhile is_model_char rest; after = dropWhile is_model_char rest in
            if model = [] \<or> \<not> py_startswith after ''>.'' then None
            else (let method = strip_final_newline (drop 2 after) in
              if method = [] \<or> \<not> list_all is_method_char method then None else Some (model, method))))"

record job_function =
  jf_id :: int
  jf_name :: string
  jf_model :: "string option"
  jf_method :: "string option"
  jf_channel :: string
  jf_retry_pattern :: fields
  jf_related_action :: fields
  jf_noupdate :: bool

definition compute_name :: "string option \<Rightarrow> string option \<Rightarrow> string" where
  "compute_name model method =
     (case (model, method) of
        (Some (a # m), Some (b # f)) \<Rightarrow> job_function_name (a # m) (b # f)
      | _ \<Rightarrow> [])"

definition inverse_name :: "string set \<Rightarrow> string \<Rightarrow> job_function \<Rightarrow> job_function result" where
  "inverse_name models name jf =
     (case match_job_function_name name of
        None \<Rightarrow> Inl UserError
      | Some (model, method) \<Rightarrow>
          if model \<notin> models then Inl UserError
          else Inr (jf\<lparr>jf_name := name, jf_model := Some model, jf_method := Some method\<rparr>))"

section \<open>Patterns and actions as text\<close>

text \<open>A literal that cannot be parsed, or that is of a wrong kind, is a user error.\<close>

definition inverse_edit :: "(string \<Rightarrow> PyError + pyval) \<Rightarrow> string option \<Rightarrow> pyval result" where
  "inverse_edit literal_eval text =
     (let edited = py_strip (case text of None \<Rightarrow> [] | Some s \<Rightarrow> s) in
      if edited = [] then Inr (PDict [])
      else case literal_eval edited of
             Inr v \<Rightarrow> Inr v
           | Inl e \<Rightarrow> if e = ValueError \<or> e = TypeError then Inl UserError else Inl e)"

section \<open>The checks\<close>

text \<open>\<open>int(value)\<close> of a value.\<close>

fun int_of_val :: "pyval \<Rightarrow> int result" where
  "int_of_val (PInt n) = Inr n"
| "int_of_val (PBool b) = Inr (if b then 1 else 0)"
| "int_of_val (PStr s) = (case py_int s of None \<Rightarrow> Inl ValueError | Some n \<Rightarrow> Inr n)"
| "int_of_val _ = Inl TypeError"

fun retry_value_type_check :: "pyval \<Rightarrow> unit result" where
  "retry_value_type_check (PTuple [a, b]) = rbind (retry_value_type_check a) (\<lambda>_. retry_value_type_check b)"
| "retry_value_type_check (PList [a, b]) = rbind (retry_value_type_check a) (\<lambda>_. retry_value_type_check b)"
| "retry_value_type_check (PTuple xs) = Inl ValueError"
| "retry_value_type_check (PList xs) = Inl ValueError"
| "retry_value_type_check v = rbind (int_of_val v) (\<lambda>_. Inr ())"

fun check_all :: "pyval list \<Rightarrow> unit result" where
  "check_all [] = Inr ()"
| "check_all (v # vs) =
     (case retry_value_type_check v of
        Inl ValueError \<Rightarrow> Inl UserError
      | Inl e \<Rightarrow> Inl e
      | Inr _ \<Rightarrow> check_all vs)"

definition check_retry_pattern :: "fields \<Rightarrow> unit result" where
  "check_retry_pattern pattern = check_all (map (PStr \<circ> fst) pattern @ map snd pattern)"

definition check_related_action :: "fields \<Rightarrow> unit result" where
  "check_related_action action =
     (if list_ex (\<lambda>(k, v). k \<notin> {''enable'', ''func_name'', ''kwargs''}) action then Inl UserError else Inr ())"

section \<open>The retry pattern\<close>

text \<open>\<open>tuple(value)\<close>, where \<open>randint\<close> is later applied to the first two elements.\<close>

definition pair_of_val :: "pyval \<Rightarrow> seconds" where
  "pair_of_val v =
     (case v of
        PStr [] \<Rightarrow> NotSeconds IndexError
      | PStr [c] \<Rightarrow> NotSeconds IndexError
      | PStr _ \<Rightarrow> NotSeconds TypeError
      | _ \<Rightarrow> (case (case v of PList xs \<Rightarrow> xs | PTuple xs \<Rightarrow> xs | PDict d \<Rightarrow> map (PStr \<circ> fst) d | _ \<Rightarrow> []) of
                PInt a # PInt b # _ \<Rightarrow> Between a b
              | _ # _ # _ \<Rightarrow> NotSeconds TypeError
              | _ \<Rightarrow> NotSeconds IndexError))"

definition is_iterable :: "pyval \<Rightarrow> bool" where
  "is_iterable v = (case v of PStr _ \<Rightarrow> True | PList _ \<Rightarrow> True | PTuple _ \<Rightarrow> True | PDict _ \<Rightarrow> True | _ \<Rightarrow> False)"

fun parse_items :: "fields \<Rightarrow> (int \<times> seconds) list \<Rightarrow> (int \<times> seconds) list result" where
  "parse_items [] done = Inr done"
| "parse_items ((try_count, postpone_value) # rest) done =
     (case py_int try_count of
        None \<Rightarrow> (case postpone_value of
                   PInt _ \<Rightarrow> Inl ValueError
                 | PBool _ \<Rightarrow> Inl ValueError
                 | v \<Rightarrow> if is_iterable v then Inl ValueError else Inl TypeError)
      | Some n \<Rightarrow>
          (case postpone_value of
             PInt m \<Rightarrow> parse_items rest (dict_set n (Fixed m) done)
           | PBool b \<Rightarrow> parse_items rest (dict_set n (Fixed (if b then 1 else 0)) done)
           | v \<Rightarrow> if is_iterable v then parse_items rest (dict_set n (pair_of_val v) done) else Inl TypeError))"

text \<open>A count that is not a number empties the pattern.\<close>

definition parse_retry_pattern :: "fields \<Rightarrow> (int \<times> seconds) list result" where
  "parse_retry_pattern pattern =
     (case parse_items pattern [] of
        Inl ValueError \<Rightarrow> Inr []
      | r \<Rightarrow> r)"

section \<open>The configuration of a job function and its cache\<close>

definition config_of :: "job_function \<Rightarrow> JobConfig result" where
  "config_of jf =
     rbind (parse_retry_pattern (jf_retry_pattern jf)) (\<lambda>pattern.
     Inr \<lparr>jc_channel = jf_channel jf, jc_retry_pattern = pattern,
          jc_related_action_enable = dict_get (PBool True) (jf_related_action jf) ''enable'',
          jc_related_action_func_name = dict_get PNone (jf_related_action jf) ''func_name'',
          jc_related_action_kwargs = dict_get (PDict []) (jf_related_action jf) ''kwargs'',
          jc_job_function_id = PInt (jf_id jf)\<rparr>)"

definition job_config_uncached :: "job_function list \<Rightarrow> string \<Rightarrow> JobConfig result" where
  "job_config_uncached fs name =
     (case find (\<lambda>f. jf_name f = name) fs of None \<Rightarrow> Inr job_default_config | Some f \<Rightarrow> config_of f)"

record function_store =
  fs_functions :: "job_function list"
  fs_cache :: "(string \<times> JobConfig) list"

text \<open>\<open>ormcache\<close> keeps what the method returned for a name.\<close>

definition job_config :: "string \<Rightarrow> function_store \<Rightarrow> (JobConfig \<times> function_store) result" where
  "job_config name st =
     (case map_of (fs_cache st) name of
        Some c \<Rightarrow> Inr (c, st)
      | None \<Rightarrow>
          rbind (job_config_uncached (fs_functions st) name) (\<lambda>c.
          Inr (c, st\<lparr>fs_cache := dict_set name c (fs_cache st)\<rparr>)))"

text \<open>The values of a write, as functions on the record.\<close>

definition write_functions :: "(job_function \<Rightarrow> job_function) \<Rightarrow> int set \<Rightarrow> function_store \<Rightarrow> function_store" where
  "write_functions upd ids st =
     \<lparr>fs_functions = map (\<lambda>f. if jf_id f \<in> ids then upd f else f) (fs_functions st), fs_cache = []\<rparr>"

definition unlink_functions :: "int set \<Rightarrow> function_store \<Rightarrow> function_store" where
  "unlink_functions ids st =
     \<lparr>fs_functions = filter (\<lambda>f. jf_id f \<notin> ids) (fs_functions st), fs_cache = []\<rparr>"

text \<open>The creation of several functions. While a module is installed, one that exists is written instead,
  unless it is marked not to be updated; what is created is given as a record, what is written as its
  values, which set all but the identifier.\<close>

definition rebind_values :: "job_function \<Rightarrow> job_function \<Rightarrow> job_function" where
  "rebind_values vals f = vals\<lparr>jf_id := jf_id f, jf_noupdate := jf_noupdate f\<rparr>"

fun rebind_existing :: "job_function list \<Rightarrow> function_store \<Rightarrow> int list \<Rightarrow> job_function list \<Rightarrow>
    function_store \<times> int list \<times> job_function list" where
  "rebind_existing [] st records new_vals = (st, records, new_vals)"
| "rebind_existing (vals # rest) st records new_vals =
     (case (if jf_name vals = [] then None else find (\<lambda>f. jf_name f = jf_name vals) (fs_functions st)) of
        None \<Rightarrow> rebind_existing rest st records (new_vals @ [vals])
      | Some existing \<Rightarrow>
          rebind_existing rest
            (if jf_noupdate existing then st else write_functions (rebind_values vals) {jf_id existing} st)
            (records @ [jf_id existing]) new_vals)"

definition create_functions :: "bool \<Rightarrow> job_function list \<Rightarrow> function_store \<Rightarrow> int list \<times> function_store" where
  "create_functions install_mode vals_list st =
     (let (st1, records, new_vals) =
            (if install_mode then rebind_existing vals_list st [] [] else (st, [], vals_list))
      in (records @ map jf_id new_vals,
          \<lparr>fs_functions = fs_functions st1 @ new_vals, fs_cache = []\<rparr>))"

section \<open>Lemmas\<close>

lemma takeWhile_class: "list_all P m \<Longrightarrow> \<not> P c \<Longrightarrow> takeWhile P (m @ c # s) = m \<and> dropWhile P (m @ c # s) = c # s"
  by (induction m) auto

lemma match_name_of:
  assumes "m \<noteq> []" and "list_all is_model_char m" and "f \<noteq> []" and "list_all is_method_char f"
  shows "match_job_function_name (job_function_name m f) = Some (m, f)"
proof -
  have c: "\<not> is_model_char (CHR ''>'')" by (simp add: is_model_char_def)
  have n: "\<not> is_method_char (char_of (10 :: nat))" by (simp add: is_method_char_def)
  have "is_method_char (last f)" using assms(3,4) by (simp add: list_all_iff)
  then have "strip_final_newline f = f" using n by (auto simp: strip_final_newline_def)
  then show ?thesis
    using assms takeWhile_class [OF assms(2) c, of "CHR ''.'' # f"]
    by (simp add: match_job_function_name_def job_function_name_def py_startswith_def Let_def)
qed

lemma match_name_valid:
  assumes "match_job_function_name s = Some (m, f)"
  shows "m \<noteq> [] \<and> list_all is_model_char m \<and> f \<noteq> [] \<and> list_all is_method_char f \<and>
    (s = job_function_name m f \<or> s = job_function_name m f @ [char_of (10 :: nat)])"
proof -
  obtain rest where s: "s = CHR ''<'' # rest" and m: "m = takeWhile is_model_char rest" "m \<noteq> []"
    and st: "py_startswith (dropWhile is_model_char rest) ''>.''"
    and f: "f = strip_final_newline (drop 2 (dropWhile is_model_char rest))" "f \<noteq> []" "list_all is_method_char f"
    using assms by (auto simp: match_job_function_name_def Let_def split: list.splits if_splits)
  obtain t where t: "dropWhile is_model_char rest = ''>.'' @ t" using py_startswithD [OF st] by blast
  have "rest = m @ ''>.'' @ t" using takeWhile_dropWhile_id [of is_model_char rest] unfolding m(1) t by simp
  moreover have "t = f \<or> t = f @ [char_of (10 :: nat)]"
    using f(1) t by (auto simp: strip_final_newline_def split: if_splits) (metis append_butlast_last_id)
  moreover have "list_all is_model_char m" unfolding m(1) by (auto simp: list_all_iff dest: set_takeWhileD)
  ultimately show ?thesis using s m(2) f(2,3) by (auto simp: job_function_name_def)
qed

definition cache_ok :: "function_store \<Rightarrow> bool" where
  "cache_ok st \<longleftrightarrow> (\<forall>name c. map_of (fs_cache st) name = Some c \<longrightarrow> job_config_uncached (fs_functions st) name = Inr c)"

lemma job_config_ok:
  assumes "cache_ok st"
  shows "(case job_config name st of
      Inl e \<Rightarrow> job_config_uncached (fs_functions st) name = Inl e
    | Inr (c, st') \<Rightarrow> job_config_uncached (fs_functions st) name = Inr c \<and> cache_ok st' \<and>
        fs_functions st' = fs_functions st)"
  using assms by (auto simp: job_config_def cache_ok_def split: option.splits sum.splits
      elim!: rbindE simp: rbind_eq_Inl rbind_eq_Inr)

lemma cache_ok_changed [simp]:
  "cache_ok (write_functions upd ids st)" "cache_ok (unlink_functions ids st)"
  "cache_ok (snd (create_functions install_mode vals_list st))"
  by (simp_all add: cache_ok_def write_functions_def unlink_functions_def create_functions_def split: prod.split)

section \<open>Uses of the configuration\<close>

datatype function_event =
    AskConfig string
  | CreateFunctions bool "job_function list"
  | WriteFunctions "job_function \<Rightarrow> job_function" "int set"
  | UnlinkFunctions "int set"

fun function_step :: "function_store \<Rightarrow> function_event \<Rightarrow> function_store \<Rightarrow> bool" where
  "function_step st (AskConfig name) st' \<longleftrightarrow> (\<exists>c. job_config name st = Inr (c, st'))"
| "function_step st (CreateFunctions install_mode vals_list) st' \<longleftrightarrow> st' = snd (create_functions install_mode vals_list st)"
| "function_step st (WriteFunctions upd ids) st' \<longleftrightarrow> st' = write_functions upd ids st"
| "function_step st (UnlinkFunctions ids) st' \<longleftrightarrow> st' = unlink_functions ids st"

text \<open>A process starts with an empty cache.\<close>

definition function_start :: "function_store \<Rightarrow> bool" where
  "function_start st \<longleftrightarrow> fs_cache st = []"

lemma function_step_ok: "cache_ok st \<Longrightarrow> function_step st ev st' \<Longrightarrow> cache_ok st'"
proof (cases ev)
  case (AskConfig name)
  then show "cache_ok st \<Longrightarrow> function_step st ev st' \<Longrightarrow> cache_ok st'"
    using job_config_ok [of st name] by auto
qed simp_all

interpretation fs: invariant_system function_start function_step cache_ok
  by unfold_locales (simp add: function_start_def cache_ok_def, rule function_step_ok)

definition function_reachable :: "function_store \<Rightarrow> bool" where
  "function_reachable st \<longleftrightarrow> reachable function_start function_step st"

lemma function_reachable_ok: "function_reachable st \<Longrightarrow> cache_ok st"
  unfolding function_reachable_def by (rule fs.inv_reachable)

end
