(* ===== verification/JobProperties.thy ===== *)
theory JobProperties
  imports JobFacts DelayFacts JobFields JobFunction
begin

text \<open>
  The properties of single jobs, of their storage, of the graphs of delayables and of the data that is kept
  with the jobs. The jobs at which they are applied come first.
\<close>

section \<open>Example jobs\<close>

definition ex_records :: recordset where
  "ex_records = \<lparr>rs_model = ''res.partner'', rs_ids = [3, 1], rs_uid = 2, rs_su = False\<rparr>"

definition ex_jenv :: "string \<Rightarrow> job_env" where
  "ex_jenv u = \<lparr>je_now = 100, je_fresh_uuid = u, je_context_company = None, je_company = 1,
     je_job_config = (\<lambda>_. job_default_config)\<rparr>"

definition ex_args :: job_args where
  "ex_args = \<lparr>ja_args = PTuple [PInt 7], ja_kwargs = PDict [(''b'', PInt 2), (''a'', PNone)], ja_priority = Some 4,
     ja_eta = EtaDelta 60, ja_job_uuid = None, ja_max_retries = Some 3, ja_description = None,
     ja_channel = None, ja_identity_key = NoKey\<rparr>"

definition ex_job :: Job where
  "ex_job = projr (job_init (ex_jenv ''u1'') (ModelMethod ex_records ''sync'') ex_args)"

definition ex_env :: store_env where
  "ex_env = \<lparr>se_repr = (\<lambda>_. ''x''), se_str = (\<lambda>_. ''x''), se_key_func = (\<lambda>_. ''key''), se_doc = (\<lambda>_ _. None),
     se_lookup = (\<lambda>_. None), se_uid = 2, se_from_model = (\<lambda>_. [])\<rparr>"

lemma ex_job_fields:
  "j_recordset ex_job = ex_records" "j_method_name ex_job = ''sync''" "j_config ex_job = job_default_config"
  "j_uuid ex_job = ''u1''" "j_retry ex_job = 0" "j_max_retries ex_job = 3"
  "j_kwargs ex_job = [(''b'', PInt 2), (''a'', PNone)]" "j_state ex_job = PENDING" "j_eta ex_job = Some 160"
  "j_exc_name ex_job = None" "j_graph_uuid ex_job = None"
  by (simp_all add: ex_job_def job_init_def ex_args_def ex_jenv_def set_eta_def set_identity_key_def)

section \<open>Storing and loading\<close>

text \<open>What a stored job is when it is loaded again.\<close>

definition reloaded :: "store_env \<Rightarrow> Job \<Rightarrow> Job" where
  "reloaded env j =
     j\<lparr>j_graph_uuid := nonempty (j_graph_uuid j), j_description := Some (description (se_doc env) j),
       j_channel := Some (job_channel j),
       j_identity_key := nonempty (fst (identity_key (se_key_func env) j)), j_identity_key_func := False,
       j_result := (if py_true (j_result j) \<and> se_str env (j_result j) \<noteq> []
                    then PStr (se_str env (j_result j)) else PNone),
       j_exc_name := None, j_exc_message := None, j_exc_info := nonempty (j_exc_info j),
       j_depends_on_uuids := filter (\<lambda>u. se_lookup env u \<noteq> None) (j_depends_on_uuids j),
       j_reverse_depends_on_uuids := filter (\<lambda>u. se_lookup env u \<noteq> None) (j_reverse_depends_on_uuids j)\<rparr>"

lemma loaded_reloaded:
  assumes look: "\<And>u p. se_lookup env u = Some p \<Longrightarrow> j_uuid p = u"
    and conf: "j_config j = je_job_config jenv (job_function_name (rs_model (j_recordset j)) (j_method_name j))"
  shows "loaded jenv (j_recordset j) (j_method_name j) (j_args j) (j_kwargs j) (j_state j) (store_values env True j) =
    reloaded env j"
proof -
  have dep: "fld ''dependencies'' (store_values env True j) = fld ''dependencies'' (core_values env True j)"
    by (rule fld_created) (simp add: job_keys_def)
  note deps = row_deps_core [where env = env and create = True and j = j, OF look dep]
  have f: "fld k (store_values env True j) = fld k (core_values env True j)" if "k \<in> set (job_keys @ created_keys)" for k
    by (rule fld_created) (use that in simp)
  note f = f [where k = "''uuid''"] f [where k = "''name''"] f [where k = "''channel''"] f [where k = "''date_created''"]
    f [where k = "''retry''"] f [where k = "''max_retries''"] f [where k = "''priority''"] f [where k = "''company_id''"]
    f [where k = "''result''"] f [where k = "''date_enqueued''"] f [where k = "''date_started''"]
    f [where k = "''date_done''"] f [where k = "''date_cancelled''"] f [where k = "''eta''"]
    f [where k = "''identity_key''"] f [where k = "''exc_info''"] f [where k = "''graph_uuid''"]
    f [where k = "''worker_pid''"]
  note f = f [unfolded job_keys_def created_keys_def, simplified, unfolded fld_core_values fld_job_values]
  have k: "val_str (or_false PStr x) = nonempty x" for x
    by (auto simp: nonempty_def or_false_def split: option.split list.split)
  show ?thesis
    by (rule Job.Job.equality) (simp_all add: loaded_def reloaded_def deps f k conf val_int_case,
        auto simp: nonempty_def split: option.split list.split)
qed



section \<open>Running a job again\<close>

text \<open>C15: A job whose function keeps asking for a retry is tried again as long as its number of attempts is
  below its maximum, and fails at the attempt that reaches it, with a message that says so; a maximum of
  zero is no limit. This holds whatever number of attempts came before.\<close>

theorem retries_are_bounded:
  "snd (perform (Inl (RetryableJobError msg s False)) ((perform_step (Inl (RetryableJobError msg s False)) ^^ k) j)) =
     (if j_max_retries j \<noteq> 0 \<and> j_max_retries j \<le> j_retry j + int k + 1
      then Inl (FailedJobError (''Max. retries ('' @ show_int (j_max_retries j) @ '') reached: '' @ msg))
      else Inl (RetryableJobError msg s False))"
  by (simp add: perform_retryable perform_steps)

text \<open>The delay before a job is tried again is the one that was asked for; otherwise the one that its
  retry pattern gives for the largest number of attempts that is reached, ten minutes if none is; a pair
  of bounds is drawn from, and refused if it is empty.\<close>

theorem retry_delay_correct:
  assumes "distinct (map fst (jc_retry_pattern (j_config j)))"
  shows "get_retry_seconds randint s j =
    (case (if s = None \<or> s = Some (Fixed 0) then pattern_delay (j_retry j) (jc_retry_pattern (j_config j)) else the s) of
       Fixed n \<Rightarrow> Inr n
     | Between a b \<Rightarrow> if a \<le> b then Inr (randint a b) else Inl ValueError
     | NotSeconds e \<Rightarrow> Inl e)"
proof -
  have "pattern_delay (j_retry j) [] = Fixed RETRY_INTERVAL" by (simp add: pattern_delay_def)
  then show ?thesis
    using retry_scan_pattern [OF assms, of "j_retry j"]
    by (cases "jc_retry_pattern (j_config j) = []"; cases "s = None \<or> s = Some (Fixed 0)")
       (auto simp: get_retry_seconds_def Let_def)
qed

definition ex_pattern_job :: Job where
  "ex_pattern_job = ex_job\<lparr>j_config := job_default_config\<lparr>jc_retry_pattern := [(10, Fixed 3600), (1, Fixed 10), (5, Between 20 60)]\<rparr>,
     j_retry := 7\<rparr>"

theorem retry_delay_correct_witness:
  "get_retry_seconds (\<lambda>a b. a) None ex_pattern_job = Inr 20"
proof -
  have "pattern_delay 7 [(10, Fixed 3600), (1, Fixed 10), (5, Between 20 60)] = Between 20 60"
    by (simp add: pattern_delay_def)
  then show ?thesis
    using retry_delay_correct [of ex_pattern_job "\<lambda>a b. a" None] by (simp add: ex_pattern_job_def)
qed

section \<open>The identity of a job\<close>

text \<open>The exact identity of a job does not depend on the order of its records or of its keyword
  arguments, nor on anything but its model, its method, its records and its arguments.\<close>

theorem identity_exact_invariant:
  assumes "rs_model (j_recordset j') = rs_model (j_recordset j)" and "j_method_name j' = j_method_name j"
    and "mset (rs_ids (j_recordset j')) = mset (rs_ids (j_recordset j))" and "j_args j' = j_args j"
    and "mset (j_kwargs j') = mset (j_kwargs j)" and "distinct (map fst (j_kwargs j'))"
  shows "identity_exact sha1 repr j' = identity_exact sha1 repr j"
proof -
  have "sort (rs_ids (j_recordset j')) = sort (rs_ids (j_recordset j))"
    using assms(3) by (metis mset_sort properties_for_sort sorted_sort)
  with assms sort_key_mset [OF assms(5,6)] show ?thesis by (simp add: identity_exact_def)
qed

theorem identity_exact_invariant_witness:
  "identity_exact id (\<lambda>v. if v = PTuple [] then ''()'' else ''x'')
     (ex_job\<lparr>j_recordset := ex_records\<lparr>rs_ids := [1, 3]\<rparr>, j_kwargs := [(''a'', PNone), (''b'', PInt 2)], j_priority := 9\<rparr>) =
   identity_exact id (\<lambda>v. if v = PTuple [] then ''()'' else ''x'') ex_job"
  by (rule identity_exact_invariant) (simp_all add: ex_job_fields ex_records_def add_mset_commute)

section \<open>Graphs\<close>

definition position :: "'a list \<Rightarrow> 'a \<Rightarrow> nat" where
  "position xs x = length (takeWhile (\<lambda>y. y \<noteq> x) xs)"

lemma position_prefix: "p \<in> set xs \<Longrightarrow> n \<notin> set xs \<Longrightarrow> position (xs @ n # zs) p < position (xs @ n # zs) n"
proof -
  assume p: "p \<in> set xs" and n: "n \<notin> set xs"
  have "position (xs @ n # zs) n = length xs"
    unfolding position_def by (subst takeWhile_append2) (use n in auto)
  moreover have "position (xs @ n # zs) p = position xs p"
    unfolding position_def by (subst takeWhile_append1 [OF p]) simp_all
  moreover have "position xs p < length xs"
    unfolding position_def using p by (induction xs) auto
  ultimately show ?thesis by simp
qed

lemma ordered_acyclic:
  assumes o: "\<And>xs n zs. ys = xs @ n # zs \<Longrightarrow> preds g n \<subseteq> set xs" and d: "distinct ys"
    and all: "\<And>p n. (p, n) \<in> edge_set g \<Longrightarrow> n \<in> set ys"
  shows "acyclic (edge_set g)"
proof -
  have "edge_set g \<subseteq> inv_image less_than (position ys)"
  proof (rule subrelI)
    fix p n assume e: "(p, n) \<in> edge_set g"
    obtain xs zs where ys: "ys = xs @ n # zs" using split_list [OF all [OF e]] by blast
    have "p \<in> set xs" using o [OF ys] e by (auto simp: preds_def)
    moreover have "n \<notin> set xs" using d ys by simp
    ultimately show "(p, n) \<in> inv_image less_than (position ys)"
      by (simp add: ys position_prefix)
  qed
  then show ?thesis by (meson acyclic_subset wf_acyclic wf_inv_image wf_less_than)
qed

lemma edge_to_vertex: "graph_ok g \<Longrightarrow> (p, n) \<in> edge_set g \<Longrightarrow> n \<in> set (vertices g)"
  unfolding graph_ok_def edge_set_def vertices_def by (fastforce dest: map_of_SomeD)

text \<open>C13: The topological sort ends on every graph. It gives distinct vertices, each after all those that
  have an edge to it, and it gives all vertices exactly if the graph has no cycle.\<close>

theorem topological_sort_correct:
  assumes g: "graph_ok g"
  shows "\<exists>ys. topological_sort g = Inr ys \<and> distinct ys \<and>
    (\<forall>xs n zs. ys = xs @ n # zs \<longrightarrow> preds g n \<subseteq> set xs) \<and>
    (set ys = set (vertices g) \<longleftrightarrow> acyclic (edge_set g))"
proof -
  obtain ys deps where ys: "topological_sort g = Inr ys" and i: "topo_inv g ys deps []"
    and o: "\<And>xs n zs. ys = xs @ n # zs \<Longrightarrow> preds g n \<subseteq> set xs"
    using topo_loop_ok [OF g topo_inv_start [OF g]] by (auto simp: topological_sort_def)
  have d: "distinct ys" using i by (simp add: topo_inv_def)
  have "acyclic (edge_set g)" if "set ys = set (vertices g)"
    by (rule ordered_acyclic [of ys]) (use o d edge_to_vertex [OF g] that in blast)+
  with ys d o topological_sort_ok [OF g] show ?thesis by auto
qed

definition ex_graph :: "nat graph" where
  "ex_graph = add_edge 2 4 (add_edge 3 4 (add_edge 1 3 (add_edge 1 2 [])))"

lemma ex_graph_ok: "graph_ok ex_graph"
  unfolding ex_graph_def by (intro add_edge_ok) (simp add: graph_ok_def)

lemma ex_graph_value: "ex_graph = [(2, [4]), (1, [2, 3]), (3, [4]), (4, [])]"
  by code_simp

theorem topological_sort_correct_witness:
  "\<exists>ys. topological_sort ex_graph = Inr ys \<and> distinct ys \<and> preds ex_graph 4 = {2, 3} \<and> ys = [1, 2, 3, 4]"
proof -
  have "preds ex_graph 4 = {2, 3}" by (auto simp: ex_graph_value preds_def edge_set_def split: if_splits)
  moreover have "topological_sort ex_graph = Inr [1, 2, 3, 4]" by code_simp
  ultimately show ?thesis using topological_sort_correct [OF ex_graph_ok] by auto
qed

text \<open>The paths from a vertex are found, and they are all the paths from it on which no vertex comes
  twice and which cannot be made longer.\<close>

theorem paths_correct:
  assumes "graph_ok g" and "v \<in> set (vertices g)"
  shows "\<exists>ps. paths g v = Inr ps \<and> set ps = {q. hd q = v \<and> simple_path g q \<and> maximal g q}"
  by (rule paths_ok [OF assms])

theorem paths_correct_witness:
  "\<exists>ps. paths ex_graph 1 = Inr ps \<and> set ps = {q. hd q = 1 \<and> simple_path ex_graph q \<and> maximal ex_graph q} \<and>
    ps = [[1, 2, 4], [1, 3, 4]]"
proof -
  have "paths ex_graph 1 = Inr [[1, 2, 4], [1, 3, 4]]" by code_simp
  moreover have "1 \<in> set (vertices ex_graph)" by code_simp
  ultimately show ?thesis using paths_correct [OF ex_graph_ok, of 1] by auto
qed

section \<open>Chains and groups of jobs\<close>

text \<open>A delayable whose chains begin and end with a job or a group of jobs starts with the jobs that its
  structure says come first, and ends with those that come last.\<close>

theorem ends_of_plain_delayables:
  assumes "plain_ends d"
  shows "d_head d = first_jobs d \<and> d_tail d = last_jobs d"
  by (rule plain_ends_jobs [OF assms])

theorem ends_of_plain_delayables_witness:
  "d_head (Chain 9 [Group 8 [Single 1, Single 2], Chain 7 [Single 3, Single 4], Single 5]) = [1, 2] \<and>
   d_tail (Chain 9 [Group 8 [Single 1, Single 2], Chain 7 [Single 3, Single 4], Single 5]) = [5]"
  using ends_of_plain_delayables [of "Chain 9 [Group 8 [Single 1, Single 2], Chain 7 [Single 3, Single 4], Single 5]"]
  by simp

text \<open>The graphs after \<open>chain(x, chain(chain(a, b), c))\<close>: the jobs are 0 to 3, the chains 4 to 6.\<close>

definition ex_nested :: "delayable \<times> graphs" where
  "ex_nested =
     (let gs = foldl (\<lambda>gs i. snd (new_single i gs)) [] [0, 1, 2, 3];
          (ab, gs1) = projr (new_chain 4 [Single 1, Single 2] gs);
          (abc, gs2) = projr (new_chain 5 [ab, Single 3] gs1)
      in projr (new_chain 6 [Single 0, abc] gs2))"

text \<open>A chain that begins with another chain starts at the end of that one instead of its beginning: of
  \<open>chain(x, chain(chain(a, b), c))\<close> the job \<open>b\<close> waits for \<open>x\<close>, and \<open>a\<close> does not.\<close>

theorem chain_of_chains_starts_late:
  "d_head (Chain i (Chain k (d # ds) # es)) = d_head (last (d # ds)) \<and>
   first_jobs (Chain i (Chain k (d # ds) # es)) = first_jobs d \<and>
   (\<exists>g. connect_graphs (snd ex_nested) 6 = Inr g \<and> (0, 1) \<notin> edge_set g \<and> (0, 2) \<in> edge_set g)"
proof -
  have "connect_graphs (snd ex_nested) 6 = Inr [(0, [2]), (3, []), (2, [3]), (1, [2])]" by code_simp
  then show ?thesis by (simp add: edge_set_def)
qed


definition ex_delayable :: "delayable \<times> graphs" where
  "ex_delayable =
     (let gs = foldl (\<lambda>gs i. snd (new_single i gs)) [] [0, 1, 2, 3];
          (grp, gs1) = new_group 4 [Single 1, Single 2] gs
      in projr (new_chain 5 [Single 0, grp, Single 3] gs1))"

lemma ex_delayable_value:
  "snd ex_delayable = [(0, [(Single 0, [])]), (1, [(Single 1, [])]), (2, [(Single 2, [])]), (3, [(Single 3, [])]),
     (4, [(Single 1, []), (Single 2, [])]),
     (5, [(Single 0, [Group 4 [Single 1, Single 2]]), (Group 4 [Single 1, Single 2], [Single 3]), (Single 3, [])])]"
  by code_simp


section \<open>Before a graph is delayed\<close>

text \<open>The jobs of a graph get one graph uuid: the one that some of them have already, or else a new one;
  a job alone gets none. It is an error if two of them have different ones, if a job alone has one, and if
  there is no job.\<close>

theorem graph_uuid_correct:
  "ensure_same_graph_uuid fresh js =
     (if js = [] \<or> length js = 1 \<and> graph_set (hd js) \<or>
         (\<exists>a\<in>set js. \<exists>b\<in>set js. graph_set a \<and> graph_set b \<and> j_graph_uuid a \<noteq> j_graph_uuid b)
      then Inl ValueError
      else if length js = 1 then Inr js
      else Inr (map (\<lambda>j. j\<lparr>j_graph_uuid :=
             (case filter graph_set js of [] \<Rightarrow> Some fresh | p # _ \<Rightarrow> j_graph_uuid p)\<rparr>) js))"
  by (rule ensure_same_graph_uuid_ok)

lemma map_snd_enumerate: "map (f \<circ> snd) (enumerate n xs) = map f xs"
  by (simp flip: map_map)

text \<open>A delayable that is split into batches keeps its records: in their order, each batch has at least
  one and at most as many as was asked for; but for their records, their numbered descriptions and the job
  that was not made yet the parts are what the delayable was.\<close>

theorem split_keeps_the_records:
  assumes "dd_job_method d = Some m" and "0 < batch_size"
  shows "\<exists>ds. split_delayable doc batch_size d = Inr ds \<and>
    concat (map (rs_ids \<circ> dd_recordset) ds) = rs_ids (dd_recordset d) \<and>
    (\<forall>x\<in>set ds. rs_ids (dd_recordset x) \<noteq> [] \<and> int (length (rs_ids (dd_recordset x))) \<le> batch_size \<and>
       (\<exists>ids text. x = d\<lparr>dd_recordset := (dd_recordset d)\<lparr>rs_ids := ids\<rparr>, dd_generated_job := None,
          dd_description := Some text\<rparr>))"
proof -
  let ?bs = "batches (nat batch_size) (rs_ids (dd_recordset d))"
  let ?f = "\<lambda>(i, ids). d\<lparr>dd_recordset := (dd_recordset d)\<lparr>rs_ids := ids\<rparr>, dd_generated_job := None,
      dd_description := Some (split_description doc m d @ '' (split '' @ show_int (int i + 1) @ ''/'' @
        show_int (int (length ?bs)) @ '')'')\<rparr>"
  have b: "concat ?bs = rs_ids (dd_recordset d)" "\<forall>b\<in>set ?bs. b \<noteq> [] \<and> length b \<le> nat batch_size"
    using batches_ok [of "nat batch_size"] assms(2) by auto
  have s: "split_delayable doc batch_size d = Inr (map ?f (enumerate 0 ?bs))"
    using assms by (simp add: split_delayable_def Let_def)
  have "map (rs_ids \<circ> dd_recordset) (map ?f (enumerate 0 ?bs)) = map (id \<circ> snd) (enumerate 0 ?bs)"
    unfolding map_map by (rule map_cong) auto
  then have c: "concat (map (rs_ids \<circ> dd_recordset) (map ?f (enumerate 0 ?bs))) = rs_ids (dd_recordset d)"
    by (simp only: map_snd_enumerate list.map_id b(1))
  have "rs_ids (dd_recordset x) \<noteq> [] \<and> int (length (rs_ids (dd_recordset x))) \<le> batch_size \<and>
      (\<exists>ids text. x = d\<lparr>dd_recordset := (dd_recordset d)\<lparr>rs_ids := ids\<rparr>, dd_generated_job := None,
          dd_description := Some text\<rparr>)" if x: "x \<in> set (map ?f (enumerate 0 ?bs))" for x
  proof -
    obtain i ids where i: "(i, ids) \<in> set (enumerate 0 ?bs)" "x = ?f (i, ids)" using x by auto
    then have "ids \<in> set ?bs" using set_map [of snd "enumerate 0 ?bs"] by (force simp: map_snd_enumerate)
    with b(2) assms(2) have "ids \<noteq> []" "int (length ids) \<le> batch_size" by (auto simp: le_nat_iff)
    with i(2) show ?thesis by auto
  qed
  with s c show ?thesis by blast
qed

definition ex_data :: delayable_data where
  "ex_data = (delayable_init ex_records ex_args)\<lparr>dd_job_method := Some ''sync''\<rparr>"

theorem split_keeps_the_records_witness:
  "\<exists>ds. split_delayable (\<lambda>_ _. None) 1 ex_data = Inr ds \<and> concat (map (rs_ids \<circ> dd_recordset) ds) = [3, 1]"
  using split_keeps_the_records [of ex_data "''sync''" 1 "\<lambda>_ _. None"]
  by (auto simp: ex_data_def delayable_init_def ex_records_def)

section \<open>The data that is kept with the jobs\<close>

text \<open>A serialised field gives back the value it was set to, with its tuples as lists, provided that
  no dictionary in it uses the reserved key, no time difference is in it, and the text of a JSON value, the
  notation of dates and the kept context can be read again.\<close>

theorem field_roundtrip:
  assumes "decodes env fmt ctx" and "plain v" and "is_instance bt v"
    and readable: "\<And>j. encode ctx fmt v = Inr j \<Longrightarrow> loads (dumps j) = Some j \<and> dumps j \<noteq> []"
  shows "\<exists>s. convert_to_cache dumps ctx fmt bt v = Inr (PStr s) \<and>
    convert_to_record loads env bt (PStr s) = Inr (as_json v)"
proof -
  obtain j where j: "encode ctx fmt v = Inr j" "decode env j = Inr (as_json v)"
    using decode_encode(1) [OF assms(1,2)] by blast
  then show ?thesis
    using readable [OF j(1)] assms(3) by (simp add: convert_to_cache_def convert_to_record_def)
qed

definition ex_value :: pyval where
  "ex_value = PTuple [PRecords ex_records, PDatetime 50, PDict [(''n'', PInt 3)]]"

definition ex_decode :: decode_env where
  "ex_decode = \<lparr>dn_uid = 1, dn_su = False, dn_parse = py_int, dn_with_context = (\<lambda>_ r. r)\<rparr>"

theorem field_roundtrip_witness:
  "\<exists>s. convert_to_cache (\<lambda>_. ''text'') (\<lambda>_. []) show_int TupleType ex_value = Inr (PStr s) \<and>
    convert_to_record (\<lambda>_. Some (projr (encode (\<lambda>_. []) show_int ex_value))) ex_decode TupleType (PStr s) =
      Inr (PList [PRecords ex_records, PDatetime 50, PDict [(''n'', PInt 3)]])"
proof -
  have "decodes ex_decode show_int (\<lambda>_. [])"
    by (simp add: decodes_def ex_decode_def py_int_show_int)
  from field_roundtrip [OF this, where v = ex_value and bt = TupleType and dumps = "\<lambda>_. ''text''"
      and loads = "\<lambda>_. Some (projr (encode (\<lambda>_. []) show_int ex_value))"]
  show ?thesis by (simp add: ex_value_def is_instance_def)
qed

lemma match_name_newline:
  assumes "m \<noteq> []" and "list_all is_model_char m" and "f \<noteq> []" and "list_all is_method_char f"
  shows "match_job_function_name (job_function_name m f @ [char_of (10 :: nat)]) = Some (m, f)"
proof -
  have c: "\<not> is_model_char (CHR ''>'')" by (simp add: is_model_char_def)
  show ?thesis
    using assms takeWhile_class [OF assms(2) c, of "CHR ''.'' # f @ [char_of (10 :: nat)]"]
    by (simp add: match_job_function_name_def job_function_name_def py_startswith_def Let_def strip_final_newline_def)
qed

text \<open>The regular expression takes a text for the name of a job function exactly if it is the name that
  is made of a model and a method, of the characters these may have, perhaps with a line feed at its end,
  and it finds the model and the method.\<close>

theorem job_function_name_roundtrip:
  "match_job_function_name s = Some (m, f) \<longleftrightarrow>
     m \<noteq> [] \<and> list_all is_model_char m \<and> f \<noteq> [] \<and> list_all is_method_char f \<and>
     s \<in> {job_function_name m f, job_function_name m f @ [char_of (10 :: nat)]}"
  using match_name_valid [of s m f] match_name_of [of m f] match_name_newline [of m f] by auto

text \<open>Whatever job functions are created, written and removed in between, the configuration that is kept
  for the name of a job function is the one that its record, or the default, gives now.\<close>

theorem job_config_cache_coherent:
  assumes "function_reachable st"
  shows "(case job_config name st of Inl e \<Rightarrow> Inl e | Inr (c, st') \<Rightarrow> Inr c) =
    job_config_uncached (fs_functions st) name"
  using job_config_ok [OF function_reachable_ok [OF assms], of name] by (auto split: sum.splits)

definition ex_function :: job_function where
  "ex_function = \<lparr>jf_id = 1, jf_name = ''<res.partner>.sync'', jf_model = Some ''res.partner'', jf_method = Some ''sync'',
     jf_channel = ''root'', jf_retry_pattern = [(''1'', PInt 10)], jf_related_action = [], jf_noupdate = False\<rparr>"

definition ex_functions :: function_store where
  "ex_functions = write_functions (\<lambda>f. f\<lparr>jf_channel := ''root.a''\<rparr>) {1}
     (snd (projr (job_config ''<res.partner>.sync'' (snd (create_functions False [ex_function]
       \<lparr>fs_functions = [], fs_cache = []\<rparr>)))))"

lemma ex_functions_reachable: "function_reachable ex_functions"
proof -
  let ?a = "\<lparr>fs_functions = [], fs_cache = []\<rparr> :: function_store"
  let ?b = "snd (create_functions False [ex_function] ?a)"
  let ?c = "snd (projr (job_config ''<res.partner>.sync'' ?b))"
  have "\<not> isl (job_config ''<res.partner>.sync'' ?b)" by code_simp
  then have c: "\<exists>x. job_config ''<res.partner>.sync'' ?b = Inr (x, ?c)"
    by (cases "job_config ''<res.partner>.sync'' ?b") auto
  have "reachable function_start function_step ?a" by (rule reachable_start) (simp add: function_start_def)
  then have "reachable function_start function_step ?b"
    by (rule reachable_step [where e = "CreateFunctions False [ex_function]"]) simp
  then have "reachable function_start function_step ?c"
    by (rule reachable_step [where e = "AskConfig ''<res.partner>.sync''"]) (simp only: function_step.simps c)
  then show ?thesis
    unfolding function_reachable_def ex_functions_def
    by (rule reachable_step [where e = "WriteFunctions (\<lambda>f. f\<lparr>jf_channel := ''root.a''\<rparr>) {1}"]) simp
qed

theorem job_config_cache_coherent_witness:
  "(case job_config ''<res.partner>.sync'' ex_functions of Inl e \<Rightarrow> Inl e | Inr (c, st') \<Rightarrow> Inr (jc_channel c)) =
    Inr ''root.a''"
proof -
  let ?c = "job_config_uncached (fs_functions ex_functions) ''<res.partner>.sync''"
  have "\<not> isl ?c" and "jc_channel (projr ?c) = ''root.a''" by code_simp+
  with job_config_cache_coherent [OF ex_functions_reachable, of "''<res.partner>.sync''"]
  show ?thesis by (cases ?c) (auto split: sum.splits)
qed

end
