(* ===== verification/QueueProperties.thy ===== *)
theory QueueProperties
  imports JobSystem QueueJobViews TestJobs JobProperties
begin

text \<open>
  The properties of the table of the jobs under the operations that change it: the delay of graphs, the runner,
  the controller that runs a job, the buttons and wizards, the removal of old jobs; and those of the views
  on it and of the job channels. The tables at which they are applied come first.
\<close>

section \<open>A table with a chain of two jobs\<close>

definition ex_queue :: queue_env where
  "ex_queue = \<lparr>qe_job = ex_jenv ''u9'', qe_is_method = (\<lambda>_ _. True), qe_repr = (\<lambda>_. ''x''), qe_str = (\<lambda>_. ''x''),
     qe_key_func = (\<lambda>_. ''key''), qe_doc = (\<lambda>_ _. None), qe_uid = 2, qe_from_model = (\<lambda>_. [])\<rparr>"

definition ex_delay :: delay_env where
  "ex_delay = \<lparr>de_jenv = (\<lambda>v. ex_jenv (if v = 0 then ''u0'' else ''u1'')), de_is_method = (\<lambda>_ _. True),
     de_getenv = (\<lambda>_. None), de_context = (\<lambda>_. []), de_fresh_graph = ''g'', de_key_func = (\<lambda>_. ''key'')\<rparr>"

definition ex_chain :: graphs where
  "ex_chain = snd (projr (new_chain 2 [Single 0, Single 1] (snd (new_single 1 (snd (new_single 0 []))))))"

definition ex_table :: table where
  "ex_table = snd (snd (projr (delay ex_delay (store_delayed ex_queue) (\<lambda>_. ex_data) ex_chain 2 [])))"

definition ex_enqueued :: table where
  "ex_enqueued = set_job_enqueued 200 ''u0'' ex_table"

definition ex_run :: run_env where
  "ex_run = \<lparr>re_queue = ex_queue, re_pid = 7, re_start_error = None, re_end_error = None,
     re_work = (\<lambda>j db. (db, Inr (PInt 1))), re_retry_code = (\<lambda>c. c = ''40001''), re_class_name = (\<lambda>_. ''E''),
     re_traceback = (\<lambda>_. ''t''), re_randint = (\<lambda>a b. a), re_depends_errors = [(''40001'', ''m'')]\<rparr>"

definition ex_done :: table where
  "ex_done = fst (runjob ex_run ''u0'' [] ex_enqueued)"

lemma ex_tables:
  "map (\<lambda>r. (row_uuid r, row_state r)) ex_table = [(''u0'', Some PENDING), (''u1'', Some WAIT_DEPENDENCIES)]"
  "map (\<lambda>r. (row_uuid r, row_state r)) ex_enqueued = [(''u0'', Some ENQUEUED), (''u1'', Some WAIT_DEPENDENCIES)]"
  "map (\<lambda>r. (row_uuid r, row_state r)) ex_done = [(''u0'', Some DONE), (''u1'', Some PENDING)]"
  by code_simp+

lemma ex_delayed:
  "\<exists>js. connect_graphs ex_chain 2 = Inr [(0, [1]), (1, [])] \<and>
    delay ex_delay (store_delayed ex_queue) (\<lambda>_. ex_data) ex_chain 2 [] = Inr (Stored, js, ex_table)"
proof -
  let ?d = "delay ex_delay (store_delayed ex_queue) (\<lambda>_. ex_data) ex_chain 2 []"
  have "\<not> isl ?d" and "(case fst (projr ?d) of Stored \<Rightarrow> True | _ \<Rightarrow> False)" by code_simp+
  then have "?d = Inr (Stored, fst (snd (projr ?d)), ex_table)"
    unfolding ex_table_def by (cases ?d) (auto split: delay_outcome.splits)
  moreover have "connect_graphs ex_chain 2 = Inr [(0, [1]), (1, [])]" by code_simp
  ultimately show ?thesis by blast
qed

lemma ex_model [simp]: "env_ok (\<lambda>_ _. True) ex_queue" "model_ok ex_queue"
  by (simp_all add: env_ok_def model_ok_def ex_queue_def)

lemma ex_run_ok [simp]: "run_env_ok (\<lambda>_ _. True) ex_run"
  unfolding run_env_ok_def work_ok_def
  by (auto simp: ex_run_def DEPENDS_MAX_TRIES_ON_CONCURRENCY_FAILURE_def)

lemma ex_fresh: "fresh_env ex_delay (\<lambda>_. ex_data) [0, 1] []"
  by (simp add: fresh_env_def ex_delay_def ex_data_def delayable_init_def ex_jenv_def)

abbreviation any_method :: "string \<Rightarrow> string \<Rightarrow> bool" where
  "any_method \<equiv> \<lambda>_ _. True"

lemma ex_table_reachable: "job_reachable any_method ex_table"
proof -
  obtain js where d: "connect_graphs ex_chain 2 = Inr [(0, [1]), (1, [])]"
    "delay ex_delay (store_delayed ex_queue) (\<lambda>_. ex_data) ex_chain 2 [] = Inr (Stored, js, ex_table)"
    using ex_delayed by blast
  have "job_step any_method [] (DelayGraph ex_delay ex_queue (\<lambda>_. ex_data) ex_chain 2) ex_table"
    unfolding job_step.simps using d ex_fresh by (auto simp: ex_delay_def vertices_def)
  moreover have "reachable job_start (job_step any_method) []" by (rule reachable_start) (simp add: job_start_def)
  ultimately show ?thesis unfolding job_reachable_def by (rule reachable_step [rotated])
qed

lemma ex_states: "map_of (map (\<lambda>r. (row_uuid r, row_state r)) db) = m \<Longrightarrow> r \<in> set db \<Longrightarrow>
    distinct (map row_uuid db) \<Longrightarrow> m (row_uuid r) = Some (row_state r)"
  by (auto simp: comp_def)

lemma ex_enqueued_reachable: "job_reachable any_method ex_enqueued"
proof -
  have "distinct (map row_uuid ex_table)" by code_simp
  from ex_states [OF _ _ this] have "row_uuid r = ''u0'' \<longrightarrow> row_state r = Some PENDING" if "r \<in> set ex_table" for r
    using that by (fastforce simp: ex_tables)
  then have "job_step any_method ex_table (SetEnqueued 200 ''u0'') ex_enqueued"
    by (simp add: no_done_def ex_enqueued_def)
  then show ?thesis using ex_table_reachable unfolding job_reachable_def by (rule reachable_step [rotated])
qed

lemma ex_done_reachable: "job_reachable any_method ex_done"
proof -
  have "job_step any_method ex_enqueued (RunJob ex_run ''u0'' []) ex_done" by (simp add: ex_done_def)
  then show ?thesis using ex_enqueued_reachable unfolding job_reachable_def by (rule reachable_step [rotated])
qed

section \<open>Dependencies\<close>

lemma reachable_sys_ok:
  assumes "job_reachable im db"
  obtains qe where "env_ok im qe" "sys_ok qe db" "links_ok db" "dep_inv db"
  using jobs_reachable_inv [OF assms] by (auto simp: jobs_ok_inv_def sys_ok_def table_ok_def)

lemma reachable_sys:
  assumes "job_reachable im db" and "env_ok im qe"
  shows "model_ok qe \<and> sys_ok qe db"
  using jobs_ok_env [OF jobs_reachable_inv [OF assms(1)] assms(2)] assms(2) by (simp add: env_ok_def)

lemma active_parents:
  "dep_inv db \<Longrightarrow> r \<in> set db \<Longrightarrow> row_state r \<in> Some ` {PENDING, ENQUEUED, STARTED} \<Longrightarrow>
    \<forall>p\<in>set db. row_uuid p \<in> set (row_depends_on r) \<longrightarrow> row_state p = Some DONE"
  unfolding dep_inv_def parents_done_alt by (drule bspec, assumption) (elim conjE, drule mp, assumption)

lemma waiting_parent:
  "dep_inv db \<Longrightarrow> r \<in> set db \<Longrightarrow> row_state r = Some WAIT_DEPENDENCIES \<Longrightarrow>
    \<exists>p\<in>set db. row_uuid p \<in> set (row_depends_on r) \<and> row_state p \<noteq> Some DONE"
  unfolding dep_inv_def parents_done_alt by (drule bspec, assumption) simp



definition dep_rel :: "table \<Rightarrow> (string \<times> string) set" where
  "dep_rel db = {(row_uuid p, row_uuid r) |p r. p \<in> set db \<and> r \<in> set db \<and> row_uuid p \<in> set (row_depends_on r)}"

lemma finite_dep_rel: "finite (dep_rel db)"
proof -
  have "dep_rel db \<subseteq> row_uuid ` set db \<times> row_uuid ` set db" by (auto simp: dep_rel_def)
  then show ?thesis by (rule finite_subset) simp
qed



section \<open>Running a job\<close>

lemma state_of_row:
  assumes l: "links_ok db" and r: "r \<in> set db"
  shows "state_of db (row_uuid r) = row_state r"
proof (cases "find (\<lambda>x. row_uuid x = row_uuid r) db")
  case None
  then show ?thesis using r by (auto simp: find_None_iff)
next
  case (Some x)
  from find_SomeD [OF this] have x: "x \<in> set db" "row_uuid x = row_uuid r" by simp_all
  have "x = r" by (rule row_unique [OF l r x])
  then show ?thesis using Some by (simp add: state_of_def)
qed

lemma state_of_linked:
  assumes "links_ok db" and "\<exists>y\<in>set db. row_links y = row_links r \<and> P (row_state y)"
  shows "P (state_of db (row_uuid r))"
proof -
  obtain y where y: "y \<in> set db" "row_links y = row_links r" "P (row_state y)" using assms(2) by blast
  have "row_uuid y = row_uuid r" using y(2) by (simp add: row_links_def)
  then show ?thesis using state_of_row [OF assms(1) y(1)] y(3) by simp
qed

definition ended_as :: "run_env \<Rightarrow> attempt \<Rightarrow> JobState option \<Rightarrow> run_response \<Rightarrow> bool" where
  "ended_as re at st resp \<longleftrightarrow>
     (case map_option (convert_error re) (at_error at) of
        Some (RetryableJobError msg s i) \<Rightarrow>
          (case get_retry_seconds (re_randint re) s (at_job at) of
             Inl e \<Rightarrow> st \<in> Some ` {ENQUEUED, STARTED}
           | Inr n \<Rightarrow> resp = Answered \<and> st = Some PENDING)
      | err \<Rightarrow> resp = (if end_state err = FAILED then Raised (the err) else Answered) \<and> st = Some (end_state err))"

lemma runjob_ended:
  assumes reach: "job_reachable im db" and ok: "run_env_ok im re" and r: "r \<in> set db" "row_state r = Some ENQUEUED"
  shows "\<exists>j. load_job (re_queue re) db (row_uuid r) = Inr j \<and>
    (case runjob re (row_uuid r) locks db of
       (db', locks', resp) \<Rightarrow> ended_as re (try_perform_job re j locks db) (state_of db' (row_uuid r)) resp)"
proof -
  let ?qe = "re_queue re"
  have m: "model_ok ?qe" and sys: "sys_ok ?qe db" using reachable_sys [OF reach] ok by (auto simp: run_env_ok_def)
  have w: "work_ok re" and e: "\<forall>e\<in>set (re_depends_errors re). re_retry_code re (fst e)"
    "length (re_depends_errors re) \<le> 5" using ok by (auto simp: run_env_ok_def DEPENDS_MAX_TRIES_ON_CONCURRENCY_FAILURE_def)
  have t: "table_ok ?qe db" using sys by (simp add: sys_ok_def)
  obtain j where j: "load_job ?qe db (row_uuid r) = Inr j" "of_row j r"
    and run: "runjob re (row_uuid r) locks db =
      (let at = try_perform_job re j locks db
       in (fst (handle_attempt re (row_uuid r) at), at_locks at, snd (handle_attempt re (row_uuid r) at)))"
    using runjob_attempt [OF t r] by blast
  let ?at = "try_perform_job re j locks db"
  note tp = try_perform_ok [OF m w sys r j(2), of locks]
  note h = handle_attempt_ok [OF m e conjunct1 [OF tp] conjunct2 [OF tp]]
  let ?db = "fst (handle_attempt re (row_uuid r) ?at)"
  have l: "links_ok ?db" using h by (auto intro: sys_links)
  note st = state_of_linked [OF l, of r]
  have running: "still_running ?qe r ?db \<Longrightarrow> state_of ?db (row_uuid r) \<in> Some ` {ENQUEUED, STARTED}"
    unfolding still_running_def by (rule st) blast
  have ended: "y \<in> set ?db \<Longrightarrow> row_links y = row_links r \<Longrightarrow> state_of ?db (row_uuid r) = row_state y" for y
    by (rule st [of "\<lambda>x. x = row_state y"]) blast
  have "ended_as re ?at (state_of ?db (row_uuid r)) (snd (handle_attempt re (row_uuid r) ?at))"
    using conjunct2 [OF h] unfolding ended_as_def
    by (auto split: option.splits job_exc.splits sum.splits if_splits dest: ended running)
  then show ?thesis using j(1) run by (auto simp: Let_def)
qed

text \<open>C4: A request to run a job that is not enqueued does nothing. Otherwise the job is tried once, and ends
  as the outcome says: done when it returns or says there is nothing to do, pending when it is to be
  retried, also for a concurrency error of the database, and failed for any other exception, which is also
  raised. Only when no delay can be drawn for the retry the job is left as it was.\<close>

theorem runjob_outcome:
  assumes "job_reachable im db" and "run_env_ok im re" and "r \<in> set db"
  shows "if row_state r \<noteq> Some ENQUEUED then runjob re (row_uuid r) locks db = (db, locks, Answered)
    else \<exists>j. load_job (re_queue re) db (row_uuid r) = Inr j \<and>
      (case runjob re (row_uuid r) locks db of
         (db', locks', resp) \<Rightarrow> ended_as re (try_perform_job re j locks db) (state_of db' (row_uuid r)) resp)"
proof -
  obtain qe where l: "links_ok db" by (rule reachable_sys_ok [OF assms(1)])
  have "runjob re (row_uuid r) locks db = (db, locks, Answered)" if "row_state r \<noteq> Some ENQUEUED"
    using that row_unique [OF l assms(3)] unfolding runjob_def by auto
  then show ?thesis using runjob_ended [OF assms] by auto
qed

theorem runjob_outcome_witness:
  "\<exists>j. load_job ex_queue ex_enqueued ''u0'' = Inr j \<and>
     ended_as ex_run (try_perform_job ex_run j [] ex_enqueued) (state_of ex_done ''u0'') Answered"
proof -
  have "ex_enqueued \<noteq> []" and "row_state (hd ex_enqueued) = Some ENQUEUED" and "row_uuid (hd ex_enqueued) = ''u0''"
    and "(case snd (snd (runjob ex_run ''u0'' [] ex_enqueued)) of Answered \<Rightarrow> True | _ \<Rightarrow> False)" by code_simp+
  moreover from this(4) have "snd (snd (runjob ex_run ''u0'' [] ex_enqueued)) = Answered"
    by (simp split: run_response.splits)
  moreover have "re_queue ex_run = ex_queue" by (simp add: ex_run_def)
  ultimately show ?thesis
    using runjob_outcome [OF ex_enqueued_reachable ex_run_ok, of "hd ex_enqueued" "[]"]
    by (simp add: ex_done_def case_prod_beta)
qed

section \<open>Changes of state\<close>

text \<open>What a change of state means for the links and the states of the jobs alone.\<close>

type_synonym entry = "(string \<times> string option \<times> string list \<times> string list) \<times> JobState option"

definition parents_in :: "entry list \<Rightarrow> entry \<Rightarrow> entry set" where
  "parents_in t e = {p. p \<in> set t \<and> fst (fst p) \<in> set (fst (snd (snd (fst e))))}"

definition spec_set :: "string \<Rightarrow> (entry \<Rightarrow> JobState) \<Rightarrow> entry list \<Rightarrow> entry list" where
  "spec_set u st t = map (\<lambda>e. if fst (fst e) = u then (fst e, Some (st e)) else e) t"

definition spec_children :: "string \<Rightarrow> JobState \<Rightarrow> JobState \<Rightarrow> entry list \<Rightarrow> entry list" where
  "spec_children u all new t =
     map (\<lambda>e. if snd e = Some WAIT_DEPENDENCIES \<and> u \<in> set (fst (snd (snd (fst e)))) \<and>
                 (\<forall>p\<in>parents_in t e. snd p = Some all) then (fst e, Some new) else e) t"

definition spec_change :: "JobState \<Rightarrow> string \<Rightarrow> entry list \<Rightarrow> entry list" where
  "spec_change st u t =
     (case st of
        DONE \<Rightarrow> spec_children u DONE PENDING (spec_set u (\<lambda>_. DONE) t)
      | CANCELLED \<Rightarrow> spec_children u CANCELLED CANCELLED (spec_set u (\<lambda>_. CANCELLED) t)
      | _ \<Rightarrow> spec_set u (\<lambda>e. if \<forall>p\<in>parents_in t e. snd p = Some DONE then PENDING else WAIT_DEPENDENCIES) t)"

lemma row_links_simps: "fst (row_links r) = row_uuid r" "fst (snd (snd (row_links r))) = row_depends_on r"
  by (simp_all add: row_links_def)

lemma image_conj: "{p. p \<in> f ` A \<and> Q p} = f ` {x. x \<in> A \<and> Q (f x)}"
  by blast

lemma parents_in_tab:
  "parents_in (tab db) (row_links r, s) = (\<lambda>p. (row_links p, row_state p)) ` set (parents db r)"
  by (simp only: parents_in_def tab_def set_map image_conj row_links_simps fst_conv snd_conv parents_def set_filter
      mem_Collect_eq)

lemma all_parents_in:
  "(\<forall>p\<in>parents_in (tab db) (row_links r, s). snd p = Some st) \<longleftrightarrow> all_parents st db r"
  by (simp only: parents_in_tab all_parents_def ball_simps snd_conv)

lemma tab_children:
  assumes "links_ok db" and "job \<in> set db" and "row_uuid job = u"
  shows "tab (dependent_jobs_update new u all db) = spec_children u all new (tab db)"
  unfolding dependent_jobs_update_links [OF assms] spec_children_def
  unfolding tab_def [of db] map_map comp_def all_parents_in [unfolded tab_def]
  by (simp add: tab_def row_links_simps)

lemma tab_set_state:
  assumes "\<And>r. r \<in> set db \<Longrightarrow> row_uuid r = u \<Longrightarrow> st (row_links r, row_state r) = x"
  shows "tab (set_state_of u x db) = spec_set u st (tab db)"
  using assms by (simp add: tab_def set_state_of_def spec_set_def row_links_simps)

lemma after_change_spec:
  assumes l: "links_ok db" and r: "r \<in> set db" and st: "st \<in> {DONE, PENDING, CANCELLED}"
  shows "tab (after_change st r db) = spec_change st (row_uuid r) (tab db)"
proof -
  let ?u = "row_uuid r"
  have c: "tab (dependent_jobs_update new ?u all (set_state_of ?u x db)) =
      spec_children ?u all new (spec_set ?u (\<lambda>_. x) (tab db))" for new all x
  proof -
    have "set_row_state x r \<in> set (set_state_of ?u x db)" using r by (auto simp: set_state_of_def)
    then have "tab (dependent_jobs_update new ?u all (set_state_of ?u x db)) =
        spec_children ?u all new (tab (set_state_of ?u x db))"
      by (intro tab_children [where job = "set_row_state x r"]) (simp_all add: l)
    then show ?thesis by (simp add: tab_set_state)
  qed
  have p: "tab (set_state_of ?u (if parents_done db r then PENDING else WAIT_DEPENDENCIES) db) =
      spec_set ?u (\<lambda>e. if \<forall>p\<in>parents_in (tab db) e. snd p = Some DONE then PENDING else WAIT_DEPENDENCIES) (tab db)"
    using row_unique [OF l r] by (intro tab_set_state) (auto simp: all_parents_in all_parents_def parents_done_def)
  show ?thesis
    using st p by (auto simp: after_change_def spec_change_def enqueue_waiting_def cancel_dependent_jobs_def c)
qed



section \<open>Delaying\<close>

text \<open>C8: When a graph is delayed and not replaced by an existing job or executed at once, its jobs are added
  to the table, one for each vertex, with new uuids and one graph uuid unless there is only one: each names
  the jobs of the vertices before and after it as parents and children, waits if it has a parent, and is
  pending otherwise. The other rows stay; when the jobs are replaced or executed nothing is stored.\<close>

theorem delay_stores_graph:
  assumes "job_reachable im db" and "env_ok im qe" and "de_is_method env = im"
    and "connect_graphs gs i = Inr g" and "fresh_env env data (vertices g) db"
    and "delay env (store_delayed qe) data gs i db = Inr (out, js, db')"
  shows "if out \<noteq> Stored then db' = db
    else \<exists>R. db' = db @ map R (vertices g) \<and> distinct (map row_uuid db') \<and>
      (\<forall>v\<in>set (vertices g). row_uuid (R v) = je_fresh_uuid (de_jenv env v) \<and>
         row_graph (R v) = (if length g = 1 then None else Some (de_fresh_graph env)) \<and>
         set (row_depends_on (R v)) = (\<lambda>p. je_fresh_uuid (de_jenv env p)) ` {p. (p, v) \<in> edge_set g} \<and>
         set (row_reverse_depends_on (R v)) = (\<lambda>c. je_fresh_uuid (de_jenv env c)) ` {c. (v, c) \<in> edge_set g} \<and>
         row_state (R v) = Some (if \<exists>p. (p, v) \<in> edge_set g then WAIT_DEPENDENCIES else PENDING))"
proof (cases "out = Stored")
  case True
  have s: "sys_ok qe db" using reachable_sys [OF assms(1,2)] by simp
  have im: "de_is_method env = qe_is_method qe" using assms(2,3) by (simp add: env_ok_def)
  obtain R where R: "db' = db @ map R (vertices g)" "sys_ok qe (db @ map R (vertices g))"
    "new_rows db (\<lambda>v. je_fresh_uuid (de_jenv env v)) (if length g = 1 then None else Some (de_fresh_graph env))
      (edge_set g) (vertices g) R"
    using delay_ok [OF s im assms(6) [unfolded True] assms(4,5)] by blast
  have D: "distinct (map row_uuid db')" using sys_links [OF R(2)] R(1) by (simp add: links_ok_def)
  have n: "\<not> out \<noteq> Stored" using True by simp
  show ?thesis
    unfolding if_not_P [OF n] by (intro exI conjI ballI; (rule R(1) D | rule new_rowsD(5-9) [OF R(3)], assumption))
next
  case False
  then show ?thesis using delay_other [OF assms(6) False] by simp
qed

theorem delay_stores_graph_witness:
  "\<exists>R :: nat \<Rightarrow> row. ex_table = [] @ map R [0, 1] \<and> row_state (R 1) = Some WAIT_DEPENDENCIES \<and> row_uuid (R 1) = ''u1''"
proof -
  obtain js where d: "connect_graphs ex_chain 2 = Inr [(0, [1]), (1, [])]"
    "delay ex_delay (store_delayed ex_queue) (\<lambda>_. ex_data) ex_chain 2 [] = Inr (Stored, js, ex_table)"
    using ex_delayed by blast
  have "job_reachable any_method []"
    unfolding job_reachable_def by (rule reachable_start) (simp add: job_start_def)
  have v: "vertices [(0, [1]), (1, [])] = [0, 1::nat]" by (simp add: vertices_def)
  have im: "de_is_method ex_delay = any_method" by (simp add: ex_delay_def)
  have f: "fresh_env ex_delay (\<lambda>_. ex_data) (vertices [(0, [1]), (1, [])]) []" unfolding v by (rule ex_fresh)
  have e: "\<exists>p. (p, 1::nat) \<in> edge_set [(0::nat, [1]), (1, [])]" by (auto simp: edge_set_def)
  have n: "\<not> Stored \<noteq> Stored" by simp
  from delay_stores_graph [OF \<open>job_reachable any_method []\<close> ex_model(1) im d(1) f d(2), unfolded if_not_P [OF n] v]
  obtain R :: "nat \<Rightarrow> row" where R: "ex_table = [] @ map R [0, 1]" "row_uuid (R 1) = je_fresh_uuid (de_jenv ex_delay 1)"
    "row_state (R 1) = Some (if \<exists>p. (p, 1) \<in> edge_set [(0::nat, [1::nat]), (1, [])] then WAIT_DEPENDENCIES else PENDING)"
    unfolding list.set ball_simps by (elim exE conjE) (erule that)
  with e show ?thesis by (intro exI [of _ R]) (auto simp: ex_delay_def ex_jenv_def)
qed

section \<open>Dead jobs\<close>

lemma requeue_dead_fields:
  "row_links (requeue_dead_row r) = row_links r"
  "row_state (requeue_dead_row r) = Some (if too_many_retries r then FAILED else PENDING)"
  "fld ''retry'' (requeue_dead_row r) =
     (if row_state r = Some STARTED then PInt ((case val_int (fld ''retry'' r) of None \<Rightarrow> 0 | Some n \<Rightarrow> n) + 1)
      else fld ''retry'' r)"
  by (simp_all add: requeue_dead_row_def row_links_def row_uuid_def row_graph_def row_depends_on_def
      row_reverse_depends_on_def row_state_def fld_dict_set)
     (simp_all add: fld_def state_of_name_def split: option.splits pyval.splits)


section \<open>The guards of the jobs\<close>

lemma fld_not_none [simp]: "fld k r \<noteq> PNone"
  by (simp add: fld_def split: option.split pyval.split)

lemma fld_write_row:
  assumes "k \<notin> fst ` set vals"
  shows "fld k (write_row uid vals r) = fld k r \<or>
    k = ''records'' \<and> (\<exists>u. fld k (write_row uid vals r) = with_user u (fld k r))"
proof -
  have u: "fld k (dict_update r vals) = fld k r" using assms by (simp add: fld_def dict_update_other)
  have w: "with_user x (fld k r) \<noteq> PNone" for x by (simp add: with_user_def split: pyval.split)
  have f: "fld ''records'' [(''records'', v)] = (if v = PNone then PBool False else v)" for v
    by (simp add: fld_def split: pyval.splits)
  show ?thesis
    using u w by (auto simp: write_row_def Let_def fld_dict_set f split: pyval.splits if_splits)
qed

text \<open>C24: Without the sentinel of the add-on no job can be created, and a write that is accepted keeps in all
  jobs what identifies the job and what it runs, except that the records of a job may get the environment of
  another user, without superuser rights.\<close>

theorem protected_fields_kept:
  assumes "queue_job_write False uid vals uuids db = Inr db'"
  shows "queue_job_create False vals_list db = Inl AccessError \<and> length db' = length db \<and>
    (\<forall>i<length db. \<forall>k\<in>{''uuid'', ''name'', ''date_created'', ''model_name'', ''method_name'', ''func_string'',
        ''channel_method_name'', ''job_function_id'', ''records'', ''args'', ''kwargs''}. fld k (db' ! i) = fld k (db ! i) \<or>
       k = ''records'' \<and> (\<exists>u. fld k (db' ! i) = with_user u (fld k (db ! i))))"
proof -
  have n: "k \<notin> fst ` set vals" if "k \<in> set protected_fields" for k
    using assms that by (auto simp: queue_job_write_def filter_empty_conv split: if_splits)
  have d: "db' = map (\<lambda>r. if row_uuid r \<in> set uuids then write_row uid vals r else r) db"
    using assms by (auto simp: queue_job_write_def split: if_splits)
  have "{''uuid'', ''name'', ''date_created'', ''model_name'', ''method_name'', ''func_string'',
      ''channel_method_name'', ''job_function_id'', ''records'', ''args'', ''kwargs''} = set protected_fields"
    by (simp only: protected_fields_def list.set)
  then show ?thesis
    unfolding d using fld_write_row [OF n] by (simp only: queue_job_create_def) auto
qed

theorem protected_fields_kept_witness:
  "\<exists>db'. queue_job_write False 1 [(''priority'', PInt 3), (''user_id'', PInt 5)] [''u0''] ex_table = Inr db' \<and>
    (fld ''records'' (db' ! 0) = fld ''records'' (ex_table ! 0) \<or>
     (\<exists>u. fld ''records'' (db' ! 0) = with_user u (fld ''records'' (ex_table ! 0)))) \<and>
    fld ''args'' (db' ! 0) = fld ''args'' (ex_table ! 0)"
proof -
  let ?w = "queue_job_write False 1 [(''priority'', PInt 3), (''user_id'', PInt 5)] [''u0''] ex_table"
  have "\<exists>db'. ?w = Inr db'" by (simp add: queue_job_write_def protected_fields_def)
  then obtain db' where w: "?w = Inr db'" by blast
  have l: "0 < length ex_table" by code_simp
  note x = protected_fields_kept [OF w, of "[]", THEN conjunct2, THEN conjunct2, rule_format, OF l]
  from x [of "''records''"] x [of "''args''"] w show ?thesis by auto
qed

section \<open>Old jobs\<close>

text \<open>The removal of old jobs ends, however many there are, and it removes exactly the jobs that were done
  or cancelled before the interval of their channel, for the channels that there are.\<close>

theorem autovacuum_correct:
  assumes "distinct (map row_id db)"
  shows "autovacuum day now channels db =
    filter (\<lambda>r. \<not> (\<exists>c\<in>set channels. old_job (now - qc_removal_interval c * day) (qc_complete_name c) r)) db"
  by (rule autovacuum_filter [OF assms])

definition ex_channels :: "queue_channel list" where
  "ex_channels = [\<lparr>qc_id = 1, qc_name = ''root'', qc_parent = None, qc_complete_name = ''root'',
      qc_removal_interval = 30, qc_noupdate = True\<rparr>,
    \<lparr>qc_id = 2, qc_name = ''a'', qc_parent = Some 1, qc_complete_name = ''root.a'', qc_removal_interval = 5,
      qc_noupdate = False\<rparr>]"

definition ex_old :: table where
  "ex_old = map (\<lambda>(i, d, c). [(''id'', PInt i), (''channel'', PStr c), (''date_done'', opt_val PDatetime d)])
     [(1, Some 50, ''root''), (2, Some 95, ''root''), (3, Some 90, ''root.a''), (4, None, ''root'')]"

theorem autovacuum_correct_witness:
  "map row_id (autovacuum 1 100 ex_channels ex_old) = [2, 4]"
proof -
  have "distinct (map row_id ex_old)" by code_simp
  moreover have "map row_id (filter (\<lambda>r. \<not> (\<exists>c\<in>set ex_channels.
      old_job (100 - qc_removal_interval c * 1) (qc_complete_name c) r)) ex_old) = [2, 4]" by code_simp
  ultimately show ?thesis using autovacuum_correct [of ex_old 1 100 ex_channels] by simp
qed

section \<open>Tries\<close>

text \<open>The update of the jobs that depend on a job that is done takes effect, once, if each of its failures
  may be tried again and there are at most five of them; otherwise it raises the error and takes none.\<close>

theorem dependent_jobs_tries:
  "enqueue_dependent_jobs retry_code errors 0 uuid db = Inr db' \<longleftrightarrow>
     (\<forall>e\<in>set errors. retry_code (fst e)) \<and> length errors \<le> 5 \<and> db' = enqueue_waiting uuid db"
  by (auto simp: enqueue_dependent_jobs_ok)

theorem dependent_jobs_tries_witness:
  "enqueue_dependent_jobs (\<lambda>c. c = ''40001'') (replicate 5 (''40001'', ''m'')) 0 ''u0'' ex_done =
     Inr (enqueue_waiting ''u0'' ex_done) \<and>
   enqueue_dependent_jobs (\<lambda>c. c = ''40001'') (replicate 6 (''40001'', ''m'')) 0 ''u0'' ex_done \<noteq>
     Inr (enqueue_waiting ''u0'' ex_done)"
  using dependent_jobs_tries [of "\<lambda>c. c = ''40001''" "replicate 5 (''40001'', ''m'')" "''u0''" ex_done]
    dependent_jobs_tries [of "\<lambda>c. c = ''40001''" "replicate 6 (''40001'', ''m'')" "''u0''" ex_done]
  by simp

section \<open>The graph of a job\<close>

text \<open>The graph that is shown for a job has one node for each job of its graph, and an edge from one to
  another exactly if one of them names the other as its parent or its child.\<close>

theorem dependency_graph_correct:
  assumes g: "row_graph r \<noteq> None" "row_graph r \<noteq> Some []" and r: "r \<in> set db"
    and d: "distinct (map row_uuid db)" and i: "\<forall>s\<in>set db. row_id s \<noteq> 0"
  shows "\<exists>ns es. compute_dependency_graph esc db r = Inr (Some (ns, es)) \<and>
    distinct (map vn_id ns) \<and> vn_id ` set ns = row_id ` set (graph_jobs db r) \<and>
    set es = {(row_id p, row_id c) |p c. p \<in> set (graph_jobs db r) \<and> c \<in> set (graph_jobs db r) \<and>
      (row_uuid p \<in> set (row_depends_on c) \<or> row_uuid c \<in> set (row_reverse_depends_on p))}"
proof -
  let ?jobs = "graph_jobs db r"
  have d': "distinct (map row_uuid ?jobs)" using d by (simp add: graph_jobs_def distinct_map_filter)
  have i': "\<forall>s\<in>set ?jobs. row_id s \<noteq> 0" using i by (simp add: graph_jobs_def)
  note ok = graph_of_jobs_ok [OF d' i']
  obtain ns where ns: "vis_nodes esc ?jobs (vertices (graph_of_jobs ?jobs)) = Inr ns"
    "map vn_id ns = vertices (graph_of_jobs ?jobs)"
    using vis_nodes_ok [of "vertices (graph_of_jobs ?jobs)" ?jobs esc] ok by auto
  have dv: "distinct (map fst (graph_of_jobs ?jobs))" using ok by (simp add: graph_ok_def)
  have "?jobs \<noteq> []" using r by (auto simp: graph_jobs_def filter_empty_conv)
  then have c: "compute_dependency_graph esc db r = Inr (Some (ns, edges (graph_of_jobs ?jobs)))"
    using g ns(1) by (simp add: compute_dependency_graph_def Let_def)
  have n: "distinct (map vn_id ns)" unfolding ns(2) using dv by (simp add: vertices_def)
  have v: "vn_id ` set ns = row_id ` set ?jobs" using ok ns(2) by (metis set_map)
  have e: "set (edges (graph_of_jobs ?jobs)) = edge_set (graph_of_jobs ?jobs)" by (rule set_edges [OF dv])
  show ?thesis
    by (intro exI conjI, rule c, rule n, rule v) (simp only: e ok)
qed

definition ex_ids :: table where
  "ex_ids = map (\<lambda>(i, r). dict_set ''id'' (PInt i) r) (zip [11, 12] ex_table)"

theorem dependency_graph_correct_witness:
  "\<exists>ns es. compute_dependency_graph id ex_ids (hd ex_ids) = Inr (Some (ns, es)) \<and>
    vn_id ` set ns = row_id ` set (graph_jobs ex_ids (hd ex_ids))"
proof -
  have "row_graph (hd ex_ids) = Some ''g''" "ex_ids \<noteq> []" "distinct (map row_uuid ex_ids)"
    "\<forall>s\<in>set ex_ids. row_id s \<noteq> 0" by code_simp+
  then show ?thesis using dependency_graph_correct [of "hd ex_ids" ex_ids id] by fastforce
qed

section \<open>Job channels\<close>

text \<open>Whatever channels are created, written and removed by the users, a channel \<open>root\<close> without a parent
  and with this complete name stays.\<close>

theorem root_channel_stays:
  assumes "channels_reachable cs"
  shows "\<exists>c\<in>set cs. qc_name c = ''root'' \<and> qc_parent c = None \<and> qc_complete_name c = ''root''"
  using channels_reachable_root [OF assms] by (simp add: has_root_def)

definition ex_root :: "queue_channel list" where
  "ex_root = [hd ex_channels]"

theorem root_channel_stays_witness:
  "\<exists>cs. channel_create False [hd (tl ex_channels)] ex_root = Inr ([2], cs) \<and>
     (\<exists>c\<in>set cs. qc_name c = ''root'' \<and> qc_parent c = None \<and> qc_complete_name c = ''root'')"
proof -
  have "fst (projr (channel_create False [hd (tl ex_channels)] ex_root)) = [2]"
    "\<not> isl (channel_create False [hd (tl ex_channels)] ex_root)" by code_simp+
  then obtain cs where cs: "channel_create False [hd (tl ex_channels)] ex_root = Inr ([2], cs)"
    by (cases "channel_create False [hd (tl ex_channels)] ex_root") (auto simp: prod_eq_iff)
  have "reachable channel_start channel_step ex_root"
    by (rule reachable_start) (simp add: channel_start_def ex_root_def ex_channels_def, rule exI [of _ True], simp)
  then have "channels_reachable cs"
    unfolding channels_reachable_def by (rule reachable_step [where e = "CreateChannels [hd (tl ex_channels)]"])
       (use cs in \<open>simp only: channel_step.simps, blast\<close>)
  from root_channel_stays [OF this] cs show ?thesis by blast
qed

end
