(* ===== verification/SaleTransfer.thy ===== *)
theory SaleTransfer
  imports PyString "HOL-Library.Multiset" "HOL-Library.Sublist"
begin

text \<open>
  The export of the pickings of a sale: \<open>_to_export_format\<close> of \<open>integration/models/stock_picking.py\<close>, and
  the classes \<open>PickingLine\<close>, \<open>PickingSerializer\<close> and \<open>SaleTransferSerializer\<close> of \<open>integration/tools.py\<close>,
  which drop the lines that several pickings repeat. The quantities that the ORM sums and rounds are given;
  \<open>groupby\<close> of Odoo is an argument.
\<close>

section \<open>Lines\<close>

record PickingLine =
  pl_external_id :: string
  pl_qty_demand :: int
  pl_qty_done :: int
  pl_is_kit :: bool
  pl_multi_serialization :: bool

definition get_qty :: "PickingLine \<Rightarrow> int" where
  "get_qty l = (if pl_is_kit l \<and> pl_multi_serialization l then pl_qty_demand l else pl_qty_done l)"

definition line_is_done :: "PickingLine \<Rightarrow> bool" where
  "line_is_done l \<longleftrightarrow> pl_qty_demand l = get_qty l"

definition line_serialize :: "PickingLine \<Rightarrow> string \<times> int" where
  "line_serialize l = (pl_external_id l, get_qty l)"

text \<open>A stock move as the export sees it: the external identifier of its order line if it has one, the
  delivered and the ordered quantities of the related order lines, the quantity of the move.\<close>

record move =
  mv_external_id :: "string option"
  mv_delivered :: int
  mv_ordered :: int
  mv_quantity :: int
  mv_is_kit :: bool

record move_data =
  md_qty_demand :: int
  md_qty_done :: int
  md_is_kit :: bool

definition move_qty_done :: "bool \<Rightarrow> move \<Rightarrow> int" where
  "move_qty_done multi m =
     (if mv_is_kit m then (if multi then mv_delivered m else mv_ordered m) else mv_quantity m)"

text \<open>The first move of an order line decides its demand and whether it is a kit; a later one adds its
  quantity, or for a kit raises it.\<close>

fun serialize_moves :: "bool \<Rightarrow> move list \<Rightarrow> (string \<times> move_data) list \<Rightarrow> (string \<times> move_data) list" where
  "serialize_moves multi [] acc = acc"
| "serialize_moves multi (m # ms) acc =
     (case mv_external_id m of
        None \<Rightarrow> serialize_moves multi ms acc
      | Some [] \<Rightarrow> serialize_moves multi ms acc
      | Some e \<Rightarrow>
          (let q = move_qty_done multi m in
           case map_of acc e of
             None \<Rightarrow> serialize_moves multi ms
               (dict_set e \<lparr>md_qty_demand = mv_delivered m, md_qty_done = q, md_is_kit = mv_is_kit m\<rparr> acc)
           | Some d \<Rightarrow> serialize_moves multi ms
               (dict_set e (d\<lparr>md_qty_done := if mv_is_kit m then max (md_qty_done d) q else md_qty_done d + q\<rparr>) acc)))"

definition moves_to_lines :: "bool \<Rightarrow> move list \<Rightarrow> PickingLine list" where
  "moves_to_lines multi ms =
     map (\<lambda>(e, d). \<lparr>pl_external_id = e, pl_qty_demand = md_qty_demand d, pl_qty_done = md_qty_done d,
                   pl_is_kit = md_is_kit d, pl_multi_serialization = multi\<rparr>) (serialize_moves multi ms [])"

section \<open>Pickings\<close>

text \<open>The attributes of the data and those of the object; a sequence of zero stands for \<open>None\<close>.\<close>

record Picking =
  pk_erp_id :: int
  pk_name :: string
  pk_carrier :: string
  pk_carrier_code :: string
  pk_tracking :: string
  pk_is_backorder :: bool
  pk_is_dropship :: bool
  pk_lines :: "PickingLine list"
  pk_approved_lines :: "PickingLine list"
  pk_sequence :: nat

type_synonym grouping = "PickingLine list \<Rightarrow> (string \<times> PickingLine list) list"

text \<open>What \<open>groupby\<close> of Odoo does with the key \<open>external_id\<close>.\<close>

definition groups_ok :: "grouping \<Rightarrow> bool" where
  "groups_ok groupby \<longleftrightarrow> (\<forall>ls. distinct (map fst (groupby ls)) \<and> fst ` set (groupby ls) = pl_external_id ` set ls \<and>
     (\<forall>(k, g)\<in>set (groupby ls). g = filter (\<lambda>l. pl_external_id l = k) ls))"

definition approve_lines :: "grouping \<Rightarrow> PickingLine list \<Rightarrow> PickingLine list" where
  "approve_lines groupby ls = map (\<lambda>(k, g). last (sort_key get_qty g)) (groupby ls)"

definition picking_init :: "grouping \<Rightarrow> Picking \<Rightarrow> PickingLine list \<Rightarrow> Picking" where
  "picking_init groupby data ls =
     data\<lparr>pk_lines := ls, pk_approved_lines := approve_lines groupby ls, pk_sequence := 0\<rparr>"

definition approved :: "Picking \<Rightarrow> bool" where
  "approved p \<longleftrightarrow> pk_approved_lines p \<noteq> []"

definition kit_ids :: "Picking \<Rightarrow> string set" where
  "kit_ids p = pl_external_id ` set (filter pl_is_kit (pk_approved_lines p))"

definition done_ids :: "Picking \<Rightarrow> string set" where
  "done_ids p = pl_external_id ` set (filter line_is_done (pk_approved_lines p))"

definition pending_ids :: "Picking \<Rightarrow> string set" where
  "pending_ids p = pl_external_id ` set (filter (\<lambda>l. \<not> line_is_done l) (pk_approved_lines p))"

definition has_components :: "Picking \<Rightarrow> bool" where
  "has_components p \<longleftrightarrow> kit_ids p \<noteq> {}"

record picking_data =
  pd_name :: string
  pd_carrier :: string
  pd_carrier_code :: string
  pd_tracking :: string
  pd_picking_id :: int
  pd_lines :: "(string \<times> int) list"

definition picking_serialize :: "Picking \<Rightarrow> picking_data" where
  "picking_serialize p =
     \<lparr>pd_name = pk_name p, pd_carrier = pk_carrier p, pd_carrier_code = pk_carrier_code p,
      pd_tracking = pk_tracking p, pd_picking_id = pk_erp_id p,
      pd_lines = map line_serialize (pk_approved_lines p)\<rparr>"

definition extend_tracking :: "string \<Rightarrow> Picking \<Rightarrow> Picking" where
  "extend_tracking ext p =
     p\<lparr>pk_tracking := py_join '', '' (filter (\<lambda>s. s \<noteq> []) [pk_tracking p, ext])\<rparr>"

definition drop_lines :: "string set \<Rightarrow> Picking \<Rightarrow> Picking" where
  "drop_lines ids p = p\<lparr>pk_approved_lines := filter (\<lambda>l. pl_external_id l \<notin> ids) (pk_approved_lines p)\<rparr>"

section \<open>Transfers\<close>

text \<open>The pickings of a transfer are iterated from the last to the first.\<close>

definition iter :: "Picking list \<Rightarrow> Picking list" where
  "iter ps = rev ps"

definition transfers :: "Picking list \<Rightarrow> Picking list" where
  "transfers ps = sort_key pk_erp_id (filter (\<lambda>p. \<not> pk_is_dropship p \<and> \<not> pk_is_backorder p) (iter ps))"

definition backorders :: "Picking list \<Rightarrow> Picking list" where
  "backorders ps = sort_key pk_erp_id (filter (\<lambda>p. pk_is_backorder p \<and> \<not> pk_is_dropship p) (iter ps))"

definition dropships :: "Picking list \<Rightarrow> Picking list" where
  "dropships ps = sort_key pk_erp_id (filter (\<lambda>p. pk_is_dropship p \<and> \<not> pk_is_backorder p) (iter ps))"

definition mixed :: "Picking list \<Rightarrow> Picking list" where
  "mixed ps = sort_key pk_erp_id (filter (\<lambda>p. pk_is_dropship p \<and> pk_is_backorder p) (iter ps))"

definition initial_setup :: "Picking list \<Rightarrow> Picking list" where
  "initial_setup ps =
     map (\<lambda>(i, p). p\<lparr>pk_sequence := i\<rparr>)
       (enumerate 1 (transfers ps @ backorders ps @ dropships ps @ mixed ps))"

definition get_rest :: "nat \<Rightarrow> Picking list \<Rightarrow> Picking list" where
  "get_rest sequence ps = sort_key pk_sequence (filter (\<lambda>p. pk_sequence p \<noteq> sequence) (iter ps))"

text \<open>The picking at an index is changed in place.\<close>

definition drop_duplicated_kit_lines :: "nat \<Rightarrow> Picking list \<Rightarrow> Picking list" where
  "drop_duplicated_kit_lines i ps =
     ps[i := drop_lines (kit_ids (ps ! i) \<inter> \<Union> (kit_ids ` set (get_rest (pk_sequence (ps ! i)) ps))) (ps ! i)]"

definition drop_duplicated_done_lines :: "nat \<Rightarrow> Picking list \<Rightarrow> Picking list" where
  "drop_duplicated_done_lines i ps =
     ps[i := drop_lines (pending_ids (ps ! i) \<inter> \<Union> (done_ids ` set (get_rest (pk_sequence (ps ! i)) ps))) (ps ! i)]"

text \<open>The last approved picking of the iteration takes the tracking.\<close>

definition reassign_tracking :: "string \<Rightarrow> Picking list \<Rightarrow> Picking list" where
  "reassign_tracking tracking ps =
     (case filter (\<lambda>i. approved (ps ! i)) (rev [0..<length ps]) of
        [] \<Rightarrow> ps
      | is \<Rightarrow> ps[last is := extend_tracking tracking (ps ! last is)])"

definition squash_at :: "nat \<Rightarrow> Picking list \<Rightarrow> Picking list" where
  "squash_at i ps =
     (let ps1 = drop_duplicated_done_lines i (drop_duplicated_kit_lines i ps)
      in if approved (ps1 ! i) then ps1 else reassign_tracking (pk_tracking (ps1 ! i)) ps1)"

definition squash :: "Picking list \<Rightarrow> Picking list" where
  "squash ps = foldl (\<lambda>ps i. squash_at i ps) ps (rev [0..<length ps])"

definition dump :: "Picking list \<Rightarrow> picking_data list" where
  "dump ps = rev (map picking_serialize (filter approved (iter ps)))"

definition export_transfer :: "Picking list \<Rightarrow> picking_data list" where
  "export_transfer ps = dump (squash (initial_setup ps))"

section \<open>The export of records\<close>

text \<open>A picking of the database; a text that is not set is empty. The external codes of its carrier and of the
  location of its warehouse are given.\<close>

record stock_picking =
  sp_id :: int
  sp_name :: string
  sp_carrier :: string
  sp_external_carrier_code :: string
  sp_tracking_ref :: string
  sp_backorder :: bool
  sp_dropship :: bool
  sp_moves :: "move list"
  sp_external_location :: string

definition picking_args :: "stock_picking \<Rightarrow> Picking" where
  "picking_args sp =
     \<lparr>pk_erp_id = sp_id sp, pk_name = sp_name sp, pk_carrier = sp_carrier sp,
      pk_carrier_code = (if sp_external_carrier_code sp \<noteq> [] then sp_external_carrier_code sp else sp_carrier sp),
      pk_tracking = sp_tracking_ref sp, pk_is_backorder = sp_backorder sp, pk_is_dropship = sp_dropship sp,
      pk_lines = [], pk_approved_lines = [], pk_sequence = 0\<rparr>"

definition to_export_format0 :: "grouping \<Rightarrow> bool \<Rightarrow> stock_picking \<Rightarrow> Picking" where
  "to_export_format0 groupby multi sp = picking_init groupby (picking_args sp) (moves_to_lines multi (sp_moves sp))"

text \<open>The data that is exported, with the external identifier of the location.\<close>

definition to_export_format :: "grouping \<Rightarrow> stock_picking \<Rightarrow> picking_data \<times> string" where
  "to_export_format groupby sp = (picking_serialize (to_export_format0 groupby False sp), sp_external_location sp)"

definition location_of :: "stock_picking list \<Rightarrow> int \<Rightarrow> string" where
  "location_of sps i = (case filter (\<lambda>sp. sp_id sp = i) sps of [] \<Rightarrow> [] | sp # _ \<Rightarrow> sp_external_location sp)"

definition to_export_format_multi :: "grouping \<Rightarrow> stock_picking list \<Rightarrow> (picking_data \<times> string) list" where
  "to_export_format_multi groupby sps =
     map (\<lambda>d. (d, location_of sps (pd_picking_id d)))
       (export_transfer (map (to_export_format0 groupby True) sps))"

end
