(* ===== verification/SaleTransferFacts.thy ===== *)
theory SaleTransferFacts
  imports SaleTransfer
begin

text \<open>
  What dropping repeated lines keeps and what it removes: no order line is lost, no kit is left in two
  pickings, no line stays open in one picking that another one completes, and no tracking reference is lost.
\<close>

section \<open>The order of the pickings\<close>

lemma mset_initial_order: "mset (transfers ps @ backorders ps @ dropships ps @ mixed ps) = mset ps"
proof -
  have "mset (filter (\<lambda>p. \<not> pk_is_dropship p \<and> \<not> pk_is_backorder p) ps) +
      mset (filter (\<lambda>p. pk_is_backorder p \<and> \<not> pk_is_dropship p) ps) +
      mset (filter (\<lambda>p. pk_is_dropship p \<and> \<not> pk_is_backorder p) ps) +
      mset (filter (\<lambda>p. pk_is_dropship p \<and> pk_is_backorder p) ps) = mset ps"
    by (induction ps) auto
  then show ?thesis
    by (simp add: transfers_def backorders_def dropships_def mixed_def iter_def rev_filter [symmetric] add.assoc)
qed

definition numbered :: "Picking list \<Rightarrow> bool" where
  "numbered ps \<longleftrightarrow> distinct (map pk_sequence ps)"

lemma numbered_initial_setup: "numbered (initial_setup ps)"
proof -
  have "map pk_sequence (map (\<lambda>(i, p). p\<lparr>pk_sequence := i\<rparr>) (enumerate n xs)) = [n..<n + length xs]" for n and xs :: "Picking list"
    by (intro nth_equalityI) (simp_all add: nth_enumerate_eq)
  then show ?thesis unfolding numbered_def initial_setup_def by (simp only: distinct_upt)
qed

lemma set_get_rest:
  assumes n: "numbered ps" and i: "i < length ps"
  shows "set (get_rest (pk_sequence (ps ! i)) ps) = {ps ! j |j. j < length ps \<and> j \<noteq> i}"
proof -
  have "pk_sequence (ps ! j) \<noteq> pk_sequence (ps ! i) \<longleftrightarrow> j \<noteq> i" if "j < length ps" for j
    using n i that unfolding numbered_def by (metis length_map nth_eq_iff_index_eq nth_map)
  then show ?thesis by (auto simp: get_rest_def iter_def in_set_conv_nth)
qed

section \<open>One step\<close>

definition ids :: "Picking \<Rightarrow> string set" where
  "ids p = pl_external_id ` set (pk_approved_lines p)"

definition ids_but :: "(Picking \<Rightarrow> string set) \<Rightarrow> nat \<Rightarrow> Picking list \<Rightarrow> string set" where
  "ids_but f i ps = \<Union> {f (ps ! j) |j. j < length ps \<and> j \<noteq> i}"

lemma drop_lines_ids [simp]:
  "ids (drop_lines X p) = ids p - X" "kit_ids (drop_lines X p) = kit_ids p - X"
  "done_ids (drop_lines X p) = done_ids p - X" "pending_ids (drop_lines X p) = pending_ids p - X"
  by (auto simp: ids_def kit_ids_def done_ids_def pending_ids_def drop_lines_def)

lemma ids_parts: "kit_ids p \<subseteq> ids p" "done_ids p \<subseteq> ids p" "pending_ids p \<subseteq> ids p"
  by (auto simp: ids_def kit_ids_def done_ids_def pending_ids_def)

text \<open>What both drops do: the lines of one picking go that another has.\<close>

definition drop_at :: "(Picking \<Rightarrow> string set) \<Rightarrow> (Picking \<Rightarrow> string set) \<Rightarrow> nat \<Rightarrow> Picking list \<Rightarrow> Picking list" where
  "drop_at f g i ps = ps[i := drop_lines (f (ps ! i) \<inter> ids_but g i ps) (ps ! i)]"

lemma drops:
  assumes "numbered ps" and "i < length ps"
  shows "drop_duplicated_kit_lines i ps = drop_at kit_ids kit_ids i ps"
    and "drop_duplicated_done_lines i ps = drop_at pending_ids done_ids i ps"
proof -
  have "\<Union> (f ` set (get_rest (pk_sequence (ps ! i)) ps)) = ids_but f i ps" for f :: "Picking \<Rightarrow> string set"
    unfolding set_get_rest [OF assms] ids_but_def by blast
  then show "drop_duplicated_kit_lines i ps = drop_at kit_ids kit_ids i ps"
    "drop_duplicated_done_lines i ps = drop_at pending_ids done_ids i ps"
    by (simp_all add: drop_duplicated_kit_lines_def drop_duplicated_done_lines_def drop_at_def)
qed

lemma drop_at_nth: "j < length ps \<Longrightarrow> drop_at f g i ps ! j =
    (if j = i then drop_lines (f (ps ! i) \<inter> ids_but g i ps) (ps ! i) else ps ! j)"
  by (simp add: drop_at_def nth_list_update)

lemma drop_at_simps [simp]:
  "length (drop_at f g i ps) = length ps"
  "map pk_sequence (drop_at f g i ps) = map pk_sequence ps" "map pk_tracking (drop_at f g i ps) = map pk_tracking ps"
  by (simp_all add: drop_at_def map_update drop_lines_def)
     (metis list_update_id map_update)+

definition all_ids :: "Picking list \<Rightarrow> string set" where
  "all_ids ps = \<Union> (ids ` set ps)"

lemma all_ids_nth: "x \<in> all_ids ps \<longleftrightarrow> (\<exists>i<length ps. x \<in> ids (ps ! i))"
  by (simp add: all_ids_def set_conv_nth) blast

lemma drop_at_all_ids:
  assumes "\<And>p. g p \<subseteq> ids p" and "i < length ps"
  shows "all_ids (drop_at f g i ps) = all_ids ps"
proof -
  have "x \<in> all_ids ps \<Longrightarrow> x \<in> all_ids (drop_at f g i ps)" for x
  proof -
    assume "x \<in> all_ids ps"
    then obtain j where j: "j < length ps" "x \<in> ids (ps ! j)" by (auto simp: all_ids_nth)
    show ?thesis
    proof (cases "j = i \<and> x \<in> ids_but g i ps")
      case True
      then obtain k where "k < length ps" "k \<noteq> i" "x \<in> g (ps ! k)" by (auto simp: ids_but_def)
      then show ?thesis using assms(1) by (force simp: all_ids_nth drop_at_nth)
    next
      case False
      with j show ?thesis unfolding all_ids_nth by (intro exI [of _ j]) (auto simp: drop_at_nth)
    qed
  qed
  moreover have "x \<in> all_ids (drop_at f g i ps) \<Longrightarrow> x \<in> all_ids ps" for x
    by (auto simp: all_ids_nth drop_at_nth split: if_splits)
  ultimately show ?thesis by blast
qed

section \<open>All steps\<close>

lemma reassign_simps [simp]:
  "length (reassign_tracking t ps) = length ps"
  "map pk_sequence (reassign_tracking t ps) = map pk_sequence ps"
  "map pk_approved_lines (reassign_tracking t ps) = map pk_approved_lines ps"
  by (auto simp: reassign_tracking_def extend_tracking_def map_update split: list.split)
     (metis list_update_id map_update)+

lemma reassign_lines:
  assumes "j < length ps"
  shows "pk_approved_lines (reassign_tracking t ps ! j) = pk_approved_lines (ps ! j)"
proof -
  have "map pk_approved_lines (reassign_tracking t ps) ! j = map pk_approved_lines ps ! j"
    by (simp only: reassign_simps)
  then show ?thesis using assms by (simp only: nth_map reassign_simps(1))
qed

lemma lines_cong:
  assumes "pk_approved_lines q = pk_approved_lines p"
  shows "ids q = ids p" "kit_ids q = kit_ids p" "done_ids q = done_ids p" "pending_ids q = pending_ids p"
    "approved q = approved p"
  by (simp_all add: ids_def kit_ids_def done_ids_def pending_ids_def approved_def assms)

lemma reassign_ids:
  assumes "j < length ps"
  shows "ids (reassign_tracking t ps ! j) = ids (ps ! j)" "kit_ids (reassign_tracking t ps ! j) = kit_ids (ps ! j)"
    "done_ids (reassign_tracking t ps ! j) = done_ids (ps ! j)"
    "pending_ids (reassign_tracking t ps ! j) = pending_ids (ps ! j)"
    "approved (reassign_tracking t ps ! j) = approved (ps ! j)"
  by (rule lines_cong, rule reassign_lines, rule assms)+

text \<open>The lines after one step, whatever happens to the tracking.\<close>

definition dropped :: "nat \<Rightarrow> Picking list \<Rightarrow> Picking list" where
  "dropped i ps = drop_at pending_ids done_ids i (drop_at kit_ids kit_ids i ps)"

lemma dropped_simps [simp]:
  "length (dropped i ps) = length ps" "map pk_sequence (dropped i ps) = map pk_sequence ps"
  "map pk_tracking (dropped i ps) = map pk_tracking ps"
  by (simp_all add: dropped_def)

lemma dropped_other: "j < length ps \<Longrightarrow> j \<noteq> i \<Longrightarrow> dropped i ps ! j = ps ! j"
  by (simp add: dropped_def drop_at_nth)

lemma dropped_subset: "j < length ps \<Longrightarrow> set (pk_approved_lines (dropped i ps ! j)) \<subseteq> set (pk_approved_lines (ps ! j))"
  by (auto simp: dropped_def drop_at_nth drop_lines_def)

lemma squash_at_dropped:
  assumes "numbered ps" and "i < length ps"
  shows "squash_at i ps =
    (if approved (dropped i ps ! i) then dropped i ps else reassign_tracking (pk_tracking (dropped i ps ! i)) (dropped i ps))"
proof -
  have "numbered (drop_at kit_ids kit_ids i ps)" using assms(1) by (simp add: numbered_def)
  then show ?thesis
    using assms by (simp add: squash_at_def drops dropped_def Let_def)
qed

definition settled :: "nat \<Rightarrow> Picking list \<Rightarrow> bool" where
  "settled i ps \<longleftrightarrow> kit_ids (ps ! i) \<inter> ids_but kit_ids i ps = {} \<and> pending_ids (ps ! i) \<inter> ids_but done_ids i ps = {}"

lemma ids_mono:
  assumes "set (pk_approved_lines q) \<subseteq> set (pk_approved_lines p)"
  shows "ids q \<subseteq> ids p" "kit_ids q \<subseteq> kit_ids p" "done_ids q \<subseteq> done_ids p" "pending_ids q \<subseteq> pending_ids p"
  using assms by (auto simp: ids_def kit_ids_def done_ids_def pending_ids_def)

lemma settled_mono:
  assumes "settled j ps" and "j < length ps" and "length qs = length ps"
    and s: "\<And>k. k < length ps \<Longrightarrow> set (pk_approved_lines (qs ! k)) \<subseteq> set (pk_approved_lines (ps ! k))"
  shows "settled j qs"
proof -
  have "ids_but f j qs \<subseteq> ids_but f j ps" if "\<And>k. k < length ps \<Longrightarrow> f (qs ! k) \<subseteq> f (ps ! k)" for f
    using that assms(3) unfolding ids_but_def by fastforce
  from this [of kit_ids] this [of done_ids] show ?thesis
    using assms(1) ids_mono [OF s [OF assms(2)]] ids_mono(2,3) [OF s] unfolding settled_def by blast
qed

lemma settled_dropped:
  assumes i: "i < length ps"
  shows "settled i (dropped i ps)"
proof -
  have b: "ids_but f i (drop_at g h i qs) = ids_but f i qs" for f g h qs
    unfolding ids_but_def by (auto simp: drop_at_nth)
  have "kit_ids (dropped i ps ! i) \<subseteq> kit_ids (ps ! i) - ids_but kit_ids i ps"
    using i by (auto simp: dropped_def drop_at_nth)
  moreover have "pending_ids (dropped i ps ! i) \<subseteq> - ids_but done_ids i ps"
    using i by (auto simp: dropped_def drop_at_nth b)
  ultimately show ?thesis unfolding settled_def dropped_def b by (auto simp: dropped_def)
qed

section \<open>The loop\<close>

text \<open>After the pickings from \<open>k\<close> on were handled: the numbers stay, lines were only dropped, no order line is
  lost, and the handled pickings are settled.\<close>

definition squash_inv :: "Picking list \<Rightarrow> nat \<Rightarrow> Picking list \<Rightarrow> bool" where
  "squash_inv ps0 k ps \<longleftrightarrow> length ps = length ps0 \<and> numbered ps \<and> all_ids ps = all_ids ps0 \<and>
     (\<forall>i<length ps. set (pk_approved_lines (ps ! i)) \<subseteq> set (pk_approved_lines (ps0 ! i))) \<and>
     (\<forall>i<length ps. k \<le> i \<longrightarrow> settled i ps)"

lemma dropped_all_ids: "i < length ps \<Longrightarrow> all_ids (dropped i ps) = all_ids ps"
  by (simp add: dropped_def drop_at_all_ids ids_parts)

lemma dropped_inv:
  assumes inv: "squash_inv ps0 (Suc i) ps" and i: "i < length ps"
  shows "squash_inv ps0 i (dropped i ps)"
proof -
  have "settled j (dropped i ps)" if "j < length ps" "i \<le> j" for j
  proof (cases "j = i")
    case True
    then show ?thesis using settled_dropped [OF i] by simp
  next
    case False
    then have "settled j ps" using inv that by (simp add: squash_inv_def)
    then show ?thesis by (rule settled_mono) (simp_all add: that dropped_subset)
  qed
  moreover have "set (pk_approved_lines (dropped i ps ! j)) \<subseteq> set (pk_approved_lines (ps0 ! j))" if "j < length ps" for j
    using dropped_subset [OF that, of i] inv that unfolding squash_inv_def by blast
  ultimately show ?thesis
    using inv i by (simp add: squash_inv_def dropped_all_ids numbered_def)
qed

lemma reassign_inv:
  assumes "squash_inv ps0 k ps"
  shows "squash_inv ps0 k (reassign_tracking t ps)"
proof -
  have "all_ids (reassign_tracking t ps) = all_ids ps"
    using reassign_ids(1) [of _ ps t] by (simp add: set_eq_iff all_ids_nth cong: conj_cong)
  moreover have "settled j (reassign_tracking t ps)" if "settled j ps" "j < length ps" for j
    using that by (rule settled_mono) (simp_all add: reassign_lines)
  ultimately show ?thesis
    using assms by (simp add: squash_inv_def numbered_def reassign_lines)
qed

lemma squash_at_inv:
  assumes inv: "squash_inv ps0 (Suc i) ps" and i: "i < length ps"
  shows "squash_inv ps0 i (squash_at i ps)"
proof -
  have "numbered ps" using inv by (simp add: squash_inv_def)
  then show ?thesis
    using dropped_inv [OF inv i] reassign_inv [OF dropped_inv [OF inv i]] by (simp add: squash_at_dropped i)
qed

lemma squash_steps:
  assumes start: "P n ps" and len: "\<And>k qs. P k qs \<Longrightarrow> length qs = n"
    and step: "\<And>i qs. i < n \<Longrightarrow> P (Suc i) qs \<Longrightarrow> P i (squash_at i qs)"
  shows "P 0 (foldl (\<lambda>ps i. squash_at i ps) ps (rev [0..<n]))"
proof -
  have "P k qs \<Longrightarrow> k \<le> n \<Longrightarrow> P 0 (foldl (\<lambda>ps i. squash_at i ps) qs (rev [0..<k]))" for k qs
  proof (induction k arbitrary: qs)
    case (Suc k)
    then show ?case using step [of k qs] by simp
  qed simp
  with start show ?thesis by blast
qed

lemma squash_lines:
  assumes "numbered ps"
  shows "squash_inv ps 0 (squash ps)"
  unfolding squash_def
proof (rule squash_steps [where P = "squash_inv ps"])
  show "squash_inv ps (length ps) ps" using assms by (simp add: squash_inv_def)
  show "squash_inv ps k qs \<Longrightarrow> length qs = length ps" for k qs by (simp add: squash_inv_def)
  show "squash_inv ps i (squash_at i qs)" if "i < length ps" "squash_inv ps (Suc i) qs" for i qs
    using that(2) by (rule squash_at_inv) (use that in \<open>simp add: squash_inv_def\<close>)
qed

section \<open>Tracking references\<close>

lemma extend_tracking_parts:
  assumes "t \<noteq> []"
  shows "sublist t (pk_tracking (extend_tracking t p))"
    and "u \<noteq> [] \<Longrightarrow> sublist u (pk_tracking p) \<Longrightarrow> sublist u (pk_tracking (extend_tracking t p))"
proof -
  have e: "pk_tracking (extend_tracking t p) = (if pk_tracking p = [] then t else pk_tracking p @ '', '' @ t)"
    using assms by (simp add: extend_tracking_def)
  show "sublist t (pk_tracking (extend_tracking t p))"
    unfolding e sublist_def
    by (intro exI [of _ "if pk_tracking p = [] then [] else pk_tracking p @ '', ''"] exI [of _ "[]"]) simp
  show "sublist u (pk_tracking (extend_tracking t p))" if ne: "u \<noteq> []" and s: "sublist u (pk_tracking p)"
  proof -
    obtain xs ys where x: "pk_tracking p = xs @ u @ ys" using s by (auto simp: sublist_def)
    then have "pk_tracking (extend_tracking t p) = xs @ u @ (ys @ '', '' @ t)" using ne unfolding e by simp
    then show ?thesis unfolding sublist_def by blast
  qed
qed

lemma reassign_target:
  assumes "\<exists>i<length ps. approved (ps ! i)"
  shows "\<exists>r<length ps. approved (ps ! r) \<and> reassign_tracking t ps = ps[r := extend_tracking t (ps ! r)]"
proof -
  let ?is = "filter (\<lambda>i. approved (ps ! i)) (rev [0..<length ps])"
  have "?is \<noteq> []" using assms by (auto simp: filter_empty_conv)
  then have "last ?is \<in> set ?is" by (rule last_in_set)
  then show ?thesis
    using \<open>?is \<noteq> []\<close> by (intro exI [of _ "last ?is"]) (auto simp: reassign_tracking_def split: list.split)
qed

text \<open>After the pickings from \<open>k\<close> on were handled, each reference is part of the tracking of a picking that is
  still to be handled or is approved.\<close>

definition track_inv :: "Picking list \<Rightarrow> nat \<Rightarrow> Picking list \<Rightarrow> bool" where
  "track_inv ps0 k ps \<longleftrightarrow> squash_inv ps0 k ps \<and>
     (\<forall>p\<in>set ps0. pk_tracking p \<noteq> [] \<longrightarrow>
       (\<exists>q<length ps. sublist (pk_tracking p) (pk_tracking (ps ! q)) \<and> (q < k \<or> approved (ps ! q))))"

lemma approved_if_ids: "all_ids ps \<noteq> {} \<Longrightarrow> \<exists>i<length ps. approved (ps ! i)"
  by (auto simp: all_ids_nth approved_def ids_def set_eq_iff)

lemma dropped_tracking: "j < length ps \<Longrightarrow> pk_tracking (dropped i ps ! j) = pk_tracking (ps ! j)"
  by (simp add: dropped_def drop_at_nth drop_lines_def)

lemma squash_at_tracking:
  assumes inv: "squash_inv ps0 (Suc i) ps" and i: "i < length ps" and ne: "all_ids ps0 \<noteq> {}"
    and t: "t \<noteq> []" and q: "q < length ps" "sublist t (pk_tracking (ps ! q))" "q < Suc i \<or> approved (ps ! q)"
  shows "\<exists>r<length ps. sublist t (pk_tracking (squash_at i ps ! r)) \<and> (r < i \<or> approved (squash_at i ps ! r))"
proof -
  let ?d = "dropped i ps"
  have n: "numbered ps" and a: "all_ids ?d \<noteq> {}"
    using inv ne i by (auto simp: squash_inv_def dropped_all_ids)
  note s = squash_at_dropped [OF n i]
  have dq: "sublist t (pk_tracking (?d ! q))" using q by (simp add: dropped_tracking)
  have qa: "q < i \<or> approved (?d ! q)" if "q \<noteq> i" using q that by (auto simp: dropped_other)
  show ?thesis
  proof (cases "approved (?d ! i)")
    case True
    then show ?thesis using q(1) dq qa unfolding s by auto
  next
    case False
    let ?t = "pk_tracking (?d ! i)"
    obtain r where r: "r < length ps" "approved (?d ! r)"
      and e: "reassign_tracking ?t ?d = ?d[r := extend_tracking ?t (?d ! r)]"
      using reassign_target [OF approved_if_ids [OF a], of ?t] by auto
    have sq: "squash_at i ps = reassign_tracking ?t ?d" using False by (simp add: s)
    have ap: "approved (squash_at i ps ! j) = approved (?d ! j)" if "j < length ps" for j
      unfolding sq using that by (simp add: reassign_ids)
    have tr: "pk_tracking (squash_at i ps ! j) = pk_tracking (if j = r then extend_tracking ?t (?d ! r) else ?d ! j)"
      if "j < length ps" for j unfolding sq e using that by (simp add: nth_list_update)
    show ?thesis
    proof (cases "q = i")
      case True
      then have "?t \<noteq> []" using dq t by auto
      then have "sublist ?t (pk_tracking (extend_tracking ?t (?d ! r)))" by (rule extend_tracking_parts)
      then have "sublist t (pk_tracking (squash_at i ps ! r))"
        using dq True r(1) by (simp add: tr)
      then show ?thesis using r ap by blast
    next
      case False
      have "sublist t (pk_tracking (squash_at i ps ! q))"
      proof (cases "q = r \<and> ?t \<noteq> []")
        case True
        then show ?thesis using extend_tracking_parts(2) [OF _ t, of ?t "?d ! r"] dq q(1) by (simp add: tr)
      next
        case False
        then have "pk_tracking (squash_at i ps ! q) = pk_tracking (?d ! q)"
          using q(1) by (auto simp: tr extend_tracking_def split: if_splits)
        then show ?thesis using dq by simp
      qed
      then show ?thesis using qa [OF False] q(1) ap by auto
    qed
  qed
qed

lemma squash_tracking:
  assumes n: "numbered ps" and ne: "all_ids ps \<noteq> {}"
  shows "track_inv ps 0 (squash ps)"
  unfolding squash_def
proof (rule squash_steps [where P = "track_inv ps"])
  show "track_inv ps (length ps) ps"
    using n by (auto simp: track_inv_def squash_inv_def in_set_conv_nth)
  show "track_inv ps k qs \<Longrightarrow> length qs = length ps" for k qs by (simp add: track_inv_def squash_inv_def)
  show "track_inv ps i (squash_at i qs)" if i: "i < length ps" and t: "track_inv ps (Suc i) qs" for i qs
  proof -
    have inv: "squash_inv ps (Suc i) qs" using t by (simp add: track_inv_def)
    then have l: "length qs = length ps" by (simp add: squash_inv_def)
    have "squash_inv ps i (squash_at i qs)" by (rule squash_at_inv [OF inv]) (simp add: i l)
    moreover from this have "length (squash_at i qs) = length qs" by (simp add: squash_inv_def l)
    ultimately show ?thesis
      using squash_at_tracking [OF inv _ ne] t i l unfolding track_inv_def by metis
  qed
qed

section \<open>The lines of one picking\<close>

lemma last_sort_key:
  assumes "xs \<noteq> []"
  shows "last (sort_key f xs) \<in> set xs \<and> (\<forall>x\<in>set xs. f x \<le> f (last (sort_key f xs)))"
proof -
  let ?ys = "sort_key f xs"
  have ne: "?ys \<noteq> []" using assms by (metis length_0_conv length_sort)
  have "last ?ys \<in> set ?ys" using ne by (rule last_in_set)
  moreover have "f x \<le> f (last ?ys)" if "x \<in> set xs" for x
  proof -
    obtain i where i: "i < length ?ys" "?ys ! i = x" using \<open>x \<in> set xs\<close> by (metis in_set_conv_nth set_sort)
    have "map f ?ys ! i \<le> map f ?ys ! (length ?ys - 1)"
      by (rule sorted_nth_mono) (use i(1) in \<open>simp_all del: length_sort\<close>)
    then show ?thesis using i ne by (simp add: last_conv_nth del: length_sort)
  qed
  ultimately show ?thesis by simp
qed

lemma approve_lines_ok:
  assumes "groups_ok groupby"
  shows "distinct (map pl_external_id (approve_lines groupby ls)) \<and>
    pl_external_id ` set (approve_lines groupby ls) = pl_external_id ` set ls \<and>
    (\<forall>l\<in>set (approve_lines groupby ls). l \<in> set ls \<and>
      (\<forall>m\<in>set ls. pl_external_id m = pl_external_id l \<longrightarrow> get_qty m \<le> get_qty l))"
proof -
  let ?gs = "groupby ls"
  have d: "distinct (map fst ?gs)" and k: "fst ` set ?gs = pl_external_id ` set ls"
    and g: "\<And>k g. (k, g) \<in> set ?gs \<Longrightarrow> g = filter (\<lambda>l. pl_external_id l = k) ls"
    using assms unfolding groups_ok_def by blast+
  have L: "last (sort_key get_qty g) \<in> set ls \<and> pl_external_id (last (sort_key get_qty g)) = k \<and>
      (\<forall>m\<in>set ls. pl_external_id m = k \<longrightarrow> get_qty m \<le> get_qty (last (sort_key get_qty g)))"
    if "(k, g) \<in> set ?gs" for k g
  proof -
    have "k \<in> pl_external_id ` set ls" using k that by force
    then have "g \<noteq> []" using g [OF that] by (auto simp: filter_empty_conv)
    from last_sort_key [OF this, of get_qty] g [OF that] show ?thesis by auto
  qed
  have e: "map pl_external_id (approve_lines groupby ls) = map fst ?gs"
    unfolding approve_lines_def using L by auto
  have "distinct (map pl_external_id (approve_lines groupby ls))" by (simp only: e d)
  moreover have "pl_external_id ` set (approve_lines groupby ls) = pl_external_id ` set ls"
    using arg_cong [OF e, of set] k by simp
  moreover have "\<forall>l\<in>set (approve_lines groupby ls). l \<in> set ls \<and>
      (\<forall>m\<in>set ls. pl_external_id m = pl_external_id l \<longrightarrow> get_qty m \<le> get_qty l)"
    unfolding approve_lines_def using L by auto
  ultimately show ?thesis by blast
qed

section \<open>The lines of the moves\<close>

lemma serialize_moves_keys:
  "distinct (map fst acc) \<Longrightarrow> distinct (map fst (serialize_moves multi ms acc)) \<and>
    fst ` set (serialize_moves multi ms acc) =
      fst ` set acc \<union> {e. e \<noteq> [] \<and> Some e \<in> mv_external_id ` set ms}"
proof (induction multi ms acc rule: serialize_moves.induct)
  case (2 multi m ms acc)
  then show ?case
    by (cases "mv_external_id m" rule: option.exhaust; cases "the (mv_external_id m)")
       (auto simp: Let_def distinct_dict_set fst_dict_set split: option.splits)
qed simp

end
