(* ===== verification/TemplateHub.thy ===== *)
theory TemplateHub
  imports PyValue "HOL-Library.Multiset"
begin

text \<open>
  The class \<open>TemplateHub\<close> of \<open>integration/tools.py\<close>, which looks for products that an import would confuse:
  repeated references and barcodes, repeated and nested variants. A product without a parent, a reference or
  a barcode has the empty string there. A dictionary is an association list in the order of its insertions.
\<close>

section \<open>Products\<close>

record product =
  pt_id :: string
  pt_name :: pyval
  pt_barcode :: string
  pt_ref :: string
  pt_parent_id :: string
  pt_skip_ref :: bool
  pt_joint_namespace :: bool

definition is_variant :: "product \<Rightarrow> bool" where
  "is_variant p \<longleftrightarrow> pt_parent_id p \<noteq> []"

definition format_id :: "product \<Rightarrow> string" where
  "format_id p = (if pt_parent_id p \<noteq> [] then pt_parent_id p @ ''-'' @ pt_id p else pt_id p)"

text \<open>A name in several languages is that of the first; \<open>str\<close> is an argument.\<close>

definition first_language :: "pyval \<Rightarrow> pyval result" where
  "first_language name =
     (case name of
        PDict d \<Rightarrow>
          (case map_of d ''language'' of
             None \<Rightarrow> Inr (if py_true name then name else PBool False)
           | Some (PList (PDict l # _)) \<Rightarrow> (case map_of l ''value'' of Some v \<Rightarrow> Inr v | None \<Rightarrow> Inl KeyError)
           | Some (PList []) \<Rightarrow> Inl IndexError
           | Some _ \<Rightarrow> Inl TypeError)
      | _ \<Rightarrow> Inr (if py_true name then name else PBool False))"

definition ref_text :: "product \<Rightarrow> string" where
  "ref_text p = (if pt_ref p = [] then ''False'' else pt_ref p)"

definition format_name :: "(pyval \<Rightarrow> string) \<Rightarrow> product \<Rightarrow> string result" where
  "format_name str p =
     rbind (first_language (pt_name p)) (\<lambda>name.
     Inr (str name @ ''  [Code: '' @ format_id p @ '', Sku: '' @ ref_text p @ '']''))"

definition format_simple_name :: "(pyval \<Rightarrow> string) \<Rightarrow> product \<Rightarrow> string" where
  "format_simple_name str p =
     str (if py_true (pt_name p) then pt_name p else PBool False) @ ''  [Code: '' @ pt_id p @ '', Sku: '' @ ref_text p @ '']''"

text \<open>What a record of the shop or of Odoo gives.\<close>

definition create_product_tuple :: "(string \<Rightarrow> 'v option) \<Rightarrow> 'v list result" where
  "create_product_tuple get =
     (let schema = [''id'', ''name'', ''barcode'', ''ref'', ''parent_id'', ''skip_ref'', ''joint_namespace'']
      in if list_all (\<lambda>k. get k \<noteq> None) schema then Inr (List.map_filter get schema) else Inl KeyError)"

record odoo_product =
  op_id :: int
  op_name :: string
  op_barcode :: string
  op_ref :: string
  op_tmpl_id :: int

definition from_odoo :: "odoo_product list \<Rightarrow> product list" where
  "from_odoo recs =
     map (\<lambda>r. \<lparr>pt_id = show_int (op_id r), pt_name = PStr (op_name r), pt_barcode = op_barcode r, pt_ref = op_ref r,
              pt_parent_id = show_int (op_tmpl_id r), pt_skip_ref = False, pt_joint_namespace = True\<rparr>) recs"

section \<open>Selection\<close>

definition sort_by_id :: "product list \<Rightarrow> product list result" where
  "sort_by_id ps =
     (if list_all (\<lambda>p. py_int (pt_id p) \<noteq> None) ps then Inr (sort_key (\<lambda>p. the (py_int (pt_id p))) ps)
      else Inl ValueError)"

definition get_templates :: "product list \<Rightarrow> product list result" where
  "get_templates hub = sort_by_id (filter (\<lambda>p. \<not> is_variant p) hub)"

definition get_variants :: "product list \<Rightarrow> product list result" where
  "get_variants hub = sort_by_id (filter is_variant hub)"

definition get_ids :: "product list \<Rightarrow> string list" where
  "get_ids ps = map pt_id ps"

definition get_template_ids :: "product list \<Rightarrow> string list result" where
  "get_template_ids hub = rbind (get_templates hub) (\<lambda>ts. Inr (get_ids ts))"

definition get_variant_ids :: "product list \<Rightarrow> string list result" where
  "get_variant_ids hub = rbind (get_variants hub) (\<lambda>vs. Inr (get_ids vs))"

definition split_templates_and_variants :: "product list \<Rightarrow> product list \<times> product list" where
  "split_templates_and_variants ps = (filter (\<lambda>p. \<not> is_variant p) ps, filter is_variant ps)"

text \<open>The runs of equal keys that \<open>itertools.groupby\<close> gives are put together by key.\<close>

definition group_by :: "('a \<Rightarrow> 'k) \<Rightarrow> nat option \<Rightarrow> 'a list \<Rightarrow> ('k \<times> 'a list) list" where
  "group_by key level xs =
     (let d = foldl (\<lambda>d x. dict_append (key x) x d) [] xs
      in case level of None \<Rightarrow> d | Some n \<Rightarrow> filter (\<lambda>(k, g). n \<le> length g) d)"

definition find_record_by_id :: "string \<Rightarrow> product list \<Rightarrow> product result" where
  "find_record_by_id i hub = (case find (\<lambda>p. pt_id p = i) hub of None \<Rightarrow> Inl ValueError | Some p \<Rightarrow> Inr p)"

fun find_records :: "string list \<Rightarrow> product list \<Rightarrow> product list result" where
  "find_records [] hub = Inr []"
| "find_records (i # is) hub = rbind (find_record_by_id i hub) (\<lambda>p. rbind (find_records is hub) (\<lambda>ps. Inr (p # ps)))"

section \<open>The checks\<close>

definition get_products_with_partial_barcodes :: "product list \<Rightarrow> product list result" where
  "get_products_with_partial_barcodes hub =
     rbind (get_variants hub) (\<lambda>vs.
     let partial_ids = map fst (filter (\<lambda>(t, g). list_ex (\<lambda>p. pt_barcode p \<noteq> []) g \<and> \<not> list_all (\<lambda>p. pt_barcode p \<noteq> []) g)
           (group_by pt_parent_id None vs))
     in Inr (filter (\<lambda>p. pt_id p \<in> set partial_ids) hub))"

definition get_products_with_empty_references :: "product list \<Rightarrow> product list \<times> product list" where
  "get_products_with_empty_references hub =
     split_templates_and_variants (filter (\<lambda>p. pt_ref p = [] \<and> \<not> pt_skip_ref p) hub)"

text \<open>The variants whose identifier comes twice, each with its parents.\<close>

fun repeated_records :: "product list \<Rightarrow> (string \<times> product list) list \<Rightarrow>
    (product \<times> product list) list \<Rightarrow> (product \<times> product list) list result" where
  "repeated_records hub [] acc = Inr acc"
| "repeated_records hub ((i, vs) # groups) acc =
     rbind (find_record_by_id i hub) (\<lambda>r.
     rbind (find_records (map pt_parent_id vs) hub) (\<lambda>parents.
     repeated_records hub groups (dict_set r parents acc)))"

definition get_products_with_repeated_configurations :: "product list \<Rightarrow> (product \<times> product list) list result" where
  "get_products_with_repeated_configurations hub =
     rbind (get_variants hub) (\<lambda>vs. repeated_records hub (group_by pt_id (Some 2) vs) [])"

definition get_repeated_product_ids :: "product list \<Rightarrow> string list result" where
  "get_repeated_product_ids hub =
     rbind (get_products_with_repeated_configurations hub) (\<lambda>d. Inr (get_ids (map fst d)))"

text \<open>The template of a group that is left out: the only one, unless its only companion is the variant of
  another template.\<close>

definition template_to_skip :: "product list \<Rightarrow> string list" where
  "template_to_skip g =
     (case split_templates_and_variants g of
        ([t], [v]) \<Rightarrow> if pt_parent_id v = pt_id t then [pt_id t] else []
      | ([t], _) \<Rightarrow> [pt_id t]
      | _ \<Rightarrow> [])"

definition get_products_with_duplicate_references :: "product list \<Rightarrow> (string \<times> product list) list result" where
  "get_products_with_duplicate_references hub =
     rbind (get_repeated_product_ids hub) (\<lambda>repeated_ids.
     let products = filter (\<lambda>p. pt_ref p \<noteq> [] \<and> pt_id p \<notin> set repeated_ids) hub;
         skip_ids = concat (map (template_to_skip \<circ> snd) (group_by pt_ref (Some 2) products));
         products = filter (\<lambda>p. pt_id p \<notin> set skip_ids \<or> is_variant p) products
     in Inr (group_by pt_ref (Some 2) products))"

definition get_products_with_duplicate_barcodes :: "product list \<Rightarrow> (string \<times> product list) list" where
  "get_products_with_duplicate_barcodes hub =
     group_by pt_barcode (Some 2) (filter (\<lambda>p. pt_barcode p \<noteq> []) hub)"

text \<open>Variants by the record of their parent.\<close>

fun by_parent :: "product list \<Rightarrow> product list \<Rightarrow> (product \<times> product list) list \<Rightarrow> (product \<times> product list) list result" where
  "by_parent hub [] acc = Inr acc"
| "by_parent hub (v # vs) acc =
     rbind (find_record_by_id (pt_parent_id v) hub) (\<lambda>parent. by_parent hub vs (dict_append parent v acc))"

definition get_products_with_no_barcodes_on_variants :: "product list \<Rightarrow> (product \<times> product list) list result" where
  "get_products_with_no_barcodes_on_variants hub =
     rbind (get_variants hub) (\<lambda>vs. by_parent hub (filter (\<lambda>p. pt_barcode p = []) vs) [])"

definition get_products_with_nested_configurations :: "product list \<Rightarrow> (product \<times> product list) list result" where
  "get_products_with_nested_configurations hub =
     rbind (get_templates hub) (\<lambda>ts.
     let template_ids = get_ids (filter pt_joint_namespace ts)
     in rbind (get_variants hub) (\<lambda>vs. by_parent hub (filter (\<lambda>v. pt_id v \<in> set template_ids) vs) []))"

definition get_ref_intersection ::
  "product list \<Rightarrow> product list \<Rightarrow> (string \<times> product list) list \<times> (string \<times> product list) list" where
  "get_ref_intersection a b =
     (let refs = (\<lambda>hub. pt_ref ` set (filter (\<lambda>p. pt_ref p \<noteq> [] \<and> \<not> pt_skip_ref p) hub));
          joint = refs a \<inter> refs b
      in (group_by pt_ref None (filter (\<lambda>p. pt_ref p \<in> joint) a),
          group_by pt_ref None (filter (\<lambda>p. pt_ref p \<in> joint) b)))"

section \<open>Groups\<close>

lemma map_of_filter_value:
  "distinct (map fst d) \<Longrightarrow> map_of (filter (\<lambda>(k, v). P v) d) k =
    (case map_of d k of None \<Rightarrow> None | Some v \<Rightarrow> if P v then Some v else None)"
  by (induction d) (auto simp: map_of_eq_None_iff split: option.splits)

lemma group_by_ok:
  "map_of (group_by key level xs) k =
     (let g = filter (\<lambda>x. key x = k) xs
      in if g = [] \<or> (case level of None \<Rightarrow> False | Some n \<Rightarrow> length g < n) then None else Some g)"
  by (cases level) (auto simp: group_by_def Let_def group_fold map_of_filter_value distinct_group_fold split: option.splits)

lemma distinct_group_by: "distinct (map fst (group_by key level xs))"
  by (cases level) (simp_all add: group_by_def Let_def distinct_group_fold distinct_map_filter)

lemma in_group_by:
  "(k, g) \<in> set (group_by key level xs) \<longleftrightarrow> map_of (group_by key level xs) k = Some g"
  by (simp add: distinct_group_by)

section \<open>Duplicate references\<close>

text \<open>The products of one reference that confuse an import: all of them, or without their only template.\<close>

definition without_template :: "product list \<Rightarrow> product list" where
  "without_template g =
     (if length (filter (\<lambda>p. \<not> is_variant p) g) = 1 \<and>
         (length (filter is_variant g) = 1 \<longrightarrow>
           pt_parent_id (hd (filter is_variant g)) = pt_id (hd (filter (\<lambda>p. \<not> is_variant p) g)))
      then filter is_variant g else g)"

lemma length_without_template: "length (without_template g) \<le> length g"
  by (simp add: without_template_def)

lemma skip_cases:
  "template_to_skip g = (if length (filter (\<lambda>p. \<not> is_variant p) g) = 1 \<and>
         (length (filter is_variant g) = 1 \<longrightarrow>
           pt_parent_id (hd (filter is_variant g)) = pt_id (hd (filter (\<lambda>p. \<not> is_variant p) g)))
      then [pt_id (hd (filter (\<lambda>p. \<not> is_variant p) g))] else [])"
  by (auto simp: template_to_skip_def split_templates_and_variants_def length_Suc_conv split: list.splits)

lemma skip_template:
  assumes "i \<in> set (template_to_skip g)"
  shows "\<exists>t\<in>set g. \<not> is_variant t \<and> pt_id t = i"
proof -
  have "i = pt_id (hd (filter (\<lambda>p. \<not> is_variant p) g))" "length (filter (\<lambda>p. \<not> is_variant p) g) = 1"
    using assms by (auto simp: skip_cases split: if_splits)
  then show ?thesis using hd_in_set [of "filter (\<lambda>p. \<not> is_variant p) g"] by force
qed

lemma filter_skip: "filter (\<lambda>p. pt_id p \<notin> set (template_to_skip g) \<or> is_variant p) g = without_template g"
proof (cases "template_to_skip g")
  case Nil
  then show ?thesis by (auto simp: skip_cases without_template_def split: if_splits)
next
  case (Cons i xs)
  then have e: "template_to_skip g = [pt_id (hd (filter (\<lambda>p. \<not> is_variant p) g))]" "without_template g = filter is_variant g"
    and l: "length (filter (\<lambda>p. \<not> is_variant p) g) = 1"
    by (auto simp: skip_cases without_template_def split: if_splits)
  obtain t where t: "filter (\<lambda>p. \<not> is_variant p) g = [t]" using l by (auto simp: length_Suc_conv)
  have "p = t" if "p \<in> set g" "\<not> is_variant p" for p
  proof -
    have "p \<in> set (filter (\<lambda>p. \<not> is_variant p) g)" using that by simp
    then show ?thesis by (simp add: t)
  qed
  then show ?thesis unfolding e t by (intro filter_cong) auto
qed

lemma skip_own_group:
  assumes d: "inj_on pt_id {p \<in> set ps. \<not> is_variant p}" and t: "t \<in> set ps" "\<not> is_variant t"
    and g: "g = filter (\<lambda>p. pt_ref p = pt_ref t) ps" "2 \<le> length g"
  shows "pt_id t \<in> set (concat (map (template_to_skip \<circ> snd) (group_by pt_ref (Some 2) ps))) \<longleftrightarrow>
    pt_id t \<in> set (template_to_skip g)"
proof
  assume "pt_id t \<in> set (template_to_skip g)"
  moreover have "g \<noteq> []" using g(2) by auto
  then have "(pt_ref t, g) \<in> set (group_by pt_ref (Some 2) ps)"
    using g unfolding in_group_by group_by_ok by (simp add: Let_def)
  ultimately show "pt_id t \<in> set (concat (map (template_to_skip \<circ> snd) (group_by pt_ref (Some 2) ps)))" by force
next
  assume "pt_id t \<in> set (concat (map (template_to_skip \<circ> snd) (group_by pt_ref (Some 2) ps)))"
  then obtain r h where h: "(r, h) \<in> set (group_by pt_ref (Some 2) ps)" "pt_id t \<in> set (template_to_skip h)" by auto
  then have hf: "h = filter (\<lambda>p. pt_ref p = r) ps"
    unfolding in_group_by group_by_ok by (auto simp: Let_def split: if_splits)
  obtain u where u: "u \<in> set h" "\<not> is_variant u" "pt_id u = pt_id t" using skip_template [OF h(2)] by blast
  then have "u \<in> set ps" "pt_ref u = r" by (auto simp: hf)
  have "u = t" using inj_onD [OF d u(3)] u(2) \<open>u \<in> set ps\<close> t by simp
  then have "h = g" using \<open>pt_ref u = r\<close> by (simp add: hf g(1))
  with h(2) show "pt_id t \<in> set (template_to_skip g)" by simp
qed

lemma remaining_group:
  assumes d: "inj_on pt_id {p \<in> set ps. \<not> is_variant p}" and g: "g = filter (\<lambda>p. pt_ref p = r) ps" "2 \<le> length g"
  shows "filter (\<lambda>p. pt_id p \<notin> set (concat (map (template_to_skip \<circ> snd) (group_by pt_ref (Some 2) ps))) \<or> is_variant p) g =
    without_template g"
  unfolding filter_skip [symmetric]
proof (intro filter_cong refl)
  fix p assume "p \<in> set g"
  then have p: "p \<in> set ps" "pt_ref p = r" by (auto simp: g(1))
  show "(pt_id p \<notin> set (concat (map (template_to_skip \<circ> snd) (group_by pt_ref (Some 2) ps))) \<or> is_variant p) =
      (pt_id p \<notin> set (template_to_skip g) \<or> is_variant p)"
    using skip_own_group [OF d p(1) _ _ g(2)] g(1) p(2) by (cases "is_variant p") simp_all
qed

lemma duplicate_references:
  assumes rep: "get_repeated_product_ids hub = Inr rep" and d: "inj_on pt_id {p \<in> set hub. \<not> is_variant p}"
  shows "\<exists>dups. get_products_with_duplicate_references hub = Inr dups \<and>
    (\<forall>r. map_of dups r =
      (let g = without_template (filter (\<lambda>p. pt_ref p = r \<and> pt_id p \<notin> set rep) hub)
       in if r = [] \<or> length g < 2 then None else Some g))"
proof -
  let ?ps = "filter (\<lambda>p. pt_ref p \<noteq> [] \<and> pt_id p \<notin> set rep) hub"
  let ?skip = "set (concat (map (template_to_skip \<circ> snd) (group_by pt_ref (Some 2) ?ps)))"
  let ?qs = "filter (\<lambda>p. pt_id p \<notin> ?skip \<or> is_variant p) ?ps"
  have e: "get_products_with_duplicate_references hub = Inr (group_by pt_ref (Some 2) ?qs)"
    using rep by (simp only: get_products_with_duplicate_references_def Let_def rbind.simps)
  have di: "inj_on pt_id {p \<in> set ?ps. \<not> is_variant p}" by (rule inj_on_subset [OF d]) auto
  have "map_of (group_by pt_ref (Some 2) ?qs) r =
      (let g = without_template (filter (\<lambda>p. pt_ref p = r \<and> pt_id p \<notin> set rep) hub)
       in if r = [] \<or> length g < 2 then None else Some g)" for r
  proof -
    let ?g = "filter (\<lambda>p. pt_ref p = r) ?ps"
    define g where "g = filter (\<lambda>p. pt_ref p = r \<and> pt_id p \<notin> set rep) hub"
    define h where "h = filter (\<lambda>p. pt_ref p = r) ?qs"
    have m: "map_of (group_by pt_ref (Some 2) ?qs) r = (if h = [] \<or> length h < 2 then None else Some h)"
      by (simp only: group_by_ok h_def option.case Let_def)
    have q: "h = filter (\<lambda>p. pt_id p \<notin> ?skip \<or> is_variant p) ?g"
      unfolding h_def by (simp only: filter_filter) (intro filter_cong, auto)
    have "(if h = [] \<or> length h < 2 then None else Some h) =
        (if r = [] \<or> length (without_template g) < 2 then None else Some (without_template g))"
    proof (cases "r = []")
      case True
      then have "h = []" by (auto simp: h_def filter_empty_conv)
      then show ?thesis using True by simp
    next
      case False
      then have g: "?g = g" unfolding g_def filter_filter by (intro filter_cong) auto
      show ?thesis
      proof (cases "2 \<le> length g")
        case True
        have "h = without_template g"
          unfolding q g using remaining_group [OF di refl, of r, unfolded g] True by blast
        then show ?thesis using False by (cases "h = []") simp_all
      next
        case short: False
        have "length h \<le> length g" unfolding q g by (rule length_filter_le)
        then have "length h < 2" using short by linarith
        moreover have "length (without_template g) < 2"
          using length_without_template [of g] short by linarith
        ultimately show ?thesis by simp
      qed
    qed
    then show ?thesis unfolding m g_def Let_def .
  qed
  with e show ?thesis by blast
qed

end
