(* ===== verification/ApiRetry.thy ===== *)
theory ApiRetry
  imports PyString
begin

text \<open>
  The decorator \<open>catch_exception\<close> of \<open>integration/tools.py\<close>, which repeats a failing call of a shop's API.
  What the call does when it is made for the n-th time is given; the result is what the caller gets, the
  waits and the number of calls, or \<open>None\<close> if it never returns.
\<close>

definition CLIENT_LIMIT :: nat where "CLIENT_LIMIT = 8"
definition SERVER_LIMIT :: nat where "SERVER_LIMIT = 5"
definition CLIENT_TIMEOUT :: nat where "CLIENT_TIMEOUT = 4"
definition SERVER_TIMEOUT :: nat where "SERVER_TIMEOUT = 2"

text \<open>The errors of the connection and of the client carry the \<open>retry_after\<close> of the response if it has one,
  a throttled call the time to wait; any other exception is not caught.\<close>

datatype api_error =
    ClientError string "nat option"
  | ThrottledError nat
  | ServerError "nat option"
  | OtherApiError string

definition get_retry_timeout :: "nat option \<Rightarrow> nat \<Rightarrow> bool \<Rightarrow> nat" where
  "get_retry_timeout retry_after attempt is_client =
     (let default_timeout = (if is_client then CLIENT_TIMEOUT else SERVER_TIMEOUT) in
      case retry_after of
        Some n \<Rightarrow> if n \<noteq> 0 then n else default_timeout * attempt
      | None \<Rightarrow> default_timeout * attempt)"

type_synonym 'r run = "(api_error + 'r) \<times> nat list \<times> nat"

definition waited :: "nat \<Rightarrow> 'r run \<Rightarrow> 'r run" where
  "waited w r = (case r of (x, ws, n) \<Rightarrow> (x, w # ws, n))"

text \<open>A repetition passes on only the counter it names: the other one starts at one again.\<close>

partial_function (option) catch_exception ::
  "(nat \<Rightarrow> api_error + 'r) \<Rightarrow> nat \<Rightarrow> nat \<Rightarrow> nat \<Rightarrow> 'r run option" where
  "catch_exception call k client_attempt server_attempt =
     (case call k of
        Inr r \<Rightarrow> Some (Inr r, [], k + 1)
      | Inl e \<Rightarrow>
          (case e of
             ClientError name ra \<Rightarrow>
               if client_attempt \<le> CLIENT_LIMIT
               then Option.bind (catch_exception call (k + 1) (client_attempt + 1) 1)
                      (\<lambda>r. Some (waited (get_retry_timeout ra client_attempt True) r))
               else Some (Inl e, [], k + 1)
           | ThrottledError timeout \<Rightarrow>
               Option.bind (catch_exception call (k + 1) client_attempt 1) (\<lambda>r. Some (waited timeout r))
           | ServerError ra \<Rightarrow>
               if server_attempt \<le> SERVER_LIMIT
               then Option.bind (catch_exception call (k + 1) 1 (server_attempt + 1))
                      (\<lambda>r. Some (waited (get_retry_timeout ra server_attempt False) r))
               else Some (Inl e, [], k + 1)
           | OtherApiError name \<Rightarrow> Some (Inl e, [], k + 1)))"

definition call_api :: "(nat \<Rightarrow> api_error + 'r) \<Rightarrow> 'r run option" where
  "call_api call = catch_exception call 0 1 1"

section \<open>Errors of one kind\<close>

lemma client_errors:
  assumes "\<forall>i<n. \<exists>name. call (k + i) = Inl (ClientError name None)" and "ca + n \<le> CLIENT_LIMIT + 1"
    and "catch_exception call (k + n) (ca + n) (if n = 0 then sa else 1) = Some (x, ws, m)"
  shows "catch_exception call k ca sa = Some (x, map (\<lambda>i. CLIENT_TIMEOUT * (ca + i)) [0..<n] @ ws, m)"
  using assms
proof (induction n arbitrary: k ca sa)
  case (Suc n)
  obtain name where m: "call k = Inl (ClientError name None)" using Suc.prems(1) by force
  have "catch_exception call (k + 1) (ca + 1) 1 =
      Some (x, map (\<lambda>i. CLIENT_TIMEOUT * (ca + 1 + i)) [0..<n] @ ws, m)"
    using Suc.prems by (intro Suc.IH) (auto simp: add.assoc split: if_splits)
  moreover have "[0..<Suc n] = 0 # map Suc [0..<n]" by (simp add: upt_conv_Cons map_Suc_upt del: upt_Suc)
  ultimately show ?case
    using Suc.prems(2) m
    by (subst catch_exception.simps) (simp add: waited_def get_retry_timeout_def comp_def)
qed simp

lemma server_errors:
  assumes "\<forall>i<n. call (k + i) = Inl (ServerError None)" and "sa + n \<le> SERVER_LIMIT + 1"
    and "catch_exception call (k + n) (if n = 0 then ca else 1) (sa + n) = Some (x, ws, m)"
  shows "catch_exception call k ca sa = Some (x, map (\<lambda>i. SERVER_TIMEOUT * (sa + i)) [0..<n] @ ws, m)"
  using assms
proof (induction n arbitrary: k ca sa)
  case (Suc n)
  have m: "call k = Inl (ServerError None)" using Suc.prems(1) by force
  have "catch_exception call (k + 1) 1 (sa + 1) =
      Some (x, map (\<lambda>i. SERVER_TIMEOUT * (sa + 1 + i)) [0..<n] @ ws, m)"
    using Suc.prems by (intro Suc.IH) (auto simp: add.assoc split: if_splits)
  moreover have "[0..<Suc n] = 0 # map Suc [0..<n]" by (simp add: upt_conv_Cons map_Suc_upt del: upt_Suc)
  ultimately show ?case
    using Suc.prems(2) m
    by (subst catch_exception.simps) (simp add: waited_def get_retry_timeout_def comp_def)
qed simp

section \<open>Errors that never end\<close>

text \<open>Errors of both kinds in turn: no counter ever reaches its limit.\<close>

definition alternating :: "(nat \<Rightarrow> api_error + 'r) \<Rightarrow> bool" where
  "alternating call \<longleftrightarrow> (\<forall>i. \<exists>name ra rb. call i = (if even i then Inl (ClientError name ra) else Inl (ServerError rb)))"

lemma alternating_errors:
  fixes call :: "nat \<Rightarrow> api_error + 'r"
  assumes "catch_exception call k ca sa = Some y"
  shows "alternating call \<longrightarrow> \<not> (if even k then ca \<le> 1 else sa \<le> 1)"
proof (rule catch_exception.raw_induct [OF _ assms,
      where P = "\<lambda>call k ca sa y. alternating call \<longrightarrow> \<not> (if even k then ca \<le> 1 else sa \<le> 1)"])
  fix f and call :: "nat \<Rightarrow> api_error + 'r" and k ca sa y
  assume IH: "\<And>m k ca sa y. f m k ca sa = Some y \<Longrightarrow> alternating m \<longrightarrow> \<not> (if even k then ca \<le> 1 else sa \<le> (1::nat))"
    and e: "(case call k of
        Inl e \<Rightarrow> (case e of
          ClientError name ra \<Rightarrow>
            if ca \<le> CLIENT_LIMIT
            then Option.bind (f call (k + 1) (ca + 1) 1) (\<lambda>r. Some (waited (get_retry_timeout ra ca True) r))
            else Some (Inl e, [], k + 1)
        | ThrottledError timeout \<Rightarrow> Option.bind (f call (k + 1) ca 1) (\<lambda>r. Some (waited timeout r))
        | ServerError ra \<Rightarrow>
            if sa \<le> SERVER_LIMIT
            then Option.bind (f call (k + 1) 1 (sa + 1)) (\<lambda>r. Some (waited (get_retry_timeout ra sa False) r))
            else Some (Inl e, [], k + 1)
        | OtherApiError name \<Rightarrow> Some (Inl e, [], k + 1))
      | Inr r \<Rightarrow> Some (Inr r, [], k + 1)) = Some y"
  show "alternating call \<longrightarrow> \<not> (if even k then ca \<le> 1 else sa \<le> 1)"
  proof (intro impI notI)
    assume alt: "alternating call" and c: "if even k then ca \<le> 1 else sa \<le> 1"
    then obtain name ra rb where m: "call k = (if even k then Inl (ClientError name ra) else Inl (ServerError rb))"
      unfolding alternating_def by blast
    show False
    proof (cases "even k")
      case True
      then obtain z where "f call (k + 1) (ca + 1) 1 = Some z"
        using e m c by (auto simp: CLIENT_LIMIT_def bind_eq_Some_conv)
      from IH [OF this] alt True show False by simp
    next
      case False
      then obtain z where "f call (k + 1) 1 (sa + 1) = Some z"
        using e m c by (auto simp: SERVER_LIMIT_def bind_eq_Some_conv)
      from IH [OF this] alt False show False by simp
    qed
  qed
qed

lemma alternating_never_returns: "alternating call \<Longrightarrow> call_api call = None"
  using alternating_errors [of call 0 1 1] unfolding call_api_def by (cases "catch_exception call 0 1 1") auto

end
