(* ===== verification/ToolFunctions.thy ===== *)
theory ToolFunctions
  imports PyValue
begin

text \<open>
  Functions and small classes of \<open>integration/tools.py\<close>: values that are wrapped, flattened, translated or
  merged, the extraction of a node from a JSON value (\<open>ExtractNode\<close>), names that are made plural or freed of
  special characters, the cache of API clients (\<open>AdapterHub\<close>) and the result of an export of prices
  (\<open>PriceList\<close>).
\<close>

section \<open>Values\<close>

definition make_list_if_not :: "pyval \<Rightarrow> pyval list" where
  "make_list_if_not v = (case v of PList xs \<Rightarrow> xs | _ \<Rightarrow> [v])"

definition is_translated_value :: "pyval \<Rightarrow> bool" where
  "is_translated_value v =
     (case v of PDict d \<Rightarrow> (case map_of d ''language'' of Some l \<Rightarrow> py_true l | None \<Rightarrow> False) | _ \<Rightarrow> False)"

definition parse_translated_value :: "pyval \<Rightarrow> string \<Rightarrow> pyval result" where
  "parse_translated_value v lang =
     (if \<not> is_translated_value v then Inr v
      else (case v of
              PDict d \<Rightarrow> (case map_of d ''language'' of
                            Some (PDict l) \<Rightarrow> Inr (dict_get PNone l lang)
                          | _ \<Rightarrow> Inl AttributeError)
            | _ \<Rightarrow> Inr v))"

text \<open>A list inside a list is taken apart; anything else is an element.\<close>

fun flatten_item :: "pyval \<Rightarrow> pyval list" where
  "flatten_item (PList xs) = concat (map flatten_item xs)"
| "flatten_item v = [v]"

definition flatten_recursive :: "pyval list \<Rightarrow> pyval list" where
  "flatten_recursive xs = concat (map flatten_item xs)"

lemma flatten_item_flat: "x \<in> set (flatten_item v) \<Longrightarrow> \<nexists>xs. x = PList xs"
  by (induction v rule: flatten_item.induct) auto

text \<open>\<open>merge\<close>: lists are extended and dictionaries updated, anything else is replaced.\<close>

definition py_extend :: "pyval list \<Rightarrow> pyval \<Rightarrow> pyval result" where
  "py_extend xs v =
     (case v of
        PList ys \<Rightarrow> Inr (PList (xs @ ys))
      | PTuple ys \<Rightarrow> Inr (PList (xs @ ys))
      | PDict d \<Rightarrow> Inr (PList (xs @ map (PStr \<circ> fst) d))
      | PStr s \<Rightarrow> Inr (PList (xs @ map (\<lambda>c. PStr [c]) s))
      | PRecords r \<Rightarrow> Inr (PList (xs @ map (\<lambda>i. PRecords (r\<lparr>rs_ids := [i]\<rparr>)) (rs_ids r)))
      | _ \<Rightarrow> Inl TypeError)"

text \<open>A dictionary can also be updated with a list of pairs, whose keys are texts here.\<close>

fun pairs_of :: "pyval list \<Rightarrow> fields result" where
  "pairs_of [] = Inr []"
| "pairs_of (PTuple [PStr k, v] # ps) = rbind (pairs_of ps) (\<lambda>d. Inr ((k, v) # d))"
| "pairs_of (PList [PStr k, v] # ps) = rbind (pairs_of ps) (\<lambda>d. Inr ((k, v) # d))"
| "pairs_of (PStr [a, b] # ps) = rbind (pairs_of ps) (\<lambda>d. Inr (([a], PStr [b]) # d))"
| "pairs_of (PTuple xs # ps) = Inl ValueError"
| "pairs_of (PList xs # ps) = Inl ValueError"
| "pairs_of (PStr s # ps) = Inl ValueError"
| "pairs_of (v # ps) = Inl TypeError"

definition merge_value :: "pyval \<Rightarrow> pyval \<Rightarrow> pyval result" where
  "merge_value nested v =
     (case nested of
        PList xs \<Rightarrow> py_extend xs v
      | PDict d \<Rightarrow>
          rbind (case v of
                   PDict e \<Rightarrow> Inr e
                 | PList ps \<Rightarrow> pairs_of ps
                 | PTuple ps \<Rightarrow> pairs_of ps
                 | PStr s \<Rightarrow> pairs_of (map (\<lambda>c. PStr [c]) s)
                 | _ \<Rightarrow> Inl TypeError) (\<lambda>e. Inr (PDict (dict_update d e)))
      | _ \<Rightarrow> Inr v)"

fun merge :: "fields \<Rightarrow> fields \<Rightarrow> fields result" where
  "merge d [] = Inr d"
| "merge d ((k, v) # kw) =
     (case map_of d k of
        Some nested \<Rightarrow> rbind (merge_value nested v) (\<lambda>v'. merge (dict_set k v' d) kw)
      | None \<Rightarrow> merge (dict_set k v d) kw)"

section \<open>Nodes of a JSON value\<close>

definition py_isdigit :: "string \<Rightarrow> bool" where
  "py_isdigit s \<longleftrightarrow> s \<noteq> [] \<and> list_all (\<lambda>c. digit_val c \<noteq> None) s"

definition key_index :: "string \<Rightarrow> nat" where
  "key_index s = (case py_digits s 0 False of Some n \<Rightarrow> n | None \<Rightarrow> 0)"

text \<open>\<open>_extract\<close>: the value under the keys; \<open>None\<close> stands for \<open>MissedValue\<close>. A key of digits is an index of
  a list; another key goes to all elements of the list, and those without it are left out. (Superscript digits,
  which \<open>isdigit\<close> takes and \<open>int\<close> refuses, are taken for letters.)\<close>

lemma map_filter_cong [fundef_cong]:
  "xs = ys \<Longrightarrow> (\<And>x. x \<in> set ys \<Longrightarrow> f x = g x) \<Longrightarrow> List.map_filter f xs = List.map_filter g ys"
  by (induction xs arbitrary: ys) (auto simp: List.map_filter_simps split: option.split)

function (sequential) extract_node :: "pyval \<Rightarrow> string list \<Rightarrow> pyval option" where
  "extract_node data [] = Some data"
| "extract_node (PList xs) (key # keys) =
     (if py_isdigit key
      then (if key_index key < length xs then extract_node (xs ! key_index key) keys else None)
      else Some (PList (List.map_filter (\<lambda>x. extract_node x (key # keys)) xs)))"
| "extract_node (PDict d) (key # keys) = (case map_of d key of Some v \<Rightarrow> extract_node v keys | None \<Rightarrow> None)"
| "extract_node data (key # keys) = None"
  by pat_completeness auto
termination
proof (relation "measure (\<lambda>(data, keys). size data + length keys)", goal_cases)
  case (2 xs key keys)
  then show ?case
    using nth_mem [of "key_index key" xs] size_list_estimation' [of "xs ! key_index key" xs "size (xs ! key_index key)" size]
    by simp
next
  case (3 xs key keys x)
  then show ?case using size_list_estimation' [of x xs "size x" size] by simp
next
  case (4 d key keys v)
  from 4 have "(key, v) \<in> set d" by (rule map_of_SomeD)
  then have "size v < size_list (size_prod (\<lambda>_. 0) size) d"
    by (induction d) auto
  then show ?case by simp
qed simp

definition get_default :: "pyval + pyval \<Rightarrow> pyval" where
  "get_default return_type = (case return_type of Inl made \<Rightarrow> made | Inr v \<Rightarrow> v)"

text \<open>The node of a result: a text is parsed first; a missing node is the default, or an error.\<close>

definition extract_raw ::
  "(string \<Rightarrow> pyval option) \<Rightarrow> pyval \<Rightarrow> string \<Rightarrow> pyval + pyval \<Rightarrow> bool \<Rightarrow> pyval result" where
  "extract_raw loads json_data key_string return_type raise_error =
     rbind (case json_data of PStr s \<Rightarrow> (case loads s of Some v \<Rightarrow> Inr v | None \<Rightarrow> Inl ValueError) | v \<Rightarrow> Inr v) (\<lambda>v.
     case extract_node v (py_split (CHR ''.'') key_string) of
       Some node \<Rightarrow> Inr node
     | None \<Rightarrow> if raise_error then Inl KeyError else Inr (get_default return_type))"

section \<open>Names\<close>

definition py_lower_char :: "char \<Rightarrow> char" where
  "py_lower_char c = (let n = of_char c :: nat in if 65 \<le> n \<and> n \<le> 90 \<or> 192 \<le> n \<and> n \<le> 222 \<and> n \<noteq> 215 then char_of (n + 32) else c)"

definition py_lower :: "string \<Rightarrow> string" where
  "py_lower s = map py_lower_char s"

definition normalize_uom_name :: "string \<Rightarrow> string" where
  "normalize_uom_name uom_name =
     (let n = py_lower uom_name in if n \<in> {''lbs'', ''kgs''} then butlast n else n)"

definition pluralize :: "string \<Rightarrow> string" where
  "pluralize word =
     (let w = py_strip word in
      if w = [] then w
      else if py_endswith w ''s'' \<and> \<not> py_endswith w ''ss'' then w
      else if py_endswith w ''y'' \<and> length w > 1 \<and> py_lower_char (w ! (length w - 2)) \<notin> set ''aeiou''
      then butlast w @ ''ies''
      else if py_endswith w ''s'' \<or> py_endswith w ''x'' \<or> py_endswith w ''z'' \<or> py_endswith w ''ch'' \<or> py_endswith w ''sh''
      then w @ ''es''
      else if py_endswith w ''f'' then butlast w @ ''ves''
      else if py_endswith w ''fe'' then butlast (butlast w) @ ''ves''
      else w @ ''s'')"

text \<open>Runs of characters that are not allowed, in any case, become a hyphen.\<close>

fun sub_runs :: "(char \<Rightarrow> bool) \<Rightarrow> bool \<Rightarrow> string \<Rightarrow> string" where
  "sub_runs ok in_run [] = []"
| "sub_runs ok in_run (c # s) =
     (if ok c then c # sub_runs ok False s
      else if in_run then sub_runs ok True s
      else CHR ''-'' # sub_runs ok True s)"

definition is_alnum :: "char \<Rightarrow> bool" where
  "is_alnum c = (let n = of_char c :: nat in 48 \<le> n \<and> n \<le> 57 \<or> 65 \<le> n \<and> n \<le> 90 \<or> 97 \<le> n \<and> n \<le> 122)"

definition allowed_char :: "string \<Rightarrow> char \<Rightarrow> bool" where
  "allowed_char allowed c =
     (if allowed = [] then is_alnum c else \<exists>a\<in>set allowed. py_lower_char a = py_lower_char c)"

definition strip_hyphens :: "string \<Rightarrow> string" where
  "strip_hyphens s = rev (dropWhile (\<lambda>c. c = CHR ''-'') (rev (dropWhile (\<lambda>c. c = CHR ''-'') s)))"

definition escape_trash :: "string \<Rightarrow> string \<Rightarrow> nat option \<Rightarrow> bool \<Rightarrow> string" where
  "escape_trash value allowed max_length lowercase =
     (let s = sub_runs (allowed_char allowed) False value;
          s = (case max_length of None \<Rightarrow> s | Some n \<Rightarrow> if n = 0 then s else take n s);
          s = (if lowercase then py_lower s else s)
      in strip_hyphens s)"

section \<open>API clients\<close>

record adapter_core =
  ac_integration :: int
  ac_hash :: string
  ac_activated :: bool

type_synonym adapter_hub = "(string \<times> adapter_core) list"

definition hub_key :: "int \<Rightarrow> int \<Rightarrow> string" where
  "hub_key integration_id pid = show_int integration_id @ ''-'' @ show_int pid"

text \<open>What \<open>_build_adapter_core\<close> of the integration makes is given.\<close>

definition set_core_cls :: "adapter_core \<Rightarrow> string \<Rightarrow> adapter_hub \<Rightarrow> adapter_core \<times> adapter_hub" where
  "set_core_cls built key hub = (built, dict_set key built hub)"

definition erase_core_cls :: "string \<Rightarrow> adapter_hub \<Rightarrow> adapter_hub" where
  "erase_core_cls key hub = filter (\<lambda>(k, c). k \<noteq> key) hub"

definition get_core :: "adapter_core \<Rightarrow> string \<Rightarrow> int \<Rightarrow> int \<Rightarrow> adapter_hub \<Rightarrow> adapter_core \<times> adapter_hub" where
  "get_core built hash integration_id pid hub =
     (let key = hub_key integration_id pid;
          (core, hub1) =
            (case map_of hub key of
               None \<Rightarrow> set_core_cls built key hub
             | Some c \<Rightarrow> if ac_hash c \<noteq> hash then set_core_cls built key (erase_core_cls key hub) else (c, hub));
          active = core\<lparr>ac_activated := True\<rparr>
      in (active, dict_set key active hub1))"

text \<open>An API client that was kept is used only as long as the settings have not changed.\<close>

lemma get_core_current:
  assumes "ac_hash built = hash"
  shows "ac_hash (fst (get_core built hash i p hub)) = hash \<and> ac_activated (fst (get_core built hash i p hub)) \<and>
    map_of (snd (get_core built hash i p hub)) (hub_key i p) = Some (fst (get_core built hash i p hub))"
  using assms by (simp add: get_core_def set_core_cls_def Let_def split: option.split prod.split)

section \<open>Prices\<close>

text \<open>The rows that remember which item of the shop an item of a price list is.\<close>

record price_row =
  pr_item_id :: int
  pr_external_item_id :: string
  pr_variant_id :: int
  pr_template_id :: int
  pr_integration_id :: int

record price_list =
  pl_integration :: int
  pl_res_id :: int
  pl_res_model :: string
  pl_ext_id :: string
  pl_prices :: "(string \<times> int \<times> string list) list"
  pl_result :: "(int \<times> string) list"
  pl_unlinked :: "string list"

text \<open>A price is its external group, its item and the external items; an identifier of zero is \<open>False\<close>.\<close>

definition tmpl_id :: "price_list \<Rightarrow> int" where
  "tmpl_id p = (if pl_res_model p = ''product.template'' then pl_res_id p else 0)"

definition var_id :: "price_list \<Rightarrow> int" where
  "var_id p = (if pl_res_model p = ''product.product'' then pl_res_id p else 0)"

definition join_external_groups :: "price_list \<Rightarrow> string" where
  "join_external_groups p = py_join ''|'' (map fst (pl_prices p))"

definition parsed_items :: "price_list \<Rightarrow> int list" where
  "parsed_items p = map (\<lambda>(g, i, es). i) (pl_prices p)"

definition parsed_external_items :: "price_list \<Rightarrow> string set" where
  "parsed_external_items p = set (concat (map (\<lambda>(g, i, es). es) (pl_prices p)))"

definition update_result :: "int \<times> string \<Rightarrow> price_list \<Rightarrow> price_list" where
  "update_result res p = p\<lparr>pl_result := pl_result p @ [res]\<rparr>"

definition update_unlinked :: "string list \<Rightarrow> price_list \<Rightarrow> price_list" where
  "update_unlinked ids p = p\<lparr>pl_unlinked := ids\<rparr>"

definition is_default :: "price_list \<Rightarrow> price_row \<Rightarrow> bool" where
  "is_default p r \<longleftrightarrow> pr_variant_id r = var_id p \<and> pr_template_id r = tmpl_id p \<and> pr_integration_id r = pl_integration p"

definition drop_unlinked :: "price_list \<Rightarrow> price_row list \<Rightarrow> price_row list" where
  "drop_unlinked p rows =
     filter (\<lambda>r. \<not> (pr_integration_id r = pl_integration p \<and> pr_external_item_id r \<in> set (pl_unlinked p))) rows"

definition drop_legacy :: "price_list \<Rightarrow> int \<Rightarrow> price_row list \<Rightarrow> price_row list" where
  "drop_legacy p item rows = filter (\<lambda>r. \<not> (is_default p r \<and> pr_item_id r = item)) rows"

definition result_row :: "price_list \<Rightarrow> int \<times> string \<Rightarrow> price_row" where
  "result_row p res = \<lparr>pr_item_id = fst res, pr_external_item_id = snd res, pr_variant_id = var_id p,
     pr_template_id = tmpl_id p, pr_integration_id = pl_integration p\<rparr>"

definition save_result_db :: "price_list \<Rightarrow> price_row list \<Rightarrow> price_row list" where
  "save_result_db p rows =
     (let res = filter (\<lambda>(i, e). e \<noteq> []) (pl_result p)
      in foldl (\<lambda>rows (i, e). drop_legacy p i rows) (drop_unlinked p rows) res @ map (result_row p) res)"

text \<open>\<open>_parse_template_and_combination\<close>: a product of the shop is a template and a combination.\<close>

definition parse_template_and_combination :: "price_list \<Rightarrow> string list" where
  "parse_template_and_combination p =
     (if pl_res_model p = ''product.template'' then [pl_ext_id p, ''0'']
      else (case dropWhile (\<lambda>c. c \<noteq> CHR ''-'') (pl_ext_id p) of
              [] \<Rightarrow> [pl_ext_id p]
            | _ # rest \<Rightarrow> [takeWhile (\<lambda>c. c \<noteq> CHR ''-'') (pl_ext_id p), rest]))"

lemma drop_legacy_all:
  "foldl (\<lambda>rows (i, e). drop_legacy p i rows) rows res =
     filter (\<lambda>r. \<not> (is_default p r \<and> pr_item_id r \<in> fst ` set res)) rows"
proof (induction res arbitrary: rows)
  case (Cons ie res)
  then show ?case by (cases ie) (auto simp: drop_legacy_def intro!: filter_cong)
qed simp

lemma save_result_db_ok:
  defines "res p \<equiv> filter (\<lambda>(i, e). e \<noteq> []) (pl_result p)"
  shows "filter (\<lambda>r. is_default p r \<and> pr_item_id r \<in> fst ` set (res p)) (save_result_db p rows) = map (result_row p) (res p)"
    and "filter (\<lambda>r. \<not> (is_default p r \<and> pr_item_id r \<in> fst ` set (res p))) (save_result_db p rows) =
      filter (\<lambda>r. \<not> (is_default p r \<and> pr_item_id r \<in> fst ` set (res p))) (drop_unlinked p rows)"
proof -
  have s: "save_result_db p rows =
      filter (\<lambda>r. \<not> (is_default p r \<and> pr_item_id r \<in> fst ` set (res p))) (drop_unlinked p rows) @ map (result_row p) (res p)"
    by (simp only: save_result_db_def Let_def drop_legacy_all res_def)
  have m: "\<forall>r\<in>set (map (result_row p) (res p)). is_default p r \<and> pr_item_id r \<in> fst ` set (res p)"
    by (auto simp: is_default_def result_row_def)
  show "filter (\<lambda>r. is_default p r \<and> pr_item_id r \<in> fst ` set (res p)) (save_result_db p rows) = map (result_row p) (res p)"
    unfolding s filter_append filter_filter using m by (simp add: filter_empty_conv filter_id_conv)
  show "filter (\<lambda>r. \<not> (is_default p r \<and> pr_item_id r \<in> fst ` set (res p))) (save_result_db p rows) =
      filter (\<lambda>r. \<not> (is_default p r \<and> pr_item_id r \<in> fst ` set (res p))) (drop_unlinked p rows)"
    unfolding s filter_append filter_filter using m by (simp add: filter_empty_conv)
qed

section \<open>Keys one after the other\<close>

lemma map_filter_bind: "List.map_filter g (List.map_filter f xs) = List.map_filter (\<lambda>x. Option.bind (f x) g) xs"
  by (induction xs) (auto simp: List.map_filter_simps split: option.split)

lemma extract_append:
  "list_all (\<lambda>k. \<not> py_isdigit k) ys \<Longrightarrow>
    extract_node data (xs @ ys) = Option.bind (extract_node data xs) (\<lambda>d. extract_node d ys)"
proof (induction data xs rule: extract_node.induct)
  case (2 xs key keys)
  show ?case
  proof (cases "py_isdigit key")
    case True
    then show ?thesis using 2 by simp
  next
    case False
    have "List.map_filter (\<lambda>x. extract_node x (key # keys @ ys)) xs =
        List.map_filter (\<lambda>x. Option.bind (extract_node x (key # keys)) (\<lambda>d. extract_node d ys)) xs"
      using "2.IH"(2) [OF False] "2.prems" by (intro map_filter_cong) auto
    moreover have "List.map_filter (\<lambda>d. Some d) zs = zs" for zs :: "pyval list"
      by (induction zs) (simp_all add: List.map_filter_simps)
    ultimately show ?thesis
      using False "2.prems" by (cases ys) (simp_all add: map_filter_bind [symmetric])
  qed
next
  case (3 d key keys)
  then show ?case by (auto split: option.split)
qed simp_all

section \<open>Escaped names\<close>

lemma sub_runs_chars: "set (sub_runs ok in_run s) \<subseteq> insert (CHR ''-'') {c \<in> set s. ok c}"
  by (induction ok in_run s rule: sub_runs.induct) auto

lemma strip_hyphens_ends:
  "set (strip_hyphens s) \<subseteq> set s" "length (strip_hyphens s) \<le> length s"
  "strip_hyphens s \<noteq> [] \<Longrightarrow> hd (strip_hyphens s) \<noteq> CHR ''-'' \<and> last (strip_hyphens s) \<noteq> CHR ''-''"
proof -
  let ?P = "\<lambda>c. c = CHR ''-''"
  let ?a = "dropWhile ?P s"
  show "set (strip_hyphens s) \<subseteq> set s"
    unfolding strip_hyphens_def by (auto dest!: set_dropWhileD)
  show "length (strip_hyphens s) \<le> length s"
    unfolding strip_hyphens_def length_rev
    by (rule le_trans [OF length_dropWhile_le]) (simp add: length_dropWhile_le)
  assume ne: "strip_hyphens s \<noteq> []"
  then have b: "dropWhile ?P (rev ?a) \<noteq> []" by (simp add: strip_hyphens_def)
  have a: "?a \<noteq> []"
  proof
    assume e: "?a = []"
    show False using b unfolding e by simp
  qed
  have l: "last (strip_hyphens s) \<noteq> CHR ''-''"
    using hd_dropWhile [OF b] by (simp add: strip_hyphens_def last_rev)
  have "rev (takeWhile ?P (rev ?a) @ dropWhile ?P (rev ?a)) = ?a"
    by (simp only: takeWhile_dropWhile_id rev_rev_ident)
  then have "strip_hyphens s @ rev (takeWhile ?P (rev ?a)) = ?a"
    by (simp only: strip_hyphens_def rev_append)
  then have "hd (strip_hyphens s) = hd ?a" by (rule subst) (rule hd_append2 [OF ne, symmetric])
  then show "hd (strip_hyphens s) \<noteq> CHR ''-'' \<and> last (strip_hyphens s) \<noteq> CHR ''-''"
    using hd_dropWhile [OF a] l by simp
qed

end
