(* ===== verification/IntegrationProperties.thy ===== *)
theory IntegrationProperties
  imports SaleTransferFacts TemplateHub ApiRetry ToolFunctions
begin

text \<open>
  The properties of the tools of the integration: the export of the pickings of a sale, the checks of products
  with the same reference, the repetition of API calls and the extraction of nodes.
\<close>

section \<open>The pickings of a sale\<close>

lemma iter_set [simp]: "set (iter ps) = set ps"
  by (simp add: iter_def)

lemma set_initial_order: "set (transfers ps @ backorders ps @ dropships ps @ mixed ps) = set ps"
  using mset_initial_order by (rule mset_eq_setD)

lemma initial_setup_lines: "map pk_approved_lines (initial_setup ps) =
    map pk_approved_lines (transfers ps @ backorders ps @ dropships ps @ mixed ps)"
  and initial_setup_tracking: "map pk_tracking (initial_setup ps) =
    map pk_tracking (transfers ps @ backorders ps @ dropships ps @ mixed ps)"
proof -
  have "map f (map (\<lambda>(i, p). p\<lparr>pk_sequence := i\<rparr>) (enumerate n xs)) = map f xs"
    if "\<And>p i. f (p\<lparr>pk_sequence := i\<rparr>) = f p" for f :: "Picking \<Rightarrow> 'a" and n and xs :: "Picking list"
    by (induction xs arbitrary: n) (simp_all add: that)
  from this [of pk_approved_lines] this [of pk_tracking]
  show "map pk_approved_lines (initial_setup ps) =
      map pk_approved_lines (transfers ps @ backorders ps @ dropships ps @ mixed ps)"
    "map pk_tracking (initial_setup ps) = map pk_tracking (transfers ps @ backorders ps @ dropships ps @ mixed ps)"
    unfolding initial_setup_def by simp_all
qed

lemma mset_initial_lines: "mset (map pk_approved_lines (initial_setup ps)) = mset (map pk_approved_lines ps)"
  by (simp only: initial_setup_lines mset_map mset_initial_order)

lemma all_ids_initial: "all_ids (initial_setup ps) = all_ids ps"
proof -
  have "all_ids qs = (\<Union>ls\<in>set (map pk_approved_lines qs). pl_external_id ` set ls)" for qs
    by (auto simp: all_ids_def ids_def)
  moreover have "set (map pk_approved_lines (initial_setup ps)) = set (map pk_approved_lines ps)"
    using mset_initial_lines by (rule mset_eq_setD)
  ultimately show ?thesis by presburger
qed

lemma dump_ids: "set (concat (map (map fst \<circ> pd_lines) (dump ps))) = all_ids ps"
  by (auto simp: dump_def picking_serialize_def line_serialize_def all_ids_def ids_def approved_def image_image)

lemma settled_disjoint:
  assumes "settled i ps" and "i < length ps" "j < length ps" "j \<noteq> i"
  shows "kit_ids (ps ! i) \<inter> kit_ids (ps ! j) = {}" "pending_ids (ps ! i) \<inter> done_ids (ps ! j) = {}"
  using assms unfolding settled_def ids_but_def by fastforce+

lemma transfer_keeps_the_lines:
  "set (concat (map (map fst \<circ> pd_lines) (export_transfer ps))) = all_ids ps"
  "length (squash (initial_setup ps)) = length ps"
  "list_all2 (\<lambda>p q. set (pk_approved_lines q) \<subseteq> set (pk_approved_lines p))
     (initial_setup ps) (squash (initial_setup ps))"
  "i < length ps \<Longrightarrow> settled i (squash (initial_setup ps))"
proof -
  let ?qs = "initial_setup ps" let ?sq = "squash ?qs"
  have inv: "squash_inv ?qs 0 ?sq" by (rule squash_lines [OF numbered_initial_setup])
  have l: "length ?qs = length ps"
    using arg_cong [OF mset_initial_lines [of ps], of size] by simp
  have "all_ids ?sq = all_ids ps" using inv all_ids_initial [of ps] by (simp add: squash_inv_def)
  then show "set (concat (map (map fst \<circ> pd_lines) (export_transfer ps))) = all_ids ps"
    unfolding export_transfer_def dump_ids .
  show "length ?sq = length ps" using inv l by (simp add: squash_inv_def)
  show "list_all2 (\<lambda>p q. set (pk_approved_lines q) \<subseteq> set (pk_approved_lines p)) ?qs ?sq"
    using inv by (simp add: squash_inv_def list_all2_conv_all_nth)
  show "i < length ps \<Longrightarrow> settled i ?sq" using inv l by (simp add: squash_inv_def)
qed

lemma transfer_keeps_the_tracking:
  assumes "p \<in> set ps" and "pk_tracking p \<noteq> []" and "all_ids ps \<noteq> {}"
  shows "\<exists>d\<in>set (export_transfer ps). sublist (pk_tracking p) (pd_tracking d)"
proof -
  let ?qs = "initial_setup ps" let ?sq = "squash ?qs"
  have t: "track_inv ?qs 0 ?sq"
    by (rule squash_tracking [OF numbered_initial_setup]) (simp add: all_ids_initial assms(3))
  have "pk_tracking p \<in> set (map pk_tracking ?qs)"
    using assms(1) by (simp only: initial_setup_tracking set_map set_initial_order) simp
  then obtain p' where "p' \<in> set ?qs" "pk_tracking p' = pk_tracking p" by auto
  then obtain i where "i < length ?sq" "sublist (pk_tracking p) (pk_tracking (?sq ! i))" "approved (?sq ! i)"
    using t assms(2) unfolding track_inv_def by (metis not_less_zero)
  then show ?thesis
    by (auto simp: export_transfer_def dump_def picking_serialize_def intro!: exI [of _ "?sq ! i"])
qed

lemma moves_to_lines_ids:
  "distinct (map pl_external_id (moves_to_lines multi ms))"
  "pl_external_id ` set (moves_to_lines multi ms) = {e. e \<noteq> [] \<and> Some e \<in> mv_external_id ` set ms}"
proof -
  have e: "map pl_external_id (moves_to_lines multi ms) = map fst (serialize_moves multi ms [])"
    by (simp add: moves_to_lines_def case_prod_beta comp_def)
  show "distinct (map pl_external_id (moves_to_lines multi ms))"
    "pl_external_id ` set (moves_to_lines multi ms) = {e. e \<noteq> [] \<and> Some e \<in> mv_external_id ` set ms}"
    using serialize_moves_keys [of "[]" multi ms] unfolding e set_map [symmetric] by simp_all
qed

text \<open>The order lines of the moves of a picking.\<close>

definition order_lines :: "stock_picking \<Rightarrow> string set" where
  "order_lines sp = {e. e \<noteq> [] \<and> Some e \<in> mv_external_id ` set (sp_moves sp)}"

lemma exported_ids:
  assumes "groups_ok groupby"
  shows "ids (to_export_format0 groupby multi sp) = order_lines sp"
  using approve_lines_ok [OF assms, of "moves_to_lines multi (sp_moves sp)"]
  by (simp add: ids_def to_export_format0_def picking_init_def order_lines_def moves_to_lines_ids)

lemma exported_all_ids:
  assumes "groups_ok groupby"
  shows "all_ids (map (to_export_format0 groupby multi) sps) = (\<Union>sp\<in>set sps. order_lines sp)"
  by (simp add: all_ids_def exported_ids [OF assms])

text \<open>C16: The export of the pickings of a sale loses no order line and repeats no line that is settled: the
  order lines in the exported data are exactly those of the moves; each picking only lost lines; and of two
  different pickings, both have no kit line in common and none has a line open that the other one completes.\<close>
theorem transfers_keep_the_lines:
  fixes sps :: "stock_picking list"
  assumes "groups_ok groupby"
  defines "ps \<equiv> map (to_export_format0 groupby True) sps"
  shows "set (concat (map (map fst \<circ> pd_lines \<circ> fst) (to_export_format_multi groupby sps))) =
      (\<Union>sp\<in>set sps. order_lines sp) \<and>
    list_all2 (\<lambda>p q. set (pk_approved_lines q) \<subseteq> set (pk_approved_lines p))
      (initial_setup ps) (squash (initial_setup ps)) \<and>
    (\<forall>i<length sps. \<forall>j<length sps. i \<noteq> j \<longrightarrow>
      kit_ids (squash (initial_setup ps) ! i) \<inter> kit_ids (squash (initial_setup ps) ! j) = {} \<and>
      pending_ids (squash (initial_setup ps) ! i) \<inter> done_ids (squash (initial_setup ps) ! j) = {})"
proof (intro conjI allI impI)
  have "map (map fst \<circ> pd_lines \<circ> fst) (to_export_format_multi groupby sps) = map (map fst \<circ> pd_lines) (export_transfer ps)"
    by (simp add: to_export_format_multi_def ps_def)
  then show "set (concat (map (map fst \<circ> pd_lines \<circ> fst) (to_export_format_multi groupby sps))) =
      (\<Union>sp\<in>set sps. order_lines sp)"
    by (simp only: transfer_keeps_the_lines ps_def exported_all_ids [OF assms(1)])
  show "list_all2 (\<lambda>p q. set (pk_approved_lines q) \<subseteq> set (pk_approved_lines p))
      (initial_setup ps) (squash (initial_setup ps))" by (rule transfer_keeps_the_lines)
  fix i j assume ij: "i < length sps" "j < length sps" "i \<noteq> j"
  then have "settled i (squash (initial_setup ps))" by (intro transfer_keeps_the_lines) (simp add: ps_def)
  from settled_disjoint [OF this, of j] ij
  show "kit_ids (squash (initial_setup ps) ! i) \<inter> kit_ids (squash (initial_setup ps) ! j) = {}"
    "pending_ids (squash (initial_setup ps) ! i) \<inter> done_ids (squash (initial_setup ps) ! j) = {}"
    by (simp_all add: transfer_keeps_the_lines(2) ps_def)
qed

definition sample_groupby :: grouping where
  "sample_groupby ls = map (\<lambda>k. (k, filter (\<lambda>l. pl_external_id l = k) ls)) (remdups (map pl_external_id ls))"

lemma sample_groups_ok: "groups_ok sample_groupby"
  by (simp add: groups_ok_def sample_groupby_def comp_def image_image)

definition sample_move :: "string \<Rightarrow> int \<Rightarrow> int \<Rightarrow> bool \<Rightarrow> move" where
  "sample_move e d q kit = \<lparr>mv_external_id = Some e, mv_delivered = d, mv_ordered = d, mv_quantity = q, mv_is_kit = kit\<rparr>"

definition sample_picking :: "int \<Rightarrow> string \<Rightarrow> bool \<Rightarrow> move list \<Rightarrow> stock_picking" where
  "sample_picking n tracking back ms = \<lparr>sp_id = n, sp_name = ''OUT'', sp_carrier = ''Post'',
     sp_external_carrier_code = [], sp_tracking_ref = tracking, sp_backorder = back, sp_dropship = False,
     sp_moves = ms, sp_external_location = ''L''\<rparr>"

text \<open>A kit in two pickings, and the other line of the second one completed in the first.\<close>

definition sample_pickings :: "stock_picking list" where
  "sample_pickings =
     [sample_picking 2 ''T2'' True [sample_move ''K'' 1 1 True, sample_move ''A'' 2 1 False],
      sample_picking 1 ''T1'' False [sample_move ''K'' 1 1 True, sample_move ''A'' 2 2 False]]"

lemma sample_order_lines: "(\<Union>sp\<in>set sample_pickings. order_lines sp) = {''K'', ''A''}"
  by (auto simp: sample_pickings_def sample_picking_def sample_move_def order_lines_def)

lemma transfers_keep_the_lines_witness:
  "set (concat (map (map fst \<circ> pd_lines \<circ> fst) (to_export_format_multi sample_groupby sample_pickings))) =
     {''K'', ''A''} \<and>
   kit_ids (squash (initial_setup (map (to_export_format0 sample_groupby True) sample_pickings)) ! 0) \<inter>
     kit_ids (squash (initial_setup (map (to_export_format0 sample_groupby True) sample_pickings)) ! 1) = {}"
proof -
  have l: "0 < length sample_pickings" "1 < length sample_pickings" by (simp_all add: sample_pickings_def)
  note t = transfers_keep_the_lines [OF sample_groups_ok, of sample_pickings]
  show ?thesis
    using conjunct1 [OF t] conjunct1 [OF conjunct2 [OF conjunct2 [OF t], rule_format, OF l]]
    unfolding sample_order_lines by simp
qed

text \<open>No tracking reference is lost: if some move of the pickings has an order line, the tracking of each
  picking is part of the tracking of some picking that is exported, also if its own picking is left out
  because all its lines were dropped. Each exported picking has the location of its own record.\<close>
theorem transfers_keep_the_tracking:
  assumes "groups_ok groupby" and "(\<Union>sp\<in>set sps. order_lines sp) \<noteq> {}" and "distinct (map sp_id sps)"
  shows "(\<forall>sp\<in>set sps. sp_tracking_ref sp \<noteq> [] \<longrightarrow>
      (\<exists>(d, l)\<in>set (to_export_format_multi groupby sps). sublist (sp_tracking_ref sp) (pd_tracking d))) \<and>
    (\<forall>(d, l)\<in>set (to_export_format_multi groupby sps). \<forall>sp\<in>set sps.
      sp_id sp = pd_picking_id d \<longrightarrow> l = sp_external_location sp)"
proof (intro conjI ballI impI)
  let ?ps = "map (to_export_format0 groupby True) sps"
  fix sp assume sp: "sp \<in> set sps" "sp_tracking_ref sp \<noteq> []"
  have t: "pk_tracking (to_export_format0 groupby True sp) = sp_tracking_ref sp"
    by (simp add: to_export_format0_def picking_init_def picking_args_def)
  have "all_ids ?ps \<noteq> {}" using assms(2) by (simp only: exported_all_ids [OF assms(1)] not_False_eq_True)
  then have "\<exists>d\<in>set (export_transfer ?ps). sublist (sp_tracking_ref sp) (pd_tracking d)"
    using transfer_keeps_the_tracking [of "to_export_format0 groupby True sp" ?ps] sp by (simp add: t)
  then show "\<exists>(d, l)\<in>set (to_export_format_multi groupby sps). sublist (sp_tracking_ref sp) (pd_tracking d)"
    by (auto simp: to_export_format_multi_def)
next
  fix x assume x: "x \<in> set (to_export_format_multi groupby sps)"
  have l: "location_of sps i = sp_external_location sp" if "sp \<in> set sps" "sp_id sp = i" for sp i
  proof (cases "filter (\<lambda>sp. sp_id sp = i) sps")
    case Nil
    then show ?thesis using that by (auto simp: filter_empty_conv)
  next
    case (Cons q qs)
    then have "q \<in> set (filter (\<lambda>sp. sp_id sp = i) sps)" by simp
    then have "q = sp" using that inj_onD [of sp_id "set sps" q sp] assms(3) by (auto simp: distinct_map)
    then show ?thesis by (simp add: location_of_def Cons)
  qed
  show "case x of (d, l) \<Rightarrow> \<forall>sp\<in>set sps. sp_id sp = pd_picking_id d \<longrightarrow> l = sp_external_location sp"
    using x l by (auto simp: to_export_format_multi_def)
qed

lemma transfers_keep_the_tracking_witness:
  "\<exists>(d, l)\<in>set (to_export_format_multi sample_groupby sample_pickings). sublist ''T2'' (pd_tracking d)"
proof -
  have "distinct (map sp_id sample_pickings)" "hd sample_pickings \<in> set sample_pickings"
    "sp_tracking_ref (hd sample_pickings) = ''T2''"
    by (simp_all add: sample_pickings_def sample_picking_def)
  then show ?thesis
    using transfers_keep_the_tracking [OF sample_groups_ok, of sample_pickings] unfolding sample_order_lines by force
qed

text \<open>The documentation of the export says that each order line appears once. A line that two pickings deliver
  in part stays in both.\<close>

lemma partial_deliveries_stay:
  "map (pd_lines \<circ> fst) (to_export_format_multi sample_groupby
     [sample_picking 1 ''T1'' False [sample_move ''A'' 3 1 False],
      sample_picking 2 ''T2'' False [sample_move ''A'' 3 1 False]]) = [[(''A'', 1)], [(''A'', 1)]]"
  by code_simp

text \<open>The approved lines of a picking have each order line of its moves once, and of the lines with the
  same order line one with the greatest quantity; for moves, whose lines are put together before, this is all
  lines.\<close>
theorem picking_lines_correct:
  assumes "groups_ok groupby"
  shows "distinct (map pl_external_id (pk_approved_lines (picking_init groupby data ls))) \<and>
    pl_external_id ` set (pk_approved_lines (picking_init groupby data ls)) = pl_external_id ` set ls \<and>
    (\<forall>l\<in>set (pk_approved_lines (picking_init groupby data ls)). l \<in> set ls \<and>
      (\<forall>m\<in>set ls. pl_external_id m = pl_external_id l \<longrightarrow> get_qty m \<le> get_qty l)) \<and>
    distinct (map pl_external_id (moves_to_lines multi ms)) \<and>
    pl_external_id ` set (moves_to_lines multi ms) = {e. e \<noteq> [] \<and> Some e \<in> mv_external_id ` set ms}"
  using approve_lines_ok [OF assms, of ls] by (simp add: picking_init_def moves_to_lines_ids)

definition sample_line :: "int \<Rightarrow> PickingLine" where
  "sample_line q = \<lparr>pl_external_id = ''A'', pl_qty_demand = 2, pl_qty_done = q, pl_is_kit = False,
     pl_multi_serialization = True\<rparr>"

lemma picking_lines_correct_witness:
  "pl_external_id ` set (pk_approved_lines (picking_init sample_groupby (picking_args (hd sample_pickings))
     [sample_line 1, sample_line 2])) = {''A''}"
  using picking_lines_correct [OF sample_groups_ok, of "picking_args (hd sample_pickings)" "[sample_line 1, sample_line 2]"]
  by (simp add: sample_line_def)

section \<open>Products with the same reference\<close>

text \<open>The products that share a reference: empty references do not count, nor products whose identifier
  comes twice, and a template that is the only one of its reference is left out unless its single companion is
  a variant of another template; what is left is reported if it is more than one product, in the order of the
  catalogue. Barcodes shared by several products are reported in the same way, without any exception.\<close>
theorem duplicates_correct:
  assumes "get_repeated_product_ids hub = Inr rep" and "inj_on pt_id {p \<in> set hub. \<not> is_variant p}"
  shows "\<exists>dups. get_products_with_duplicate_references hub = Inr dups \<and>
    (\<forall>r. map_of dups r =
      (let g = without_template (filter (\<lambda>p. pt_ref p = r \<and> pt_id p \<notin> set rep) hub)
       in if r = [] \<or> length g < 2 then None else Some g)) \<and>
    (\<forall>b. map_of (get_products_with_duplicate_barcodes hub) b =
      (let g = filter (\<lambda>p. pt_barcode p = b) hub in if b = [] \<or> length g < 2 then None else Some g))"
proof -
  have "map_of (get_products_with_duplicate_barcodes hub) b =
      (let g = filter (\<lambda>p. pt_barcode p = b) hub in if b = [] \<or> length g < 2 then None else Some g)" for b
  proof (cases "b = []")
    case True
    then have "filter (\<lambda>x. pt_barcode x = b) (filter (\<lambda>p. pt_barcode p \<noteq> []) hub) = []"
      by (auto simp: filter_empty_conv)
    then show ?thesis
      using True unfolding get_products_with_duplicate_barcodes_def group_by_ok Let_def by simp
  next
    case False
    then have "filter (\<lambda>x. pt_barcode x = b) (filter (\<lambda>p. pt_barcode p \<noteq> []) hub) = filter (\<lambda>p. pt_barcode p = b) hub"
      unfolding filter_filter by (intro filter_cong) auto
    then show ?thesis
      using False unfolding get_products_with_duplicate_barcodes_def group_by_ok Let_def by auto
  qed
  with duplicate_references [OF assms] show ?thesis by blast
qed

definition sample_product :: "string \<Rightarrow> string \<Rightarrow> string \<Rightarrow> product" where
  "sample_product i parent ref = \<lparr>pt_id = i, pt_name = PStr ''n'', pt_barcode = [], pt_ref = ref,
     pt_parent_id = parent, pt_skip_ref = False, pt_joint_namespace = False\<rparr>"

text \<open>Two variants of template 1 with one reference, which the template has too; template 2 has another.\<close>

definition sample_hub :: "product list" where
  "sample_hub = [sample_product ''1'' [] ''R'', sample_product ''11'' ''1'' ''R'',
     sample_product ''12'' ''1'' ''R'', sample_product ''2'' [] ''S'']"

lemma duplicates_correct_witness:
  "\<exists>dups. get_products_with_duplicate_references sample_hub = Inr dups \<and>
    map_of dups ''R'' = Some [sample_product ''11'' ''1'' ''R'', sample_product ''12'' ''1'' ''R'']"
proof -
  have r: "get_repeated_product_ids sample_hub = Inr []" by code_simp
  have i: "inj_on pt_id {p \<in> set sample_hub. \<not> is_variant p}"
    by (auto simp: inj_on_def sample_hub_def sample_product_def is_variant_def)
  have "without_template (filter (\<lambda>p. pt_ref p = ''R'' \<and> pt_id p \<notin> set []) sample_hub) =
      [sample_product ''11'' ''1'' ''R'', sample_product ''12'' ''1'' ''R'']" by code_simp
  then show ?thesis using duplicates_correct [OF r i] by (force simp: Let_def)
qed

section \<open>Repeated calls\<close>

text \<open>A call of the API that fails n times with an error of the client or of the connection, without a time
  to wait, and then returns, gives its result if n is at most 8, after waits of 4, 8, 12, ... seconds; if it
  goes on failing, the ninth call is the last and its error is raised. Errors of the server are repeated five
  times, with waits of 2, 4, ... seconds.\<close>
theorem retries_of_calls_bounded:
  "(\<forall>n\<le>8. (\<forall>i<n. \<exists>name. call i = Inl (ClientError name None)) \<longrightarrow> call n = Inr r \<longrightarrow>
      call_api call = Some (Inr r, map (\<lambda>i. 4 * (i + 1)) [0..<n], n + 1)) \<and>
   ((\<forall>i\<le>8. \<exists>name. call i = Inl (ClientError name None)) \<longrightarrow>
      call_api call = Some (call 8, map (\<lambda>i. 4 * (i + 1)) [0..<8], 9)) \<and>
   (\<forall>n\<le>5. (\<forall>i<n. call i = Inl (ServerError None)) \<longrightarrow> call n = Inr r \<longrightarrow>
      call_api call = Some (Inr r, map (\<lambda>i. 2 * (i + 1)) [0..<n], n + 1)) \<and>
   ((\<forall>i\<le>5. call i = Inl (ServerError None)) \<longrightarrow>
      call_api call = Some (call 5, map (\<lambda>i. 2 * (i + 1)) [0..<5], 6))"
proof (intro conjI allI impI)
  have c: "CLIENT_TIMEOUT * (1 + i) = 4 * (i + 1)" "SERVER_TIMEOUT * (1 + i) = 2 * (i + 1)" for i
    by (simp_all add: CLIENT_TIMEOUT_def SERVER_TIMEOUT_def)
  note client = client_errors [of _ call 0 1 1, unfolded c] and server = server_errors [of _ call 0 1 1, unfolded c]
  show "call_api call = Some (Inr r, map (\<lambda>i. 4 * (i + 1)) [0..<n], n + 1)"
    if "n \<le> 8" "\<forall>i<n. \<exists>name. call i = Inl (ClientError name None)" "call n = Inr r" for n
    using client [of n "Inr r" "[]" "n + 1"] that unfolding call_api_def
    by (simp add: CLIENT_LIMIT_def catch_exception.simps [of call n])
  show "call_api call = Some (Inr r, map (\<lambda>i. 2 * (i + 1)) [0..<n], n + 1)"
    if "n \<le> 5" "\<forall>i<n. call i = Inl (ServerError None)" "call n = Inr r" for n
    using server [of n "Inr r" "[]" "n + 1"] that unfolding call_api_def
    by (simp add: SERVER_LIMIT_def catch_exception.simps [of call n])
  show "call_api call = Some (call 8, map (\<lambda>i. 4 * (i + 1)) [0..<8], 9)"
    if a: "\<forall>i\<le>8. \<exists>name. call i = Inl (ClientError name None)"
  proof -
    obtain name where "call 8 = Inl (ClientError name None)" using a by blast
    then show ?thesis
      using client [of 8 "call 8" "[]" 9] a unfolding call_api_def
      by (simp add: CLIENT_LIMIT_def catch_exception.simps [of call 8] del: upt_Suc)
  qed
  show "call_api call = Some (call 5, map (\<lambda>i. 2 * (i + 1)) [0..<5], 6)"
    if "\<forall>i\<le>5. call i = Inl (ServerError None)"
    using server [of 5 "call 5" "[]" 6] that unfolding call_api_def
    by (simp add: SERVER_LIMIT_def catch_exception.simps [of call 5] del: upt_Suc)
qed

definition failing_twice :: "nat \<Rightarrow> api_error + nat" where
  "failing_twice n = (if n < 2 then Inl (ClientError ''Timeout'' None) else Inr 7)"

lemma retries_of_calls_bounded_witness: "call_api failing_twice = Some (Inr 7, [4, 8], 3)"
  using conjunct1 [OF retries_of_calls_bounded, of failing_twice 7, rule_format, of 2]
  by (simp add: failing_twice_def upt_rec)

text \<open>C37: A call that fails with errors of the client and of the server in turn is repeated for ever: each
  repetition starts the other counter again, so that no limit is ever reached and the call never returns,
  unless the stack of the interpreter, which is not modelled, runs out.\<close>
theorem alternating_errors_never_end:
  assumes "\<forall>i. if even i then \<exists>name ra. call i = Inl (ClientError name ra) else \<exists>ra. call i = Inl (ServerError ra)"
  shows "call_api call = None"
proof (rule alternating_never_returns)
  show "alternating call" using assms unfolding alternating_def by metis
qed

definition unlucky :: "nat \<Rightarrow> api_error + nat" where
  "unlucky n = (if even n then Inl (ClientError ''Timeout'' None) else Inl (ServerError None))"

lemma alternating_errors_never_end_witness: "call_api unlucky = None"
  by (rule alternating_errors_never_end) (simp add: unlucky_def)

section \<open>Nodes\<close>

text \<open>The extraction of a node follows its keys one after the other: the node of keys xs and then keys ys,
  none of which is an index, is what ys gives in the node of xs, also across lists, whose elements without the
  node are left out; and a node that is missing is missing for every longer key.\<close>
theorem extraction_composes:
  assumes "list_all (\<lambda>k. \<not> py_isdigit k) ys"
  shows "extract_node data (xs @ ys) = Option.bind (extract_node data xs) (\<lambda>node. extract_node node ys)"
  using assms by (rule extract_append)

lemma extraction_composes_witness:
  "extract_node (PList [PDict [(''a'', PDict [(''b'', PInt 1)])], PDict []]) ([''a''] @ [''b'']) = Some (PList [PInt 1])"
proof -
  have "list_all (\<lambda>k. \<not> py_isdigit k) [''b'']" by code_simp
  moreover have "extract_node (PList [PDict [(''a'', PDict [(''b'', PInt 1)])], PDict []]) [''a''] =
      Some (PList [PDict [(''b'', PInt 1)]])" by code_simp
  moreover have "extract_node (PList [PDict [(''b'', PInt 1)]]) [''b''] = Some (PList [PInt 1])" by code_simp
  ultimately show ?thesis by (simp only: extraction_composes bind.bind_lunit)
qed

end
