(* ===== verification/IntegrationQueue.thy ===== *)
theory IntegrationQueue
  imports RunJob
begin

text \<open>
  The extension of the model of the jobs by the integration, \<open>integration/models/queue_job.py\<close>: the requeue of the
  jobs that failed for a missing mapping, the short traceback, the button that runs a job at once, and the jobs
  of the requeue wizard. What a failed job keeps of its exception is in \<open>MappingErrors\<close>; the
  names of views computed from the names of models are not modelled.
\<close>

definition integration_default_priority :: int where "integration_default_priority = 20"

definition integration_removal_interval :: int where "integration_removal_interval = 15"

text \<open>\<open>rsplit(sep, maxsplit=1)[-1]\<close>, \<open>None\<close> without the separator, and \<open>split(sep, maxsplit=1)[-1]\<close>.\<close>

fun after_last :: "string \<Rightarrow> string \<Rightarrow> string option" where
  "after_last sep [] = None"
| "after_last sep (c # s) =
     (case after_last sep s of
        Some rest \<Rightarrow> Some rest
      | None \<Rightarrow> if py_startswith (c # s) sep then Some (drop (length sep) (c # s)) else None)"

definition after_first_char :: "char \<Rightarrow> string \<Rightarrow> string" where
  "after_first_char sep s = (case dropWhile (\<lambda>c. c \<noteq> sep) s of [] \<Rightarrow> s | _ # rest \<Rightarrow> rest)"

definition sub_compute_exc_info_lite :: "string \<Rightarrow> string" where
  "sub_compute_exc_info_lite info =
     (if info = [] then info
      else after_first_char (char_of (10 :: nat)) (case after_last ''File'' info of Some rest \<Rightarrow> rest | None \<Rightarrow> info))"

text \<open>The key of the mapping is an identifier of Odoo or of the shop.\<close>

definition compute_ids :: "row \<Rightarrow> (pyval \<times> pyval) result" where
  "compute_ids r =
     (if \<not> py_true (fld ''integration_key'' r) then Inr (PNone, PNone)
      else if fld ''integration_exception_name'' r = PStr ''NotMappedToExternal''
      then (case fld ''integration_key'' r of
              PStr s \<Rightarrow> (case py_int s of Some n \<Rightarrow> Inr (PNone, PInt n) | None \<Rightarrow> Inl ValueError)
            | _ \<Rightarrow> Inl TypeError)
      else Inr (fld ''integration_key'' r, PNone))"

definition requeue_integration_jobs :: "queue_env \<Rightarrow> string \<Rightarrow> string \<Rightarrow> string \<Rightarrow> table \<Rightarrow> table result" where
  "requeue_integration_jobs qe exception_name model_name key db =
     (let jobs = filter (\<lambda>r. row_state r = Some FAILED \<and> fld ''integration_exception_name'' r = PStr exception_name \<and>
            fld ''integration_model_name'' r = PStr model_name \<and> fld ''integration_key'' r = PStr key) db
      in if jobs = [] then Inr db else requeue qe (map row_uuid jobs) db)"

text \<open>The button that runs a job at once. Every exception becomes an error of the user, and the transaction is
  rolled back. The jobs that depend on it are updated before the job itself is stored.\<close>

definition action_run_now :: "run_env \<Rightarrow> string \<Rightarrow> table \<Rightarrow> table result" where
  "action_run_now re uuid db =
     rbind (load_job (re_queue re) db uuid) (\<lambda>j.
     let j1 = set_started (re_now re) (re_pid re) j in
     rbind (store_job (re_queue re) j1 db) (\<lambda>db1.
     let (db2, outcome) = re_work re j1 db1;
         (j2, performed) = perform outcome j1
     in case performed of
          Inl e \<Rightarrow> Inl UserError
        | Inr v \<Rightarrow>
            (case store_job (re_queue re) (set_done (re_now re) (if v = PNone then None else Some v) j2)
                    (enqueue_waiting uuid db2) of
               Inl e \<Rightarrow> Inl UserError
             | Inr db3 \<Rightarrow> Inr db3)))"

text \<open>The jobs of the requeue wizard: those of the job logs, if it was opened there.\<close>

definition integration_default_job_ids ::
  "bool \<Rightarrow> (int \<Rightarrow> int option) \<Rightarrow> int list \<Rightarrow> int list option \<Rightarrow> int list option" where
  "integration_default_job_ids run_from_job_log job_of_log active_ids inherited =
     (if run_from_job_log then Some (remdups (List.map_filter job_of_log active_ids)) else inherited)"

end
