(* ===== verification/IntegrationQueueProperties.thy ===== *)
theory IntegrationQueueProperties
  imports IntegrationQueue QueueProperties
begin

text \<open>
  What the button of the integration does that runs a job at once.
\<close>

lemma enqueue_waiting_running:
  assumes ok: "table_ok qe db" and r: "r \<in> set db" "row_uuid r = u" "row_state r \<noteq> Some DONE"
  shows "tab (enqueue_waiting u db) = tab db"
proof -
  have l: "links_ok db" using ok by (simp add: table_ok_def)
  have e: "(row_links r, row_state r) \<in> set (tab db)" using r(1) by (auto simp: tab_def)
  have "wake PENDING u DONE (set (tab db)) x = x" for x
  proof -
    obtain v g deps revs s where x: "x = ((v, g, deps, revs), s)" by (cases x) auto
    have "\<not> (\<forall>((w, _), t)\<in>set (tab db). w \<in> set deps \<longrightarrow> t = Some DONE)" if "u \<in> set deps"
      by (intro notI, drule bspec [OF _ e]) (use r(2,3) that in \<open>simp add: row_links_def\<close>)
    then show ?thesis unfolding x by (simp only: wake.simps) auto
  qed
  then show ?thesis
    unfolding enqueue_waiting_def tab_dependent [OF l r(1,2)] by (simp add: map_idI)
qed

lemma tab_state_of: "tab (set_state_of u s db) = map (\<lambda>(l, t). (l, if fst l = u then Some s else t)) (tab db)"
  by (simp add: tab_def set_state_of_def row_links_simps)

text \<open>C39: The button that runs a job at once sets it done when its function returns, and changes the state of no
  other job: the jobs that waited only for it go on waiting, since they are looked for before the job is stored
  as done.\<close>
theorem run_now_wakes_nobody:
  assumes "job_reachable im db" and "env_ok im (re_queue re)" and "r \<in> set db"
    and work: "\<And>j db. re_work re j db = (db, Inr v)"
  shows "\<exists>db'. action_run_now re (row_uuid r) db = Inr db' \<and>
    map (\<lambda>x. (row_links x, row_state x)) db' =
      map (\<lambda>x. (row_links x, if row_uuid x = row_uuid r then Some DONE else row_state x)) db"
proof -
  let ?qe = "re_queue re" let ?u = "row_uuid r"
  have m: "model_ok ?qe" and t: "table_ok ?qe db" using reachable_sys [OF assms(1,2)] by (simp_all add: sys_ok_def)
  obtain j where j: "load_job ?qe db ?u = Inr j" "of_row j r"
    using load_job_ok [OF t assms(3)] by (auto simp: of_row_def)
  let ?j1 = "set_started (re_now re) (re_pid re) j"
  obtain db1 where db1: "store_job ?qe ?j1 db = Inr db1" "table_ok ?qe db1" "tab db1 = tab (set_state_of ?u STARTED db)"
    using store_job_ok [OF m t assms(3), of ?j1] j(2) by auto
  have "(row_links r, Some STARTED) \<in> set (tab db1)"
    unfolding db1(3) tab_row set_state_of_def using assms(3) by (intro bexI [of _ "set_row_state STARTED r"]) force+
  then obtain x where x: "x \<in> set db1" "row_links x = row_links r" "row_state x = Some STARTED" unfolding tab_row by blast
  have u: "row_uuid x = ?u" using x(2) by (simp add: row_links_def)
  let ?db2 = "enqueue_waiting ?u db1"
  have e: "tab ?db2 = tab db1" using enqueue_waiting_running [OF db1(2) x(1) u] x(3) by simp
  then have "(row_links x, row_state x) \<in> set (tab ?db2)" using x(1) by (auto simp: tab_def)
  then obtain y where y: "y \<in> set ?db2" "row_links y = row_links r" unfolding tab_row x(2) by auto
  have t2: "table_ok ?qe ?db2" using db1(2) by (simp add: enqueue_waiting_def)
  let ?j3 = "set_done (re_now re) (if v = PNone then None else Some v) (fst (perform (Inr v) ?j1))"
  have j3: "of_row ?j3 y" using j(2) of_row_links [OF y(2)] by (simp add: perform_fields)
  obtain db3 where db3: "store_job ?qe ?j3 ?db2 = Inr db3" "tab db3 = tab (set_state_of (row_uuid y) DONE ?db2)"
    using store_job_ok [OF m t2 y(1) j3] by auto
  have "action_run_now re ?u db = Inr db3"
    using j(1) db1(1) work db3(1) by (simp add: action_run_now_def Let_def perform_def)
  moreover have "tab db3 = map (\<lambda>x. (row_links x, if row_uuid x = ?u then Some DONE else row_state x)) db"
  proof -
    have "row_uuid y = ?u" using y(2) by (simp add: row_links_def)
    then have "tab db3 = map (\<lambda>(l, t). (l, if fst l = ?u then Some DONE else t)) (tab db)"
      by (simp add: db3(2) tab_state_of e db1(3) case_prod_beta comp_def cong: if_cong)
    then show ?thesis by (simp add: tab_def comp_def) (simp add: row_links_def)
  qed
  ultimately show ?thesis unfolding tab_def by blast
qed

text \<open>In the table of a chain of two jobs, the second one waits for ever once the first was run by the button.\<close>

lemma run_now_wakes_nobody_witness:
  "\<exists>db'. action_run_now (ex_run\<lparr>re_work := (\<lambda>j db. (db, Inr (PInt 1)))\<rparr>) ''u0'' ex_table = Inr db' \<and>
    map row_state db' = [Some DONE, Some WAIT_DEPENDENCIES]"
proof -
  let ?re = "ex_run\<lparr>re_work := (\<lambda>j db. (db, Inr (PInt 1)))\<rparr>"
  have e: "env_ok any_method (re_queue ?re)" using ex_model by (simp add: ex_run_def)
  have "0 < length ex_table" by code_simp
  then have r: "ex_table ! 0 \<in> set ex_table" "row_uuid (ex_table ! 0) = ''u0''"
    using arg_cong [OF ex_tables(1), of "\<lambda>xs. fst (xs ! 0)"] by simp_all
  have w: "\<And>j db. re_work ?re j db = (db, Inr (PInt 1))" by simp
  obtain db' where db': "action_run_now ?re ''u0'' ex_table = Inr db'"
    "map (\<lambda>x. (row_links x, row_state x)) db' =
      map (\<lambda>x. (row_links x, if row_uuid x = ''u0'' then Some DONE else row_state x)) ex_table"
    using run_now_wakes_nobody [OF ex_table_reachable e r(1) w, unfolded r(2)] by blast
  have "map (\<lambda>x. if row_uuid x = ''u0'' then Some DONE else row_state x) ex_table = [Some DONE, Some WAIT_DEPENDENCIES]"
    by code_simp
  then have "map row_state db' = [Some DONE, Some WAIT_DEPENDENCIES]"
    using arg_cong [OF db'(2), of "map snd"] by (simp add: comp_def)
  with db'(1) show ?thesis by (intro exI conjI)
qed

end
