(* ===== verification/Workflow.thy ===== *)
theory Workflow
  imports Prelude
begin

text \<open>
  The automatic workflow of an imported order: \<open>integration/models/auto_workflow/integration_workflow_pipeline.py\<close>,
  the tasks that the statuses of the order enable (\<open>integration_sale_order_sub_status_external.py\<close> and
  \<open>sale_order.py\<close>), and the state of its input file (\<open>sale_integration_file.py\<close>). What a task does with the
  order is given as its outcome. The queue of jobs is a list: a job whose identity key is in it is not added.
\<close>

section \<open>Tasks\<close>

datatype task_state = SKIP | TO_DO | IN_PROCESS | FAILED | DONE

record task =
  wt_id :: int
  wt_method :: string
  wt_next :: "string option"
  wt_state :: task_state

datatype file_state = FileDraft | CreateOrder | WorkflowProcess | FileDone | FileCancelled | FileSkipped | FileUnknown

text \<open>The input file of the order.\<close>

record input_file =
  if_state :: file_state
  if_order :: "int option"
  if_update_required :: bool

definition unmark_for_update :: "input_file \<Rightarrow> input_file" where
  "unmark_for_update f = f\<lparr>if_update_required := False\<rparr>"

definition mark_for_update :: "input_file \<Rightarrow> input_file" where
  "mark_for_update f = (if if_state f \<noteq> FileCancelled then f\<lparr>if_update_required := True\<rparr> else f)"

definition action_done :: "input_file \<Rightarrow> input_file" where
  "action_done f = (unmark_for_update f)\<lparr>if_state := FileDone\<rparr>"

definition action_create_order :: "input_file \<Rightarrow> input_file" where
  "action_create_order f = f\<lparr>if_state := CreateOrder\<rparr>"

definition action_process :: "input_file \<Rightarrow> input_file" where
  "action_process f = (unmark_for_update f)\<lparr>if_state := WorkflowProcess\<rparr>"

definition action_cancel :: "input_file \<Rightarrow> input_file" where
  "action_cancel f = (if if_state f \<in> {FileDraft, FileUnknown} then f\<lparr>if_state := FileCancelled\<rparr> else f)"

definition action_draft :: "input_file \<Rightarrow> input_file" where
  "action_draft f =
     (if if_state f \<in> {FileCancelled, FileDone} \<and> if_order f = None then f\<lparr>if_state := FileDraft\<rparr> else f)"

section \<open>The pipeline\<close>

datatype wf_job = TriggerJob | TaskJob int | MessageJob int string

record workflow =
  wf_tasks :: "task list"
  wf_info :: "string option"
  wf_skip_dispatch :: bool
  wf_sub_states :: "int list"
  wf_payment :: "int option"
  wf_file :: input_file
  wf_jobs :: "wf_job list"

text \<open>The identity key of a job: that of the pipeline, or that of a task.\<close>

definition job_key :: "wf_job \<Rightarrow> int option" where
  "job_key j = (case j of TriggerJob \<Rightarrow> None | TaskJob i \<Rightarrow> Some i | MessageJob i _ \<Rightarrow> Some i)"

definition add_job :: "wf_job \<Rightarrow> workflow \<Rightarrow> workflow" where
  "add_job j w = (if job_key j \<in> job_key ` set (wf_jobs w) then w else w\<lparr>wf_jobs := wf_jobs w @ [j]\<rparr>)"

definition is_not_done :: "task \<Rightarrow> bool" where
  "is_not_done t \<longleftrightarrow> wt_state t \<noteq> DONE"

definition pipeline_is_done :: "workflow \<Rightarrow> bool" where
  "pipeline_is_done w \<longleftrightarrow> filter (\<lambda>t. wt_state t \<in> {IN_PROCESS, FAILED}) (wf_tasks w) = []"

definition has_tasks_to_process :: "workflow \<Rightarrow> bool" where
  "has_tasks_to_process w \<longleftrightarrow> filter (\<lambda>t. wt_state t \<notin> {SKIP, DONE}) (wf_tasks w) \<noteq> []"

definition has_error :: "input_file \<Rightarrow> workflow option \<Rightarrow> bool" where
  "has_error f pipeline =
     (if if_state f \<notin> {CreateOrder, WorkflowProcess} then False
      else if if_order f = None then True
      else (case pipeline of None \<Rightarrow> True | Some w \<Rightarrow> \<not> pipeline_is_done w))"

definition mark :: "task_state \<Rightarrow> int \<Rightarrow> workflow \<Rightarrow> workflow" where
  "mark s i w = w\<lparr>wf_tasks := map (\<lambda>t. if wt_id t = i then t\<lparr>wt_state := s\<rparr> else t) (wf_tasks w)\<rparr>"

definition update_info :: "string \<Rightarrow> workflow \<Rightarrow> workflow" where
  "update_info message w = w\<lparr>wf_info := if message = [] then None else Some message\<rparr>"

definition mark_input_as_done :: "workflow \<Rightarrow> workflow" where
  "mark_input_as_done w = w\<lparr>wf_file := action_done (wf_file w)\<rparr>"

definition mark_input_to_process :: "workflow \<Rightarrow> workflow" where
  "mark_input_to_process w = w\<lparr>wf_file := action_process (wf_file w)\<rparr>"

definition task_of :: "int \<Rightarrow> workflow \<Rightarrow> task result" where
  "task_of i w = (case find (\<lambda>t. wt_id t = i) (wf_tasks w) of None \<Rightarrow> Inl KeyError | Some t \<Rightarrow> Inr t)"

definition find_task :: "string option \<Rightarrow> workflow \<Rightarrow> task list" where
  "find_task step_name w = filter (\<lambda>t. Some (wt_method t) = step_name) (wf_tasks w)"

text \<open>The automatic run of a task is a job; \<open>ensure_one\<close> refuses several tasks.\<close>

definition run_with_delay :: "task list \<Rightarrow> workflow \<Rightarrow> workflow result" where
  "run_with_delay ts w = (case ts of [t] \<Rightarrow> Inr (add_job (TaskJob (wt_id t)) w) | _ \<Rightarrow> Inl ValueError)"

definition call_pipeline_step :: "string option \<Rightarrow> workflow \<Rightarrow> workflow result" where
  "call_pipeline_step step_name w =
     (if \<not> has_tasks_to_process w then Inr (mark_input_as_done w)
      else if find_task step_name w = [] then Inr (mark_input_as_done w)
      else run_with_delay (find_task step_name w) w)"

definition trigger_pipeline :: "workflow \<Rightarrow> workflow result" where
  "trigger_pipeline w =
     (if \<not> has_tasks_to_process w then Inr (mark_input_as_done w)
      else rbind (run_with_delay (take 1 (filter is_not_done (wf_tasks w))) w) (\<lambda>w1. Inr (mark_input_to_process w1)))"

definition manual_run :: "workflow \<Rightarrow> workflow" where
  "manual_run w = add_job TriggerJob w"

section \<open>Running a task\<close>

text \<open>The first three outcomes are a result that is true, \<open>None\<close> or false, with a message.\<close>

datatype order_result = Succeeded string | Pending string | NotDone string | Raises PyError

definition set_task_to_done :: "int \<Rightarrow> workflow \<Rightarrow> workflow" where
  "set_task_to_done i w = update_info [] (mark DONE i w)"

definition fail_job_manually :: "int \<Rightarrow> string \<Rightarrow> workflow \<Rightarrow> workflow" where
  "fail_job_manually i message w = add_job (MessageJob i message) w"

definition run_and_call_next :: "int \<Rightarrow> order_result \<Rightarrow> workflow \<Rightarrow> workflow result" where
  "run_and_call_next i res w =
     rbind (task_of i w) (\<lambda>t.
     if wt_state t \<in> {SKIP, DONE} then call_pipeline_step (wt_next t) w
     else (case res of
             Succeeded _ \<Rightarrow> call_pipeline_step (wt_next t) (set_task_to_done i w)
           | Pending _ \<Rightarrow> call_pipeline_step (wt_next t) (mark IN_PROCESS i w)
           | NotDone message \<Rightarrow> Inr (fail_job_manually i message (update_info message (mark FAILED i w)))
           | Raises e \<Rightarrow> Inl e))"

definition validate_previous :: "int \<Rightarrow> workflow \<Rightarrow> unit result" where
  "validate_previous i w =
     (let states = map wt_state (filter (\<lambda>t. wt_id t < i \<and> wt_state t \<noteq> SKIP) (wf_tasks w))
      in if states \<noteq> [] \<and> \<not> list_all (\<lambda>s. s = DONE) states then Inl UserError else Inr ())"

definition end_of_pipeline :: "task \<Rightarrow> workflow \<Rightarrow> workflow" where
  "end_of_pipeline t w = (if find_task (wt_next t) w = [] then mark_input_as_done w else w)"

text \<open>The buttons of a task: run it, force it to be done, set it back.\<close>

definition run_task :: "int \<Rightarrow> order_result \<Rightarrow> workflow \<Rightarrow> workflow result" where
  "run_task i res w =
     rbind (task_of i w) (\<lambda>t.
     if wt_state t \<in> {SKIP, DONE} then Inl UserError
     else rbind (validate_previous i w) (\<lambda>_.
       case res of
         Succeeded _ \<Rightarrow> Inr (end_of_pipeline t (set_task_to_done i w))
       | Pending message \<Rightarrow> Inr (update_info message (mark IN_PROCESS i w))
       | NotDone message \<Rightarrow> Inr (update_info message (mark FAILED i w))
       | Raises e \<Rightarrow> Inl e))"

definition task_force_done :: "int \<Rightarrow> workflow \<Rightarrow> workflow result" where
  "task_force_done i w =
     rbind (task_of i w) (\<lambda>t.
     rbind (validate_previous i w) (\<lambda>_. Inr (end_of_pipeline t (set_task_to_done i w))))"

definition task_force_draft :: "int \<Rightarrow> workflow \<Rightarrow> workflow result" where
  "task_force_draft i w = rbind (task_of i w) (\<lambda>t. Inr (mark TO_DO i w))"

section \<open>The tasks of an order\<close>

text \<open>A status of the shop with the tasks it enables.\<close>

record sub_status =
  ss_id :: int
  validate_order :: bool
  validate_picking :: bool
  create_invoice :: bool
  invoice_journal :: "int option"
  validate_invoice :: bool
  send_invoice :: bool
  register_payment :: bool

definition workflow_task_list :: "(string \<times> (sub_status \<Rightarrow> bool)) list" where
  "workflow_task_list =
     [(''validate_order'', validate_order), (''validate_picking'', validate_picking),
      (''create_invoice'', create_invoice), (''validate_invoice'', validate_invoice),
      (''send_invoice'', send_invoice), (''register_payment'', register_payment)]"

definition onchange_validate_order :: "sub_status \<Rightarrow> sub_status" where
  "onchange_validate_order s =
     (if \<not> validate_order s
      then s\<lparr>validate_picking := False, create_invoice := False, invoice_journal := None, validate_invoice := False,
             send_invoice := False, register_payment := False\<rparr> else s)"

definition onchange_create_invoice :: "sub_status \<Rightarrow> sub_status" where
  "onchange_create_invoice s =
     (if \<not> create_invoice s
      then s\<lparr>invoice_journal := None, validate_invoice := False, send_invoice := False, register_payment := False\<rparr>
      else s)"

definition onchange_validate_invoice :: "sub_status \<Rightarrow> sub_status" where
  "onchange_validate_invoice s =
     (if \<not> validate_invoice s then s\<lparr>send_invoice := False, register_payment := False\<rparr> else s)"

definition retrieve_active_workflow_tasks :: "sub_status \<Rightarrow> (string \<times> bool \<times> nat) list" where
  "retrieve_active_workflow_tasks s = map (\<lambda>(i, name, enabled). (name, enabled s, i)) (enumerate 1 workflow_task_list)"

text \<open>The part that would disable what follows a disabled task is commented out in the code: it only keeps
  the first two components.\<close>

definition reset_next_value_if_not_previous :: "(string \<times> bool \<times> nat) list \<Rightarrow> (string \<times> bool) list" where
  "reset_next_value_if_not_previous task_list = map (\<lambda>(name, enable, _). (name, enable)) task_list"

definition merged_tasks :: "sub_status list \<Rightarrow> ((string \<times> nat) \<times> bool list) list" where
  "merged_tasks sub_states =
     foldl (\<lambda>d (name, enable, priority). dict_append (name, priority) enable d) []
       (concat (map retrieve_active_workflow_tasks sub_states))"

text \<open>The external records are looked up by their codes; a status or a payment method that is missing is an
  error. The union of the statuses keeps the first of equal ones.\<close>

fun sub_states_of :: "(string \<Rightarrow> sub_status option) \<Rightarrow> string list \<Rightarrow> sub_status list \<Rightarrow> sub_status list result" where
  "sub_states_of by_code [] acc = Inr acc"
| "sub_states_of by_code (code # codes) acc =
     (case by_code code of
        None \<Rightarrow> Inl ValidationError
      | Some s \<Rightarrow> sub_states_of by_code codes (if ss_id s \<in> ss_id ` set acc then acc else acc @ [s]))"

definition task_list_of :: "sub_status list \<Rightarrow> (string \<times> bool) list" where
  "task_list_of sub_states =
     reset_next_value_if_not_previous (sort_key (\<lambda>(_, _, priority). priority)
       (map (\<lambda>((name, priority), enables). (name, list_ex (\<lambda>b. b) enables, priority)) (merged_tasks sub_states)))"

record order_data =
  od_states :: "string list"
  od_payment :: string
  od_skip_dispatch :: bool

definition build_task_list_and_vals ::
  "(string \<Rightarrow> sub_status option) \<Rightarrow> (string \<Rightarrow> int option) \<Rightarrow> order_data \<Rightarrow>
    ((string \<times> bool) list \<times> int list \<times> int option) result" where
  "build_task_list_and_vals by_code payment_by_code d =
     (if list_ex (\<lambda>s. s = []) (od_states d) then Inl ValidationError
      else if od_payment d \<noteq> [] \<and> payment_by_code (od_payment d) = None then Inl ValidationError
      else rbind (sub_states_of by_code (od_states d) []) (\<lambda>subs.
        Inr (task_list_of subs, map ss_id subs, payment_by_code (od_payment d))))"

text \<open>New tasks get the identifiers from \<open>n\<close> on. The default of \<open>skip_dispatch\<close> comes from the context.\<close>

fun new_tasks :: "int \<Rightarrow> (string \<times> bool) list \<Rightarrow> task list" where
  "new_tasks n [] = []"
| "new_tasks n ((name, enable) # rest) =
     \<lparr>wt_id = n, wt_method = name, wt_next = (case rest of [] \<Rightarrow> None | (next_name, _) # _ \<Rightarrow> Some next_name),
      wt_state = (if enable then TO_DO else SKIP)\<rparr> # new_tasks (n + 1) rest"

text \<open>An enabled task that is not done is to be done (again); the rest of the tasks stays.\<close>

fun enable_tasks :: "(string \<times> bool) list \<Rightarrow> workflow \<Rightarrow> workflow result" where
  "enable_tasks [] w = Inr w"
| "enable_tasks ((name, enable) # rest) w =
     (case find_task (Some name) w of
        [] \<Rightarrow> enable_tasks rest w
      | [t] \<Rightarrow> enable_tasks rest (if is_not_done t \<and> enable then mark TO_DO (wt_id t) w else w)
      | _ \<Rightarrow> Inl ValueError)"

definition update_pipeline ::
  "(string \<Rightarrow> sub_status option) \<Rightarrow> (string \<Rightarrow> int option) \<Rightarrow> order_data \<Rightarrow> workflow \<Rightarrow> workflow result" where
  "update_pipeline by_code payment_by_code d w =
     rbind (build_task_list_and_vals by_code payment_by_code d) (\<lambda>(tasks, subs, payment).
     enable_tasks tasks
       (w\<lparr>wf_sub_states := wf_sub_states w @ filter (\<lambda>i. i \<notin> set (wf_sub_states w)) subs,
          wf_skip_dispatch := od_skip_dispatch d,
          wf_payment := (case payment of None \<Rightarrow> wf_payment w | Some p \<Rightarrow> Some p)\<rparr>))"

definition create_pipeline ::
  "int \<Rightarrow> bool \<Rightarrow> input_file \<Rightarrow> (string \<times> bool) list \<times> int list \<times> int option \<Rightarrow> workflow" where
  "create_pipeline n skip_dispatch f vals =
     (case vals of (tasks, subs, payment) \<Rightarrow>
       \<lparr>wf_tasks = new_tasks n tasks, wf_info = None, wf_skip_dispatch = skip_dispatch, wf_sub_states = subs,
        wf_payment = payment, wf_file = f, wf_jobs = []\<rparr>)"

text \<open>\<open>_build_and_run_integration_workflow\<close>: the pipeline that exists, or else the input file for a new one.\<close>

definition build_and_run ::
  "int \<Rightarrow> (string \<Rightarrow> sub_status option) \<Rightarrow> (string \<Rightarrow> int option) \<Rightarrow> order_data \<Rightarrow> workflow + input_file \<Rightarrow>
    workflow result" where
  "build_and_run n by_code payment_by_code d pipeline =
     rbind (case pipeline of
              Inl w \<Rightarrow> update_pipeline by_code payment_by_code d w
            | Inr f \<Rightarrow> rbind (build_task_list_and_vals by_code payment_by_code d) (\<lambda>vals. Inr (create_pipeline n (od_skip_dispatch d) f vals)))
       (\<lambda>w. Inr (if has_tasks_to_process w then manual_run (mark_input_to_process w) else mark_input_as_done w))"

section \<open>The jobs\<close>

text \<open>Some job leaves the queue; one that raises changes nothing else.\<close>

definition perform_job :: "(int \<Rightarrow> order_result) \<Rightarrow> wf_job \<Rightarrow> workflow \<Rightarrow> workflow result" where
  "perform_job outcome j w =
     (case j of
        TriggerJob \<Rightarrow> trigger_pipeline w
      | TaskJob i \<Rightarrow> run_and_call_next i (outcome i) w
      | MessageJob i message \<Rightarrow> Inl ValidationError)"

definition run_job :: "(int \<Rightarrow> order_result) \<Rightarrow> nat \<Rightarrow> workflow \<Rightarrow> workflow" where
  "run_job outcome k w =
     (if k < length (wf_jobs w)
      then (let w' = w\<lparr>wf_jobs := take k (wf_jobs w) @ drop (Suc k) (wf_jobs w)\<rparr>
            in case perform_job outcome (wf_jobs w ! k) w' of Inr w'' \<Rightarrow> w'' | Inl e \<Rightarrow> w')
      else w)"

section \<open>The system\<close>

datatype wf_event =
    JobRun "int \<Rightarrow> order_result" nat
  | RunButton int order_result
  | DoneButton int
  | DraftButton int
  | StartButton
  | NewData "string \<Rightarrow> sub_status option" "string \<Rightarrow> int option" order_data

fun wf_step :: "workflow \<Rightarrow> wf_event \<Rightarrow> workflow \<Rightarrow> bool" where
  "wf_step w (JobRun outcome k) w' \<longleftrightarrow> w' = run_job outcome k w"
| "wf_step w (RunButton i res) w' \<longleftrightarrow> run_task i res w = Inr w'"
| "wf_step w (DoneButton i) w' \<longleftrightarrow> task_force_done i w = Inr w'"
| "wf_step w (DraftButton i) w' \<longleftrightarrow> task_force_draft i w = Inr w'"
| "wf_step w StartButton w' \<longleftrightarrow> w' = manual_run w"
| "wf_step w (NewData by_code payment_by_code d) w' \<longleftrightarrow> (\<exists>n. build_and_run n by_code payment_by_code d (Inl w) = Inr w')"

definition wf_start :: "workflow \<Rightarrow> bool" where
  "wf_start w \<longleftrightarrow> (\<exists>n by_code payment_by_code d f. build_and_run n by_code payment_by_code d (Inr f) = Inr w)"

definition workflow_reachable :: "workflow \<Rightarrow> bool" where
  "workflow_reachable w \<longleftrightarrow> reachable wf_start wf_step w"

end
