(* ===== verification/WorkflowFacts.thy ===== *)
theory WorkflowFacts
  imports Workflow
begin

text \<open>
  The invariant of the workflow of an order, and what its automatic run does.
\<close>

section \<open>The tasks of an order\<close>

definition task_names :: "string list" where
  "task_names = map fst workflow_task_list"

lemma merged_one_more:
  "foldl (\<lambda>d (name, enable, priority). dict_append (name, priority) enable d)
     [((''validate_order'', 1), a), ((''validate_picking'', 2), b), ((''create_invoice'', 3), c),
      ((''validate_invoice'', 4), d), ((''send_invoice'', 5), e), ((''register_payment'', 6), f)]
     (retrieve_active_workflow_tasks s) =
     [((''validate_order'', 1), a @ [validate_order s]), ((''validate_picking'', 2), b @ [validate_picking s]),
      ((''create_invoice'', 3), c @ [create_invoice s]), ((''validate_invoice'', 4), d @ [validate_invoice s]),
      ((''send_invoice'', 5), e @ [send_invoice s]), ((''register_payment'', 6), f @ [register_payment s])]"
  by (simp add: retrieve_active_workflow_tasks_def workflow_task_list_def dict_append_def)

lemma merged_first:
  "foldl (\<lambda>d (name, enable, priority). dict_append (name, priority) enable d) [] (retrieve_active_workflow_tasks s) =
     [((''validate_order'', 1), [validate_order s]), ((''validate_picking'', 2), [validate_picking s]),
      ((''create_invoice'', 3), [create_invoice s]), ((''validate_invoice'', 4), [validate_invoice s]),
      ((''send_invoice'', 5), [send_invoice s]), ((''register_payment'', 6), [register_payment s])]"
  by (simp add: retrieve_active_workflow_tasks_def workflow_task_list_def dict_append_def)

lemma merged_more:
  "foldl (\<lambda>d (name, enable, priority). dict_append (name, priority) enable d)
     [((''validate_order'', 1), a), ((''validate_picking'', 2), b), ((''create_invoice'', 3), c),
      ((''validate_invoice'', 4), d), ((''send_invoice'', 5), e), ((''register_payment'', 6), f)]
     (concat (map retrieve_active_workflow_tasks ss)) =
     [((''validate_order'', 1), a @ map validate_order ss), ((''validate_picking'', 2), b @ map validate_picking ss),
      ((''create_invoice'', 3), c @ map create_invoice ss), ((''validate_invoice'', 4), d @ map validate_invoice ss),
      ((''send_invoice'', 5), e @ map send_invoice ss), ((''register_payment'', 6), f @ map register_payment ss)]"
proof (induction ss arbitrary: a b c d e f)
  case (Cons s ss)
  show ?case by (simp only: list.map concat.simps foldl_append merged_one_more Cons.IH append_assoc append_Cons append_Nil)
qed simp

lemma task_list_of_eq:
  "task_list_of ss = (if ss = [] then [] else map (\<lambda>(name, enabled). (name, \<exists>s\<in>set ss. enabled s)) workflow_task_list)"
proof (cases ss)
  case Nil
  then show ?thesis by (simp add: task_list_of_def merged_tasks_def reset_next_value_if_not_previous_def)
next
  case (Cons s ts)
  have m: "merged_tasks ss =
      [((''validate_order'', 1), map validate_order ss), ((''validate_picking'', 2), map validate_picking ss),
       ((''create_invoice'', 3), map create_invoice ss), ((''validate_invoice'', 4), map validate_invoice ss),
       ((''send_invoice'', 5), map send_invoice ss), ((''register_payment'', 6), map register_payment ss)]"
    unfolding merged_tasks_def Cons
    by (simp only: list.map concat.simps foldl_append merged_first merged_more append_Cons append_Nil)
  show ?thesis
    unfolding task_list_of_def m
    by (simp add: reset_next_value_if_not_previous_def workflow_task_list_def list_ex_iff Cons)
qed

section \<open>The invariant\<close>

definition next_method :: "task list \<Rightarrow> string option" where
  "next_method ts = (case ts of [] \<Rightarrow> None | t # _ \<Rightarrow> Some (wt_method t))"

fun linked :: "task list \<Rightarrow> bool" where
  "linked [] = True"
| "linked (t # ts) = (wt_next t = next_method ts \<and> linked ts)"

text \<open>What never changes of a task.\<close>

definition fixed :: "task \<Rightarrow> int \<times> string \<times> string option" where
  "fixed t = (wt_id t, wt_method t, wt_next t)"

definition tasks_ok :: "task list \<Rightarrow> bool" where
  "tasks_ok ts \<longleftrightarrow> linked ts \<and> sorted_wrt (<) (map wt_id ts) \<and> distinct (map wt_method ts)"

definition jobs_ok :: "workflow \<Rightarrow> bool" where
  "jobs_ok w \<longleftrightarrow> distinct (map job_key (wf_jobs w)) \<and>
     (\<forall>j\<in>set (wf_jobs w). \<forall>i. job_key j = Some i \<longrightarrow> i \<in> wt_id ` set (wf_tasks w))"

definition wf_ok :: "workflow \<Rightarrow> bool" where
  "wf_ok w \<longleftrightarrow> tasks_ok (wf_tasks w) \<and> jobs_ok w"

lemma next_method_fixed: "map fixed us = map fixed ts \<Longrightarrow> next_method us = next_method ts"
  by (cases ts; cases us) (auto simp: next_method_def fixed_def)

lemma linked_fixed: "map fixed us = map fixed ts \<Longrightarrow> linked us = linked ts"
proof (induction ts arbitrary: us)
  case (Cons t ts)
  then obtain u vs where u: "us = u # vs" "fixed u = fixed t" "map fixed vs = map fixed ts" by (cases us) auto
  then show ?case using Cons.IH [OF u(3)] next_method_fixed [OF u(3)] by (simp add: fixed_def)
qed simp

lemma fixed_parts:
  assumes "map fixed us = map fixed ts"
  shows "map wt_id us = map wt_id ts" "map wt_method us = map wt_method ts" "map wt_next us = map wt_next ts"
  using arg_cong [OF assms, of "map fst"] arg_cong [OF assms, of "map (fst \<circ> snd)"]
    arg_cong [OF assms, of "map (snd \<circ> snd)"]
  by (simp_all add: fixed_def comp_def)

lemma tasks_ok_fixed: "map fixed us = map fixed ts \<Longrightarrow> tasks_ok us = tasks_ok ts"
  by (simp only: tasks_ok_def linked_fixed [of us ts] fixed_parts [of us ts])

lemma linked_append: "linked (pre @ ts) \<Longrightarrow> linked ts"
  by (induction pre) auto

lemma linked_new_tasks: "linked (new_tasks n ts)"
proof (induction n ts rule: new_tasks.induct)
  case (2 n name enable rest)
  then show ?case by (cases rest) (auto simp: next_method_def)
qed simp

lemma new_tasks_parts:
  "map wt_id (new_tasks n ts) = map (\<lambda>i. n + int i) [0..<length ts]" "map wt_method (new_tasks n ts) = map fst ts"
proof -
  show "map wt_id (new_tasks n ts) = map (\<lambda>i. n + int i) [0..<length ts]"
  proof (induction n ts rule: new_tasks.induct)
    case (2 n name enable rest)
    have "[0..<Suc (length rest)] = 0 # map Suc [0..<length rest]"
      by (simp add: upt_conv_Cons map_Suc_upt del: upt_Suc)
    with 2 show ?case by (simp add: comp_def add.assoc)
  qed simp
  show "map wt_method (new_tasks n ts) = map fst ts" by (induction n ts rule: new_tasks.induct) simp_all
qed

lemma tasks_ok_new: "distinct (map fst ts) \<Longrightarrow> tasks_ok (new_tasks n ts)"
  by (simp add: tasks_ok_def linked_new_tasks new_tasks_parts sorted_wrt_iff_nth_less)

section \<open>Small steps\<close>

lemma mark_fixed [simp]: "map fixed (wf_tasks (mark s i w)) = map fixed (wf_tasks w)"
  by (simp add: mark_def fixed_def)

lemma simple_fields [simp]:
  "wf_jobs (mark s i w) = wf_jobs w" "wf_file (mark s i w) = wf_file w"
  "wf_tasks (update_info m w) = wf_tasks w" "wf_jobs (update_info m w) = wf_jobs w" "wf_file (update_info m w) = wf_file w"
  "wf_tasks (mark_input_as_done w) = wf_tasks w" "wf_jobs (mark_input_as_done w) = wf_jobs w"
  "wf_file (mark_input_as_done w) = action_done (wf_file w)"
  "wf_tasks (mark_input_to_process w) = wf_tasks w" "wf_jobs (mark_input_to_process w) = wf_jobs w"
  "wf_file (mark_input_to_process w) = action_process (wf_file w)"
  "wf_tasks (add_job j w) = wf_tasks w" "wf_file (add_job j w) = wf_file w"
  by (simp_all add: mark_def update_info_def mark_input_as_done_def mark_input_to_process_def add_job_def)

lemma ok_same:
  assumes "wf_ok w" and "map fixed (wf_tasks w') = map fixed (wf_tasks w)" and "wf_jobs w' = wf_jobs w"
  shows "wf_ok w'"
proof -
  have "wt_id ` set (wf_tasks w') = wt_id ` set (wf_tasks w)"
    using arg_cong [OF fixed_parts(1) [OF assms(2)], of set] by simp
  then show ?thesis using assms tasks_ok_fixed [OF assms(2)] by (simp add: wf_ok_def jobs_ok_def)
qed

lemma ok_add_job:
  assumes "wf_ok w" and "\<And>i. job_key j = Some i \<Longrightarrow> i \<in> wt_id ` set (wf_tasks w)"
  shows "wf_ok (add_job j w)"
proof (cases "job_key j \<in> job_key ` set (wf_jobs w)")
  case True
  then have "add_job j w = w" by (simp add: add_job_def)
  with assms(1) show ?thesis by simp
next
  case False
  then have "wf_jobs (add_job j w) = wf_jobs w @ [j]" by (simp add: add_job_def)
  with False assms show ?thesis by (auto simp: wf_ok_def jobs_ok_def)
qed

lemma ok_run_with_delay:
  assumes "wf_ok w" and "set ts \<subseteq> set (wf_tasks w)" and "run_with_delay ts w = Inr w'"
  shows "wf_ok w'"
proof -
  obtain t where t: "ts = [t]" "w' = add_job (TaskJob (wt_id t)) w"
    using assms(3) by (auto simp: run_with_delay_def split: list.splits)
  then have "wt_id t \<in> wt_id ` set (wf_tasks w)" using assms(2) by auto
  then show ?thesis unfolding t(2) by (intro ok_add_job assms(1)) (simp add: job_key_def)
qed

lemma ok_done [simp]:
  assumes "wf_ok w"
  shows "wf_ok (mark_input_as_done w)" "wf_ok (mark_input_to_process w)" "wf_ok (mark s i w)" "wf_ok (update_info m w)"
    "wf_ok (set_task_to_done i w)"
  by (rule ok_same [OF assms]; simp add: set_task_to_done_def)+

lemma ok_call:
  assumes "wf_ok w" and "call_pipeline_step name w = Inr w'"
  shows "wf_ok w'"
proof -
  have "set (find_task name w) \<subseteq> set (wf_tasks w)" by (auto simp: find_task_def)
  from ok_run_with_delay [OF assms(1) this] assms show ?thesis
    by (auto simp: call_pipeline_step_def split: if_splits)
qed

lemma ok_trigger: "wf_ok w \<Longrightarrow> trigger_pipeline w = Inr w' \<Longrightarrow> wf_ok w'"
proof -
  assume ok: "wf_ok w" and t: "trigger_pipeline w = Inr w'"
  have "set (take 1 (filter is_not_done (wf_tasks w))) \<subseteq> set (wf_tasks w)" by (auto dest!: in_set_takeD)
  from ok_run_with_delay [OF ok this] t show ?thesis
    using ok by (auto simp: trigger_pipeline_def rbind_eq_Inr split: if_splits)
qed

lemma mark_ids: "wt_id ` set (wf_tasks (mark s i w)) = wt_id ` set (wf_tasks w)"
  using arg_cong [OF fixed_parts(1) [OF mark_fixed], of set s i w] by simp

lemma ok_task_of: "task_of i w = Inr t \<Longrightarrow> t \<in> set (wf_tasks w) \<and> wt_id t = i"
  by (auto simp: task_of_def find_Some_iff split: option.splits)

lemma ok_run_and_call_next:
  assumes "wf_ok w" and "run_and_call_next i res w = Inr w'"
  shows "wf_ok w'"
proof -
  obtain t where t: "task_of i w = Inr t" using assms(2) by (auto simp: run_and_call_next_def rbind_eq_Inr)
  have i: "i \<in> wt_id ` set (wf_tasks w)" using ok_task_of [OF t] by auto
  have m: "wf_ok (fail_job_manually i m (update_info m (mark FAILED i w)))" for m
    unfolding fail_job_manually_def using i
    by (intro ok_add_job ok_done assms(1)) (simp add: job_key_def mark_ids)
  show ?thesis
    using assms t m ok_call [OF assms(1)] ok_call [OF ok_done(5) [OF assms(1)]] ok_call [OF ok_done(3) [OF assms(1)]]
    by (auto simp: run_and_call_next_def split: if_splits order_result.splits)
qed

lemma ok_end_of_pipeline: "wf_ok w \<Longrightarrow> wf_ok (end_of_pipeline t w)"
  by (simp add: end_of_pipeline_def)

lemma ok_buttons:
  assumes "wf_ok w"
  shows "run_task i res w = Inr w' \<Longrightarrow> wf_ok w'" "task_force_done i w = Inr w' \<Longrightarrow> wf_ok w'"
    "task_force_draft i w = Inr w' \<Longrightarrow> wf_ok w'" "wf_ok (manual_run w)"
proof -
  show "run_task i res w = Inr w' \<Longrightarrow> wf_ok w'"
    using assms by (auto simp: run_task_def rbind_eq_Inr ok_end_of_pipeline split: if_splits order_result.splits)
  show "task_force_done i w = Inr w' \<Longrightarrow> wf_ok w'"
    using assms by (auto simp: task_force_done_def rbind_eq_Inr ok_end_of_pipeline)
  show "task_force_draft i w = Inr w' \<Longrightarrow> wf_ok w'"
    using assms by (auto simp: task_force_draft_def rbind_eq_Inr)
  show "wf_ok (manual_run w)"
    unfolding manual_run_def by (rule ok_add_job [OF assms]) (simp add: job_key_def)
qed

lemma distinct_map_remove: "distinct (map f (xs @ x # ys)) \<Longrightarrow> distinct (map f (xs @ ys))"
  by auto

lemma ok_fewer_jobs:
  assumes "wf_ok w"
  shows "wf_ok (w\<lparr>wf_jobs := take k (wf_jobs w) @ drop (Suc k) (wf_jobs w)\<rparr>)"
proof -
  let ?js = "wf_jobs w"
  have d: "distinct (map job_key ?js)" using assms by (simp add: wf_ok_def jobs_ok_def)
  have s: "set (take k ?js @ drop (Suc k) ?js) \<subseteq> set ?js"
    by (auto dest: in_set_takeD in_set_dropD)
  have "distinct (map job_key (take k ?js @ drop (Suc k) ?js))"
  proof (cases "k < length ?js")
    case True
    have "distinct (map job_key (take k ?js @ ?js ! k # drop (Suc k) ?js))"
      using d by (simp only: id_take_nth_drop [OF True, symmetric])
    then show ?thesis by (rule distinct_map_remove)
  next
    case False
    with d show ?thesis by simp
  qed
  with s show ?thesis using assms by (auto simp: wf_ok_def jobs_ok_def)
qed

lemma ok_run_job:
  assumes "wf_ok w"
  shows "wf_ok (run_job outcome k w)"
proof -
  note f = ok_fewer_jobs [OF assms, of k]
  have "wf_ok w''"
    if "perform_job outcome j (w\<lparr>wf_jobs := take k (wf_jobs w) @ drop (Suc k) (wf_jobs w)\<rparr>) = Inr w''" for j w''
    using that ok_trigger [OF f] ok_run_and_call_next [OF f] by (cases j) (auto simp: perform_job_def)
  then show ?thesis using assms f by (auto simp: run_job_def Let_def split: sum.split)
qed

lemma ok_enable_tasks: "wf_ok w \<Longrightarrow> enable_tasks ts w = Inr w' \<Longrightarrow> wf_ok w'"
  by (induction ts w rule: enable_tasks.induct) (auto split: list.splits if_splits)

lemma ok_update_pipeline:
  assumes "wf_ok w" and "update_pipeline by_code pay d w = Inr w'"
  shows "wf_ok w'"
proof -
  have "wf_ok (w\<lparr>wf_sub_states := a, wf_skip_dispatch := b, wf_payment := c\<rparr>)" for a b c
    by (rule ok_same [OF assms(1)]) simp_all
  then show ?thesis
    using assms(2) by (auto simp: update_pipeline_def rbind_eq_Inr intro: ok_enable_tasks)
qed

lemma ok_create:
  assumes "build_task_list_and_vals by_code pay d = Inr vals"
  shows "wf_ok (create_pipeline n skip f vals)"
proof -
  obtain ss where "fst vals = task_list_of ss"
    using assms by (auto simp: build_task_list_and_vals_def rbind_eq_Inr split: if_splits)
  then have "distinct (map fst (fst vals))"
    by (simp add: task_list_of_eq workflow_task_list_def)
  then show ?thesis
    by (cases vals) (simp add: wf_ok_def jobs_ok_def create_pipeline_def tasks_ok_new)
qed

lemma ok_build_and_run:
  assumes "\<And>w. pipeline = Inl w \<Longrightarrow> wf_ok w" and "build_and_run n by_code pay d pipeline = Inr w'"
  shows "wf_ok w'"
proof -
  from assms(2) [unfolded build_and_run_def] obtain w
    where c: "(case pipeline of Inl w \<Rightarrow> update_pipeline by_code pay d w
      | Inr f \<Rightarrow> rbind (build_task_list_and_vals by_code pay d) (\<lambda>vals. Inr (create_pipeline n (od_skip_dispatch d) f vals))) = Inr w"
    and r: "Inr (if has_tasks_to_process w then manual_run (mark_input_to_process w) else mark_input_as_done w) = (Inr w' :: workflow result)"
    by (rule rbindE)
  have w: "w' = (if has_tasks_to_process w then manual_run (mark_input_to_process w) else mark_input_as_done w)"
    using r by simp
  have "wf_ok w"
  proof (cases pipeline)
    case (Inl v)
    with c have "update_pipeline by_code pay d v = Inr w" by simp
    then show ?thesis by (rule ok_update_pipeline [OF assms(1) [OF Inl]])
  next
    case (Inr f)
    with c show ?thesis by (auto simp: rbind_eq_Inr ok_create)
  qed
  then show ?thesis unfolding w by (simp add: ok_buttons(4))
qed

lemma wf_step_ok:
  assumes ok: "wf_ok w" and step: "wf_step w e w'"
  shows "wf_ok w'"
proof (cases e)
  case (NewData by_code pay d)
  with step obtain n where "build_and_run n by_code pay d (Inl w) = Inr w'" by auto
  then show ?thesis by (rule ok_build_and_run [rotated]) (simp add: ok)
qed (use step ok_run_job [OF ok] ok_buttons [OF ok] in auto)

lemma wf_start_ok: "wf_start w \<Longrightarrow> wf_ok w"
  by (auto simp: wf_start_def dest: ok_build_and_run [rotated])

interpretation wf_system: invariant_system wf_start wf_step wf_ok
  by unfold_locales (rule wf_start_ok, assumption, rule wf_step_ok)

lemma workflow_reachable_ok: "workflow_reachable w \<Longrightarrow> wf_ok w"
  unfolding workflow_reachable_def by (rule wf_system.inv_reachable)

section \<open>The automatic run\<close>

text \<open>What a run does to the tasks: it goes through them in order, leaves those alone that are skipped or done, and
  stops at the first that fails or raises; the second component is whether it reaches the end.\<close>

definition after :: "order_result \<Rightarrow> task \<Rightarrow> task" where
  "after res t =
     (case res of Succeeded _ \<Rightarrow> t\<lparr>wt_state := DONE\<rparr> | Pending _ \<Rightarrow> t\<lparr>wt_state := IN_PROCESS\<rparr>
      | NotDone _ \<Rightarrow> t\<lparr>wt_state := FAILED\<rparr> | Raises _ \<Rightarrow> t)"

definition goes_on :: "order_result \<Rightarrow> bool" where
  "goes_on res = (case res of Succeeded _ \<Rightarrow> True | Pending _ \<Rightarrow> True | _ \<Rightarrow> False)"

fun auto_run :: "(int \<Rightarrow> order_result) \<Rightarrow> task list \<Rightarrow> task list \<times> bool" where
  "auto_run f [] = ([], True)"
| "auto_run f (t # ts) =
     (if wt_state t \<in> {SKIP, DONE} then apfst ((#) t) (auto_run f ts)
      else if goes_on (f (wt_id t)) then apfst ((#) (after (f (wt_id t)) t)) (auto_run f ts)
      else (after (f (wt_id t)) t # ts, False))"

definition ran_to :: "(int \<Rightarrow> order_result) \<Rightarrow> task list \<Rightarrow> task list \<Rightarrow> workflow \<Rightarrow> workflow \<Rightarrow> bool" where
  "ran_to f pre ts w w' \<longleftrightarrow> wf_tasks w' = pre @ fst (auto_run f ts) \<and>
     (if snd (auto_run f ts) then wf_jobs w' = [] \<and> wf_file w' = action_done (wf_file w)
      else wf_file w' = wf_file w \<and> (\<forall>j\<in>set (wf_jobs w'). \<exists>i message. j = MessageJob i message))"

lemma has_tasks_iff: "has_tasks_to_process w \<longleftrightarrow> (\<exists>t\<in>set (wf_tasks w). wt_state t \<notin> {SKIP, DONE})"
  by (auto simp: has_tasks_to_process_def filter_empty_conv)

lemma auto_run_idle: "\<forall>t\<in>set ts. wt_state t \<in> {SKIP, DONE} \<Longrightarrow> auto_run f ts = (ts, True)"
  by (induction ts) auto

lemma unique_key:
  assumes "distinct (map f (xs @ y # ys))"
  shows "filter (\<lambda>x. f x = f y) (xs @ y # ys) = [y]"
proof -
  have "filter (\<lambda>x. f x = f y) xs = []" "filter (\<lambda>x. f x = f y) ys = []"
    using assms by (auto simp: filter_empty_conv) (metis imageI)+
  then show ?thesis by simp
qed

lemma find_next:
  assumes "tasks_ok (pre @ t # ts)" and "wf_tasks w = pre @ t # ts"
  shows "find_task (wt_next t) w = take 1 ts"
proof -
  have n: "wt_next t = next_method ts" using linked_append [of pre "t # ts"] assms(1) by (simp add: tasks_ok_def)
  show ?thesis
  proof (cases ts)
    case Nil
    then show ?thesis by (simp add: find_task_def n next_method_def)
  next
    case (Cons u us)
    have "filter (\<lambda>x. wt_method x = wt_method u) ((pre @ [t]) @ u # us) = [u]"
      using assms(1) by (intro unique_key) (simp add: tasks_ok_def Cons)
    then show ?thesis using assms(2) by (simp add: find_task_def n next_method_def Cons)
  qed
qed

lemma ids_distinct: "tasks_ok ts \<Longrightarrow> distinct (map wt_id ts)"
  unfolding tasks_ok_def using strict_sorted_iff by blast

lemma task_of_ok:
  assumes "tasks_ok (pre @ t # ts)" and "wf_tasks w = pre @ t # ts"
  shows "task_of (wt_id t) w = Inr t" "wf_tasks (mark s (wt_id t) w) = pre @ t\<lparr>wt_state := s\<rparr> # ts"
proof -
  have d: "wt_id t \<notin> wt_id ` set pre" "wt_id t \<notin> wt_id ` set ts" using ids_distinct [OF assms(1)] by auto
  then have "find (\<lambda>x. wt_id x = wt_id t) (pre @ t # ts) = Some t" by (induction pre) auto
  then show "task_of (wt_id t) w = Inr t" by (simp add: task_of_def assms(2))
  have "map (\<lambda>x. if wt_id x = wt_id t then x\<lparr>wt_state := s\<rparr> else x) xs = xs" if "wt_id t \<notin> wt_id ` set xs" for xs
    using that by (induction xs) auto
  from this [OF d(1)] this [OF d(2)]
  show "wf_tasks (mark s (wt_id t) w) = pre @ t\<lparr>wt_state := s\<rparr> # ts" by (simp add: mark_def assms(2))
qed

lemma call_next:
  assumes "tasks_ok (pre @ t # ts)" and "wf_tasks w = pre @ t # ts" and "wf_jobs w = []"
  shows "call_pipeline_step (wt_next t) w =
    Inr (if \<not> has_tasks_to_process w \<or> ts = [] then mark_input_as_done w else w\<lparr>wf_jobs := [TaskJob (wt_id (hd ts))]\<rparr>)"
  unfolding call_pipeline_step_def find_next [OF assms(1,2)]
  by (cases ts) (simp_all add: run_with_delay_def add_job_def assms(3))

lemma ran_to_Cons:
  assumes "ran_to f (pre @ [t']) ts w2 v" and "auto_run f (t # ts) = apfst ((#) t') (auto_run f ts)"
    and "wf_file w2 = wf_file w"
  shows "ran_to f pre (t # ts) w v"
  using assms by (simp add: ran_to_def)

text \<open>After a task that lets the run go on.\<close>

lemma continue_ok:
  assumes t: "tasks_ok (pre @ t # ts)" and w: "wf_tasks w = pre @ t # ts" "wf_jobs w = []"
    and call: "call_pipeline_step (wt_next t) w = Inr w'"
    and IH: "\<And>w u us. ts = u # us \<Longrightarrow> wf_tasks w = (pre @ [t]) @ u # us \<Longrightarrow> wf_jobs w = [TaskJob (wt_id u)] \<Longrightarrow>
      \<exists>n\<le>length ts. ran_to f (pre @ [t]) ts w ((run_job f 0 ^^ n) w)"
  shows "\<exists>n\<le>length ts. ran_to f (pre @ [t]) ts w ((run_job f 0 ^^ n) w')"
proof -
  have w': "w' = (if \<not> has_tasks_to_process w \<or> ts = [] then mark_input_as_done w else w\<lparr>wf_jobs := [TaskJob (wt_id (hd ts))]\<rparr>)"
    using call call_next [OF t w] by simp
  show ?thesis
  proof (cases "\<not> has_tasks_to_process w \<or> ts = []")
    case True
    then have "\<forall>t\<in>set ts. wt_state t \<in> {SKIP, DONE}" using w(1) by (auto simp: has_tasks_iff)
    then have "auto_run f ts = (ts, True)" by (rule auto_run_idle)
    then show ?thesis using True w w' by (intro exI [of _ 0]) (simp add: ran_to_def)
  next
    case False
    then obtain u us where ts: "ts = u # us" by (cases ts) auto
    have "\<exists>n\<le>length ts. ran_to f (pre @ [t]) ts w' ((run_job f 0 ^^ n) w')"
      using False w w' by (intro IH [OF ts]) (simp_all add: ts)
    moreover have "wf_file w' = wf_file w" using False w' by simp
    ultimately show ?thesis by (auto simp: ran_to_def)
  qed
qed

lemma automatic_step:
  assumes ok: "tasks_ok (pre @ t # ts)" and w: "wf_tasks w = pre @ t # ts" "wf_jobs w = [TaskJob (wt_id t)]"
    and IH: "\<And>w t' u us. ts = u # us \<Longrightarrow> tasks_ok (pre @ t' # ts) \<Longrightarrow> wf_tasks w = (pre @ [t']) @ u # us \<Longrightarrow>
      wf_jobs w = [TaskJob (wt_id u)] \<Longrightarrow> \<exists>n\<le>length ts. ran_to f (pre @ [t']) ts w ((run_job f 0 ^^ n) w)"
  shows "\<exists>n\<le>Suc (length ts). ran_to f pre (t # ts) w ((run_job f 0 ^^ n) w)"
proof -
  define w0 where "w0 = w\<lparr>wf_jobs := []\<rparr>"
  have w0: "wf_tasks w0 = pre @ t # ts" "wf_jobs w0 = []" "wf_file w0 = wf_file w" by (simp_all add: w0_def w)
  note t0 = task_of_ok [OF ok w0(1)]
  have r: "run_job f 0 w = (case run_and_call_next (wt_id t) (f (wt_id t)) w0 of Inr v \<Rightarrow> v | Inl e \<Rightarrow> w0)"
    by (simp add: run_job_def w perform_job_def w0_def Let_def split: sum.split)
  have go: "\<exists>n\<le>Suc (length ts). ran_to f pre (t # ts) w ((run_job f 0 ^^ n) w)"
    if w2: "wf_tasks w2 = pre @ t' # ts" "wf_jobs w2 = []" "wf_file w2 = wf_file w" and t': "fixed t' = fixed t"
      and run: "run_and_call_next (wt_id t) (f (wt_id t)) w0 = call_pipeline_step (wt_next t) w2"
      and auto: "auto_run f (t # ts) = apfst ((#) t') (auto_run f ts)" for w2 t'
  proof -
    have ok': "tasks_ok (pre @ t' # ts)" using ok tasks_ok_fixed [of "pre @ t' # ts" "pre @ t # ts"] t' by simp
    have n: "wt_next t = wt_next t'" using t' by (simp add: fixed_def)
    obtain v where v: "call_pipeline_step (wt_next t') w2 = Inr v" using call_next [OF ok' w2(1,2)] by blast
    then have "\<exists>n\<le>length ts. ran_to f (pre @ [t']) ts w2 ((run_job f 0 ^^ n) v)"
      using IH [OF _ ok'] by (rule continue_ok [OF ok' w2(1,2)]) auto
    then obtain n where "n \<le> length ts" "ran_to f pre (t # ts) w ((run_job f 0 ^^ n) v)"
      using ran_to_Cons [OF _ auto w2(3)] by blast
    moreover have "run_job f 0 w = v" by (simp add: r run n v)
    ultimately show ?thesis by (intro exI [of _ "Suc n"]) (simp only: funpow_Suc_right comp_def Suc_le_mono simp_thms)
  qed
  show ?thesis
  proof (cases "wt_state t \<in> {SKIP, DONE}")
    case True
    then show ?thesis using go [OF w0 refl] t0(1) by (simp add: run_and_call_next_def)
  next
    case False
    have stop: "ran_to f pre (t # ts) w (run_job f 0 w) \<Longrightarrow> ?thesis" by (intro exI [of _ 1]) simp
    show ?thesis
    proof (cases "f (wt_id t)")
      case (Succeeded m)
      then show ?thesis using False t0 w0
        by (intro go [of "set_task_to_done (wt_id t) w0" "t\<lparr>wt_state := DONE\<rparr>"])
          (simp_all add: run_and_call_next_def set_task_to_done_def fixed_def goes_on_def after_def)
    next
      case (Pending m)
      then show ?thesis using False t0 w0
        by (intro go [of "mark IN_PROCESS (wt_id t) w0" "t\<lparr>wt_state := IN_PROCESS\<rparr>"])
          (simp_all add: run_and_call_next_def fixed_def goes_on_def after_def)
    next
      case (NotDone m)
      then show ?thesis using False t0 w0
        by (intro stop) (simp add: r run_and_call_next_def fail_job_manually_def add_job_def ran_to_def goes_on_def after_def)
    next
      case (Raises e)
      then show ?thesis using False t0 w0
        by (intro stop) (simp add: r run_and_call_next_def ran_to_def goes_on_def after_def)
    qed
  qed
qed

lemma automatic_run:
  "tasks_ok (pre @ t # ts) \<Longrightarrow> wf_tasks w = pre @ t # ts \<Longrightarrow> wf_jobs w = [TaskJob (wt_id t)] \<Longrightarrow>
    \<exists>n\<le>Suc (length ts). ran_to f pre (t # ts) w ((run_job f 0 ^^ n) w)"
proof (induction ts arbitrary: w pre t)
  case Nil
  then show ?case by (intro automatic_step) simp_all
next
  case (Cons u us)
  show ?case
  proof (rule automatic_step [OF Cons.prems])
    fix w' :: workflow and t' u' us'
    assume "u # us = u' # us'" "tasks_ok (pre @ t' # u # us)" "wf_tasks w' = (pre @ [t']) @ u' # us'"
      "wf_jobs w' = [TaskJob (wt_id u')]"
    then show "\<exists>n\<le>length (u # us). ran_to f (pre @ [t']) (u # us) w' ((run_job f 0 ^^ n) w')"
      using Cons.IH [of "pre @ [t']" u w'] by simp
  qed
qed

text \<open>From the job that starts the pipeline.\<close>

lemma triggered_run:
  assumes ok: "wf_ok w" and j: "wf_jobs w = [TriggerJob]"
  shows "\<exists>n\<le>Suc (length (wf_tasks w)). wf_tasks ((run_job f 0 ^^ n) w) = fst (auto_run f (wf_tasks w)) \<and>
    (if snd (auto_run f (wf_tasks w)) then wf_jobs ((run_job f 0 ^^ n) w) = [] \<and> if_state (wf_file ((run_job f 0 ^^ n) w)) = FileDone
     else if_state (wf_file ((run_job f 0 ^^ n) w)) = WorkflowProcess \<and>
       (\<forall>j\<in>set (wf_jobs ((run_job f 0 ^^ n) w)). \<exists>i message. j = MessageJob i message))"
proof -
  have t: "tasks_ok (wf_tasks w)" using ok by (simp add: wf_ok_def)
  define w0 where "w0 = w\<lparr>wf_jobs := []\<rparr>"
  have r: "run_job f 0 w = (case trigger_pipeline w0 of Inr v \<Rightarrow> v | Inl e \<Rightarrow> w0)"
    by (simp add: run_job_def j perform_job_def w0_def Let_def split: sum.split)
  show ?thesis
  proof (cases "has_tasks_to_process w0")
    case False
    then have "\<forall>t\<in>set (wf_tasks w). wt_state t \<in> {SKIP, DONE}" by (auto simp: has_tasks_iff w0_def)
    then have a: "auto_run f (wf_tasks w) = (wf_tasks w, True)" by (rule auto_run_idle)
    have "run_job f 0 w = mark_input_as_done w0" using False by (simp add: r trigger_pipeline_def)
    then show ?thesis by (intro exI [of _ 1]) (simp add: a w0_def action_done_def)
  next
    case True
    then obtain x where "x \<in> set (wf_tasks w)" "is_not_done x" by (auto simp: has_tasks_iff w0_def is_not_done_def)
    then obtain pre u ts where s: "wf_tasks w = pre @ u # ts" "is_not_done u" "\<forall>y\<in>set pre. \<not> is_not_done y"
      using split_list_first_prop [of "wf_tasks w" is_not_done] by blast
    have "take 1 (filter is_not_done (wf_tasks w)) = [u]" using s by simp
    then have v: "run_job f 0 w = mark_input_to_process (w0\<lparr>wf_jobs := [TaskJob (wt_id u)]\<rparr>)"
      using True by (simp add: r trigger_pipeline_def run_with_delay_def add_job_def w0_def)
    have p: "auto_run f (pre @ u # ts) = apfst ((@) pre) (auto_run f (u # ts))"
      using s(3) by (induction pre) (auto simp: is_not_done_def apfst_def map_prod_def split: prod.splits)
    obtain n where "n \<le> Suc (length ts)" and n: "ran_to f pre (u # ts) (run_job f 0 w) ((run_job f 0 ^^ n) (run_job f 0 w))"
      using automatic_run [of pre u ts "run_job f 0 w" f] t s v by (auto simp: w0_def)
    then show ?thesis
      unfolding s(1) p
      by (intro exI [of _ "Suc n"]) (simp add: ran_to_def v action_done_def action_process_def funpow_Suc_right del: funpow.simps)
  qed
qed

end
