(* ===== verification/WorkflowProperties.thy ===== *)
theory WorkflowProperties
  imports WorkflowFacts
begin

text \<open>
  The properties of the automatic workflow of imported orders.
\<close>

section \<open>An example\<close>

definition sample_status :: sub_status where
  "sample_status = \<lparr>ss_id = 1, validate_order = True, validate_picking = False, create_invoice = True,
     invoice_journal = None, validate_invoice = False, send_invoice = False, register_payment = False\<rparr>"

definition sample_by_code :: "string \<Rightarrow> sub_status option" where
  "sample_by_code code = (if code = ''paid'' then Some sample_status else None)"

definition sample_data :: order_data where
  "sample_data = \<lparr>od_states = [''paid'', ''paid''], od_payment = [], od_skip_dispatch = False\<rparr>"

definition sample_file :: input_file where
  "sample_file = \<lparr>if_state = CreateOrder, if_order = Some 7, if_update_required = False\<rparr>"

definition sample_workflow :: workflow where
  "sample_workflow = projr (build_and_run 1 sample_by_code (\<lambda>_. None) sample_data (Inr sample_file))"

lemma sample_built: "build_and_run 1 sample_by_code (\<lambda>_. None) sample_data (Inr sample_file) = Inr sample_workflow"
proof -
  have "\<not> isl (build_and_run 1 sample_by_code (\<lambda>_. None) sample_data (Inr sample_file))" by code_simp
  then show ?thesis unfolding sample_workflow_def by (cases "build_and_run 1 sample_by_code (\<lambda>_. None) sample_data (Inr sample_file)") auto
qed

lemma sample_reachable: "workflow_reachable sample_workflow"
  unfolding workflow_reachable_def by (rule reachable_start) (use sample_built in \<open>unfold wf_start_def, blast\<close>)

lemma sample_jobs: "wf_jobs sample_workflow = [TriggerJob]"
  by code_simp

section \<open>The automatic run\<close>

lemma auto_run_success:
  assumes "\<And>i. \<exists>message. f i = Succeeded message"
  shows "snd (auto_run f ts)" "\<forall>t\<in>set (fst (auto_run f ts)). wt_state t \<in> {SKIP, DONE}"
proof -
  have "goes_on (f i)" "after (f i) t = t\<lparr>wt_state := DONE\<rparr>" for i and t :: task
    using assms [of i] by (auto simp: goes_on_def after_def)
  then show "snd (auto_run f ts)" "\<forall>t\<in>set (fst (auto_run f ts)). wt_state t \<in> {SKIP, DONE}"
    by (induction ts) auto
qed

text \<open>C11: Once the pipeline of an order is triggered, the queue runs at most one job for each task and then stops.
  The tasks are gone through in their order: a task that is skipped or done stays, a task that succeeds is done,
  one that waits is in process, and the run stops at the first that fails or raises. If it reaches the end the
  input file is done, and otherwise it is in process; if all tasks succeed, every task is skipped or done.\<close>
theorem workflow_runs_to_the_end:
  assumes "workflow_reachable w" and "wf_jobs w = [TriggerJob]"
  shows "\<exists>n\<le>Suc (length (wf_tasks w)). let w' = (run_job f 0 ^^ n) w in
    wf_tasks w' = fst (auto_run f (wf_tasks w)) \<and>
    (if snd (auto_run f (wf_tasks w)) then wf_jobs w' = [] \<and> if_state (wf_file w') = FileDone
     else if_state (wf_file w') = WorkflowProcess \<and> (\<forall>j\<in>set (wf_jobs w'). \<exists>i message. j = MessageJob i message)) \<and>
    ((\<forall>i. \<exists>message. f i = Succeeded message) \<longrightarrow>
      (\<forall>t\<in>set (wf_tasks w'). wt_state t \<in> {SKIP, DONE}) \<and> if_state (wf_file w') = FileDone)"
proof -
  obtain n where n: "n \<le> Suc (length (wf_tasks w))"
    and t: "wf_tasks ((run_job f 0 ^^ n) w) = fst (auto_run f (wf_tasks w))"
    and e: "if snd (auto_run f (wf_tasks w)) then wf_jobs ((run_job f 0 ^^ n) w) = [] \<and> if_state (wf_file ((run_job f 0 ^^ n) w)) = FileDone
      else if_state (wf_file ((run_job f 0 ^^ n) w)) = WorkflowProcess \<and>
        (\<forall>j\<in>set (wf_jobs ((run_job f 0 ^^ n) w)). \<exists>i message. j = MessageJob i message)"
    using triggered_run [OF workflow_reachable_ok [OF assms(1)] assms(2), of f] by blast
  have "(\<forall>t\<in>set (wf_tasks ((run_job f 0 ^^ n) w)). wt_state t \<in> {SKIP, DONE}) \<and>
      if_state (wf_file ((run_job f 0 ^^ n) w)) = FileDone" if "\<forall>i. \<exists>message. f i = Succeeded message"
    using auto_run_success [of f "wf_tasks w"] that t e by simp
  with n t e show ?thesis unfolding Let_def by blast
qed

lemma workflow_runs_to_the_end_witness:
  "\<exists>n\<le>Suc (length (wf_tasks sample_workflow)).
     if_state (wf_file ((run_job (\<lambda>i. Succeeded []) 0 ^^ n) sample_workflow)) = FileDone"
  using workflow_runs_to_the_end [OF sample_reachable sample_jobs, of "\<lambda>i. Succeeded []"] by (auto simp: Let_def)

text \<open>The end of the run is the end of the workflow even if a task is still in process.\<close>

lemma file_done_with_open_task:
  "\<exists>n f. if_state (wf_file ((run_job f 0 ^^ n) sample_workflow)) = FileDone \<and>
    has_tasks_to_process ((run_job f 0 ^^ n) sample_workflow)"
proof -
  let ?f = "\<lambda>i. if i = 1 then Pending [] else Succeeded []"
  have a: "snd (auto_run ?f (wf_tasks sample_workflow))"
    "list_ex (\<lambda>t. wt_state t \<notin> {SKIP, DONE}) (fst (auto_run ?f (wf_tasks sample_workflow)))"
    by code_simp+
  obtain n where "wf_tasks ((run_job ?f 0 ^^ n) sample_workflow) = fst (auto_run ?f (wf_tasks sample_workflow))"
    "if_state (wf_file ((run_job ?f 0 ^^ n) sample_workflow)) = FileDone"
    using triggered_run [OF workflow_reachable_ok [OF sample_reachable] sample_jobs, of ?f] a(1) by auto
  then show ?thesis using a(2) unfolding has_tasks_iff list_ex_iff by metis
qed

section \<open>The tasks\<close>

lemma sub_states_of_ok:
  "sub_states_of by_code codes acc = Inr ss \<Longrightarrow> distinct (map ss_id acc) \<Longrightarrow>
    distinct (map ss_id ss) \<and> set acc \<subseteq> set ss \<and> set ss \<subseteq> set acc \<union> {s. \<exists>code\<in>set codes. by_code code = Some s} \<and>
    (\<forall>code\<in>set codes. \<exists>s. by_code code = Some s \<and> ss_id s \<in> ss_id ` set ss)"
proof (induction codes arbitrary: acc)
  case (Cons code codes)
  then obtain s where s: "by_code code = Some s" by (auto split: option.splits)
  let ?acc = "if ss_id s \<in> ss_id ` set acc then acc else acc @ [s]"
  have "sub_states_of by_code codes ?acc = Inr ss" "distinct (map ss_id ?acc)" using Cons.prems s by auto
  from Cons.IH [OF this] show ?case using s by (auto split: if_splits)
qed simp



section \<open>The buttons of a task\<close>

text \<open>C32: A task can be forced to be done, or run by its button, only if all earlier tasks are skipped or done;
  otherwise there is an error. Then only this task changes: it is done if forced or if its run succeeds, and the
  input file is done if it was the last. A task that is skipped or done cannot be run by its button.\<close>
theorem buttons_keep_the_order:
  fixes w :: workflow and t :: task
  assumes "workflow_reachable w" and "t \<in> set (wf_tasks w)"
  defines "open \<equiv> \<exists>u\<in>set (wf_tasks w). wt_id u < wt_id t \<and> wt_state u \<notin> {SKIP, DONE}"
  shows "(open \<longrightarrow> task_force_done (wt_id t) w = Inl UserError \<and> run_task (wt_id t) res w = Inl UserError) \<and>
    (wt_state t \<in> {SKIP, DONE} \<longrightarrow> run_task (wt_id t) res w = Inl UserError) \<and>
    (\<not> open \<longrightarrow> (\<exists>w'. task_force_done (wt_id t) w = Inr w' \<and>
      wf_tasks w' = map (\<lambda>u. if u = t then u\<lparr>wt_state := DONE\<rparr> else u) (wf_tasks w) \<and>
      wf_file w' = (if wt_next t = None then action_done (wf_file w) else wf_file w) \<and> wf_jobs w' = wf_jobs w \<and>
      (wt_state t \<notin> {SKIP, DONE} \<longrightarrow> run_task (wt_id t) (Succeeded message) w = Inr w')))"
proof -
  have ok: "tasks_ok (wf_tasks w)" using workflow_reachable_ok [OF assms(1)] by (simp add: wf_ok_def)
  obtain pre ts where s: "wf_tasks w = pre @ t # ts" using split_list [OF assms(2)] by blast
  note t = task_of_ok [OF ok [unfolded s] s]
  have v: "validate_previous (wt_id t) w = (if open then Inl UserError else Inr ())"
  proof -
    have "validate_previous (wt_id t) w = (if \<forall>u\<in>set (wf_tasks w). wt_id u < wt_id t \<longrightarrow> wt_state u \<in> {SKIP, DONE}
        then Inr () else Inl UserError)"
      by (simp add: validate_previous_def list_all_iff Let_def) (auto simp: filter_empty_conv)
    then show ?thesis unfolding open_def by auto
  qed
  have m: "map (\<lambda>u. if u = t then u\<lparr>wt_state := DONE\<rparr> else u) (wf_tasks w) = pre @ t\<lparr>wt_state := DONE\<rparr> # ts"
  proof -
    have "t \<notin> set pre" "t \<notin> set ts" using ids_distinct [OF ok] by (auto simp: s)
    then have "map (\<lambda>u. if u = t then u\<lparr>wt_state := DONE\<rparr> else u) xs = xs" if "xs = pre \<or> xs = ts" for xs
      using that by (intro map_idI) auto
    then show ?thesis by (simp add: s)
  qed
  have n: "find_task (wt_next t) (set_task_to_done (wt_id t) w) = [] \<longleftrightarrow> wt_next t = None"
  proof -
    have "wf_tasks (set_task_to_done (wt_id t) w) = pre @ t\<lparr>wt_state := DONE\<rparr> # ts" by (simp add: set_task_to_done_def t)
    moreover have "tasks_ok (pre @ t\<lparr>wt_state := DONE\<rparr> # ts)"
      using ok tasks_ok_fixed [of "pre @ t\<lparr>wt_state := DONE\<rparr> # ts" "pre @ t # ts"] by (simp add: s fixed_def)
    ultimately have "find_task (wt_next t) (set_task_to_done (wt_id t) w) = take 1 ts"
      using find_next [of pre "t\<lparr>wt_state := DONE\<rparr>" ts] by simp
    moreover have "wt_next t = next_method ts" using linked_append [of pre "t # ts"] ok by (simp add: tasks_ok_def s)
    ultimately show ?thesis by (cases ts) (simp_all add: next_method_def)
  qed
  let ?w = "end_of_pipeline t (set_task_to_done (wt_id t) w)"
  have e: "wf_tasks ?w = pre @ t\<lparr>wt_state := DONE\<rparr> # ts" "wf_jobs ?w = wf_jobs w"
    "wf_file ?w = (if wt_next t = None then action_done (wf_file w) else wf_file w)"
    using n by (simp_all add: end_of_pipeline_def set_task_to_done_def t)
  show ?thesis
    unfolding m using e by (auto simp: task_force_done_def run_task_def t(1) v)
qed

lemma buttons_keep_the_order_witness:
  "task_force_done 3 sample_workflow = Inl UserError \<and> (\<exists>w. task_force_done 1 sample_workflow = Inr w)"
proof -
  have t: "hd (wf_tasks sample_workflow) \<in> set (wf_tasks sample_workflow)"
    "wf_tasks sample_workflow ! 2 \<in> set (wf_tasks sample_workflow)"
    "wt_id (hd (wf_tasks sample_workflow)) = 1" "wt_id (wf_tasks sample_workflow ! 2) = 3"
    "list_ex (\<lambda>u. wt_id u < 3 \<and> wt_state u \<notin> {SKIP, DONE}) (wf_tasks sample_workflow)"
    "\<not> list_ex (\<lambda>u. wt_id u < 1 \<and> wt_state u \<notin> {SKIP, DONE}) (wf_tasks sample_workflow)"
    by code_simp+
  show ?thesis
    using buttons_keep_the_order [OF sample_reachable t(1)] buttons_keep_the_order [OF sample_reachable t(2)] t(5,6)
    unfolding t(3,4) list_ex_iff by blast
qed



end
