(* ===== verification/ShopifyFulfillment.thy ===== *)
theory ShopifyFulfillment
  imports SaleTransfer PyValue
begin

text \<open>
  The export of a delivery to Shopify: \<open>export_tracking\<close>, \<open>send_picking\<close> and \<open>_prepare_fulfillment_orders\<close> of
  \<open>integration_shopify/shopify_api.py\<close>, with \<open>shopify/resources/fulfillment_order.py\<close>, \<open>fulfillment.py\<close> and
  \<open>models/stock_picking.py\<close> of the same add-on. The shop is a service: each call is appended to a log, and its
  answer is an arbitrary function of the log. An identifier of the form \<open>gid://shopify/Name/n\<close> is its number;
  zero stands for no identifier.
\<close>

section \<open>Fulfillment orders\<close>

datatype fo_status = FoCancelled | FoClosed | FoIncomplete | FoInProgress | FoOnHold | FoOpen | FoScheduled

definition fulfillment_order_status :: "string \<Rightarrow> fo_status result" where
  "fulfillment_order_status s =
     (if s = ''CANCELLED'' then Inr FoCancelled else if s = ''CLOSED'' then Inr FoClosed
      else if s = ''INCOMPLETE'' then Inr FoIncomplete else if s = ''IN_PROGRESS'' then Inr FoInProgress
      else if s = ''ON_HOLD'' then Inr FoOnHold else if s = ''OPEN'' then Inr FoOpen
      else if s = ''SCHEDULED'' then Inr FoScheduled else Inl ValueError)"

definition open_or_in_progress :: "fo_status \<Rightarrow> bool" where
  "open_or_in_progress s \<longleftrightarrow> s = FoOpen \<or> s = FoInProgress"

text \<open>A line of a fulfillment order with the line of the sale it belongs to; a quantity may be null.\<close>

record fo_line =
  fl_id :: int
  fl_sale_line :: int
  fl_total :: "int option"
  fl_remaining :: "int option"

definition total_quantity :: "fo_line \<Rightarrow> int" where
  "total_quantity x = (case fl_total x of None \<Rightarrow> 0 | Some n \<Rightarrow> n)"

definition remaining_quantity :: "fo_line \<Rightarrow> int" where
  "remaining_quantity x = (case fl_remaining x of None \<Rightarrow> 0 | Some n \<Rightarrow> n)"

record delivery_method =
  dm_id :: int
  dm_presented_name :: "string option"
  dm_service_code :: "string option"
  dm_type :: "string option"

record fulfillment_order =
  fo_id :: int
  fo_status :: string
  fo_lines :: "fo_line list"
  fo_location :: int
  fo_delivery :: "delivery_method option"

definition prepare_fulfillment_lines_data :: "fulfillment_order \<Rightarrow> (int \<times> int) list" where
  "prepare_fulfillment_lines_data fo =
     map (\<lambda>x. (fl_id x, remaining_quantity x)) (filter (\<lambda>x. remaining_quantity x \<noteq> 0) (fo_lines fo))"

definition get_fulfillment_line :: "int \<Rightarrow> fulfillment_order \<Rightarrow> fo_line option" where
  "get_fulfillment_line sale_line_id fo =
     find (\<lambda>x. remaining_quantity x \<noteq> 0 \<and> fl_sale_line x = sale_line_id) (fo_lines fo)"

definition prepare_fulfillment_single_line_data :: "fulfillment_order \<Rightarrow> int \<Rightarrow> int \<Rightarrow> (int \<times> int) option" where
  "prepare_fulfillment_single_line_data fo sale_line_id qty =
     (if qty \<le> 0 then None
      else (case get_fulfillment_line sale_line_id fo of
              None \<Rightarrow> None
            | Some x \<Rightarrow>
                (let pending_qty = remaining_quantity x
                 in if pending_qty = 0 then None
                    else Some (fl_id x, if qty > pending_qty then pending_qty else qty))))"

text \<open>The loop over the lines of a picking, which is the same in three places: the data for each line, and the
  lines with their quantities reduced.\<close>

fun fill_lines :: "fulfillment_order \<Rightarrow> (int \<times> int) list \<Rightarrow> (int \<times> int) list \<times> (int \<times> int) list" where
  "fill_lines fo [] = ([], [])"
| "fill_lines fo ((l, q) # ls) =
     (let (ls', items) = fill_lines fo ls
      in case prepare_fulfillment_single_line_data fo l q of
           None \<Rightarrow> ((l, q) # ls', items)
         | Some (i, n) \<Rightarrow> ((l, q - n) # ls', (i, n) # items))"

section \<open>Fulfillments\<close>

record fulfillment_line =
  ln_sale_line :: int
  ln_sku :: string
  ln_quantity :: int
  ln_non_fulfillable :: "int option"
  ln_variant :: "string option"

record fulfillment =
  ff_id :: int
  ff_name :: string
  ff_status :: string
  ff_order :: int
  ff_location :: int
  ff_tracking :: "(string \<times> string) list"
  ff_lines :: "fulfillment_line list"

record odoo_line =
  ol_str_id :: string
  ol_quantity :: int
  ol_reference :: string
  ol_fulfillable :: int
  ol_code :: "string option"

record odoo_fulfillment =
  of_name :: string
  of_str_id :: string
  of_status :: string
  of_order :: string
  of_tracking_number :: string
  of_tracking_company :: string
  of_location :: string
  of_lines :: "odoo_line list"

text \<open>The name of the member of the enumeration.\<close>

definition fulfillment_status :: "string \<Rightarrow> string result" where
  "fulfillment_status s =
     (if s = ''CANCELLED'' then Inr ''cancelled'' else if s = ''ERROR'' then Inr ''error''
      else if s = ''FAILURE'' then Inr ''failure'' else if s = ''SUCCESS'' then Inr ''success'' else Inl ValueError)"

definition fulfillable_quantity :: "fulfillment_line \<Rightarrow> int" where
  "fulfillable_quantity x = ln_quantity x - (case ln_non_fulfillable x of None \<Rightarrow> 0 | Some n \<Rightarrow> n)"

definition line_to_odoo_format :: "fulfillment_line \<Rightarrow> odoo_line" where
  "line_to_odoo_format x =
     \<lparr>ol_str_id = show_int (ln_sale_line x), ol_quantity = ln_quantity x, ol_reference = ln_sku x,
      ol_fulfillable = fulfillable_quantity x, ol_code = ln_variant x\<rparr>"

definition fulfillment_to_odoo_format :: "fulfillment \<Rightarrow> odoo_fulfillment result" where
  "fulfillment_to_odoo_format x =
     rbind (fulfillment_status (ff_status x)) (\<lambda>status.
     Inr \<lparr>of_name = ff_name x, of_str_id = show_int (ff_id x), of_status = status, of_order = show_int (ff_order x),
          of_tracking_number = py_join '', '' (map fst (ff_tracking x)),
          of_tracking_company = (case ff_tracking x of [] \<Rightarrow> [] | (_, company) # _ \<Rightarrow> company),
          of_location = show_int (ff_location x), of_lines = map line_to_odoo_format (ff_lines x)\<rparr>)"

section \<open>Calls of the shop\<close>

text \<open>The texts of a new fulfillment are its carrier, its tracking number and its URL.\<close>

datatype shop_call =
    FetchOrders string
  | CreateFulfillment int string "string option" "string option" "(int \<times> int) list"
  | ReadOrder int
  | SplitOrder int "(int \<times> int) list"
  | MoveOrder int int

record shop =
  ask_orders :: "shop_call list \<Rightarrow> fulfillment_order list result"
  ask_fulfillment :: "shop_call list \<Rightarrow> fulfillment result"
  ask_read :: "shop_call list \<Rightarrow> unit result"
  ask_split :: "shop_call list \<Rightarrow> fulfillment_order result"
  ask_move :: "shop_call list \<Rightarrow> unit result"

text \<open>A result with the log: an exception keeps the calls that were made before.\<close>

type_synonym 'a shop_io = "shop_call list \<Rightarrow> 'a result \<times> shop_call list"

definition io_lift :: "'a result \<Rightarrow> 'a shop_io" where
  "io_lift r = (\<lambda>calls. (r, calls))"

definition io_bind :: "'a shop_io \<Rightarrow> ('a \<Rightarrow> 'b shop_io) \<Rightarrow> 'b shop_io" where
  "io_bind m f = (\<lambda>calls. case m calls of (Inl e, calls') \<Rightarrow> (Inl e, calls') | (Inr x, calls') \<Rightarrow> f x calls')"

definition call_shop :: "shop_call \<Rightarrow> (shop_call list \<Rightarrow> 'a result) \<Rightarrow> 'a shop_io" where
  "call_shop c ask = (\<lambda>calls. (ask (calls @ [c]), calls @ [c]))"

fun map_results :: "('a \<Rightarrow> 'b result) \<Rightarrow> 'a list \<Rightarrow> 'b list result" where
  "map_results f [] = Inr []"
| "map_results f (x # xs) = rbind (f x) (\<lambda>y. rbind (map_results f xs) (\<lambda>ys. Inr (y # ys)))"

text \<open>The order of the sale is read with its fulfillment orders; those that are open and have lines are kept.\<close>

fun keep_open :: "fulfillment_order list \<Rightarrow> fulfillment_order list result" where
  "keep_open [] = Inr []"
| "keep_open (fo # fos) =
     rbind (fulfillment_order_status (fo_status fo)) (\<lambda>s.
     rbind (keep_open fos) (\<lambda>rest. Inr (if open_or_in_progress s \<and> fo_lines fo \<noteq> [] then fo # rest else rest)))"

definition get_fulfillment_orders :: "shop \<Rightarrow> string \<Rightarrow> fulfillment_order list shop_io" where
  "get_fulfillment_orders sh sale_order_id =
     io_bind (call_shop (FetchOrders sale_order_id) (ask_orders sh)) (\<lambda>fos. io_lift (keep_open fos))"

definition fulfill ::
  "shop \<Rightarrow> string \<Rightarrow> string option \<Rightarrow> string option \<Rightarrow> fulfillment_order \<Rightarrow> (int \<times> int) list \<Rightarrow> fulfillment shop_io" where
  "fulfill sh carrier tracking url fo lines_data =
     io_bind (call_shop (CreateFulfillment (fo_id fo) carrier tracking url lines_data) (ask_fulfillment sh)) (\<lambda>f.
     io_bind (call_shop (ReadOrder (fo_id fo)) (ask_read sh)) (\<lambda>_. io_lift (Inr f)))"

definition move_order :: "shop \<Rightarrow> int \<Rightarrow> fulfillment_order \<Rightarrow> unit shop_io" where
  "move_order sh location_id fo =
     (if fo_location fo = location_id then io_lift (Inr ())
      else call_shop (MoveOrder (fo_id fo) location_id) (ask_move sh))"

definition split_order :: "shop \<Rightarrow> fulfillment_order \<Rightarrow> (int \<times> int) list \<Rightarrow> fulfillment_order shop_io" where
  "split_order sh fo lines_data = call_shop (SplitOrder (fo_id fo) lines_data) (ask_split sh)"

section \<open>Moves before a delivery\<close>

definition lists_are_equal :: "(int \<times> int) list \<Rightarrow> (int \<times> int) list \<Rightarrow> bool" where
  "lists_are_equal xs ys \<longleftrightarrow> set xs = set ys"

text \<open>The key of the sort counts the texts of identifiers that are among the integers: there are none.\<close>

definition matching_lines :: "(int \<times> int) list \<Rightarrow> fulfillment_order \<Rightarrow> nat" where
  "matching_lines ls fo =
     card (set (map (\<lambda>x. PStr (show_int (fl_sale_line x))) (filter (\<lambda>x. remaining_quantity x \<noteq> 0) (fo_lines fo))) \<inter>
       set (map (\<lambda>(l, _). PInt l) ls))"

fun cover_lines :: "fulfillment_order list \<Rightarrow> (int \<times> int) list \<Rightarrow> (int \<times> int) list" where
  "cover_lines [] ls = ls"
| "cover_lines (fo # fos) ls = cover_lines fos (fst (fill_lines fo ls))"

fun move_lines :: "shop \<Rightarrow> int \<Rightarrow> fulfillment_order list \<Rightarrow> (int \<times> int) list \<Rightarrow> bool shop_io" where
  "move_lines sh location_id [] ls = io_lift (Inr False)"
| "move_lines sh location_id (fo # fos) ls =
     (let (ls', lines_to_move) = fill_lines fo ls
      in io_bind
           (if lines_to_move = [] then io_lift (Inr False)
            else if lists_are_equal lines_to_move (prepare_fulfillment_lines_data fo)
            then io_bind (move_order sh location_id fo) (\<lambda>_. io_lift (Inr True))
            else io_bind (split_order sh fo lines_to_move) (\<lambda>new_order.
                 io_bind (move_order sh location_id new_order) (\<lambda>_. io_lift (Inr True))))
           (\<lambda>moved.
             if list_all (\<lambda>(_, q). q = 0) ls' then io_lift (Inr moved)
             else io_bind (move_lines sh location_id fos ls') (\<lambda>moved'. io_lift (Inr (moved \<or> moved')))))"

definition prepare_fulfillment_orders :: "shop \<Rightarrow> int \<Rightarrow> fulfillment_order list \<Rightarrow> (int \<times> int) list \<Rightarrow> bool shop_io" where
  "prepare_fulfillment_orders sh location_id fos ls =
     (let same = filter (\<lambda>fo. fo_location fo = location_id) fos;
          different = filter (\<lambda>fo. fo_location fo \<noteq> location_id) fos;
          ls' = filter (\<lambda>(_, q). q \<noteq> 0) (cover_lines same ls)
      in if ls' = [] then io_lift (Inr False)
         else move_lines sh location_id (sort_key (\<lambda>fo. - int (matching_lines ls' fo)) different) ls')"

section \<open>Sending a picking\<close>

text \<open>The data of a picking with its location and the URL of its tracking; an empty text is no text.\<close>

record tracking_data =
  td_data :: picking_data
  td_location :: string
  td_url :: string

definition location_int :: "string \<Rightarrow> int result" where
  "location_int s = (if s = [] then Inr 0 else (case py_int s of None \<Rightarrow> Inl ValueError | Some n \<Rightarrow> Inr n))"

definition int_lines :: "(string \<times> int) list \<Rightarrow> (int \<times> int) list result" where
  "int_lines = map_results (\<lambda>(i, q). case py_int i of None \<Rightarrow> Inl ValueError | Some n \<Rightarrow> Inr (n, q))"

definition or_none :: "string \<Rightarrow> string option" where
  "or_none s = (if s = [] then None else Some s)"

fun fulfill_orders ::
  "shop \<Rightarrow> tracking_data \<Rightarrow> bool \<Rightarrow> (int \<times> int) list \<Rightarrow> fulfillment_order list \<Rightarrow> fulfillment list shop_io" where
  "fulfill_orders sh td force_done ls [] = io_lift (Inr [])"
| "fulfill_orders sh td force_done ls (fo # fos) =
     (let (ls', lines_data) = (if force_done then (ls, prepare_fulfillment_lines_data fo) else fill_lines fo ls)
      in io_bind
           (if lines_data = [] then io_lift (Inr [])
            else io_bind (fulfill sh (pd_carrier_code (td_data td)) (or_none (pd_tracking (td_data td)))
                   (or_none (td_url td)) fo lines_data) (\<lambda>f. io_lift (Inr [f])))
           (\<lambda>fs.
             if \<not> force_done \<and> list_all (\<lambda>(_, q). q = 0) ls' then io_lift (Inr fs)
             else io_bind (fulfill_orders sh td force_done ls' fos) (\<lambda>gs. io_lift (Inr (fs @ gs)))))"

definition send_picking :: "shop \<Rightarrow> string \<Rightarrow> tracking_data \<Rightarrow> bool \<Rightarrow> odoo_fulfillment list shop_io" where
  "send_picking sh sale_order_id td force_done =
     io_bind (io_lift (location_int (td_location td))) (\<lambda>location_id.
     io_bind (io_lift (int_lines (pd_lines (td_data td)))) (\<lambda>ls.
     io_bind (get_fulfillment_orders sh sale_order_id) (\<lambda>fos.
     io_bind
       (if location_id = 0 then io_lift (Inr fos)
        else io_bind (prepare_fulfillment_orders sh location_id fos ls) (\<lambda>moved.
             io_bind (if moved then get_fulfillment_orders sh sale_order_id else io_lift (Inr fos)) (\<lambda>fos'.
             io_lift (Inr (sort_key (\<lambda>fo. if fo_location fo = location_id then 0 else 1 :: nat) fos')))))
       (\<lambda>fos'.
     io_bind (fulfill_orders sh td force_done ls fos') (\<lambda>fs. io_lift (map_results fulfillment_to_odoo_format fs))))))"

text \<open>The pickings are sent by descending location; only the last one may be forced.\<close>

fun send_pickings :: "shop \<Rightarrow> string \<Rightarrow> bool \<Rightarrow> tracking_data list \<Rightarrow> odoo_fulfillment list shop_io" where
  "send_pickings sh sale_order_id force_done [] = io_lift (Inr [])"
| "send_pickings sh sale_order_id force_done (td # tds) =
     io_bind (send_picking sh sale_order_id td (force_done \<and> tds = [])) (\<lambda>fs.
     io_bind (send_pickings sh sale_order_id force_done tds) (\<lambda>gs. io_lift (Inr (fs @ gs))))"

definition export_tracking :: "shop \<Rightarrow> string \<Rightarrow> tracking_data list \<Rightarrow> bool \<Rightarrow> odoo_fulfillment list shop_io" where
  "export_tracking sh sale_order_id tds force_done =
     io_bind (io_lift (map_results (\<lambda>td. rbind (location_int (td_location td)) (\<lambda>n. Inr (n, td))) tds)) (\<lambda>keyed.
     send_pickings sh sale_order_id force_done (map snd (sort_key (\<lambda>(n, _). - n) keyed)))"

section \<open>The data of the pickings\<close>

text \<open>The tracking URL of a picking, if its carrier sends it. The URLs of several pickings are put to the data by
  position: the data of the first picking to be sent gets the URL of the first picking.\<close>

definition shopify_export_format :: "grouping \<Rightarrow> (int \<Rightarrow> string) \<Rightarrow> stock_picking \<Rightarrow> tracking_data" where
  "shopify_export_format groupby url sp =
     (let (d, location) = to_export_format groupby sp in \<lparr>td_data = d, td_location = location, td_url = url (sp_id sp)\<rparr>)"

definition shopify_export_format_multi :: "grouping \<Rightarrow> (int \<Rightarrow> string) \<Rightarrow> stock_picking list \<Rightarrow> tracking_data list" where
  "shopify_export_format_multi groupby url sps =
     map (\<lambda>((d, location), sp). \<lparr>td_data = d, td_location = location, td_url = url (sp_id sp)\<rparr>)
       (zip (to_export_format_multi groupby sps) sps)"

end
