(* ===== verification/ShopifyFacts.thy ===== *)
theory ShopifyFacts
  imports ShopifyFulfillment "HOL-Library.Sublist"
begin

text \<open>
  The lemmas on the export to Shopify: the lines that an order gives to a picking in closed form, and the calls
  that the loops over the orders make.
\<close>

section \<open>The lines of one order\<close>

text \<open>What the order still has of a line of the sale, and the number of its line.\<close>

definition avail :: "fulfillment_order \<Rightarrow> int \<Rightarrow> int" where
  "avail fo l = (case get_fulfillment_line l fo of None \<Rightarrow> 0 | Some x \<Rightarrow> remaining_quantity x)"

definition line_of :: "fulfillment_order \<Rightarrow> int \<Rightarrow> int" where
  "line_of fo l = (case get_fulfillment_line l fo of None \<Rightarrow> 0 | Some x \<Rightarrow> fl_id x)"

definition grab :: "fulfillment_order \<Rightarrow> int \<times> int \<Rightarrow> int" where
  "grab fo e = (case e of (l, q) \<Rightarrow> if q \<le> 0 then 0 else min (avail fo l) q)"

definition no_debts :: "fulfillment_order \<Rightarrow> bool" where
  "no_debts fo \<longleftrightarrow> (\<forall>x\<in>set (fo_lines fo). 0 \<le> remaining_quantity x)"

lemma get_line_SomeD:
  "get_fulfillment_line l fo = Some x \<Longrightarrow> x \<in> set (fo_lines fo) \<and> remaining_quantity x \<noteq> 0 \<and> fl_sale_line x = l"
  by (auto simp: get_fulfillment_line_def find_Some_iff)

lemma avail_nonneg: "no_debts fo \<Longrightarrow> 0 \<le> avail fo l"
  by (auto simp: avail_def no_debts_def dest: get_line_SomeD split: option.splits)

lemma prepare_single_eq:
  "prepare_fulfillment_single_line_data fo l q = (if grab fo (l, q) = 0 then None else Some (line_of fo l, grab fo (l, q)))"
  by (auto simp: prepare_fulfillment_single_line_data_def grab_def avail_def line_of_def Let_def min_def
      dest: get_line_SomeD split: option.splits)

lemma fill_lines_eq:
  "fill_lines fo ls = (map (\<lambda>(l, q). (l, q - grab fo (l, q))) ls,
     map (\<lambda>(l, q). (line_of fo l, grab fo (l, q))) (filter (\<lambda>e. grab fo e \<noteq> 0) ls))"
  by (induction fo ls rule: fill_lines.induct) (simp_all add: prepare_single_eq)

section \<open>Several orders\<close>

text \<open>The lines after some orders have given what they have, and the requests to the orders.\<close>

definition rest_of :: "fulfillment_order \<Rightarrow> (int \<times> int) list \<Rightarrow> (int \<times> int) list" where
  "rest_of fo ls = fst (fill_lines fo ls)"

fun plan :: "fulfillment_order list \<Rightarrow> (int \<times> int) list \<Rightarrow> (fulfillment_order \<times> (int \<times> int) list) list" where
  "plan [] ls = []"
| "plan (fo # fos) ls = (if snd (fill_lines fo ls) = [] then [] else [(fo, snd (fill_lines fo ls))]) @ plan fos (rest_of fo ls)"

lemma plan_zero: "list_all (\<lambda>(l, q). q = 0) ls \<Longrightarrow> plan fos ls = []"
proof (induction fos arbitrary: ls)
  case (Cons fo fos)
  have "grab fo e = 0" if "e \<in> set ls" for e using Cons.prems that by (auto simp: grab_def list_all_iff)
  then have "snd (fill_lines fo ls) = []" "rest_of fo ls = ls"
    by (auto simp: fill_lines_eq rest_of_def filter_empty_conv intro!: map_idI)
  with Cons show ?case by simp
qed simp

text \<open>What is left of a quantity.\<close>

lemma left_over:
  assumes "\<forall>fo\<in>set fos. no_debts fo"
  shows "cover_lines fos ls = map (\<lambda>(l, q). (l, if q \<le> 0 then q else max 0 (q - (\<Sum>fo\<leftarrow>fos. avail fo l)))) ls"
  using assms
proof (induction fos arbitrary: ls)
  case Nil
  then show ?case by (simp add: map_idI case_prod_beta)
next
  case (Cons fo fos)
  have a: "0 \<le> avail fo l" "0 \<le> (\<Sum>fo\<leftarrow>fos. avail fo l)" for l
    using Cons.prems by (auto intro!: sum_list_nonneg avail_nonneg)
  have "(if q - grab fo (l, q) \<le> 0 then q - grab fo (l, q) else max 0 (q - grab fo (l, q) - (\<Sum>fo\<leftarrow>fos. avail fo l))) =
      (if q \<le> 0 then q else max 0 (q - (\<Sum>fo\<leftarrow>fo # fos. avail fo l)))" for l q
    using a [of l] by (auto simp: grab_def min_def max_def)
  with Cons show ?case by (auto simp: fill_lines_eq)
qed

text \<open>What the order at a position gives, in closed form.\<close>

definition greedy_items :: "fulfillment_order list \<Rightarrow> (int \<times> int) list \<Rightarrow> nat \<Rightarrow> (int \<times> int) list" where
  "greedy_items fos ls i =
     map (\<lambda>(l, n). (line_of (fos ! i) l, n)) (filter (\<lambda>(l, n). 0 < n)
       (map (\<lambda>(l, q). (l, min (avail (fos ! i) l) (q - (\<Sum>fo\<leftarrow>take i fos. avail fo l)))) ls))"

lemma greedy_0:
  assumes "no_debts (fos ! 0)"
  shows "greedy_items fos ls 0 = snd (fill_lines (fos ! 0) ls)"
proof -
  have "(0 < min (avail (fos ! 0) l) q) = (grab (fos ! 0) (l, q) \<noteq> 0)" for l q
    using avail_nonneg [OF assms, of l] by (auto simp: grab_def)
  moreover have "grab (fos ! 0) (l, q) \<noteq> 0 \<Longrightarrow> min (avail (fos ! 0) l) q = grab (fos ! 0) (l, q)" for l q
    by (auto simp: grab_def split: if_splits)
  ultimately show ?thesis
    by (induction ls) (auto simp: greedy_items_def fill_lines_eq)
qed

lemma filter_map_eq:
  "(\<And>x. P (f x) \<longleftrightarrow> P (g x)) \<Longrightarrow> (\<And>x. P (f x) \<Longrightarrow> f x = g x) \<Longrightarrow> filter P (map f xs) = filter P (map g xs)"
  unfolding filter_map comp_def by (rule map_cong) auto

lemma greedy_Suc:
  assumes "\<forall>fo\<in>set (fo # fos). no_debts fo" and "i < length fos"
  shows "greedy_items (fo # fos) ls (Suc i) = greedy_items fos (rest_of fo ls) i"
proof -
  have a: "0 \<le> avail fo l" "0 \<le> (\<Sum>fo\<leftarrow>take i fos. avail fo l)" "0 \<le> avail (fos ! i) l" for l
    using assms by (auto intro!: sum_list_nonneg avail_nonneg dest!: in_set_takeD)
  let ?f = "\<lambda>(l, q). (l, min (avail (fos ! i) l) (q - (avail fo l + (\<Sum>fo\<leftarrow>take i fos. avail fo l))))"
  let ?g = "\<lambda>(l, q). (l, min (avail (fos ! i) l) (q - grab fo (l, q) - (\<Sum>fo\<leftarrow>take i fos. avail fo l)))"
  have g: "(0 < snd (?f e)) = (0 < snd (?g e))" "0 < snd (?f e) \<Longrightarrow> ?f e = ?g e" for e
    using a [of "fst e"] by (auto simp: grab_def min_def case_prod_beta)
  have "filter (\<lambda>e. 0 < snd e) (map ?f ls) = filter (\<lambda>e. 0 < snd e) (map ?g ls)"
    by (rule filter_map_eq) (rule g, erule g)
  then show ?thesis by (simp add: greedy_items_def rest_of_def fill_lines_eq comp_def case_prod_unfold)
qed

lemma plan_eq:
  assumes "\<forall>fo\<in>set fos. no_debts fo"
  shows "plan fos ls = map (\<lambda>i. (fos ! i, greedy_items fos ls i)) (filter (\<lambda>i. greedy_items fos ls i \<noteq> []) [0..<length fos])"
  using assms
proof (induction fos arbitrary: ls)
  case (Cons fo fos)
  let ?g = "greedy_items (fo # fos) ls"
  have s: "?g (Suc i) = greedy_items fos (rest_of fo ls) i" if "i < length fos" for i
    using greedy_Suc [OF Cons.prems that] .
  have "[0..<length (fo # fos)] = 0 # map Suc [0..<length fos]" by (simp add: upt_conv_Cons map_Suc_upt del: upt_Suc)
  moreover have "filter (\<lambda>i. ?g i \<noteq> []) (map Suc [0..<length fos]) =
      map Suc (filter (\<lambda>i. greedy_items fos (rest_of fo ls) i \<noteq> []) [0..<length fos])"
    by (simp add: filter_map comp_def) (intro filter_cong, simp_all add: s)
  moreover have "?g 0 = snd (fill_lines fo ls)" using greedy_0 [of "fo # fos"] Cons.prems by simp
  ultimately show ?case using Cons by (auto simp: s)
qed simp

text \<open>All orders together give the quantity, or all they have.\<close>

lemma greedy_total:
  fixes a :: "'a \<Rightarrow> int"
  assumes "\<forall>x\<in>set xs. 0 \<le> a x" and "0 \<le> q"
  shows "(\<Sum>i<length xs. max 0 (min (a (xs ! i)) (q - (\<Sum>x\<leftarrow>take i xs. a x)))) = min q (\<Sum>x\<leftarrow>xs. a x)"
  using assms
proof (induction xs arbitrary: q)
  case (Cons x xs)
  have s: "0 \<le> (\<Sum>x\<leftarrow>xs. a x)" using Cons.prems by (auto intro!: sum_list_nonneg)
  show ?case
  proof (cases "q \<le> a x")
    case True
    have "max 0 (min (a (xs ! i)) (q - a x - (\<Sum>x\<leftarrow>take i xs. a x))) = 0" for i
    proof -
      have "0 \<le> (\<Sum>x\<leftarrow>take i xs. a x)" using Cons.prems by (auto intro!: sum_list_nonneg dest!: in_set_takeD)
      with True show ?thesis by simp
    qed
    then show ?thesis using True s Cons.prems by (simp add: sum.lessThan_Suc_shift diff_diff_eq [symmetric] del: sum.lessThan_Suc)
  next
    case False
    then have "(\<Sum>i<length xs. max 0 (min (a (xs ! i)) (q - a x - (\<Sum>x\<leftarrow>take i xs. a x)))) = min (q - a x) (\<Sum>x\<leftarrow>xs. a x)"
      using Cons by auto
    then show ?thesis using False Cons.prems by (simp add: sum.lessThan_Suc_shift diff_diff_eq [symmetric] del: sum.lessThan_Suc)
  qed
qed simp

section \<open>The calls\<close>

text \<open>The fulfillments that are asked for.\<close>

definition shipped :: "shop_call list \<Rightarrow> (int \<times> (int \<times> int) list) list" where
  "shipped = List.map_filter (\<lambda>c. case c of CreateFulfillment i _ _ _ items \<Rightarrow> Some (i, items) | _ \<Rightarrow> None)"

lemma shipped_simps [simp]:
  "shipped [] = []" "shipped (CreateFulfillment i c t u items # cs) = (i, items) # shipped cs"
  "shipped (FetchOrders s # cs) = shipped cs" "shipped (ReadOrder i # cs) = shipped cs"
  "shipped (SplitOrder i items # cs) = shipped cs" "shipped (MoveOrder i l # cs) = shipped cs"
  "shipped (xs @ ys) = shipped xs @ shipped ys"
  by (simp_all add: shipped_def List.map_filter_def)

definition adds :: "'a shop_io \<Rightarrow> (shop_call list \<Rightarrow> 'a result \<Rightarrow> bool) \<Rightarrow> bool" where
  "adds m P \<longleftrightarrow> (\<forall>calls r calls'. m calls = (r, calls') \<longrightarrow> (\<exists>new. calls' = calls @ new \<and> P new r))"

lemma addsD: "adds m P \<Longrightarrow> m calls = (r, calls') \<Longrightarrow> \<exists>new. calls' = calls @ new \<and> P new r"
  by (simp add: adds_def)

lemma adds_mono: "adds m P \<Longrightarrow> (\<And>new r. P new r \<Longrightarrow> Q new r) \<Longrightarrow> adds m Q"
  unfolding adds_def by blast

lemma adds_lift: "P [] r \<Longrightarrow> adds (io_lift r) P"
  by (simp add: adds_def io_lift_def)

lemma adds_call: "(\<And>r. P [c] r) \<Longrightarrow> adds (call_shop c ask) P"
  by (simp add: adds_def call_shop_def)

lemma adds_bind:
  assumes "adds m P" and "\<And>x. adds (f x) (Q x)"
    and "\<And>new e. P new (Inl e) \<Longrightarrow> R new (Inl e)"
    and "\<And>new x new' r. P new (Inr x) \<Longrightarrow> Q x new' r \<Longrightarrow> R (new @ new') r"
  shows "adds (io_bind m f) R"
  unfolding adds_def
proof (intro allI impI)
  fix calls r calls'
  assume a: "io_bind m f calls = (r, calls')"
  obtain r1 calls1 where m: "m calls = (r1, calls1)" by fastforce
  then obtain new where n: "calls1 = calls @ new" "P new r1" using addsD [OF assms(1)] by blast
  show "\<exists>new. calls' = calls @ new \<and> R new r"
  proof (cases r1)
    case (Inl e)
    then show ?thesis using a m n assms(3) by (auto simp: io_bind_def)
  next
    case (Inr x)
    then obtain new' where "calls' = calls1 @ new'" "Q x new' r"
      using a m addsD [OF assms(2) [of x], of calls1] by (auto simp: io_bind_def)
    then show ?thesis using n Inr assms(4) by (intro exI [of _ "new @ new'"]) simp
  qed
qed

text \<open>Calls that make some requests: all of them if there is no error, and otherwise the first ones.\<close>

definition requests :: "(int \<times> (int \<times> int) list) list \<Rightarrow> shop_call list \<Rightarrow> 'a result \<Rightarrow> bool" where
  "requests P new r \<longleftrightarrow> prefix (shipped new) P \<and> (\<forall>x. r = Inr x \<longrightarrow> shipped new = P) \<and> (\<forall>so. FetchOrders so \<notin> set new)"

lemma requests_lift: "adds (io_lift r) (requests [])"
  by (rule adds_lift) (simp add: requests_def)

lemma requests_call: "\<forall>so. c \<noteq> FetchOrders so \<Longrightarrow> adds (call_shop c ask) (requests (shipped [c]))"
  by (rule adds_call) (auto simp: requests_def)

lemma requests_bind:
  assumes "adds m (requests P)" and "\<And>x. adds (f x) (requests P')"
  shows "adds (io_bind m f) (requests (P @ P'))"
  by (rule adds_bind [OF assms]) (auto simp: requests_def)

lemma requests_fulfill: "adds (fulfill sh c t u fo items) (requests [(fo_id fo, items)])"
proof -
  have "adds (fulfill sh c t u fo items) (requests ([(fo_id fo, items)] @ [] @ []))"
    unfolding fulfill_def
    by (intro requests_bind requests_lift requests_call [of "CreateFulfillment (fo_id fo) c t u items", simplified]
        requests_call [of "ReadOrder (fo_id fo)", simplified])
  then show ?thesis by simp
qed

definition plain :: "(fulfillment_order \<times> (int \<times> int) list) list \<Rightarrow> (int \<times> (int \<times> int) list) list" where
  "plain = map (\<lambda>(fo, items). (fo_id fo, items))"

lemma requests_one:
  "adds (if items = [] then io_lift (Inr []) else io_bind (fulfill sh c t u fo items) (\<lambda>f. io_lift (Inr [f])))
     (requests (plain (if items = [] then [] else [(fo, items)])))"
  using requests_bind [OF requests_fulfill requests_lift, of sh c t u fo items "\<lambda>f. Inr [f]"]
  by (simp add: plain_def requests_lift)

lemma requests_loop: "adds (fulfill_orders sh td False ls fos) (requests (plain (plan fos ls)))"
proof (induction fos arbitrary: ls)
  case Nil
  show ?case by (simp add: plain_def requests_lift)
next
  case (Cons fo fos)
  obtain ls' items where f: "fill_lines fo ls = (ls', items)" by fastforce
  let ?P = "plain (if items = [] then [] else [(fo, items)])"
  have r: "rest_of fo ls = ls'" by (simp add: rest_of_def f)
  have "adds (if list_all (\<lambda>(_, q). q = 0) ls' then io_lift (Inr fs)
      else io_bind (fulfill_orders sh td False ls' fos) (\<lambda>gs. io_lift (Inr (fs @ gs)))) (requests (plain (plan fos ls')))" for fs
  proof (cases "list_all (\<lambda>(_, q). q = 0) ls'")
    case True
    then show ?thesis by (simp add: plan_zero plain_def requests_lift)
  next
    case False
    then show ?thesis using requests_bind [OF Cons.IH [of ls'] requests_lift, of "\<lambda>gs. Inr (fs @ gs)"] by simp
  qed
  then have "adds (io_bind
      (if items = [] then io_lift (Inr [])
       else io_bind (fulfill sh (pd_carrier_code (td_data td)) (or_none (pd_tracking (td_data td))) (or_none (td_url td)) fo items)
         (\<lambda>f. io_lift (Inr [f])))
      (\<lambda>fs. if list_all (\<lambda>(_, q). q = 0) ls' then io_lift (Inr fs)
        else io_bind (fulfill_orders sh td False ls' fos) (\<lambda>gs. io_lift (Inr (fs @ gs))))) (requests (?P @ plain (plan fos ls')))"
    by (rule requests_bind [OF requests_one])
  then show ?case by (cases "items = []") (simp_all add: f r plain_def)
qed

lemma requests_forced:
  "adds (fulfill_orders sh td True ls fos)
     (requests (map (\<lambda>fo. (fo_id fo, prepare_fulfillment_lines_data fo))
        (filter (\<lambda>fo. prepare_fulfillment_lines_data fo \<noteq> []) fos)))"
proof (induction fos)
  case Nil
  show ?case by (simp add: requests_lift)
next
  case (Cons fo fos)
  let ?items = "prepare_fulfillment_lines_data fo"
  have "adds (io_bind
      (if ?items = [] then io_lift (Inr [])
       else io_bind (fulfill sh (pd_carrier_code (td_data td)) (or_none (pd_tracking (td_data td))) (or_none (td_url td)) fo ?items)
         (\<lambda>f. io_lift (Inr [f])))
      (\<lambda>fs. io_bind (fulfill_orders sh td True ls fos) (\<lambda>gs. io_lift (Inr (fs @ gs)))))
    (requests (plain (if ?items = [] then [] else [(fo, ?items)]) @
      (map (\<lambda>fo. (fo_id fo, prepare_fulfillment_lines_data fo))
        (filter (\<lambda>fo. prepare_fulfillment_lines_data fo \<noteq> []) fos) @ [])))"
    by (rule requests_bind [OF requests_one requests_bind [OF Cons.IH requests_lift]])
  then show ?case by (cases "?items = []") (simp_all add: plain_def)
qed

text \<open>The calls for the moves: an order is moved as a whole, or split first.\<close>

definition move_calls :: "int \<Rightarrow> fulfillment_order \<times> (int \<times> int) list \<Rightarrow> shop_call list \<Rightarrow> bool" where
  "move_calls location_id e new \<longleftrightarrow> (case e of (fo, items) \<Rightarrow>
     if set items = set (prepare_fulfillment_lines_data fo) then new = [MoveOrder (fo_id fo) location_id]
     else new = [SplitOrder (fo_id fo) items] \<or> (\<exists>i. new = [SplitOrder (fo_id fo) items, MoveOrder i location_id]))"

definition made :: "int \<Rightarrow> (fulfillment_order \<times> (int \<times> int) list) list \<Rightarrow> shop_call list \<Rightarrow> bool" where
  "made l P new \<longleftrightarrow> (\<exists>css. list_all2 (move_calls l) P css \<and> new = concat css)"

lemma made_one: "move_calls l e new \<Longrightarrow> made l [e] new"
  unfolding made_def by (intro exI [of _ "[new]"]) simp

lemma made_append: "made l P a \<Longrightarrow> made l P' b \<Longrightarrow> made l (P @ P') (a @ b)"
  unfolding made_def by (metis concat_append list_all2_appendI)

definition moves :: "int \<Rightarrow> (fulfillment_order \<times> (int \<times> int) list) list \<Rightarrow> shop_call list \<Rightarrow> bool result \<Rightarrow> bool" where
  "moves l P new r \<longleftrightarrow> shipped new = [] \<and> (\<forall>so. FetchOrders so \<notin> set new) \<and> (\<forall>b. r = Inr b \<longrightarrow> b = (P \<noteq> []) \<and> made l P new)"

lemma moves_none: "adds (io_lift (Inr False)) (moves l [])"
  by (rule adds_lift) (simp add: moves_def made_def)

lemma io_bind_return [simp]: "io_bind m (\<lambda>b. io_lift (Inr b)) = m"
  by (auto simp: io_bind_def io_lift_def fun_eq_iff split: prod.splits sum.splits)

lemma moves_one:
  assumes "fo_location fo \<noteq> l"
  shows "adds (if items = [] then io_lift (Inr False)
      else if lists_are_equal items (prepare_fulfillment_lines_data fo)
      then io_bind (move_order sh l fo) (\<lambda>_. io_lift (Inr True))
      else io_bind (split_order sh fo items) (\<lambda>new_order. io_bind (move_order sh l new_order) (\<lambda>_. io_lift (Inr True))))
    (moves l (if items = [] then [] else [(fo, items)]))"
proof -
  have m: "adds (move_order sh l fo') (\<lambda>new r. new \<in> (if fo_location fo' = l then {[]} else {[MoveOrder (fo_id fo') l]}))" for fo'
    by (auto simp: move_order_def intro: adds_lift adds_call)
  have a: "adds (io_bind (move_order sh l fo') (\<lambda>_. io_lift (Inr True)))
      (\<lambda>new r. new \<in> (if fo_location fo' = l then {[]} else {[MoveOrder (fo_id fo') l]}) \<and> r \<noteq> Inr False)" for fo'
    by (rule adds_bind [OF m, where Q = "\<lambda>_ new r. new = [] \<and> r = Inr True"]) (auto intro: adds_lift split: if_splits)
  have s: "adds (split_order sh fo items) (\<lambda>new r. new = [SplitOrder (fo_id fo) items])"
    unfolding split_order_def by (rule adds_call) simp
  have b: "adds (io_bind (split_order sh fo items) (\<lambda>new_order. io_bind (move_order sh l new_order) (\<lambda>_. io_lift (Inr True))))
      (\<lambda>new r. (new = [SplitOrder (fo_id fo) items] \<or> (\<exists>i. new = [SplitOrder (fo_id fo) items, MoveOrder i l])) \<and> r \<noteq> Inr False)"
    by (rule adds_bind [OF s a]) (auto split: if_splits)
  consider "items = []" | "items \<noteq> []" "lists_are_equal items (prepare_fulfillment_lines_data fo)"
    | "items \<noteq> []" "\<not> lists_are_equal items (prepare_fulfillment_lines_data fo)" by blast
  then show ?thesis
  proof cases
    case 1
    then show ?thesis by (simp add: moves_none)
  next
    case 2
    then have "move_calls l (fo, items) [MoveOrder (fo_id fo) l]"
      by (simp add: move_calls_def lists_are_equal_def)
    then have "adds (io_bind (move_order sh l fo) (\<lambda>_. io_lift (Inr True))) (moves l [(fo, items)])"
      using assms by (intro adds_mono [OF a]) (auto simp: moves_def intro: made_one)
    then show ?thesis using 2 by simp
  next
    case 3
    then have "move_calls l (fo, items) [SplitOrder (fo_id fo) items]"
      "move_calls l (fo, items) [SplitOrder (fo_id fo) items, MoveOrder i l]" for i
      by (simp_all add: move_calls_def lists_are_equal_def)
    then have "adds (io_bind (split_order sh fo items) (\<lambda>new_order. io_bind (move_order sh l new_order) (\<lambda>_. io_lift (Inr True))))
        (moves l [(fo, items)])"
      by (intro adds_mono [OF b]) (auto simp: moves_def intro: made_one)
    then show ?thesis using 3 by simp
  qed
qed

lemma moves_bind:
  assumes "adds m (moves l P)" and "\<And>b. adds (f b) (moves l P')"
  shows "adds (io_bind m (\<lambda>b. io_bind (f b) (\<lambda>b'. io_lift (Inr (b \<or> b'))))) (moves l (P @ P'))"
proof -
  have "adds (io_bind (f b) (\<lambda>b'. io_lift (Inr (b \<or> b'))))
      (\<lambda>new r. shipped new = [] \<and> (\<forall>so. FetchOrders so \<notin> set new) \<and>
        (\<forall>b''. r = Inr b'' \<longrightarrow> b'' = (b \<or> P' \<noteq> []) \<and> made l P' new))" for b
    by (rule adds_bind [OF assms(2), where Q = "\<lambda>b' new r. new = [] \<and> r = Inr (b \<or> b')"])
      (auto simp: moves_def intro: adds_lift)
  then show ?thesis
    by (rule adds_bind [OF assms(1)]) (auto simp: moves_def intro: made_append)
qed

lemma moves_loop:
  assumes "\<forall>fo\<in>set fos. fo_location fo \<noteq> l"
  shows "adds (move_lines sh l fos ls) (moves l (plan fos ls))"
  using assms
proof (induction fos arbitrary: ls)
  case Nil
  then show ?case by (simp add: moves_none)
next
  case (Cons fo fos)
  obtain ls' items where f: "fill_lines fo ls = (ls', items)" by fastforce
  have r: "rest_of fo ls = ls'" by (simp add: rest_of_def f)
  have one: "fo_location fo \<noteq> l" using Cons.prems by simp
  show ?case
  proof (cases "list_all (\<lambda>(_, q). q = 0) ls'")
    case True
    then show ?thesis using moves_one [OF one, of items sh]
      by (cases "items = []"; cases "lists_are_equal items (prepare_fulfillment_lines_data fo)") (simp_all add: f r plan_zero)
  next
    case False
    have "adds (move_lines sh l fos ls') (moves l (plan fos ls'))" using Cons by simp
    from moves_bind [OF moves_one [OF one, of items sh] this] show ?thesis using False
      by (cases "items = []"; cases "lists_are_equal items (prepare_fulfillment_lines_data fo)") (simp_all add: f r)
  qed
qed

end
