(* ===== verification/ShopifyOrder.thy ===== *)
theory ShopifyOrder
  imports ShopifyFulfillment
begin

text \<open>
  The order of Shopify as it is parsed for Odoo, \<open>integration_shopify/shopify/resources/order.py\<close>,
  \<open>line_item.py\<close> and \<open>delivery_method.py\<close>: the lines with the locations they are delivered from, the delivery
  method and the location of the order. Prices, taxes and discounts of a line are left out.
\<close>

section \<open>Lines and their locations\<close>

text \<open>A line of the order; the last field is \<open>current_quantity_tmp\<close>, if it is set.\<close>

record order_line =
  li_id :: int
  li_current :: "int option"
  li_tmp :: "int option"

definition current_quantity :: "order_line \<Rightarrow> int" where
  "current_quantity x = (case li_current x of None \<Rightarrow> 0 | Some n \<Rightarrow> n)"

definition current_quantity_tmp :: "order_line \<Rightarrow> int" where
  "current_quantity_tmp x = (case li_tmp x of None \<Rightarrow> current_quantity x | Some n \<Rightarrow> n)"

definition fo_total_equals_remaining :: "fulfillment_order \<Rightarrow> bool" where
  "fo_total_equals_remaining fo \<longleftrightarrow> list_all (\<lambda>x. total_quantity x = remaining_quantity x) (fo_lines fo)"

definition closed_before_fulfill :: "fo_status \<Rightarrow> fulfillment_order \<Rightarrow> bool" where
  "closed_before_fulfill s fo \<longleftrightarrow> s = FoClosed \<and> fo_total_equals_remaining fo"

text \<open>The lines that an order delivers or has delivered, with the location and the quantities asked for.\<close>

definition location_items :: "fo_status \<Rightarrow> fulfillment_order \<Rightarrow> (int \<times> int) list" where
  "location_items s fo =
     (let line_items = (if s = FoClosed then filter (\<lambda>x. remaining_quantity x = 0) (fo_lines fo) else fo_lines fo)
      in map (\<lambda>x. (fl_sale_line x, total_quantity x)) (filter (\<lambda>x. total_quantity x \<noteq> 0) line_items))"

fun group_lines_by_location :: "fulfillment_order list \<Rightarrow> (int \<times> (int \<times> int) list) list result" where
  "group_lines_by_location [] = Inr []"
| "group_lines_by_location (fo # fos) =
     rbind (fulfillment_order_status (fo_status fo)) (\<lambda>s.
     rbind (group_lines_by_location fos) (\<lambda>rest.
       Inr (if s = FoCancelled \<or> fo_lines fo = [] then rest
            else if closed_before_fulfill s fo then rest
            else if location_items s fo = [] then rest
            else (fo_location fo, location_items s fo) # rest)))"

record parsed_line =
  pn_id :: int
  pn_quantity :: int
  pn_location :: int

text \<open>The last line with an identifier, by its position.\<close>

definition get_order_line_by_id :: "int \<Rightarrow> order_line list \<Rightarrow> nat result" where
  "get_order_line_by_id line_id ls =
     (case filter (\<lambda>k. li_id (ls ! k) = line_id) [0..<length ls] of [] \<Rightarrow> Inl KeyError | ks \<Rightarrow> Inr (last ks))"

text \<open>The quantity of the fulfillment order is replaced by that of the line before it is used.\<close>

fun parse_location_items :: "int \<Rightarrow> (int \<times> int) list \<Rightarrow> order_line list \<Rightarrow> (parsed_line list \<times> order_line list) result" where
  "parse_location_items location_id [] ls = Inr ([], ls)"
| "parse_location_items location_id ((order_line_id, fulfillment_order_qty) # items) ls =
     rbind (get_order_line_by_id order_line_id ls) (\<lambda>k.
     let available_qty = current_quantity_tmp (ls ! k)
     in if available_qty \<le> 0 then parse_location_items location_id items ls
        else (let fulfillment_order_qty' = current_quantity_tmp (ls ! k);
                  requested_qty = (if available_qty \<ge> fulfillment_order_qty' then fulfillment_order_qty' else available_qty);
                  ls' = ls[k := (ls ! k)\<lparr>li_tmp := Some (available_qty - requested_qty)\<rparr>]
              in rbind (parse_location_items location_id items ls') (\<lambda>(result, ls'').
                 Inr (\<lparr>pn_id = order_line_id, pn_quantity = requested_qty, pn_location = location_id\<rparr> # result, ls''))))"

fun parse_locations ::
  "(int \<times> (int \<times> int) list) list \<Rightarrow> order_line list \<Rightarrow> (parsed_line list \<times> order_line list) result" where
  "parse_locations [] ls = Inr ([], ls)"
| "parse_locations ((location_id, items) # groups) ls =
     rbind (parse_location_items location_id items ls) (\<lambda>(result, ls').
     rbind (parse_locations groups ls') (\<lambda>(result', ls''). Inr (result @ result', ls'')))"

definition parse_lines :: "fulfillment_order list \<Rightarrow> order_line list \<Rightarrow> parsed_line list result" where
  "parse_lines fos ls =
     rbind (group_lines_by_location fos) (\<lambda>groups.
     rbind (parse_locations groups (map (\<lambda>x. x\<lparr>li_tmp := None\<rparr>) ls)) (\<lambda>(result, _). Inr result))"

definition order_location_id :: "fulfillment_order list \<Rightarrow> string option" where
  "order_location_id fos = (case fos of [fo] \<Rightarrow> Some (show_int (fo_location fo)) | _ \<Rightarrow> None)"

section \<open>Delivery methods\<close>

datatype method_type = Local | NoDelivery | PickUp | PickupPoint | Retail | Shipping

definition delivery_method_type :: "string option \<Rightarrow> method_type result" where
  "delivery_method_type v =
     (if v = Some ''LOCAL'' then Inr Local else if v = Some ''NONE'' then Inr NoDelivery
      else if v = Some ''PICK_UP'' then Inr PickUp else if v = Some ''PICKUP_POINT'' then Inr PickupPoint
      else if v = Some ''RETAIL'' then Inr Retail else if v = Some ''SHIPPING'' then Inr Shipping else Inl ValueError)"

definition has_text :: "string option \<Rightarrow> bool" where
  "has_text v \<longleftrightarrow> v \<noteq> None \<and> v \<noteq> Some []"

definition dm_code :: "delivery_method \<Rightarrow> string option" where
  "dm_code m = dm_service_code m"

definition dm_name :: "delivery_method \<Rightarrow> string option" where
  "dm_name m = (if has_text (dm_presented_name m) then dm_presented_name m else dm_code m)"

definition no_method :: delivery_method where
  "no_method = \<lparr>dm_id = 0, dm_presented_name = None, dm_service_code = None, dm_type = None\<rparr>"

definition dm_method_type :: "delivery_method \<Rightarrow> method_type result" where
  "dm_method_type m = (if dm_id m = 0 then Inl ValueError else delivery_method_type (dm_type m))"

definition is_valid_method :: "delivery_method \<Rightarrow> bool result" where
  "is_valid_method m = rbind (dm_method_type m) (\<lambda>t. Inr (t \<noteq> NoDelivery \<and> has_text (dm_name m) \<and> has_text (dm_code m)))"

text \<open>The code and the title of the shipping line of the order are given. No method is \<open>None\<close>.\<close>

definition order_delivery_method ::
  "fulfillment_order list \<Rightarrow> string option \<Rightarrow> string option \<Rightarrow> delivery_method option result" where
  "order_delivery_method fos shipping_code shipping_name =
     (if fos = [] then Inr None
      else rbind (map_results (\<lambda>m. rbind (is_valid_method m) (\<lambda>valid. Inr (valid, m)))
                   (map (\<lambda>fo. case fo_delivery fo of None \<Rightarrow> no_method | Some m \<Rightarrow> m) fos)) (\<lambda>keyed.
        let sorted = sort_key (\<lambda>(valid, _). if valid then 0 else 1 :: nat) keyed;
            methods = map snd sorted
        in if list_all (\<lambda>m. dm_id m = 0) methods \<or> list_all (\<lambda>(valid, _). \<not> valid) sorted then Inr None
           else if length methods = 1 then Inr (Some (hd methods))
           else if card (set (map dm_code methods)) = 1 then Inr (Some (hd methods))
           else if card (set (map dm_name methods)) = 1 then Inr (Some (hd methods))
           else if \<not> has_text shipping_code \<and> \<not> has_text shipping_name then Inr (Some (hd methods))
           else (case find (\<lambda>m. dm_code m = shipping_code) methods of
                   Some m \<Rightarrow> Inr (Some m)
                 | None \<Rightarrow>
                     if has_text shipping_name
                     then (case find (\<lambda>m. dm_name m = shipping_name) methods of
                             Some m \<Rightarrow> Inr (Some m)
                           | None \<Rightarrow> Inl ValidationError)
                     else Inl ValidationError)))"

end
