(* ===== verification/ShopifyTools.thy ===== *)
theory ShopifyTools
  imports PyValue
begin

text \<open>
  The tools of the Shopify add-on on identifiers and answers: \<open>integration_shopify/tools.py\<close>, and the identifiers of
  \<open>shopify/resources/base.py\<close>. The digits are those of the characters below 256.
\<close>

section \<open>Identifiers\<close>

definition is_digit :: "char \<Rightarrow> bool" where
  "is_digit c \<longleftrightarrow> digit_val c \<noteq> None"

text \<open>The runs of digits in a text, from left to right.\<close>

function digit_runs :: "string \<Rightarrow> string list" where
  "digit_runs s =
     (case dropWhile (\<lambda>c. \<not> is_digit c) s of
        [] \<Rightarrow> []
      | c # rest \<Rightarrow> (c # takeWhile is_digit rest) # digit_runs (dropWhile is_digit rest))"
  by pat_completeness auto
termination
proof (relation "measure length")
  fix s rest :: string and c
  assume "dropWhile (\<lambda>c. \<not> is_digit c) s = c # rest"
  then have "length (c # rest) \<le> length s" by (metis length_dropWhile_le)
  moreover have "length (dropWhile is_digit rest) \<le> length rest" by (rule length_dropWhile_le)
  ultimately show "(dropWhile is_digit rest, s) \<in> measure length" by simp
qed simp

declare digit_runs.simps [simp del]

definition parse_int :: "pyval \<Rightarrow> nat \<Rightarrow> int" where
  "parse_int v index =
     (case v of
        PStr s \<Rightarrow>
          if s = [] then 0
          else if index < length (digit_runs s)
          then (case py_int (digit_runs s ! index) of None \<Rightarrow> 0 | Some n \<Rightarrow> n)
          else 0
      | _ \<Rightarrow> 0)"

definition parse_int_to_str :: "pyval \<Rightarrow> nat \<Rightarrow> string" where
  "parse_int_to_str v index = (if parse_int v index \<noteq> 0 then show_int (parse_int v index) else [])"

text \<open>\<open>graphql_id.rsplit('/', 1)[-1]\<close>.\<close>

definition parse_graphql_id :: "string \<Rightarrow> string" where
  "parse_graphql_id s = rev (takeWhile (\<lambda>c. c \<noteq> CHR ''/'') (rev s))"

definition gid_text :: "string \<Rightarrow> string \<Rightarrow> string" where
  "gid_text gid_name n = ''gid://shopify/'' @ gid_name @ ''/'' @ n"

definition create_gid :: "string \<Rightarrow> pyval \<Rightarrow> string result" where
  "create_gid gid_name value =
     (case (case value of PStr s \<Rightarrow> PInt (parse_int value 0) | _ \<Rightarrow> value) of
        PInt n \<Rightarrow> if n = 0 then Inl ValueError else Inr (gid_text gid_name (show_int n))
      | PBool True \<Rightarrow> Inr (gid_text gid_name ''True'')
      | _ \<Rightarrow> Inl ValueError)"

section \<open>Answers of the shop\<close>

text \<open>The elements of a value in a loop.\<close>

definition py_elements :: "pyval \<Rightarrow> pyval list result" where
  "py_elements v =
     (case v of
        PList xs \<Rightarrow> Inr xs
      | PTuple xs \<Rightarrow> Inr xs
      | PStr s \<Rightarrow> Inr (map (\<lambda>c. PStr [c]) s)
      | PDict kvs \<Rightarrow> Inr (map (PStr \<circ> fst) kvs)
      | PRecords r \<Rightarrow> Inr (map (\<lambda>i. PRecords (r\<lparr>rs_ids := [i]\<rparr>)) (rs_ids r))
      | _ \<Rightarrow> Inl TypeError)"

lemma size_map_of [termination_simp]:
  "map_of kvs k = Some v \<Longrightarrow> size v < Suc (size_list (size_prod (\<lambda>_. 0) size) kvs)"
  by (induction kvs) (auto split: if_splits)

text \<open>A connection is replaced by the list of its nodes.\<close>

function (sequential) parse_gql_json :: "pyval \<Rightarrow> pyval result"
  and parse_gql_list :: "pyval list \<Rightarrow> pyval list result"
  and parse_gql_fields :: "fields \<Rightarrow> fields result" where
  "parse_gql_json (PList xs) = rbind (parse_gql_list xs) (\<lambda>ys. Inr (PList ys))"
| "parse_gql_json (PDict kvs) =
     (case map_of kvs ''edges'' of
        Some (PList xs) \<Rightarrow> rbind (parse_gql_list xs) (\<lambda>ys. Inr (PList ys))
      | Some (PTuple xs) \<Rightarrow> rbind (parse_gql_list xs) (\<lambda>ys. Inr (PList ys))
      | Some v \<Rightarrow> rbind (py_elements v) (\<lambda>xs. Inr (PList xs))
      | None \<Rightarrow>
     (case map_of kvs ''nodes'' of
        Some (PList xs) \<Rightarrow> rbind (parse_gql_list xs) (\<lambda>ys. Inr (PList ys))
      | Some (PTuple xs) \<Rightarrow> rbind (parse_gql_list xs) (\<lambda>ys. Inr (PList ys))
      | Some v \<Rightarrow> rbind (py_elements v) (\<lambda>xs. Inr (PList xs))
      | None \<Rightarrow>
     (case map_of kvs ''node'' of
        Some v \<Rightarrow> parse_gql_json v
      | None \<Rightarrow> rbind (parse_gql_fields kvs) (\<lambda>kvs'. Inr (PDict kvs')))))"
| "parse_gql_json v = Inr v"
| "parse_gql_list [] = Inr []"
| "parse_gql_list (x # xs) = rbind (parse_gql_json x) (\<lambda>y. rbind (parse_gql_list xs) (\<lambda>ys. Inr (y # ys)))"
| "parse_gql_fields [] = Inr []"
| "parse_gql_fields ((k, v) # kvs) =
     rbind (parse_gql_json v) (\<lambda>w. rbind (parse_gql_fields kvs) (\<lambda>kvs'. Inr ((k, w) # kvs')))"
  by pat_completeness auto
termination
  by (relation "measure (case_sum size (case_sum (size_list size) (size_list (size_prod (\<lambda>_. 0) size))))")
    (auto dest: size_map_of)

text \<open>A value without connections, below tuples and other values that are not looked into.\<close>

fun no_connection :: "pyval \<Rightarrow> bool" where
  "no_connection (PList xs) = (\<forall>x\<in>set xs. no_connection x)"
| "no_connection (PDict kvs) =
     (map_of kvs ''edges'' = None \<and> map_of kvs ''nodes'' = None \<and> map_of kvs ''node'' = None \<and>
      (\<forall>e\<in>set kvs. no_connection (snd e)))"
| "no_connection v = True"

section \<open>Access\<close>

definition check_scope :: "string list \<Rightarrow> string list \<Rightarrow> unit result" where
  "check_scope access_scopes scopes = (if list_all (\<lambda>s. s \<in> set access_scopes) scopes then Inr () else Inl ValidationError)"

end
