(* ===== verification/ShopifyOrderFacts.thy ===== *)
theory ShopifyOrderFacts
  imports ShopifyOrder ShopifyTools
begin

text \<open>
  The lemmas on parsed orders: the lines that are taken from the fulfillment orders, and the answers of the shop
  without connections.
\<close>

section \<open>Lines\<close>

definition quantity_of :: "order_line list \<Rightarrow> int \<Rightarrow> int" where
  "quantity_of ls i = (case find (\<lambda>x. li_id x = i) ls of None \<Rightarrow> 0 | Some x \<Rightarrow> current_quantity_tmp x)"

fun picks :: "(int \<Rightarrow> int) \<Rightarrow> (int \<times> int) list \<Rightarrow> parsed_line list" where
  "picks q [] = []"
| "picks q ((i, loc) # ms) =
     (if 0 < q i then \<lparr>pn_id = i, pn_quantity = q i, pn_location = loc\<rparr> # picks (\<lambda>j. if j = i then 0 else q j) ms else picks q ms)"

lemma picks_append:
  "picks q (ms @ ms') = picks q ms @ picks (\<lambda>i. if i \<in> fst ` set ms \<and> 0 < q i then 0 else q i) ms'"
proof (induction q ms rule: picks.induct)
  case (2 q i loc ms)
  let ?q = "\<lambda>j. if j = i then 0 else q j"
  have "(\<lambda>j. if j \<in> fst ` set ms \<and> 0 < ?q j then 0 else ?q j) =
      (\<lambda>j. if j \<in> fst ` set ((i, loc) # ms) \<and> 0 < q j then 0 else q j)" if "0 < q i"
    using that by auto
  moreover have "(\<lambda>j. if j \<in> fst ` set ms \<and> 0 < q j then 0 else q j) =
      (\<lambda>j. if j \<in> fst ` set ((i, loc) # ms) \<and> 0 < q j then 0 else q j)" if "\<not> 0 < q i"
    using that by auto
  ultimately show ?case using 2 by (cases "0 < q i") simp_all
qed simp

lemma picks_set:
  "r \<in> set (picks q ms) \<longleftrightarrow> 0 < q (pn_id r) \<and> pn_quantity r = q (pn_id r) \<and>
     (\<exists>pre post. ms = pre @ (pn_id r, pn_location r) # post \<and> pn_id r \<notin> fst ` set pre)"
proof (induction q ms rule: picks.induct)
  case (2 q i loc ms)
  have c: "(\<exists>pre post. (i, loc) # ms = pre @ (pn_id r, pn_location r) # post \<and> pn_id r \<notin> fst ` set pre) \<longleftrightarrow>
      (if pn_id r = i then pn_location r = loc
       else \<exists>pre post. ms = pre @ (pn_id r, pn_location r) # post \<and> pn_id r \<notin> fst ` set pre)" (is "?l \<longleftrightarrow> ?r")
  proof
    assume ?l
    then obtain pre post where p: "(i, loc) # ms = pre @ (pn_id r, pn_location r) # post" "pn_id r \<notin> fst ` set pre" by blast
    then show ?r by (cases pre) auto
  next
    assume r: ?r
    show ?l
    proof (cases "pn_id r = i")
      case True
      then show ?thesis using r by (intro exI [of _ "[]"] exI [of _ ms]) simp
    next
      case False
      then obtain pre post where "ms = pre @ (pn_id r, pn_location r) # post" "pn_id r \<notin> fst ` set pre" using r by auto
      then show ?thesis using False by (intro exI [of _ "(i, loc) # pre"] exI [of _ post]) simp
    qed
  qed
  show ?case
  proof (cases "0 < q i")
    case True
    have "r = \<lparr>pn_id = i, pn_quantity = q i, pn_location = loc\<rparr> \<longleftrightarrow> pn_id r = i \<and> pn_quantity r = q i \<and> pn_location r = loc"
      by (cases r) auto
    then show ?thesis using 2(1) [OF True] True unfolding c by auto
  next
    case False
    then show ?thesis using 2(2) [OF False] unfolding c by auto
  qed
qed simp

lemma picks_distinct: "distinct (map pn_id (picks q ms))"
proof (induction q ms rule: picks.induct)
  case (2 q i loc ms)
  have "pn_id r \<noteq> i" if "r \<in> set (picks (\<lambda>j. if j = i then 0 else q j) ms)" for r using that by (auto simp: picks_set)
  then show ?case using 2 by auto
qed simp

lemma same_line: "distinct (map li_id ls) \<Longrightarrow> n < length ls \<Longrightarrow> k < length ls \<Longrightarrow> li_id (ls ! n) = li_id (ls ! k) \<Longrightarrow> n = k"
  using nth_eq_iff_index_eq [of "map li_id ls" n k] by simp

lemma quantity_of_nth:
  assumes "distinct (map li_id ls)" and "k < length ls"
  shows "quantity_of ls (li_id (ls ! k)) = current_quantity_tmp (ls ! k)"
proof -
  have "li_id (ls ! j) \<noteq> li_id (ls ! k)" if "j < k" for j
    using same_line [OF assms(1), of j k] assms(2) that by auto
  then have "find (\<lambda>x. li_id x = li_id (ls ! k)) ls = Some (ls ! k)"
    unfolding find_Some_iff using assms(2) by (intro exI [of _ k]) simp
  then show ?thesis by (simp add: quantity_of_def)
qed

lemma get_line_ok:
  assumes "distinct (map li_id ls)" and "i \<in> li_id ` set ls"
  shows "\<exists>k<length ls. get_order_line_by_id i ls = Inr k \<and> li_id (ls ! k) = i"
proof -
  let ?ks = "filter (\<lambda>k. li_id (ls ! k) = i) [0..<length ls]"
  have "?ks \<noteq> []" using assms(2) by (fastforce simp: filter_empty_conv in_set_conv_nth)
  then have "last ?ks \<in> set ?ks" by (rule last_in_set)
  then show ?thesis using \<open>?ks \<noteq> []\<close> by (auto simp: get_order_line_by_id_def split: list.splits)
qed

lemma parse_items_picks:
  assumes "distinct (map li_id ls)" and "fst ` set items \<subseteq> li_id ` set ls"
  shows "\<exists>ls'. parse_location_items loc items ls = Inr (picks (quantity_of ls) (map (\<lambda>(i, _). (i, loc)) items), ls') \<and>
    map li_id ls' = map li_id ls \<and> quantity_of ls' = (\<lambda>i. if i \<in> fst ` set items \<and> 0 < quantity_of ls i then 0 else quantity_of ls i)"
  using assms
proof (induction loc items ls rule: parse_location_items.induct)
  case (2 loc i fq items ls)
  obtain k where k: "k < length ls" "get_order_line_by_id i ls = Inr k" "li_id (ls ! k) = i"
    using get_line_ok [OF 2(3), of i] 2(4) by auto
  have q: "current_quantity_tmp (ls ! k) = quantity_of ls i" using quantity_of_nth [OF 2(3) k(1)] k(3) by simp
  show ?case
  proof (cases "0 < quantity_of ls i")
    case True
    let ?ls = "ls[k := (ls ! k)\<lparr>li_tmp := Some 0\<rparr>]"
    have m: "map li_id ?ls = map li_id ls" using k(1) by (simp add: map_update list_update_same_conv)
    have e: "quantity_of ?ls = (\<lambda>j. if j = i then 0 else quantity_of ls j)"
    proof
      fix j
      show "quantity_of ?ls j = ((\<lambda>j. if j = i then 0 else quantity_of ls j)) j"
      proof (cases "\<exists>n<length ls. li_id (ls ! n) = j")
        case True
        then obtain n where n: "n < length ls" "li_id (ls ! n) = j" by blast
        have "quantity_of ?ls (li_id (?ls ! n)) = current_quantity_tmp (?ls ! n)"
          using 2(3) n(1) by (intro quantity_of_nth) (simp_all only: m length_list_update)
        moreover have "li_id (?ls ! n) = j" using n k by (cases "n = k") simp_all
        moreover have "n = k \<longleftrightarrow> j = i" using same_line [OF 2(3) n(1) k(1)] n k by auto
        ultimately show ?thesis using n k quantity_of_nth [OF 2(3) n(1)]
          by (cases "n = k") (auto simp: current_quantity_tmp_def)
      next
        case False
        then have "find (\<lambda>x. li_id x = j) ls = None" "find (\<lambda>x. li_id x = j) ?ls = None"
          using k by (auto simp: find_None_iff in_set_conv_nth nth_list_update split: if_splits)
        then show ?thesis using False k by (auto simp: quantity_of_def)
      qed
    qed
    have "\<exists>ls'. parse_location_items loc items ?ls = Inr (picks (quantity_of ?ls) (map (\<lambda>(i, _). (i, loc)) items), ls') \<and>
        map li_id ls' = map li_id ?ls \<and>
        quantity_of ls' = (\<lambda>i. if i \<in> fst ` set items \<and> 0 < quantity_of ?ls i then 0 else quantity_of ?ls i)"
    proof -
      have "set (map li_id ?ls) = li_id ` set ls" unfolding m by simp
      then have "fst ` set items \<subseteq> li_id ` set ?ls" using 2(4) by auto
      then show ?thesis using 2(2) [OF k(2) refl _ refl refl refl] True q 2(3) m by (simp cong: if_cong)
    qed
    then obtain ls' where ls': "parse_location_items loc items ?ls = Inr (picks ((\<lambda>j. if j = i then 0 else quantity_of ls j)) (map (\<lambda>(i, _). (i, loc)) items), ls')"
      "map li_id ls' = map li_id ls"
      "quantity_of ls' = (\<lambda>j. if j \<in> fst ` set items \<and> 0 < ((\<lambda>j. if j = i then 0 else quantity_of ls j)) j then 0 else ((\<lambda>j. if j = i then 0 else quantity_of ls j)) j)"
      unfolding e m by blast
    show ?thesis using k(2) q True ls'(1,2) unfolding ls'(3) by (auto simp: fun_eq_iff ls'(3))
  next
    case False
    then obtain ls' where "parse_location_items loc items ls = Inr (picks (quantity_of ls) (map (\<lambda>(i, _). (i, loc)) items), ls')"
      "map li_id ls' = map li_id ls"
      "quantity_of ls' = (\<lambda>i. if i \<in> fst ` set items \<and> 0 < quantity_of ls i then 0 else quantity_of ls i)"
      using 2(1) [OF k(2) refl] q 2(3,4) by auto
    then show ?thesis using k(2) q False by (auto simp: fun_eq_iff)
  qed
qed (auto simp: fun_eq_iff)

definition mentions :: "(int \<times> (int \<times> int) list) list \<Rightarrow> (int \<times> int) list" where
  "mentions groups = concat (map (\<lambda>(loc, items). map (\<lambda>(i, _). (i, loc)) items) groups)"

lemma parse_locations_picks:
  assumes "distinct (map li_id ls)" and "fst ` set (mentions groups) \<subseteq> li_id ` set ls"
  shows "\<exists>ls'. parse_locations groups ls = Inr (picks (quantity_of ls) (mentions groups), ls')"
  using assms
proof (induction groups ls rule: parse_locations.induct)
  case (2 loc items groups ls)
  have s: "fst ` set items \<subseteq> li_id ` set ls" "fst ` set (mentions groups) \<subseteq> li_id ` set ls"
    using 2(3) by (force simp: mentions_def)+
  obtain ls' where ls': "parse_location_items loc items ls = Inr (picks (quantity_of ls) (map (\<lambda>(i, _). (i, loc)) items), ls')"
    "map li_id ls' = map li_id ls"
    "quantity_of ls' = (\<lambda>i. if i \<in> fst ` set items \<and> 0 < quantity_of ls i then 0 else quantity_of ls i)"
    using parse_items_picks [OF 2(2) s(1)] by blast
  have "li_id ` set ls' = li_id ` set ls" using arg_cong [OF ls'(2), of set] by simp
  then obtain ls'' where "parse_locations groups ls' = Inr (picks (quantity_of ls') (mentions groups), ls'')"
    using 2(1) [OF ls'(1) refl] 2(2) s(2) ls'(2) by auto
  moreover have "fst ` set (map (\<lambda>(i, _). (i, loc)) items) = fst ` set items" by force
  ultimately show ?case using ls'(1) by (simp add: mentions_def picks_append ls'(3))
qed (simp add: mentions_def)

end
