(* ===== verification/ShopifyProperties.thy ===== *)
theory ShopifyProperties
  imports ShopifyFacts ShopifyOrderFacts IntegrationProperties
begin

text \<open>
  The properties of the deliveries that are sent to Shopify, of the orders that are read from it, and of
  identifiers and answers.
\<close>

section \<open>Sending a picking\<close>

lemma io_bind_Inr:
  "io_bind m f calls = (Inr y, calls') \<longleftrightarrow> (\<exists>x calls1. m calls = (Inr x, calls1) \<and> f x calls1 = (Inr y, calls'))"
  by (auto simp: io_bind_def split: prod.splits sum.splits)

lemma io_lift_eq [simp]: "io_lift r calls = (r', calls') \<longleftrightarrow> r' = r \<and> calls' = calls"
  by (auto simp: io_lift_def)

lemma fetch_Inr:
  "get_fulfillment_orders sh so calls = (Inr fos, calls') \<longleftrightarrow> calls' = calls @ [FetchOrders so] \<and>
     (\<exists>fos0. ask_orders sh calls' = Inr fos0 \<and> keep_open fos0 = Inr fos)"
  by (auto simp: get_fulfillment_orders_def io_bind_Inr call_shop_def)

lemma keep_open_set: "keep_open fos0 = Inr fos \<Longrightarrow> set fos \<subseteq> set fos0"
  by (induction fos0 arbitrary: fos) (auto simp: rbind_eq_Inr split: if_splits)

text \<open>The orders at a location come first.\<close>

definition at_first :: "int \<Rightarrow> fulfillment_order list \<Rightarrow> fulfillment_order list" where
  "at_first loc fos = filter (\<lambda>fo. fo_location fo = loc) fos @ filter (\<lambda>fo. fo_location fo \<noteq> loc) fos"

lemma sort_location: "sort_key (\<lambda>fo. if fo_location fo = loc then 0 else 1 :: nat) fos = at_first loc fos"
  by (simp add: sort_key_test at_first_def)

lemma matching_lines_zero: "matching_lines ls fo = 0"
proof -
  have "set (map (\<lambda>x. PStr (show_int (fl_sale_line x))) (filter (\<lambda>x. remaining_quantity x \<noteq> 0) (fo_lines fo))) \<inter>
      set (map (\<lambda>(l, _). PInt l) ls) = {}" by auto
  then show ?thesis unfolding matching_lines_def by simp
qed

text \<open>The requests for the orders in a sequence.\<close>

definition greedy_requests :: "fulfillment_order list \<Rightarrow> (int \<times> int) list \<Rightarrow> (int \<times> (int \<times> int) list) list" where
  "greedy_requests fos ls =
     map (\<lambda>i. (fo_id (fos ! i), greedy_items fos ls i)) (filter (\<lambda>i. greedy_items fos ls i \<noteq> []) [0..<length fos])"

lemma plain_plan: "\<forall>fo\<in>set fos. no_debts fo \<Longrightarrow> plain (plan fos ls) = greedy_requests fos ls"
  by (simp add: plain_def plan_eq greedy_requests_def)

lemma fulfill_orders_requests:
  assumes "fulfill_orders sh td False ls fos calls = (r, calls')" and "\<forall>fo\<in>set fos. no_debts fo"
  shows "\<exists>new. calls' = calls @ new \<and> requests (greedy_requests fos ls) new r"
  using addsD [OF requests_loop assms(1)] by (simp add: plain_plan [OF assms(2)])

lemma fulfill_orders_no_fetch:
  "fulfill_orders sh td force ls fos calls = (r, calls') \<Longrightarrow> \<exists>new. calls' = calls @ new \<and> (\<forall>so. FetchOrders so \<notin> set new)"
  using addsD [OF requests_loop, of sh td ls fos calls] addsD [OF requests_forced, of sh td ls fos calls]
  by (cases force) (fastforce simp: requests_def)+

text \<open>What is requested of an order for a line of the sale.\<close>

definition given :: "fulfillment_order list \<Rightarrow> (int \<times> int) list \<Rightarrow> nat \<Rightarrow> int \<Rightarrow> int" where
  "given fos ls i l = (\<Sum>(g, n)\<leftarrow>greedy_items fos ls i. if g = line_of (fos ! i) l then n else 0)"

lemma line_of_inj:
  assumes "distinct (map fl_id (fo_lines fo))" and "avail fo l \<noteq> 0" and "avail fo l' \<noteq> 0" and "line_of fo l = line_of fo l'"
  shows "l = l'"
proof -
  obtain x x' where x: "get_fulfillment_line l fo = Some x" "get_fulfillment_line l' fo = Some x'"
    using assms(2,3) by (auto simp: avail_def split: option.splits)
  then have "fl_id x = fl_id x'" using assms(4) by (simp add: line_of_def)
  then have "x = x'" using assms(1) x [THEN get_line_SomeD] by (auto simp: distinct_map inj_on_def)
  then show ?thesis using x [THEN get_line_SomeD] by auto
qed

text \<open>Records that were read have identifiers; those of the lines of an order differ.\<close>

definition lines_ok :: "fulfillment_order \<Rightarrow> bool" where
  "lines_ok fo \<longleftrightarrow> distinct (map fl_id (fo_lines fo)) \<and> (\<forall>x\<in>set (fo_lines fo). fl_id x \<noteq> 0 \<and> 0 \<le> remaining_quantity x)"

lemma lines_ok_no_debts: "lines_ok fo \<Longrightarrow> no_debts fo"
  by (simp add: lines_ok_def no_debts_def)

lemma line_of_eq:
  assumes "lines_ok fo" and "avail fo k \<noteq> 0" and "line_of fo k = line_of fo l"
  shows "k = l"
proof (cases "avail fo l = 0")
  case True
  then have "line_of fo l = 0" by (auto simp: avail_def line_of_def dest: get_line_SomeD split: option.splits)
  moreover obtain x where "get_fulfillment_line k fo = Some x" using assms(2) by (auto simp: avail_def split: option.splits)
  ultimately show ?thesis using assms(1,3) by (auto simp: line_of_def lines_ok_def dest!: get_line_SomeD)
next
  case False
  then show ?thesis using line_of_inj assms by (auto simp: lines_ok_def)
qed

lemma sum_list_one_key:
  "distinct (map fst ls) \<Longrightarrow> (l, q) \<in> set ls \<Longrightarrow> (\<Sum>(k, p)\<leftarrow>ls. if k = l then f k p else 0) = (f l q :: int)"
proof (induction ls)
  case (Cons e ls)
  have "(\<Sum>(k, p)\<leftarrow>ls. if k = l then f k p else 0) = 0" if "l \<notin> fst ` set ls"
    using that by (induction ls) auto
  then show ?case using Cons by (cases e) (force simp: rev_image_eqI)
qed simp

lemma given_eq:
  assumes "distinct (map fst ls)" and "(l, q) \<in> set ls" and "lines_ok (fos ! i)"
  shows "given fos ls i l = max 0 (min (avail (fos ! i) l) (q - (\<Sum>fo\<leftarrow>take i fos. avail fo l)))"
proof -
  let ?n = "\<lambda>l q. min (avail (fos ! i) l) (q - (\<Sum>fo\<leftarrow>take i fos. avail fo l))"
  have "given fos ls i l = (\<Sum>(k, p)\<leftarrow>ls. if 0 < ?n k p \<and> line_of (fos ! i) k = line_of (fos ! i) l then ?n k p else 0)"
    unfolding given_def greedy_items_def by (induction ls) (auto simp: case_prod_beta)
  also have "\<dots> = (\<Sum>(k, p)\<leftarrow>ls. if k = l then max 0 (?n k p) else 0)"
  proof (rule arg_cong [where f = sum_list], rule map_cong [OF refl])
    fix e
    show "(case e of (k, p) \<Rightarrow> if 0 < ?n k p \<and> line_of (fos ! i) k = line_of (fos ! i) l then ?n k p else 0) =
        (case e of (k, p) \<Rightarrow> if k = l then max 0 (?n k p) else 0)"
      using line_of_eq [OF assms(3), of "fst e" l] by (cases e) auto
  qed
  also have "\<dots> = max 0 (?n l q)" by (rule sum_list_one_key [OF assms(1,2)])
  finally show ?thesis .
qed

lemma given_total:
  assumes "distinct (map fst ls)" and "(l, q) \<in> set ls" and "\<forall>fo\<in>set fos. lines_ok fo"
  shows "(\<Sum>i<length fos. given fos ls i l) = min (max 0 q) (\<Sum>fo\<leftarrow>fos. avail fo l)"
proof -
  have n: "\<forall>fo\<in>set fos. 0 \<le> avail fo l" using assms(3) by (auto intro: avail_nonneg lines_ok_no_debts)
  have "(\<Sum>i<length fos. given fos ls i l) = (\<Sum>i<length fos. max 0 (min (avail (fos ! i) l) (q - (\<Sum>fo\<leftarrow>take i fos. avail fo l))))"
    using assms by (intro sum.cong refl given_eq) auto
  also have "\<dots> = (\<Sum>i<length fos. max 0 (min (avail (fos ! i) l) (max 0 q - (\<Sum>fo\<leftarrow>take i fos. avail fo l))))"
  proof (rule sum.cong [OF refl])
    fix i
    have "0 \<le> (\<Sum>fo\<leftarrow>take i fos. avail fo l)" using n by (auto intro!: sum_list_nonneg dest!: in_set_takeD)
    then show "max 0 (min (avail (fos ! i) l) (q - (\<Sum>fo\<leftarrow>take i fos. avail fo l))) =
        max 0 (min (avail (fos ! i) l) (max 0 q - (\<Sum>fo\<leftarrow>take i fos. avail fo l)))" by auto
  qed
  also have "\<dots> = min (max 0 q) (\<Sum>fo\<leftarrow>fos. avail fo l)" by (rule greedy_total [OF n]) simp
  finally show ?thesis .
qed

text \<open>The course of a call that succeeds: the orders are read, moved if the location lacks something, and then
  fulfilled.\<close>

definition lacking :: "int \<Rightarrow> fulfillment_order list \<Rightarrow> (int \<times> int) list \<Rightarrow> (int \<times> int) list" where
  "lacking loc fos ls = filter (\<lambda>(_, q). q \<noteq> 0) (cover_lines (filter (\<lambda>fo. fo_location fo = loc) fos) ls)"

definition move_plan :: "int \<Rightarrow> fulfillment_order list \<Rightarrow> (int \<times> int) list \<Rightarrow> (fulfillment_order \<times> (int \<times> int) list) list" where
  "move_plan loc fos ls = plan (filter (\<lambda>fo. fo_location fo \<noteq> loc) fos) (lacking loc fos ls)"

lemma prepare_moves: "adds (prepare_fulfillment_orders sh loc fos ls) (moves loc (move_plan loc fos ls))"
proof (cases "lacking loc fos ls = []")
  case True
  have "move_plan loc fos ls = []" unfolding move_plan_def True by (rule plan_zero) simp
  then show ?thesis using True by (simp add: prepare_fulfillment_orders_def Let_def lacking_def moves_none)
next
  case False
  have "adds (move_lines sh loc (filter (\<lambda>fo. fo_location fo \<noteq> loc) fos) (lacking loc fos ls)) (moves loc (move_plan loc fos ls))"
    unfolding move_plan_def by (rule moves_loop) simp
  then show ?thesis using False
    by (simp add: prepare_fulfillment_orders_def Let_def lacking_def matching_lines_zero sort_key_const)
qed

lemma send_picking_course:
  assumes "send_picking sh so td force [] = (Inr x, calls)" and "location_int (td_location td) = Inr loc"
    and "int_lines (pd_lines (td_data td)) = Inr ls" and "loc \<noteq> 0"
  shows "\<exists>fos0 fos moving fos1 fos2 last fs.
    ask_orders sh [FetchOrders so] = Inr fos0 \<and> keep_open fos0 = Inr fos \<and> made loc (move_plan loc fos ls) moving \<and>
    shipped moving = [] \<and> (\<forall>so. FetchOrders so \<notin> set moving) \<and>
    (if move_plan loc fos ls = [] then fos2 = fos \<and> last = [] \<and> moving = []
     else last = [FetchOrders so] \<and> ask_orders sh (FetchOrders so # moving @ last) = Inr fos1 \<and> keep_open fos1 = Inr fos2) \<and>
    fulfill_orders sh td force ls (at_first loc fos2) (FetchOrders so # moving @ last) = (Inr fs, calls)"
proof -
  let ?c = "[FetchOrders so]"
  obtain fos0 fos moved calls1 fos2 calls2 fs where f: "ask_orders sh ?c = Inr fos0" "keep_open fos0 = Inr fos"
    and p: "prepare_fulfillment_orders sh loc fos ls ?c = (Inr moved, calls1)"
    and g: "(if moved then get_fulfillment_orders sh so else io_lift (Inr fos)) calls1 = (Inr fos2, calls2)"
    and l: "fulfill_orders sh td force ls (at_first loc fos2) calls2 = (Inr fs, calls)"
    using assms by (auto simp: send_picking_def io_bind_Inr fetch_Inr sort_location)
  obtain moving where m: "calls1 = ?c @ moving" "moves loc (move_plan loc fos ls) moving (Inr moved)"
    using addsD [OF prepare_moves p] by blast
  then have mv: "moved = (move_plan loc fos ls \<noteq> [])" "made loc (move_plan loc fos ls) moving" "shipped moving = []"
    "\<forall>so. FetchOrders so \<notin> set moving" by (auto simp: moves_def)
  show ?thesis
  proof (cases "move_plan loc fos ls = []")
    case True
    then have "moving = []" using mv(2) by (simp add: made_def)
    then show ?thesis using f g l m mv True
      by (intro exI [of _ fos0] exI [of _ fos] exI [of _ moving] exI [of _ fos0] exI [of _ fos2] exI [of _ "[]"] exI [of _ fs]) auto
  next
    case False
    then obtain fos1 where "calls2 = ?c @ moving @ ?c" "ask_orders sh calls2 = Inr fos1" "keep_open fos1 = Inr fos2"
      using g m(1) mv(1) by (auto simp: fetch_Inr)
    then show ?thesis using f l m mv False
      by (intro exI [of _ fos0] exI [of _ fos] exI [of _ moving] exI [of _ fos1] exI [of _ fos2] exI [of _ ?c] exI [of _ fs]) auto
  qed
qed

text \<open>What the open orders have of a line of the sale at a location, and elsewhere.\<close>

definition stock :: "int \<Rightarrow> fulfillment_order list \<Rightarrow> int \<Rightarrow> int" where
  "stock loc fos l = (\<Sum>fo\<leftarrow>filter (\<lambda>fo. fo_location fo = loc) fos. avail fo l)"

definition elsewhere :: "int \<Rightarrow> fulfillment_order list \<Rightarrow> int \<Rightarrow> int" where
  "elsewhere loc fos l = (\<Sum>fo\<leftarrow>filter (\<lambda>fo. fo_location fo \<noteq> loc) fos. avail fo l)"

lemma stock_at_first: "(\<Sum>fo\<leftarrow>at_first loc fos. avail fo l) = stock loc fos l + elsewhere loc fos l"
  by (simp add: at_first_def stock_def elsewhere_def)

lemma stock_nonneg:
  assumes "\<forall>fo\<in>set fos. lines_ok fo"
  shows "0 \<le> stock loc fos l" "0 \<le> elsewhere loc fos l"
  using assms by (auto simp: stock_def elsewhere_def intro!: sum_list_nonneg avail_nonneg lines_ok_no_debts)

lemma at_first_set [simp]: "set (at_first loc fos) = set fos"
  by (auto simp: at_first_def)

text \<open>The lines with what is missing at the location.\<close>

definition missing :: "int \<Rightarrow> fulfillment_order list \<Rightarrow> (int \<times> int) list \<Rightarrow> (int \<times> int) list" where
  "missing loc fos ls =
     filter (\<lambda>(_, q). q \<noteq> 0) (map (\<lambda>(l, q). (l, if q \<le> 0 then q else max 0 (q - stock loc fos l))) ls)"

lemma lacking_eq: "\<forall>fo\<in>set fos. lines_ok fo \<Longrightarrow> lacking loc fos ls = missing loc fos ls"
  unfolding missing_def stock_def by (simp add: lacking_def left_over lines_ok_no_debts)

lemma missing_distinct: "distinct (map fst ls) \<Longrightarrow> distinct (map fst (missing loc fos ls))"
  by (auto simp: missing_def comp_def case_prod_beta intro!: distinct_map_filter)

lemma no_moves_needed:
  assumes "move_plan loc fos ls = []" and "\<forall>fo\<in>set fos. lines_ok fo" and "distinct (map fst ls)" and "(l, q) \<in> set ls"
  shows "min (elsewhere loc fos l) (max 0 (q - stock loc fos l)) = 0"
proof (cases "0 < q - stock loc fos l")
  case True
  let ?ms = "missing loc fos ls" and ?os = "filter (\<lambda>fo. fo_location fo \<noteq> loc) fos"
  have ok: "\<forall>fo\<in>set ?os. lines_ok fo" using assms(2) by simp
  have m: "(l, q - stock loc fos l) \<in> set ?ms"
    using True stock_nonneg(1) [OF assms(2), of loc l] assms(4) by (force simp: missing_def)
  have "plan ?os ?ms = []" using assms(1) by (simp add: move_plan_def lacking_eq [OF assms(2)])
  then have "greedy_items ?os ?ms i = []" if "i < length ?os" for i
    using that ok by (auto simp: plan_eq lines_ok_no_debts filter_empty_conv)
  then have "(\<Sum>i<length ?os. given ?os ?ms i l) = 0" by (simp add: given_def)
  then show ?thesis
    using given_total [OF missing_distinct [OF assms(3)] m ok] True by (simp add: elsewhere_def min.commute)
next
  case False
  then show ?thesis using stock_nonneg(2) [OF assms(2)] by (simp add: max_def)
qed

section \<open>An example\<close>

definition sample_fo_line :: "int \<Rightarrow> int \<Rightarrow> int \<Rightarrow> fo_line" where
  "sample_fo_line i l q = \<lparr>fl_id = i, fl_sale_line = l, fl_total = Some q, fl_remaining = Some q\<rparr>"

definition sample_order :: "int \<Rightarrow> int \<Rightarrow> fo_line list \<Rightarrow> fulfillment_order" where
  "sample_order i loc xs = \<lparr>fo_id = i, fo_status = ''OPEN'', fo_lines = xs, fo_location = loc, fo_delivery = None\<rparr>"

definition sample_fulfillment :: fulfillment where
  "sample_fulfillment = \<lparr>ff_id = 9, ff_name = ''F1'', ff_status = ''SUCCESS'', ff_order = 5, ff_location = 10,
     ff_tracking = [], ff_lines = []\<rparr>"

text \<open>Two units are at location 10, three at location 20; a move brings two of those to location 10.\<close>

definition sample_shop :: shop where
  "sample_shop =
     \<lparr>ask_orders = (\<lambda>calls. Inr (if SplitOrder 2 [(21, 2)] \<in> set calls
        then [sample_order 2 20 [sample_fo_line 21 1 1], sample_order 1 10 [sample_fo_line 11 1 2], sample_order 3 10 [sample_fo_line 31 1 2]]
        else [sample_order 2 20 [sample_fo_line 21 1 3], sample_order 1 10 [sample_fo_line 11 1 2]])),
      ask_fulfillment = (\<lambda>_. Inr sample_fulfillment), ask_read = (\<lambda>_. Inr ()),
      ask_split = (\<lambda>_. Inr (sample_order 3 20 [sample_fo_line 31 1 2])), ask_move = (\<lambda>_. Inr ())\<rparr>"

definition sample_delivery :: tracking_data where
  "sample_delivery =
     \<lparr>td_data = \<lparr>pd_name = ''OUT/1'', pd_carrier = ''UPS'', pd_carrier_code = ''ups'', pd_tracking = ''T1'', pd_picking_id = 1,
        pd_lines = [(''1'', 4)]\<rparr>, td_location = ''10'', td_url = []\<rparr>"

lemma sample_sent:
  "\<exists>x. send_picking sample_shop ''5'' sample_delivery False [] = (Inr x, [FetchOrders ''5'', SplitOrder 2 [(21, 2)], MoveOrder 3 10,
     FetchOrders ''5'', CreateFulfillment 1 ''ups'' (Some ''T1'') None [(11, 2)], ReadOrder 1,
     CreateFulfillment 3 ''ups'' (Some ''T1'') None [(31, 2)], ReadOrder 3])"
proof -
  let ?r = "send_picking sample_shop ''5'' sample_delivery False []"
  have "\<not> isl (fst ?r)" by code_simp
  moreover have "snd ?r = [FetchOrders ''5'', SplitOrder 2 [(21, 2)], MoveOrder 3 10,
     FetchOrders ''5'', CreateFulfillment 1 ''ups'' (Some ''T1'') None [(11, 2)], ReadOrder 1,
     CreateFulfillment 3 ''ups'' (Some ''T1'') None [(31, 2)], ReadOrder 3]" by code_simp
  ultimately show ?thesis by (cases ?r; cases "fst ?r") auto
qed

lemma sample_read:
  "ask_orders sample_shop [FetchOrders ''5''] = Inr [sample_order 2 20 [sample_fo_line 21 1 3], sample_order 1 10 [sample_fo_line 11 1 2]]"
  "keep_open [sample_order 2 20 [sample_fo_line 21 1 3], sample_order 1 10 [sample_fo_line 11 1 2]] =
     Inr [sample_order 2 20 [sample_fo_line 21 1 3], sample_order 1 10 [sample_fo_line 11 1 2]]"
  by (simp_all add: sample_shop_def sample_order_def fulfillment_order_status_def open_or_in_progress_def)

lemma sample_ints: "location_int (td_location sample_delivery) = Inr 10" "int_lines (pd_lines (td_data sample_delivery)) = Inr [(1, 4)]"
  by code_simp+

lemma sample_lines_ok: "\<forall>calls fos. ask_orders sample_shop calls = Inr fos \<longrightarrow> (\<forall>fo\<in>set fos. lines_ok fo)"
  by (auto simp: sample_shop_def sample_order_def sample_fo_line_def lines_ok_def remaining_quantity_def split: if_splits)

section \<open>Deliveries\<close>

text \<open>C14: A picking that is sent without an error makes these requests, for the open orders that were read last,
  those at the location of the picking first: each order is asked for its first open line of every line of the
  picking, with what the earlier orders have not given, at most what it has; and nothing else is requested. For
  each line of the sale the requests add up to the quantity of the picking, or to all that the orders have.\<close>
theorem send_picking_correct:
  assumes "send_picking sh so td False [] = (Inr x, calls)" and "location_int (td_location td) = Inr loc"
    and "int_lines (pd_lines (td_data td)) = Inr ls" and "distinct (map fst ls)"
    and answers: "\<forall>calls fos. ask_orders sh calls = Inr fos \<longrightarrow> (\<forall>fo\<in>set fos. lines_ok fo)"
  shows "\<exists>pre fos0 fos post. let os = (if loc = 0 then fos else at_first loc fos) in
    calls = pre @ [FetchOrders so] @ post \<and> FetchOrders so \<notin> set post \<and>
    ask_orders sh (pre @ [FetchOrders so]) = Inr fos0 \<and> keep_open fos0 = Inr fos \<and> shipped pre = [] \<and>
    shipped post = greedy_requests os ls \<and>
    (\<forall>(l, q)\<in>set ls.
      (\<forall>i<length os. given os ls i l = max 0 (min (avail (os ! i) l) (q - (\<Sum>fo\<leftarrow>take i os. avail fo l)))) \<and>
      (\<Sum>i<length os. given os ls i l) = min (max 0 q) (\<Sum>fo\<leftarrow>os. avail fo l))"
proof -
  obtain pre fos0 fos post where c: "calls = pre @ [FetchOrders so] @ post" "FetchOrders so \<notin> set post"
    "ask_orders sh (pre @ [FetchOrders so]) = Inr fos0" "keep_open fos0 = Inr fos" "shipped pre = []"
    and s: "shipped post = greedy_requests (if loc = 0 then fos else at_first loc fos) ls"
  proof (cases "loc = 0")
    case True
    obtain fos0 fos fs where f: "ask_orders sh [FetchOrders so] = Inr fos0" "keep_open fos0 = Inr fos"
      and l: "fulfill_orders sh td False ls fos [FetchOrders so] = (Inr fs, calls)"
      using assms(1-3) True by (auto simp: send_picking_def io_bind_Inr fetch_Inr)
    have "\<forall>fo\<in>set fos. no_debts fo" using keep_open_set [OF f(2)] answers f(1) lines_ok_no_debts by blast
    from fulfill_orders_requests [OF l this] obtain new where "calls = [FetchOrders so] @ new" "requests (greedy_requests fos ls) new (Inr fs)" by blast
    then show ?thesis using f True that [of "[]" new fos0 fos] by (simp add: requests_def)
  next
    case False
    obtain fos0 fos moving fos1 fos2 last fs where m: "ask_orders sh [FetchOrders so] = Inr fos0" "keep_open fos0 = Inr fos"
        "shipped moving = []"
      and g: "if move_plan loc fos ls = [] then fos2 = fos \<and> last = [] \<and> moving = []
        else last = [FetchOrders so] \<and> ask_orders sh (FetchOrders so # moving @ last) = Inr fos1 \<and> keep_open fos1 = Inr fos2"
      and l: "fulfill_orders sh td False ls (at_first loc fos2) (FetchOrders so # moving @ last) = (Inr fs, calls)"
      using send_picking_course [OF assms(1-3) False] by blast
    have "\<forall>fo\<in>set (at_first loc fos2). no_debts fo"
    proof (cases "move_plan loc fos ls = []")
      case True
      then show ?thesis using g keep_open_set [OF m(2)] answers m(1) lines_ok_no_debts by auto
    next
      case False
      then have f1: "ask_orders sh (FetchOrders so # moving @ last) = Inr fos1" "keep_open fos1 = Inr fos2" using g by auto
      show ?thesis using keep_open_set [OF f1(2)] answers f1(1) lines_ok_no_debts by auto
    qed
    from fulfill_orders_requests [OF l this] obtain new where n: "calls = (FetchOrders so # moving @ last) @ new"
      "requests (greedy_requests (at_first loc fos2) ls) new (Inr fs)" by blast
    show ?thesis
    proof (cases "move_plan loc fos ls = []")
      case True
      then show ?thesis using m g n \<open>loc \<noteq> 0\<close> that [of "[]" new fos0 fos] by (simp add: requests_def)
    next
      case False
      then have e: "last = [FetchOrders so]" and f1: "ask_orders sh (FetchOrders so # moving @ last) = Inr fos1" "keep_open fos1 = Inr fos2"
        using g by auto
      show ?thesis using m f1 [unfolded e] n [unfolded e] \<open>loc \<noteq> 0\<close> that [of "FetchOrders so # moving" new fos1 fos2]
        by (simp add: requests_def)
    qed
  qed
  let ?os = "if loc = 0 then fos else at_first loc fos"
  have os: "\<forall>fo\<in>set ?os. lines_ok fo" using keep_open_set [OF c(4)] answers c(3) by auto
  have "\<forall>(l, q)\<in>set ls.
      (\<forall>i<length ?os. given ?os ls i l = max 0 (min (avail (?os ! i) l) (q - (\<Sum>fo\<leftarrow>take i ?os. avail fo l)))) \<and>
      (\<Sum>i<length ?os. given ?os ls i l) = min (max 0 q) (\<Sum>fo\<leftarrow>?os. avail fo l)"
    using given_eq [OF assms(4)] given_total [OF assms(4) _ os] os nth_mem by blast
  then show ?thesis using c s unfolding Let_def by (intro exI [of _ pre] exI [of _ fos0] exI [of _ fos] exI [of _ post] conjI) assumption+
qed

lemma send_picking_correct_witness:
  "\<exists>fos. shipped (snd (send_picking sample_shop ''5'' sample_delivery False [])) = greedy_requests (at_first 10 fos) [(1, 4)] \<and>
    shipped (snd (send_picking sample_shop ''5'' sample_delivery False [])) = [(1, [(11, 2)]), (3, [(31, 2)])]"
proof -
  obtain x where x: "send_picking sample_shop ''5'' sample_delivery False [] = (Inr x, [FetchOrders ''5'', SplitOrder 2 [(21, 2)],
     MoveOrder 3 10, FetchOrders ''5'', CreateFulfillment 1 ''ups'' (Some ''T1'') None [(11, 2)], ReadOrder 1,
     CreateFulfillment 3 ''ups'' (Some ''T1'') None [(31, 2)], ReadOrder 3])" using sample_sent by blast
  have d: "distinct (map fst [(1 :: int, 4 :: int)])" by simp
  let ?calls = "snd (send_picking sample_shop ''5'' sample_delivery False [])"
  obtain pre fos post where "shipped post = greedy_requests (at_first 10 fos) [(1, 4)]" "shipped pre = []"
    "?calls = pre @ [FetchOrders ''5''] @ post"
    using send_picking_correct [OF x sample_ints d sample_lines_ok] x unfolding Let_def by auto
  then have "shipped ?calls = greedy_requests (at_first 10 fos) [(1, 4)]" by simp
  moreover have "shipped ?calls = [(1, [(11, 2)]), (3, [(31, 2)])]" using x by simp
  ultimately show ?thesis by blast
qed

text \<open>Before a picking with a location is sent, the open orders at other locations are asked to move what is missing
  at the location: one after the other what the earlier ones have not given; an order is moved as a whole if
  everything that it still has is asked for, and split otherwise. No other call is made before, nothing is
  fulfilled before the moves, and without a move the orders are not read again.\<close>
theorem moves_before_delivery:
  assumes "send_picking sh so td force [] = (Inr x, calls)" and "location_int (td_location td) = Inr loc"
    and "int_lines (pd_lines (td_data td)) = Inr ls" and "loc \<noteq> 0"
    and answers: "\<forall>calls fos. ask_orders sh calls = Inr fos \<longrightarrow> (\<forall>fo\<in>set fos. lines_ok fo)"
  shows "\<exists>fos0 fos moving rest. let others = filter (\<lambda>fo. fo_location fo \<noteq> loc) fos;
      moved = map (\<lambda>i. (others ! i, greedy_items others (missing loc fos ls) i))
        (filter (\<lambda>i. greedy_items others (missing loc fos ls) i \<noteq> []) [0..<length others]) in
    ask_orders sh [FetchOrders so] = Inr fos0 \<and> keep_open fos0 = Inr fos \<and>
    calls = FetchOrders so # moving @ rest \<and> made loc moved moving \<and> shipped moving = [] \<and> FetchOrders so \<notin> set moving \<and>
    (if moved = [] then FetchOrders so \<notin> set rest else \<exists>rest'. rest = FetchOrders so # rest')"
proof -
  obtain fos0 fos moving fos1 fos2 last fs where m: "ask_orders sh [FetchOrders so] = Inr fos0" "keep_open fos0 = Inr fos"
      "made loc (move_plan loc fos ls) moving" "shipped moving = []" "\<forall>so. FetchOrders so \<notin> set moving"
    and g: "if move_plan loc fos ls = [] then fos2 = fos \<and> last = [] \<and> moving = []
      else last = [FetchOrders so] \<and> ask_orders sh (FetchOrders so # moving @ last) = Inr fos1 \<and> keep_open fos1 = Inr fos2"
    and l: "fulfill_orders sh td force ls (at_first loc fos2) (FetchOrders so # moving @ last) = (Inr fs, calls)"
    using send_picking_course [OF assms(1-4)] by blast
  obtain new where n: "calls = (FetchOrders so # moving @ last) @ new" "\<forall>so. FetchOrders so \<notin> set new"
    using fulfill_orders_no_fetch [OF l] by blast
  have os: "\<forall>fo\<in>set fos. lines_ok fo" using keep_open_set [OF m(2)] answers m(1) by auto
  let ?others = "filter (\<lambda>fo. fo_location fo \<noteq> loc) fos"
  have p: "move_plan loc fos ls = map (\<lambda>i. (?others ! i, greedy_items ?others (missing loc fos ls) i))
        (filter (\<lambda>i. greedy_items ?others (missing loc fos ls) i \<noteq> []) [0..<length ?others])"
    unfolding move_plan_def lacking_eq [OF os] by (rule plan_eq) (use os in \<open>auto intro: lines_ok_no_debts\<close>)
  have "ask_orders sh [FetchOrders so] = Inr fos0 \<and> keep_open fos0 = Inr fos \<and>
    calls = FetchOrders so # moving @ (last @ new) \<and> made loc (move_plan loc fos ls) moving \<and> shipped moving = [] \<and>
    FetchOrders so \<notin> set moving \<and>
    (if move_plan loc fos ls = [] then FetchOrders so \<notin> set (last @ new) else \<exists>rest'. last @ new = FetchOrders so # rest')"
    using m n g by (cases "move_plan loc fos ls = []") auto
  then show ?thesis unfolding p Let_def by (intro exI)
qed

text \<open>The missing two units are split off the order at the other location and moved.\<close>

lemma moves_before_delivery_witness:
  "\<exists>moving rest. snd (send_picking sample_shop ''5'' sample_delivery False []) = FetchOrders ''5'' # moving @ rest \<and>
    made 10 [(sample_order 2 20 [sample_fo_line 21 1 3], [(21, 2)])] moving"
proof -
  obtain x where x: "send_picking sample_shop ''5'' sample_delivery False [] = (Inr x, [FetchOrders ''5'', SplitOrder 2 [(21, 2)],
     MoveOrder 3 10, FetchOrders ''5'', CreateFulfillment 1 ''ups'' (Some ''T1'') None [(11, 2)], ReadOrder 1,
     CreateFulfillment 3 ''ups'' (Some ''T1'') None [(31, 2)], ReadOrder 3])" using sample_sent by blast
  let ?fos = "[sample_order 2 20 [sample_fo_line 21 1 3], sample_order 1 10 [sample_fo_line 11 1 2]]"
  note f = sample_read
  have o: "filter (\<lambda>fo. fo_location fo \<noteq> 10) ?fos = [sample_order 2 20 [sample_fo_line 21 1 3]]" by (simp add: sample_order_def)
  have g: "greedy_items [sample_order 2 20 [sample_fo_line 21 1 3]] (missing 10 ?fos [(1, 4)]) 0 = [(21, 2)]" by code_simp
  have n: "(10 :: int) \<noteq> 0" by simp
  let ?o = "\<lambda>fos. filter (\<lambda>fo. fo_location fo \<noteq> 10) fos"
  let ?M = "\<lambda>fos. map (\<lambda>i. (?o fos ! i, greedy_items (?o fos) (missing 10 fos [(1, 4)]) i))
    (filter (\<lambda>i. greedy_items (?o fos) (missing 10 fos [(1, 4)]) i \<noteq> []) [0..<length (?o fos)])"
  obtain fos0 fos moving rest where r: "ask_orders sample_shop [FetchOrders ''5''] = Inr fos0" "keep_open fos0 = Inr fos"
    "snd (send_picking sample_shop ''5'' sample_delivery False []) = FetchOrders ''5'' # moving @ rest" "made 10 (?M fos) moving"
    using moves_before_delivery [OF x sample_ints n sample_lines_ok] unfolding x snd_conv Let_def by blast
  have "fos0 = ?fos" using r(1) f(1) by (metis sum.inject(2))
  then have "fos = ?fos" using r(2) f(2) by (metis sum.inject(2))
  then have "?M fos = [(sample_order 2 20 [sample_fo_line 21 1 3], [(21, 2)])]" unfolding \<open>fos = ?fos\<close> o by (simp add: g)
  then show ?thesis using r(3,4) by auto
qed

text \<open>C34: If the shop carries out the moves it is asked for, that is, if the orders that are read after the moves have
  at the location what it had and what was missing there as far as other locations had it, then a picking with a
  location is fulfilled from this location alone, as far as all locations together have what it needs.\<close>
theorem delivered_from_location:
  assumes "send_picking sh so td False [] = (Inr x, calls)" and "location_int (td_location td) = Inr loc"
    and "int_lines (pd_lines (td_data td)) = Inr ls" and "loc \<noteq> 0" and "distinct (map fst ls)"
    and answers: "\<forall>calls fos. ask_orders sh calls = Inr fos \<longrightarrow> (\<forall>fo\<in>set fos. lines_ok fo)"
    and before: "ask_orders sh [FetchOrders so] = Inr fos0" "keep_open fos0 = Inr fos"
    and moved: "\<forall>moving fos1 fos2. made loc (move_plan loc fos ls) moving \<longrightarrow>
      ask_orders sh (FetchOrders so # moving @ [FetchOrders so]) = Inr fos1 \<longrightarrow> keep_open fos1 = Inr fos2 \<longrightarrow>
      (\<forall>(l, q)\<in>set ls. stock loc fos2 l = stock loc fos l + min (elsewhere loc fos l) (max 0 (q - stock loc fos l)) \<and>
        elsewhere loc fos2 l = elsewhere loc fos l - min (elsewhere loc fos l) (max 0 (q - stock loc fos l)))"
  shows "\<exists>os. shipped calls = greedy_requests os ls \<and>
    (\<forall>(i, items)\<in>set (shipped calls). \<exists>fo\<in>set os. fo_id fo = i \<and> fo_location fo = loc) \<and>
    (\<forall>(l, q)\<in>set ls. (\<Sum>i<length os. given os ls i l) = min (max 0 q) (stock loc fos l + elsewhere loc fos l))"
proof -
  obtain moving fos1 fos2 last fs where m: "shipped moving = []" "\<forall>so. FetchOrders so \<notin> set moving"
      "made loc (move_plan loc fos ls) moving"
    and g: "if move_plan loc fos ls = [] then fos2 = fos \<and> last = [] \<and> moving = []
      else last = [FetchOrders so] \<and> ask_orders sh (FetchOrders so # moving @ last) = Inr fos1 \<and> keep_open fos1 = Inr fos2"
    and l: "fulfill_orders sh td False ls (at_first loc fos2) (FetchOrders so # moving @ last) = (Inr fs, calls)"
    using send_picking_course [OF assms(1-4)] before by auto
  have ok: "\<forall>fo\<in>set fos. lines_ok fo" using keep_open_set [OF before(2)] answers before(1) by blast
  have ok2: "\<forall>fo\<in>set fos2. lines_ok fo"
  proof (cases "move_plan loc fos ls = []")
    case False
    then have "ask_orders sh (FetchOrders so # moving @ last) = Inr fos1" "keep_open fos1 = Inr fos2" using g by auto
    then show ?thesis using keep_open_set answers by blast
  qed (use g ok in simp)
  have st: "stock loc fos2 l = stock loc fos l + min (elsewhere loc fos l) (max 0 (q - stock loc fos l)) \<and>
      elsewhere loc fos2 l = elsewhere loc fos l - min (elsewhere loc fos l) (max 0 (q - stock loc fos l))"
    if "(l, q) \<in> set ls" for l q
  proof (cases "move_plan loc fos ls = []")
    case True
    then show ?thesis using g no_moves_needed [OF True ok assms(5) that] by simp
  next
    case False
    then have "ask_orders sh (FetchOrders so # moving @ [FetchOrders so]) = Inr fos1" "keep_open fos1 = Inr fos2"
      using g by auto
    then show ?thesis using moved m(3) that by blast
  qed
  let ?os = "at_first loc fos2"
  have os: "\<forall>fo\<in>set ?os. lines_ok fo" using ok2 by simp
  then obtain new where n: "calls = (FetchOrders so # moving @ last) @ new" "requests (greedy_requests ?os ls) new (Inr fs)"
    using fulfill_orders_requests [OF l] lines_ok_no_debts by blast
  then have s: "shipped calls = greedy_requests ?os ls"
    using m g by (cases "move_plan loc fos ls = []") (auto simp: requests_def)
  have here: "fo_location (?os ! i) = loc" if li: "i < length ?os" and ne: "greedy_items ?os ls i \<noteq> []" for i
  proof (rule ccontr)
    let ?A = "filter (\<lambda>fo. fo_location fo = loc) fos2" let ?B = "filter (\<lambda>fo. fo_location fo \<noteq> loc) fos2"
    assume e: "fo_location (?os ! i) \<noteq> loc"
    have i: "length ?A \<le> i"
    proof (rule ccontr)
      assume "\<not> length ?A \<le> i"
      then have "?os ! i \<in> set ?A" unfolding at_first_def by (simp add: nth_append del: set_filter)
      then show False using e by simp
    qed
    obtain l q where lq: "(l, q) \<in> set ls" "0 < min (avail (?os ! i) l) (q - (\<Sum>fo\<leftarrow>take i ?os. avail fo l))"
      using ne by (auto simp: greedy_items_def filter_empty_conv)
    have "?os ! i = ?B ! (i - length ?A)" using i by (simp add: at_first_def nth_append)
    moreover have "?B ! (i - length ?A) \<in> set ?B" using li i by (intro nth_mem) (simp add: at_first_def)
    ultimately have "?os ! i \<in> set ?B" by (simp del: set_filter)
    then have "avail (?os ! i) l \<le> elsewhere loc fos2 l"
      unfolding elsewhere_def using ok2 by (intro member_le_sum_list) (auto intro: avail_nonneg lines_ok_no_debts)
    moreover have "stock loc fos2 l \<le> (\<Sum>fo\<leftarrow>take i ?os. avail fo l)"
    proof -
      have "0 \<le> (\<Sum>fo\<leftarrow>take (i - length ?A) ?B. avail fo l)"
        using ok2 by (auto intro!: sum_list_nonneg avail_nonneg lines_ok_no_debts dest!: in_set_takeD)
      then show ?thesis using i by (simp add: at_first_def stock_def)
    qed
    ultimately show False using st [OF lq(1)] lq(2) by (auto simp: min_def max_def split: if_splits)
  qed
  have "\<forall>(i, items)\<in>set (shipped calls). \<exists>fo\<in>set ?os. fo_id fo = i \<and> fo_location fo = loc"
    unfolding s greedy_requests_def using here nth_mem by fastforce
  moreover have "(\<Sum>i<length ?os. given ?os ls i l) = min (max 0 q) (stock loc fos l + elsewhere loc fos l)" if "(l, q) \<in> set ls" for l q
    using given_total [OF assms(5) that os] st [OF that] by (simp add: stock_at_first)
  ultimately show ?thesis using s by (intro exI [of _ ?os]) blast
qed

lemma delivered_from_location_witness:
  "\<exists>os. shipped (snd (send_picking sample_shop ''5'' sample_delivery False [])) = greedy_requests os [(1, 4)] \<and>
    (\<Sum>i<length os. given os [(1, 4)] i 1) = 4"
proof -
  obtain x where x: "send_picking sample_shop ''5'' sample_delivery False [] = (Inr x, [FetchOrders ''5'', SplitOrder 2 [(21, 2)],
     MoveOrder 3 10, FetchOrders ''5'', CreateFulfillment 1 ''ups'' (Some ''T1'') None [(11, 2)], ReadOrder 1,
     CreateFulfillment 3 ''ups'' (Some ''T1'') None [(31, 2)], ReadOrder 3])" using sample_sent by blast
  let ?fos = "[sample_order 2 20 [sample_fo_line 21 1 3], sample_order 1 10 [sample_fo_line 11 1 2]]"
  have nd: "(10 :: int) \<noteq> 0" "distinct (map fst [(1 :: int, 4 :: int)])" by simp_all
  have p: "move_plan 10 ?fos [(1, 4)] = [(sample_order 2 20 [sample_fo_line 21 1 3], [(21, 2)])]" by code_simp
  have st: "stock 10 ?fos 1 = 2" "elsewhere 10 ?fos 1 = 3" by code_simp+
  have m: "\<forall>moving fos1 fos2. made 10 (move_plan 10 ?fos [(1, 4)]) moving \<longrightarrow>
      ask_orders sample_shop (FetchOrders ''5'' # moving @ [FetchOrders ''5'']) = Inr fos1 \<longrightarrow> keep_open fos1 = Inr fos2 \<longrightarrow>
      (\<forall>(l, q)\<in>set [(1, 4)]. stock 10 fos2 l = stock 10 ?fos l + min (elsewhere 10 ?fos l) (max 0 (q - stock 10 ?fos l)) \<and>
        elsewhere 10 fos2 l = elsewhere 10 ?fos l - min (elsewhere 10 ?fos l) (max 0 (q - stock 10 ?fos l)))"
  proof (intro allI impI)
    fix moving fos1 fos2
    let ?new = "[sample_order 2 20 [sample_fo_line 21 1 1], sample_order 1 10 [sample_fo_line 11 1 2], sample_order 3 10 [sample_fo_line 31 1 2]]"
    assume a: "made 10 (move_plan 10 ?fos [(1, 4)]) moving"
      "ask_orders sample_shop (FetchOrders ''5'' # moving @ [FetchOrders ''5'']) = Inr fos1" "keep_open fos1 = Inr fos2"
    have "prepare_fulfillment_lines_data (sample_order 2 20 [sample_fo_line 21 1 3]) = [(21, 3)]" by code_simp
    then have "set [(21, 2)] \<noteq> set (prepare_fulfillment_lines_data (sample_order 2 20 [sample_fo_line 21 1 3]))" by simp
    then have "SplitOrder 2 [(21, 2)] \<in> set moving"
      using a(1) unfolding p by (auto simp: made_def list_all2_Cons1 move_calls_def sample_order_def)
    then have "fos1 = ?new" using a(2) by (simp add: sample_shop_def)
    moreover have "keep_open ?new = Inr ?new"
      by (simp add: sample_order_def fulfillment_order_status_def open_or_in_progress_def)
    ultimately have e: "fos2 = ?new" using a(3) by (metis sum.inject(2))
    have "stock 10 ?new 1 = 4" "elsewhere 10 ?new 1 = 1" by code_simp+
    then show "\<forall>(l, q)\<in>set [(1, 4)]. stock 10 fos2 l = stock 10 ?fos l + min (elsewhere 10 ?fos l) (max 0 (q - stock 10 ?fos l)) \<and>
        elsewhere 10 fos2 l = elsewhere 10 ?fos l - min (elsewhere 10 ?fos l) (max 0 (q - stock 10 ?fos l))"
      unfolding e by (simp add: st)
  qed
  obtain os where "shipped (snd (send_picking sample_shop ''5'' sample_delivery False [])) = greedy_requests os [(1, 4)]"
    "\<forall>(l, q)\<in>set [(1, 4)]. (\<Sum>i<length os. given os [(1, 4)] i l) = min (max 0 q) (stock 10 ?fos l + elsewhere 10 ?fos l)"
    using delivered_from_location [OF x sample_ints nd sample_lines_ok sample_read m] unfolding x snd_conv by blast
  then show ?thesis by (auto simp: st)
qed

section \<open>Tracking URLs\<close>

text \<open>The first data that is exported belongs to the second picking, and gets the URL of the first one.\<close>

definition sample_url :: "int \<Rightarrow> string" where
  "sample_url i = (if i = 1 then ''one'' else ''two'')"

lemma tracking_url_of_another_picking:
  "map (\<lambda>td. (pd_picking_id (td_data td), td_url td)) (shopify_export_format_multi sample_groupby sample_url
      [sample_picking 2 ''T2'' True [sample_move ''A'' 1 1 False], sample_picking 1 ''T1'' False [sample_move ''B'' 1 1 False]]) =
     [(1, sample_url 2), (2, sample_url 1)]"
  by code_simp

end
