(* ===== verification/ShopifyOrderProperties.thy ===== *)
theory ShopifyOrderProperties
  imports ShopifyOrderFacts
begin

text \<open>
  The properties of the orders that are read from Shopify, and of identifiers and answers.
\<close>

section \<open>Lines\<close>

lemma mentions_split:
  "(\<exists>pre post. mentions gs = pre @ (i, loc) # post \<and> i \<notin> fst ` set pre) \<longleftrightarrow>
     (\<exists>before items after. gs = before @ (loc, items) # after \<and> i \<in> fst ` set items \<and>
       (\<forall>(_, items')\<in>set before. i \<notin> fst ` set items'))"
proof (induction gs)
  case (Cons g gs)
  obtain l items where g: "g = (l, items)" by (cases g)
  have m: "mentions (g # gs) = map (\<lambda>(i, _). (i, l)) items @ mentions gs" by (simp add: mentions_def g)
  have f: "fst ` set (map (\<lambda>(i, _). (i, l)) items) = fst ` set items" by force
  show ?case
  proof (cases "i \<in> fst ` set items")
    case True
    have "(\<exists>pre post. mentions (g # gs) = pre @ (i, loc) # post \<and> i \<notin> fst ` set pre) \<longleftrightarrow> loc = l"
    proof
      assume "\<exists>pre post. mentions (g # gs) = pre @ (i, loc) # post \<and> i \<notin> fst ` set pre"
      then obtain pre post where p: "map (\<lambda>(i, _). (i, l)) items @ mentions gs = pre @ (i, loc) # post" "i \<notin> fst ` set pre"
        unfolding m by blast
      then consider us where "map (\<lambda>(i, _). (i, l)) items = pre @ us" "us @ mentions gs = (i, loc) # post"
        | us where "pre = map (\<lambda>(i, _). (i, l)) items @ us" by (auto simp: append_eq_append_conv2)
      then show "loc = l"
      proof cases
        case 1
        have "us \<noteq> []" using 1 True p(2) f by auto
        then have "(i, loc) \<in> set us" using 1(2) by (cases us) auto
        then have "(i, loc) \<in> set (map (\<lambda>(i, _). (i, l)) items)" unfolding 1(1) by simp
        then show ?thesis by auto
      next
        case 2
        then show ?thesis using p(2) True f by auto
      qed
    next
      assume "loc = l"
      have "(i, l) \<in> set (map (\<lambda>(i, _). (i, l)) items)" using True by force
      then obtain ys zs where s: "map (\<lambda>(i, _). (i, l)) items = ys @ (i, l) # zs" "(i, l) \<notin> set ys"
        by (metis split_list_first)
      have "i \<notin> fst ` set ys"
      proof
        assume "i \<in> fst ` set ys"
        then obtain k where "(i, k) \<in> set ys" by force
        moreover from this have "(i, k) \<in> set (map (\<lambda>(i, _). (i, l)) items)" unfolding s(1) by simp
        ultimately show False using s(2) by auto
      qed
      then show "\<exists>pre post. mentions (g # gs) = pre @ (i, loc) # post \<and> i \<notin> fst ` set pre"
        unfolding m s(1) \<open>loc = l\<close> by (intro exI [of _ ys] exI [of _ "zs @ mentions gs"]) simp
    qed
    moreover have "(\<exists>before items' after. g # gs = before @ (loc, items') # after \<and> i \<in> fst ` set items' \<and>
       (\<forall>(_, items')\<in>set before. i \<notin> fst ` set items')) \<longleftrightarrow> loc = l"
      using True g by (auto simp: Cons_eq_append_conv) force+
    ultimately show ?thesis by simp
  next
    case False
    have "(\<exists>pre post. mentions (g # gs) = pre @ (i, loc) # post \<and> i \<notin> fst ` set pre) \<longleftrightarrow>
        (\<exists>pre post. mentions gs = pre @ (i, loc) # post \<and> i \<notin> fst ` set pre)"
    proof
      assume "\<exists>pre post. mentions (g # gs) = pre @ (i, loc) # post \<and> i \<notin> fst ` set pre"
      then obtain pre post where p: "map (\<lambda>(i, _). (i, l)) items @ mentions gs = pre @ (i, loc) # post" "i \<notin> fst ` set pre"
        unfolding m by blast
      have "(i, loc) \<notin> set (map (\<lambda>(i, _). (i, l)) items)" using False f by force
      then obtain us where "pre = map (\<lambda>(i, _). (i, l)) items @ us" "mentions gs = us @ (i, loc) # post"
      proof -
        consider us where "map (\<lambda>(i, _). (i, l)) items = pre @ us" "us @ mentions gs = (i, loc) # post" "us \<noteq> []"
          | us where "pre = map (\<lambda>(i, _). (i, l)) items @ us" "mentions gs = us @ (i, loc) # post"
          using p(1) by (fastforce simp: append_eq_append_conv2)
        then show ?thesis
        proof cases
          case 1
          then have "(i, loc) \<in> set us" by (cases us) auto
          then have "(i, loc) \<in> set (map (\<lambda>(i, _). (i, l)) items)" unfolding 1(1) by simp
          then show ?thesis using \<open>(i, loc) \<notin> _\<close> by blast
        qed (rule that)
      qed
      then show "\<exists>pre post. mentions gs = pre @ (i, loc) # post \<and> i \<notin> fst ` set pre" using p(2) by auto
    next
      assume "\<exists>pre post. mentions gs = pre @ (i, loc) # post \<and> i \<notin> fst ` set pre"
      then obtain pre post where "mentions gs = pre @ (i, loc) # post" "i \<notin> fst ` set pre" by blast
      then have "map (\<lambda>(i, _). (i, l)) items @ mentions gs = (map (\<lambda>(i, _). (i, l)) items @ pre) @ (i, loc) # post"
        "i \<notin> fst ` set (map (\<lambda>(i, _). (i, l)) items @ pre)"
        by (simp, simp only: set_append image_Un f Un_iff False simp_thms)
      then show "\<exists>pre post. mentions (g # gs) = pre @ (i, loc) # post \<and> i \<notin> fst ` set pre" unfolding m by blast
    qed
    moreover have "(\<exists>before items' after. g # gs = before @ (loc, items') # after \<and> i \<in> fst ` set items' \<and>
         (\<forall>(_, items')\<in>set before. i \<notin> fst ` set items')) \<longleftrightarrow>
        (\<exists>before items' after. gs = before @ (loc, items') # after \<and> i \<in> fst ` set items' \<and>
         (\<forall>(_, items')\<in>set before. i \<notin> fst ` set items'))" (is "?l \<longleftrightarrow> ?r")
    proof
      assume ?l
      then obtain before items' after where "g # gs = before @ (loc, items') # after" "i \<in> fst ` set items'"
        "\<forall>(_, items')\<in>set before. i \<notin> fst ` set items'" by blast
      then show ?r using False g by (cases before) auto
    next
      assume ?r
      then obtain before items' after where "gs = before @ (loc, items') # after" "i \<in> fst ` set items'"
        "\<forall>(_, items')\<in>set before. i \<notin> fst ` set items'" by blast
      then show ?l using False g by (intro exI [of _ "g # before"] exI [of _ items'] exI [of _ after]) auto
    qed
    ultimately show ?thesis using Cons.IH by simp
  qed
qed (simp add: mentions_def)

lemma quantity_of_current:
  assumes "distinct (map li_id ls)"
  shows "0 < quantity_of (map (\<lambda>x. x\<lparr>li_tmp := None\<rparr>) ls) i \<and> q = quantity_of (map (\<lambda>x. x\<lparr>li_tmp := None\<rparr>) ls) i \<longleftrightarrow>
    (\<exists>x\<in>set ls. li_id x = i \<and> 0 < current_quantity x \<and> q = current_quantity x)"
proof -
  let ?ls = "map (\<lambda>x. x\<lparr>li_tmp := None\<rparr>) ls"
  have d: "distinct (map li_id ?ls)" using assms by (simp add: comp_def)
  show ?thesis
  proof (cases "\<exists>k<length ls. li_id (ls ! k) = i")
    case True
    then obtain k where k: "k < length ls" "li_id (ls ! k) = i" by blast
    then have "quantity_of ?ls i = current_quantity (ls ! k)"
      using quantity_of_nth [OF d, of k] by (simp add: current_quantity_tmp_def current_quantity_def)
    moreover have "x = ls ! k" if "x \<in> set ls" "li_id x = i" for x
      using that k same_line [OF assms] by (metis in_set_conv_nth)
    ultimately show ?thesis using k nth_mem by metis
  next
    case False
    then have "find (\<lambda>x. li_id x = i) ?ls = None" by (auto simp: find_None_iff in_set_conv_nth)
    then show ?thesis using False by (auto simp: quantity_of_def in_set_conv_nth)
  qed
qed


text \<open>A line of two orders: three units, delivered partly from each location, are all put to the first one.\<close>

definition sample_fulfillment_orders :: "fulfillment_order list" where
  "sample_fulfillment_orders =
     [\<lparr>fo_id = 1, fo_status = ''OPEN'', fo_lines = [\<lparr>fl_id = 11, fl_sale_line = 7, fl_total = Some 1, fl_remaining = Some 1\<rparr>],
        fo_location = 10, fo_delivery = None\<rparr>,
      \<lparr>fo_id = 2, fo_status = ''OPEN'', fo_lines = [\<lparr>fl_id = 21, fl_sale_line = 7, fl_total = Some 2, fl_remaining = Some 2\<rparr>],
        fo_location = 20, fo_delivery = None\<rparr>]"


section \<open>Delivery methods\<close>

lemma map_results_ok: "\<forall>x\<in>set xs. \<not> isl (f x) \<Longrightarrow> map_results f xs = Inr (map (projr \<circ> f) xs)"
proof (induction xs)
  case (Cons x xs)
  then show ?case by (cases "f x") auto
qed simp

lemma map_results_error: "\<forall>x\<in>set xs. f x = Inl e \<or> \<not> isl (f x) \<Longrightarrow> \<exists>x\<in>set xs. isl (f x) \<Longrightarrow> map_results f xs = Inl e"
proof (induction xs)
  case (Cons x xs)
  then show ?case by (cases "f x") (auto simp: rbind_eq_Inl)
qed simp

lemma valid_method_error: "is_valid_method m = Inl e \<Longrightarrow> e = ValueError"
  by (auto simp: is_valid_method_def dm_method_type_def delivery_method_type_def rbind_eq_Inl split: if_splits)

lemma card_one:
  assumes "xs \<noteq> []"
  shows "card (set xs) = 1 \<longleftrightarrow> (\<forall>x\<in>set xs. \<forall>y\<in>set xs. x = y)"
proof
  assume "card (set xs) = 1"
  then obtain a where "set xs = {a}" by (auto simp: card_1_singleton_iff)
  then show "\<forall>x\<in>set xs. \<forall>y\<in>set xs. x = y" by simp
next
  assume a: "\<forall>x\<in>set xs. \<forall>y\<in>set xs. x = y"
  have "hd xs \<in> set xs" using assms by simp
  then have "set xs = {hd xs}" using a by blast
  then show "card (set xs) = 1" by simp
qed

text \<open>The delivery method of an order of the shop: a fulfillment order without a method, or of an unknown type, is an
  error. Otherwise there is none if none is valid, and it is the first valid one if all agree on the code or on the
  name, or if the shipping line has no text. Or else it is one with the code or the name of the shipping line, and
  without such a method there is an error.\<close>
theorem delivery_method_correct:
  fixes fos :: "fulfillment_order list" and code name :: "string option"
  assumes "fos \<noteq> []"
  defines "ms \<equiv> map (\<lambda>fo. case fo_delivery fo of None \<Rightarrow> no_method | Some m \<Rightarrow> m) fos"
    and "r \<equiv> order_delivery_method fos code name"
  shows "if \<exists>m\<in>set ms. isl (is_valid_method m) then r = Inl ValueError
    else if \<forall>m\<in>set ms. is_valid_method m \<noteq> Inr True then r = Inr None
    else if (\<forall>m\<in>set ms. \<forall>m'\<in>set ms. dm_code m = dm_code m') \<or> (\<forall>m\<in>set ms. \<forall>m'\<in>set ms. dm_name m = dm_name m') \<or>
      \<not> has_text code \<and> \<not> has_text name
    then r = Inr (Some (hd (filter (\<lambda>m. is_valid_method m = Inr True) ms)))
    else (\<exists>m\<in>set ms. r = Inr (Some m) \<and> (dm_code m = code \<or> dm_name m = name)) \<or>
      r = Inl ValidationError \<and> (\<forall>m\<in>set ms. dm_code m \<noteq> code \<and> (has_text name \<longrightarrow> dm_name m \<noteq> name))"
proof -
  let ?f = "\<lambda>m. rbind (is_valid_method m) (\<lambda>valid. Inr (valid, m))"
  have f: "isl (?f m) = isl (is_valid_method m)" for m by (cases "is_valid_method m") auto
  show ?thesis
  proof (cases "\<exists>m\<in>set ms. isl (is_valid_method m)")
    case True
    have "?f m = Inl ValueError \<or> \<not> isl (?f m)" for m
      using valid_method_error by (cases "is_valid_method m") auto
    then have "map_results ?f ms = Inl ValueError" using True f by (intro map_results_error) auto
    then show ?thesis using True assms(1) by (simp add: r_def order_delivery_method_def flip: ms_def)
  next
    case False
    define keyed where "keyed = map (\<lambda>m. (is_valid_method m = Inr True, m)) ms"
    have "projr (?f m) = (is_valid_method m = Inr True, m)" if "m \<in> set ms" for m
      using False that by (cases "is_valid_method m") auto
    then have k: "map_results ?f ms = Inr keyed"
      using map_results_ok [of ms ?f] False f by (auto simp: keyed_def)
    let ?s = "sort_key (\<lambda>(valid, _). if valid then 0 else 1 :: nat) keyed"
    have s: "?s = filter fst keyed @ filter (\<lambda>e. \<not> fst e) keyed"
      unfolding case_prod_beta by (rule sort_key_test)
    define methods where "methods = map snd ?s"
    have ms: "set methods = set ms" "length methods = length ms"
      by (auto simp: methods_def keyed_def image_iff)
    then have ms3: "methods \<noteq> []" using assms(1) by (auto simp: ms_def)
    have r: "r = (if list_all (\<lambda>m. dm_id m = 0) methods \<or> list_all (\<lambda>(valid, _). \<not> valid) ?s then Inr None
           else if length methods = 1 then Inr (Some (hd methods))
           else if card (set (map dm_code methods)) = 1 then Inr (Some (hd methods))
           else if card (set (map dm_name methods)) = 1 then Inr (Some (hd methods))
           else if \<not> has_text code \<and> \<not> has_text name then Inr (Some (hd methods))
           else (case find (\<lambda>m. dm_code m = code) methods of
                   Some m \<Rightarrow> Inr (Some m)
                 | None \<Rightarrow>
                     if has_text name
                     then (case find (\<lambda>m. dm_name m = name) methods of
                             Some m \<Rightarrow> Inr (Some m)
                           | None \<Rightarrow> Inl ValidationError)
                     else Inl ValidationError))"
      using assms(1) k unfolding methods_def by (simp add: r_def order_delivery_method_def Let_def flip: ms_def)
    show ?thesis
    proof (cases "\<forall>m\<in>set ms. is_valid_method m \<noteq> Inr True")
      case True
      then have "list_all (\<lambda>(valid, _). \<not> valid) ?s" by (auto simp: list_all_iff keyed_def)
      then show ?thesis using True False by (simp add: r)
    next
      case none: False
      then obtain m0 where m0: "m0 \<in> set ms" "is_valid_method m0 = Inr True" by blast
      then have "dm_id m0 \<noteq> 0" by (auto simp: is_valid_method_def dm_method_type_def rbind_eq_Inr split: if_splits)
      then have a: "\<not> list_all (\<lambda>m. dm_id m = 0) methods" using m0(1) ms(1) by (auto simp: list_all_iff)
      have b: "\<not> list_all (\<lambda>(valid, _). \<not> valid) ?s" using m0 by (auto simp: list_all_iff keyed_def)
      have h: "hd methods = hd (filter (\<lambda>m. is_valid_method m = Inr True) ms)"
      proof -
        have "map snd (filter fst keyed) = filter (\<lambda>m. is_valid_method m = Inr True) ms"
          by (simp add: keyed_def filter_map comp_def)
        moreover have "filter (\<lambda>m. is_valid_method m = Inr True) ms \<noteq> []" using m0 by (auto simp: filter_empty_conv)
        ultimately show ?thesis unfolding methods_def s map_append by (simp add: hd_append)
      qed
      have one: "(length methods = 1 \<or> card (set (map dm_code methods)) = 1 \<or> card (set (map dm_name methods)) = 1) \<longleftrightarrow>
          (\<forall>m\<in>set ms. \<forall>m'\<in>set ms. dm_code m = dm_code m') \<or> (\<forall>m\<in>set ms. \<forall>m'\<in>set ms. dm_name m = dm_name m')"
      proof -
        have "map dm_code methods \<noteq> []" "map dm_name methods \<noteq> []" using ms3 by simp_all
        note c = card_one [OF this(1)] card_one [OF this(2)]
        have "length methods = 1 \<Longrightarrow> \<forall>m\<in>set ms. \<forall>m'\<in>set ms. dm_code m = dm_code m'"
          unfolding ms(1) [symmetric] by (cases methods) auto
        then show ?thesis unfolding c by (simp only: set_map ms(1) ball_simps) blast
      qed
      show ?thesis
      proof (cases "(length methods = 1 \<or> card (set (map dm_code methods)) = 1 \<or> card (set (map dm_name methods)) = 1) \<or>
          \<not> has_text code \<and> \<not> has_text name")
        case True
        then have "r = Inr (Some (hd methods))" unfolding r using a b by auto
        then show ?thesis using True False none unfolding one h by simp
      next
        case rest: False
        have n: "\<not> (list_all (\<lambda>m. dm_id m = 0) methods \<or> list_all (\<lambda>(valid, _). \<not> valid) ?s)" "length methods \<noteq> 1"
          "card (set (map dm_code methods)) \<noteq> 1" "card (set (map dm_name methods)) \<noteq> 1"
          "\<not> (\<not> has_text code \<and> \<not> has_text name)" using a b rest by blast+
        have r2: "r = (case find (\<lambda>m. dm_code m = code) methods of
                   Some m \<Rightarrow> Inr (Some m)
                 | None \<Rightarrow>
                     if has_text name
                     then (case find (\<lambda>m. dm_name m = name) methods of
                             Some m \<Rightarrow> Inr (Some m)
                           | None \<Rightarrow> Inl ValidationError)
                     else Inl ValidationError)"
          unfolding r by (simp only: n if_False)
        have f: "x \<in> set ms \<and> P x" if "find P methods = Some x" for x P
          using that nth_mem ms(1) by (fastforce simp: find_Some_iff)
        have g: "\<forall>m\<in>set ms. \<not> P m" if "find P methods = None" for P
          using that ms(1) by (auto simp: find_None_iff)
        have "(\<exists>m\<in>set ms. r = Inr (Some m) \<and> (dm_code m = code \<or> dm_name m = name)) \<or>
            r = Inl ValidationError \<and> (\<forall>m\<in>set ms. dm_code m \<noteq> code \<and> (has_text name \<longrightarrow> dm_name m \<noteq> name))"
        proof (cases "find (\<lambda>m. dm_code m = code) methods")
          case (Some m)
          then show ?thesis using f [OF Some] r2 by auto
        next
          case c: None
          show ?thesis
          proof (cases "has_text name")
            case True
            show ?thesis
            proof (cases "find (\<lambda>m. dm_name m = name) methods")
              case None
              then have "r = Inl ValidationError" using c r2 by simp
              then show ?thesis using g [OF c] g [OF None] by blast
            next
              case (Some m)
              then have "r = Inr (Some m)" using c r2 True by simp
              then show ?thesis using f [OF Some] by blast
            qed
          next
            case False
            then show ?thesis using c g [OF c] r2 by auto
          qed
        qed
        moreover have "\<not> ((\<forall>m\<in>set ms. \<forall>m'\<in>set ms. dm_code m = dm_code m') \<or> (\<forall>m\<in>set ms. \<forall>m'\<in>set ms. dm_name m = dm_name m') \<or>
            \<not> has_text code \<and> \<not> has_text name)" using rest unfolding one by blast
        ultimately show ?thesis unfolding if_not_P [OF False] if_not_P [OF none] by (simp only: if_False)
      qed
    qed
  qed
qed

text \<open>One of two fulfillment orders has no delivery method.\<close>

lemma delivery_method_correct_witness:
  "order_delivery_method sample_fulfillment_orders (Some ''UPS'') None = Inl ValueError"
proof -
  have n: "sample_fulfillment_orders \<noteq> []" by (simp add: sample_fulfillment_orders_def)
  have "isl (is_valid_method no_method)" by code_simp
  then have "\<exists>m\<in>set (map (\<lambda>fo. case fo_delivery fo of None \<Rightarrow> no_method | Some m \<Rightarrow> m) sample_fulfillment_orders). isl (is_valid_method m)"
    by (simp add: sample_fulfillment_orders_def)
  then show ?thesis using delivery_method_correct [OF n, of "Some ''UPS''" None] by simp
qed

section \<open>Identifiers\<close>

lemma digit_runs_skip: "\<forall>c\<in>set p. \<not> is_digit c \<Longrightarrow> digit_runs (p @ s) = digit_runs s"
  by (subst (1 2) digit_runs.simps) (simp add: dropWhile_append1 dropWhile_append2)

lemma digit_runs_digits:
  assumes "s \<noteq> []" and "\<forall>c\<in>set s. is_digit c"
  shows "digit_runs s = [s]"
proof -
  obtain c s' where s: "s = c # s'" using assms(1) by (cases s) auto
  then have d: "takeWhile is_digit s' = s'" "dropWhile is_digit s' = []" "\<not> \<not> is_digit c" using assms(2) by simp_all
  have "digit_runs [] = []" by (subst digit_runs.simps) simp
  then show ?thesis
    unfolding s by (subst digit_runs.simps) (simp only: dropWhile.simps d if_False list.case)
qed

lemma show_nat_is_digit: "c \<in> set (show_nat n) \<Longrightarrow> is_digit c"
  using show_nat_digits [of c n] digit_val_char by (fastforce simp: is_digit_def)

lemma no_slash_in_digits: "is_digit c \<Longrightarrow> c \<noteq> CHR ''/''"
  by (auto simp: is_digit_def digit_val_def Let_def)

text \<open>The global identifier of a record is taken apart to its number again, both by the first digits of the text and
  by its last part; to make an identifier from it changes nothing. The name of the record has no digits.\<close>
theorem gid_roundtrip:
  assumes "0 < n" and "\<forall>c\<in>set gid_name. \<not> is_digit c"
  shows "\<exists>gid. create_gid gid_name (PInt n) = Inr gid \<and> parse_int (PStr gid) 0 = n \<and>
    create_gid gid_name (PStr gid) = Inr gid \<and> parse_graphql_id gid = show_int n"
proof -
  let ?gid = "gid_text gid_name (show_int n)"
  have s: "show_int n = show_nat (nat n)" using assms(1) by (simp add: show_int_def)
  have p: "?gid = (''gid://shopify/'' @ gid_name @ ''/'') @ show_nat (nat n)" by (simp add: gid_text_def s)
  have "\<forall>c\<in>set ''gid://shopify/''. \<not> is_digit c" by code_simp
  then have "digit_runs ?gid = digit_runs (show_nat (nat n))"
    unfolding p using assms(2) by (intro digit_runs_skip) (auto simp: is_digit_def digit_val_def Let_def)
  then have r: "digit_runs ?gid = [show_nat (nat n)]" using digit_runs_digits show_nat_is_digit by simp
  have i: "parse_int (PStr ?gid) 0 = n"
  proof -
    have "?gid \<noteq> []" by (simp add: gid_text_def)
    then show ?thesis using py_int_show_int [of n] unfolding s by (simp add: parse_int_def r [unfolded s])
  qed
  have "rev ?gid = rev (show_nat (nat n)) @ CHR ''/'' # rev (''gid://shopify/'' @ gid_name)" unfolding p by simp
  moreover have "takeWhile (\<lambda>c. c \<noteq> CHR ''/'') (rev (show_nat (nat n)) @ CHR ''/'' # t) = rev (show_nat (nat n))" for t
    using show_nat_is_digit no_slash_in_digits by (subst takeWhile_append2) auto
  ultimately have "parse_graphql_id ?gid = show_int n" unfolding parse_graphql_id_def s by simp
  then show ?thesis using i assms(1) by (intro exI [of _ ?gid]) (simp add: create_gid_def)
qed

lemma gid_roundtrip_witness: "parse_int (PStr ''gid://shopify/Order/450'') 0 = 450"
proof -
  have n: "(0 :: int) < 450" by simp
  have d: "\<forall>c\<in>set ''Order''. \<not> is_digit c" by code_simp
  obtain gid where g: "create_gid ''Order'' (PInt 450) = Inr gid" "parse_int (PStr gid) 0 = 450"
    using gid_roundtrip [OF n d] by blast
  have "create_gid ''Order'' (PInt 450) = Inr ''gid://shopify/Order/450''" by code_simp
  then show ?thesis using g by simp
qed

section \<open>Answers\<close>

lemma parse_gql_clean:
  "parse_gql_json x = Inr y \<Longrightarrow> no_connection y"
  "parse_gql_list xs = Inr ys \<Longrightarrow> \<forall>y\<in>set ys. no_connection y"
  "parse_gql_fields kvs = Inr kvs' \<Longrightarrow> map fst kvs' = map fst kvs \<and> (\<forall>e\<in>set kvs'. no_connection (snd e))"
proof (induction x and xs and kvs arbitrary: y and ys and kvs' rule: parse_gql_json_parse_gql_list_parse_gql_fields.induct)
  case (2 kvs)
  have e: "\<forall>y\<in>set ys. no_connection y" if "py_elements v = Inr ys" "\<nexists>xs. v = PList xs" "\<nexists>xs. v = PTuple xs" for v ys
    using that by (cases v) (auto simp: py_elements_def)
  show ?case
  proof (cases "map_of kvs ''edges''")
    case (Some v)
    show ?thesis
    proof (cases "(\<exists>xs. v = PList xs) \<or> (\<exists>xs. v = PTuple xs)")
      case True
      then obtain xs where v: "v = PList xs \<or> v = PTuple xs" by blast
      then obtain ys where ys: "parse_gql_list xs = Inr ys" "y = PList ys" using 2(7) Some by (auto simp: rbind_eq_Inr)
      then have "\<forall>y\<in>set ys. no_connection y" using v 2(5) 2(6) Some by blast
      then show ?thesis using ys by simp
    next
      case False
      then obtain ys where "py_elements v = Inr ys" "y = PList ys"
        using 2(7) Some by (cases v) (auto simp: rbind_eq_Inr)
      then show ?thesis using e [of v ys] False by simp
    qed
  next
    case edges: None
    show ?thesis
    proof (cases "map_of kvs ''nodes''")
      case (Some v)
      show ?thesis
      proof (cases "(\<exists>xs. v = PList xs) \<or> (\<exists>xs. v = PTuple xs)")
        case True
        then obtain xs where v: "v = PList xs \<or> v = PTuple xs" by blast
        then obtain ys where ys: "parse_gql_list xs = Inr ys" "y = PList ys" using edges 2(7) Some by (auto simp: rbind_eq_Inr)
        then have "\<forall>y\<in>set ys. no_connection y" using v 2(3) 2(4) edges Some by blast
        then show ?thesis using ys by simp
      next
        case False
        then obtain ys where "py_elements v = Inr ys" "y = PList ys"
          using edges 2(7) Some by (cases v) (auto simp: rbind_eq_Inr)
        then show ?thesis using e [of v ys] False by simp
      qed
    next
      case nodes: None
      show ?thesis
      proof (cases "map_of kvs ''node''")
        case (Some v)
        then show ?thesis using edges nodes 2 by auto
      next
        case None
        then obtain kvs' where k: "parse_gql_fields kvs = Inr kvs'" "y = PDict kvs'"
          using edges nodes 2 by (auto simp: rbind_eq_Inr)
        then have "map fst kvs' = map fst kvs" "\<forall>e\<in>set kvs'. no_connection (snd e)" using 2 edges nodes None by blast+
        moreover from this have "map_of kvs' j = None \<longleftrightarrow> map_of kvs j = None" for j
          by (metis list.set_map map_of_eq_None_iff)
        ultimately show ?thesis using k edges nodes None by simp
      qed
    qed
  qed
qed (fastforce simp: rbind_eq_Inr)+

lemma parse_gql_fixed:
  "no_connection x \<Longrightarrow> parse_gql_json x = Inr x"
  "\<forall>x\<in>set xs. no_connection x \<Longrightarrow> parse_gql_list xs = Inr xs"
  "\<forall>e\<in>set kvs. no_connection (snd e) \<Longrightarrow> parse_gql_fields kvs = Inr kvs"
  by (induction x and xs and kvs rule: parse_gql_json_parse_gql_list_parse_gql_fields.induct) auto

text \<open>An answer of the shop that can be parsed has no connection left: no dictionary with edges, nodes or a node,
  at any depth of lists and dictionaries; and to parse it again changes nothing.\<close>
theorem parse_gql_json_idempotent:
  assumes "parse_gql_json x = Inr y"
  shows "no_connection y \<and> parse_gql_json y = Inr y"
  using parse_gql_clean(1) [OF assms] parse_gql_fixed(1) by blast

lemma parse_gql_json_idempotent_witness:
  "parse_gql_json (PDict [(''id'', PInt 5), (''lines'', PList [PDict [(''id'', PInt 1)]])]) =
     Inr (PDict [(''id'', PInt 5), (''lines'', PList [PDict [(''id'', PInt 1)]])])"
proof -
  have "parse_gql_json (PDict [(''id'', PInt 5), (''lines'', PDict [(''edges'', PList [PDict [(''node'', PDict [(''id'', PInt 1)])]])])]) =
     Inr (PDict [(''id'', PInt 5), (''lines'', PList [PDict [(''id'', PInt 1)]])])" by simp
  from parse_gql_json_idempotent [OF this] show ?thesis by blast
qed

end
