(* ===== verification/MappingErrors.thy ===== *)
theory MappingErrors
  imports IntegrationQueue
begin

text \<open>
  The texts of the exceptions of missing mappings (\<open>integration/exceptions.py\<close>) and what a failed job keeps of
  them: the model of the jobs searches the traceback by a regular expression (\<open>write\<close> of
  \<open>integration/models/queue_job.py\<close>) and stores the kind of exception, the model, the key and the integration, by
  which \<open>requeue_integration_jobs\<close> finds the job again. The expression is composed of matchers with the
  backtracking of the module \<open>re\<close>.
\<close>

definition newline :: char where "newline = CHR ''\<newline>''"

section \<open>Texts of the exceptions\<close>

text \<open>An integration is its name and its identifier. The arrow of the message is in UTF-8.\<close>

record integration =
  in_name :: string
  in_id :: int

definition arrow :: string where "arrow = map char_of [226, 134, 146 :: nat]"

definition not_mapped_from_external :: "string \<Rightarrow> string \<Rightarrow> string \<Rightarrow> integration option \<Rightarrow> string" where
  "not_mapped_from_external msg model_name code integration =
     (case integration of
        Some i \<Rightarrow>
          if model_name \<noteq> [] \<and> code \<noteq> []
          then in_name i @ '' '' @ arrow @ '' '' @ model_name @ ''(code='' @ code @ '', integration='' @
            show_int (in_id i) @ '') '' @ [newline] @ msg
          else msg
      | None \<Rightarrow> msg)"

text \<open>The texts without a model and a key.\<close>

definition export_error :: "string \<Rightarrow> string" where
  "export_error msg =
     ''Export error: '' @ msg @ [newline, newline] @
     ''Suggested action: The corresponding external record does not exist. Please manually export the Odoo entity to '' @
     ''the e-commerce system or wait for the export job to complete. '' @
     ''If the issue persists, please contact our support team: https://support.ventor.tech/''"

definition external_not_found :: "string \<Rightarrow> string" where
  "external_not_found msg =
     ''External record not found: '' @ msg @ [newline, newline] @
     ''Suggested action: Please ensure the relevant objects are imported from the e-commerce system.'' @ [newline] @
     ''Steps to resolve:'' @ [newline] @
     ''  1. Confirm the external record exists in the e-commerce system.'' @ [newline] @
     ''  2. Import the record into Odoo using the import process.'' @ [newline, newline] @
     ''If the issue persists, please contact our support team: https://support.ventor.tech/''"

definition not_mapped_to_external :: "string \<Rightarrow> string \<Rightarrow> int \<Rightarrow> integration option \<Rightarrow> string" where
  "not_mapped_to_external msg model_name obj_id integration =
     (case integration of
        Some i \<Rightarrow>
          if model_name \<noteq> [] \<and> obj_id \<noteq> 0
          then ''Export error for model \"'' @ model_name @ ''\" with ID \"'' @ show_int obj_id @ ''\" in '' @ in_name i @
            '' integration (ID: '' @ show_int (in_id i) @ '').'' @ [newline] @ ''Details: '' @ msg @ [newline, newline] @
            ''Suggested action: The corresponding external record does not exist. This usually means '' @
            ''the Odoo entity (e.g., product) was not exported to the e-commerce system.'' @ [newline] @
            ''Please try the following steps:'' @ [newline] @
            ''  1. Manually export the problematic entity from Odoo to the e-commerce system, or'' @ [newline] @
            ''  2. If there is an export job in the queue, please wait until the export job is completed.'' @
            [newline, newline] @ ''If the issue persists or the export fails, please contact our support '' @
            ''team: https://support.ventor.tech/''
          else export_error msg
      | None \<Rightarrow> export_error msg)"

definition no_external :: "string \<Rightarrow> string \<Rightarrow> string \<Rightarrow> integration option \<Rightarrow> string" where
  "no_external msg model_name code integration =
     (case integration of
        Some i \<Rightarrow>
          if model_name \<noteq> [] \<and> code \<noteq> []
          then ''External record not found for model \"'' @ model_name @ ''\" with code \"'' @ code @
            ''\" in integration ID '' @ show_int (in_id i) @ ''.'' @ [newline] @ ''Details: '' @ msg @ [newline, newline] @
            ''Suggested action: Please ensure the relevant objects are imported from the e-commerce system.'' @ [newline] @
            ''Steps to resolve:'' @ [newline] @
            ''  1. Check the e-commerce system to confirm that the record with code \"'' @ code @ ''\" exists.'' @ [newline] @
            ''  2. If the record exists, make sure it is correctly imported into Odoo via the import process.'' @ [newline] @
            ''  3. If the record does not exist, ensure it is created in the e-commerce system and '' @
            ''then import it into Odoo.'' @ [newline, newline] @
            ''If the issue persists, please contact our support team: https://support.ventor.tech/''
          else external_not_found msg
      | None \<Rightarrow> external_not_found msg)"

section \<open>Matchers\<close>

text \<open>A matcher takes what follows it as an argument, which may refuse the rest of the text: a literal, the first
  of several literals, and \<open>.*\<close>, which takes as much of the line as what follows allows.\<close>

definition re_lit :: "string \<Rightarrow> (string \<Rightarrow> 'a option) \<Rightarrow> string \<Rightarrow> 'a option" where
  "re_lit p k s = (if py_startswith s p then k (drop (length p) s) else None)"

fun re_alt :: "string list \<Rightarrow> (string \<Rightarrow> 'a option) \<Rightarrow> string \<Rightarrow> (string \<times> 'a) option" where
  "re_alt [] k s = None"
| "re_alt (p # ps) k s = (case re_lit p k s of Some x \<Rightarrow> Some (p, x) | None \<Rightarrow> re_alt ps k s)"

fun re_dots :: "(string \<Rightarrow> 'a option) \<Rightarrow> string \<Rightarrow> (string \<times> 'a) option" where
  "re_dots k [] = map_option (Pair []) (k [])"
| "re_dots k (c # s) =
     (case (if c = newline then None else re_dots k s) of
        Some (p, x) \<Rightarrow> Some (c # p, x)
      | None \<Rightarrow> map_option (Pair []) (k (c # s)))"

fun re_search :: "(string \<Rightarrow> 'a option) \<Rightarrow> string \<Rightarrow> 'a option" where
  "re_search k [] = k []"
| "re_search k (c # s) = (case k (c # s) of Some x \<Rightarrow> Some x | None \<Rightarrow> re_search k s)"

section \<open>What a failed job keeps\<close>

definition exception_names :: "string list" where
  "exception_names = [''NotMappedFromExternal'', ''NotMappedToExternal'', ''NoExternal'']"

definition match_open :: "string \<Rightarrow> (string \<times> string \<times> string \<times> unit) option" where
  "match_open =
     re_lit ''('' (re_alt [''code'', ''id''] (re_lit ''='' (re_dots (re_lit '', integration='' (re_dots (re_lit '')'' (\<lambda>_. Some ())))))))"

definition match_exception :: "string \<Rightarrow> (string \<times> string \<times> string \<times> string \<times> string \<times> unit) option" where
  "match_exception = re_alt exception_names (re_lit '': '' (re_dots match_open))"

record exception_key =
  xk_name :: string
  xk_model :: string
  xk_key :: string
  xk_integration :: string

definition find_exception :: "string \<Rightarrow> exception_key option" where
  "find_exception exc_info =
     map_option (\<lambda>(n, m, _, k, i, _). \<lparr>xk_name = n, xk_model = m, xk_key = k, xk_integration = i\<rparr>)
       (re_search match_exception exc_info)"

text \<open>The values that a failed job gets, if an integration is known. \<open>int\<close> of a text that is no number raises.\<close>

definition exception_values :: "row \<Rightarrow> fields result" where
  "exception_values r =
     (let x = (case fld ''exc_info'' r of PStr t \<Rightarrow> if t = [] then None else find_exception t | _ \<Rightarrow> None);
          names = (case x of None \<Rightarrow> (PNone, PNone, PNone) | Some y \<Rightarrow> (PStr (xk_name y), PStr (xk_model y), PStr (xk_key y)));
          integration_id = (case x of None \<Rightarrow> fld ''integration_id'' r | Some y \<Rightarrow> PStr (xk_integration y))
      in if \<not> py_true integration_id then Inr []
         else rbind (case integration_id of
                  PStr s \<Rightarrow> (case py_int s of None \<Rightarrow> Inl ValueError | Some n \<Rightarrow> Inr n)
                | PInt n \<Rightarrow> Inr n
                | _ \<Rightarrow> Inl TypeError) (\<lambda>n.
              Inr [(''integration_exception_name'', fst names), (''integration_model_name'', fst (snd names)),
                   (''integration_key'', snd (snd names)), (''integration_id'', PInt n)]))"

fun record_exceptions :: "string list \<Rightarrow> table \<Rightarrow> table result" where
  "record_exceptions uuids [] = Inr []"
| "record_exceptions uuids (r # db) =
     rbind (if row_uuid r \<in> set uuids then exception_values r else Inr []) (\<lambda>vals.
     rbind (record_exceptions uuids db) (\<lambda>db'. Inr (dict_update r vals # db')))"

definition integration_write :: "bool \<Rightarrow> int \<Rightarrow> fields \<Rightarrow> string list \<Rightarrow> table \<Rightarrow> table result" where
  "integration_write sentinel env_uid vals uuids db =
     rbind (queue_job_write sentinel env_uid vals uuids db) (\<lambda>db1.
     if dict_get PNone vals ''state'' = PStr ''failed'' then record_exceptions uuids db1 else Inr db1)"

end
