(* ===== verification/MappingTables.thy ===== *)
theory MappingTables
  imports MappingErrors
begin

text \<open>
  The mappings between the records of the shop and those of Odoo (\<open>integration/models/mixins\<close>:
  \<open>integration_mapping_mixin.py\<close>, \<open>integration_external_mixin.py\<close>, \<open>integration_model_mixin.py\<close>). A kind of
  record, as a country or a product, has a table of external records, which the shop names by a code, and a table
  of mappings from an external record to at most one record of Odoo. Both mixins requeue the jobs that failed for
  what has been mapped. The state holds both tables and that of the jobs; a record of Odoo is its identifier,
  and a recordset a list of identifiers. An error rolls the transaction back.
\<close>

record external =
  ex_id :: int
  ex_integration :: int
  ex_code :: string
  ex_name :: "string option"
  ex_reference :: "string option"

record mapping =
  mp_id :: int
  mp_integration :: int
  mp_internal :: "int option"
  mp_external :: int

text \<open>The constraint on the mappings that a kind of record declares.\<close>

datatype mapping_constraint = NoConstraint | UniqueExternal | UniquePair

record mapping_model =
  mm_name :: string
  mm_external_name :: string
  mm_odoo_name :: string
  mm_map_field :: "external \<Rightarrow> string option"
  mm_constraint :: mapping_constraint
  mm_queue :: queue_env

record mapping_db =
  md_externals :: "external list"
  md_next_external :: int
  md_mappings :: "mapping list"
  md_next_mapping :: int
  md_jobs :: table

text \<open>What the operations raise: the exceptions of the integration with their texts, several records where one is
  expected, a violated constraint of the database, which fails the transaction whatever the handler does, a
  failed assertion, and the errors of the requeue.\<close>

datatype map_error =
    NotMappedFromExternal string
  | NotMappedToExternal string
  | NoExternal string
  | MultipleExternalRecordsFound
  | SeveralRecords
  | ExpectedSingleton
  | UniqueViolation
  | AssertionFailed
  | JobError PyError

type_synonym 'a mapped = "map_error + 'a"

definition job_result :: "mapping_db \<Rightarrow> table result \<Rightarrow> mapping_db mapped" where
  "job_result d r = (case r of Inl e \<Rightarrow> Inl (JobError e) | Inr db \<Rightarrow> Inr (d\<lparr>md_jobs := db\<rparr>))"

definition requeue_for :: "mapping_model \<Rightarrow> string \<Rightarrow> string \<Rightarrow> string \<Rightarrow> mapping_db \<Rightarrow> mapping_db mapped" where
  "requeue_for mm exception_name model_name key d =
     job_result d (requeue_integration_jobs (mm_queue mm) exception_name model_name key (md_jobs d))"

section \<open>External records\<close>

text \<open>The constraints \<open>uniq_code\<close> and \<open>uniq_reference\<close>; references that are not set differ.\<close>

definition externals_unique :: "external list \<Rightarrow> bool" where
  "externals_unique xs \<longleftrightarrow> distinct (map (\<lambda>x. (ex_integration x, ex_code x)) xs) \<and>
     distinct (map (\<lambda>x. (ex_integration x, ex_reference x)) (filter (\<lambda>x. ex_reference x \<noteq> None) xs))"

definition search_external :: "int \<Rightarrow> string \<Rightarrow> mapping_db \<Rightarrow> external list" where
  "search_external integration code d = filter (\<lambda>x. ex_integration x = integration \<and> ex_code x = code) (md_externals d)"

text \<open>The values for an external record; \<open>None\<close> if a value is not given.\<close>

record external_vals =
  ev_integration :: int
  ev_code :: string
  ev_name :: "string option option"
  ev_reference :: "string option option"

definition external_requeue_jobs_if_needed :: "mapping_model \<Rightarrow> external \<Rightarrow> mapping_db \<Rightarrow> mapping_db mapped" where
  "external_requeue_jobs_if_needed mm x d =
     (if ex_reference x \<noteq> None \<and> ex_reference x \<noteq> Some [] then requeue_for mm ''NoExternal'' (mm_external_name mm) (ex_code x) d
      else Inr d)"

definition create_external :: "mapping_model \<Rightarrow> external_vals \<Rightarrow> mapping_db \<Rightarrow> (external \<times> mapping_db) mapped" where
  "create_external mm vals d =
     (let x = \<lparr>ex_id = md_next_external d, ex_integration = ev_integration vals, ex_code = ev_code vals,
               ex_name = (case ev_name vals of None \<Rightarrow> None | Some n \<Rightarrow> n),
               ex_reference = (case ev_reference vals of None \<Rightarrow> None | Some r \<Rightarrow> r)\<rparr>;
          d1 = d\<lparr>md_externals := md_externals d @ [x], md_next_external := md_next_external d + 1\<rparr>
      in if \<not> externals_unique (md_externals d1) then Inl UniqueViolation
         else rbind (external_requeue_jobs_if_needed mm x d1) (\<lambda>d2. Inr (x, d2)))"

definition write_external :: "mapping_model \<Rightarrow> external \<Rightarrow> external_vals \<Rightarrow> mapping_db \<Rightarrow> (external \<times> mapping_db) mapped" where
  "write_external mm x vals d =
     (let x1 = \<lparr>ex_id = ex_id x, ex_integration = ev_integration vals, ex_code = ev_code vals,
                ex_name = (case ev_name vals of None \<Rightarrow> ex_name x | Some n \<Rightarrow> n),
                ex_reference = (case ev_reference vals of None \<Rightarrow> ex_reference x | Some r \<Rightarrow> r)\<rparr>;
          d1 = d\<lparr>md_externals := map (\<lambda>y. if ex_id y = ex_id x then x1 else y) (md_externals d)\<rparr>
      in rbind (external_requeue_jobs_if_needed mm x1 d1) (\<lambda>d2.
         if \<not> externals_unique (md_externals d2) then Inl UniqueViolation else Inr (x1, d2)))"

definition create_or_update :: "mapping_model \<Rightarrow> external_vals \<Rightarrow> mapping_db \<Rightarrow> (external \<times> mapping_db) mapped" where
  "create_or_update mm vals d =
     (case search_external (ev_integration vals) (ev_code vals) d of
        x # _ \<Rightarrow> write_external mm x vals d
      | [] \<Rightarrow> create_external mm vals d)"

definition get_external_by_code ::
  "mapping_model \<Rightarrow> integration \<Rightarrow> string \<Rightarrow> bool \<Rightarrow> mapping_db \<Rightarrow> external list mapped" where
  "get_external_by_code mm integration code raise_error d =
     (let xs = search_external (in_id integration) code d
      in if raise_error \<and> xs = [] then Inl (NoExternal (no_external
           ([newline] @ ''Cannot find external record. Please ensure the relevant objects are imported from the E-Commerce System.'')
           (mm_external_name mm) code (Some integration)))
         else if raise_error \<and> length xs > 1 then Inl MultipleExternalRecordsFound else Inr xs)"

section \<open>Mappings\<close>

definition mappings_unique :: "mapping_constraint \<Rightarrow> mapping list \<Rightarrow> bool" where
  "mappings_unique c ms \<longleftrightarrow>
     (case c of
        NoConstraint \<Rightarrow> True
      | UniqueExternal \<Rightarrow> distinct (map (\<lambda>m. (mp_integration m, mp_external m)) ms)
      | UniquePair \<Rightarrow> distinct (map (\<lambda>m. (mp_integration m, mp_internal m, mp_external m))
          (filter (\<lambda>m. mp_internal m \<noteq> None) ms)))"

text \<open>The external record of a mapping, and the records of Odoo of some mappings.\<close>

definition external_of :: "mapping_db \<Rightarrow> mapping \<Rightarrow> external option" where
  "external_of d m = find (\<lambda>x. ex_id x = mp_external m) (md_externals d)"

definition internal_records :: "mapping list \<Rightarrow> int list" where
  "internal_records ms = remdups (List.map_filter mp_internal ms)"

fun requeue_jobs_if_needed :: "mapping_model \<Rightarrow> mapping list \<Rightarrow> mapping_db \<Rightarrow> mapping_db mapped" where
  "requeue_jobs_if_needed mm [] d = Inr d"
| "requeue_jobs_if_needed mm (m # ms) d =
     (case (mp_internal m, external_of d m) of
        (Some i, Some x) \<Rightarrow>
          rbind (requeue_for mm ''NotMappedFromExternal'' (mm_name mm) (ex_code x) d) (\<lambda>d1.
          rbind (requeue_for mm ''NotMappedToExternal'' (mm_name mm) (show_int i) d1) (requeue_jobs_if_needed mm ms))
      | _ \<Rightarrow> requeue_jobs_if_needed mm ms d)"

definition create_mapping :: "mapping_model \<Rightarrow> int \<Rightarrow> int option \<Rightarrow> int \<Rightarrow> mapping_db \<Rightarrow> (mapping list \<times> mapping_db) mapped" where
  "create_mapping mm integration internal external_id d =
     (let m = \<lparr>mp_id = md_next_mapping d, mp_integration = integration, mp_internal = internal, mp_external = external_id\<rparr>;
          d1 = d\<lparr>md_mappings := md_mappings d @ [m], md_next_mapping := md_next_mapping d + 1\<rparr>
      in if \<not> mappings_unique (mm_constraint mm) (md_mappings d1) then Inl UniqueViolation
         else rbind (requeue_jobs_if_needed mm [m] d1) (\<lambda>d2. Inr ([m], d2)))"

text \<open>The record of Odoo of some mappings is written.\<close>

definition write_internal :: "mapping_model \<Rightarrow> mapping list \<Rightarrow> int option \<Rightarrow> mapping_db \<Rightarrow> (mapping list \<times> mapping_db) mapped" where
  "write_internal mm ms internal d =
     (let ms1 = map (\<lambda>m. m\<lparr>mp_internal := internal\<rparr>) ms;
          d1 = d\<lparr>md_mappings := map (\<lambda>m. if m \<in> set ms then m\<lparr>mp_internal := internal\<rparr> else m) (md_mappings d)\<rparr>
      in if \<not> mappings_unique (mm_constraint mm) (md_mappings d1) then Inl UniqueViolation
         else rbind (requeue_jobs_if_needed mm ms1 d1) (\<lambda>d2. Inr (ms1, d2)))"

definition search_mappings :: "int \<Rightarrow> int \<Rightarrow> mapping_db \<Rightarrow> mapping list" where
  "search_mappings integration external_id d =
     filter (\<lambda>m. mp_integration m = integration \<and> mp_external m = external_id) (md_mappings d)"

definition create_integration_mapping ::
  "mapping_model \<Rightarrow> int \<Rightarrow> int \<Rightarrow> string \<Rightarrow> string option option \<times> string option option \<Rightarrow> mapping_db \<Rightarrow>
    (mapping list \<times> mapping_db) mapped" where
  "create_integration_mapping mm integration odoo_value code extra_vals d =
     rbind (create_or_update mm
         \<lparr>ev_integration = integration, ev_code = code, ev_name = fst extra_vals, ev_reference = snd extra_vals\<rparr> d) (\<lambda>(x, d1).
     case search_mappings integration (ex_id x) d1 of
       [] \<Rightarrow> create_mapping mm integration (Some odoo_value) (ex_id x) d1
     | m # ms \<Rightarrow>
         if map_option ex_code (external_of d1 m) \<noteq> Some code then Inl AssertionFailed
         else write_internal mm (m # ms) (Some odoo_value) d1)"

section \<open>From the shop to Odoo and back\<close>

definition search_mapping_from_external :: "int \<Rightarrow> external list \<Rightarrow> mapping_db \<Rightarrow> mapping list mapped" where
  "search_mapping_from_external integration xs d =
     (case xs of
        [] \<Rightarrow> Inr []
      | [x] \<Rightarrow> Inr (search_mappings integration (ex_id x) d)
      | _ \<Rightarrow> Inl SeveralRecords)"

definition get_mapping :: "int \<Rightarrow> string \<Rightarrow> mapping_db \<Rightarrow> mapping list mapped" where
  "get_mapping integration code d =
     (if code = [] then Inr [] else search_mapping_from_external integration (search_external integration code d) d)"

definition get_mapping_from_name :: "int \<Rightarrow> string \<Rightarrow> mapping_db \<Rightarrow> mapping list mapped" where
  "get_mapping_from_name integration name d =
     search_mapping_from_external integration
       (filter (\<lambda>x. ex_integration x = integration \<and> ex_name x = Some name) (md_externals d)) d"

definition get_internal_record :: "mapping_model \<Rightarrow> mapping list \<Rightarrow> integration \<Rightarrow> string \<Rightarrow> bool \<Rightarrow> int list mapped" where
  "get_internal_record mm ms integration code raise_error =
     (if internal_records ms = [] \<and> raise_error
      then Inl (NotMappedFromExternal (not_mapped_from_external
             (''Unable to map the external code \"'' @ code @ ''\" to an Odoo record.'') (mm_name mm) code (Some integration)))
      else Inr (internal_records ms))"

definition to_odoo :: "mapping_model \<Rightarrow> integration \<Rightarrow> string \<Rightarrow> bool \<Rightarrow> mapping_db \<Rightarrow> int list mapped" where
  "to_odoo mm integration code raise_error d =
     rbind (get_mapping (in_id integration) code d) (\<lambda>ms. get_internal_record mm ms integration code raise_error)"

definition to_odoo_from_name :: "mapping_model \<Rightarrow> integration \<Rightarrow> string \<Rightarrow> bool \<Rightarrow> mapping_db \<Rightarrow> int list mapped" where
  "to_odoo_from_name mm integration name raise_error d =
     rbind (get_mapping_from_name (in_id integration) name d) (\<lambda>ms. get_internal_record mm ms integration name raise_error)"

text \<open>The newest mapping of a record of Odoo counts.\<close>

definition newest_mapping :: "int \<Rightarrow> int \<Rightarrow> mapping_db \<Rightarrow> mapping option" where
  "newest_mapping integration odoo_value d =
     (case rev (sort_key mp_id (filter (\<lambda>m. mp_integration m = integration \<and> mp_internal m = Some odoo_value) (md_mappings d))) of
        [] \<Rightarrow> None | m # _ \<Rightarrow> Some m)"

definition to_external_record ::
  "mapping_model \<Rightarrow> integration \<Rightarrow> int \<Rightarrow> bool \<Rightarrow> mapping_db \<Rightarrow> external option mapped" where
  "to_external_record mm integration odoo_value raise_error d =
     (case newest_mapping (in_id integration) odoo_value d of
        None \<Rightarrow>
          if raise_error then Inl (NotMappedToExternal (not_mapped_to_external
            ''Unable to find a corresponding external record for the given Odoo record.'' (mm_odoo_name mm) odoo_value
            (Some integration)))
          else Inr None
      | Some m \<Rightarrow> Inr (external_of d m))"

definition to_external :: "mapping_model \<Rightarrow> integration \<Rightarrow> int \<Rightarrow> mapping_db \<Rightarrow> string option mapped" where
  "to_external mm integration odoo_value d =
     rbind (to_external_record mm integration odoo_value True d) (\<lambda>x. Inr (map_option ex_code x))"

definition get_external_code :: "mapping_model \<Rightarrow> integration \<Rightarrow> int \<Rightarrow> mapping_db \<Rightarrow> string option mapped" where
  "get_external_code mm integration odoo_value d =
     rbind (to_external_record mm integration odoo_value False d) (\<lambda>x. Inr (map_option ex_code x))"

section \<open>Mapping an external record\<close>

text \<open>The argument \<open>odoo_id\<close>: \<open>None\<close>, \<open>False\<close> or an identifier.\<close>

datatype odoo_arg = NoArg | Unset | OdooId int

definition arg_value :: "odoo_arg \<Rightarrow> int option" where
  "arg_value a = (case a of OdooId i \<Rightarrow> Some i | _ \<Rightarrow> None)"

definition mapping_record :: "external \<Rightarrow> mapping_db \<Rightarrow> mapping list mapped" where
  "mapping_record x d = search_mapping_from_external (ex_integration x) [x] d"

definition odoo_record :: "external \<Rightarrow> mapping_db \<Rightarrow> int list mapped" where
  "odoo_record x d = rbind (mapping_record x d) (\<lambda>ms. Inr (internal_records ms))"

text \<open>\<open>id\<close> of a recordset: \<open>False\<close> if it is empty, an error if it has several records.\<close>

definition record_id :: "int list \<Rightarrow> int option mapped" where
  "record_id rs = (case rs of [] \<Rightarrow> Inr None | [i] \<Rightarrow> Inr (Some i) | _ \<Rightarrow> Inl ExpectedSingleton)"

definition create_or_update_mapping ::
  "mapping_model \<Rightarrow> external \<Rightarrow> odoo_arg \<Rightarrow> mapping_db \<Rightarrow> (mapping list \<times> mapping_db) mapped" where
  "create_or_update_mapping mm x odoo_id d =
     rbind (mapping_record x d) (\<lambda>ms.
     if ms = [] then create_mapping mm (ex_integration x) (arg_value odoo_id) (ex_id x) d
     else if odoo_id = NoArg then Inr (ms, d)
     else rbind (record_id (internal_records ms)) (\<lambda>i.
          if i \<noteq> arg_value odoo_id then write_internal mm ms (arg_value odoo_id) d else Inr (ms, d)))"

text \<open>The search of the records of Odoo for a reference is an argument.\<close>

definition try_map_by_external_reference ::
  "mapping_model \<Rightarrow> (string \<Rightarrow> int list) \<Rightarrow> external \<Rightarrow> mapping_db \<Rightarrow> (int list \<times> mapping_db) mapped" where
  "try_map_by_external_reference mm search x d =
     rbind (odoo_record x d) (\<lambda>rs.
     if rs \<noteq> [] then Inr (rs, d)
     else rbind (create_or_update_mapping mm x NoArg d) (\<lambda>(_, d1).
          let found = (case mm_map_field mm x of None \<Rightarrow> [] | Some reference \<Rightarrow> if reference = [] then [] else search reference)
          in if length found > 1 then Inl SeveralRecords
             else rbind (case found of [] \<Rightarrow> Inr d1
                    | i # _ \<Rightarrow> rbind (create_or_update_mapping mm x (OdooId i) d1) (\<lambda>(_, d2). Inr d2)) (\<lambda>d2.
                  rbind (odoo_record x d2) (\<lambda>rs. Inr (rs, d2)))))"

fun map_external :: "mapping_model \<Rightarrow> (string \<Rightarrow> int list) \<Rightarrow> external list \<Rightarrow> mapping_db \<Rightarrow> mapping_db mapped" where
  "map_external mm search [] d = Inr d"
| "map_external mm search (x # xs) d =
     rbind (try_map_by_external_reference mm search x d) (\<lambda>(_, d1). map_external mm search xs d1)"

section \<open>Removing mappings\<close>

definition clear_mappings :: "int \<Rightarrow> int list \<Rightarrow> mapping_db \<Rightarrow> mapping_db" where
  "clear_mappings integration records d =
     d\<lparr>md_mappings := filter (\<lambda>m. \<not> (mp_integration m = integration \<and>
         (records = [] \<or> (\<exists>i\<in>set records. mp_internal m = Some i)))) (md_mappings d)\<rparr>"

definition unmap :: "mapping_model \<Rightarrow> mapping list \<Rightarrow> mapping_db \<Rightarrow> mapping_db mapped" where
  "unmap mm ms d = rbind (write_internal mm ms None d) (\<lambda>(_, d1). Inr d1)"

definition bind_odoo :: "mapping_model \<Rightarrow> mapping list \<Rightarrow> int \<Rightarrow> mapping_db \<Rightarrow> mapping_db mapped" where
  "bind_odoo mm ms odoo_value d =
     (if length ms \<noteq> 1 then Inl ExpectedSingleton
      else rbind (write_internal mm ms (Some odoo_value) d) (\<lambda>(_, d1). Inr d1))"

end
