(* ===== verification/MappingErrorFacts.thy ===== *)
theory MappingErrorFacts
  imports MappingErrors IntegrationQueueProperties
begin

text \<open>
  What the matchers find in a traceback that names its exception once, and what the requeue does to the jobs of
  a table.
\<close>

section \<open>Matchers\<close>

lemma py_startswith_Cons [simp]: "py_startswith s []" "py_startswith (a # s) (b # p) \<longleftrightarrow> a = b \<and> py_startswith s p"
  by (auto simp: py_startswith_def)

lemma re_lit_hit [simp]: "re_lit p k (p @ s) = k s"
  by (simp add: re_lit_def)

lemma re_lit_miss: "s = [] \<or> hd s \<noteq> hd p \<Longrightarrow> p \<noteq> [] \<Longrightarrow> re_lit p k s = None"
  by (cases s; cases p) (auto simp: re_lit_def py_startswith_def)

text \<open>\<open>.*\<close> before a literal that begins with a character: nothing is found in a line without it, and what comes
  before the last one is taken.\<close>

definition line :: "string \<Rightarrow> string" where "line s = takeWhile (\<lambda>c. c \<noteq> newline) s"

lemma line_simps [simp]: "line [] = []" "line (newline # s) = []" "c \<noteq> newline \<Longrightarrow> line (c # s) = c # line s"
  by (simp_all add: line_def)

lemma line_append: "newline \<notin> set p \<Longrightarrow> line (p @ s) = p @ line s"
  by (induction p) (auto simp: line_def)

lemma re_dots_None: "p \<noteq> [] \<Longrightarrow> hd p \<noteq> newline \<Longrightarrow> hd p \<notin> set (line s) \<Longrightarrow> re_dots (re_lit p k) s = None"
  by (induction "re_lit p k" s rule: re_dots.induct) (auto simp: re_lit_miss split: if_splits)

lemma re_dots_skip: "re_dots k s = Some (q, x) \<Longrightarrow> newline \<notin> set p \<Longrightarrow> re_dots k (p @ s) = Some (p @ q, x)"
  by (induction p) auto

lemma re_dots_last:
  assumes "k (p @ s) = Some x" and "hd p \<notin> set (line (tl p @ s))" and "p \<noteq> []" "hd p \<noteq> newline" and "newline \<notin> set q"
    and "k = re_lit p k'"
  shows "re_dots k (q @ p @ s) = Some (q, x)"
proof -
  have "re_dots k (tl p @ s) = None" unfolding assms(6) by (rule re_dots_None [OF assms(3,4,2)])
  then have "re_dots k (p @ s) = Some ([], x)" using assms(1,3) by (cases p) auto
  from re_dots_skip [OF this assms(5)] show ?thesis by simp
qed

lemma re_search_unique:
  assumes "\<forall>i<length s. i \<noteq> k \<longrightarrow> m (drop i s) = None" and "m [] = None"
  shows "re_search m s = m (drop k s)"
  using assms
proof (induction s arbitrary: k)
  case (Cons c s)
  have t: "\<forall>i<length s. Suc i \<noteq> k \<longrightarrow> m (drop i s) = None" using Cons.prems(1) by fastforce
  show ?case
  proof (cases k)
    case 0
    have "re_search m s = m (drop (length s) s)" by (rule Cons.IH) (use t 0 Cons.prems(2) in auto)
    with 0 Cons.prems(2) show ?thesis by (simp split: option.splits)
  next
    case (Suc l)
    have "m (c # s) = None" using Cons.prems(1) Suc by (metis Suc_not_Zero drop0 length_Cons zero_less_Suc)
    moreover have "re_search m s = m (drop l s)" by (rule Cons.IH) (use t Suc Cons.prems(2) in auto)
    ultimately show ?thesis using Suc by simp
  qed
qed simp

section \<open>Tracebacks\<close>

text \<open>The places of a text at which an exception is named, with a colon after it.\<close>

definition named_at :: "string \<Rightarrow> (nat \<times> string) list" where
  "named_at s = [(i, n). i \<leftarrow> [0..<length s], n \<leftarrow> exception_names, py_startswith (drop i s) (n @ '': '')]"

lemma named_at_simps:
  "named_at [] = []"
  "named_at (c # s) = map (Pair 0) (filter (\<lambda>n. py_startswith (c # s) (n @ '': '')) exception_names) @ map (map_prod Suc id) (named_at s)"
proof -
  have f: "concat (map (\<lambda>n. if P n then [(k, n)] else []) ns) = map (Pair k) (filter P ns)" for P k and ns :: "string list"
    by (induction ns) auto
  have "[0..<length (c # s)] = 0 # map Suc [0..<length s]" by (simp add: upt_conv_Cons map_Suc_upt del: upt_Suc)
  then show "named_at (c # s) = map (Pair 0) (filter (\<lambda>n. py_startswith (c # s) (n @ '': '')) exception_names) @ map (map_prod Suc id) (named_at s)"
    by (simp add: named_at_def f map_concat comp_def del: upt_Suc)
qed (simp add: named_at_def)

lemma py_startswith_split: "py_startswith s (p @ q) \<longleftrightarrow> py_startswith s p \<and> py_startswith (drop (length p) s) q"
proof -
  have "take (length p) s = p \<and> take (length q) (drop (length p) s) = q" if e: "take (length p + length q) s = p @ q"
    using arg_cong [OF e, of "take (length p)"] arg_cong [OF e, of "drop (length p)"] by (simp add: drop_take min_def)
  then show ?thesis by (auto simp: py_startswith_def take_add)
qed

lemma match_exception_named:
  assumes "match_exception s \<noteq> None" shows "\<exists>n\<in>set exception_names. py_startswith s (n @ '': '')"
  using assms unfolding match_exception_def exception_names_def py_startswith_split
  by (auto simp: re_lit_def split: if_splits option.splits)

text \<open>Only the first name of an exception that is matched counts.\<close>

lemma re_alt_one:
  "\<forall>p\<in>set ps. p \<noteq> n \<longrightarrow> \<not> py_startswith (n @ s) p \<Longrightarrow>
    re_alt ps k (n @ s) = (if n \<in> set ps then map_option (Pair n) (k s) else None)"
  by (induction ps) (auto simp: re_lit_def split: option.splits)

lemma match_exception_name:
  assumes "n \<in> set exception_names"
  shows "match_exception (n @ '': '' @ s) = map_option (Pair n) (re_dots match_open s)"
proof -
  have "n = ''NotMappedFromExternal'' \<or> n = ''NotMappedToExternal'' \<or> n = ''NoExternal''"
    using assms by (simp add: exception_names_def)
  then have "\<forall>p\<in>set exception_names. p \<noteq> n \<longrightarrow> \<not> py_startswith (n @ '': '' @ s) p"
    unfolding exception_names_def by (elim disjE) simp_all
  from re_alt_one [OF this, of "re_lit '': '' (re_dots match_open)"] assms show ?thesis
    by (simp add: match_exception_def re_lit_def)
qed

lemma named_once:
  assumes "named_at s = [(length pre, n)]" and "s = pre @ n @ '': '' @ t"
  shows "re_search match_exception s = map_option (Pair n) (re_dots match_open t)"
proof -
  have n: "n \<in> set exception_names" using arg_cong [OF assms(1), of set] by (auto simp: named_at_def)
  have "match_exception (drop i s) = None" if "i < length s" "i \<noteq> length pre" for i
  proof (rule ccontr)
    assume "match_exception (drop i s) \<noteq> None"
    then obtain m where "m \<in> set exception_names" "py_startswith (drop i s) (m @ '': '')" using match_exception_named by blast
    then have "(i, m) \<in> set (named_at s)" using that(1) by (auto simp: named_at_def)
    then show False using assms(1) that(2) by simp
  qed
  moreover have "match_exception [] = None" by (simp add: match_exception_def exception_names_def re_lit_def py_startswith_def)
  ultimately have "re_search match_exception s = match_exception (drop (length pre) s)" by (intro re_search_unique) auto
  then show ?thesis using match_exception_name [OF n, of t] assms(2) by simp
qed

lemma show_int_chars [simp]:
  "newline \<notin> set (show_int n)" "CHR '','' \<notin> set (show_int n)" "CHR ''('' \<notin> set (show_int n)" "CHR '')'' \<notin> set (show_int n)"
proof -
  have digit: "digit_char d \<noteq> CHR ''(''" "digit_char d \<noteq> CHR '')''" if "d < 10" for d
  proof -
    from that have "d \<in> {0, 1, 2, 3, 4, 5, 6, 7, 8, 9}" by auto
    then show "digit_char d \<noteq> CHR ''(''" "digit_char d \<noteq> CHR '')''"
      by (elim insertE emptyE; simp add: digit_char_def char_of_def)+
  qed
  then show "CHR ''('' \<notin> set (show_int n)" "CHR '')'' \<notin> set (show_int n)"
    by (force simp: show_int_def dest: show_nat_digits split: if_splits)+
  show "newline \<notin> set (show_int n)" "CHR '','' \<notin> set (show_int n)"
    using show_int_plain [of _ n] unfolding newline_def by blast+
qed

lemma match_open_code:
  assumes "newline \<notin> set code"
  shows "match_open (''(code='' @ code @ '', integration='' @ show_int i @ '') '' @ newline # rest) = Some (''code'', code, show_int i, ())"
proof -
  let ?k5 = "re_lit '')'' (\<lambda>_. Some ()) :: string \<Rightarrow> unit option"
  let ?k4 = "re_lit '', integration='' (re_dots ?k5)"
  have nl: "CHR '')'' \<noteq> newline" "CHR '','' \<noteq> newline" "CHR '' '' \<noteq> newline" by (simp_all add: newline_def)
  have 5: "re_dots ?k5 (show_int i @ '')'' @ '' '' @ newline # rest) = Some (show_int i, ())"
    by (rule re_dots_last [OF _ _ _ _ _ refl]) (use nl in \<open>simp_all add: re_lit_def\<close>)
  have i: "newline \<notin> set '' integration=''" by (simp add: newline_def)
  have "CHR '','' \<notin> set (line (tl '', integration='' @ show_int i @ '')'' @ '' '' @ newline # rest))"
    using line_append [OF i] nl by (simp add: line_append)
  then have "re_dots ?k4 (code @ '', integration='' @ show_int i @ '')'' @ '' '' @ newline # rest) = Some (code, show_int i, ())"
    by (intro re_dots_last [OF _ _ _ _ assms refl]) (use 5 nl in \<open>simp_all add: re_lit_def\<close>)
  then show ?thesis by (simp add: match_open_def re_lit_def)
qed

section \<open>What is found in the messages\<close>

lemmas newline_simps = newline_def line_simps [unfolded newline_def] show_int_chars [unfolded newline_def]
  line_append [unfolded newline_def]

text \<open>The characters that the search depends on do not occur in a name.\<close>

definition plain_name :: "string \<Rightarrow> bool" where
  "plain_name s \<longleftrightarrow> s \<noteq> [] \<and> newline \<notin> set s \<and> CHR ''('' \<notin> set s"

lemma find_from_external:
  assumes "named_at t = [(length pre, ''NotMappedFromExternal'')]"
    and "t = pre @ ''NotMappedFromExternal'' @ '': '' @ not_mapped_from_external msg model code (Some i) @ post"
    and "plain_name (in_name i)" and "plain_name model" and "plain_name code"
  shows "find_exception t = Some \<lparr>xk_name = ''NotMappedFromExternal'', xk_model = in_name i @ '' '' @ arrow @ '' '' @ model,
    xk_key = code, xk_integration = show_int (in_id i)\<rparr>"
proof -
  let ?g = "in_name i @ '' '' @ arrow @ '' '' @ model"
  let ?s = "''(code='' @ code @ '', integration='' @ show_int (in_id i) @ '') '' @ newline # msg @ post"
  have "newline \<notin> set ?g" using assms(3,4) by (simp add: plain_name_def arrow_def newline_def char_of_def)
  moreover have "newline \<notin> set ''code=''" "newline \<notin> set '', integration=''" by (simp_all add: newline_def)
  then have "CHR ''('' \<notin> set (line (tl ''('' @ ''code='' @ code @ '', integration='' @ show_int (in_id i) @ '') '' @ newline # msg @ post))"
    using assms(5) by (simp add: plain_name_def newline_simps)
  ultimately have "re_dots match_open (?g @ ?s) = Some (?g, ''code'', code, show_int (in_id i), ())"
    using re_dots_last [of match_open "''(''" "''code='' @ code @ '', integration='' @ show_int (in_id i) @ '') '' @ newline # msg @ post"
        "(''code'', code, show_int (in_id i), ())" ?g, OF _ _ _ _ _ match_open_def]
      match_open_code [of code "in_id i" "msg @ post"] assms(5)
    by (simp add: plain_name_def newline_def)
  moreover have "t = pre @ ''NotMappedFromExternal'' @ '': '' @ ?g @ ?s"
    using assms(2,4,5) by (simp add: not_mapped_from_external_def plain_name_def)
  ultimately show ?thesis using named_once [OF assms(1)] by (simp add: find_exception_def)
qed

lemma re_dots_None_skip: "hd p \<notin> set q \<Longrightarrow> p \<noteq> [] \<Longrightarrow> re_dots (re_lit p k) s = None \<Longrightarrow> re_dots (re_lit p k) (q @ s) = None"
  by (induction q) (auto simp: re_lit_miss)

lemma match_open_none: "CHR ''('' \<notin> set (line s) \<Longrightarrow> re_dots match_open s = None"
  unfolding match_open_def by (rule re_dots_None) (auto simp: newline_def)

lemma match_open_skip: "CHR ''('' \<notin> set q \<Longrightarrow> re_dots match_open s = None \<Longrightarrow> re_dots match_open (q @ s) = None"
  unfolding match_open_def by (rule re_dots_None_skip) auto

lemma find_no_external:
  assumes "named_at t = [(length pre, ''NoExternal'')]"
    and "t = pre @ ''NoExternal'' @ '': '' @ no_external msg model code (Some i) @ post"
    and "plain_name model" and "plain_name code"
  shows "find_exception t = None"
proof -
  obtain rest where r: "no_external msg model code (Some i) @ post =
      ''External record not found for model \"'' @ model @ ''\" with code \"'' @ code @ ''\" in integration ID '' @
        show_int (in_id i) @ ''.'' @ newline # rest"
    using assms(3,4) by (simp add: no_external_def plain_name_def)
  have "re_dots match_open (newline # rest) = None"
    by (rule match_open_none) (simp add: newline_simps)
  then have "re_dots match_open (no_external msg model code (Some i) @ post) = None"
    unfolding r using assms(3,4) by (intro match_open_skip) (simp_all add: plain_name_def del: re_dots.simps)
  then show ?thesis using named_once [OF assms(1,2)] by (simp add: find_exception_def)
qed

lemma find_to_external:
  assumes "named_at t = [(length pre, ''NotMappedToExternal'')]"
    and "t = pre @ ''NotMappedToExternal'' @ '': '' @ not_mapped_to_external msg model obj (Some i) @ post"
    and "plain_name (in_name i)" and "plain_name model" and "obj \<noteq> 0"
  shows "find_exception t = None"
proof -
  obtain rest where r: "not_mapped_to_external msg model obj (Some i) @ post =
      ''Export error for model \"'' @ model @ ''\" with ID \"'' @ show_int obj @ ''\" in '' @ in_name i @
        '' integration '' @ ''(ID: '' @ show_int (in_id i) @ '').'' @ newline # rest"
    using assms(4,5) by (simp add: not_mapped_to_external_def plain_name_def)
  have "re_dots match_open (newline # rest) = None"
    by (rule match_open_none) (simp add: newline_simps)
  then have "re_dots match_open (''ID: '' @ show_int (in_id i) @ '').'' @ newline # rest) = None"
    by (intro match_open_skip) (simp_all del: re_dots.simps)
  then have "re_dots match_open (''(ID: '' @ show_int (in_id i) @ '').'' @ newline # rest) = None"
    by (simp add: match_open_def re_lit_def)
  note i = this
  have "re_dots match_open ((''Export error for model \"'' @ model @ ''\" with ID \"'' @ show_int obj @ ''\" in '' @ in_name i @
      '' integration '') @ ''(ID: '' @ show_int (in_id i) @ '').'' @ newline # rest) = None"
    by (rule match_open_skip [OF _ i]) (use assms(3,4) in \<open>simp add: plain_name_def\<close>)
  then have "re_dots match_open (not_mapped_to_external msg model obj (Some i) @ post) = None" unfolding r by simp
  then show ?thesis using named_once [OF assms(1,2)] by (simp add: find_exception_def)
qed

section \<open>The requeue of failed jobs\<close>

text \<open>Jobs that are not done are set pending one after the other; the others keep their states.\<close>

lemma change_pending_other:
  assumes "change_state1 qe PENDING None u db = Inr db1" and "sys_ok qe db" and "x \<in> set db" and "row_uuid x \<noteq> u"
  shows "x \<in> set db1"
proof -
  obtain j where j: "load_job qe db u = Inr j" using assms(1) by (auto simp: change_state1_def rbind_eq_Inr)
  from load_job_row [OF j] obtain r where "r \<in> set db" "row_uuid r = u" by blast
  with load_job_ok [of qe db r] assms(2) j have "j_uuid j = u" by (auto simp: sys_ok_def)
  then show ?thesis using assms(1,3,4) j
    by (auto simp: change_state1_def rbind_eq_Inr store_job_def store_def set_pending_def set_result_def split: if_splits option.splits)
qed

lemma change_pending_ok:
  assumes "model_ok qe" and "sys_ok qe db"
    and "\<forall>u\<in>set us. \<exists>l s. (l, s) \<in> set (tab db) \<and> fst l = u \<and> s \<noteq> Some DONE"
  shows "\<exists>db'. change_job_state qe PENDING None us db = Inr db' \<and> sys_ok qe db' \<and>
    (\<forall>x\<in>set db. row_uuid x \<notin> set us \<longrightarrow> x \<in> set db') \<and>
    (\<forall>l s. (l, s) \<in> set (tab db) \<longrightarrow> (if fst l \<in> set us
       then (l, Some PENDING) \<in> set (tab db') \<or> (l, Some WAIT_DEPENDENCIES) \<in> set (tab db') else (l, s) \<in> set (tab db')))"
  using assms(2,3)
proof (induction us arbitrary: db)
  case (Cons u us)
  then obtain r where r: "r \<in> set db" "row_uuid r = u" "row_state r \<noteq> Some DONE"
    by (fastforce simp: tab_def row_links_def)
  obtain db1 where db1: "change_state1 qe PENDING None u db = Inr db1" "sys_ok qe db1" "tab db1 = tab (after_change PENDING r db)"
    using change_state1_ok [OF assms(1) Cons.prems(1) r(1), of PENDING None] r(2,3) by auto
  define x where "x = (if parents_done db r then PENDING else WAIT_DEPENDENCIES)"
  have t: "tab db1 = map (\<lambda>(l, t). (l, if fst l = u then Some x else t)) (tab db)"
    unfolding db1(3) after_change_def x_def [symmetric] by (simp add: tab_state_of r(2))
  have x: "x = PENDING \<or> x = WAIT_DEPENDENCIES" by (simp add: x_def)
  have "\<forall>v\<in>set us. \<exists>l s. (l, s) \<in> set (tab db1) \<and> fst l = v \<and> s \<noteq> Some DONE"
  proof
    fix v assume "v \<in> set us"
    then obtain l s where l: "(l, s) \<in> set (tab db)" "fst l = v" "s \<noteq> Some DONE" using Cons.prems(2) by auto
    then have "(l, if fst l = u then Some x else s) \<in> set (tab db1)" unfolding t by force
    then show "\<exists>l s. (l, s) \<in> set (tab db1) \<and> fst l = v \<and> s \<noteq> Some DONE" using l(2,3) x
      by (intro exI [of _ l] exI [of _ "if fst l = u then Some x else s"]) auto
  qed
  from Cons.IH [OF db1(2) this] obtain db' where db': "change_job_state qe PENDING None us db1 = Inr db'" "sys_ok qe db'"
    "\<forall>x\<in>set db1. row_uuid x \<notin> set us \<longrightarrow> x \<in> set db'"
    and st: "\<And>l s. (l, s) \<in> set (tab db1) \<Longrightarrow> (if fst l \<in> set us
       then (l, Some PENDING) \<in> set (tab db') \<or> (l, Some WAIT_DEPENDENCIES) \<in> set (tab db') else (l, s) \<in> set (tab db'))"
    by blast
  have "if fst l \<in> set (u # us) then (l, Some PENDING) \<in> set (tab db') \<or> (l, Some WAIT_DEPENDENCIES) \<in> set (tab db')
      else (l, s) \<in> set (tab db')" if "(l, s) \<in> set (tab db)" for l s
  proof -
    have "(l, if fst l = u then Some x else s) \<in> set (tab db1)" using that unfolding t by force
    from st [OF this] x show ?thesis by (auto split: if_splits)
  qed
  moreover have "\<forall>x\<in>set db. row_uuid x \<notin> set (u # us) \<longrightarrow> x \<in> set db'"
    using change_pending_other [OF db1(1) Cons.prems(1)] db'(3) by auto
  ultimately show ?case using db1(1) db'(1,2) by auto
qed simp

definition failed_for :: "string \<Rightarrow> string \<Rightarrow> string \<Rightarrow> row \<Rightarrow> bool" where
  "failed_for n m k r \<longleftrightarrow> row_state r = Some FAILED \<and> fld ''integration_exception_name'' r = PStr n \<and>
    fld ''integration_model_name'' r = PStr m \<and> fld ''integration_key'' r = PStr k"

lemma requeue_integration_ok:
  assumes "model_ok qe" and "sys_ok qe db"
  shows "\<exists>db'. requeue_integration_jobs qe n m k db = Inr db' \<and> sys_ok qe db' \<and>
    (\<forall>r\<in>set db. if failed_for n m k r then (row_links r, Some PENDING) \<in> set (tab db') \<or> (row_links r, Some WAIT_DEPENDENCIES) \<in> set (tab db')
       else r \<in> set db')"
proof -
  let ?f = "failed_for n m k"
  let ?us = "map row_uuid (filter ?f db)"
  have l: "links_ok db" and d: "distinct (map row_uuid db)" using assms(2) by (simp_all add: sys_ok_def table_ok_def links_ok_def)
  have u: "row_uuid r \<in> set ?us \<longleftrightarrow> failed_for n m k r" if "r \<in> set db" for r
    using that d by (auto simp: distinct_map inj_on_def)
  have s: "state_of db (row_uuid r) = row_state r" if "r \<in> set db" for r
  proof -
    have "find (\<lambda>x. row_uuid x = row_uuid r) db = Some r" using that d
      by (induction db) (auto simp: rev_image_eqI)
    then show ?thesis by (simp add: state_of_def)
  qed
  have f: "filter (\<lambda>u. state_of db u \<noteq> Some WAIT_DEPENDENCIES) ?us = ?us"
    by (rule filter_True) (auto simp: s failed_for_def)
  have "\<forall>u\<in>set ?us. \<exists>l s. (l, s) \<in> set (tab db) \<and> fst l = u \<and> s \<noteq> Some DONE"
    by (force simp: tab_def row_links_def failed_for_def)
  from change_pending_ok [OF assms(1,2) this] obtain db' where db': "change_job_state qe PENDING None ?us db = Inr db'" "sys_ok qe db'"
    "\<And>x. x \<in> set db \<Longrightarrow> row_uuid x \<notin> set ?us \<Longrightarrow> x \<in> set db'"
    "\<And>l s. (l, s) \<in> set (tab db) \<Longrightarrow> (if fst l \<in> set ?us
       then (l, Some PENDING) \<in> set (tab db') \<or> (l, Some WAIT_DEPENDENCIES) \<in> set (tab db') else (l, s) \<in> set (tab db'))"
    by blast
  have "requeue_integration_jobs qe n m k db = (if filter ?f db = [] then Inr db else requeue qe ?us db)"
    by (simp add: requeue_integration_jobs_def failed_for_def [abs_def] Let_def)
  also have "\<dots> = change_job_state qe PENDING None ?us db" unfolding requeue_def f by simp
  finally have "requeue_integration_jobs qe n m k db = Inr db'" using db'(1) by simp
  moreover have "if failed_for n m k r then (row_links r, Some PENDING) \<in> set (tab db') \<or> (row_links r, Some WAIT_DEPENDENCIES) \<in> set (tab db')
       else r \<in> set db'" if "r \<in> set db" for r
    using db'(3) [OF that] db'(4) [of "row_links r" "row_state r"] that u [OF that] by (auto simp: tab_def row_links_def)
  ultimately show ?thesis using db'(2) by blast
qed

text \<open>The columns that a failed job gets are not those of the queue.\<close>

definition exception_fields :: "string set" where
  "exception_fields = {''integration_exception_name'', ''integration_model_name'', ''integration_key'', ''integration_id''}"

lemma exception_columns: "exception_values r = Inr vals \<Longrightarrow> fst ` set vals \<subseteq> exception_fields"
  by (auto simp: exception_values_def exception_fields_def Let_def rbind_eq_Inr split: if_splits)

lemma exception_row:
  assumes "fst ` set vals \<subseteq> exception_fields"
  shows "row_links (dict_update r vals) = row_links r" "row_state (dict_update r vals) = row_state r"
    "row_ok qe (dict_update r vals) \<longleftrightarrow> row_ok qe r"
proof -
  have "fld k (dict_update r vals) = fld k r" if "k \<notin> exception_fields" for k
  proof -
    have "k \<notin> fst ` set vals" using assms that by blast
    from dict_update_other [OF this] show ?thesis by (simp add: fld_def)
  qed
  then show "row_links (dict_update r vals) = row_links r" "row_state (dict_update r vals) = row_state r"
    "row_ok qe (dict_update r vals) \<longleftrightarrow> row_ok qe r"
    by (simp_all add: exception_fields_def row_links_def row_uuid_def row_graph_def row_depends_on_def
        row_reverse_depends_on_def row_state_def row_ok_def)
qed

lemma sys_ok_columns:
  assumes "fst ` set vals \<subseteq> exception_fields"
  shows "sys_ok qe (map (\<lambda>r. dict_update r vals) db) \<longleftrightarrow> sys_ok qe db"
proof -
  have t: "tab (map (\<lambda>r. dict_update r vals) db) = tab db"
    by (simp add: tab_def comp_def exception_row(1,2) [OF assms])
  show ?thesis using links_ok_tab [OF t] dep_inv_tab [OF t] by (simp add: sys_ok_def table_ok_def exception_row(3) [OF assms])
qed

lemma record_exceptions_ok:
  assumes "record_exceptions us db = Inr db'"
  shows "tab db' = tab db" "sys_ok qe db' \<longleftrightarrow> sys_ok qe db"
    "\<And>r. r \<in> set db \<Longrightarrow> row_uuid r \<in> set us \<Longrightarrow> \<exists>vals. exception_values r = Inr vals \<and> dict_update r vals \<in> set db'"
proof -
  have a: "tab db' = tab db \<and> ((\<forall>r\<in>set db'. row_ok qe r) \<longleftrightarrow> (\<forall>r\<in>set db. row_ok qe r)) \<and>
    (\<forall>r\<in>set db. row_uuid r \<in> set us \<longrightarrow> (\<exists>vals. exception_values r = Inr vals \<and> dict_update r vals \<in> set db'))"
    using assms
  proof (induction us db arbitrary: db' rule: record_exceptions.induct)
    case (2 us r db)
    obtain vals db1 where v: "(if row_uuid r \<in> set us then exception_values r else Inr []) = Inr vals"
      "record_exceptions us db = Inr db1" "db' = dict_update r vals # db1"
      using 2(2) by (auto simp: rbind_eq_Inr simp del: if_image_distrib split del: if_split)
    have row: "row_links (dict_update r vals) = row_links r \<and> row_state (dict_update r vals) = row_state r \<and>
        (row_ok qe (dict_update r vals) \<longleftrightarrow> row_ok qe r)"
      by (intro conjI exception_row) (use v(1) exception_columns [of r vals] in \<open>auto split: if_splits\<close>)
    have "tab db1 = tab db \<and> ((\<forall>r\<in>set db1. row_ok qe r) \<longleftrightarrow> (\<forall>r\<in>set db. row_ok qe r)) \<and>
      (\<forall>r\<in>set db. row_uuid r \<in> set us \<longrightarrow> (\<exists>vals. exception_values r = Inr vals \<and> dict_update r vals \<in> set db1))"
      using 2(1) v(1,2) by blast
    then show ?case using row v by (auto simp: tab_def)
  qed simp
  then show "tab db' = tab db" "\<And>r. r \<in> set db \<Longrightarrow> row_uuid r \<in> set us \<Longrightarrow> \<exists>vals. exception_values r = Inr vals \<and> dict_update r vals \<in> set db'"
    by auto
  from a have "links_ok db' \<longleftrightarrow> links_ok db" "dep_inv db' \<longleftrightarrow> dep_inv db" using links_ok_tab dep_inv_tab by blast+
  then show "sys_ok qe db' \<longleftrightarrow> sys_ok qe db" using a by (simp add: sys_ok_def table_ok_def)
qed

end
