(* ===== verification/MappingFacts.thy ===== *)
theory MappingFacts
  imports MappingTables MappingErrorFacts
begin

text \<open>
  The invariant of the tables of mappings: identifiers are used once, a code names one external record of an
  integration, a mapping belongs to an external record of its own integration, and no external record has two
  mappings. Every operation keeps it.
\<close>

section \<open>The requeue keeps the tables\<close>

definition same_tables :: "mapping_db \<Rightarrow> mapping_db \<Rightarrow> bool" where
  "same_tables d d' \<longleftrightarrow> (\<exists>db. d' = d\<lparr>md_jobs := db\<rparr>)"

lemma same_tables_refl [simp]: "same_tables d d"
  unfolding same_tables_def by (rule exI [of _ "md_jobs d"]) simp

lemma same_tables_trans: "same_tables d d1 \<Longrightarrow> same_tables d1 d2 \<Longrightarrow> same_tables d d2"
  by (auto simp: same_tables_def)

lemma same_tables_fields:
  "same_tables d d' \<Longrightarrow> md_externals d' = md_externals d \<and> md_mappings d' = md_mappings d \<and>
    md_next_external d' = md_next_external d \<and> md_next_mapping d' = md_next_mapping d"
  by (auto simp: same_tables_def)

lemma requeue_for_tables: "requeue_for mm n m k d = Inr d' \<Longrightarrow> same_tables d d'"
  by (auto simp: requeue_for_def job_result_def same_tables_def split: sum.splits)

lemma external_requeue_tables: "external_requeue_jobs_if_needed mm x d = Inr d' \<Longrightarrow> same_tables d d'"
  by (auto simp: external_requeue_jobs_if_needed_def requeue_for_tables split: if_splits)

lemma requeue_jobs_tables: "requeue_jobs_if_needed mm ms d = Inr d' \<Longrightarrow> same_tables d d'"
proof (induction mm ms d rule: requeue_jobs_if_needed.induct)
  case (2 mm m ms d)
  show ?case
  proof (cases "mp_internal m = None \<or> external_of d m = None")
    case True
    then show ?thesis using 2 by (auto split: option.splits)
  next
    case False
    then obtain i x d1 d2 where e: "mp_internal m = Some i" "external_of d m = Some x"
      "requeue_for mm ''NotMappedFromExternal'' (mm_name mm) (ex_code x) d = Inr d1"
      "requeue_for mm ''NotMappedToExternal'' (mm_name mm) (show_int i) d1 = Inr d2" "requeue_jobs_if_needed mm ms d2 = Inr d'"
      using 2(4) by (auto simp: rbind_eq_Inr)
    have "same_tables d2 d'" by (rule 2(3) [OF refl e])
    with e(3,4) show ?thesis by (blast intro: same_tables_trans requeue_for_tables)
  qed
qed simp

section \<open>The invariant\<close>

definition externals_ok :: "mapping_db \<Rightarrow> bool" where
  "externals_ok d \<longleftrightarrow> distinct (map ex_id (md_externals d)) \<and> (\<forall>x\<in>set (md_externals d). ex_id x < md_next_external d) \<and>
     externals_unique (md_externals d)"

definition mappings_ok :: "mapping_db \<Rightarrow> bool" where
  "mappings_ok d \<longleftrightarrow> distinct (map mp_id (md_mappings d)) \<and> (\<forall>m\<in>set (md_mappings d). mp_id m < md_next_mapping d) \<and>
     distinct (map (\<lambda>m. (mp_integration m, mp_external m)) (md_mappings d)) \<and>
     (\<forall>m\<in>set (md_mappings d). \<exists>x\<in>set (md_externals d). ex_id x = mp_external m \<and> ex_integration x = mp_integration m)"

definition mdb_ok :: "mapping_db \<Rightarrow> bool" where
  "mdb_ok d \<longleftrightarrow> externals_ok d \<and> mappings_ok d"

lemma mdb_ok_same: "same_tables d d' \<Longrightarrow> mdb_ok d' \<longleftrightarrow> mdb_ok d"
  by (auto simp: same_tables_def mdb_ok_def externals_ok_def mappings_ok_def)

lemma unique_filter: "distinct (map f xs) \<Longrightarrow> x \<in> set xs \<Longrightarrow> filter (\<lambda>y. f y = f x) xs = [x]"
proof (induction xs)
  case (Cons y xs)
  then show ?case
    by (cases "y = x") (auto simp: filter_empty_conv image_iff)
qed simp

text \<open>An external record is found by its code, and by the identifier of a mapping.\<close>

lemma search_external_unique:
  assumes "mdb_ok d" and "x \<in> set (md_externals d)"
  shows "search_external (ex_integration x) (ex_code x) d = [x]"
  using unique_filter [of "\<lambda>x. (ex_integration x, ex_code x)" "md_externals d" x] assms
  by (simp add: search_external_def mdb_ok_def externals_ok_def externals_unique_def)

lemma external_of_found:
  assumes "mdb_ok d" and "x \<in> set (md_externals d)" and "mp_external m = ex_id x"
  shows "external_of d m = Some x"
proof -
  have "find P xs = (case filter P xs of [] \<Rightarrow> None | x # _ \<Rightarrow> Some x)" for P and xs :: "external list"
    by (induction xs) auto
  moreover have "filter (\<lambda>y. ex_id y = ex_id x) (md_externals d) = [x]"
    using unique_filter [of ex_id "md_externals d" x] assms(1,2) by (simp add: mdb_ok_def externals_ok_def)
  ultimately show ?thesis by (simp add: external_of_def assms(3))
qed

lemma external_of_mapping:
  assumes "mdb_ok d" and "m \<in> set (md_mappings d)"
  obtains x where "external_of d m = Some x" "x \<in> set (md_externals d)" "ex_id x = mp_external m" "ex_integration x = mp_integration m"
  using assms external_of_found [OF assms(1)] by (metis mdb_ok_def mappings_ok_def)

lemma search_mappings_one:
  assumes "mdb_ok d" and "m \<in> set (md_mappings d)"
  shows "search_mappings (mp_integration m) (mp_external m) d = [m]"
  using unique_filter [of "\<lambda>m. (mp_integration m, mp_external m)" "md_mappings d" m] assms
  by (simp add: search_mappings_def mdb_ok_def mappings_ok_def)

lemma search_mappings_cases:
  assumes "mdb_ok d"
  obtains "search_mappings i x d = []" | m where "search_mappings i x d = [m]" "m \<in> set (md_mappings d)" "mp_integration m = i" "mp_external m = x"
proof (cases "search_mappings i x d")
  case (Cons m ms)
  then have "m \<in> set (search_mappings i x d)" by simp
  then have m: "m \<in> set (md_mappings d)" "mp_integration m = i" "mp_external m = x" by (simp_all add: search_mappings_def)
  with search_mappings_one [OF assms m(1)] that show ?thesis by simp
qed (use that in simp)

text \<open>The constraints of the database follow from the invariant.\<close>

lemma mappings_unique_ok:
  assumes "mappings_ok d" shows "mappings_unique c (md_mappings d)"
proof -
  have d: "distinct (map (\<lambda>m. (mp_integration m, mp_external m)) (md_mappings d))" using assms by (simp add: mappings_ok_def)
  then have "distinct (map (\<lambda>m. (mp_integration m, mp_internal m, mp_external m)) (md_mappings d))"
    by (auto simp: distinct_map inj_on_def)
  from distinct_map_filter [OF this] d show ?thesis by (simp add: mappings_unique_def split: mapping_constraint.split)
qed

section \<open>The operations keep the invariant\<close>

lemma create_external_ok:
  assumes "create_external mm vals d = Inr (x, d')" and "mdb_ok d"
  shows "mdb_ok d' \<and> md_mappings d' = md_mappings d \<and> md_externals d' = md_externals d @ [x] \<and>
    ex_integration x = ev_integration vals \<and> ex_code x = ev_code vals \<and> ex_id x = md_next_external d"
proof -
  let ?d1 = "d\<lparr>md_externals := md_externals d @ [x], md_next_external := md_next_external d + 1\<rparr>"
  have x: "ex_integration x = ev_integration vals \<and> ex_code x = ev_code vals \<and> ex_id x = md_next_external d"
    "externals_unique (md_externals ?d1)" "external_requeue_jobs_if_needed mm x ?d1 = Inr d'"
    using assms(1) by (auto simp: create_external_def Let_def rbind_eq_Inr split: if_splits)
  have "mdb_ok ?d1" using assms(2) x(1,2) unfolding mdb_ok_def externals_ok_def mappings_ok_def by (fastforce simp: less_Suc_eq)
  with external_requeue_tables [OF x(3)] x(1) show ?thesis by (simp add: mdb_ok_same same_tables_fields)
qed

lemma write_external_ok:
  assumes "write_external mm x vals d = Inr (x', d')" and "mdb_ok d" and "x \<in> set (md_externals d)"
    and "ev_integration vals = ex_integration x" and "ev_code vals = ex_code x"
  shows "mdb_ok d' \<and> md_mappings d' = md_mappings d \<and> x' \<in> set (md_externals d') \<and>
    md_externals d' = map (\<lambda>y. if ex_id y = ex_id x then x' else y) (md_externals d) \<and>
    ex_integration x' = ex_integration x \<and> ex_code x' = ex_code x \<and> ex_id x' = ex_id x"
proof -
  let ?d1 = "d\<lparr>md_externals := map (\<lambda>y. if ex_id y = ex_id x then x' else y) (md_externals d)\<rparr>"
  have x: "ex_integration x' = ex_integration x \<and> ex_code x' = ex_code x \<and> ex_id x' = ex_id x"
    "externals_unique (md_externals d')" "external_requeue_jobs_if_needed mm x' ?d1 = Inr d'"
    using assms(1,4,5) by (auto simp: write_external_def Let_def rbind_eq_Inr split: if_splits)
  have t: "same_tables ?d1 d'" by (rule external_requeue_tables [OF x(3)])
  then have f: "md_mappings d' = md_mappings d" "md_externals d' = md_externals ?d1" by (simp_all add: same_tables_fields)
  have i: "map ex_id (md_externals ?d1) = map ex_id (md_externals d)" using x(1) by simp
  have b: "\<exists>y\<in>set (md_externals ?d1). ex_id y = ex_id z \<and> ex_integration y = ex_integration z" if "z \<in> set (md_externals d)" for z
  proof (cases "ex_id z = ex_id x")
    case True
    then have "z = x" using assms(2,3) that by (auto simp: mdb_ok_def externals_ok_def distinct_map inj_on_def)
    then show ?thesis using x(1) assms(3) by (intro bexI [of _ x']) auto
  qed (use that in \<open>intro bexI [of _ z], auto\<close>)
  have l: "\<forall>y\<in>set (md_externals ?d1). ex_id y < md_next_external d"
  proof -
    have "\<forall>y\<in>set (md_externals d). ex_id y < md_next_external d" using assms(2) by (simp add: mdb_ok_def externals_ok_def)
    then show ?thesis using assms(3) x(1) by auto
  qed
  have "externals_ok ?d1" unfolding externals_ok_def i
    using assms(2) x(2) f(2) l by (simp add: mdb_ok_def externals_ok_def)
  moreover have "mappings_ok ?d1"
  proof -
    have "\<exists>y\<in>set (md_externals ?d1). ex_id y = mp_external m \<and> ex_integration y = mp_integration m" if "m \<in> set (md_mappings d)" for m
    proof -
      have "\<exists>z\<in>set (md_externals d). ex_id z = mp_external m \<and> ex_integration z = mp_integration m"
        using assms(2) that by (simp add: mdb_ok_def mappings_ok_def)
      then obtain z where z: "z \<in> set (md_externals d)" "ex_id z = mp_external m" "ex_integration z = mp_integration m"
        by (elim bexE conjE)
      show ?thesis using b [OF z(1)] unfolding z(2,3) .
    qed
    then show ?thesis using assms(2) by (simp add: mdb_ok_def mappings_ok_def del: set_map)
  qed
  ultimately have "mdb_ok ?d1" by (simp add: mdb_ok_def)
  then have "mdb_ok d'" using mdb_ok_same [OF t] by blast
  moreover have "x' \<in> set (md_externals d')" unfolding f(2) using assms(3) by (simp add: image_iff) (metis IntI mem_Collect_eq)
  ultimately show ?thesis using f x(1) by simp
qed

lemma create_or_update_ok:
  assumes "create_or_update mm vals d = Inr (x, d')" and "mdb_ok d"
  shows "mdb_ok d' \<and> md_mappings d' = md_mappings d \<and> x \<in> set (md_externals d') \<and> ex_integration x = ev_integration vals \<and>
    ex_code x = ev_code vals"
proof (cases "search_external (ev_integration vals) (ev_code vals) d")
  case Nil
  then show ?thesis using assms create_external_ok [of mm vals d x d'] by (simp add: create_or_update_def)
next
  case (Cons y ys)
  have "y \<in> set (search_external (ev_integration vals) (ev_code vals) d)" by (simp add: Cons)
  then have y: "y \<in> set (md_externals d)" "ev_integration vals = ex_integration y" "ev_code vals = ex_code y"
    by (simp_all add: search_external_def)
  have "write_external mm y vals d = Inr (x, d')" using assms(1) by (simp add: create_or_update_def Cons)
  from write_external_ok [OF this assms(2) y] y show ?thesis by simp
qed

lemma added_mapping_ok:
  assumes "mdb_ok d" and "search_mappings i x d = []" and "\<exists>e\<in>set (md_externals d). ex_id e = x \<and> ex_integration e = i"
  shows "mdb_ok (d\<lparr>md_mappings := md_mappings d @ [\<lparr>mp_id = md_next_mapping d, mp_integration = i, mp_internal = r, mp_external = x\<rparr>],
    md_next_mapping := md_next_mapping d + 1\<rparr>)"
proof -
  have "(i, x) \<notin> (\<lambda>m. (mp_integration m, mp_external m)) ` set (md_mappings d)"
    using assms(2) by (auto simp: search_mappings_def filter_empty_conv)
  then show ?thesis using assms(1,3) by (fastforce simp: mdb_ok_def mappings_ok_def externals_ok_def)
qed

lemma written_mapping_ok:
  assumes "mdb_ok d"
  shows "mdb_ok (d\<lparr>md_mappings := map (\<lambda>m. if m \<in> set ms then m\<lparr>mp_internal := r\<rparr> else m) (md_mappings d)\<rparr>)"
proof -
  let ?f = "\<lambda>m. if m \<in> set ms then m\<lparr>mp_internal := r\<rparr> else m"
  have f: "mp_id (?f m) = mp_id m" "mp_integration (?f m) = mp_integration m" "mp_external (?f m) = mp_external m" for m by simp_all
  show ?thesis using assms by (simp add: mdb_ok_def mappings_ok_def externals_ok_def comp_def f del: if_image_distrib)
qed

lemma create_mapping_ok:
  assumes "create_mapping mm i r x d = Inr (ms, d')" and "mdb_ok d" and "search_mappings i x d = []"
    and "\<exists>e\<in>set (md_externals d). ex_id e = x \<and> ex_integration e = i"
  shows "mdb_ok d' \<and> md_externals d' = md_externals d \<and> md_mappings d' = md_mappings d @ ms \<and>
    ms = [\<lparr>mp_id = md_next_mapping d, mp_integration = i, mp_internal = r, mp_external = x\<rparr>]"
proof -
  let ?m = "\<lparr>mp_id = md_next_mapping d, mp_integration = i, mp_internal = r, mp_external = x\<rparr>"
  let ?d1 = "d\<lparr>md_mappings := md_mappings d @ [?m], md_next_mapping := md_next_mapping d + 1\<rparr>"
  have m: "ms = [?m]" "requeue_jobs_if_needed mm [?m] ?d1 = Inr d'"
    using assms(1) by (auto simp: create_mapping_def Let_def rbind_eq_Inr split: if_splits)
  have "mdb_ok ?d1" by (rule added_mapping_ok [OF assms(2-4)])
  with requeue_jobs_tables [OF m(2)] m(1) show ?thesis by (simp add: mdb_ok_same same_tables_fields)
qed

lemma write_internal_ok:
  assumes "write_internal mm ms r d = Inr (ms', d')" and "mdb_ok d"
  shows "mdb_ok d' \<and> md_externals d' = md_externals d \<and> ms' = map (\<lambda>m. m\<lparr>mp_internal := r\<rparr>) ms \<and>
    md_mappings d' = map (\<lambda>m. if m \<in> set ms then m\<lparr>mp_internal := r\<rparr> else m) (md_mappings d)"
proof -
  let ?f = "\<lambda>m. if m \<in> set ms then m\<lparr>mp_internal := r\<rparr> else m"
  let ?d1 = "d\<lparr>md_mappings := map ?f (md_mappings d)\<rparr>"
  have m: "ms' = map (\<lambda>m. m\<lparr>mp_internal := r\<rparr>) ms" "requeue_jobs_if_needed mm ms' ?d1 = Inr d'"
    using assms(1) by (auto simp: write_internal_def Let_def rbind_eq_Inr split: if_splits)
  have "mdb_ok ?d1" by (rule written_mapping_ok [OF assms(2)])
  with requeue_jobs_tables [OF m(2)] m(1) show ?thesis by (simp add: mdb_ok_same same_tables_fields)
qed

text \<open>What a mapping from an external record is after the operations: the mappings of the other external records
  stay, and that of the record becomes one of the record of Odoo.\<close>

definition mapped_to :: "mapping_db \<Rightarrow> mapping_db \<Rightarrow> int \<Rightarrow> int \<Rightarrow> int option \<Rightarrow> mapping \<Rightarrow> bool" where
  "mapped_to d d' i x r m \<longleftrightarrow> search_mappings i x d' = [m] \<and> mp_integration m = i \<and> mp_external m = x \<and> mp_internal m = r \<and>
     (\<forall>j y. (j, y) \<noteq> (i, x) \<longrightarrow> search_mappings j y d' = search_mappings j y d) \<and>
     set (md_mappings d') = insert m {m'. m' \<in> set (md_mappings d) \<and> (mp_integration m', mp_external m') \<noteq> (i, x)} \<and>
     (case search_mappings i x d of [] \<Rightarrow> mp_id m = md_next_mapping d | m' # _ \<Rightarrow> mp_id m = mp_id m')"

lemma create_mapping_mapped:
  assumes "create_mapping mm i r x d = Inr (ms, d')" and "mdb_ok d" and "search_mappings i x d = []"
    and "\<exists>e\<in>set (md_externals d). ex_id e = x \<and> ex_integration e = i"
  shows "mdb_ok d' \<and> md_externals d' = md_externals d \<and> (\<exists>m. ms = [m] \<and> mapped_to d d' i x r m)"
  using create_mapping_ok [OF assms] assms(3)
  by (auto simp: mapped_to_def search_mappings_def filter_empty_conv)

lemma write_internal_mapped:
  assumes "write_internal mm ms r d = Inr (ms', d')" and "mdb_ok d" and "search_mappings i x d = ms" and "ms \<noteq> []"
  shows "mdb_ok d' \<and> md_externals d' = md_externals d \<and> (\<exists>m. ms' = [m] \<and> mapped_to d d' i x r m)"
proof -
  from assms(3,4) obtain m where m: "ms = [m]" "m \<in> set (md_mappings d)" "mp_integration m = i" "mp_external m = x"
    using search_mappings_cases [OF assms(2), of i x] by metis
  let ?m = "m\<lparr>mp_internal := r\<rparr>"
  have w: "mdb_ok d'" "md_externals d' = md_externals d" "ms' = [?m]"
    "md_mappings d' = map (\<lambda>n. if n = m then ?m else n) (md_mappings d)"
    using write_internal_ok [OF assms(1,2)] m(1) by simp_all
  have one: "n = m" if "n \<in> set (md_mappings d)" "mp_integration n = i" "mp_external n = x" for n
    using that search_mappings_one [OF assms(2) that(1)] assms(3) m(1) by simp
  have s: "search_mappings j y d' = map (\<lambda>n. if n = m then ?m else n) (search_mappings j y d)" for j y
  proof -
    have "filter P (map f xs) = map f (filter P xs)" if "\<And>x. P (f x) = P x" for P :: "mapping \<Rightarrow> bool" and f xs
      using that by (induction xs) auto
    then show ?thesis by (simp add: search_mappings_def w(4))
  qed
  have "m \<notin> set (search_mappings j y d)" if "(j, y) \<noteq> (i, x)" for j y
    using that m(3,4) by (auto simp: search_mappings_def)
  then have "search_mappings j y d' = search_mappings j y d" if "(j, y) \<noteq> (i, x)" for j y
    using that unfolding s by (intro map_idI) auto
  moreover have "search_mappings i x d' = [?m]" by (simp add: s assms(3) m(1))
  moreover have "set (md_mappings d') = insert ?m {m'. m' \<in> set (md_mappings d) \<and> (mp_integration m', mp_external m') \<noteq> (i, x)}"
  proof -
    have "set (md_mappings d') = insert ?m (set (md_mappings d) - {m})" using m(2) unfolding w(4) by (auto simp: image_iff)
    also have "set (md_mappings d) - {m} = {m'. m' \<in> set (md_mappings d) \<and> (mp_integration m', mp_external m') \<noteq> (i, x)}"
      using m(3,4) one by auto
    finally show ?thesis .
  qed
  ultimately have "mapped_to d d' i x r ?m" using m(1,3,4) assms(3) by (simp add: mapped_to_def)
  with w(1-3) show ?thesis by blast
qed

lemma create_or_update_mapping_mapped:
  assumes "create_or_update_mapping mm x a d = Inr (ms, d')" and "mdb_ok d" and "x \<in> set (md_externals d)"
  shows "mdb_ok d' \<and> md_externals d' = md_externals d \<and>
    (\<exists>m. ms = [m] \<and> (if a = NoArg \<and> search_mappings (ex_integration x) (ex_id x) d \<noteq> []
       then search_mappings (ex_integration x) (ex_id x) d = [m] \<and> d' = d
       else mapped_to d d' (ex_integration x) (ex_id x) (arg_value a) m \<or>
         search_mappings (ex_integration x) (ex_id x) d = [m] \<and> d' = d \<and> mp_internal m = arg_value a))"
proof -
  let ?ms = "search_mappings (ex_integration x) (ex_id x) d"
  have e: "\<exists>e\<in>set (md_externals d). ex_id e = ex_id x \<and> ex_integration e = ex_integration x" using assms(3) by blast
  have f: "(if ?ms = [] then create_mapping mm (ex_integration x) (arg_value a) (ex_id x) d
     else if a = NoArg then Inr (?ms, d)
     else rbind (record_id (internal_records ?ms)) (\<lambda>i.
          if i \<noteq> arg_value a then write_internal mm ?ms (arg_value a) d else Inr (?ms, d))) = Inr (ms, d')"
    using assms(1) by (simp add: create_or_update_mapping_def mapping_record_def search_mapping_from_external_def)
  from search_mappings_cases [OF assms(2), of "ex_integration x" "ex_id x"] show ?thesis
  proof cases
    case 1
    with f create_mapping_mapped [of mm "ex_integration x" "arg_value a" "ex_id x" d ms d', OF _ assms(2) 1 e] show ?thesis by auto
  next
    case (2 m)
    have i: "record_id (internal_records [m]) = Inr (mp_internal m)"
      by (cases "mp_internal m") (simp_all add: record_id_def internal_records_def List.map_filter_def)
    show ?thesis
    proof (cases "a = NoArg \<or> mp_internal m = arg_value a")
      case True
      then have "ms = [m]" "d' = d" using f i by (auto simp: 2(1) split: if_splits)
      with True 2(1) assms(2) show ?thesis by auto
    next
      case False
      with f 2(1) i have "write_internal mm [m] (arg_value a) d = Inr (ms, d')" by simp
      from write_internal_mapped [OF this assms(2) 2(1)] False show ?thesis by auto
    qed
  qed
qed

lemma create_integration_mapping_mapped:
  assumes "create_integration_mapping mm i r code extra d = Inr (ms, d')" and "mdb_ok d"
  shows "\<exists>x m d1. create_or_update mm \<lparr>ev_integration = i, ev_code = code, ev_name = fst extra, ev_reference = snd extra\<rparr> d = Inr (x, d1) \<and>
    mdb_ok d1 \<and> md_mappings d1 = md_mappings d \<and> x \<in> set (md_externals d1) \<and> ex_integration x = i \<and> ex_code x = code \<and>
    mdb_ok d' \<and> md_externals d' = md_externals d1 \<and> ms = [m] \<and> mapped_to d1 d' i (ex_id x) (Some r) m"
proof -
  let ?v = "\<lparr>ev_integration = i, ev_code = code, ev_name = fst extra, ev_reference = snd extra\<rparr>"
  obtain x d1 where x: "create_or_update mm ?v d = Inr (x, d1)"
    and k: "(case search_mappings i (ex_id x) d1 of [] \<Rightarrow> create_mapping mm i (Some r) (ex_id x) d1
       | m # ms \<Rightarrow> if map_option ex_code (external_of d1 m) \<noteq> Some code then Inl AssertionFailed
           else write_internal mm (m # ms) (Some r) d1) = Inr (ms, d')"
    using assms(1) by (auto simp: create_integration_mapping_def rbind_eq_Inr)
  have d1: "mdb_ok d1" "md_mappings d1 = md_mappings d" "x \<in> set (md_externals d1)" "ex_integration x = i" "ex_code x = code"
    using create_or_update_ok [OF x assms(2)] by simp_all
  have "mdb_ok d' \<and> md_externals d' = md_externals d1 \<and> (\<exists>m. ms = [m] \<and> mapped_to d1 d' i (ex_id x) (Some r) m)"
  proof (cases "search_mappings i (ex_id x) d1")
    case Nil
    with k d1 show ?thesis by (intro create_mapping_mapped [of mm]) auto
  next
    case (Cons m ms1)
    with k have "write_internal mm (m # ms1) (Some r) d1 = Inr (ms, d')" by (auto split: if_splits)
    from write_internal_mapped [OF this d1(1) Cons] show ?thesis by simp
  qed
  with x d1 show ?thesis by blast
qed

lemma try_map_mapped:
  assumes "try_map_by_external_reference mm search x d = Inr (rs, d')" and "mdb_ok d" and "x \<in> set (md_externals d)"
  shows "mdb_ok d' \<and> md_externals d' = md_externals d"
proof -
  obtain rs0 where rs0: "odoo_record x d = Inr rs0" using assms(1) by (cases "odoo_record x d") (auto simp: try_map_by_external_reference_def)
  show ?thesis
  proof (cases "rs0 = []")
    case False
    with assms(1,2) rs0 show ?thesis by (simp add: try_map_by_external_reference_def)
  next
    case True
    let ?found = "case mm_map_field mm x of None \<Rightarrow> [] | Some reference \<Rightarrow> if reference = [] then [] else search reference"
    obtain ms d1 d2 where d1: "create_or_update_mapping mm x NoArg d = Inr (ms, d1)"
      and d2: "(case ?found of [] \<Rightarrow> Inr d1 | i # _ \<Rightarrow> rbind (create_or_update_mapping mm x (OdooId i) d1) (\<lambda>(_, d2). Inr d2)) = Inr d2"
      and d': "d' = d2"
      using assms(1) rs0 True
      by (auto simp: try_map_by_external_reference_def rbind_eq_Inr Let_def simp del: split_paired_Ex split: if_splits)
    have 1: "mdb_ok d1" "md_externals d1 = md_externals d" using create_or_update_mapping_mapped [OF d1 assms(2,3)] by simp_all
    show ?thesis
    proof (cases ?found)
      case Nil
      with d2 d' 1 show ?thesis by simp
    next
      case (Cons i js)
      with d2 obtain ms2 where "create_or_update_mapping mm x (OdooId i) d1 = Inr (ms2, d2)" by (auto simp: rbind_eq_Inr)
      from create_or_update_mapping_mapped [OF this 1(1)] assms(3) 1(2) d' show ?thesis by simp
    qed
  qed
qed

lemma clear_mappings_ok: "mdb_ok d \<Longrightarrow> mdb_ok (clear_mappings i rs d)"
  by (auto simp: mdb_ok_def externals_ok_def mappings_ok_def clear_mappings_def distinct_map_filter)

section \<open>The jobs\<close>

definition queue_ok :: "mapping_model \<Rightarrow> mapping_db \<Rightarrow> bool" where
  "queue_ok mm d \<longleftrightarrow> model_ok (mm_queue mm) \<and> sys_ok (mm_queue mm) (md_jobs d)"

text \<open>What the requeues do to the jobs: those that did not fail keep their states, and those that failed keep
  theirs or are pending or waiting.\<close>

definition waits_again :: "row \<Rightarrow> mapping_db \<Rightarrow> bool" where
  "waits_again r d \<longleftrightarrow> (\<exists>x\<in>set (md_jobs d). row_links x = row_links r \<and> row_state x \<in> {Some PENDING, Some WAIT_DEPENDENCIES})"

definition requeued :: "mapping_db \<Rightarrow> mapping_db \<Rightarrow> bool" where
  "requeued d d' \<longleftrightarrow> (\<forall>r\<in>set (md_jobs d). r \<in> set (md_jobs d') \<or> row_state r = Some FAILED \<and> waits_again r d')"

lemma requeued_refl [simp]: "requeued d d"
  by (simp add: requeued_def)

lemma requeued_waits: "requeued d d' \<Longrightarrow> waits_again r d \<Longrightarrow> waits_again r d'"
  unfolding requeued_def waits_again_def by (metis JobState.distinct insertE option.inject singletonD)

lemma requeued_trans: "requeued d d1 \<Longrightarrow> requeued d1 d2 \<Longrightarrow> requeued d d2"
  using requeued_waits [of d1 d2] unfolding requeued_def by blast

lemma requeue_for_ok:
  assumes "queue_ok mm d"
  shows "\<exists>d'. requeue_for mm n m k d = Inr d' \<and> same_tables d d' \<and> queue_ok mm d' \<and> requeued d d' \<and>
    (\<forall>r\<in>set (md_jobs d). if failed_for n m k r then waits_again r d' else r \<in> set (md_jobs d'))"
proof -
  obtain db where db: "requeue_integration_jobs (mm_queue mm) n m k (md_jobs d) = Inr db" "sys_ok (mm_queue mm) db"
    and st: "\<And>r. r \<in> set (md_jobs d) \<Longrightarrow> (if failed_for n m k r then (row_links r, Some PENDING) \<in> set (tab db) \<or>
        (row_links r, Some WAIT_DEPENDENCIES) \<in> set (tab db) else r \<in> set db)"
    using requeue_integration_ok [of "mm_queue mm" "md_jobs d" n m k] assms by (auto simp: queue_ok_def)
  let ?d = "d\<lparr>md_jobs := db\<rparr>"
  have w: "if failed_for n m k r then waits_again r ?d else r \<in> set (md_jobs ?d)" if "r \<in> set (md_jobs d)" for r
    using st [OF that] by (auto simp: waits_again_def tab_def split: if_splits)
  then have "requeued d ?d" unfolding requeued_def failed_for_def by metis
  then show ?thesis using db assms
    by (intro exI [of _ ?d] conjI ballI w) (auto simp: requeue_for_def job_result_def same_tables_def queue_ok_def)
qed

lemma external_requeue_ok:
  assumes "queue_ok mm d"
  shows "\<exists>d'. external_requeue_jobs_if_needed mm x d = Inr d' \<and> same_tables d d' \<and> queue_ok mm d' \<and> requeued d d'"
  using requeue_for_ok [OF assms] assms unfolding external_requeue_jobs_if_needed_def by (metis requeued_refl same_tables_refl)

lemma requeue_jobs_ok:
  assumes "queue_ok mm d"
  shows "\<exists>d'. requeue_jobs_if_needed mm ms d = Inr d' \<and> same_tables d d' \<and> queue_ok mm d' \<and> requeued d d'"
  using assms
proof (induction ms arbitrary: d)
  case Nil
  then show ?case by simp
next
  case (Cons m ms)
  show ?case
  proof (cases "mp_internal m = None \<or> external_of d m = None")
    case True
    then show ?thesis using Cons by (auto split: option.splits)
  next
    case False
    then obtain i x where e: "mp_internal m = Some i" "external_of d m = Some x" by auto
    obtain d1 where d1: "requeue_for mm ''NotMappedFromExternal'' (mm_name mm) (ex_code x) d = Inr d1" "same_tables d d1"
      "queue_ok mm d1" "requeued d d1" using requeue_for_ok [OF Cons.prems] by blast
    obtain d2 where d2: "requeue_for mm ''NotMappedToExternal'' (mm_name mm) (show_int i) d1 = Inr d2" "same_tables d1 d2"
      "queue_ok mm d2" "requeued d1 d2" using requeue_for_ok [OF d1(3)] by blast
    obtain d3 where d3: "requeue_jobs_if_needed mm ms d2 = Inr d3" "same_tables d2 d3" "queue_ok mm d3" "requeued d2 d3"
      using Cons.IH [OF d2(3)] by blast
    have "requeue_jobs_if_needed mm (m # ms) d = Inr d3" by (simp add: e d1(1) d2(1) d3(1))
    moreover have "same_tables d d3" "requeued d d3"
      using d1(2,4) d2(2,4) d3(2,4) by (blast intro: same_tables_trans requeued_trans)+
    ultimately show ?thesis using d3(3) by blast
  qed
qed

text \<open>A mapping that is complete requeues the jobs that failed for it.\<close>

lemma requeue_mapping_ok:
  assumes "queue_ok mm d" and "mp_internal m = Some i" and "external_of d m = Some x"
  shows "\<exists>d'. requeue_jobs_if_needed mm [m] d = Inr d' \<and> same_tables d d' \<and> queue_ok mm d' \<and> requeued d d' \<and>
    (\<forall>r\<in>set (md_jobs d). failed_for ''NotMappedFromExternal'' (mm_name mm) (ex_code x) r \<longrightarrow> waits_again r d')"
proof -
  obtain d1 where d1: "requeue_for mm ''NotMappedFromExternal'' (mm_name mm) (ex_code x) d = Inr d1" "same_tables d d1"
    "queue_ok mm d1" "requeued d d1"
    "\<And>r. r \<in> set (md_jobs d) \<Longrightarrow> failed_for ''NotMappedFromExternal'' (mm_name mm) (ex_code x) r \<Longrightarrow> waits_again r d1"
    using requeue_for_ok [OF assms(1), of "''NotMappedFromExternal''" "mm_name mm" "ex_code x"] by auto
  obtain d2 where d2: "requeue_for mm ''NotMappedToExternal'' (mm_name mm) (show_int i) d1 = Inr d2" "same_tables d1 d2"
    "queue_ok mm d2" "requeued d1 d2" using requeue_for_ok [OF d1(3)] by blast
  have "requeue_jobs_if_needed mm [m] d = Inr d2" by (simp add: assms(2,3) d1(1) d2(1))
  moreover have "same_tables d d2" "requeued d d2" using d1(2,4) d2(2,4) by (blast intro: same_tables_trans requeued_trans)+
  ultimately show ?thesis using d1(5) d2(3,4) by (blast intro: requeued_waits)
qed

section \<open>The operations succeed\<close>

lemma create_or_update_succeeds:
  assumes "queue_ok mm d" and "mdb_ok d" and "ev_reference vals = None"
  shows "\<exists>x d'. create_or_update mm vals d = Inr (x, d') \<and> queue_ok mm d' \<and> requeued d d'"
proof (cases "search_external (ev_integration vals) (ev_code vals) d")
  case Nil
  let ?x = "\<lparr>ex_id = md_next_external d, ex_integration = ev_integration vals, ex_code = ev_code vals,
      ex_name = (case ev_name vals of None \<Rightarrow> None | Some n \<Rightarrow> n), ex_reference = None\<rparr>"
  let ?d1 = "d\<lparr>md_externals := md_externals d @ [?x], md_next_external := md_next_external d + 1\<rparr>"
  have "(ev_integration vals, ev_code vals) \<notin> (\<lambda>x. (ex_integration x, ex_code x)) ` set (md_externals d)"
    using Nil by (auto simp: search_external_def filter_empty_conv)
  then have "externals_unique (md_externals ?d1)"
    using assms(2) by (simp add: mdb_ok_def externals_ok_def externals_unique_def)
  then have "create_or_update mm vals d = Inr (?x, ?d1)"
    by (simp add: create_or_update_def Nil create_external_def Let_def assms(3) external_requeue_jobs_if_needed_def)
  then show ?thesis using assms(1) by (simp add: queue_ok_def requeued_def)
next
  case (Cons y ys)
  have "y \<in> set (search_external (ev_integration vals) (ev_code vals) d)" by (simp add: Cons)
  then have y: "y \<in> set (md_externals d)" "ev_integration vals = ex_integration y" "ev_code vals = ex_code y"
    by (simp_all add: search_external_def)
  let ?x = "\<lparr>ex_id = ex_id y, ex_integration = ev_integration vals, ex_code = ev_code vals,
      ex_name = (case ev_name vals of None \<Rightarrow> ex_name y | Some n \<Rightarrow> n), ex_reference = ex_reference y\<rparr>"
  let ?f = "\<lambda>z. if ex_id z = ex_id y then ?x else z"
  let ?d1 = "d\<lparr>md_externals := map ?f (md_externals d)\<rparr>"
  have q: "queue_ok mm ?d1" using assms(1) by (simp add: queue_ok_def)
  obtain d' where d': "external_requeue_jobs_if_needed mm ?x ?d1 = Inr d'" "same_tables ?d1 d'" "queue_ok mm d'" "requeued ?d1 d'"
    using external_requeue_ok [OF q] by blast
  have one: "z = y" if "z \<in> set (md_externals d)" "ex_id z = ex_id y" for z
    using that y(1) assms(2) by (auto simp: mdb_ok_def externals_ok_def distinct_map inj_on_def)
  have f: "ex_integration (?f z) = ex_integration z \<and> ex_code (?f z) = ex_code z \<and> ex_reference (?f z) = ex_reference z"
    if "z \<in> set (md_externals d)" for z
    using one [OF that] y(2,3) by auto
  have "externals_unique (map ?f (md_externals d))"
  proof -
    have "map (\<lambda>x. (ex_integration x, ex_code x)) (map ?f (md_externals d)) = map (\<lambda>x. (ex_integration x, ex_code x)) (md_externals d)"
      unfolding map_map by (rule map_cong [OF refl]) (use f in simp)
    moreover have "filter (\<lambda>x. ex_reference x \<noteq> None) (map ?f (md_externals d)) = map ?f (filter (\<lambda>x. ex_reference x \<noteq> None) (md_externals d))"
      unfolding filter_map by (intro arg_cong [of _ _ "map ?f"] filter_cong refl) (use f in simp)
    then have "map (\<lambda>x. (ex_integration x, ex_reference x)) (filter (\<lambda>x. ex_reference x \<noteq> None) (map ?f (md_externals d))) =
        map (\<lambda>x. (ex_integration x, ex_reference x)) (filter (\<lambda>x. ex_reference x \<noteq> None) (md_externals d))"
      by (simp only: map_map) (rule map_cong [OF refl], use f in simp)
    ultimately show ?thesis using assms(2) by (simp only: externals_unique_def mdb_ok_def externals_ok_def)
  qed
  then have "externals_unique (md_externals d')" using same_tables_fields [OF d'(2)] by simp
  then have "create_or_update mm vals d = Inr (?x, d')"
    using d'(1) by (simp add: create_or_update_def Cons write_external_def Let_def assms(3))
  moreover have "requeued d d'" using d'(4) by (simp add: requeued_def)
  ultimately show ?thesis using d'(3) by blast
qed

text \<open>What a complete mapping does to the jobs that failed for its external record.\<close>

definition wakes :: "mapping_model \<Rightarrow> string \<Rightarrow> mapping_db \<Rightarrow> mapping_db \<Rightarrow> bool" where
  "wakes mm code d d' \<longleftrightarrow>
     (\<forall>r\<in>set (md_jobs d). failed_for ''NotMappedFromExternal'' (mm_name mm) code r \<longrightarrow> waits_again r d')"

lemma wakes_after: "requeued d d1 \<Longrightarrow> wakes mm code d1 d2 \<Longrightarrow> requeued d1 d2 \<Longrightarrow> wakes mm code d d2"
  using requeued_waits [of d1 d2] unfolding wakes_def requeued_def [of d d1] by blast

lemma create_mapping_succeeds:
  assumes "queue_ok mm d" and "mdb_ok d" and "search_mappings i x d = []" and "e \<in> set (md_externals d)" "ex_id e = x" "ex_integration e = i"
  shows "\<exists>m d'. create_mapping mm i r x d = Inr ([m], d') \<and> queue_ok mm d' \<and> requeued d d' \<and> (r \<noteq> None \<longrightarrow> wakes mm (ex_code e) d d')"
proof -
  let ?m = "\<lparr>mp_id = md_next_mapping d, mp_integration = i, mp_internal = r, mp_external = x\<rparr>"
  let ?d1 = "d\<lparr>md_mappings := md_mappings d @ [?m], md_next_mapping := md_next_mapping d + 1\<rparr>"
  have ok: "mdb_ok ?d1" by (rule added_mapping_ok [OF assms(2,3)]) (use assms(4-6) in blast)
  have q: "queue_ok mm ?d1" using assms(1) by (simp add: queue_ok_def)
  have u: "mappings_unique (mm_constraint mm) (md_mappings ?d1)" by (rule mappings_unique_ok) (use ok in \<open>simp only: mdb_ok_def\<close>)
  have e: "external_of ?d1 ?m = Some e" by (rule external_of_found [OF ok]) (use assms(4,5) in simp_all)
  have "\<exists>d'. requeue_jobs_if_needed mm [?m] ?d1 = Inr d' \<and> queue_ok mm d' \<and> requeued ?d1 d' \<and> (r \<noteq> None \<longrightarrow> wakes mm (ex_code e) ?d1 d')"
  proof (cases r)
    case None
    then show ?thesis using requeue_jobs_ok [OF q] by blast
  next
    case (Some k)
    then show ?thesis using requeue_mapping_ok [OF q _ e, of k] by (auto simp: wakes_def)
  qed
  moreover have "requeued ?d1 d' = requeued d d'" "wakes mm (ex_code e) ?d1 d' = wakes mm (ex_code e) d d'" for d'
    by (simp_all add: requeued_def wakes_def)
  ultimately show ?thesis using u by (fastforce simp: create_mapping_def Let_def)
qed

lemma write_internal_succeeds:
  assumes "queue_ok mm d" and "mdb_ok d" and "m \<in> set (md_mappings d)" and "external_of d m = Some e"
  shows "\<exists>m' d'. write_internal mm [m] r d = Inr ([m'], d') \<and> queue_ok mm d' \<and> requeued d d' \<and> (r \<noteq> None \<longrightarrow> wakes mm (ex_code e) d d')"
proof -
  let ?m = "m\<lparr>mp_internal := r\<rparr>"
  let ?d1 = "d\<lparr>md_mappings := map (\<lambda>n. if n \<in> set [m] then n\<lparr>mp_internal := r\<rparr> else n) (md_mappings d)\<rparr>"
  have ok: "mdb_ok ?d1" by (rule written_mapping_ok [OF assms(2)])
  have q: "queue_ok mm ?d1" using assms(1) by (simp add: queue_ok_def)
  have u: "mappings_unique (mm_constraint mm) (md_mappings ?d1)" by (rule mappings_unique_ok) (use ok in \<open>simp only: mdb_ok_def\<close>)
  have e: "external_of ?d1 ?m = Some e" using assms(4) by (simp add: external_of_def)
  have "\<exists>d'. requeue_jobs_if_needed mm [?m] ?d1 = Inr d' \<and> queue_ok mm d' \<and> requeued ?d1 d' \<and> (r \<noteq> None \<longrightarrow> wakes mm (ex_code e) ?d1 d')"
  proof (cases r)
    case None
    then show ?thesis using requeue_jobs_ok [OF q] by blast
  next
    case (Some k)
    then show ?thesis using requeue_mapping_ok [OF q _ e, of k] by (auto simp: wakes_def)
  qed
  moreover have "requeued ?d1 d' = requeued d d'" "wakes mm (ex_code e) ?d1 d' = wakes mm (ex_code e) d d'" for d'
    by (simp_all add: requeued_def wakes_def)
  ultimately show ?thesis using u by (fastforce simp: write_internal_def Let_def)
qed

lemma create_integration_mapping_succeeds:
  assumes "queue_ok mm d" and "mdb_ok d" and "snd extra = None"
  shows "\<exists>m d'. create_integration_mapping mm i r code extra d = Inr ([m], d') \<and> queue_ok mm d' \<and> requeued d d' \<and> wakes mm code d d'"
proof -
  let ?v = "\<lparr>ev_integration = i, ev_code = code, ev_name = fst extra, ev_reference = snd extra\<rparr>"
  obtain x d1 where x: "create_or_update mm ?v d = Inr (x, d1)" "queue_ok mm d1" "requeued d d1"
    using create_or_update_succeeds [OF assms(1,2), of ?v] assms(3) by auto
  have d1: "mdb_ok d1" "x \<in> set (md_externals d1)" "ex_integration x = i" "ex_code x = code"
    using create_or_update_ok [OF x(1) assms(2)] by simp_all
  have "\<exists>m d'. (case search_mappings i (ex_id x) d1 of [] \<Rightarrow> create_mapping mm i (Some r) (ex_id x) d1
       | m # ms \<Rightarrow> if map_option ex_code (external_of d1 m) \<noteq> Some code then Inl AssertionFailed
           else write_internal mm (m # ms) (Some r) d1) = Inr ([m], d') \<and> queue_ok mm d' \<and> requeued d1 d' \<and> wakes mm code d1 d'"
    using search_mappings_cases [OF d1(1), of i "ex_id x"]
  proof cases
    case 1
    then show ?thesis using create_mapping_succeeds [OF x(2) d1(1) 1 d1(2) refl d1(3), of "Some r"] d1(4) by simp
  next
    case (2 m)
    have e: "external_of d1 m = Some x" by (rule external_of_found [OF d1(1,2) 2(4)])
    show ?thesis using write_internal_succeeds [OF x(2) d1(1) 2(2) e, of "Some r"] d1(4) e by (simp add: 2(1))
  qed
  then obtain m d' where "create_integration_mapping mm i r code extra d = Inr ([m], d')" "queue_ok mm d'" "requeued d1 d'" "wakes mm code d1 d'"
    using x(1) by (auto simp: create_integration_mapping_def)
  then show ?thesis using x(3) by (blast intro: requeued_trans wakes_after)
qed

lemma create_or_update_mapping_succeeds:
  assumes "queue_ok mm d" and "mdb_ok d" and "x \<in> set (md_externals d)"
  shows "\<exists>m d'. create_or_update_mapping mm x a d = Inr ([m], d') \<and> queue_ok mm d' \<and> requeued d d'"
  using search_mappings_cases [OF assms(2), of "ex_integration x" "ex_id x"]
proof cases
  case 1
  then show ?thesis using create_mapping_succeeds [OF assms(1,2) 1 assms(3) refl refl, of "arg_value a"]
    by (auto simp: create_or_update_mapping_def mapping_record_def search_mapping_from_external_def)
next
  case (2 m)
  have i: "record_id (internal_records [m]) = Inr (mp_internal m)"
    by (cases "mp_internal m") (simp_all add: record_id_def internal_records_def List.map_filter_def)
  have e: "external_of d m = Some x" by (rule external_of_found [OF assms(2,3) 2(4)])
  show ?thesis using write_internal_succeeds [OF assms(1,2) 2(2) e, of "arg_value a"] assms(1) i
    by (auto simp: create_or_update_mapping_def mapping_record_def search_mapping_from_external_def 2(1))
qed

end
