(* ===== verification/MappingProperties.thy ===== *)
theory MappingProperties
  imports MappingFacts
begin

text \<open>
  The mappings between the shop and Odoo as a system, and its properties: what a code and a record are mapped to,
  what an automatic mapping does, and which failed jobs a new mapping starts again.
\<close>

section \<open>The system\<close>

datatype mapping_event =
    CreateOrUpdate external_vals
  | CreateIntegrationMapping int int string "string option option \<times> string option option"
  | CreateOrUpdateMapping external odoo_arg
  | TryMap "string \<Rightarrow> int list" external
  | ClearMappings int "int list"
  | Unmap "mapping list"
  | BindOdoo mapping int
  | JobsRun table

definition mapping_start :: "mapping_db \<Rightarrow> bool" where
  "mapping_start d \<longleftrightarrow> md_externals d = [] \<and> md_mappings d = []"

text \<open>An operation that raises leaves the tables.\<close>

fun mapping_step :: "mapping_model \<Rightarrow> mapping_db \<Rightarrow> mapping_event \<Rightarrow> mapping_db \<Rightarrow> bool" where
  "mapping_step mm d (CreateOrUpdate vals) d' \<longleftrightarrow> (\<exists>x. create_or_update mm vals d = Inr (x, d'))"
| "mapping_step mm d (CreateIntegrationMapping i r code extra) d' \<longleftrightarrow>
     (\<exists>ms. create_integration_mapping mm i r code extra d = Inr (ms, d'))"
| "mapping_step mm d (CreateOrUpdateMapping x a) d' \<longleftrightarrow>
     x \<in> set (md_externals d) \<and> (\<exists>ms. create_or_update_mapping mm x a d = Inr (ms, d'))"
| "mapping_step mm d (TryMap search x) d' \<longleftrightarrow>
     x \<in> set (md_externals d) \<and> (\<exists>rs. try_map_by_external_reference mm search x d = Inr (rs, d'))"
| "mapping_step mm d (ClearMappings i rs) d' \<longleftrightarrow> d' = clear_mappings i rs d"
| "mapping_step mm d (Unmap ms) d' \<longleftrightarrow> unmap mm ms d = Inr d'"
| "mapping_step mm d (BindOdoo m r) d' \<longleftrightarrow> bind_odoo mm [m] r d = Inr d'"
| "mapping_step mm d (JobsRun db) d' \<longleftrightarrow> d' = d\<lparr>md_jobs := db\<rparr>"

lemma mapping_step_ok:
  assumes "mdb_ok d" and "mapping_step mm d e d'"
  shows "mdb_ok d'"
proof (cases e)
  case (CreateOrUpdate vals)
  then show ?thesis using assms create_or_update_ok by auto
next
  case (CreateIntegrationMapping i r code extra)
  then show ?thesis using assms create_integration_mapping_mapped by (fastforce simp del: split_paired_Ex)
next
  case (CreateOrUpdateMapping x a)
  then show ?thesis using assms create_or_update_mapping_mapped by fastforce
next
  case (TryMap search x)
  then show ?thesis using assms try_map_mapped by auto
next
  case (ClearMappings i rs)
  then show ?thesis using assms clear_mappings_ok by simp
next
  case (Unmap ms)
  then show ?thesis using assms write_internal_ok by (fastforce simp: unmap_def rbind_eq_Inr)
next
  case (BindOdoo m r)
  then show ?thesis using assms write_internal_ok by (fastforce simp: bind_odoo_def rbind_eq_Inr)
next
  case (JobsRun db)
  then show ?thesis using assms by (simp add: mdb_ok_def externals_ok_def mappings_ok_def)
qed

interpretation mapping_sys: invariant_system mapping_start "mapping_step mm" mdb_ok for mm
proof unfold_locales
  show "mapping_start d \<Longrightarrow> mdb_ok d" for d
    by (simp add: mapping_start_def mdb_ok_def externals_ok_def mappings_ok_def externals_unique_def)
qed (rule mapping_step_ok)

definition mapping_reachable :: "mapping_model \<Rightarrow> mapping_db \<Rightarrow> bool" where
  "mapping_reachable mm d \<longleftrightarrow> reachable mapping_start (mapping_step mm) d"

lemma mapping_reachable_ok: "mapping_reachable mm d \<Longrightarrow> mdb_ok d"
  unfolding mapping_reachable_def by (rule mapping_sys.inv_reachable)


text \<open>A store with two countries: the code FR is mapped, DE is not yet.\<close>

definition ex_shop :: integration where "ex_shop = \<lparr>in_name = ''Shop'', in_id = 3\<rparr>"

definition ex_countries :: mapping_model where
  "ex_countries = \<lparr>mm_name = ''integration.res.country.mapping'', mm_external_name = ''integration.res.country.external'',
     mm_odoo_name = ''res.country'', mm_map_field = ex_reference, mm_constraint = UniqueExternal, mm_queue = ex_queue\<rparr>"

definition ex_fr :: external where
  "ex_fr = \<lparr>ex_id = 1, ex_integration = 3, ex_code = ''FR'', ex_name = Some ''France'', ex_reference = None\<rparr>"

definition ex_de :: external where
  "ex_de = \<lparr>ex_id = 2, ex_integration = 3, ex_code = ''DE'', ex_name = None, ex_reference = Some ''DE''\<rparr>"

definition ex_mapped :: mapping_db where
  "ex_mapped = \<lparr>md_externals = [ex_fr, ex_de], md_next_external = 3,
     md_mappings = [\<lparr>mp_id = 1, mp_integration = 3, mp_internal = Some 75, mp_external = 1\<rparr>], md_next_mapping = 2, md_jobs = []\<rparr>"

lemma ex_mapped_reachable: "mapping_reachable ex_countries ex_mapped"
proof -
  let ?d0 = "\<lparr>md_externals = [], md_next_external = 1, md_mappings = [], md_next_mapping = 1, md_jobs = []\<rparr>"
  let ?d1 = "\<lparr>md_externals = [ex_fr], md_next_external = 2,
     md_mappings = [\<lparr>mp_id = 1, mp_integration = 3, mp_internal = Some 75, mp_external = 1\<rparr>], md_next_mapping = 2, md_jobs = []\<rparr>"
  have s1: "create_integration_mapping ex_countries 3 75 ''FR'' (Some (Some ''France''), None) ?d0 =
      Inr ([\<lparr>mp_id = 1, mp_integration = 3, mp_internal = Some 75, mp_external = 1\<rparr>], ?d1)" by code_simp
  have s2: "create_or_update ex_countries \<lparr>ev_integration = 3, ev_code = ''DE'', ev_name = None, ev_reference = Some (Some ''DE'')\<rparr> ?d1 =
      Inr (ex_de, ex_mapped)" by code_simp
  have "reachable mapping_start (mapping_step ex_countries) ?d0" by (rule reachable_start) (simp add: mapping_start_def)
  from reachable_step [OF this, of "CreateIntegrationMapping 3 75 ''FR'' (Some (Some ''France''), None)" ?d1] s1
  have "reachable mapping_start (mapping_step ex_countries) ?d1" by auto
  from reachable_step [OF this, of "CreateOrUpdate \<lparr>ev_integration = 3, ev_code = ''DE'', ev_name = None, ev_reference = Some (Some ''DE'')\<rparr>" ex_mapped] s2
  show ?thesis unfolding mapping_reachable_def by auto
qed


section \<open>There and back\<close>

lemma newest_mapping_cases:
  fixes i r :: int
  assumes "mdb_ok d"
  defines "ms \<equiv> filter (\<lambda>m. mp_integration m = i \<and> mp_internal m = Some r) (md_mappings d)"
  shows "newest_mapping i r d = Some m \<longleftrightarrow> m \<in> set ms \<and> (\<forall>n\<in>set ms. n = m \<or> mp_id n < mp_id m)"
proof (cases "ms = []")
  case True
  then show ?thesis by (simp add: newest_mapping_def ms_def [symmetric])
next
  case False
  let ?s = "sort_key mp_id ms"
  have s: "?s \<noteq> []" using False by (metis set_sort set_empty)
  then have n: "newest_mapping i r d = Some (last ?s)" "last ?s \<in> set ms"
    using last_in_set [OF s] by (simp_all add: newest_mapping_def ms_def [symmetric] list.case_eq_if hd_rev)
  have "mp_id (?s ! k) \<le> mp_id (last ?s)" if "k < length ?s" for k
    using sorted_nth_mono [OF sorted_sort_key [of mp_id ms], of k "length ?s - 1"] that s
    by (simp add: last_conv_nth)
  then have "\<forall>n\<in>set ?s. mp_id n \<le> mp_id (last ?s)" by (metis in_set_conv_nth)
  then have l: "\<forall>n\<in>set ms. mp_id n \<le> mp_id (last ?s)" by simp
  have inj: "m = n" if "m \<in> set ms" "n \<in> set ms" "mp_id m = mp_id n" for m n
    using that assms(1) by (auto simp: ms_def mdb_ok_def mappings_ok_def distinct_map inj_on_def)
  show ?thesis using n l inj by (force simp: order_le_less)
qed

lemma filter_map_other: "\<forall>z\<in>set zs. f z = z \<or> \<not> P z \<and> \<not> P (f z) \<Longrightarrow> filter P (map f zs) = filter P zs"
  by (induction zs) auto

lemma create_or_update_other:
  assumes "create_or_update mm vals d = Inr (x, d1)" and "mdb_ok d" and "(j, c) \<noteq> (ev_integration vals, ev_code vals)"
  shows "search_external j c d1 = search_external j c d"
proof (cases "search_external (ev_integration vals) (ev_code vals) d")
  case Nil
  with assms(1) have "create_external mm vals d = Inr (x, d1)" by (simp add: create_or_update_def)
  from create_external_ok [OF this assms(2)] assms(3) show ?thesis by (auto simp: search_external_def)
next
  case (Cons y ys)
  have "y \<in> set (search_external (ev_integration vals) (ev_code vals) d)" by (simp add: Cons)
  then have y: "y \<in> set (md_externals d)" "ev_integration vals = ex_integration y" "ev_code vals = ex_code y"
    by (simp_all add: search_external_def)
  have "write_external mm y vals d = Inr (x, d1)" using assms(1) by (simp add: create_or_update_def Cons)
  from write_external_ok [OF this assms(2) y] have d1: "md_externals d1 = map (\<lambda>z. if ex_id z = ex_id y then x else z) (md_externals d)"
    "ex_integration x = ex_integration y" "ex_code x = ex_code y" by simp_all
  have one: "z = y" if "z \<in> set (md_externals d)" "ex_id z = ex_id y" for z
    using that y(1) assms(2) by (auto simp: mdb_ok_def externals_ok_def distinct_map inj_on_def)
  show ?thesis unfolding search_external_def d1(1)
    by (rule filter_map_other) (use one d1(2,3) y(2,3) assms(3) in auto)
qed

text \<open>What changes only the mapping of one external record leaves the other codes.\<close>

lemma other_codes:
  assumes "mdb_ok d'" and "x \<in> set (md_externals d')" and m: "mapped_to d1 d' (ex_integration x) (ex_id x) r m"
    and "md_mappings d1 = md_mappings d" and e: "search_external (in_id j) c d' = search_external (in_id j) c d"
    and jc: "(in_id j, c) \<noteq> (ex_integration x, ex_code x)"
  shows "to_odoo mm j c b d' = to_odoo mm j c b d"
proof -
  have "search_mappings (in_id j) (ex_id y) d' = search_mappings (in_id j) (ex_id y) d"
    if "y \<in> set (search_external (in_id j) c d')" for y
  proof -
    have y: "y \<in> set (md_externals d')" "ex_integration y = in_id j" "ex_code y = c" using that by (auto simp: search_external_def)
    have "ex_id y \<noteq> ex_id x \<or> y = x" using y(1) assms(1,2) by (auto simp: mdb_ok_def externals_ok_def distinct_map inj_on_def)
    then have "(in_id j, ex_id y) \<noteq> (ex_integration x, ex_id x)" using y(2,3) jc by auto
    then have "search_mappings (in_id j) (ex_id y) d' = search_mappings (in_id j) (ex_id y) d1"
      using m by (auto simp: mapped_to_def)
    then show ?thesis by (simp add: search_mappings_def assms(4))
  qed
  then show ?thesis unfolding to_odoo_def get_mapping_def e
    by (auto simp: search_mapping_from_external_def e split: list.splits)
qed

text \<open>A record leads to the code of an external record if its newest mapping is the one of the external record.\<close>

lemma code_of_newest:
  assumes ok: "mdb_ok d" and x: "x \<in> set (md_externals d)" "ex_integration x = in_id i"
    and m: "search_mappings (in_id i) (ex_id x) d = [m]" "mp_external m = ex_id x"
  shows "to_external mm i r d = Inr (Some (ex_code x)) \<longleftrightarrow> newest_mapping (in_id i) r d = Some m"
proof (cases "newest_mapping (in_id i) r d")
  case None
  then show ?thesis by (simp add: to_external_def to_external_record_def)
next
  case (Some n)
  then have n: "n \<in> set (md_mappings d)" "mp_integration n = in_id i" using newest_mapping_cases [OF ok] by auto
  obtain e where e: "external_of d n = Some e" "e \<in> set (md_externals d)" "ex_id e = mp_external n" "ex_integration e = in_id i"
    using external_of_mapping [OF ok n(1)] n(2) by metis
  have "[e] = [x]" if "ex_code e = ex_code x"
    unfolding search_external_unique [OF ok e(2), symmetric] search_external_unique [OF ok x(1), symmetric] e(4) x(2) that ..
  then have "ex_code e = ex_code x \<longleftrightarrow> e = x" by auto
  also have "\<dots> \<longleftrightarrow> n = m"
  proof
    assume "e = x"
    then show "n = m" using search_mappings_one [OF ok n(1)] n(2) e(3) m(1) by simp
  next
    assume "n = m"
    then show "e = x" using m(2) e(2,3) x(1) ok by (auto simp: mdb_ok_def externals_ok_def distinct_map inj_on_def)
  qed
  finally show ?thesis using Some e(1) by (simp add: to_external_def to_external_record_def)
qed



section \<open>Automatic mappings\<close>

text \<open>What an external record may refer to in Odoo.\<close>

definition found_records :: "mapping_model \<Rightarrow> (string \<Rightarrow> int list) \<Rightarrow> external \<Rightarrow> int list" where
  "found_records mm search x = (case mm_map_field mm x of None \<Rightarrow> [] | Some s \<Rightarrow> if s = [] then [] else search s)"

text \<open>Only the mapping of one external record changes.\<close>

definition only_mapping_of :: "external \<Rightarrow> mapping_db \<Rightarrow> mapping_db \<Rightarrow> bool" where
  "only_mapping_of x d d' \<longleftrightarrow> md_externals d' = md_externals d \<and>
     (\<forall>y\<in>set (md_externals d). y \<noteq> x \<longrightarrow> odoo_record y d' = odoo_record y d)"

lemma odoo_record_search: "odoo_record x d = Inr (internal_records (search_mappings (ex_integration x) (ex_id x) d))"
  by (simp add: odoo_record_def mapping_record_def search_mapping_from_external_def)

lemma internal_records_one [simp]: "internal_records [m] = (case mp_internal m of None \<Rightarrow> [] | Some i \<Rightarrow> [i])"
  by (simp add: internal_records_def List.map_filter_def split: option.split)

text \<open>One step of the mapping of a record.\<close>

lemma map_step:
  assumes "queue_ok mm d" and "mdb_ok d" and "x \<in> set (md_externals d)"
  shows "\<exists>m d'. create_or_update_mapping mm x a d = Inr ([m], d') \<and> queue_ok mm d' \<and> mdb_ok d' \<and> requeued d d' \<and>
    only_mapping_of x d d' \<and> search_mappings (ex_integration x) (ex_id x) d' = [m] \<and>
    (if a = NoArg then odoo_record x d' = odoo_record x d else mp_internal m = arg_value a)"
proof -
  obtain m d' where d': "create_or_update_mapping mm x a d = Inr ([m], d')" "queue_ok mm d'" "requeued d d'"
    using create_or_update_mapping_succeeds [OF assms] by blast
  note c = create_or_update_mapping_mapped [OF d'(1) assms(2,3)]
  have id: "ex_id y \<noteq> ex_id x" if "y \<in> set (md_externals d)" "y \<noteq> x" for y
    using that assms(2,3) by (auto simp: mdb_ok_def externals_ok_def distinct_map inj_on_def)
  show ?thesis
  proof (cases "search_mappings (ex_integration x) (ex_id x) d = [m] \<and> d' = d \<and> (a = NoArg \<or> mp_internal m = arg_value a)")
    case True
    with d' assms(2) show ?thesis by (intro exI [of _ m] exI [of _ d']) (auto simp: only_mapping_of_def)
  next
    case False
    from c have "if a = NoArg \<and> search_mappings (ex_integration x) (ex_id x) d \<noteq> []
       then search_mappings (ex_integration x) (ex_id x) d = [m] \<and> d' = d
       else mapped_to d d' (ex_integration x) (ex_id x) (arg_value a) m \<or>
         search_mappings (ex_integration x) (ex_id x) d = [m] \<and> d' = d \<and> mp_internal m = arg_value a" by simp
    with False have "mapped_to d d' (ex_integration x) (ex_id x) (arg_value a) m \<and>
        (a = NoArg \<longrightarrow> search_mappings (ex_integration x) (ex_id x) d = [])" by argo
    then have m: "mapped_to d d' (ex_integration x) (ex_id x) (arg_value a) m"
      and n: "a = NoArg \<longrightarrow> search_mappings (ex_integration x) (ex_id x) d = []" by simp_all
    have "only_mapping_of x d d'" using m c id by (auto simp: only_mapping_of_def odoo_record_search mapped_to_def)
    moreover have "odoo_record x d' = odoo_record x d" if "a = NoArg"
      using m n that by (simp add: odoo_record_search mapped_to_def arg_value_def internal_records_def List.map_filter_def)
    ultimately show ?thesis using d' c m by (intro exI [of _ m] exI [of _ d']) (auto simp: mapped_to_def)
  qed
qed

text \<open>C27: The automatic mapping of an external record keeps the record of Odoo that it is mapped to. Otherwise it
  is mapped to the one record of Odoo with its reference, stays without one, but with an empty mapping, if there
  is none or no reference, and is an error if there are several. No other external record is mapped otherwise, and
  jobs change only from failed to pending or waiting.\<close>
theorem try_map_correct:
  fixes search :: "string \<Rightarrow> int list"
  assumes "mapping_reachable mm d" and "queue_ok mm d" and "x \<in> set (md_externals d)" and "odoo_record x d = Inr rs"
  defines "found \<equiv> found_records mm search x"
  shows "if rs \<noteq> [] then try_map_by_external_reference mm search x d = Inr (rs, d)
    else if length found > 1 then try_map_by_external_reference mm search x d = Inl SeveralRecords
    else \<exists>d'. try_map_by_external_reference mm search x d = Inr (found, d') \<and> odoo_record x d' = Inr found \<and>
      search_mappings (ex_integration x) (ex_id x) d' \<noteq> [] \<and> only_mapping_of x d d' \<and> requeued d d'"
proof (cases "rs = []")
  case False
  then show ?thesis using assms(4) by (simp add: try_map_by_external_reference_def)
next
  case True
  obtain m d1 where d1: "create_or_update_mapping mm x NoArg d = Inr ([m], d1)" "queue_ok mm d1" "mdb_ok d1" "requeued d d1"
    "only_mapping_of x d d1" "search_mappings (ex_integration x) (ex_id x) d1 = [m]" "odoo_record x d1 = Inr []"
    using map_step [OF assms(2) mapping_reachable_ok [OF assms(1)] assms(3), of NoArg] assms(4) True by auto
  have t: "try_map_by_external_reference mm search x d =
      (if length found > 1 then Inl SeveralRecords
       else rbind (case found of [] \<Rightarrow> Inr d1 | i # _ \<Rightarrow> rbind (create_or_update_mapping mm x (OdooId i) d1) (\<lambda>(_, d2). Inr d2)) (\<lambda>d2.
            rbind (odoo_record x d2) (\<lambda>rs. Inr (rs, d2))))"
    by (simp add: try_map_by_external_reference_def assms(4) True d1(1) found_def found_records_def Let_def)
  consider "length found > 1" | "found = []" | k where "found = [k]" by (cases found; cases "tl found") auto
  then show ?thesis
  proof cases
    case 1
    then show ?thesis using True t by simp
  next
    case 2
    then show ?thesis using True t d1 by auto
  next
    case 3
    have x: "x \<in> set (md_externals d1)" using d1(5) assms(3) by (simp add: only_mapping_of_def)
    obtain m2 d2 where d2: "create_or_update_mapping mm x (OdooId k) d1 = Inr ([m2], d2)" "requeued d1 d2" "only_mapping_of x d1 d2"
      "search_mappings (ex_integration x) (ex_id x) d2 = [m2]" "mp_internal m2 = Some k"
      using map_step [OF d1(2,3) x, of "OdooId k"] by (auto simp: arg_value_def)
    have "odoo_record x d2 = Inr found" using d2(4,5) 3 by (simp add: odoo_record_search)
    moreover have "only_mapping_of x d d2" using d1(5) d2(3) by (simp add: only_mapping_of_def)
    moreover have "requeued d d2" using d1(4) d2(2) by (rule requeued_trans)
    ultimately show ?thesis using True t 3 d2(1,4) by simp
  qed
qed

text \<open>Germany is mapped to the one country with its reference.\<close>

lemma try_map_correct_witness:
  "\<exists>d'. try_map_by_external_reference ex_countries (\<lambda>s. if s = ''DE'' then [57] else []) ex_de ex_mapped = Inr ([57], d') \<and>
    odoo_record ex_de d' = Inr [57]"
proof -
  have "queue_ok ex_countries ex_mapped"
    by (simp add: queue_ok_def ex_countries_def ex_mapped_def sys_ok_def table_ok_def links_ok_def dep_inv_def)
  moreover have "ex_de \<in> set (md_externals ex_mapped)" by (simp add: ex_mapped_def)
  moreover have "odoo_record ex_de ex_mapped = Inr []" by code_simp
  moreover have "found_records ex_countries (\<lambda>s. if s = ''DE'' then [57] else []) ex_de = [57]"
    by (simp add: found_records_def ex_countries_def ex_de_def)
  ultimately show ?thesis using try_map_correct [OF ex_mapped_reachable, of ex_de "[]" "\<lambda>s. if s = ''DE'' then [57] else []"] by auto
qed

section \<open>Failed jobs\<close>


text \<open>The first job of the example fails since the code DE has no country.\<close>

definition ex_trace :: string where
  "ex_trace = ''Traceback (most recent call last):'' @ [newline] @ ''odoo.addons.integration.exceptions.'' @ ''NotMappedFromExternal'' @ '': '' @
     not_mapped_from_external (''Unable to map the external code \"DE\" to an Odoo record.'') ''integration.res.country.mapping'' ''DE''
       (Some ex_shop) @ [newline]"

definition ex_missing :: run_env where
  "ex_missing = ex_run\<lparr>re_work := (\<lambda>j db. (db, Inl (OtherError ''E'' ''m''))), re_traceback := (\<lambda>_. ex_trace)\<rparr>"

definition ex_failed :: table where
  "ex_failed = fst (runjob ex_missing ''u0'' [] ex_enqueued)"

lemma ex_failed_reachable: "job_reachable any_method ex_failed"
proof -
  have "run_env_ok any_method ex_missing"
    using ex_run_ok by (simp add: run_env_ok_def ex_missing_def work_ok_def env_ok_def)
  then have "job_step any_method ex_enqueued (RunJob ex_missing ''u0'' []) ex_failed" by (simp add: ex_failed_def)
  then show ?thesis using ex_enqueued_reachable unfolding job_reachable_def by (rule reachable_step [rotated])
qed

lemma ex_failed_rows:
  "ex_failed \<noteq> []" "row_state (hd ex_failed) = Some FAILED" "fld ''exc_info'' (hd ex_failed) = PStr ex_trace"
  by code_simp+

definition ex_job_fields :: fields where
  "ex_job_fields = [(''integration_exception_name'', PStr ''NotMappedFromExternal''),
     (''integration_model_name'', PStr ''integration.res.country.mapping''), (''integration_key'', PStr ''DE'')]"


text \<open>What a job that failed for a missing mapping gets, and what the other exceptions leave.\<close>

lemma values_from_external:
  assumes "fld ''exc_info'' r = PStr t" and "t \<noteq> []"
    and "find_exception t = Some \<lparr>xk_name = n, xk_model = m, xk_key = k, xk_integration = show_int i\<rparr>"
  shows "exception_values r = Inr [(''integration_exception_name'', PStr n), (''integration_model_name'', PStr m),
    (''integration_key'', PStr k), (''integration_id'', PInt i)]"
proof -
  have "show_int i \<noteq> []" by (simp add: show_int_def)
  then show ?thesis using assms by (simp add: exception_values_def py_int_show_int Let_def)
qed

text \<open>A job that failed because a code of the shop has no mapping keeps the key of it: the traceback names the
  exception once, and the text of the exception is found in it with its code and its integration. The model that
  is kept is more than the name of the model: the name of the integration and an arrow come before it.\<close>
theorem missing_mapping_recorded:
  assumes "to_odoo mm i code True d = Inl (NotMappedFromExternal x)"
    and "fld ''exc_info'' r = PStr t" and "t = pre @ ''NotMappedFromExternal'' @ '': '' @ x @ post"
    and "named_at t = [(length pre, ''NotMappedFromExternal'')]"
    and "plain_name (in_name i)" and "plain_name (mm_name mm)" and "plain_name code"
  shows "exception_values r = Inr [(''integration_exception_name'', PStr ''NotMappedFromExternal''),
    (''integration_model_name'', PStr (in_name i @ '' '' @ arrow @ '' '' @ mm_name mm)),
    (''integration_key'', PStr code), (''integration_id'', PInt (in_id i))]"
proof -
  have "x = not_mapped_from_external (''Unable to map the external code \"'' @ code @ ''\" to an Odoo record.'') (mm_name mm) code (Some i)"
    using assms(1) by (auto simp: to_odoo_def rbind_eq_Inl get_internal_record_def get_mapping_def search_mapping_from_external_def
        split: if_splits list.splits)
  with assms(3) have t: "t = pre @ ''NotMappedFromExternal'' @ '': '' @
      not_mapped_from_external (''Unable to map the external code \"'' @ code @ ''\" to an Odoo record.'') (mm_name mm) code (Some i) @ post"
    by simp
  have "t \<noteq> []" using t by simp
  then show ?thesis using values_from_external [OF assms(2) _ find_from_external [OF assms(4) t assms(5-7)]] by simp
qed

lemma ex_trace_named: "named_at ex_trace = [(70, ''NotMappedFromExternal'')]"
  by (simp add: ex_trace_def ex_shop_def not_mapped_from_external_def arrow_def newline_def show_int_def show_nat.simps digit_char_def
      char_of_def exception_names_def named_at_simps)

lemma missing_mapping_recorded_witness:
  "exception_values (hd ex_failed) = Inr [(''integration_exception_name'', PStr ''NotMappedFromExternal''),
    (''integration_model_name'', PStr (''Shop '' @ arrow @ '' integration.res.country.mapping'')),
    (''integration_key'', PStr ''DE''), (''integration_id'', PInt 3)]"
proof -
  let ?pre = "''Traceback (most recent call last):'' @ [newline] @ ''odoo.addons.integration.exceptions.''"
  let ?x = "not_mapped_from_external (''Unable to map the external code \"DE\" to an Odoo record.'') ''integration.res.country.mapping'' ''DE''
    (Some ex_shop)"
  have x: "to_odoo ex_countries ex_shop ''DE'' True ex_mapped = Inl (NotMappedFromExternal ?x)" by code_simp
  have t: "ex_trace = ?pre @ ''NotMappedFromExternal'' @ '': '' @ ?x @ [newline]" by (simp add: ex_trace_def)
  have p: "plain_name (in_name ex_shop)" "plain_name (mm_name ex_countries)" "plain_name ''DE''" by code_simp+
  have "length ?pre = 70" by simp
  with ex_trace_named have n: "named_at ex_trace = [(length ?pre, ''NotMappedFromExternal'')]" by simp
  from missing_mapping_recorded [OF x ex_failed_rows(3) t n p] show ?thesis
    by (simp add: ex_shop_def ex_countries_def)
qed

text \<open>The texts of the three exceptions that a job may fail with.\<close>

definition mapping_exception :: "string \<Rightarrow> integration \<Rightarrow> string \<Rightarrow> string \<Rightarrow> int \<Rightarrow> string \<Rightarrow> string" where
  "mapping_exception n i model code obj msg =
     (if n = ''NotMappedFromExternal'' then not_mapped_from_external msg model code (Some i)
      else if n = ''NotMappedToExternal'' then not_mapped_to_external msg model obj (Some i)
      else no_external msg model code (Some i))"

lemma values_never_found:
  assumes "fld ''exc_info'' r = PStr t" and "t = pre @ n @ '': '' @ mapping_exception n i model code obj msg @ post"
    and "named_at t = [(length pre, n)]" and "plain_name (in_name i)" "plain_name model" "plain_name code" "obj \<noteq> 0"
    and "n = ''NotMappedFromExternal'' \<or> (\<exists>k. fld ''integration_id'' r = PInt k \<and> k \<noteq> 0)"
  shows "\<exists>vals. exception_values r = Inr vals \<and> distinct (map fst vals) \<and>
    (\<exists>v. map_of vals ''integration_model_name'' = Some v \<and> (v = PNone \<or> (\<exists>m. v = PStr m \<and> hd arrow \<in> set m)))"
proof -
  have a: "hd arrow \<in> set (x @ '' '' @ arrow @ y)" for x y by (simp add: arrow_def)
  have "n \<in> set exception_names" using arg_cong [OF assms(3), of set] by (auto simp: named_at_def)
  then consider "n = ''NotMappedFromExternal''" | "n = ''NotMappedToExternal''" | "n = ''NoExternal''"
    by (auto simp: exception_names_def)
  then show ?thesis
  proof cases
    case 1
    have "t \<noteq> []" using assms(2) 1 by simp
    have "find_exception t = Some \<lparr>xk_name = ''NotMappedFromExternal'', xk_model = in_name i @ '' '' @ arrow @ '' '' @ model,
        xk_key = code, xk_integration = show_int (in_id i)\<rparr>"
      by (rule find_from_external [OF assms(3) [unfolded 1] _ assms(4-6)]) (use assms(2) in \<open>simp add: 1 mapping_exception_def\<close>)
    from values_from_external [OF assms(1) \<open>t \<noteq> []\<close> this] a show ?thesis by simp
  next
    case 2
    have "find_exception t = None"
      by (rule find_to_external [OF assms(3) [unfolded 2] _ assms(4,5,7)]) (use assms(2) in \<open>simp add: 2 mapping_exception_def\<close>)
    with 2 assms(1,8) show ?thesis by (auto simp: exception_values_def)
  next
    case 3
    have "find_exception t = None"
      by (rule find_no_external [OF assms(3) [unfolded 3] _ assms(5,6)]) (use assms(2) in \<open>simp add: 3 mapping_exception_def\<close>)
    with 3 assms(1,8) show ?thesis by (auto simp: exception_values_def)
  qed
qed

text \<open>C26: A job that failed with one of the exceptions of missing mappings is not started again when the mapping is
  made: whatever exception, model and key a requeue searches for, the job stays failed, as long as the name of the
  model has no arrow in it. The names of two of the exceptions are not found in their own texts, and the third
  keeps the name of the integration before that of the model.\<close>
theorem failed_jobs_stay_failed:
  assumes "job_reachable im db" and "env_ok im qe" and "r \<in> set db" and "row_state r = Some FAILED"
    and "fld ''exc_info'' r = PStr t" and "t = pre @ n @ '': '' @ mapping_exception n i model code obj msg @ post"
    and "named_at t = [(length pre, n)]" and "plain_name (in_name i)" "plain_name model" "plain_name code" "obj \<noteq> 0"
    and "n = ''NotMappedFromExternal'' \<or> (\<exists>k. fld ''integration_id'' r = PInt k \<and> k \<noteq> 0)"
    and "record_exceptions [row_uuid r] db = Inr db1" and "hd arrow \<notin> set m"
  shows "\<exists>db2. requeue_integration_jobs qe exception_name m key db1 = Inr db2 \<and> (row_links r, Some FAILED) \<in> set (tab db2)"
proof -
  have q: "model_ok qe" "sys_ok qe db" using reachable_sys [OF assms(1,2)] by simp_all
  obtain vals v where v: "exception_values r = Inr vals" "distinct (map fst vals)" "map_of vals ''integration_model_name'' = Some v"
      "v = PNone \<or> (\<exists>m. v = PStr m \<and> hd arrow \<in> set m)"
    using values_never_found [OF assms(5-12)] by blast
  let ?r = "dict_update r vals"
  have r: "?r \<in> set db1" using record_exceptions_ok(3) [OF assms(13,3)] v(1) by auto
  have "fld ''integration_model_name'' ?r \<noteq> PStr m"
    using v(2-4) assms(14) by (auto simp: fld_def map_of_dict_update [OF v(2)] map_add_def)
  then have "\<not> failed_for exception_name m key ?r" by (simp add: failed_for_def)
  moreover have "sys_ok qe db1" using record_exceptions_ok(2) [OF assms(13)] q(2) by simp
  ultimately obtain db2 where "requeue_integration_jobs qe exception_name m key db1 = Inr db2" and "?r \<in> set db2"
    using requeue_integration_ok [OF q(1), of db1 exception_name m key] r by fastforce
  from \<open>?r \<in> set db2\<close> have "(row_links ?r, row_state ?r) \<in> set (tab db2)" unfolding tab_def set_map by (rule imageI)
  then show ?thesis using \<open>requeue_integration_jobs qe exception_name m key db1 = Inr db2\<close>
      exception_row(1,2) [OF exception_columns [OF v(1)]] assms(4) by auto
qed

lemma failed_jobs_stay_failed_witness:
  "\<exists>db1 db2. record_exceptions [''u0''] ex_failed = Inr db1 \<and>
    requeue_integration_jobs ex_queue ''NotMappedFromExternal'' ''integration.res.country.mapping'' ''DE'' db1 = Inr db2 \<and>
    (row_links (hd ex_failed), Some FAILED) \<in> set (tab db2)"
proof -
  let ?pre = "''Traceback (most recent call last):'' @ [newline] @ ''odoo.addons.integration.exceptions.''"
  let ?msg = "''Unable to map the external code \"DE\" to an Odoo record.''"
  have t: "ex_trace = ?pre @ ''NotMappedFromExternal'' @ '': '' @
      mapping_exception ''NotMappedFromExternal'' ex_shop ''integration.res.country.mapping'' ''DE'' 1 ?msg @ [newline]"
    by (simp add: ex_trace_def mapping_exception_def)
  have p: "plain_name (in_name ex_shop)" "plain_name ''integration.res.country.mapping''" "plain_name ''DE''" by code_simp+
  have "length ?pre = 70" by simp
  with ex_trace_named have n: "named_at ex_trace = [(length ?pre, ''NotMappedFromExternal'')]" by simp
  have "\<not> isl (record_exceptions [''u0''] ex_failed)" by code_simp
  then obtain db1 where db1: "record_exceptions [''u0''] ex_failed = Inr db1" by (cases "record_exceptions [''u0''] ex_failed") auto
  have u: "row_uuid (hd ex_failed) = ''u0''" by code_simp
  have a: "hd arrow \<notin> set ''integration.res.country.mapping''" by code_simp
  from failed_jobs_stay_failed [OF ex_failed_reachable ex_model(1) hd_in_set [OF ex_failed_rows(1)] ex_failed_rows(2,3) t n p _ _
      db1 [folded u] a, of "''NotMappedFromExternal''" "''DE''"] db1
  show ?thesis by auto
qed

end
