(* ===== verification/Deliveries.thy ===== *)
theory Deliveries
  imports Complex_Main PyString "HOL-Library.Monad_Syntax"
begin

text \<open>
  The deliveries of an order in Odoo (\<open>integration/models/stock_picking.py\<close>, \<open>sale_order.py\<close>,
  \<open>external/external_order_fulfillment.py\<close>, \<open>external_order_resource.py\<close>): what the shop has already delivered is
  taken over into a picking, pickings are validated one after the other, and validated pickings are sent to the
  shop. What Odoo does when it validates a picking, its comparison of numbers and the components of a kit are
  arguments.
\<close>

section \<open>Pickings\<close>

text \<open>A line of a move has its quantity in its own unit; \<open>sl_factor\<close> converts it to the unit of the product.\<close>

record stock_move_line =
  sl_quantity :: rat
  sl_factor :: rat

definition quantity_product_uom :: "stock_move_line \<Rightarrow> rat" where
  "quantity_product_uom l = sl_quantity l * sl_factor l"

record stock_move =
  sm_id :: int
  sm_state :: string
  sm_external :: "string option"
  sm_sale_line :: int
  sm_sale_product :: int
  sm_to_deliver :: rat
  sm_product :: int
  sm_product_qty :: rat
  sm_rounding :: rat
  sm_lines :: "stock_move_line list"

record delivery_picking =
  sp_id :: int
  sp_name :: string
  sp_state :: string
  sp_code :: string
  sp_dropship :: bool
  sp_exported :: bool
  sp_tracking :: string
  sp_carrier :: "int option"
  sp_warehouse :: int
  sp_moves :: "stock_move list"

text \<open>What a validation answers: \<open>True\<close>, an action for the user, or an error of Odoo with its text.\<close>

datatype validation = ValidationDone | ValidationAction | ValidationFailed string

record delivery_env =
  de_move_quantity :: "stock_move \<Rightarrow> rat"
  de_float_compare :: "rat \<Rightarrow> rat \<Rightarrow> rat \<Rightarrow> int"
  de_bom_find :: "int \<Rightarrow> int option"
  de_explode :: "int \<Rightarrow> int \<Rightarrow> int \<Rightarrow> (int \<times> rat) list"
  de_carrier_by_name :: "string \<Rightarrow> int option"

section \<open>The quantities that the shop has delivered\<close>

text \<open>\<open>int\<close> of a float.\<close>

definition int_of_float :: "rat \<Rightarrow> int" where
  "int_of_float q = (if q < 0 then - \<lfloor>- q\<rfloor> else \<lfloor>q\<rfloor>)"

definition compare_qty_to_realqty :: "delivery_env \<Rightarrow> stock_move \<Rightarrow> int" where
  "compare_qty_to_realqty env m = de_float_compare env (de_move_quantity env m) (sm_product_qty m) (sm_rounding m)"

definition has_enough_qty :: "delivery_env \<Rightarrow> stock_move \<Rightarrow> bool" where
  "has_enough_qty env m \<longleftrightarrow> compare_qty_to_realqty env m \<le> 0"

definition move_qty_lack :: "delivery_env \<Rightarrow> stock_move \<Rightarrow> bool" where
  "move_qty_lack env m \<longleftrightarrow> compare_qty_to_realqty env m = -1"

definition moves_by_external_line :: "delivery_env \<Rightarrow> string \<Rightarrow> delivery_picking \<Rightarrow> stock_move list" where
  "moves_by_external_line env line_id p =
     filter (\<lambda>m. sm_state m \<notin> {''done'', ''cancel''} \<and> sm_external m = Some line_id \<and> has_enough_qty env m) (sp_moves p)"

record fulfilled_line =
  fl_external :: string
  fl_quantity :: int

definition check_qty_availability :: "delivery_env \<Rightarrow> delivery_picking \<Rightarrow> fulfilled_line \<Rightarrow> bool" where
  "check_qty_availability env p l \<longleftrightarrow>
     (\<exists>m\<in>set (moves_by_external_line env (fl_external l) p). sm_to_deliver m \<ge> of_int (fl_quantity l))"

definition check_for_fulfill :: "delivery_env \<Rightarrow> fulfilled_line list \<Rightarrow> delivery_picking \<Rightarrow> bool" where
  "check_for_fulfill env ls p \<longleftrightarrow> (\<forall>l\<in>set ls. check_qty_availability env p l)"

text \<open>The loop over the lines of a move, with what is left of the delivered quantity.\<close>

fun fill_move_lines :: "rat \<Rightarrow> stock_move_line list \<Rightarrow> rat \<times> stock_move_line list" where
  "fill_move_lines q [] = (q, [])"
| "fill_move_lines q (l # ls) =
     (if q = 0 then (let (q', ls') = fill_move_lines q ls in (q', l # ls'))
      else (let demand = quantity_product_uom l;
                value = (if demand \<le> q then demand else q);
                left = (if demand \<le> q then q - value else q);
                (q', ls') = fill_move_lines left ls
            in (q', l\<lparr>sl_quantity := value\<rparr> # ls')))"

text \<open>The loop over the moves of a line of the shop; what is left of a product is kept only if a line was written.\<close>

fun fill_moves :: "int list \<Rightarrow> (int \<times> rat) list \<Rightarrow> stock_move list \<Rightarrow> stock_move list" where
  "fill_moves ids qtys [] = []"
| "fill_moves ids qtys (m # ms) =
     (if sm_id m \<notin> set ids then m # fill_moves ids qtys ms
      else (let q = (case map_of qtys (sm_product m) of None \<Rightarrow> 0 | Some q \<Rightarrow> q);
                (q', ls) = fill_move_lines q (sm_lines m);
                qtys' = (if q \<noteq> 0 \<and> sm_lines m \<noteq> [] then dict_set (sm_product m) q' qtys else qtys)
            in m\<lparr>sm_lines := ls\<rparr> # fill_moves ids qtys' ms))"

definition fulfilled_quantities :: "delivery_env \<Rightarrow> int \<Rightarrow> int \<Rightarrow> (int \<times> rat) list" where
  "fulfilled_quantities env product q =
     (case de_bom_find env product of
        Some bom \<Rightarrow> foldl (\<lambda>d (p, n). dict_set p (of_int (int_of_float n)) d) [] (de_explode env bom product q)
      | None \<Rightarrow> [(product, of_int q)])"

definition fulfill_line :: "delivery_env \<Rightarrow> delivery_picking \<Rightarrow> fulfilled_line \<Rightarrow> delivery_picking" where
  "fulfill_line env p l =
     (case moves_by_external_line env (fl_external l) p of
        [] \<Rightarrow> p
      | m # ms \<Rightarrow> p\<lparr>sp_moves := fill_moves (map sm_id (m # ms)) (fulfilled_quantities env (sm_sale_product m) (fl_quantity l)) (sp_moves p)\<rparr>)"

definition skip_other_moves :: "delivery_env \<Rightarrow> fulfilled_line list \<Rightarrow> delivery_picking \<Rightarrow> delivery_picking" where
  "skip_other_moves env ls p =
     (let actual = concat (map (\<lambda>l. map sm_id (moves_by_external_line env (fl_external l) p)) ls)
      in p\<lparr>sp_moves := map (\<lambda>m. if sm_id m \<in> set actual then m
           else m\<lparr>sm_lines := map (\<lambda>l. l\<lparr>sl_quantity := 0\<rparr>) (sm_lines m)\<rparr>) (sp_moves p)\<rparr>)"

section \<open>Fulfillments of the shop\<close>

datatype resource_status = ResourceDraft | ResourceSkipped | ResourceFailed | ResourceDone

datatype resource_info =
    StatusNotAllowed | NoPendingDeliveries | NoMatchingDelivery | DeliveryFailed string

record fulfillment_record =
  fr_id :: int
  fr_status :: resource_status
  fr_external_status :: string
  fr_info :: "resource_info option"
  fr_location :: "string option"
  fr_company :: string
  fr_tracking :: string
  fr_lines :: "fulfilled_line list"

definition is_ecommerce_ok :: "fulfillment_record \<Rightarrow> bool" where
  "is_ecommerce_ok f \<longleftrightarrow> fr_external_status f = ''success''"

definition prepare_fulfillment :: "delivery_env \<Rightarrow> fulfillment_record \<Rightarrow> delivery_picking \<Rightarrow> delivery_picking" where
  "prepare_fulfillment env f p =
     (let p1 = foldl (fulfill_line env) (skip_other_moves env (fr_lines f) p) (fr_lines f);
          p2 = (if fr_tracking f = [] then p1 else p1\<lparr>sp_tracking := fr_tracking f\<rparr>)
      in if fr_company f = [] then p2 else p2\<lparr>sp_carrier := de_carrier_by_name env (fr_company f)\<rparr>)"

text \<open>The pickings of the order and its settings; a validation changes the pickings and may add backorders.\<close>

type_synonym validator = "int \<Rightarrow> delivery_picking list \<Rightarrow> validation \<times> delivery_picking list"

definition to_handle :: "delivery_picking \<Rightarrow> bool" where
  "to_handle p \<longleftrightarrow> sp_state p \<in> {''confirmed'', ''assigned''}"

record order_settings =
  os_multi_stock :: bool
  os_warehouse_of :: "string option \<Rightarrow> int option"

definition fulfillment_pickings :: "order_settings \<Rightarrow> fulfillment_record \<Rightarrow> delivery_picking list \<Rightarrow> delivery_picking list" where
  "fulfillment_pickings os f ps =
     (let pickings = filter to_handle ps in
      if os_multi_stock os
      then (case os_warehouse_of os (fr_location f) of
              None \<Rightarrow> pickings
            | Some w \<Rightarrow> filter (\<lambda>p. sp_warehouse p = w) pickings)
      else pickings)"

definition write_picking :: "delivery_picking \<Rightarrow> delivery_picking list \<Rightarrow> delivery_picking list" where
  "write_picking p ps = map (\<lambda>x. if sp_id x = sp_id p then p else x) ps"

definition mark_integration_sent :: "int \<Rightarrow> delivery_picking list \<Rightarrow> delivery_picking list" where
  "mark_integration_sent i ps = map (\<lambda>x. if sp_id x = i then x\<lparr>sp_exported := True\<rparr> else x) ps"

text \<open>The result is whether it succeeded and the pickings it touched. An error of the validation is caught: what was
  written to the picking stays.\<close>

definition validate_fulfillment ::
  "delivery_env \<Rightarrow> order_settings \<Rightarrow> validator \<Rightarrow> fulfillment_record \<Rightarrow> delivery_picking list \<Rightarrow>
    (bool \<times> int list) \<times> fulfillment_record \<times> delivery_picking list" where
  "validate_fulfillment env os button_validate f0 ps =
     (let f = f0\<lparr>fr_info := None\<rparr> in
      if fr_status f = ResourceDone then ((True, []), f, ps)
      else if \<not> is_ecommerce_ok f
      then ((False, []), f\<lparr>fr_info := Some StatusNotAllowed, fr_status := ResourceSkipped\<rparr>, ps)
      else if fulfillment_pickings os f ps = []
      then ((True, []), f\<lparr>fr_info := Some NoPendingDeliveries, fr_status := ResourceDone\<rparr>, ps)
      else (case filter (check_for_fulfill env (fr_lines f)) (fulfillment_pickings os f ps) of
              [] \<Rightarrow> ((False, []), f\<lparr>fr_info := Some NoMatchingDelivery\<rparr>, ps)
            | p # _ \<Rightarrow>
                (case button_validate (sp_id p) (write_picking (prepare_fulfillment env f p) ps) of
                   (ValidationFailed msg, ps1) \<Rightarrow>
                     ((False, []), f\<lparr>fr_info := Some (DeliveryFailed msg), fr_status := ResourceFailed\<rparr>, ps1)
                 | (_, ps1) \<Rightarrow>
                     ((True, [sp_id p]), f\<lparr>fr_status := ResourceDone\<rparr>, mark_integration_sent (sp_id p) ps1))))"

text \<open>All fulfillments of an order that the shop completed and that are not done.\<close>

fun apply_fulfillments ::
  "delivery_env \<Rightarrow> order_settings \<Rightarrow> validator \<Rightarrow> fulfillment_record list \<Rightarrow> delivery_picking list \<Rightarrow>
    fulfillment_record list \<times> delivery_picking list" where
  "apply_fulfillments env os v [] ps = ([], ps)"
| "apply_fulfillments env os v (f # fs) ps =
     (if is_ecommerce_ok f \<and> fr_status f \<noteq> ResourceDone
      then (let (_, f', ps') = validate_fulfillment env os v f ps;
                (fs', ps'') = apply_fulfillments env os v fs ps'
            in (f' # fs', ps''))
      else (let (fs', ps'') = apply_fulfillments env os v fs ps in (f # fs', ps'')))"

section \<open>Validating all pickings\<close>

datatype validate_message =
    ManualValidation string | ValidationRaised string string | WaitingPickings "string list" | ValidatedPickings "string list"

definition complete_lines :: "delivery_env \<Rightarrow> delivery_picking \<Rightarrow> delivery_picking" where
  "complete_lines env p =
     p\<lparr>sp_moves := map (\<lambda>m. if sm_state m \<notin> {''done'', ''cancel''} \<and> move_qty_lack env m
        then m\<lparr>sm_lines := map (\<lambda>l. l\<lparr>sl_quantity := quantity_product_uom l\<rparr>) (sm_lines m)\<rparr> else m) (sp_moves p)\<rparr>"

definition pickings_of :: "int list \<Rightarrow> delivery_picking list \<Rightarrow> delivery_picking list" where
  "pickings_of ids ps = filter (\<lambda>p. sp_id p \<in> set ids) ps"

definition validated_result :: "int list \<Rightarrow> delivery_picking list \<Rightarrow> bool \<times> validate_message" where
  "validated_result ids ps =
     (let waiting = filter (\<lambda>p. sp_state p = ''waiting'') (pickings_of ids ps) in
      if waiting \<noteq> [] then (False, WaitingPickings (map sp_name waiting))
      else (True, ValidatedPickings (map sp_name (pickings_of ids ps))))"

text \<open>The pickings that the loop still has before it, and those the method was called on. After each validation the
  method is called again on all pickings of the order that are to be handled, if there are any.\<close>

partial_function (option) validate_loop ::
  "delivery_env \<Rightarrow> validator \<Rightarrow> int list \<Rightarrow> int list \<Rightarrow> delivery_picking list \<Rightarrow>
    ((bool \<times> validate_message) \<times> delivery_picking list) option" where
  "validate_loop env button_validate todo ids ps =
     (case todo of
        [] \<Rightarrow> Some (validated_result ids ps, ps)
      | i # rest \<Rightarrow>
          (let ps1 = map (\<lambda>p. if sp_id p = i then complete_lines env p else p) ps;
               name = concat (map sp_name (pickings_of [i] ps));
               (outcome, ps2) = button_validate i ps1
           in case outcome of
                ValidationAction \<Rightarrow> Some ((False, ManualValidation name), ps2)
              | ValidationFailed msg \<Rightarrow> Some ((False, ValidationRaised name msg), ps2)
              | ValidationDone \<Rightarrow>
                  (let handle = map sp_id (filter to_handle ps2) in
                   if handle \<noteq> [] then validate_loop env button_validate handle handle ps2
                   else validate_loop env button_validate rest ids ps2)))"

definition auto_validate_picking ::
  "delivery_env \<Rightarrow> validator \<Rightarrow> int list \<Rightarrow> delivery_picking list \<Rightarrow> ((bool \<times> validate_message) \<times> delivery_picking list) option" where
  "auto_validate_picking env v ids ps = validate_loop env v (map sp_id (filter to_handle (pickings_of ids ps))) ids ps"

text \<open>The task of the workflow: \<open>None\<close> if there is nothing to validate.\<close>

definition integration_validate_picking ::
  "delivery_env \<Rightarrow> validator \<Rightarrow> delivery_picking list \<Rightarrow> ((bool \<times> validate_message option) \<times> delivery_picking list) option" where
  "integration_validate_picking env v ps =
     (let ids = map sp_id (filter (\<lambda>p. sp_state p \<notin> {''done'', ''cancel''}) ps) in
      if ids = [] then Some ((True, None), ps)
      else map_option (\<lambda>((b, msg), ps'). ((b, Some msg), ps')) (auto_validate_picking env v ids ps))"

section \<open>Sending pickings to the shop\<close>

text \<open>The settings of a shop: whether deliveries are exported, by which jobs, whether a tracking number is needed,
  and whether the shop takes parts of an order.\<close>

record shop_settings =
  ss_active :: bool
  ss_tracking_job :: bool
  ss_tracking_required :: bool
  ss_takes_parts :: bool

record sale =
  so_state :: string
  so_delivered :: "rat list"
  so_pickings :: "delivery_picking list"
  so_shop :: "shop_settings option"

datatype delivery_job = ExportTracking "int list" | SendPicking int | ShippedHook

definition is_order_tracking_export_enabled :: "shop_settings \<Rightarrow> bool" where
  "is_order_tracking_export_enabled ss \<longleftrightarrow> ss_active ss \<and> ss_tracking_job ss"

text \<open>The quantities are those of the lines whose products are delivered.\<close>

definition is_partially_delivered :: "(rat \<Rightarrow> bool) \<Rightarrow> sale \<Rightarrow> bool" where
  "is_partially_delivered is_zero s \<longleftrightarrow> (\<exists>q\<in>set (so_delivered s). \<not> is_zero q)"

definition check_is_order_shipped :: "(rat \<Rightarrow> bool) \<Rightarrow> sale \<Rightarrow> bool" where
  "check_is_order_shipped is_zero s \<longleftrightarrow>
     so_state s \<notin> {''draft'', ''sent'', ''cancel''} \<and>
     filter (\<lambda>x. x \<notin> {''cancel'', ''done''}) (map sp_state (so_pickings s)) = [] \<and> is_partially_delivered is_zero s"

definition filter_pickings :: "delivery_picking list \<Rightarrow> delivery_picking list" where
  "filter_pickings ps = filter (\<lambda>p. sp_state p = ''done'' \<and> \<not> sp_exported p \<and> (sp_code p = ''outgoing'' \<or> sp_dropship p)) ps"

definition with_tracking :: "shop_settings \<Rightarrow> delivery_picking list \<Rightarrow> delivery_picking list" where
  "with_tracking ss ps = (if ss_tracking_required ss then filter (\<lambda>p. sp_tracking p \<noteq> []) ps else ps)"

definition order_export_tracking :: "bool \<Rightarrow> sale \<Rightarrow> delivery_job list" where
  "order_export_tracking skip_dispatch s =
     (if skip_dispatch then []
      else case so_shop s of
        None \<Rightarrow> []
      | Some ss \<Rightarrow>
          if \<not> is_order_tracking_export_enabled ss then []
          else (let ps = with_tracking ss (filter_pickings (so_pickings s))
                in if ps = [] then [] else [ExportTracking (map sp_id ps)]))"

definition integration_send_picking :: "bool \<Rightarrow> sale \<Rightarrow> delivery_picking \<Rightarrow> delivery_job list" where
  "integration_send_picking skip_dispatch s p =
     (if skip_dispatch then []
      else case so_shop s of
        None \<Rightarrow> []
      | Some ss \<Rightarrow>
          if \<not> is_order_tracking_export_enabled ss then []
          else if with_tracking ss (filter_pickings [p]) = [] then [] else [SendPicking (sp_id p)])"

definition shipped_order_hook :: "sale \<Rightarrow> delivery_job list" where
  "shipped_order_hook s = (case so_shop s of None \<Rightarrow> [] | Some ss \<Rightarrow> if ss_tracking_job ss then [ShippedHook] else [])"

text \<open>The hooks for some validated or cancelled pickings of an order.\<close>

definition run_picking_hooks :: "(rat \<Rightarrow> bool) \<Rightarrow> bool \<Rightarrow> sale \<Rightarrow> delivery_picking list \<Rightarrow> delivery_job list" where
  "run_picking_hooks is_zero skip_dispatch s pickings =
     (case so_shop s of
        None \<Rightarrow> []
      | Some ss \<Rightarrow>
          if check_is_order_shipped is_zero s then order_export_tracking skip_dispatch s @ shipped_order_hook s
          else if ss_takes_parts ss then concat (map (integration_send_picking skip_dispatch s) pickings)
          else [])"

text \<open>\<open>button_validate\<close> and \<open>action_cancel\<close> run the hooks only if Odoo answers \<open>True\<close>.\<close>

definition button_validate_hooks :: "(rat \<Rightarrow> bool) \<Rightarrow> bool \<Rightarrow> validation \<Rightarrow> sale \<Rightarrow> delivery_picking list \<Rightarrow> delivery_job list" where
  "button_validate_hooks is_zero skip_dispatch outcome s pickings =
     (if outcome = ValidationDone then run_picking_hooks is_zero skip_dispatch s pickings else [])"

text \<open>A tracking number that is added to a validated picking; \<open>s\<close> is the order after the write, \<open>old\<close> its pickings
  before.\<close>

definition write_hooks :: "(rat \<Rightarrow> bool) \<Rightarrow> bool \<Rightarrow> sale \<Rightarrow> delivery_picking list \<Rightarrow> delivery_job list" where
  "write_hooks is_zero skip_dispatch s old =
     (let done_ids = map sp_id (filter (\<lambda>p. sp_state p = ''done'' \<and> sp_tracking p = []) old);
          updated = filter (\<lambda>p. sp_id p \<in> set done_ids \<and> sp_state p = ''done'' \<and> sp_tracking p \<noteq> []) (so_pickings s)
      in if updated \<noteq> [] \<and> check_is_order_shipped is_zero s then order_export_tracking skip_dispatch s else [])"

end
