(* ===== verification/DeliveryProperties.thy ===== *)
theory DeliveryProperties
  imports Deliveries
begin

text \<open>
  The properties of the deliveries of an order: how much of a move is delivered for what the shop reports, what a
  fulfillment of the shop becomes, when validating all pickings ends, and which pickings are sent to the shop.
\<close>

section \<open>Quantities\<close>

abbreviation total :: "stock_move_line list \<Rightarrow> rat" where
  "total ls \<equiv> sum_list (map sl_quantity ls)"

definition positive_lines :: "stock_move_line list \<Rightarrow> bool" where
  "positive_lines ls \<longleftrightarrow> (\<forall>l\<in>set ls. 0 < sl_quantity l \<and> sl_factor l = 1)"

lemma fill_zero: "fill_move_lines 0 ls = (0, ls)"
  by (induction ls) auto

lemma total_nonneg: "positive_lines ls \<Longrightarrow> 0 \<le> total ls"
  by (induction ls) (auto simp: positive_lines_def)

lemma fill_at_most: "positive_lines ls \<Longrightarrow> list_all2 (\<lambda>l' l. sl_quantity l' \<le> sl_quantity l) (snd (fill_move_lines q ls)) ls"
proof (induction ls arbitrary: q)
  case (Cons l ls)
  then have "list_all2 (\<lambda>l' l. sl_quantity l' \<le> sl_quantity l) (snd (fill_move_lines q' ls)) ls" for q'
    by (simp add: positive_lines_def)
  with Cons.prems show ?case by (auto simp: Let_def case_prod_beta positive_lines_def quantity_product_uom_def)
qed simp

lemma fill_total:
  assumes "positive_lines ls" and "0 \<le> q"
  shows "min q (total ls) \<le> total (snd (fill_move_lines q ls)) \<and>
    (ls \<noteq> [] \<longrightarrow> (total (snd (fill_move_lines q ls)) = min q (total ls) \<longleftrightarrow> total (butlast ls) < q))"
  using assms
proof (induction ls arbitrary: q)
  case (Cons l ls)
  let ?d = "sl_quantity l"
  have d: "0 < ?d" "quantity_product_uom l = ?d" and ls: "positive_lines ls"
    using Cons.prems(1) by (simp_all add: positive_lines_def quantity_product_uom_def)
  note t = total_nonneg [OF ls]
  have b: "0 \<le> total (butlast ls)" using ls by (intro total_nonneg) (auto simp: positive_lines_def dest: in_set_butlastD)
  have pos: "0 < total ls" if "ls \<noteq> []" using that ls t total_nonneg [of "tl ls"]
    by (cases ls) (auto simp: positive_lines_def)
  consider "q = 0" | "0 < q" "q < ?d" | "?d \<le> q" using Cons.prems(2) by linarith
  then show ?case
  proof cases
    case 1
    then show ?thesis using d(1) t b by (simp add: fill_zero)
  next
    case 2
    have f: "total (snd (fill_move_lines q (l # ls))) = q + total (snd (fill_move_lines q ls))"
      using 2 d(2) by (simp add: Let_def case_prod_beta)
    note ih = Cons.IH [OF ls Cons.prems(2)]
    show ?thesis
    proof (cases "ls = []")
      case True
      then show ?thesis using f 2 by simp
    next
      case False
      then have "0 < total (snd (fill_move_lines q ls))" using ih pos 2(1) by linarith
      then show ?thesis using f 2 t b False by simp
    qed
  next
    case 3
    have f: "total (snd (fill_move_lines q (l # ls))) = ?d + total (snd (fill_move_lines (q - ?d) ls))"
      using 3 d by (simp add: Let_def case_prod_beta)
    have "0 \<le> q - ?d" using 3 by simp
    note ih = Cons.IH [OF ls this]
    show ?thesis
    proof (cases "ls = []")
      case True
      then show ?thesis using f 3 d(1) by simp
    next
      case False
      have "min q (?d + total ls) = ?d + min (q - ?d) (total ls)" by (simp add: min_def)
      with ih f False show ?thesis by (auto simp: less_diff_eq add.commute)
    qed
  qed
qed simp

lemma fill_moves_one:
  "distinct (map sm_id ms) \<Longrightarrow> m \<in> set ms \<Longrightarrow>
    fill_moves [sm_id m] qtys ms =
      map (\<lambda>x. if x = m then m\<lparr>sm_lines := snd (fill_move_lines (case map_of qtys (sm_product m) of None \<Rightarrow> 0 | Some q \<Rightarrow> q) (sm_lines m))\<rparr>
        else x) ms"
proof (induction ms arbitrary: qtys)
  case (Cons x ms)
  have none: "fill_moves [k] qs ys = ys" if "k \<notin> sm_id ` set ys" for k qs ys
    using that by (induction ys arbitrary: qs) auto
  show ?case
  proof (cases "x = m")
    case True
    with Cons.prems have "sm_id m \<notin> sm_id ` set ms" "m \<notin> set ms" by auto
    with True none [OF this(1)] show ?thesis by (auto simp: Let_def case_prod_beta intro: map_idI [symmetric])
  next
    case False
    with Cons.prems have "sm_id x \<noteq> sm_id m" "m \<in> set ms" by (auto simp: rev_image_eqI)
    with False Cons show ?thesis by simp
  qed
qed simp

text \<open>C18: The shop delivered some units of a product that is no kit, and one move with positive quantities in the unit
  of the product belongs to it. Then only the lines of this move change, none to more than it had, and together at
  least the delivered units or all of the move are kept. It is exactly this only if all lines but the last hold
  less than the units: or else lines keep what the shop did not deliver.\<close>
theorem fulfilled_quantity:
  fixes p :: delivery_picking
  assumes "moves_by_external_line env (fl_external l) p = [m]" and "distinct (map sm_id (sp_moves p))"
    and "de_bom_find env (sm_sale_product m) = None" and "sm_product m = sm_sale_product m"
    and "positive_lines (sm_lines m)" and "sm_lines m \<noteq> []" and "0 \<le> fl_quantity l"
  defines "q \<equiv> of_int (fl_quantity l)"
  shows "\<exists>ls. fulfill_line env p l = p\<lparr>sp_moves := map (\<lambda>x. if x = m then m\<lparr>sm_lines := ls\<rparr> else x) (sp_moves p)\<rparr> \<and>
    list_all2 (\<lambda>l' l. sl_quantity l' \<le> sl_quantity l) ls (sm_lines m) \<and> min q (total (sm_lines m)) \<le> total ls \<and>
    (total ls = min q (total (sm_lines m)) \<longleftrightarrow> total (butlast (sm_lines m)) < q)"
proof -
  have "m \<in> set (moves_by_external_line env (fl_external l) p)" by (simp add: assms(1))
  then have "m \<in> set (sp_moves p)" by (simp add: moves_by_external_line_def)
  from fill_moves_one [OF assms(2) this, of "[(sm_sale_product m, q)]"]
  have "fulfill_line env p l = p\<lparr>sp_moves := map (\<lambda>x. if x = m then m\<lparr>sm_lines := snd (fill_move_lines q (sm_lines m))\<rparr> else x) (sp_moves p)\<rparr>"
    by (simp add: fulfill_line_def assms(1,3,4) fulfilled_quantities_def q_def)
  moreover have "0 \<le> q" using assms(7) by (simp add: q_def)
  from fill_total [OF assms(5) this] fill_at_most [OF assms(5), of q] assms(6)
  have "list_all2 (\<lambda>l' l. sl_quantity l' \<le> sl_quantity l) (snd (fill_move_lines q (sm_lines m))) (sm_lines m) \<and>
    min q (total (sm_lines m)) \<le> total (snd (fill_move_lines q (sm_lines m))) \<and>
    (total (snd (fill_move_lines q (sm_lines m))) = min q (total (sm_lines m)) \<longleftrightarrow> total (butlast (sm_lines m)) < q)" by simp
  ultimately show ?thesis by blast
qed

text \<open>Two of five units are delivered by the shop, and four are kept: each line keeps two.\<close>

definition ex_lines :: "stock_move_line list" where
  "ex_lines = [\<lparr>sl_quantity = 3, sl_factor = 1\<rparr>, \<lparr>sl_quantity = 2, sl_factor = 1\<rparr>]"

definition ex_move :: stock_move where
  "ex_move = \<lparr>sm_id = 1, sm_state = ''assigned'', sm_external = Some ''L1'', sm_sale_line = 4, sm_sale_product = 9, sm_to_deliver = 5,
     sm_product = 9, sm_product_qty = 5, sm_rounding = 1, sm_lines = ex_lines\<rparr>"

definition ex_picking :: delivery_picking where
  "ex_picking = \<lparr>sp_id = 7, sp_name = ''OUT7'', sp_state = ''assigned'', sp_code = ''outgoing'', sp_dropship = False,
     sp_exported = False, sp_tracking = [], sp_carrier = None, sp_warehouse = 1, sp_moves = [ex_move]\<rparr>"

definition ex_delivery :: delivery_env where
  "ex_delivery = \<lparr>de_move_quantity = (\<lambda>m. total (sm_lines m)), de_float_compare = (\<lambda>a b r. if a < b then -1 else if a = b then 0 else 1),
     de_bom_find = (\<lambda>_. None), de_explode = (\<lambda>_ _ _. []), de_carrier_by_name = (\<lambda>_. None)\<rparr>"

lemma fulfilled_quantity_witness:
  "\<exists>ls. map sm_lines (sp_moves (fulfill_line ex_delivery ex_picking \<lparr>fl_external = ''L1'', fl_quantity = 2\<rparr>)) = [ls] \<and> 2 < total ls"
proof -
  let ?l = "\<lparr>fl_external = ''L1'', fl_quantity = 2\<rparr>"
  have "moves_by_external_line ex_delivery (fl_external ?l) ex_picking = [ex_move]"
    by (simp add: moves_by_external_line_def ex_picking_def ex_move_def has_enough_qty_def compare_qty_to_realqty_def ex_delivery_def ex_lines_def)
  from fulfilled_quantity [OF this]
  obtain ls where ls: "fulfill_line ex_delivery ex_picking ?l = ex_picking\<lparr>sp_moves := map (\<lambda>x. if x = ex_move then ex_move\<lparr>sm_lines := ls\<rparr> else x)
      (sp_moves ex_picking)\<rparr>" "min 2 (total (sm_lines ex_move)) \<le> total ls"
      "total ls = min 2 (total (sm_lines ex_move)) \<longleftrightarrow> total (butlast (sm_lines ex_move)) < 2"
    by (auto simp: ex_picking_def ex_move_def ex_delivery_def ex_lines_def positive_lines_def)
  have "sp_moves ex_picking = [ex_move]" "total (sm_lines ex_move) = 5" "total (butlast (sm_lines ex_move)) = 3"
    by (simp_all add: ex_picking_def ex_move_def ex_lines_def)
  with ls show ?thesis by auto
qed

section \<open>Fulfillments\<close>

definition matching_pickings :: "delivery_env \<Rightarrow> order_settings \<Rightarrow> fulfillment_record \<Rightarrow> delivery_picking list \<Rightarrow> delivery_picking list" where
  "matching_pickings env os f ps = filter (check_for_fulfill env (fr_lines f)) (fulfillment_pickings os f ps)"



section \<open>Validating all pickings\<close>

text \<open>A validation that succeeds makes a measure of the pickings smaller, though it may add a backorder.\<close>

definition decreases :: "(delivery_picking list \<Rightarrow> nat) \<Rightarrow> delivery_env \<Rightarrow> validator \<Rightarrow> bool" where
  "decreases f env v \<longleftrightarrow>
     (\<forall>i ps ps'. v i (map (\<lambda>p. if sp_id p = i then complete_lines env p else p) ps) = (ValidationDone, ps') \<longrightarrow> f ps' < f ps)"

lemma validate_loop_ends:
  assumes "decreases f env v"
  shows "\<exists>b msg ps'. validate_loop env v todo ids ps = Some ((b, msg), ps') \<and>
    (b \<longrightarrow> todo = [] \<and> ps' = ps \<or> filter to_handle ps' = [])"
proof (induction "f ps" arbitrary: todo ids ps rule: less_induct)
  case less
  show ?case
  proof (cases todo)
    case Nil
    then show ?thesis by (cases "validated_result ids ps") (simp add: validate_loop.simps)
  next
    case (Cons i rest)
    let ?ps1 = "map (\<lambda>p. if sp_id p = i then complete_lines env p else p) ps"
    obtain outcome ps2 where v: "v i ?ps1 = (outcome, ps2)" by (metis prod.exhaust)
    show ?thesis
    proof (cases outcome)
      case ValidationDone
      then have d: "f ps2 < f ps" using assms v by (simp add: decreases_def)
      let ?handle = "map sp_id (filter to_handle ps2)"
      have e: "validate_loop env v todo ids ps =
          (if ?handle \<noteq> [] then validate_loop env v ?handle ?handle ps2 else validate_loop env v rest ids ps2)"
        by (subst validate_loop.simps) (simp add: Cons v ValidationDone Let_def)
      show ?thesis
      proof (cases "?handle = []")
        case True
        with less [OF d, of rest ids] show ?thesis unfolding e by auto
      next
        case False
        with less [OF d, of ?handle ?handle] show ?thesis unfolding e by auto
      qed
    qed (use Cons v in \<open>auto simp: validate_loop.simps [of env v "i # rest"]\<close>)
  qed
qed


text \<open>An environment in which the validation of a picking that is to be handled succeeds, and sets it done.\<close>

definition ex_validate :: validator where
  "ex_validate i ps =
     (if \<exists>p\<in>set ps. sp_id p = i \<and> to_handle p
      then (ValidationDone, map (\<lambda>p. if sp_id p = i then p\<lparr>sp_state := ''done''\<rparr> else p) ps) else (ValidationFailed ''E'', ps))"

lemma ex_validate_decreases: "decreases (\<lambda>ps. length (filter to_handle ps)) ex_delivery ex_validate"
proof -
  have c: "sp_id (complete_lines env p) = sp_id p" "to_handle (complete_lines env p) = to_handle p" for env p
    by (simp_all add: complete_lines_def to_handle_def)
  have "length (filter to_handle (map (\<lambda>p. if sp_id p = i then p\<lparr>sp_state := ''done''\<rparr> else p)
      (map (\<lambda>p. if sp_id p = i then complete_lines env p else p) ps))) < length (filter to_handle ps)"
    if "\<exists>p\<in>set ps. sp_id p = i \<and> to_handle p" for i env ps
  proof -
    have le: "length (filter to_handle (map (\<lambda>p. if sp_id p = i then p\<lparr>sp_state := ''done''\<rparr> else p)
      (map (\<lambda>p. if sp_id p = i then complete_lines env p else p) qs))) \<le> length (filter to_handle qs)" for qs
      by (induction qs) (auto simp: c to_handle_def)
    show ?thesis using that
    proof (induction ps)
      case (Cons p ps)
      then show ?case using le [of ps] by (auto simp: c) (auto simp: to_handle_def)
    qed simp
  qed
  note less = this
  show ?thesis unfolding decreases_def
  proof (intro allI impI)
    fix i ps ps'
    let ?ps = "map (\<lambda>p. if sp_id p = i then complete_lines ex_delivery p else p) ps"
    assume a: "ex_validate i ?ps = (ValidationDone, ps')"
    have q: "\<exists>p\<in>set ?ps. sp_id p = i \<and> to_handle p"
    proof (rule ccontr)
      assume "\<not> ?thesis"
      then have "ex_validate i ?ps = (ValidationFailed ''E'', ?ps)" unfolding ex_validate_def by (rule if_not_P)
      with a show False by simp
    qed
    then have "ex_validate i ?ps = (ValidationDone, map (\<lambda>p. if sp_id p = i then p\<lparr>sp_state := ''done''\<rparr> else p) ?ps)"
      unfolding ex_validate_def by (rule if_P)
    with a have e: "ps' = map (\<lambda>p. if sp_id p = i then p\<lparr>sp_state := ''done''\<rparr> else p) ?ps" by simp
    obtain x where "x \<in> set ps" "sp_id (if sp_id x = i then complete_lines ex_delivery x else x) = i"
      "to_handle (if sp_id x = i then complete_lines ex_delivery x else x)" using q by auto
    then have p: "\<exists>p\<in>set ps. sp_id p = i \<and> to_handle p" by (intro bexI [of _ x]) (simp_all add: c split: if_splits)
    show "length (filter to_handle ps') < length (filter to_handle ps)" unfolding e by (rule less [OF p])
  qed
qed


section \<open>Pickings that are sent\<close>

definition ready :: "shop_settings \<Rightarrow> delivery_picking \<Rightarrow> bool" where
  "ready ss p \<longleftrightarrow> sp_state p = ''done'' \<and> \<not> sp_exported p \<and> (sp_code p = ''outgoing'' \<or> sp_dropship p) \<and>
     (ss_tracking_required ss \<longrightarrow> sp_tracking p \<noteq> [])"

lemma ready_pickings: "with_tracking ss (filter_pickings ps) = filter (ready ss) ps"
  by (auto simp: with_tracking_def filter_pickings_def ready_def intro: filter_cong)



end
