(* ===== verification/Partners.thy ===== *)
theory Partners
  imports MappingTables ToolFunctions
begin

text \<open>
  The customers of imported orders (\<open>integration/models/integration_res_partner_proxy.py\<close>,
  \<open>integration_res_partner_factory.py\<close>, \<open>res_partner.py\<close>). The data of an order becomes up to three proxies: the
  customer, the billing and the shipping address. For each of them a contact of Odoo is looked for, by the mapping of
  the customer or by a search, and created if there is none. A contact is the dictionary of its fields; the tables
  of contacts and of their mappings are the state. A field of a proxy that is not set and an empty one are both
  false and are treated alike, so that both are the empty text. What Odoo does when it creates, writes or
  orders contacts, its comparison \<open>=ilike\<close>, the formats of phones and addresses, the lookups of
  countries, states, languages and pricelists, and the service that checks VAT numbers are arguments.
\<close>

section \<open>The state\<close>

datatype partner_error =
    MappingError map_error
  | PythonError PyError
  | ApiImportError
  | CustomerNotMapped string
  | OrmError string

type_synonym 'a partnered = "partner_error + 'a"

record proxy =
  px_type :: string
  px_external :: string
  px_vals :: "(string \<times> string) list"
  px_partner :: "int option"
  px_company_partner :: "int option"
  px_vat_verified :: bool

record partner_db =
  pd_partners :: "fields list"
  pd_mapping :: mapping_db
  pd_links :: "(int \<times> int) list"
  pd_pricelists :: "(int \<times> int) list"
  pd_tags :: "(int \<times> string \<times> int) list"
  pd_next_tag :: int

record partner_env =
  pn_shop :: integration
  pn_company :: int
  pn_skip_individual :: bool
  pn_manual :: bool
  pn_vat_only :: bool
  pn_ignore_vat :: bool
  pn_vat_field :: "string option"
  pn_person_field :: "string option"
  pn_search_fields :: "string list"
  pn_use_pricelists :: bool
  pn_default_customer :: "int option"
  pn_main_tag :: "int option"
  pn_mapping :: mapping_model
  pn_country_of :: "string \<Rightarrow> int partnered"
  pn_country_by_code :: "string \<Rightarrow> int option"
  pn_has_states :: "int \<Rightarrow> bool"
  pn_state_of :: "string \<Rightarrow> int partnered"
  pn_state_by_code :: "int \<Rightarrow> string \<Rightarrow> int option"
  pn_lang_of :: "string \<Rightarrow> string partnered"
  pn_pricelist_of :: "string \<Rightarrow> int option"
  pn_email_normalize :: "string \<Rightarrow> string"
  pn_phone_format :: "string \<Rightarrow> int \<Rightarrow> string"
  pn_str :: "pyval \<Rightarrow> string"
  pn_escape :: "string \<Rightarrow> string"
  pn_ilike :: "string \<Rightarrow> string \<Rightarrow> bool"
  pn_rank :: "fields \<Rightarrow> int"
  pn_base_vat :: bool
  pn_split_vat :: "string \<Rightarrow> string \<times> string"
  pn_legit_code :: "string \<Rightarrow> bool"
  pn_eu_country :: "int \<Rightarrow> bool"
  pn_vies :: "string \<Rightarrow> nat \<Rightarrow> bool option"
  pn_simple_vat_check :: "string \<Rightarrow> string \<Rightarrow> bool"
  pn_create :: "bool \<Rightarrow> fields \<Rightarrow> fields list \<Rightarrow> (int \<times> fields list) partnered"
  pn_write :: "int \<Rightarrow> fields \<Rightarrow> fields list \<Rightarrow> fields list partnered"

definition lift_mapped :: "'a mapped \<Rightarrow> 'a partnered" where
  "lift_mapped r = (case r of Inl e \<Rightarrow> Inl (MappingError e) | Inr x \<Rightarrow> Inr x)"

abbreviation px :: "string \<Rightarrow> proxy \<Rightarrow> string" where
  "px k p \<equiv> dict_get [] (px_vals p) k"

definition partner_id :: "fields \<Rightarrow> int" where
  "partner_id p = (case fld ''id'' p of PInt n \<Rightarrow> n | _ \<Rightarrow> 0)"

definition partner_of :: "int \<Rightarrow> partner_db \<Rightarrow> fields" where
  "partner_of i d = (case find (\<lambda>p. partner_id p = i) (pd_partners d) of None \<Rightarrow> [] | Some p \<Rightarrow> p)"

text \<open>The identifier in a field, if it is set; no record has the identifier zero.\<close>

definition rec_id :: "string \<Rightarrow> fields \<Rightarrow> int option" where
  "rec_id k p = (case fld k p of PInt n \<Rightarrow> if n = 0 then None else Some n | _ \<Rightarrow> None)"

definition id_value :: "int option \<Rightarrow> pyval" where
  "id_value i = (case i of None \<Rightarrow> PBool False | Some n \<Rightarrow> PInt n)"

definition write_partner :: "partner_env \<Rightarrow> int \<Rightarrow> fields \<Rightarrow> partner_db \<Rightarrow> partner_db partnered" where
  "write_partner env i vals d = rbind (pn_write env i vals (pd_partners d)) (\<lambda>ps. Inr (d\<lparr>pd_partners := ps\<rparr>))"

definition new_partner :: "partner_env \<Rightarrow> bool \<Rightarrow> fields \<Rightarrow> partner_db \<Rightarrow> (int \<times> partner_db) partnered" where
  "new_partner env no_vat vals d =
     rbind (pn_create env no_vat vals (pd_partners d)) (\<lambda>(i, ps). Inr (i, d\<lparr>pd_partners := ps\<rparr>))"

section \<open>Searches\<close>

text \<open>A domain is a list of conditions, of which all must hold; a disjunction is written before its two members.\<close>

datatype domain_op = OpEq | OpIlike | OpIn

datatype domain_term =
    Leaf string domain_op pyval
  | Either domain_term domain_term

text \<open>An unset field equals every false value.\<close>

definition same_value :: "pyval \<Rightarrow> pyval \<Rightarrow> bool" where
  "same_value x v \<longleftrightarrow> (if py_true v then x = v else \<not> py_true x)"

fun term_holds :: "partner_env \<Rightarrow> fields \<Rightarrow> domain_term \<Rightarrow> bool" where
  "term_holds env p (Leaf k OpEq v) \<longleftrightarrow> same_value (fld k p) v"
| "term_holds env p (Leaf k OpIn v) \<longleftrightarrow> (case v of PList vs \<Rightarrow> \<exists>x\<in>set vs. same_value (fld k p) x | _ \<Rightarrow> False)"
| "term_holds env p (Leaf k OpIlike v) \<longleftrightarrow> (case (fld k p, v) of (PStr s, PStr t) \<Rightarrow> pn_ilike env s t | _ \<Rightarrow> False)"
| "term_holds env p (Either a b) \<longleftrightarrow> term_holds env p a \<or> term_holds env p b"

definition search_partners :: "partner_env \<Rightarrow> domain_term list \<Rightarrow> partner_db \<Rightarrow> fields list" where
  "search_partners env domain d =
     filter (\<lambda>p. py_true (fld ''active'' p) \<and> (\<forall>t\<in>set domain. term_holds env p t)) (pd_partners d)"

text \<open>By the complete name, and the newest first among equal ones.\<close>

definition default_order :: "partner_env \<Rightarrow> fields list \<Rightarrow> fields list" where
  "default_order env ps = sort_key (pn_rank env) (rev ps)"

definition false_term :: "string \<Rightarrow> domain_term" where
  "false_term k = Leaf k OpIn (PList [PStr [], PBool False])"

text \<open>What one turn of the loop over the criteria adds to the domain.\<close>

definition criterion_terms :: "partner_env \<Rightarrow> fields \<Rightarrow> string \<Rightarrow> domain_op \<Rightarrow> domain_term list" where
  "criterion_terms env vals key op =
     (let value = dict_get (PStr []) vals key in
      if \<not> py_true value then [false_term key]
      else (let value = (case (value, op) of (PStr s, OpIlike) \<Rightarrow> PStr (pn_escape env s) | _ \<Rightarrow> value)
            in if value = PStr [] then []
               else if key = ''email'' then [Either (Leaf key op value) (Leaf ''email_normalized'' OpEq value)]
               else if key = ''phone'' then [Either (Leaf key op value) (Leaf ''phone_sanitized'' OpIlike value)]
               else if key = ''company_id'' then [Leaf key op (PList [value, PBool False])]
               else [Leaf key op value]))"

definition build_search_domain :: "partner_env \<Rightarrow> (string \<times> domain_op) list \<Rightarrow> fields \<Rightarrow> domain_term list" where
  "build_search_domain env criteria vals = concat (map (\<lambda>(k, op). criterion_terms env vals k op) criteria)"

section \<open>Proxies\<close>

definition PROXY_FIELDS :: "string list" where
  "PROXY_FIELDS = [''pricelist_id'', ''person_name'', ''email'', ''language'', ''person_id_number'', ''company_name'',
     ''company_reg_number'', ''street'', ''street2'', ''city'', ''country'', ''country_code'', ''state'', ''state_code'',
     ''phone'', ''phone_sanitized'', ''mobile'', ''other'', ''zip'']"

definition ADDRESS_MATCH_SIMPLE_FIELDS :: "string list" where
  "ADDRESS_MATCH_SIMPLE_FIELDS = [''street'', ''street2'', ''city'', ''zip'', ''email'', ''phone'', ''mobile'']"

definition address_match_fields :: "string list" where
  "address_match_fields = ADDRESS_MATCH_SIMPLE_FIELDS @ [''country_id'', ''state_id'']"

definition PROXY_TYPES :: "string list" where
  "PROXY_TYPES = [''customer'', ''shipping_address'', ''billing_address'', ''other_address'']"

definition prepare_proxy_value :: "pyval \<Rightarrow> pyval" where
  "prepare_proxy_value v = (case v of PStr s \<Rightarrow> PStr (py_strip s) | _ \<Rightarrow> v)"

definition proxy_phone_format :: "partner_env \<Rightarrow> string \<Rightarrow> fields \<Rightarrow> string partnered" where
  "proxy_phone_format env phone data =
     (let country = dict_get PNone data ''country''; code = dict_get PNone data ''country_code''
      in rbind (if py_true country then rbind (pn_country_of env (pn_str env country)) (\<lambda>c. Inr (Some c))
                else if py_true code then Inr (pn_country_by_code env (pn_str env code)) else Inr None) (\<lambda>c.
         case c of
           None \<Rightarrow> Inr phone
         | Some c \<Rightarrow> Inr (if pn_phone_format env phone c = [] then phone else pn_phone_format env phone c)))"

definition prepare_proxy_values :: "partner_env \<Rightarrow> fields \<Rightarrow> fields partnered" where
  "prepare_proxy_values env data =
     (let vals = foldl (\<lambda>d (k, v). if k \<notin> set PROXY_FIELDS \<or> v \<in> {PStr [], PNone, PList [], PDict []} then d
            else dict_set k (prepare_proxy_value v) d) [] data
      in rbind (case dict_get PNone vals ''email'' of
                  PStr s \<Rightarrow> Inr (if s = [] then vals else dict_set ''email''
                    (PStr (if pn_email_normalize env s = [] then py_lower s else pn_email_normalize env s)) vals)
                | v \<Rightarrow> if py_true v then Inl (PythonError TypeError) else Inr vals) (\<lambda>vals1.
         case dict_get PNone vals1 ''phone'' of
           PStr s \<Rightarrow>
             if s = [] then Inr vals1
             else rbind (proxy_phone_format env s data) (\<lambda>f.
                  Inr (if f = [] then vals1 else dict_set ''phone_sanitized'' (PStr f) vals1))
         | v \<Rightarrow> if py_true v then Inl (PythonError TypeError) else Inr vals1))"

definition validate_required_values :: "fields \<Rightarrow> bool" where
  "validate_required_values vals \<longleftrightarrow> py_true (dict_get PNone vals ''person_name'') \<or> py_true (dict_get PNone vals ''email'')"

text \<open>A field of text keeps its value as a text.\<close>

definition char_value :: "partner_env \<Rightarrow> pyval \<Rightarrow> string" where
  "char_value env v = (case v of PNone \<Rightarrow> [] | PBool False \<Rightarrow> [] | PStr s \<Rightarrow> s | PInt n \<Rightarrow> show_int n | _ \<Rightarrow> pn_str env v)"

definition create_proxy :: "partner_env \<Rightarrow> string \<Rightarrow> fields \<Rightarrow> proxy option partnered" where
  "create_proxy env type data =
     (if type \<notin> set PROXY_TYPES then Inl (PythonError ValueError)
      else rbind (prepare_proxy_values env data) (\<lambda>vals.
           if vals = [] \<or> \<not> validate_required_values vals then Inr None
           else rbind (if type = ''customer''
                  then (case dict_get (PStr []) data ''id'' of PStr s \<Rightarrow> Inr (py_strip s) | _ \<Rightarrow> Inl (PythonError AttributeError))
                  else Inr []) (\<lambda>external.
                Inr (Some \<lparr>px_type = type, px_external = external, px_vals = map (\<lambda>(k, v). (k, char_value env v)) vals,
                  px_partner = None, px_company_partner = None, px_vat_verified = True\<rparr>))))"

text \<open>The country and the state that a proxy names.\<close>

definition find_odoo_country :: "partner_env \<Rightarrow> proxy \<Rightarrow> int option partnered" where
  "find_odoo_country env p =
     (if px ''country'' p \<noteq> [] then rbind (pn_country_of env (px ''country'' p)) (\<lambda>c. Inr (Some c))
      else if px ''country_code'' p \<noteq> [] then Inr (pn_country_by_code env (px ''country_code'' p))
      else Inr None)"

definition find_odoo_state :: "partner_env \<Rightarrow> proxy \<Rightarrow> int option \<Rightarrow> int option partnered" where
  "find_odoo_state env p country =
     (case country of
        None \<Rightarrow> Inr None
      | Some c \<Rightarrow>
          if \<not> pn_has_states env c then Inr None
          else if px ''state'' p \<noteq> [] then rbind (pn_state_of env (px ''state'' p)) (\<lambda>s. Inr (Some s))
          else if px ''state_code'' p \<noteq> [] then Inr (pn_state_by_code env c (px ''state_code'' p))
          else Inr None)"

definition get_integration_tag :: "partner_env \<Rightarrow> partner_db \<Rightarrow> (int list \<times> partner_db) partnered" where
  "get_integration_tag env d =
     (case pn_main_tag env of
        None \<Rightarrow> Inl (PythonError ValueError)
      | Some main \<Rightarrow>
          (case filter (\<lambda>(i, n, parent). n = in_name (pn_shop env) \<and> parent = main) (pd_tags d) of
             [] \<Rightarrow> Inr ([pd_next_tag d], d\<lparr>pd_tags := pd_tags d @ [(pd_next_tag d, in_name (pn_shop env), main)],
               pd_next_tag := pd_next_tag d + 1\<rparr>)
           | tags \<Rightarrow> Inr (map fst tags, d)))"

definition tag_command :: "int list \<Rightarrow> pyval" where
  "tag_command ids = PList [PTuple [PInt 6, PInt 0, PList (map PInt ids)]]"

end
