(* ===== verification/PartnerContacts.thy ===== *)
theory PartnerContacts
  imports Partners
begin

text \<open>
  Contacts and addresses of the customers, on top of \<open>Partners\<close>: VAT numbers, the contact of a company, the contact
  of a customer, addresses, and the factory that makes the proxies of an order and returns the customer with its
  addresses.
\<close>

section \<open>VAT numbers\<close>

text \<open>The service is asked up to three times; \<open>None\<close> if it fails each time.\<close>

definition VIES_RETRY_COUNT :: nat where "VIES_RETRY_COUNT = 3"

fun check_vies :: "(nat \<Rightarrow> bool option) \<Rightarrow> nat \<Rightarrow> nat \<Rightarrow> bool option" where
  "check_vies service attempt 0 = None"
| "check_vies service attempt (Suc n) =
     (case service attempt of None \<Rightarrow> check_vies service (Suc attempt) n | Some valid \<Rightarrow> Some valid)"

definition check_vies_with_retry :: "partner_env \<Rightarrow> string \<Rightarrow> bool option" where
  "check_vies_with_retry env vat = check_vies (pn_vies env vat) 0 VIES_RETRY_COUNT"

definition validate_integration_vat :: "partner_env \<Rightarrow> string \<Rightarrow> int \<Rightarrow> bool option" where
  "validate_integration_vat env vat country =
     (if vat = [] then Some False
      else if \<not> pn_base_vat env then Some True
      else (let (code, number) = pn_split_vat env vat in
            if \<not> pn_legit_code env code then Some False
            else if pn_eu_country env country then check_vies_with_retry env vat
            else Some (pn_simple_vat_check env code number)))"

definition validate_vat :: "partner_env \<Rightarrow> string \<Rightarrow> int option \<Rightarrow> bool option" where
  "validate_vat env vat country =
     (if pn_ignore_vat env then Some True
      else case country of None \<Rightarrow> Some True | Some c \<Rightarrow> validate_integration_vat env vat c)"

definition get_vat :: "partner_env \<Rightarrow> proxy \<Rightarrow> (fields \<times> proxy) partnered" where
  "get_vat env p =
     (let vat = filter (\<lambda>c. c \<noteq> CHR '' '' \<and> c \<noteq> CHR ''-'') (px ''company_reg_number'' p) in
      case pn_vat_field env of
        None \<Rightarrow> Inr ([], p)
      | Some field \<Rightarrow>
          if vat = [] then Inr ([], p)
          else rbind (find_odoo_country env p) (\<lambda>country.
               case validate_vat env vat country of
                 Some True \<Rightarrow> Inr ([(field, PStr vat)], p)
               | None \<Rightarrow> Inr ([], p\<lparr>px_vat_verified := False\<rparr>)
               | Some False \<Rightarrow> Inr ([], p)))"

section \<open>Values of contacts\<close>

definition with_lang :: "partner_env \<Rightarrow> proxy \<Rightarrow> fields \<Rightarrow> fields partnered" where
  "with_lang env p vals =
     (if px ''language'' p = [] then Inr vals
      else rbind (pn_lang_of env (px ''language'' p)) (\<lambda>code. Inr (dict_set ''lang'' (PStr code) vals)))"

definition prepare_company_vals :: "partner_env \<Rightarrow> proxy \<Rightarrow> (fields \<times> proxy) partnered" where
  "prepare_company_vals env p =
     rbind (with_lang env p [(''name'', PStr (px ''company_name'' p)), (''parent_id'', PBool False), (''is_company'', PBool True),
       (''company_id'', PInt (pn_company env))]) (\<lambda>vals.
     rbind (get_vat env p) (\<lambda>(vat, p1). Inr (dict_update vals vat, p1)))"

definition simple_address :: "proxy \<Rightarrow> fields" where
  "simple_address p = map (\<lambda>k. (k, PStr (px k p))) ADDRESS_MATCH_SIMPLE_FIELDS"

definition with_place :: "partner_env \<Rightarrow> proxy \<Rightarrow> fields \<Rightarrow> fields partnered" where
  "with_place env p vals =
     rbind (find_odoo_country env p) (\<lambda>country.
     rbind (find_odoo_state env p country) (\<lambda>state.
       let vals1 = (case country of None \<Rightarrow> vals | Some c \<Rightarrow> dict_set ''country_id'' (PInt c) vals)
       in Inr (case state of None \<Rightarrow> vals1 | Some s \<Rightarrow> dict_set ''state_id'' (PInt s) vals1)))"

definition write_address_if_empty :: "partner_env \<Rightarrow> proxy \<Rightarrow> int \<Rightarrow> partner_db \<Rightarrow> partner_db partnered" where
  "write_address_if_empty env p i d =
     (if \<forall>k\<in>set address_match_fields. \<not> py_true (fld k (partner_of i d))
      then rbind (with_place env p (simple_address p)) (\<lambda>vals. write_partner env i vals d)
      else Inr d)"

section \<open>The contact of a company\<close>

definition MANDATORY_COMPANY_SEARCH_CRITERIA :: "(string \<times> domain_op) list" where
  "MANDATORY_COMPANY_SEARCH_CRITERIA = [(''name'', OpIlike), (''is_company'', OpEq), (''company_id'', OpIn)]"

definition company_search_domain :: "partner_env \<Rightarrow> fields \<Rightarrow> domain_term list" where
  "company_search_domain env vals =
     (case pn_vat_field env of
        None \<Rightarrow> build_search_domain env MANDATORY_COMPANY_SEARCH_CRITERIA vals
      | Some field \<Rightarrow>
          if \<not> py_true (dict_get PNone vals field) then build_search_domain env MANDATORY_COMPANY_SEARCH_CRITERIA vals
          else if pn_vat_only env
          then build_search_domain env [(field, OpEq), (''is_company'', OpEq), (''company_id'', OpIn)] vals
          else build_search_domain env (MANDATORY_COMPANY_SEARCH_CRITERIA @ [(field, OpEq)]) vals)"

text \<open>A number for tax is not given at the creation but written afterwards; the flag of the creation tells Odoo not to
  check it.\<close>

definition create_with_number :: "partner_env \<Rightarrow> bool \<Rightarrow> string option \<Rightarrow> fields \<Rightarrow> partner_db \<Rightarrow> (int \<times> partner_db) partnered" where
  "create_with_number env no_vat field vals d =
     (case field of
        None \<Rightarrow> new_partner env no_vat vals d
      | Some k \<Rightarrow>
          (let number = dict_get (PStr []) vals k in
           rbind (new_partner env no_vat (dict_del k vals) d) (\<lambda>(i, d1).
             if py_true number then rbind (write_partner env i [(k, number)] d1) (\<lambda>d2. Inr (i, d2)) else Inr (i, d1))))"

definition create_company :: "partner_env \<Rightarrow> fields \<Rightarrow> partner_db \<Rightarrow> (int \<times> partner_db) partnered" where
  "create_company env vals d =
     rbind (get_integration_tag env d) (\<lambda>(tags, d1).
       let vals1 = dict_set ''category_id'' (tag_command tags) vals;
           number = (case pn_vat_field env of None \<Rightarrow> PStr [] | Some k \<Rightarrow> dict_get (PStr []) vals1 k)
       in create_with_number env (pn_ignore_vat env \<and> pn_vat_field env \<noteq> None \<and> py_true number) (pn_vat_field env) vals1 d1)"

definition get_or_create_company :: "partner_env \<Rightarrow> proxy \<Rightarrow> partner_db \<Rightarrow> (int \<times> proxy \<times> partner_db) partnered" where
  "get_or_create_company env p d =
     (case px_company_partner p of
        Some c \<Rightarrow> Inr (c, p, d)
      | None \<Rightarrow>
          rbind (prepare_company_vals env p) (\<lambda>(vals, p1).
          rbind (case default_order env (search_partners env (company_search_domain env vals) d) of
                   [] \<Rightarrow> create_company env vals d
                 | c # _ \<Rightarrow> Inr (partner_id c, d)) (\<lambda>(c, d1).
          rbind (write_address_if_empty env p1 c d1) (\<lambda>d2.
            Inr (c, p1\<lparr>px_company_partner := Some c\<rparr>, d2)))))"

section \<open>The contact of a customer\<close>

definition SEARCH_CUSTOMER_FIELDS :: "string list" where
  "SEARCH_CUSTOMER_FIELDS = [''email'', ''name'', ''mobile'', ''phone'']"

definition MANDATORY_PARTNER_SEARCH_CRITERIA :: "(string \<times> domain_op) list" where
  "MANDATORY_PARTNER_SEARCH_CRITERIA = [(''parent_id'', OpEq), (''is_company'', OpEq), (''type'', OpEq), (''company_id'', OpIn)]"

text \<open>\<open>' '.join(s.split())\<close>.\<close>

fun py_words :: "string \<Rightarrow> string \<Rightarrow> string list" where
  "py_words w [] = (if w = [] then [] else [w])"
| "py_words w (c # s) = (if py_isspace c then (if w = [] then [] else [w]) @ py_words [] s else py_words (w @ [c]) s)"

definition single_spaced :: "string \<Rightarrow> string" where
  "single_spaced s = py_join '' '' (py_words [] s)"

definition set_text :: "string \<Rightarrow> string \<Rightarrow> fields \<Rightarrow> fields" where
  "set_text k s vals = (if s = [] then vals else dict_set k (PStr s) vals)"

definition partner_base :: "partner_env \<Rightarrow> proxy \<Rightarrow> fields" where
  "partner_base env p =
     (let v0 = [(''parent_id'', PBool False), (''is_company'', PBool False), (''type'', PStr ''contact''),
                (''company_id'', PInt (pn_company env))];
          v1 = (if px ''person_name'' p = [] then v0 else dict_set ''name'' (PStr (single_spaced (px ''person_name'' p))) v0)
      in set_text ''mobile'' (px ''mobile'' p) (set_text ''phone_sanitized'' (px ''phone_sanitized'' p)
           (set_text ''phone'' (px ''phone'' p) (set_text ''email'' (px ''email'' p) v1))))"

definition prepare_partner_vals :: "partner_env \<Rightarrow> proxy \<Rightarrow> partner_db \<Rightarrow> (fields \<times> proxy \<times> partner_db) partnered" where
  "prepare_partner_vals env p d =
     rbind (if px ''company_name'' p = [] then Inr (partner_base env p, p, d)
            else rbind (get_or_create_company env p d) (\<lambda>(c, p1, d1).
                 Inr (dict_set ''parent_id'' (PInt c) (partner_base env p), p1, d1))) (\<lambda>(v1, p1, d1).
     rbind (with_place env p1 (dict_update v1 (simple_address p1))) (\<lambda>v2.
     rbind (with_lang env p1 v2) (\<lambda>v3.
       Inr (case pn_person_field env of None \<Rightarrow> v3 | Some k \<Rightarrow> dict_set k (PStr (px ''person_id_number'' p1)) v3, p1, d1))))"

definition field_operator :: "string \<Rightarrow> domain_op" where
  "field_operator k = (if k \<in> {''name'', ''email''} then OpIlike else OpEq)"

definition available_fields :: "partner_env \<Rightarrow> fields \<Rightarrow> string list" where
  "available_fields env vals = filter (\<lambda>k. py_true (dict_get PNone vals k)) (pn_search_fields env)"

definition restricted_search :: "partner_env \<Rightarrow> bool" where
  "restricted_search env \<longleftrightarrow> pn_search_fields env \<noteq> [] \<and> set (pn_search_fields env) \<noteq> set SEARCH_CUSTOMER_FIELDS"

definition used_fields :: "partner_env \<Rightarrow> fields \<Rightarrow> string list" where
  "used_fields env vals =
     (if available_fields env vals \<noteq> [] then available_fields env vals
      else filter (\<lambda>k. py_true (dict_get PNone vals k)) SEARCH_CUSTOMER_FIELDS)"

definition customer_domain :: "partner_env \<Rightarrow> fields \<Rightarrow> domain_term list" where
  "customer_domain env vals =
     build_search_domain env (MANDATORY_PARTNER_SEARCH_CRITERIA @ map (\<lambda>k. (k, field_operator k)) (used_fields env vals)) vals"

definition partner_search_domain :: "partner_env \<Rightarrow> proxy \<Rightarrow> fields \<Rightarrow> domain_term list" where
  "partner_search_domain env p vals =
     (if available_fields env vals = [] \<and> restricted_search env then [Leaf ''id'' OpEq (PBool False)]
      else if restricted_search env then customer_domain env vals
      else case pn_person_field env of
        None \<Rightarrow> customer_domain env vals
      | Some k \<Rightarrow>
          if px ''person_id_number'' p = [] then customer_domain env vals
          else customer_domain env vals @ [Leaf k OpEq (PStr (px ''person_id_number'' p))])"

definition create_partner :: "partner_env \<Rightarrow> fields \<Rightarrow> partner_db \<Rightarrow> (int \<times> partner_db) partnered" where
  "create_partner env vals d =
     rbind (get_integration_tag env d) (\<lambda>(tags, d1).
       create_with_number env (pn_ignore_vat env) (pn_person_field env) (dict_set ''category_id'' (tag_command tags) vals) d1)"

text \<open>The oldest contact that is found.\<close>

definition search_or_create_partner :: "partner_env \<Rightarrow> proxy \<Rightarrow> partner_db \<Rightarrow> (int \<times> proxy \<times> partner_db) partnered" where
  "search_or_create_partner env p d =
     rbind (prepare_partner_vals env p d) (\<lambda>(vals, p1, d1).
     case search_partners env (partner_search_domain env p1 vals) d1 of
       c # _ \<Rightarrow> rbind (write_address_if_empty env p1 (partner_id c) d1) (\<lambda>d2. Inr (partner_id c, p1, d2))
     | [] \<Rightarrow> rbind (create_partner env vals d1) (\<lambda>(i, d2). Inr (i, p1, d2)))"

section \<open>The mapping of a customer\<close>

definition map_partner :: "partner_env \<Rightarrow> proxy \<Rightarrow> int \<Rightarrow> partner_db \<Rightarrow> partner_db partnered" where
  "map_partner env p i d =
     (let mm = pn_mapping env; shop = in_id (pn_shop env) in
      if px_external p = [] then Inr d
      else rbind (lift_mapped (rbind (get_mapping shop (px_external p) (pd_mapping d)) (\<lambda>ms.
             if ms \<noteq> [] then write_internal mm ms (Some i) (pd_mapping d)
             else create_integration_mapping mm shop i (px_external p) (Some (Some (px ''person_name'' p)), None) (pd_mapping d))))
           (\<lambda>(_, m). Inr (d\<lparr>pd_mapping := m\<rparr>)))"

text \<open>A mapping without a contact, for a user to fill.\<close>

definition open_mapping :: "partner_env \<Rightarrow> proxy \<Rightarrow> partner_db \<Rightarrow> partner_db partnered" where
  "open_mapping env p d =
     (let mm = pn_mapping env; shop = in_id (pn_shop env) in
      if px_external p = [] then Inr d
      else rbind (lift_mapped (rbind (get_mapping shop (px_external p) (pd_mapping d)) (\<lambda>ms.
             if ms \<noteq> [] then Inr (pd_mapping d)
             else rbind (create_or_update mm \<lparr>ev_integration = shop, ev_code = px_external p,
                    ev_name = Some (Some (px ''person_name'' p)), ev_reference = None\<rparr> (pd_mapping d)) (\<lambda>(x, m1).
                  case search_mappings shop (ex_id x) m1 of
                    [] \<Rightarrow> rbind (create_mapping mm shop None (ex_id x) m1) (\<lambda>(_, m2). Inr m2)
                  | ms1 \<Rightarrow> rbind (write_internal mm ms1 None m1) (\<lambda>(_, m2). Inr m2)))))
           (\<lambda>m. Inr (d\<lparr>pd_mapping := m\<rparr>)))"

definition link_external_partner :: "partner_env \<Rightarrow> string \<Rightarrow> int \<Rightarrow> partner_db \<Rightarrow> partner_db" where
  "link_external_partner env code i d =
     d\<lparr>pd_links := pd_links d @ filter (\<lambda>l. l \<notin> set (pd_links d))
        (map (\<lambda>x. (i, ex_id x)) (search_external (in_id (pn_shop env)) code (pd_mapping d)))\<rparr>"

definition set_partner_pricelist :: "partner_env \<Rightarrow> proxy \<Rightarrow> int \<Rightarrow> partner_db \<Rightarrow> partner_db" where
  "set_partner_pricelist env p i d =
     (if \<not> pn_use_pricelists env \<or> px ''pricelist_id'' p = [] then d
      else case pn_pricelist_of env (px ''pricelist_id'' p) of
        None \<Rightarrow> d
      | Some l \<Rightarrow> d\<lparr>pd_pricelists := dict_set (case rec_id ''parent_id'' (partner_of i d) of None \<Rightarrow> i | Some c \<Rightarrow> c) l (pd_pricelists d)\<rparr>)"

definition configure_partner :: "partner_env \<Rightarrow> proxy \<Rightarrow> int \<Rightarrow> partner_db \<Rightarrow> (proxy \<times> partner_db) partnered" where
  "configure_partner env p i d =
     rbind (if px_external p = [] then Inr d
            else rbind (map_partner env p i d) (\<lambda>d1. Inr (link_external_partner env (px_external p) i d1))) (\<lambda>d1.
       Inr (p\<lparr>px_partner := Some i\<rparr>, set_partner_pricelist env p i d1))"

text \<open>The contact that a user or an earlier order mapped the customer to.\<close>

definition get_customer :: "partner_env \<Rightarrow> proxy \<Rightarrow> bool \<Rightarrow> partner_db \<Rightarrow> (int option \<times> proxy) partnered" where
  "get_customer env p raise_error d =
     rbind (lift_mapped (to_odoo (pn_mapping env) (pn_shop env) (px_external p) raise_error (pd_mapping d))) (\<lambda>rs.
       let partner = (case rs of [] \<Rightarrow> None | i # _ \<Rightarrow> Some i) in Inr (partner, p\<lparr>px_partner := partner\<rparr>))"

definition is_mapping_compatible :: "partner_env \<Rightarrow> proxy \<Rightarrow> int \<Rightarrow> partner_db \<Rightarrow> (bool \<times> proxy \<times> partner_db) partnered" where
  "is_mapping_compatible env p i d =
     (if \<not> py_true (fld ''active'' (partner_of i d)) then Inr (False, p, d)
      else rbind (if px ''company_name'' p = [] then Inr (None, p, d)
                  else rbind (get_or_create_company env p d) (\<lambda>(c, p1, d1). Inr (Some c, p1, d1))) (\<lambda>(company, p1, d1).
        let mapped = partner_of i d1;
            is_company = py_true (fld ''is_company'' mapped);
            parent = rec_id ''parent_id'' mapped;
            other_company = (\<lambda>x. case rec_id ''company_id'' x of None \<Rightarrow> False | Some c \<Rightarrow> c \<noteq> pn_company env);
            skip = pn_skip_individual env
        in Inr (\<not> (other_company mapped
                  \<or> is_company \<and> \<not> skip
                  \<or> \<not> is_company \<and> skip
                  \<or> company \<noteq> None \<and> \<not> skip \<and> \<not> is_company \<and> parent = None
                  \<or> parent \<noteq> None \<and> company \<noteq> None \<and> (parent \<noteq> company \<or> other_company (partner_of (the parent) d1))
                  \<or> skip \<and> is_company \<and> company \<noteq> None \<and> (Some i \<noteq> company \<or> other_company mapped)), p1, d1)))"

definition get_compatible_mapped_partner :: "partner_env \<Rightarrow> proxy \<Rightarrow> partner_db \<Rightarrow> (int option \<times> proxy \<times> partner_db) partnered" where
  "get_compatible_mapped_partner env p d =
     (if px_external p = [] then Inr (None, p, d)
      else rbind (get_customer env p False d) (\<lambda>(partner, p1).
           case partner of
             None \<Rightarrow> Inr (None, p1, d)
           | Some i \<Rightarrow>
               if \<not> py_true (fld ''active'' (partner_of i d)) then Inr (None, p1, d)
               else rbind (is_mapping_compatible env p1 i d) (\<lambda>(ok, p2, d2). Inr (if ok then Some i else None, p2, d2))))"

definition get_or_create_partner :: "partner_env \<Rightarrow> proxy \<Rightarrow> partner_db \<Rightarrow> (int \<times> proxy \<times> partner_db) partnered" where
  "get_or_create_partner env p d =
     rbind (get_compatible_mapped_partner env p d) (\<lambda>(partner, p1, d1).
     rbind (case partner of
              Some i \<Rightarrow> Inr (i, p1, d1)
            | None \<Rightarrow>
                if pn_skip_individual env \<and> px ''company_name'' p1 \<noteq> [] then get_or_create_company env p1 d1
                else search_or_create_partner env p1 d1) (\<lambda>(i, p2, d2).
     rbind (configure_partner env p2 i d2) (\<lambda>(p3, d3). Inr (i, p3, d3))))"

section \<open>Addresses\<close>

definition ADDRESS_UNIQUENESS_IGNORED_FIELDS :: "string list" where
  "ADDRESS_UNIQUENESS_IGNORED_FIELDS = [''parent_id'', ''type'', ''external_company_name'', ''category_id'', ''lang'', ''active'',
     ''create_date'', ''write_date'']"

definition relational_fields :: "string list" where
  "relational_fields = [''company_id'', ''country_id'', ''state_id'']"

definition case_insensitive_fields :: "string list" where
  "case_insensitive_fields = [''name'', ''street'', ''street2'', ''city'', ''zip'', ''email'']"

definition field_text :: "partner_env \<Rightarrow> pyval \<Rightarrow> string" where
  "field_text env v = (if py_true v then char_value env v else [])"

definition field_changed :: "partner_env \<Rightarrow> fields \<Rightarrow> string \<Rightarrow> pyval \<Rightarrow> bool" where
  "field_changed env partner k v \<longleftrightarrow>
     k \<notin> set ADDRESS_UNIQUENESS_IGNORED_FIELDS \<and>
     (if k = ''company_id'' then fld k partner \<notin> {PBool False, v}
      else if k \<in> set relational_fields then fld k partner \<noteq> v
      else (py_true (fld k partner) \<or> py_true v) \<and>
        (let old = py_strip (field_text env (fld k partner)); new = py_strip (field_text env v)
         in if k \<in> set case_insensitive_fields then py_lower old \<noteq> py_lower new else old \<noteq> new))"

definition has_address_changes :: "partner_env \<Rightarrow> fields \<Rightarrow> fields \<Rightarrow> bool \<times> string list" where
  "has_address_changes env partner vals =
     (let changed = map fst (filter (\<lambda>(k, v). field_changed env partner k v) vals) in (changed \<noteq> [], changed))"

definition MANDATORY_ADDRESS_SEARCH_CRITERIA :: "(string \<times> domain_op) list" where
  "MANDATORY_ADDRESS_SEARCH_CRITERIA = [(''name'', OpIlike), (''parent_id'', OpEq), (''company_id'', OpIn)]"

definition address_search_domain :: "partner_env \<Rightarrow> fields \<Rightarrow> domain_term list" where
  "address_search_domain env vals =
     build_search_domain env (MANDATORY_ADDRESS_SEARCH_CRITERIA @
       map (\<lambda>k. (k, OpIlike)) (filter (\<lambda>k. py_true (dict_get PNone vals k)) [''email'', ''phone'']) @
       [(''street'', OpIlike), (''street2'', OpIlike), (''city'', OpIlike), (''zip'', OpIlike), (''state_id'', OpEq),
        (''country_id'', OpEq)]) vals @ [Leaf ''type'' OpIn (PList [PStr ''other'', PStr ''invoice'', PStr ''delivery''])]"

definition address_type :: "proxy \<Rightarrow> string" where
  "address_type p =
     (if px_type p = ''billing_address'' then ''invoice'' else if px_type p = ''shipping_address'' then ''delivery'' else ''other'')"

definition address_base :: "partner_env \<Rightarrow> int \<Rightarrow> proxy \<Rightarrow> fields" where
  "address_base env customer p =
     (let v0 = [(''parent_id'', PInt customer), (''company_id'', PInt (pn_company env)), (''type'', PStr (address_type p))]
      in if px ''person_name'' p = [] then v0 else dict_set ''name'' (PStr (single_spaced (px ''person_name'' p))) v0)"

definition prepare_address_vals :: "partner_env \<Rightarrow> int \<Rightarrow> proxy \<Rightarrow> partner_db \<Rightarrow> (fields \<times> proxy \<times> partner_db) partnered" where
  "prepare_address_vals env customer p d =
     rbind (if px ''company_name'' p = [] \<or> pn_manual env then Inr (address_base env customer p, p, d)
            else rbind (get_or_create_company env p d) (\<lambda>(c, p1, d1).
                 Inr (dict_set ''parent_id'' (PInt c) (address_base env customer p), p1, d1))) (\<lambda>(v1, p1, d1).
     rbind (with_place env p1 (dict_update v1 (simple_address p1))) (\<lambda>v2.
     rbind (with_lang env p1 v2) (\<lambda>v3.
       Inr (set_text ''external_company_name'' (px ''company_name'' p1) v3, p1, d1))))"

definition find_or_create_address :: "partner_env \<Rightarrow> fields \<Rightarrow> partner_db \<Rightarrow> (int \<times> partner_db) partnered" where
  "find_or_create_address env vals d =
     (case default_order env (search_partners env (address_search_domain env vals) d) of
        [] \<Rightarrow> rbind (get_integration_tag env d) (\<lambda>(tags, d1).
              new_partner env (pn_ignore_vat env) (dict_set ''category_id'' (tag_command tags) vals) d1)
      | found \<Rightarrow>
          (case filter (\<lambda>a. fld ''type'' a = dict_get PNone vals ''type'') found of
             [] \<Rightarrow> Inr (partner_id (hd found), d)
           | a # _ \<Rightarrow> Inr (partner_id a, d)))"

text \<open>\<open>None\<close> without a customer.\<close>

definition get_or_create_address ::
  "partner_env \<Rightarrow> int option \<Rightarrow> proxy \<Rightarrow> partner_db \<Rightarrow> (int option \<times> proxy \<times> partner_db) partnered" where
  "get_or_create_address env customer p d =
     (case customer of
        None \<Rightarrow> Inr (None, p, d)
      | Some i \<Rightarrow>
          rbind (prepare_address_vals env i p d) (\<lambda>(vals, p1, d1).
          rbind (if \<not> pn_skip_individual env \<or> px ''company_name'' p1 = [] then Inr (i, p1, d1)
                 else get_or_create_company env p1 d1) (\<lambda>(owner, p2, d2).
            if \<not> fst (has_address_changes env (partner_of owner d2) vals) then Inr (Some owner, p2, d2)
            else rbind (find_or_create_address env vals d2) (\<lambda>(a, d3). Inr (Some a, p2, d3)))))"

section \<open>The factory\<close>

text \<open>Data that is missing and an empty dictionary are alike false. The arguments are copies.\<close>

definition FIELDS_TO_COPY :: "string list" where
  "FIELDS_TO_COPY = [''person_name'', ''company_name'', ''company_reg_number'', ''street'', ''street2'', ''country'', ''state'',
     ''city'', ''country_code'', ''state_code'', ''zip'', ''phone'', ''mobile'']"

definition copy_fields :: "string list \<Rightarrow> fields \<Rightarrow> fields \<Rightarrow> fields" where
  "copy_fields ks source d = foldl (\<lambda>d k. dict_set k (dict_get (PStr []) source k) d) d ks"

definition text_of :: "partner_env \<Rightarrow> pyval \<Rightarrow> string" where
  "text_of env v = (case v of PStr s \<Rightarrow> s | _ \<Rightarrow> pn_str env v)"

definition same_person :: "partner_env \<Rightarrow> fields \<Rightarrow> fields \<Rightarrow> bool" where
  "same_person env a b \<longleftrightarrow>
     (\<forall>k\<in>{''email'', ''person_name''}. py_lower (text_of env (dict_get (PStr []) a k)) = py_lower (text_of env (dict_get (PStr []) b k)))"

definition update_customer_data :: "partner_env \<Rightarrow> fields \<Rightarrow> fields \<Rightarrow> fields \<Rightarrow> fields" where
  "update_customer_data env customer billing shipping =
     (if customer = [] then (if billing \<noteq> [] then billing else shipping)
      else if billing = [] then customer
      else (let c1 = copy_fields [''person_id_number''] billing customer;
                c2 = (if py_true (dict_get (PStr []) billing ''company_name'')
                      then copy_fields [''company_name'', ''company_reg_number'', ''country'', ''country_code''] billing c1 else c1)
            in if same_person env c2 billing then copy_fields FIELDS_TO_COPY billing c2 else c2))"

record factory =
  fa_initial :: bool
  fa_customer :: "proxy option"
  fa_billing :: "proxy option"
  fa_shipping :: "proxy option"

definition no_data :: "fields \<Rightarrow> bool" where
  "no_data data \<longleftrightarrow> (\<forall>(k, v)\<in>set data. \<not> py_true v)"

definition create_factory :: "partner_env \<Rightarrow> bool \<Rightarrow> fields \<Rightarrow> fields \<Rightarrow> fields \<Rightarrow> factory partnered" where
  "create_factory env initial customer billing shipping =
     (let billing1 = (if no_data billing then [] else billing);
          shipping1 = (if no_data shipping then [] else shipping);
          billing2 = (if billing1 = [] \<and> shipping1 \<noteq> [] then shipping1 else billing1);
          customer1 = update_customer_data env customer billing2 shipping1;
          customer2 = (if customer1 \<noteq> [] then customer1 else billing2);
          make = (\<lambda>type data. if data = [] then Inr None else create_proxy env type data)
      in rbind (make ''customer'' customer2) (\<lambda>c.
         rbind (make ''billing_address'' billing2) (\<lambda>b.
         rbind (make ''shipping_address'' shipping1) (\<lambda>s.
           Inr \<lparr>fa_initial = initial, fa_customer = c, fa_billing = b, fa_shipping = s\<rparr>))))"

text \<open>Both validations return what they leave in the database also if they raise: the open mapping is written by a
  connection of its own.\<close>

definition raise_not_mapped :: "partner_env \<Rightarrow> proxy \<Rightarrow> partner_db \<Rightarrow> unit partnered \<times> partner_db" where
  "raise_not_mapped env p d =
     (case open_mapping env p d of
        Inl e \<Rightarrow> (Inl e, d)
      | Inr d1 \<Rightarrow> (Inl (CustomerNotMapped (px_external p)), d1))"

definition validate_for_initial_import :: "partner_env \<Rightarrow> factory \<Rightarrow> partner_db \<Rightarrow> unit partnered \<times> partner_db" where
  "validate_for_initial_import env f d =
     (case fa_customer f of
        None \<Rightarrow> (Inl ApiImportError, d)
      | Some p \<Rightarrow>
          if px_external p = [] then (Inl ApiImportError, d)
          else (case lift_mapped (get_mapping (in_id (pn_shop env)) (px_external p) (pd_mapping d)) of
                  Inl e \<Rightarrow> (Inl e, d)
                | Inr ms \<Rightarrow> if pn_manual env \<and> internal_records ms = [] then raise_not_mapped env p d else (Inr (), d)))"

definition validate_for_sales_orders :: "partner_env \<Rightarrow> factory \<Rightarrow> partner_db \<Rightarrow> unit partnered \<times> partner_db" where
  "validate_for_sales_orders env f d =
     (case fa_customer f of
        None \<Rightarrow> (if pn_default_customer env = None then Inl ApiImportError else Inr (), d)
      | Some p \<Rightarrow>
          if \<not> pn_manual env then (Inr (), d)
          else (case get_customer env p False d of
                  Inl e \<Rightarrow> (Inl e, d)
                | Inr (Some _, _) \<Rightarrow> (Inr (), d)
                | Inr (None, _) \<Rightarrow> if px_external p = [] then (Inr (), d) else raise_not_mapped env p d))"

definition validate_data :: "partner_env \<Rightarrow> factory \<Rightarrow> partner_db \<Rightarrow> unit partnered \<times> partner_db" where
  "validate_data env f d = (if fa_initial f then validate_for_initial_import env f d else validate_for_sales_orders env f d)"

text \<open>The customer and the addresses for shipping and billing.\<close>

definition find_partners :: "partner_env \<Rightarrow> factory \<Rightarrow> partner_db \<Rightarrow> ((int option \<times> int option \<times> int option) \<times> partner_db) partnered" where
  "find_partners env f d =
     rbind (case fa_customer f of
              None \<Rightarrow> Inr (pn_default_customer env, None, d)
            | Some p \<Rightarrow>
                if pn_manual env then rbind (get_customer env p True d) (\<lambda>(c, p1). Inr (c, px_partner p1, d))
                else rbind (get_or_create_partner env p d) (\<lambda>(i, p1, d1). Inr (Some i, px_partner p1, d1))) (\<lambda>(customer, mapped, d1).
     rbind (case fa_billing f of
              None \<Rightarrow> Inr (customer, d1)
            | Some p \<Rightarrow> rbind (get_or_create_address env mapped p d1) (\<lambda>(a, _, d2). Inr (a, d2))) (\<lambda>(billing, d2).
     rbind (case fa_shipping f of
              None \<Rightarrow> Inr (customer, d2)
            | Some p \<Rightarrow> rbind (get_or_create_address env mapped p d2) (\<lambda>(a, _, d3). Inr (a, d3))) (\<lambda>(shipping, d3).
       Inr ((customer, shipping, billing), d3))))"

definition get_partner_and_addresses ::
  "partner_env \<Rightarrow> factory \<Rightarrow> partner_db \<Rightarrow> (int option \<times> int option \<times> int option) partnered \<times> partner_db" where
  "get_partner_and_addresses env f d =
     (case validate_data env f d of
        (Inl e, d1) \<Rightarrow> (Inl e, d1)
      | (Inr _, d1) \<Rightarrow> (case find_partners env f d1 of Inl e \<Rightarrow> (Inl e, d1) | Inr (r, d2) \<Rightarrow> (Inr r, d2)))"

end
