(* ===== verification/PartnerFacts.thy ===== *)
theory PartnerFacts
  imports PartnerContacts MappingFacts
begin

text \<open>
  Lemmas on contacts: what Odoo is assumed to keep of a contact, how the table of contacts grows, what a
  search finds, and that the contact of a company is found again.
\<close>

section \<open>What Odoo keeps\<close>

text \<open>The fields by which contacts are looked for. Creating a contact or writing another one does not change them;
  a new contact is active and has the values that it was given.\<close>

definition given_fields :: "string set" where
  "given_fields = {''is_company'', ''parent_id'', ''company_id'', ''name'', ''type''}"

definition core_fields :: "partner_env \<Rightarrow> string set" where
  "core_fields env = {''id'', ''active''} \<union> given_fields \<union> set_option (pn_vat_field env)"

definition same_core :: "partner_env \<Rightarrow> fields \<Rightarrow> fields \<Rightarrow> bool" where
  "same_core env q p \<longleftrightarrow> (\<forall>k\<in>core_fields env. fld k q = fld k p)"

definition created :: "int \<Rightarrow> fields \<Rightarrow> fields \<Rightarrow> bool" where
  "created i vals p \<longleftrightarrow> fld ''id'' p = PInt i \<and> fld ''active'' p = PBool True \<and>
     (\<forall>k\<in>given_fields. k \<in> fst ` set vals \<longrightarrow> fld k p = fld k vals) \<and>
     (''is_company'' \<notin> fst ` set vals \<longrightarrow> \<not> py_true (fld ''is_company'' p))"

definition orm_ok :: "partner_env \<Rightarrow> bool" where
  "orm_ok env \<longleftrightarrow>
     (\<forall>nv vals ps i ps'. pn_create env nv vals ps = Inr (i, ps') \<longrightarrow> 0 < i \<and> i \<notin> partner_id ` set ps \<and>
        (\<exists>qs p. ps' = qs @ [p] \<and> list_all2 (same_core env) qs ps \<and> created i vals p)) \<and>
     (\<forall>i vals ps ps'. pn_write env i vals ps = Inr ps' \<longrightarrow>
        list_all2 (\<lambda>q p. \<forall>k\<in>core_fields env. fld k q = (if partner_id p = i \<and> k \<in> fst ` set vals then fld k vals else fld k p)) ps' ps) \<and>
     (\<forall>p q. same_core env p q \<longrightarrow> pn_rank env p = pn_rank env q) \<and>
     (\<forall>s. s \<noteq> [] \<longrightarrow> pn_escape env s \<noteq> [] \<and> pn_ilike env s (pn_escape env s))"

text \<open>The fields of the numbers are fields of their own.\<close>

definition own_fields :: "string set" where
  "own_fields = {''id'', ''active'', ''lang'', ''category_id'', ''phone_sanitized'', ''external_company_name''} \<union> given_fields \<union>
     set address_match_fields"

definition shop_ok :: "partner_env \<Rightarrow> bool" where
  "shop_ok env \<longleftrightarrow> 0 < pn_company env \<and> set_option (pn_vat_field env) \<inter> own_fields = {} \<and> set_option (pn_person_field env) \<inter> own_fields = {}"

definition partners_ok :: "partner_db \<Rightarrow> bool" where
  "partners_ok d \<longleftrightarrow> distinct (map partner_id (pd_partners d)) \<and> (\<forall>p\<in>set (pd_partners d). \<exists>n>0. fld ''id'' p = PInt n)"

lemma orm_create:
  assumes "orm_ok env" and "pn_create env nv vals ps = Inr (i, ps')"
  obtains qs p where "0 < i" "i \<notin> partner_id ` set ps" "ps' = qs @ [p]" "list_all2 (same_core env) qs ps" "created i vals p"
  using assms unfolding orm_ok_def by metis

lemma orm_write:
  assumes "orm_ok env" and "pn_write env i vals ps = Inr ps'"
  shows "list_all2 (\<lambda>q p. \<forall>k\<in>core_fields env. fld k q = (if partner_id p = i \<and> k \<in> fst ` set vals then fld k vals else fld k p)) ps' ps"
  using assms unfolding orm_ok_def by blast

lemma same_core_refl [simp]: "same_core env p p"
  by (simp add: same_core_def)

lemma same_core_trans: "same_core env p q \<Longrightarrow> same_core env q r \<Longrightarrow> same_core env p r"
  by (simp add: same_core_def)

lemma same_core_fld: "same_core env q p \<Longrightarrow> k \<in> core_fields env \<Longrightarrow> fld k q = fld k p"
  by (simp add: same_core_def)

lemma core_given [simp]:
  "''id'' \<in> core_fields env" "''active'' \<in> core_fields env" "''is_company'' \<in> core_fields env" "''parent_id'' \<in> core_fields env"
  "''company_id'' \<in> core_fields env" "''name'' \<in> core_fields env" "''type'' \<in> core_fields env"
  by (simp_all add: core_fields_def given_fields_def)

lemma same_core_id: "same_core env q p \<Longrightarrow> partner_id q = partner_id p"
  by (simp add: partner_id_def same_core_fld)

section \<open>How the table grows\<close>

text \<open>The new contacts are at the end; without the flag they are no companies.\<close>

definition grown :: "partner_env \<Rightarrow> bool \<Rightarrow> fields list \<Rightarrow> fields list \<Rightarrow> bool" where
  "grown env company ps ps' \<longleftrightarrow> (\<exists>qs new. ps' = qs @ new \<and> list_all2 (same_core env) qs ps \<and>
     (\<not> company \<longrightarrow> (\<forall>p\<in>set new. \<not> py_true (fld ''is_company'' p))))"

lemma same_core_all_refl [simp]: "list_all2 (same_core env) ps ps"
  by (simp add: list_all2_refl)

lemma same_core_all_trans:
  "list_all2 (same_core env) ps qs \<Longrightarrow> list_all2 (same_core env) qs rs \<Longrightarrow> list_all2 (same_core env) ps rs"
  by (rule list_all2_trans [of "same_core env" "same_core env" "same_core env"]) (auto intro: same_core_trans)

lemma list_all2_left: "list_all2 R xs ys \<Longrightarrow> x \<in> set xs \<Longrightarrow> \<exists>y\<in>set ys. R x y"
  by (induction xs ys rule: list_all2_induct) auto

lemma grown_refl [simp]: "grown env c ps ps"
  unfolding grown_def by (rule exI [of _ ps], rule exI [of _ "[]"]) simp

lemma grown_kept: "list_all2 (same_core env) ps' ps \<Longrightarrow> grown env c ps ps'"
  unfolding grown_def by (rule exI [of _ ps'], rule exI [of _ "[]"]) simp

lemma grown_weaken: "grown env c ps ps' \<Longrightarrow> grown env True ps ps'"
  by (auto simp: grown_def)

lemma grown_trans:
  assumes "grown env c ps ps1" and "grown env c ps1 ps2" shows "grown env c ps ps2"
proof -
  obtain qs new where q: "ps1 = qs @ new" "list_all2 (same_core env) qs ps" "\<not> c \<Longrightarrow> \<forall>p\<in>set new. \<not> py_true (fld ''is_company'' p)"
    using assms(1) by (auto simp: grown_def)
  obtain rs new2 where r: "ps2 = rs @ new2" "list_all2 (same_core env) rs (qs @ new)" "\<not> c \<Longrightarrow> \<forall>p\<in>set new2. \<not> py_true (fld ''is_company'' p)"
    using assms(2) q(1) by (auto simp: grown_def)
  obtain rs1 rs2 where rs: "rs = rs1 @ rs2" "list_all2 (same_core env) rs1 qs" "list_all2 (same_core env) rs2 new"
    using r(2) by (auto simp: list_all2_append2)
  have "\<not> py_true (fld ''is_company'' p)" if n: "\<not> c" "p \<in> set rs2" for p
  proof -
    obtain x where "x \<in> set new" "same_core env p x" using list_all2_left [OF rs(3) n(2)] by blast
    with q(3) [OF n(1)] show ?thesis by (simp add: same_core_fld)
  qed
  with r(1,3) rs(1) same_core_all_trans [OF rs(2) q(2)] show ?thesis
    unfolding grown_def by (intro exI [of _ rs1] exI [of _ "rs2 @ new2"]) auto
qed

lemma same_core_ids: "list_all2 (same_core env) qs ps \<Longrightarrow> map partner_id qs = map partner_id ps"
  by (induction qs ps rule: list_all2_induct) (auto dest: same_core_id)

text \<open>A contact keeps its core.\<close>

lemma find_same_core:
  "list_all2 (same_core env) qs ps \<Longrightarrow>
    rel_option (same_core env) (find (\<lambda>p. partner_id p = i) qs) (find (\<lambda>p. partner_id p = i) ps)"
  by (induction qs ps rule: list_all2_induct) (auto dest: same_core_id)

lemma find_append: "find P (xs @ ys) = (case find P xs of None \<Rightarrow> find P ys | Some x \<Rightarrow> Some x)"
  by (induction xs) auto

lemma find_id: "i \<in> partner_id ` set ps \<Longrightarrow> \<exists>p\<in>set ps. find (\<lambda>p. partner_id p = i) ps = Some p \<and> partner_id p = i"
  by (induction ps) auto

lemma partner_of_grown:
  assumes "grown env c (pd_partners d) (pd_partners d')" and "i \<in> partner_id ` set (pd_partners d)"
  shows "same_core env (partner_of i d') (partner_of i d)"
proof -
  obtain qs new where q: "pd_partners d' = qs @ new" "list_all2 (same_core env) qs (pd_partners d)" using assms(1) by (auto simp: grown_def)
  obtain p where "find (\<lambda>p. partner_id p = i) (pd_partners d) = Some p" using find_id [OF assms(2)] by blast
  with find_same_core [OF q(2), of i] show ?thesis by (auto simp: partner_of_def q(1) find_append option_rel_Some2)
qed

lemma same_core_id_set: "list_all2 (same_core env) qs ps \<Longrightarrow> partner_id ` set qs = partner_id ` set ps"
  using arg_cong [OF same_core_ids, of env qs ps set] by simp

lemma grown_ids: "grown env c ps ps' \<Longrightarrow> partner_id ` set ps \<subseteq> partner_id ` set ps'"
  unfolding grown_def using same_core_id_set by (metis Un_upper1 image_Un set_append)

lemma partner_of_in:
  assumes "partners_ok d" and "p \<in> set (pd_partners d)" shows "partner_of (partner_id p) d = p"
proof -
  obtain q where "find (\<lambda>q. partner_id q = partner_id p) (pd_partners d) = Some q" "q \<in> set (pd_partners d)" "partner_id q = partner_id p"
    using find_id [of "partner_id p" "pd_partners d"] assms(2) by auto
  then show ?thesis using assms by (auto simp: partner_of_def partners_ok_def distinct_map inj_on_def)
qed

lemma partners_kept_ok:
  assumes "list_all2 (same_core env) (pd_partners d') (pd_partners d)" and "partners_ok d" shows "partners_ok d'"
proof -
  have "\<exists>n>0. fld ''id'' q = PInt n" if "q \<in> set (pd_partners d')" for q
  proof -
    obtain p where "p \<in> set (pd_partners d)" "same_core env q p" using list_all2_left [OF assms(1) \<open>q \<in> set (pd_partners d')\<close>] by blast
    with assms(2) show ?thesis by (simp add: partners_ok_def same_core_fld)
  qed
  with assms same_core_ids [OF assms(1)] show ?thesis by (simp add: partners_ok_def)
qed

section \<open>Writing and creating\<close>

lemma write_other:
  assumes "orm_ok env" and "write_partner env i vals d = Inr d'" and "fst ` set vals \<inter> core_fields env = {}"
  shows "list_all2 (same_core env) (pd_partners d') (pd_partners d) \<and> pd_mapping d' = pd_mapping d"
proof -
  obtain ps where ps: "pn_write env i vals (pd_partners d) = Inr ps" "d' = d\<lparr>pd_partners := ps\<rparr>"
    using assms(2) by (auto simp: write_partner_def rbind_eq_Inr)
  have "list_all2 (same_core env) ps (pd_partners d)"
    using orm_write [OF assms(1) ps(1)] by (rule list_all2_mono) (use assms(3) in \<open>auto simp: same_core_def\<close>)
  then show ?thesis by (simp add: ps(2))
qed

lemma dict_update_keys_place: "with_place env p vals = Inr vals' \<Longrightarrow> fst ` set vals' \<subseteq> fst ` set vals \<union> {''country_id'', ''state_id''}"
proof -
  assume "with_place env p vals = Inr vals'"
  then obtain c s where "vals' = (let v = (case c of None \<Rightarrow> vals | Some x \<Rightarrow> dict_set ''country_id'' (PInt x) vals)
      in case s of None \<Rightarrow> v | Some x \<Rightarrow> dict_set ''state_id'' (PInt x) v)"
    by (auto simp: with_place_def rbind_eq_Inr Let_def)
  then show ?thesis by (cases c; cases s) (auto simp: fst_dict_set)
qed

lemma address_fields_core: "shop_ok env \<Longrightarrow> set address_match_fields \<inter> core_fields env = {}"
  by (auto simp: shop_ok_def own_fields_def core_fields_def given_fields_def address_match_fields_def ADDRESS_MATCH_SIMPLE_FIELDS_def)

lemma simple_address_keys: "fst ` set (simple_address p) = set ADDRESS_MATCH_SIMPLE_FIELDS"
  by (auto simp: simple_address_def ADDRESS_MATCH_SIMPLE_FIELDS_def)

lemma write_address_kept:
  assumes "orm_ok env" and "shop_ok env" and "write_address_if_empty env p i d = Inr d'"
  shows "list_all2 (same_core env) (pd_partners d') (pd_partners d) \<and> pd_mapping d' = pd_mapping d"
proof (cases "d' = d")
  case False
  then obtain vals where v: "with_place env p (simple_address p) = Inr vals" "write_partner env i vals d = Inr d'"
    using assms(3) by (auto simp: write_address_if_empty_def rbind_eq_Inr split: if_splits)
  have "fst ` set vals \<inter> core_fields env = {}"
    using dict_update_keys_place [OF v(1)] address_fields_core [OF assms(2)] simple_address_keys [of p]
    by (auto simp: address_match_fields_def)
  then show ?thesis by (rule write_other [OF assms(1) v(2)])
qed simp

definition added :: "partner_env \<Rightarrow> int \<Rightarrow> fields \<Rightarrow> partner_db \<Rightarrow> partner_db \<Rightarrow> bool" where
  "added env i vals d d' \<longleftrightarrow> i \<notin> partner_id ` set (pd_partners d) \<and> partners_ok d' \<and> pd_mapping d' = pd_mapping d \<and>
     (\<exists>qs p. pd_partners d' = qs @ [p] \<and> list_all2 (same_core env) qs (pd_partners d) \<and> created i vals p)"

lemma created_id: "created i vals p \<Longrightarrow> partner_id p = i"
  by (simp add: created_def partner_id_def)

lemma new_partner_added:
  assumes "orm_ok env" and "partners_ok d" and "new_partner env nv vals d = Inr (i, d')"
  shows "added env i vals d d'"
proof -
  obtain ps where ps: "pn_create env nv vals (pd_partners d) = Inr (i, ps)" "d' = d\<lparr>pd_partners := ps\<rparr>"
    using assms(3) by (auto simp: new_partner_def rbind_eq_Inr)
  from orm_create [OF assms(1) ps(1)] obtain qs p where c: "0 < i" "i \<notin> partner_id ` set (pd_partners d)" "ps = qs @ [p]"
    "list_all2 (same_core env) qs (pd_partners d)" "created i vals p" by metis
  have "partners_ok (d\<lparr>pd_partners := qs\<rparr>)" by (rule partners_kept_ok [OF _ assms(2)]) (use c(4) in simp)
  moreover have "i \<notin> partner_id ` set qs" using c(2) same_core_id_set [OF c(4)] by simp
  ultimately have "partners_ok d'" using c(1,3,5) created_id [OF c(5)] by (auto simp: partners_ok_def ps(2) created_def)
  with c ps(2) show ?thesis by (auto simp: added_def)
qed

lemma created_cong:
  assumes "fst ` set vals \<inter> given_fields = fst ` set vals' \<inter> given_fields" and "\<forall>k\<in>given_fields. fld k vals = fld k vals'"
  shows "created i vals p \<longleftrightarrow> created i vals' p"
proof -
  have "k \<in> fst ` set vals \<longleftrightarrow> k \<in> fst ` set vals'" if "k \<in> given_fields" for k using assms(1) that by blast
  moreover have "''is_company'' \<in> given_fields" by (simp add: given_fields_def)
  ultimately show ?thesis using assms(2) by (auto simp: created_def)
qed

text \<open>The number is written after the creation.\<close>

lemma create_with_number_added:
  assumes "orm_ok env" and "partners_ok d" and "create_with_number env nv field vals d = Inr (i, d')" and "set_option field \<inter> own_fields = {}"
  shows "added env i vals d d' \<and> (\<forall>k. field = Some k \<and> pn_vat_field env = field \<and> py_true (dict_get (PStr []) vals k) \<longrightarrow>
    fld k (partner_of i d') = dict_get (PStr []) vals k)"
proof (cases field)
  case None
  then show ?thesis using new_partner_added [OF assms(1,2)] assms(3) by (simp add: create_with_number_def)
next
  case (Some k)
  have k: "k \<notin> own_fields" using assms(4) Some by simp
  let ?n = "dict_get (PStr []) vals k"
  obtain d1 where d1: "new_partner env nv (dict_del k vals) d = Inr (i, d1)"
    and d': "if py_true ?n then write_partner env i [(k, ?n)] d1 = Inr d' else d' = d1"
    using assms(3) Some by (auto simp: create_with_number_def Let_def rbind_eq_Inr split: if_splits)
  have ng: "k \<notin> given_fields" using k by (auto simp: own_fields_def)
  have cong: "created i (dict_del k vals) p \<longleftrightarrow> created i vals p" for p
  proof (rule created_cong)
    have "fst ` set (dict_del k vals) = fst ` set vals - {k}" by (auto simp: dict_del_def)
    with ng show "fst ` set (dict_del k vals) \<inter> given_fields = fst ` set vals \<inter> given_fields" by auto
    show "\<forall>f\<in>given_fields. fld f (dict_del k vals) = fld f vals" using ng by (auto simp: fld_def)
  qed
  note a = new_partner_added [OF assms(1,2) d1]
  then obtain qs p where c: "pd_partners d1 = qs @ [p]" "list_all2 (same_core env) qs (pd_partners d)" "created i vals p"
    by (auto simp: added_def cong)
  have a1: "added env i vals d d1" using a cong by (simp add: added_def)
  show ?thesis
  proof (cases "py_true ?n")
    case False
    then show ?thesis using a1 d' Some by auto
  next
    case True
    then obtain ps where ps: "pn_write env i [(k, ?n)] (pd_partners d1) = Inr ps" "d' = d1\<lparr>pd_partners := ps\<rparr>"
      using d' by (auto simp: write_partner_def rbind_eq_Inr)
    let ?f = "\<lambda>p f. if partner_id p = i \<and> f = k then fld k [(k, ?n)] else fld f p"
    have w: "list_all2 (\<lambda>q p. \<forall>f\<in>core_fields env. fld f q = ?f p f) ps (qs @ [p])"
      using orm_write [OF assms(1) ps(1)] c(1) by (auto elim!: list_all2_mono)
    then obtain qs' p' where q: "ps = qs' @ [p']" "list_all2 (\<lambda>q p. \<forall>f\<in>core_fields env. fld f q = ?f p f) qs' qs"
      "\<forall>f\<in>core_fields env. fld f p' = ?f p f" by (auto simp: list_all2_append2 list_all2_Cons2)
    have ne: "k \<noteq> f" if "f \<in> {''id'', ''active''} \<union> given_fields" for f using k that by (auto simp: own_fields_def)
    have i: "x \<in> set qs \<Longrightarrow> partner_id x \<noteq> i" for x
      using a same_core_id_set [OF c(2)] by (auto simp: added_def)
    have "list_all2 (same_core env) qs' qs"
      using q(2) i by (auto simp: list_all2_conv_all_nth same_core_def)
    then have k1: "list_all2 (same_core env) qs' (pd_partners d)" using c(2) by (rule same_core_all_trans)
    have core: "fld f p' = fld f p" if "f \<in> {''id'', ''active''} \<union> given_fields" for f
      using q(3) ne [OF that] that by (auto simp: core_fields_def)
    then have c': "created i vals p'" using c(3) unfolding created_def
      by (smt (verit, del_insts) UnCI insertCI given_fields_def)
    have pid: "map partner_id ps = map partner_id (pd_partners d1)"
      using same_core_ids [OF \<open>list_all2 (same_core env) qs' qs\<close>] created_id [OF c'] created_id [OF c(3)] q(1) c(1) by simp
    have pos: "\<exists>n>0. fld ''id'' x = PInt n" if "x \<in> set ps" for x
    proof -
      have one: "partners_ok (d\<lparr>pd_partners := qs'\<rparr>)" by (rule partners_kept_ok [OF _ assms(2)]) (use k1 in simp)
      have "fld ''id'' p' = fld ''id'' p" by (rule core) simp
      with one that q(1) a1 c(1) show ?thesis by (auto simp: partners_ok_def added_def)
    qed
    have ok: "partners_ok d'" using pid pos a1 by (simp add: partners_ok_def ps(2) added_def)
    have "fld k (partner_of i d') = ?n" if "pn_vat_field env = Some k"
    proof -
      have "partner_of i d' = p'" using partner_of_in [OF ok, of p'] created_id [OF c'] by (simp add: ps(2) q(1))
      moreover have "fld k p' = fld k [(k, ?n)]" using q(3) that created_id [OF c(3)] by (auto simp: core_fields_def)
      moreover have "fld k [(k, ?n)] = ?n" using True by (cases ?n) (auto simp: fld_def)
      ultimately show ?thesis by simp
    qed
    with ok k1 c' a1 q(1) Some show ?thesis by (auto simp: added_def ps(2))
  qed
qed

section \<open>What a search finds\<close>

fun term_fields :: "domain_term \<Rightarrow> string set" where
  "term_fields (Leaf k op v) = {k}"
| "term_fields (Either a b) = term_fields a \<union> term_fields b"

lemma term_holds_cong: "(\<And>k. k \<in> term_fields t \<Longrightarrow> fld k p = fld k q) \<Longrightarrow> term_holds env p t = term_holds env q t"
proof (induction t)
  case (Leaf k op v)
  then show ?case by (cases op) (simp_all cong: pyval.case_cong)
qed simp

definition holds :: "partner_env \<Rightarrow> domain_term list \<Rightarrow> fields \<Rightarrow> bool" where
  "holds env domain p \<longleftrightarrow> py_true (fld ''active'' p) \<and> (\<forall>t\<in>set domain. term_holds env p t)"

lemma search_holds: "search_partners env domain d = filter (holds env domain) (pd_partners d)"
  by (simp add: search_partners_def holds_def [abs_def])

lemma build_fields:
  "\<Union> (term_fields ` set (build_search_domain env cs vals)) \<subseteq> fst ` set cs \<union>
    (if ''email'' \<in> fst ` set cs then {''email_normalized''} else {}) \<union> (if ''phone'' \<in> fst ` set cs then {''phone_sanitized''} else {})"
proof -
  have "\<Union> (term_fields ` set (criterion_terms env vals k op)) \<subseteq>
      {k} \<union> (if k = ''email'' then {''email_normalized''} else {}) \<union> (if k = ''phone'' then {''phone_sanitized''} else {})" for k op
    by (simp add: criterion_terms_def Let_def false_term_def)
  note one = this
  have "x \<in> fst ` set cs \<union> (if ''email'' \<in> fst ` set cs then {''email_normalized''} else {}) \<union>
      (if ''phone'' \<in> fst ` set cs then {''phone_sanitized''} else {})"
    if "(k, op) \<in> set cs" "t \<in> set (criterion_terms env vals k op)" "x \<in> term_fields t" for x t k op
  proof -
    have k: "k \<in> fst ` set cs" using that(1) by force
    have "x \<in> {k} \<union> (if k = ''email'' then {''email_normalized''} else {}) \<union> (if k = ''phone'' then {''phone_sanitized''} else {})"
      using one [of k op] that(2,3) by blast
    with k show ?thesis by (cases "k = ''email''"; cases "k = ''phone''") auto
  qed
  note two = this
  show ?thesis
  proof (rule subsetI)
    fix x assume "x \<in> \<Union> (term_fields ` set (build_search_domain env cs vals))"
    then obtain k op t where "(k, op) \<in> set cs" "t \<in> set (criterion_terms env vals k op)" "x \<in> term_fields t"
      unfolding build_search_domain_def by auto
    then show "x \<in> fst ` set cs \<union> (if ''email'' \<in> fst ` set cs then {''email_normalized''} else {}) \<union>
      (if ''phone'' \<in> fst ` set cs then {''phone_sanitized''} else {})" by (rule two)
  qed
qed

text \<open>What single criteria say.\<close>

definition criterion :: "partner_env \<Rightarrow> fields \<Rightarrow> fields \<Rightarrow> string \<times> domain_op \<Rightarrow> bool" where
  "criterion env vals p c \<longleftrightarrow> (\<forall>t\<in>set (criterion_terms env vals (fst c) (snd c)). term_holds env p t)"

lemma holds_build:
  "holds env (build_search_domain env cs vals) p \<longleftrightarrow> py_true (fld ''active'' p) \<and> (\<forall>c\<in>set cs. criterion env vals p c)"
  by (auto simp: holds_def build_search_domain_def criterion_def)

lemma criterion_false: "\<not> py_true (dict_get (PStr []) vals k) \<Longrightarrow> criterion env vals p (k, op) \<longleftrightarrow> \<not> py_true (fld k p)"
  by (simp add: criterion_def criterion_terms_def false_term_def same_value_def)

lemma criterion_equal:
  assumes "py_true (dict_get (PStr []) vals k)" and "k \<notin> {''email'', ''phone'', ''company_id''}"
  shows "criterion env vals p (k, OpEq) \<longleftrightarrow> fld k p = dict_get (PStr []) vals k"
proof -
  have "(case (v, OpEq) of (PStr s, OpIlike) \<Rightarrow> PStr (pn_escape env s) | _ \<Rightarrow> v) = v" for v by (simp split: pyval.split)
  with assms show ?thesis by (auto simp: criterion_def criterion_terms_def Let_def same_value_def)
qed

lemma criterion_company:
  assumes "dict_get (PStr []) vals ''company_id'' = PInt n" and "n \<noteq> 0"
  shows "criterion env vals p (''company_id'', OpIn) \<longleftrightarrow> fld ''company_id'' p = PInt n \<or> \<not> py_true (fld ''company_id'' p)"
  by (auto simp: criterion_def criterion_terms_def Let_def same_value_def assms)

lemma criterion_text:
  assumes "orm_ok env" and "dict_get (PStr []) vals k = PStr s" and "fld k p = PStr s" and "k \<notin> {''email'', ''phone'', ''company_id''}"
  shows "criterion env vals p (k, OpIlike)"
proof (cases "s = []")
  case True
  then show ?thesis using assms by (simp add: criterion_false)
next
  case False
  then have "pn_escape env s \<noteq> []" "pn_ilike env s (pn_escape env s)" using assms(1) by (auto simp: orm_ok_def)
  with False assms show ?thesis by (simp add: criterion_def criterion_terms_def Let_def)
qed

section \<open>The contact of a company\<close>

text \<open>Whether a contact belongs to the company of the integration or to none.\<close>

definition in_company :: "partner_env \<Rightarrow> fields \<Rightarrow> bool" where
  "in_company env p \<longleftrightarrow> rec_id ''company_id'' p \<in> {None, Some (pn_company env)}"

lemma in_companyI: "fld ''company_id'' p = PInt (pn_company env) \<or> \<not> py_true (fld ''company_id'' p) \<Longrightarrow> in_company env p"
  by (auto simp: in_company_def rec_id_def split: pyval.split)

lemma map_of_with_lang: "with_lang env p vals = Inr vals' \<Longrightarrow> k \<noteq> ''lang'' \<Longrightarrow> map_of vals' k = map_of vals k"
  by (auto simp: with_lang_def rbind_eq_Inr split: if_splits)

lemma get_vat_values:
  assumes "get_vat env p = Inr (vat, p1)"
  shows "(vat = [] \<or> (\<exists>k v. vat = [(k, PStr v)] \<and> v \<noteq> [] \<and> pn_vat_field env = Some k)) \<and> p1 = p\<lparr>px_vat_verified := px_vat_verified p1\<rparr>"
  using assms by (auto simp: get_vat_def Let_def rbind_eq_Inr split: option.splits if_splits bool.splits)

lemma company_vals:
  assumes "shop_ok env" and "prepare_company_vals env p = Inr (vals, p1)"
  shows "map_of vals ''name'' = Some (PStr (px ''company_name'' p)) \<and> map_of vals ''is_company'' = Some (PBool True) \<and>
    map_of vals ''company_id'' = Some (PInt (pn_company env)) \<and> map_of vals ''parent_id'' = Some (PBool False) \<and>
    p1 = p\<lparr>px_vat_verified := px_vat_verified p1\<rparr>"
proof -
  obtain v vat where v: "with_lang env p [(''name'', PStr (px ''company_name'' p)), (''parent_id'', PBool False), (''is_company'', PBool True),
       (''company_id'', PInt (pn_company env))] = Inr v" "get_vat env p = Inr (vat, p1)" "vals = dict_update v vat"
    using assms(2) by (auto simp: prepare_company_vals_def rbind_eq_Inr)
  have "fst ` set vat \<inter> own_fields = {}" using get_vat_values [OF v(2)] assms(1) by (auto simp: shop_ok_def)
  moreover have "{''name'', ''is_company'', ''company_id'', ''parent_id''} \<subseteq> own_fields" by (simp add: own_fields_def given_fields_def)
  ultimately have n: "map_of vat k = None" if "k \<in> {''name'', ''is_company'', ''company_id'', ''parent_id''}" for k
    using that by (auto simp: map_of_eq_None_iff)
  have "distinct (map fst vat)" using get_vat_values [OF v(2)] by auto
  then have "map_of vals k = map_of v k" if "k \<in> {''name'', ''is_company'', ''company_id'', ''parent_id''}" for k
    using n [OF that] by (simp add: v(3) map_of_dict_update map_add_def)
  with map_of_with_lang [OF v(1)] get_vat_values [OF v(2)] show ?thesis by auto
qed

text \<open>The domain of a company speaks of its core only, and only companies satisfy it.\<close>

lemma company_domain:
  obtains cs where "company_search_domain env vals = build_search_domain env cs vals"
    "fst ` set cs \<subseteq> {''name'', ''is_company'', ''company_id''} \<union> set_option (pn_vat_field env)"
    "{(''is_company'', OpEq), (''company_id'', OpIn)} \<subseteq> set cs"
    "set cs \<subseteq> {(''name'', OpIlike), (''is_company'', OpEq), (''company_id'', OpIn)} \<union> (\<lambda>k. (k, OpEq)) ` set_option (pn_vat_field env)"
    "\<forall>k. pn_vat_field env = Some k \<and> (k, OpEq) \<in> set cs \<longrightarrow> py_true (dict_get PNone vals k) \<or> k = ''is_company''"
proof (cases "\<exists>k. pn_vat_field env = Some k \<and> py_true (dict_get PNone vals k)")
  case False
  then show ?thesis by (intro that [of MANDATORY_COMPANY_SEARCH_CRITERIA])
      (auto simp: company_search_domain_def MANDATORY_COMPANY_SEARCH_CRITERIA_def split: option.splits)
next
  case True
  then obtain k where k: "pn_vat_field env = Some k" "py_true (dict_get PNone vals k)" by blast
  then show ?thesis
    by (intro that [of "if pn_vat_only env then [(k, OpEq), (''is_company'', OpEq), (''company_id'', OpIn)]
        else MANDATORY_COMPANY_SEARCH_CRITERIA @ [(k, OpEq)]"])
      (auto simp: company_search_domain_def MANDATORY_COMPANY_SEARCH_CRITERIA_def)
qed

lemma company_holds_core:
  assumes "shop_ok env" and "same_core env p q"
  shows "holds env (company_search_domain env vals) p = holds env (company_search_domain env vals) q"
proof -
  obtain cs where cs: "company_search_domain env vals = build_search_domain env cs vals"
    "fst ` set cs \<subseteq> {''name'', ''is_company'', ''company_id''} \<union> set_option (pn_vat_field env)" by (rule company_domain)
  have "{''email'', ''phone''} \<subseteq> own_fields"
    by (simp add: own_fields_def address_match_fields_def ADDRESS_MATCH_SIMPLE_FIELDS_def)
  then have "{''email'', ''phone''} \<inter> fst ` set cs = {}" using cs(2) assms(1) by (auto simp: shop_ok_def)
  then have "\<Union> (term_fields ` set (company_search_domain env vals)) \<subseteq> core_fields env"
    using build_fields [of env cs vals] cs by (auto simp: core_fields_def given_fields_def)
  then have "term_holds env p t = term_holds env q t" if "t \<in> set (company_search_domain env vals)" for t
    using that assms(2) by (intro term_holds_cong same_core_fld) auto
  then show ?thesis using assms(2) by (simp add: holds_def same_core_fld)
qed

lemma company_holds:
  assumes "shop_ok env" and "prepare_company_vals env p = Inr (vals, p1)" and "holds env (company_search_domain env vals) x"
  shows "fld ''is_company'' x = PBool True \<and> in_company env x \<and> py_true (fld ''active'' x)"
proof -
  obtain cs where cs: "company_search_domain env vals = build_search_domain env cs vals"
    "{(''is_company'', OpEq), (''company_id'', OpIn)} \<subseteq> set cs" by (rule company_domain)
  have v: "dict_get (PStr []) vals ''is_company'' = PBool True" "dict_get (PStr []) vals ''company_id'' = PInt (pn_company env)"
    using company_vals [OF assms(1,2)] by (simp_all add: dict_get_def)
  have n: "pn_company env \<noteq> 0" using assms(1) by (simp add: shop_ok_def)
  have h: "py_true (fld ''active'' x)" "criterion env vals x (''is_company'', OpEq)" "criterion env vals x (''company_id'', OpIn)"
    using assms(3) cs(2) by (auto simp: cs(1) holds_build)
  with criterion_equal [of vals "''is_company''" env x] criterion_company [OF v(2) n, of env x] v(1) in_companyI [of x env] show ?thesis
    by simp
qed

text \<open>A search for the company finds this contact first.\<close>

definition company_found :: "partner_env \<Rightarrow> proxy \<Rightarrow> int \<Rightarrow> fields list \<Rightarrow> bool" where
  "company_found env p c ps \<longleftrightarrow> (\<exists>vals p1 x xs. prepare_company_vals env p = Inr (vals, p1) \<and>
     default_order env (filter (holds env (company_search_domain env vals)) ps) = x # xs \<and> partner_id x = c)"

lemma insort_same_core:
  assumes "orm_ok env" and "same_core env x y"
  shows "list_all2 (same_core env) xs ys \<Longrightarrow> list_all2 (same_core env) (insort_key (pn_rank env) x xs) (insort_key (pn_rank env) y ys)"
proof (induction xs ys rule: list_all2_induct)
  case (Cons a xs b ys)
  have "pn_rank env x = pn_rank env y" "pn_rank env a = pn_rank env b"
    using assms Cons(1) unfolding orm_ok_def by blast+
  then show ?case using Cons assms(2) by auto
qed (use assms(2) in simp)

lemma order_same_core:
  assumes "orm_ok env" and "list_all2 (same_core env) xs ys"
  shows "list_all2 (same_core env) (default_order env xs) (default_order env ys)"
proof -
  have "list_all2 (same_core env) us vs \<Longrightarrow> list_all2 (same_core env) (sort_key (pn_rank env) us) (sort_key (pn_rank env) vs)" for us vs
    by (induction us vs rule: list_all2_induct) (auto intro: insort_same_core [OF assms(1)])
  then show ?thesis using assms(2) by (simp add: default_order_def)
qed

lemma filter_same_core:
  "list_all2 (same_core env) xs ys \<Longrightarrow> (\<And>x y. same_core env x y \<Longrightarrow> P x = P y) \<Longrightarrow>
    list_all2 (same_core env) (filter P xs) (filter P ys)"
  by (induction xs ys rule: list_all2_induct) auto

lemma company_found_grown:
  assumes "orm_ok env" and "shop_ok env" and "company_found env p c ps" and "grown env False ps ps'"
  shows "company_found env p c ps'"
proof -
  obtain vals p1 x xs where v: "prepare_company_vals env p = Inr (vals, p1)"
    "default_order env (filter (holds env (company_search_domain env vals)) ps) = x # xs" "partner_id x = c"
    using assms(3) by (auto simp: company_found_def)
  let ?P = "holds env (company_search_domain env vals)"
  obtain qs new where q: "ps' = qs @ new" "list_all2 (same_core env) qs ps" "\<forall>p\<in>set new. \<not> py_true (fld ''is_company'' p)"
    using assms(4) by (auto simp: grown_def)
  have "filter ?P new = []" using company_holds [OF assms(2) v(1)] q(3) by (fastforce simp: filter_empty_conv)
  then have "list_all2 (same_core env) (filter ?P ps') (filter ?P ps)"
    using filter_same_core [OF q(2), of ?P] company_holds_core [OF assms(2)] by (simp add: q(1))
  from order_same_core [OF assms(1) this] v(2) obtain y ys where y: "default_order env (filter ?P ps') = y # ys" "same_core env y x"
    by (auto simp: list_all2_Cons2)
  with v(1,3) show ?thesis by (auto simp: company_found_def same_core_id)
qed

lemma tag_kept: "get_integration_tag env d = Inr (tags, d') \<Longrightarrow> pd_partners d' = pd_partners d \<and> pd_mapping d' = pd_mapping d"
  by (auto simp: get_integration_tag_def split: option.splits list.splits)

text \<open>A company that is created satisfies the search for it.\<close>

lemma created_company_holds:
  assumes "orm_ok env" and "shop_ok env" and v: "prepare_company_vals env p = Inr (vals, p1)"
    and c: "created i vals x" and n: "\<And>k. pn_vat_field env = Some k \<Longrightarrow> py_true (dict_get (PStr []) vals k) \<Longrightarrow>
      fld k x = dict_get (PStr []) vals k"
  shows "holds env (company_search_domain env vals) x"
proof -
  obtain cs where cs: "company_search_domain env vals = build_search_domain env cs vals"
    "set cs \<subseteq> {(''name'', OpIlike), (''is_company'', OpEq), (''company_id'', OpIn)} \<union> (\<lambda>k. (k, OpEq)) ` set_option (pn_vat_field env)"
    "\<forall>k. pn_vat_field env = Some k \<and> (k, OpEq) \<in> set cs \<longrightarrow> py_true (dict_get PNone vals k) \<or> k = ''is_company''"
    by (rule company_domain)
  note m = company_vals [OF assms(2) v]
  have keys: "k \<in> fst ` set vals" if "map_of vals k = Some y" for k y using that by (metis map_of_SomeD fst_conv image_eqI)
  have x: "fld ''name'' x = PStr (px ''company_name'' p)" "fld ''is_company'' x = PBool True" "fld ''company_id'' x = PInt (pn_company env)"
    using c m keys by (auto simp: created_def given_fields_def fld_def)
  have "criterion env vals x (''name'', OpIlike)"
    by (rule criterion_text [OF assms(1)]) (use m x in \<open>auto simp: dict_get_def\<close>)
  moreover have "criterion env vals x (''is_company'', OpEq)" using m x by (subst criterion_equal) (auto simp: dict_get_def)
  moreover have "criterion env vals x (''company_id'', OpIn)"
    by (subst criterion_company) (use m x assms(2) in \<open>auto simp: dict_get_def shop_ok_def\<close>)
  moreover have "criterion env vals x (k, OpEq)" if k: "pn_vat_field env = Some k" "(k, OpEq) \<in> set cs" for k
  proof -
    have own: "k \<notin> own_fields" using assms(2) k(1) by (simp add: shop_ok_def)
    then have "k \<noteq> ''is_company''" "k \<notin> {''email'', ''phone'', ''company_id''}"
      by (auto simp: own_fields_def given_fields_def address_match_fields_def ADDRESS_MATCH_SIMPLE_FIELDS_def)
    with cs(3) k have t: "py_true (dict_get PNone vals k)" by blast
    then have e: "dict_get (PStr []) vals k = dict_get PNone vals k" by (auto simp: dict_get_def split: option.splits)
    show ?thesis using n [OF k(1)] t e \<open>k \<notin> {''email'', ''phone'', ''company_id''}\<close> by (simp add: criterion_equal)
  qed
  ultimately have "\<forall>c\<in>set cs. criterion env vals x c" using cs(2) by (auto dest!: subsetD)
  moreover have "py_true (fld ''active'' x)" using c by (simp add: created_def)
  ultimately show ?thesis by (simp add: cs(1) holds_build)
qed

lemma create_company_found:
  assumes "orm_ok env" and "shop_ok env" and "partners_ok d" and v: "prepare_company_vals env p = Inr (vals, p1)"
    and none: "filter (holds env (company_search_domain env vals)) (pd_partners d) = []" and "create_company env vals d = Inr (c, d')"
  shows "company_found env p c (pd_partners d') \<and> grown env True (pd_partners d) (pd_partners d') \<and> partners_ok d' \<and>
    pd_mapping d' = pd_mapping d"
proof -
  obtain tags d1 nv where t: "get_integration_tag env d = Inr (tags, d1)"
    and w: "create_with_number env nv (pn_vat_field env) (dict_set ''category_id'' (tag_command tags) vals) d1 = Inr (c, d')"
    using assms(6) by (auto simp: create_company_def rbind_eq_Inr Let_def)
  let ?vals = "dict_set ''category_id'' (tag_command tags) vals"
  have d1: "pd_partners d1 = pd_partners d" "pd_mapping d1 = pd_mapping d" using tag_kept [OF t] by simp_all
  then have "partners_ok d1" using assms(3) by (simp add: partners_ok_def)
  note a = create_with_number_added [OF assms(1) this w]
  have vat: "set_option (pn_vat_field env) \<inter> own_fields = {}" using assms(2) by (simp add: shop_ok_def)
  with a have a1: "added env c ?vals d1 d'"
    and num: "\<And>k. pn_vat_field env = Some k \<Longrightarrow> py_true (dict_get (PStr []) ?vals k) \<Longrightarrow> fld k (partner_of c d') = dict_get (PStr []) ?vals k"
    by blast+
  then obtain qs x where x: "pd_partners d' = qs @ [x]" "list_all2 (same_core env) qs (pd_partners d)" "created c ?vals x"
    "partners_ok d'" "pd_mapping d' = pd_mapping d" by (auto simp: added_def d1)
  have g: "''category_id'' \<notin> given_fields" "''category_id'' \<in> own_fields" by (simp_all add: given_fields_def own_fields_def)
  have k: "dict_get (PStr []) ?vals k = dict_get (PStr []) vals k" if "pn_vat_field env = Some k" for k
    using that vat g(2) by (auto simp: dict_get_def)
  have c: "created c vals x"
  proof -
    have "created c ?vals x \<longleftrightarrow> created c vals x"
      by (rule created_cong) (use g(1) in \<open>auto simp: fst_dict_set fld_def\<close>)
    with x(3) show ?thesis by simp
  qed
  have of: "partner_of c d' = x" using partner_of_in [OF x(4), of x] created_id [OF c] x(1) by simp
  have h: "holds env (company_search_domain env vals) x"
    by (rule created_company_holds [OF assms(1,2) v c]) (use num k of in auto)
  have "list_all2 (same_core env) (filter (holds env (company_search_domain env vals)) qs) []"
    using filter_same_core [OF x(2), of "holds env (company_search_domain env vals)"] company_holds_core [OF assms(2)] none by simp
  then have "filter (holds env (company_search_domain env vals)) (pd_partners d') = [x]" using h x(1) by simp
  then have "company_found env p c (pd_partners d')" using v created_id [OF c] by (auto simp: company_found_def default_order_def)
  moreover have "grown env True (pd_partners d) (pd_partners d')"
    unfolding grown_def using x(1,2) by (intro exI [of _ qs] exI [of _ "[x]"]) simp
  ultimately show ?thesis using x(4,5) by simp
qed

text \<open>The proxy keeps what it was made from.\<close>

definition same_data :: "proxy \<Rightarrow> proxy \<Rightarrow> bool" where
  "same_data p q \<longleftrightarrow> px_vals p = px_vals q \<and> px_external p = px_external q \<and> px_type p = px_type q"

lemma same_data_vals: "same_data p q \<Longrightarrow> px_company_partner p = px_company_partner q \<Longrightarrow>
    p\<lparr>px_partner := a, px_vat_verified := b\<rparr> = q\<lparr>px_partner := a, px_vat_verified := b\<rparr>"
  by (simp add: same_data_def)

lemma country_same: "px_vals p = px_vals q \<Longrightarrow> find_odoo_country env p = find_odoo_country env q"
  by (simp add: find_odoo_country_def)

lemma get_vat_same:
  assumes "px_vals p = px_vals q"
  shows "map_sum id fst (get_vat env p) = map_sum id fst (get_vat env q)"
proof -
  note c = country_same [OF assms, of env]
  let ?vat = "filter (\<lambda>c. c \<noteq> CHR '' '' \<and> c \<noteq> CHR ''-'') (px ''company_reg_number'' q)"
  show ?thesis
  proof (cases "pn_vat_field env = None \<or> ?vat = []")
    case True
    then show ?thesis by (auto simp: get_vat_def assms split: option.split)
  next
    case False
    then obtain k where k: "pn_vat_field env = Some k" by auto
    show ?thesis
    proof (cases "find_odoo_country env q")
      case (Inr x)
      have "(case validate_vat env ?vat x of Some True \<Rightarrow> Inr ([(k, PStr ?vat)], p) | None \<Rightarrow> Inr ([], p\<lparr>px_vat_verified := False\<rparr>)
          | Some False \<Rightarrow> Inr ([], p)) = (Inr (if validate_vat env ?vat x = Some True then [(k, PStr ?vat)] else [],
            if validate_vat env ?vat x = None then p\<lparr>px_vat_verified := False\<rparr> else p) :: (fields \<times> proxy) partnered)" for p
        by (auto split: option.split bool.split)
      then show ?thesis using False k Inr by (simp add: get_vat_def assms c Let_def)
    qed (use False k c in \<open>simp add: get_vat_def assms Let_def\<close>)
  qed
qed

lemma company_vals_same:
  assumes "px_vals p = px_vals q" and "prepare_company_vals env p = Inr (vals, p1)"
  shows "\<exists>q1. prepare_company_vals env q = Inr (vals, q1)"
proof -
  have l: "with_lang env p v = with_lang env q v" for v by (simp add: with_lang_def assms(1))
  obtain v vat where v: "with_lang env p [(''name'', PStr (px ''company_name'' p)), (''parent_id'', PBool False), (''is_company'', PBool True),
       (''company_id'', PInt (pn_company env))] = Inr v" "get_vat env p = Inr (vat, p1)" "vals = dict_update v vat"
    using assms(2) by (auto simp: prepare_company_vals_def rbind_eq_Inr)
  obtain q1 where "get_vat env q = Inr (vat, q1)"
    using get_vat_same [OF assms(1), of env] v(2) by (cases "get_vat env q") auto
  then have "prepare_company_vals env q = Inr (vals, q1)" using v(1,3) by (simp add: prepare_company_vals_def assms(1) l)
  then show ?thesis ..
qed

lemma company_found_same: "px_vals p = px_vals q \<Longrightarrow> company_found env p c ps \<longleftrightarrow> company_found env q c ps"
  unfolding company_found_def using company_vals_same [of p q env] company_vals_same [of q p env] by metis

lemma company_found_unique: "company_found env p c ps \<Longrightarrow> company_found env p c' ps \<Longrightarrow> c = c'"
  by (auto simp: company_found_def)

text \<open>What is found is a company of the shop.\<close>

lemma company_found_facts:
  assumes "shop_ok env" and "partners_ok d" and "company_found env p c (pd_partners d)"
  shows "c \<in> partner_id ` set (pd_partners d) \<and> fld ''is_company'' (partner_of c d) = PBool True \<and>
    in_company env (partner_of c d) \<and> py_true (fld ''active'' (partner_of c d)) \<and> 0 < c"
proof -
  obtain vals p1 x xs where v: "prepare_company_vals env p = Inr (vals, p1)"
    "default_order env (filter (holds env (company_search_domain env vals)) (pd_partners d)) = x # xs" "partner_id x = c"
    using assms(3) by (auto simp: company_found_def)
  have "set (default_order env (filter (holds env (company_search_domain env vals)) (pd_partners d))) =
      set (filter (holds env (company_search_domain env vals)) (pd_partners d))" by (simp add: default_order_def)
  with v(2) have "x \<in> set (filter (holds env (company_search_domain env vals)) (pd_partners d))" by (metis list.set_intros(1))
  then have x: "x \<in> set (pd_partners d)" "holds env (company_search_domain env vals) x" by simp_all
  have "0 < partner_id x" using assms(2) x(1) by (auto simp: partners_ok_def partner_id_def)
  moreover have "partner_id x \<in> partner_id ` set (pd_partners d)" using x(1) by (rule imageI)
  ultimately show ?thesis using company_holds [OF assms(1) v(1) x(2)] partner_of_in [OF assms(2) x(1)] v(3) by simp
qed

lemma get_or_create_company_ok:
  assumes "orm_ok env" and "shop_ok env" and "partners_ok d" and "get_or_create_company env p d = Inr (c, p1, d1)"
    and "\<And>x. px_company_partner p = Some x \<Longrightarrow> company_found env p x (pd_partners d)"
  shows "company_found env p c (pd_partners d1) \<and> grown env True (pd_partners d) (pd_partners d1) \<and> partners_ok d1 \<and>
    pd_mapping d1 = pd_mapping d \<and> same_data p1 p \<and> px_company_partner p1 = Some c \<and> px_partner p1 = px_partner p \<and>
    (\<forall>x. company_found env p x (pd_partners d) \<longrightarrow> c = x \<and> list_all2 (same_core env) (pd_partners d1) (pd_partners d))"
proof (cases "px_company_partner p")
  case (Some x)
  with assms(4) have "c = x" "p1 = p" "d1 = d" by (auto simp: get_or_create_company_def)
  with Some assms(3,5) company_found_unique [of env p] show ?thesis by (auto simp: same_data_def)
next
  case None
  obtain vals p2 d2 where v: "prepare_company_vals env p = Inr (vals, p2)"
    and c: "(case default_order env (search_partners env (company_search_domain env vals) d) of
        [] \<Rightarrow> create_company env vals d | x # _ \<Rightarrow> Inr (partner_id x, d)) = Inr (c, d2)"
    and w: "write_address_if_empty env p2 c d2 = Inr d1" and p1: "p1 = p2\<lparr>px_company_partner := Some c\<rparr>"
    using assms(4) None by (auto simp: get_or_create_company_def rbind_eq_Inr)
  have p2: "p2 = p\<lparr>px_vat_verified := px_vat_verified p2\<rparr>" using company_vals [OF assms(2) v] by blast
  then have p1': "same_data p1 p" "px_partner p1 = px_partner p" "px_company_partner p1 = Some c"
    by (metis (no_types, lifting) p1 same_data_def proxy.select_convs proxy.surjective proxy.update_convs)+
  note k = write_address_kept [OF assms(1,2) w]
  let ?f = "filter (holds env (company_search_domain env vals)) (pd_partners d)"
  have "company_found env p c (pd_partners d2) \<and> grown env True (pd_partners d) (pd_partners d2) \<and> partners_ok d2 \<and>
      pd_mapping d2 = pd_mapping d \<and> (\<forall>x. company_found env p x (pd_partners d) \<longrightarrow> c = x \<and> d2 = d)"
  proof (cases "default_order env ?f")
    case Nil
    then have "set ?f = {}" by (metis default_order_def set_rev set_sort set_empty)
    then have f: "?f = []" by simp
    have "create_company env vals d = Inr (c, d2)" using c Nil by (simp add: search_holds)
    from create_company_found [OF assms(1-3) v f this] show ?thesis using v Nil by (auto simp: company_found_def)
  next
    case (Cons x xs)
    then show ?thesis using c v assms(3) by (auto simp: search_holds company_found_def)
  qed
  moreover have "company_found env p c (pd_partners d1)" if "company_found env p c (pd_partners d2)"
    using company_found_grown [OF assms(1,2) that grown_kept] k by blast
  moreover have "grown env True (pd_partners d) (pd_partners d1)" if "grown env True (pd_partners d) (pd_partners d2)"
    using grown_trans [OF that grown_kept] k by blast
  ultimately show ?thesis using k partners_kept_ok [of env d1 d2] p1' by auto
qed

end
