(* ===== verification/CustomerFacts.thy ===== *)
theory CustomerFacts
  imports PartnerFacts
begin

text \<open>
  Lemmas on the contact of a customer: what its search finds, what its creation makes, which contact its mapping is
  accepted for, and that the second order of a customer finds what the first one left.
\<close>

section \<open>The contact that is looked for\<close>

text \<open>A person of the shop's company, below a company if one is given.\<close>

definition person_of :: "partner_env \<Rightarrow> int option \<Rightarrow> fields \<Rightarrow> bool" where
  "person_of env par x \<longleftrightarrow> py_true (fld ''active'' x) \<and> \<not> py_true (fld ''is_company'' x) \<and> in_company env x \<and>
     (par = None \<or> rec_id ''parent_id'' x = par)"

lemma person_of_core: "same_core env x y \<Longrightarrow> person_of env par x = person_of env par y"
  by (simp add: person_of_def in_company_def rec_id_def same_core_fld)

lemma map_of_set_text: "k \<noteq> j \<Longrightarrow> map_of (set_text j s vals) k = map_of vals k"
  by (simp add: set_text_def)

lemma map_of_with_place:
  assumes "with_place env p vals = Inr vals'" and "k \<notin> {''country_id'', ''state_id''}"
  shows "map_of vals' k = map_of vals k"
proof -
  obtain c s where "vals' = (let v = (case c of None \<Rightarrow> vals | Some x \<Rightarrow> dict_set ''country_id'' (PInt x) vals)
      in case s of None \<Rightarrow> v | Some x \<Rightarrow> dict_set ''state_id'' (PInt x) v)"
    using assms(1) by (auto simp: with_place_def rbind_eq_Inr Let_def)
  then show ?thesis using assms(2) by (cases c; cases s) auto
qed

lemma map_of_address: "k \<notin> set ADDRESS_MATCH_SIMPLE_FIELDS \<Longrightarrow> map_of (dict_update vals (simple_address p)) k = map_of vals k"
proof -
  have "distinct (map fst (simple_address p))" by (simp add: simple_address_def comp_def ADDRESS_MATCH_SIMPLE_FIELDS_def)
  moreover assume "k \<notin> set ADDRESS_MATCH_SIMPLE_FIELDS"
  then have "map_of (simple_address p) k = None" using simple_address_keys [of p] by (simp add: map_of_eq_None_iff)
  ultimately show ?thesis by (simp add: map_of_dict_update map_add_def)
qed

lemma map_of_address_vals:
  assumes "with_place env p (dict_update vals (simple_address p)) = Inr v" and "with_lang env p v = Inr vals'" and "k \<in> given_fields"
  shows "map_of vals' k = map_of vals k"
proof -
  have k: "k \<notin> {''country_id'', ''state_id''}" "k \<notin> set ADDRESS_MATCH_SIMPLE_FIELDS" "k \<noteq> ''lang''"
    using assms(3) by (auto simp: given_fields_def ADDRESS_MATCH_SIMPLE_FIELDS_def)
  show ?thesis using map_of_with_lang [OF assms(2) k(3)] map_of_with_place [OF assms(1) k(1)] map_of_address [OF k(2)] by simp
qed

text \<open>The company of a proxy, if it names one.\<close>

definition company_of :: "partner_env \<Rightarrow> proxy \<Rightarrow> int option \<Rightarrow> partner_db \<Rightarrow> bool" where
  "company_of env p par d \<longleftrightarrow>
     (if px ''company_name'' p = [] then par = None else \<exists>c. par = Some c \<and> company_found env p c (pd_partners d))"

lemma company_of_grown:
  "orm_ok env \<Longrightarrow> shop_ok env \<Longrightarrow> company_of env p par d \<Longrightarrow> grown env False (pd_partners d) (pd_partners d') \<Longrightarrow> company_of env p par d'"
  by (auto simp: company_of_def intro: company_found_grown split: if_splits)

lemma company_of_same: "px_vals p = px_vals q \<Longrightarrow> company_of env p par d = company_of env q par d"
  using company_found_same [of p q env] by (simp add: company_of_def)

definition known_company :: "partner_env \<Rightarrow> proxy \<Rightarrow> partner_db \<Rightarrow> bool" where
  "known_company env p d \<longleftrightarrow> (\<forall>x. px_company_partner p = Some x \<longrightarrow> company_found env p x (pd_partners d))"

lemma prepare_partner_vals_ok:
  assumes "orm_ok env" and "shop_ok env" and "partners_ok d" and "known_company env p d"
    and "prepare_partner_vals env p d = Inr (vals, p1, d1)"
  shows "\<exists>par. company_of env p1 par d1 \<and> map_of vals ''parent_id'' = Some (id_value par) \<and>
    map_of vals ''is_company'' = Some (PBool False) \<and> map_of vals ''company_id'' = Some (PInt (pn_company env)) \<and>
    grown env True (pd_partners d) (pd_partners d1) \<and> partners_ok d1 \<and> pd_mapping d1 = pd_mapping d \<and> same_data p1 p"
proof -
  obtain v3 v4 v5 where c: "(if px ''company_name'' p = [] then Inr (partner_base env p, p, d)
      else rbind (get_or_create_company env p d) (\<lambda>(c, p1, d1). Inr (dict_set ''parent_id'' (PInt c) (partner_base env p), p1, d1))) = Inr (v3, p1, d1)"
    and v4: "with_place env p1 (dict_update v3 (simple_address p1)) = Inr v4" "with_lang env p1 v4 = Inr v5"
    and vals: "vals = (case pn_person_field env of None \<Rightarrow> v5 | Some k \<Rightarrow> dict_set k (PStr (px ''person_id_number'' p1)) v5)"
    using assms(5) unfolding prepare_partner_vals_def
    by (elim rbindE) (auto elim!: rbindE split: prod.splits intro: that)
  have v2: "map_of (partner_base env p) ''parent_id'' = Some (PBool False)" "map_of (partner_base env p) ''is_company'' = Some (PBool False)"
    "map_of (partner_base env p) ''company_id'' = Some (PInt (pn_company env))"
    by (simp_all add: partner_base_def map_of_set_text Let_def)
  have "map_of vals k = map_of v5 k" if "k \<in> given_fields" for k
    using assms(2) that by (auto simp: vals shop_ok_def own_fields_def split: option.split)
  then have v: "map_of vals k = map_of v3 k" if "k \<in> given_fields" for k using map_of_address_vals [OF v4 that] that by simp
  have g: "''parent_id'' \<in> given_fields" "''is_company'' \<in> given_fields" "''company_id'' \<in> given_fields" by (simp_all add: given_fields_def)
  show ?thesis
  proof (cases "px ''company_name'' p = []")
    case True
    then show ?thesis using c v [OF g(1)] v [OF g(2)] v [OF g(3)] v2 assms(3)
      by (intro exI [of _ None]) (auto simp: company_of_def same_data_def id_value_def)
  next
    case False
    then obtain x where x: "get_or_create_company env p d = Inr (x, p1, d1)" "v3 = dict_set ''parent_id'' (PInt x) (partner_base env p)"
      using c by (auto simp: rbind_eq_Inr)
    have k: "\<And>x. px_company_partner p = Some x \<Longrightarrow> company_found env p x (pd_partners d)" using assms(4) by (simp add: known_company_def)
    note y = get_or_create_company_ok [OF assms(1-3) x(1) k]
    have "company_of env p1 (Some x) d1" using y False company_found_same [of p1 p env] by (simp add: company_of_def same_data_def)
    then show ?thesis using v [OF g(1)] v [OF g(2)] v [OF g(3)] v2 x(2) y
      by (intro exI [of _ "Some x"]) (auto simp: id_value_def)
  qed
qed

lemma partner_domain_cases:
  "partner_search_domain env p vals = [Leaf ''id'' OpEq (PBool False)] \<or>
    (\<exists>cs rest. partner_search_domain env p vals = build_search_domain env (MANDATORY_PARTNER_SEARCH_CRITERIA @ cs) vals @ rest)"
proof -
  have "partner_search_domain env p vals = [Leaf ''id'' OpEq (PBool False)] \<or> partner_search_domain env p vals = customer_domain env vals @ [] \<or>
      (\<exists>r. partner_search_domain env p vals = customer_domain env vals @ [r])"
    by (simp add: partner_search_domain_def split: option.split)
  then show ?thesis unfolding customer_domain_def by blast
qed

text \<open>What the search for a customer finds is a person below the company.\<close>

lemma found_person:
  assumes "shop_ok env" and "holds env (partner_search_domain env p vals) x" and "fld ''id'' x = PInt n" and "0 < n"
    and "map_of vals ''parent_id'' = Some (id_value par)" and "map_of vals ''is_company'' = Some (PBool False)"
    and "map_of vals ''company_id'' = Some (PInt (pn_company env))" and "\<forall>c. par = Some c \<longrightarrow> 0 < c"
  shows "person_of env par x"
proof -
  have "\<not> holds env [Leaf ''id'' OpEq (PBool False)] x" using assms(3,4) by (simp add: holds_def same_value_def)
  then obtain cs rest where d: "partner_search_domain env p vals = build_search_domain env (MANDATORY_PARTNER_SEARCH_CRITERIA @ cs) vals @ rest"
    using partner_domain_cases [of env p vals] assms(2) by metis
  have "holds env (build_search_domain env (MANDATORY_PARTNER_SEARCH_CRITERIA @ cs) vals) x" using assms(2) by (simp add: d holds_def)
  then have h: "py_true (fld ''active'' x)" "criterion env vals x (''parent_id'', OpEq)" "criterion env vals x (''is_company'', OpEq)"
    "criterion env vals x (''company_id'', OpIn)" by (simp_all add: holds_build MANDATORY_PARTNER_SEARCH_CRITERIA_def)
  have pc: "fld ''parent_id'' x = PInt c" if "par = Some c" for c
    using h(2) criterion_equal [of vals "''parent_id''" env x] assms(5,8) that by (simp add: dict_get_def id_value_def)
  have "\<not> py_true (fld ''is_company'' x)" using h(3) assms(6) by (simp add: criterion_false dict_get_def)
  moreover have "in_company env x"
    using h(4) criterion_company [of vals "pn_company env" env x] assms(1,7) by (intro in_companyI) (simp add: dict_get_def shop_ok_def)
  moreover have "par = None \<or> rec_id ''parent_id'' x = par" using pc assms(8) by (cases par) (auto simp: rec_id_def)
  ultimately show ?thesis using h(1) by (simp add: person_of_def)
qed

lemma created_person:
  assumes "created i vals x" and "map_of vals ''parent_id'' = Some (id_value par)" and "map_of vals ''is_company'' = Some (PBool False)"
    and "map_of vals ''company_id'' = Some (PInt (pn_company env))" and "\<forall>c. par = Some c \<longrightarrow> 0 < c"
  shows "person_of env par x"
proof -
  have keys: "k \<in> fst ` set vals" if "map_of vals k = Some y" for k y using that by (metis map_of_SomeD fst_conv image_eqI)
  have "fld ''is_company'' x = PBool False" "fld ''company_id'' x = PInt (pn_company env)" "fld ''parent_id'' x = id_value par"
    using assms keys by (auto simp: created_def given_fields_def fld_def id_value_def split: option.splits)
  moreover from this have "par = None \<or> rec_id ''parent_id'' x = par" using assms(5) by (cases par) (auto simp: rec_id_def id_value_def)
  ultimately show ?thesis using assms(1) in_companyI [of x env] by (simp add: person_of_def created_def)
qed

lemma search_or_create_partner_ok:
  assumes "orm_ok env" and "shop_ok env" and "partners_ok d" and "known_company env p d"
    and "search_or_create_partner env p d = Inr (i, p1, d')"
  shows "\<exists>par. company_of env p1 par d' \<and> i \<in> partner_id ` set (pd_partners d') \<and> person_of env par (partner_of i d') \<and>
    grown env True (pd_partners d) (pd_partners d') \<and> partners_ok d' \<and> pd_mapping d' = pd_mapping d \<and> same_data p1 p"
proof -
  obtain vals d1 where v: "prepare_partner_vals env p d = Inr (vals, p1, d1)"
    and s: "(case search_partners env (partner_search_domain env p1 vals) d1 of
       c # _ \<Rightarrow> rbind (write_address_if_empty env p1 (partner_id c) d1) (\<lambda>d2. Inr (partner_id c, p1, d2))
     | [] \<Rightarrow> rbind (create_partner env vals d1) (\<lambda>(i, d2). Inr (i, p1, d2))) = Inr (i, p1, d')"
  proof -
    obtain vals p2 d1 where v: "prepare_partner_vals env p d = Inr (vals, p2, d1)"
      using assms(5) by (auto simp: search_or_create_partner_def rbind_eq_Inr)
    have "p2 = p1" using assms(5) v by (auto simp: search_or_create_partner_def rbind_eq_Inr split: list.splits)
    with v assms(5) show ?thesis by (intro that) (simp_all add: search_or_create_partner_def)
  qed
  obtain par where k: "company_of env p1 par d1" "map_of vals ''parent_id'' = Some (id_value par)"
    "map_of vals ''is_company'' = Some (PBool False)" "map_of vals ''company_id'' = Some (PInt (pn_company env))"
    "grown env True (pd_partners d) (pd_partners d1)" "partners_ok d1" "pd_mapping d1 = pd_mapping d" "same_data p1 p"
    using prepare_partner_vals_ok [OF assms(1-4) v] by blast
  have pos: "\<forall>c. par = Some c \<longrightarrow> 0 < c"
    using k(1) company_found_facts [OF assms(2) k(6)] by (auto simp: company_of_def split: if_splits)
  show ?thesis
  proof (cases "search_partners env (partner_search_domain env p1 vals) d1")
    case (Cons c cs)
    then have c: "c \<in> set (pd_partners d1)" "holds env (partner_search_domain env p1 vals) c"
      by (auto simp: search_holds filter_eq_Cons_iff)
    then obtain n where "fld ''id'' c = PInt n" "0 < n" using k(6) by (auto simp: partners_ok_def)
    from found_person [OF assms(2) c(2) this k(2-4) pos] have f: "person_of env par c" .
    have w: "i = partner_id c" "write_address_if_empty env p1 i d1 = Inr d'" using s Cons by (auto simp: rbind_eq_Inr)
    note a = write_address_kept [OF assms(1,2) w(2)]
    have i: "i \<in> partner_id ` set (pd_partners d1)" using c(1) w(1) by simp
    have "same_core env (partner_of i d') c"
      using partner_of_grown [OF grown_kept i] a partner_of_in [OF k(6) c(1)] w(1) by auto
    then have "person_of env par (partner_of i d')" using f person_of_core by blast
    moreover have "grown env False (pd_partners d1) (pd_partners d')" "grown env True (pd_partners d1) (pd_partners d')" using a grown_kept by blast+
    moreover note company_of_grown [OF assms(1,2) k(1) this(1)] grown_ids [OF this(1)]
    ultimately show ?thesis using i a k partners_kept_ok [of env d' d1] grown_trans [of env True]
      by (intro exI [of _ par]) auto
  next
    case Nil
    then obtain tags d2 where t: "get_integration_tag env d1 = Inr (tags, d2)"
      and w: "create_with_number env (pn_ignore_vat env) (pn_person_field env) (dict_set ''category_id'' (tag_command tags) vals) d2 = Inr (i, d')"
      using s by (auto simp: create_partner_def rbind_eq_Inr)
    have d2: "pd_partners d2 = pd_partners d1" "pd_mapping d2 = pd_mapping d1" using tag_kept [OF t] by simp_all
    then have ok: "partners_ok d2" using k(6) by (simp add: partners_ok_def)
    have "added env i (dict_set ''category_id'' (tag_command tags) vals) d2 d'"
      using create_with_number_added [OF assms(1) ok w] assms(2) by (simp add: shop_ok_def)
    then obtain qs x where x: "pd_partners d' = qs @ [x]" "list_all2 (same_core env) qs (pd_partners d1)"
      "created i (dict_set ''category_id'' (tag_command tags) vals) x" "partners_ok d'" "pd_mapping d' = pd_mapping d1"
      by (auto simp: added_def d2)
    have f: "person_of env par x" by (rule created_person [OF x(3)]) (use k(2-4) pos in simp_all)
    have "partner_of i d' = x" "i \<in> partner_id ` set (pd_partners d')"
      using partner_of_in [OF x(4), of x] created_id [OF x(3)] x(1) by auto
    moreover have g: "grown env False (pd_partners d1) (pd_partners d')"
      unfolding grown_def using x(1,2) f by (intro exI [of _ qs] exI [of _ "[x]"]) (simp add: person_of_def)
    moreover note company_of_grown [OF assms(1,2) k(1) g] grown_trans [OF k(5) grown_weaken [OF g]]
    ultimately show ?thesis using f x(4,5) k(7,8) by (intro exI [of _ par]) simp
  qed
qed

section \<open>The mapping of the customer\<close>

lemma get_mapping_cases:
  assumes "mdb_ok d" and "code \<noteq> []"
  obtains "get_mapping i code d = Inr []"
    | x m where "get_mapping i code d = Inr [m]" "x \<in> set (md_externals d)" "ex_integration x = i" "ex_code x = code"
      "search_mappings i (ex_id x) d = [m]"
proof (cases "search_external i code d")
  case Nil
  then show ?thesis using that(1) assms(2) by (simp add: get_mapping_def search_mapping_from_external_def)
next
  case (Cons x xs)
  then have "x \<in> set (search_external i code d)" by simp
  then have x: "x \<in> set (md_externals d)" "ex_integration x = i" "ex_code x = code" by (simp_all add: search_external_def)
  then have e: "get_mapping i code d = Inr (search_mappings i (ex_id x) d)"
    using search_external_unique [OF assms(1) x(1)] assms(2) by (simp add: get_mapping_def search_mapping_from_external_def)
  from assms(1) show ?thesis
    by (rule search_mappings_cases [of d i "ex_id x"]) (use that e x in simp_all)
qed

lemma to_odoo_mapped:
  assumes "mdb_ok d" and "x \<in> set (md_externals d)" and "ex_integration x = in_id shop" and "ex_code x \<noteq> []"
    and "search_mappings (in_id shop) (ex_id x) d = [m]" and "mp_internal m = Some i"
  shows "to_odoo mm shop (ex_code x) b d = Inr [i]"
  using search_external_unique [OF assms(1,2)] assms(3-6)
  by (simp add: to_odoo_def get_mapping_def search_mapping_from_external_def get_internal_record_def internal_records_def List.map_filter_def)

lemma map_partner_ok:
  assumes "mdb_ok (pd_mapping d)" and "px_external p \<noteq> []" and "map_partner env p i d = Inr d'"
  shows "mdb_ok (pd_mapping d') \<and> to_odoo (pn_mapping env) (pn_shop env) (px_external p) b (pd_mapping d') = Inr [i] \<and>
    pd_partners d' = pd_partners d"
proof -
  let ?mm = "pn_mapping env" and ?i = "in_id (pn_shop env)" and ?m = "pd_mapping d"
  obtain ms ms' m' where ms: "get_mapping ?i (px_external p) ?m = Inr ms" and d': "d' = d\<lparr>pd_mapping := m'\<rparr>"
    and w: "(if ms \<noteq> [] then write_internal ?mm ms (Some i) ?m
       else create_integration_mapping ?mm ?i i (px_external p) (Some (Some (px ''person_name'' p)), None) ?m) = Inr (ms', m')"
    using assms(2,3) by (auto simp: map_partner_def Let_def lift_mapped_def rbind_eq_Inr split: sum.splits)
  from assms(1,2) show ?thesis
  proof (cases rule: get_mapping_cases [of ?m "px_external p" ?i])
    case 1
    then have "create_integration_mapping ?mm ?i i (px_external p) (Some (Some (px ''person_name'' p)), None) ?m = Inr (ms', m')"
      using ms w by simp
    from create_integration_mapping_mapped [OF this assms(1)] obtain x m d1 where x: "x \<in> set (md_externals m')" "ex_integration x = ?i"
      "ex_code x = px_external p" "mdb_ok m'" "mapped_to d1 m' ?i (ex_id x) (Some i) m" by auto
    then have "search_mappings ?i (ex_id x) m' = [m]" "mp_internal m = Some i" by (simp_all add: mapped_to_def)
    with to_odoo_mapped [OF x(4,1), of "pn_shop env" m i ?mm b] x assms(2) d' show ?thesis by simp
  next
    case (2 x m)
    then have "write_internal ?mm [m] (Some i) ?m = Inr (ms', m')" using ms w by simp
    from write_internal_mapped [OF this assms(1) 2(5)] obtain n where n: "mdb_ok m'" "md_externals m' = md_externals ?m"
      "mapped_to ?m m' ?i (ex_id x) (Some i) n" by auto
    then have "search_mappings ?i (ex_id x) m' = [n]" "mp_internal n = Some i" by (simp_all add: mapped_to_def)
    with to_odoo_mapped [OF n(1), of x "pn_shop env" n i ?mm b] 2 n(1,2) assms(2) d' show ?thesis by simp
  qed
qed

lemma configure_partner_ok:
  assumes "configure_partner env p i d = Inr (p', d')"
  shows "pd_partners d' = pd_partners d \<and> px_partner p' = Some i \<and> same_data p' p \<and>
    (px_external p \<noteq> [] \<and> mdb_ok (pd_mapping d) \<longrightarrow> mdb_ok (pd_mapping d') \<and>
      to_odoo (pn_mapping env) (pn_shop env) (px_external p) b (pd_mapping d') = Inr [i])"
proof -
  obtain d1 where d1: "(if px_external p = [] then Inr d
      else rbind (map_partner env p i d) (\<lambda>d1. Inr (link_external_partner env (px_external p) i d1))) = Inr d1"
    and p': "p' = p\<lparr>px_partner := Some i\<rparr>" "d' = set_partner_pricelist env p i d1"
    using assms unfolding configure_partner_def by (elim rbindE) auto
  have s: "pd_partners d' = pd_partners d1" "pd_mapping d' = pd_mapping d1"
    by (simp_all add: p'(2) set_partner_pricelist_def split: option.split)
  show ?thesis
  proof (cases "px_external p = []")
    case True
    then show ?thesis using d1 s p'(1) by (simp add: same_data_def)
  next
    case False
    then obtain d2 where d2: "map_partner env p i d = Inr d2" "d1 = link_external_partner env (px_external p) i d2"
      using d1 by (auto simp: rbind_eq_Inr)
    have "pd_partners d2 = pd_partners d"
      using d2(1) False by (auto simp: map_partner_def Let_def rbind_eq_Inr)
    with map_partner_ok [OF _ False d2(1), of b] s p'(1) d2(2) show ?thesis by (auto simp: same_data_def link_external_partner_def)
  qed
qed

section \<open>The contact of an order\<close>

lemma get_customer_ok:
  "get_customer env p b d = Inr (i, p') \<Longrightarrow> same_data p' p \<and> px_company_partner p' = px_company_partner p"
  by (auto simp: get_customer_def rbind_eq_Inr Let_def same_data_def)

lemma is_mapping_compatible_ok:
  assumes "orm_ok env" and "shop_ok env" and "partners_ok d" and "known_company env p d" and "i \<in> partner_id ` set (pd_partners d)"
    and "is_mapping_compatible env p i d = Inr (ok, p1, d1)"
  shows "grown env True (pd_partners d) (pd_partners d1) \<and> partners_ok d1 \<and> pd_mapping d1 = pd_mapping d \<and> same_data p1 p \<and>
    known_company env p1 d1 \<and> (ok \<longrightarrow> (\<exists>par. company_of env p1 par d1 \<and> py_true (fld ''active'' (partner_of i d1)) \<and>
      (if pn_skip_individual env then par = None \<or> par = Some i
       else \<not> py_true (fld ''is_company'' (partner_of i d1)) \<and> in_company env (partner_of i d1) \<and>
         (par = None \<or> rec_id ''parent_id'' (partner_of i d1) = par))))"
proof (cases "py_true (fld ''active'' (partner_of i d))")
  case False
  then show ?thesis using assms by (auto simp: is_mapping_compatible_def same_data_def)
next
  case True
  obtain par where c: "(if px ''company_name'' p = [] then Inr (None, p, d)
      else rbind (get_or_create_company env p d) (\<lambda>(c, p1, d1). Inr (Some c, p1, d1))) = Inr (par, p1, d1)"
    and ok: "ok \<longrightarrow> (rec_id ''company_id'' (partner_of i d1) = None \<or> rec_id ''company_id'' (partner_of i d1) = Some (pn_company env)) \<and>
      (py_true (fld ''is_company'' (partner_of i d1)) \<longleftrightarrow> pn_skip_individual env) \<and>
      (par \<noteq> None \<and> \<not> pn_skip_individual env \<longrightarrow> rec_id ''parent_id'' (partner_of i d1) = par) \<and>
      (pn_skip_individual env \<and> par \<noteq> None \<longrightarrow> par = Some i)"
  proof -
    from assms(6) True obtain z where z: "(if px ''company_name'' p = [] then Inr (None, p, d)
        else rbind (get_or_create_company env p d) (\<lambda>(c, p1, d1). Inr (Some c, p1, d1))) = Inr z"
      by (auto simp: is_mapping_compatible_def elim!: rbindE split: if_splits)
    obtain par p2 d2 where "z = (par, p2, d2)" by (metis prod.exhaust)
    with z assms(6) True show ?thesis
      by (intro that [of par]) (auto simp: is_mapping_compatible_def Let_def split: option.splits)
  qed
  have a: "same_core env (partner_of i d1) (partner_of i d)" if "grown env True (pd_partners d) (pd_partners d1)"
    using partner_of_grown [OF that assms(5)] .
  show ?thesis
  proof (cases "px ''company_name'' p = []")
    case e: True
    then have "par = None" "p1 = p" "d1 = d" using c by simp_all
    with ok e True assms(3,4) show ?thesis by (auto simp: company_of_def same_data_def in_company_def)
  next
    case False
    then obtain x where x: "get_or_create_company env p d = Inr (x, p1, d1)" "par = Some x" using c by (auto simp: rbind_eq_Inr)
    have k: "\<And>x. px_company_partner p = Some x \<Longrightarrow> company_found env p x (pd_partners d)" using assms(4) by (simp add: known_company_def)
    note y = get_or_create_company_ok [OF assms(1-3) x(1) k]
    then have f: "company_found env p1 x (pd_partners d1)" using company_found_same [of p1 p env] by (simp add: same_data_def)
    then have "company_of env p1 par d1" "known_company env p1 d1" using y x(2) False by (auto simp: company_of_def known_company_def same_data_def)
    moreover have "py_true (fld ''active'' (partner_of i d1))" using a y True by (simp add: same_core_fld)
    ultimately show ?thesis using y ok x(2) by (auto simp: in_company_def)
  qed
qed

lemma active_exists: "py_true (fld ''active'' (partner_of i d)) \<Longrightarrow> i \<in> partner_id ` set (pd_partners d)"
  by (auto simp: partner_of_def find_Some_iff find_None_iff fld_def split: option.splits)

lemma compatible_partner_ok:
  assumes "orm_ok env" and "shop_ok env" and "partners_ok d" and "known_company env p d"
    and "get_compatible_mapped_partner env p d = Inr (r, p1, d1)"
  shows "grown env True (pd_partners d) (pd_partners d1) \<and> partners_ok d1 \<and> pd_mapping d1 = pd_mapping d \<and> same_data p1 p \<and>
    known_company env p1 d1 \<and> (\<forall>i. r = Some i \<longrightarrow> (\<exists>par. company_of env p1 par d1 \<and> py_true (fld ''active'' (partner_of i d1)) \<and>
      (if pn_skip_individual env then par = None \<or> par = Some i else person_of env par (partner_of i d1))))"
proof (cases "px_external p = []")
  case True
  then show ?thesis using assms by (simp add: get_compatible_mapped_partner_def same_data_def)
next
  case False
  then obtain c p2 where c: "get_customer env p False d = Inr (c, p2)"
    using assms(5) by (auto simp: get_compatible_mapped_partner_def elim!: rbindE)
  note g = get_customer_ok [OF c]
  have k: "known_company env p2 d" using assms(4) g company_found_same [of p2 p env] by (simp add: known_company_def same_data_def)
  show ?thesis
  proof (cases "\<exists>i. c = Some i \<and> py_true (fld ''active'' (partner_of i d))")
    case False
    then have "r = None" "p1 = p2" "d1 = d"
      using assms(5) c \<open>px_external p \<noteq> []\<close> by (auto simp: get_compatible_mapped_partner_def split: option.splits if_splits)
    with g k assms(3) show ?thesis by simp
  next
    case True
    then obtain i where i: "c = Some i" "py_true (fld ''active'' (partner_of i d))" by blast
    then obtain ok where ok: "is_mapping_compatible env p2 i d = Inr (ok, p1, d1)" "r = (if ok then Some i else None)"
      using assms(5) c False by (auto simp: get_compatible_mapped_partner_def elim!: rbindE)
    note y = is_mapping_compatible_ok [OF assms(1-3) k active_exists [OF i(2)] ok(1)]
    have "same_data p1 p" using y g by (simp add: same_data_def)
    moreover have "r = Some j \<longrightarrow> ok \<and> j = i" for j using ok(2) by simp
    ultimately show ?thesis using y by (auto simp: person_of_def)
  qed
qed

lemma get_or_create_partner_steps:
  assumes "get_or_create_partner env p d = Inr (i, p', d')"
  shows "\<exists>r p1 d1 p2 d2. get_compatible_mapped_partner env p d = Inr (r, p1, d1) \<and>
    (case r of Some i \<Rightarrow> Inr (i, p1, d1) | None \<Rightarrow>
       if pn_skip_individual env \<and> px ''company_name'' p1 \<noteq> [] then get_or_create_company env p1 d1
       else search_or_create_partner env p1 d1) = Inr (i, p2, d2) \<and> configure_partner env p2 i d2 = Inr (p', d')"
proof -
  from assms obtain z where z: "get_compatible_mapped_partner env p d = Inr z" by (auto simp: get_or_create_partner_def elim!: rbindE)
  obtain r p1 d1 where e: "z = (r, p1, d1)" by (metis prod.exhaust)
  let ?c = "case r of Some i \<Rightarrow> Inr (i, p1, d1) | None \<Rightarrow>
     if pn_skip_individual env \<and> px ''company_name'' p1 \<noteq> [] then get_or_create_company env p1 d1
     else search_or_create_partner env p1 d1"
  have "rbind ?c (\<lambda>(i, p2, d2). rbind (configure_partner env p2 i d2) (\<lambda>(p3, d3). Inr (i, p3, d3))) = Inr (i, p', d')"
    using assms z e by (simp add: get_or_create_partner_def)
  then obtain y where y: "?c = Inr y" "(case y of (i, p2, d2) \<Rightarrow> rbind (configure_partner env p2 i d2) (\<lambda>(p3, d3). Inr (i, p3, d3))) = Inr (i, p', d')"
    by (rule rbindE)
  obtain j p2 d2 where "y = (j, p2, d2)" by (metis prod.exhaust)
  with y have "?c = Inr (i, p2, d2)" "configure_partner env p2 i d2 = Inr (p', d')" by (auto simp: rbind_eq_Inr)
  with z e show ?thesis by blast
qed

lemma get_or_create_partner_ok:
  assumes "orm_ok env" and "shop_ok env" and "partners_ok d" and "known_company env p d"
    and "\<not> pn_skip_individual env \<or> px ''company_name'' p \<noteq> []" and "get_or_create_partner env p d = Inr (i, p', d')"
  shows "\<exists>par. company_of env p par d' \<and> i \<in> partner_id ` set (pd_partners d') \<and>
    (if pn_skip_individual env then par = Some i else person_of env par (partner_of i d')) \<and>
    grown env True (pd_partners d) (pd_partners d') \<and> partners_ok d' \<and> px_partner p' = Some i \<and>
    (px_external p \<noteq> [] \<and> mdb_ok (pd_mapping d) \<longrightarrow> mdb_ok (pd_mapping d') \<and>
      to_odoo (pn_mapping env) (pn_shop env) (px_external p) b (pd_mapping d') = Inr [i])"
proof -
  obtain r p1 d1 p2 d2 where m: "get_compatible_mapped_partner env p d = Inr (r, p1, d1)"
    and c: "(case r of Some i \<Rightarrow> Inr (i, p1, d1) | None \<Rightarrow>
       if pn_skip_individual env \<and> px ''company_name'' p1 \<noteq> [] then get_or_create_company env p1 d1
       else search_or_create_partner env p1 d1) = Inr (i, p2, d2)"
    and f: "configure_partner env p2 i d2 = Inr (p', d')"
    using get_or_create_partner_steps [OF assms(6)] by blast
  note k = compatible_partner_ok [OF assms(1-4) m]
  have n: "px ''company_name'' p1 = px ''company_name'' p" using k by (simp add: same_data_def)
  have "\<exists>par. company_of env p par d2 \<and> i \<in> partner_id ` set (pd_partners d2) \<and>
      (if pn_skip_individual env then par = Some i else person_of env par (partner_of i d2)) \<and>
      grown env True (pd_partners d1) (pd_partners d2) \<and> partners_ok d2 \<and> pd_mapping d2 = pd_mapping d1 \<and> same_data p2 p"
  proof (cases r)
    case (Some j)
    then have e: "j = i" "p2 = p1" "d2 = d1" using c by simp_all
    obtain par where par: "company_of env p1 par d1" "py_true (fld ''active'' (partner_of i d1))"
      "if pn_skip_individual env then par = None \<or> par = Some i else person_of env par (partner_of i d1)"
      using k Some e(1) by blast
    have "company_of env p par d1" using par(1) k company_of_same [of p1 p] by (simp add: same_data_def)
    moreover have "pn_skip_individual env \<Longrightarrow> par = Some i"
      using par(1,3) assms(5) n by (auto simp: company_of_def split: if_splits)
    ultimately show ?thesis using par active_exists [OF par(2)] e k by (intro exI [of _ par]) auto
  next
    case None
    show ?thesis
    proof (cases "pn_skip_individual env")
      case True
      then have w: "get_or_create_company env p1 d1 = Inr (i, p2, d2)" using c None assms(5) n by simp
      have kc: "\<And>x. px_company_partner p1 = Some x \<Longrightarrow> company_found env p1 x (pd_partners d1)" using k by (simp add: known_company_def)
      have "partners_ok d1" using k by blast
      note y = get_or_create_company_ok [OF assms(1,2) this w kc]
      have "company_of env p (Some i) d2"
        using y k n assms(5) True company_found_same [of p1 p env] by (simp add: company_of_def same_data_def)
      moreover have "i \<in> partner_id ` set (pd_partners d2)" using y company_found_facts [OF assms(2)] by blast
      ultimately show ?thesis using y k True by (auto simp: same_data_def)
    next
      case False
      then have w: "search_or_create_partner env p1 d1 = Inr (i, p2, d2)" using c None by simp
      have "partners_ok d1" "known_company env p1 d1" using k by blast+
      from search_or_create_partner_ok [OF assms(1,2) this w] obtain par where y: "company_of env p2 par d2"
        "i \<in> partner_id ` set (pd_partners d2)" "person_of env par (partner_of i d2)" "grown env True (pd_partners d1) (pd_partners d2)"
        "partners_ok d2" "pd_mapping d2 = pd_mapping d1" "same_data p2 p1" by blast
      moreover have s: "same_data p2 p" using y(7) k by (simp add: same_data_def)
      moreover have "company_of env p par d2" using y(1) s company_of_same [of p2 p] by (simp add: same_data_def)
      ultimately show ?thesis using False by auto
    qed
  qed
  then obtain par where y: "company_of env p par d2" "i \<in> partner_id ` set (pd_partners d2)"
      "if pn_skip_individual env then par = Some i else person_of env par (partner_of i d2)"
      "grown env True (pd_partners d1) (pd_partners d2)" "partners_ok d2" "pd_mapping d2 = pd_mapping d1" "same_data p2 p" by blast
  note z = configure_partner_ok [OF f, of b]
  have g: "grown env True (pd_partners d) (pd_partners d')" using k y(4) z grown_trans [of env True] by auto
  have same: "partner_of i d' = partner_of i d2" "partners_ok d' = partners_ok d2" "company_of env p par d' = company_of env p par d2"
    using z by (simp_all add: partner_of_def partners_ok_def company_of_def)
  have "px_external p2 = px_external p" "pd_mapping d2 = pd_mapping d" using y(6,7) k by (simp_all add: same_data_def)
  with y g same z show ?thesis by (intro exI [of _ par]) auto
qed

text \<open>A customer without an external identifier of the shop is looked for by its data each time. One that has been mapped
  is accepted again.\<close>

lemma compatible_again:
  assumes "orm_ok env" and "shop_ok env" and "partners_ok d" and "px_company_partner p = None" and "\<not> pn_skip_individual env"
    and "company_of env p par d" and "person_of env par (partner_of i d)" and "is_mapping_compatible env p i d = Inr (ok, p1, d1)"
  shows "ok \<and> list_all2 (same_core env) (pd_partners d1) (pd_partners d) \<and> pd_mapping d1 = pd_mapping d \<and> partners_ok d1 \<and> same_data p1 p"
proof -
  have act: "py_true (fld ''active'' (partner_of i d))" using assms(7) by (simp add: person_of_def)
  note i = active_exists [OF act]
  show ?thesis
  proof (cases "px ''company_name'' p = []")
    case True
    then show ?thesis using assms act by (auto simp: is_mapping_compatible_def Let_def person_of_def in_company_def same_data_def split: option.split)
  next
    case False
    then obtain c where c: "par = Some c" "company_found env p c (pd_partners d)" using assms(6) by (auto simp: company_of_def)
    obtain x where x: "get_or_create_company env p d = Inr (x, p1, d1)"
      using assms(8) act False by (auto simp: is_mapping_compatible_def Let_def elim!: rbindE split: prod.splits)
    note y = get_or_create_company_ok [OF assms(1-3) x]
    then have e: "x = c" "list_all2 (same_core env) (pd_partners d1) (pd_partners d)" "partners_ok d1" "pd_mapping d1 = pd_mapping d" "same_data p1 p"
      using c(2) assms(4) by simp_all
    have core: "same_core env (partner_of j d1) (partner_of j d)" if "j \<in> partner_id ` set (pd_partners d)" for j
      by (rule partner_of_grown [OF grown_kept [OF e(2)] that])
    have m: "person_of env par (partner_of i d1)" using assms(7) person_of_core [OF core [OF i]] by simp
    have f: "in_company env (partner_of c d1)"
      using company_found_facts [OF assms(2) e(3)] y assms(4) e(1) company_found_same [of p p env] by auto
    have "is_mapping_compatible env p i d = Inr (True, p1, d1)"
      using act False x m f c(1) e(1) assms(5)
      by (auto simp: is_mapping_compatible_def Let_def person_of_def in_company_def split: option.splits)
    with assms(8) e show ?thesis by simp
  qed
qed

text \<open>The mode of companies needs no mapping.\<close>

lemma company_again:
  assumes "orm_ok env" and "shop_ok env" and "partners_ok d" and "px_company_partner p = None" and "pn_skip_individual env"
    and "company_found env p i (pd_partners d)" and "px ''company_name'' p \<noteq> []" and "get_compatible_mapped_partner env p d = Inr (r, p1, d1)"
  shows "(r = None \<or> r = Some i) \<and> list_all2 (same_core env) (pd_partners d1) (pd_partners d) \<and> partners_ok d1 \<and>
    same_data p1 p \<and> known_company env p1 d1 \<and> company_found env p1 i (pd_partners d1)"
proof -
  have base: "(r = None \<or> r = Some i) \<and> list_all2 (same_core env) (pd_partners d1) (pd_partners d)"
  proof (cases "d1 = d \<and> r = None")
    case True
    then show ?thesis by simp
  next
    case False
    then obtain j p2 ok where j: "get_customer env p False d = Inr (Some j, p2)" "is_mapping_compatible env p2 j d = Inr (ok, p1, d1)"
      "r = (if ok then Some j else None)" "py_true (fld ''active'' (partner_of j d))"
      using assms(8) by (auto simp: get_compatible_mapped_partner_def elim!: rbindE split: if_splits option.splits)
    note g = get_customer_ok [OF j(1)]
    have n: "px ''company_name'' p2 \<noteq> []" "px_company_partner p2 = None" using g assms(4,7) by (simp_all add: same_data_def)
    obtain x where x: "get_or_create_company env p2 d = Inr (x, p1, d1)"
      using j(2,4) n by (auto simp: is_mapping_compatible_def Let_def elim!: rbindE split: prod.splits)
    have "company_found env p2 i (pd_partners d)" using assms(6) g company_found_same [of p2 p env] by (simp add: same_data_def)
    then have e: "x = i" "list_all2 (same_core env) (pd_partners d1) (pd_partners d)"
      using get_or_create_company_ok [OF assms(1-3) x] n(2) by simp_all
    have "ok \<longrightarrow> x = j"
      using j(2,4) n(1) x assms(5) by (auto simp: is_mapping_compatible_def Let_def)
    with j(3) e show ?thesis by auto
  qed
  have "known_company env p d" using assms(4) by (simp add: known_company_def)
  note k = compatible_partner_ok [OF assms(1-3) this assms(8)]
  have "company_found env p i (pd_partners d1)" by (rule company_found_grown [OF assms(1,2,6) grown_kept]) (use base in blast)
  then show ?thesis using base k company_found_same [of p1 p env] by (simp add: same_data_def)
qed

end
