(* ===== verification/PartnerProperties.thy ===== *)
theory PartnerProperties
  imports CustomerFacts
begin

text \<open>
  The properties of the customers of imported orders: which contact an order gets, that the same customer gets the
  same contact again, which addresses belong to it, and what the manual mapping of customers does.
\<close>

section \<open>Contacts\<close>

text \<open>A shop whose Odoo stores what it is given, with a customer of a company.\<close>

definition ex_create :: "bool \<Rightarrow> fields \<Rightarrow> fields list \<Rightarrow> (int \<times> fields list) partnered" where
  "ex_create no_vat vals ps =
     (let i = 1 + foldr (\<lambda>p n. max (partner_id p) n) ps 0
      in Inr (i, ps @ [(''id'', PInt i) # (''active'', PBool True) # vals]))"

definition ex_write :: "int \<Rightarrow> fields \<Rightarrow> fields list \<Rightarrow> fields list partnered" where
  "ex_write i vals ps = Inr (map (\<lambda>p. if partner_id p = i then vals @ p else p) ps)"

definition ex_contacts :: mapping_model where
  "ex_contacts = \<lparr>mm_name = ''integration.res.partner.mapping'', mm_external_name = ''integration.res.partner.external'',
     mm_odoo_name = ''res.partner'', mm_map_field = ex_reference, mm_constraint = NoConstraint, mm_queue = ex_queue\<rparr>"

definition ex_penv :: "bool \<Rightarrow> bool \<Rightarrow> partner_env" where
  "ex_penv skip manual =
     \<lparr>pn_shop = \<lparr>in_name = ''Shop'', in_id = 3\<rparr>, pn_company = 1, pn_skip_individual = skip, pn_manual = manual, pn_vat_only = False,
      pn_ignore_vat = True, pn_vat_field = Some ''vat'', pn_person_field = None, pn_search_fields = [''email''], pn_use_pricelists = False,
      pn_default_customer = Some 9, pn_main_tag = Some 1, pn_mapping = ex_contacts, pn_country_of = (\<lambda>_. Inr 75),
      pn_country_by_code = (\<lambda>_. None), pn_has_states = (\<lambda>_. False), pn_state_of = (\<lambda>_. Inr 1), pn_state_by_code = (\<lambda>_ _. None),
      pn_lang_of = (\<lambda>_. Inr ''fr_FR''), pn_pricelist_of = (\<lambda>_. None), pn_email_normalize = (\<lambda>s. s), pn_phone_format = (\<lambda>s _. s),
      pn_str = (\<lambda>_. ''x''), pn_escape = (\<lambda>s. s), pn_ilike = (\<lambda>s t. s = t), pn_rank = (\<lambda>_. 0), pn_base_vat = True,
      pn_split_vat = (\<lambda>s. (s, s)), pn_legit_code = (\<lambda>_. True), pn_eu_country = (\<lambda>_. True), pn_vies = (\<lambda>_ _. None),
      pn_simple_vat_check = (\<lambda>_ _. True), pn_create = ex_create, pn_write = ex_write\<rparr>"

definition ex_contact_db :: partner_db where
  "ex_contact_db = \<lparr>pd_partners = [], pd_mapping = \<lparr>md_externals = [], md_next_external = 1, md_mappings = [], md_next_mapping = 1, md_jobs = []\<rparr>,
     pd_links = [], pd_pricelists = [], pd_tags = [], pd_next_tag = 2\<rparr>"

definition ex_customer :: proxy where
  "ex_customer = \<lparr>px_type = ''customer'', px_external = ''C1'', px_vals = [(''person_name'', ''Ann''), (''email'', ''ann@x''),
     (''company_name'', ''Acme''), (''company_reg_number'', ''FR 12''), (''city'', ''Lyon''), (''country'', ''FR'')],
     px_partner = None, px_company_partner = None, px_vat_verified = True\<rparr>"

lemma foldr_max: "p \<in> set ps \<Longrightarrow> partner_id p \<le> foldr (\<lambda>p n. max (partner_id p) n) ps 0"
  by (induction ps) auto

lemma foldr_max_pos: "0 \<le> foldr (\<lambda>p n. max (partner_id p) n) ps 0"
  by (induction ps) auto

lemma ex_orm_ok: "orm_ok (ex_penv skip manual)"
proof -
  have w: "list_all2 (\<lambda>q p. \<forall>k\<in>core_fields (ex_penv skip manual).
      fld k q = (if partner_id p = i \<and> k \<in> fst ` set vals then fld k vals else fld k p)) (map (\<lambda>p. if partner_id p = i then vals @ p else p) ps) ps"
    for i vals ps
  proof (induction ps)
    case (Cons p ps)
    have "fld k (vals @ p) = (if k \<in> fst ` set vals then fld k vals else fld k p)" for k
      by (auto simp: fld_def map_add_def dom_map_of_conv_image_fst [symmetric] dom_def split: option.split)
    with Cons show ?case by auto
  qed simp
  have c: "created i vals ((''id'', PInt i) # (''active'', PBool True) # vals)" for i vals
  proof -
    have "map_of vals ''is_company'' = None" if "''is_company'' \<notin> fst ` set vals" using that by (simp add: map_of_eq_None_iff)
    then show ?thesis by (auto simp: created_def given_fields_def fld_def)
  qed
  have "\<exists>qs p. ps @ [x] = qs @ [p] \<and> list_all2 (same_core env) qs ps \<and> p = x" for ps x env
    by (intro exI [of _ ps] exI [of _ x]) simp
  moreover have "i \<notin> partner_id ` set ps \<and> 0 < i" if "i = 1 + foldr (\<lambda>p n. max (partner_id p) n) ps 0" for i ps
    using foldr_max [of _ ps] foldr_max_pos [of ps] that by force
  ultimately show ?thesis using w c unfolding orm_ok_def by (auto simp: ex_penv_def ex_create_def ex_write_def Let_def)
qed

lemma ex_shop_ok: "shop_ok (ex_penv skip manual)"
  by (simp add: shop_ok_def ex_penv_def own_fields_def given_fields_def address_match_fields_def ADDRESS_MATCH_SIMPLE_FIELDS_def)

lemma ex_contact_db_ok: "partners_ok ex_contact_db" "mdb_ok (pd_mapping ex_contact_db)"
  by (simp_all add: partners_ok_def ex_contact_db_def mdb_ok_def externals_ok_def mappings_ok_def externals_unique_def)





section \<open>Addresses\<close>

lemma holds_append: "holds env (a @ b) x \<longleftrightarrow> holds env a x \<and> (\<forall>t\<in>set b. term_holds env x t)"
  by (auto simp: holds_def)

lemma found_address:
  assumes "shop_ok env" and "holds env (address_search_domain env vals) x"
    and "map_of vals ''parent_id'' = Some (PInt c)" and "c \<noteq> 0" and "map_of vals ''company_id'' = Some (PInt (pn_company env))"
  shows "py_true (fld ''active'' x) \<and> in_company env x \<and> fld ''parent_id'' x = PInt c \<and>
    fld ''type'' x \<in> {PStr ''other'', PStr ''invoice'', PStr ''delivery''}"
proof -
  obtain cs where h: "holds env (build_search_domain env (MANDATORY_ADDRESS_SEARCH_CRITERIA @ cs) vals) x"
    "\<forall>t\<in>set [Leaf ''type'' OpIn (PList [PStr ''other'', PStr ''invoice'', PStr ''delivery''])]. term_holds env x t"
    using assms(2) unfolding address_search_domain_def holds_append by blast
  then have c: "py_true (fld ''active'' x)" "criterion env vals x (''parent_id'', OpEq)" "criterion env vals x (''company_id'', OpIn)"
    by (simp_all add: holds_build MANDATORY_ADDRESS_SEARCH_CRITERIA_def)
  have "in_company env x"
    using c(3) criterion_company [of vals "pn_company env" env x] assms(1,5) by (intro in_companyI) (simp add: dict_get_def shop_ok_def)
  moreover have "fld ''parent_id'' x = PInt c"
    using c(2) criterion_equal [of vals "''parent_id''" env x] assms(3,4) by (simp add: dict_get_def)
  ultimately show ?thesis using c(1) h(2) by (auto simp: same_value_def)
qed

lemma prepare_address_vals_ok:
  assumes "orm_ok env" and "shop_ok env" and "partners_ok d" and "px_company_partner p = None" and "0 < i"
    and "prepare_address_vals env i p d = Inr (vals, p1, d1)"
  shows "\<exists>c>0. map_of vals ''parent_id'' = Some (PInt c) \<and> map_of vals ''company_id'' = Some (PInt (pn_company env)) \<and>
    map_of vals ''type'' = Some (PStr (address_type p)) \<and> partners_ok d1 \<and> px_vals p1 = px_vals p \<and>
    (if px ''company_name'' p = [] \<or> pn_manual env then c = i \<and> d1 = d else company_found env p c (pd_partners d1))"
proof -
  obtain v2 v3 v4 where c: "(if px ''company_name'' p = [] \<or> pn_manual env then Inr ((address_base env i p), p, d)
      else rbind (get_or_create_company env p d) (\<lambda>(c, p1, d1). Inr (dict_set ''parent_id'' (PInt c) (address_base env i p), p1, d1))) = Inr (v2, p1, d1)"
    and v: "with_place env p1 (dict_update v2 (simple_address p1)) = Inr v3" "with_lang env p1 v3 = Inr v4"
      "vals = set_text ''external_company_name'' (px ''company_name'' p1) v4"
    using assms(6) unfolding prepare_address_vals_def by (elim rbindE) (auto elim!: rbindE split: prod.splits intro: that)
  have m: "map_of vals k = map_of v2 k" if "k \<in> given_fields" for k
    using map_of_address_vals [OF v(1,2) that] that by (auto simp: v(3) set_text_def given_fields_def)
  have g: "''parent_id'' \<in> given_fields" "''type'' \<in> given_fields" "''company_id'' \<in> given_fields" by (simp_all add: given_fields_def)
  have v1: "map_of (address_base env i p) ''parent_id'' = Some (PInt i)" "map_of (address_base env i p) ''company_id'' = Some (PInt (pn_company env))"
    "map_of (address_base env i p) ''type'' = Some (PStr (address_type p))" by (simp_all add: address_base_def Let_def)
  show ?thesis
  proof (cases "px ''company_name'' p = [] \<or> pn_manual env")
    case True
    then have e: "v2 = address_base env i p" "p1 = p" "d1 = d" using c by auto
    have "map_of vals ''parent_id'' = Some (PInt i)" "map_of vals ''company_id'' = Some (PInt (pn_company env))"
      "map_of vals ''type'' = Some (PStr (address_type p))" unfolding m [OF g(1)] m [OF g(2)] m [OF g(3)] e(1) by (fact v1)+
    with True e assms(3,5) show ?thesis by (intro exI [of _ i]) simp
  next
    case False
    then obtain x where x: "get_or_create_company env p d = Inr (x, p1, d1)" "v2 = dict_set ''parent_id'' (PInt x) (address_base env i p)"
      using c by (auto simp: rbind_eq_Inr)
    note y = get_or_create_company_ok [OF assms(1-3) x(1)]
    have "map_of vals ''parent_id'' = Some (PInt x)" "map_of vals ''company_id'' = Some (PInt (pn_company env))"
      "map_of vals ''type'' = Some (PStr (address_type p))" unfolding m [OF g(1)] m [OF g(2)] m [OF g(3)] x(2) using v1 by simp_all
    moreover have "0 < x" using y assms(4) company_found_facts [OF assms(2)] by auto
    ultimately show ?thesis using y assms(4) False by (intro exI [of _ x]) (auto simp: same_data_def)
  qed
qed

text \<open>C30: An address of an order whose contacts are persons is the customer itself if it says nothing else than the
  customer's contact. Otherwise it is an active address of the company of the shop or of none, below the customer or,
  unless customers are mapped by hand, below the company that the address names; it has the type that was asked
  for, unless only addresses of other types were found.\<close>
theorem address_in_scope:
  assumes "orm_ok env" and "shop_ok env" and "partners_ok d" and "px_company_partner p = None" and "0 < i"
    and "\<not> pn_skip_individual env" and "prepare_address_vals env i p d = Inr (vals, p1, d1)"
    and "get_or_create_address env (Some i) p d = Inr (a, p', d')"
  shows "if \<not> fst (has_address_changes env (partner_of i d1) vals) then a = Some i \<and> d' = d1
    else \<exists>j c. a = Some j \<and> py_true (fld ''active'' (partner_of j d')) \<and> in_company env (partner_of j d') \<and>
      fld ''parent_id'' (partner_of j d') = PInt c \<and>
      (if px ''company_name'' p = [] \<or> pn_manual env then c = i else company_found env p c (pd_partners d1)) \<and>
      (fld ''type'' (partner_of j d') = PStr (address_type p) \<or>
        search_partners env (address_search_domain env vals) d1 \<noteq> [] \<and>
        fld ''type'' (partner_of j d') \<in> {PStr ''other'', PStr ''invoice'', PStr ''delivery''} \<and>
        (\<forall>x\<in>set (search_partners env (address_search_domain env vals) d1). fld ''type'' x \<noteq> PStr (address_type p)))"
proof -
  obtain c where v: "0 < c" "map_of vals ''parent_id'' = Some (PInt c)" "map_of vals ''company_id'' = Some (PInt (pn_company env))"
    "map_of vals ''type'' = Some (PStr (address_type p))" "partners_ok d1"
    "if px ''company_name'' p = [] \<or> pn_manual env then c = i \<and> d1 = d else company_found env p c (pd_partners d1)"
    using prepare_address_vals_ok [OF assms(1-5,7)] by blast
  show ?thesis
  proof (cases "fst (has_address_changes env (partner_of i d1) vals)")
    case False
    then show ?thesis using assms(6-8) by (simp add: get_or_create_address_def)
  next
    case True
    then obtain j where j: "find_or_create_address env vals d1 = Inr (j, d')" "a = Some j"
      using assms(6-8) by (auto simp: get_or_create_address_def rbind_eq_Inr)
    let ?found = "search_partners env (address_search_domain env vals) d1"
    have in_found: "py_true (fld ''active'' x) \<and> in_company env x \<and> fld ''parent_id'' x = PInt c \<and>
        fld ''type'' x \<in> {PStr ''other'', PStr ''invoice'', PStr ''delivery''} \<and> partner_of (partner_id x) d1 = x"
      if "x \<in> set ?found" for x
      using that found_address [OF assms(2) _ v(2) _ v(3)] v(1) partner_of_in [OF v(5)] by (simp add: search_holds)
    have set: "set (default_order env ?found) = set ?found" by (simp add: default_order_def)
    show ?thesis
    proof (cases "default_order env ?found")
      case Nil
      then obtain tags d2 where t: "get_integration_tag env d1 = Inr (tags, d2)"
        and w: "new_partner env (pn_ignore_vat env) (dict_set ''category_id'' (tag_command tags) vals) d2 = Inr (j, d')"
        using j(1) by (auto simp: find_or_create_address_def rbind_eq_Inr)
      have "partners_ok d2" using v(5) tag_kept [OF t] by (simp add: partners_ok_def)
      from new_partner_added [OF assms(1) this w] obtain qs x where x: "pd_partners d' = qs @ [x]" "partners_ok d'"
        "created j (dict_set ''category_id'' (tag_command tags) vals) x" by (auto simp: added_def)
      have keys: "k \<in> fst ` set vals" if "map_of vals k = Some y" for k y using that by (metis map_of_SomeD fst_conv image_eqI)
      have "fld ''parent_id'' x = PInt c" "fld ''company_id'' x = PInt (pn_company env)" "fld ''type'' x = PStr (address_type p)"
        "py_true (fld ''active'' x)"
        using x(3) v(2-4) keys by (auto simp: created_def given_fields_def fld_def fst_dict_set)
      moreover have "partner_of j d' = x" using partner_of_in [OF x(2), of x] created_id [OF x(3)] x(1) by simp
      ultimately show ?thesis using True j(2) v(6) in_companyI [of x env] by (auto split: if_splits)
    next
      case (Cons y ys)
      have found_set: "set ?found = set (y # ys)" unfolding set [symmetric] Cons ..
      have e: "(case filter (\<lambda>a. fld ''type'' a = PStr (address_type p)) (y # ys) of
          [] \<Rightarrow> Inr (partner_id (hd (y # ys)), d1) | a # _ \<Rightarrow> Inr (partner_id a, d1)) = (Inr (j, d') :: (int \<times> partner_db) partnered)"
        using j(1) v(4) Cons by (simp add: find_or_create_address_def dict_get_def del: filter.simps)
      show ?thesis
      proof (cases "filter (\<lambda>a. fld ''type'' a = PStr (address_type p)) (y # ys)")
        case Nil
        then have "\<forall>x\<in>set (y # ys). fld ''type'' x \<noteq> PStr (address_type p)" unfolding filter_empty_conv .
        then have n: "\<forall>x\<in>set ?found. fld ''type'' x \<noteq> PStr (address_type p)" unfolding found_set .
        have y: "y \<in> set ?found" unfolding found_set by simp
        then have "?found \<noteq> []" by auto
        with in_found [OF y] e Nil n True j(2) v(6) show ?thesis by (auto split: if_splits)
      next
        case (Cons x xs)
        have "x \<in> set (filter (\<lambda>a. fld ''type'' a = PStr (address_type p)) (y # ys))" unfolding Cons by simp
        then have "x \<in> set (y # ys)" "fld ''type'' x = PStr (address_type p)" unfolding set_filter by blast+
        then have "x \<in> set ?found" "fld ''type'' x = PStr (address_type p)" unfolding found_set by simp_all
        with in_found [OF this(1)] e Cons True j(2) v(6) show ?thesis by (auto split: if_splits)
      qed
    qed
  qed
qed

text \<open>The address for billing names another person than the contact of the customer.\<close>

definition ex_billing :: proxy where
  "ex_billing = \<lparr>px_type = ''billing_address'', px_external = [], px_vals = [(''person_name'', ''Bob''), (''city'', ''Lyon'')],
     px_partner = None, px_company_partner = None, px_vat_verified = True\<rparr>"

definition ex_ann_db :: partner_db where
  "ex_ann_db = ex_contact_db\<lparr>pd_partners := [[(''id'', PInt 5), (''active'', PBool True), (''name'', PStr ''Ann''), (''city'', PStr ''Lyon'')]]\<rparr>"

lemma address_in_scope_witness:
  "\<exists>p' d'. get_or_create_address (ex_penv False False) (Some 5) ex_billing ex_ann_db = Inr (Some 6, p', d') \<and>
    fld ''parent_id'' (partner_of 6 d') = PInt 5 \<and> fld ''type'' (partner_of 6 d') = PStr ''invoice''"
proof -
  let ?e = "ex_penv False False"
  have f: "map_sum id fst (get_or_create_address ?e (Some 5) ex_billing ex_ann_db) = Inr (Some 6)"
    and g: "map_sum id (\<lambda>(vals, p1, d1). map partner_id (search_partners ?e (address_search_domain ?e vals) d1))
      (prepare_address_vals ?e 5 ex_billing ex_ann_db) = Inr []" by code_simp+
  obtain p' d' where r: "get_or_create_address ?e (Some 5) ex_billing ex_ann_db = Inr (Some 6, p', d')"
    using f by (cases "get_or_create_address ?e (Some 5) ex_billing ex_ann_db") auto
  obtain vals p1 d1 where v: "prepare_address_vals ?e 5 ex_billing ex_ann_db = Inr (vals, p1, d1)"
    using g by (cases "prepare_address_vals ?e 5 ex_billing ex_ann_db") auto
  have "partners_ok ex_ann_db" by (simp add: partners_ok_def ex_ann_db_def fld_def)
  moreover have "px_company_partner ex_billing = None" "\<not> pn_skip_individual ?e" "px ''company_name'' ex_billing = []"
    "address_type ex_billing = ''invoice''" by (simp_all add: ex_billing_def ex_penv_def dict_get_def address_type_def)
  moreover have "search_partners ?e (address_search_domain ?e vals) d1 = []" using g v by simp
  ultimately show ?thesis using address_in_scope [OF ex_orm_ok ex_shop_ok _ _ _ _ v r] r by (auto split: if_splits)
qed

section \<open>Customers that are mapped by hand\<close>

lemma open_mapping_ok:
  assumes "mdb_ok (pd_mapping d)" and "queue_ok (pn_mapping env) (pd_mapping d)" and "px_external p \<noteq> []"
    and "to_odoo (pn_mapping env) (pn_shop env) (px_external p) False (pd_mapping d) = Inr []"
  shows "\<exists>d' m. open_mapping env p d = Inr d' \<and> pd_partners d' = pd_partners d \<and>
    get_mapping (in_id (pn_shop env)) (px_external p) (pd_mapping d') = Inr [m] \<and> mp_internal m = None"
proof -
  let ?mm = "pn_mapping env" and ?i = "in_id (pn_shop env)" and ?m = "pd_mapping d"
  from assms(1,3) show ?thesis
  proof (cases rule: get_mapping_cases [of ?m "px_external p" ?i])
    case (2 x m)
    then have "internal_records [m] = []" using assms(4) by (simp add: to_odoo_def get_internal_record_def)
    then have "mp_internal m = None" by (cases "mp_internal m") (simp_all add: internal_records_def List.map_filter_def)
    with 2 assms(3) show ?thesis by (simp add: open_mapping_def lift_mapped_def Let_def)
  next
    case 1
    let ?v = "\<lparr>ev_integration = ?i, ev_code = px_external p, ev_name = Some (Some (px ''person_name'' p)), ev_reference = None\<rparr>"
    obtain x m1 where x: "create_or_update ?mm ?v ?m = Inr (x, m1)" "queue_ok ?mm m1"
      using create_or_update_succeeds [OF assms(2,1), of ?v] by auto
    have o1: "mdb_ok m1" "x \<in> set (md_externals m1)" "ex_integration x = ?i" "ex_code x = px_external p"
      using create_or_update_ok [OF x(1) assms(1)] by simp_all
    have "\<exists>m2 n. (case search_mappings ?i (ex_id x) m1 of
        [] \<Rightarrow> rbind (create_mapping ?mm ?i None (ex_id x) m1) (\<lambda>(_, m2). Inr m2)
      | ms1 \<Rightarrow> rbind (write_internal ?mm ms1 None m1) (\<lambda>(_, m2). Inr m2)) = Inr m2 \<and>
      mdb_ok m2 \<and> md_externals m2 = md_externals m1 \<and> search_mappings ?i (ex_id x) m2 = [n] \<and> mp_internal n = None"
      using search_mappings_cases [OF o1(1), of ?i "ex_id x"]
    proof cases
      case 1
      obtain n m2 where c: "create_mapping ?mm ?i None (ex_id x) m1 = Inr ([n], m2)"
        using create_mapping_succeeds [OF x(2) o1(1) 1 o1(2) refl o1(3)] by blast
      have "\<exists>e\<in>set (md_externals m1). ex_id e = ex_id x \<and> ex_integration e = ?i" using o1(2,3) by blast
      from create_mapping_mapped [OF c o1(1) 1 this] c 1 show ?thesis by (auto simp: mapped_to_def)
    next
      case (2 m)
      have e: "external_of m1 m = Some x" by (rule external_of_found [OF o1(1,2) 2(4)])
      obtain n m2 where c: "write_internal ?mm [m] None m1 = Inr ([n], m2)"
        using write_internal_succeeds [OF x(2) o1(1) 2(2) e] by blast
      from write_internal_mapped [OF c o1(1) 2(1)] c 2(1) show ?thesis by (auto simp: mapped_to_def)
    qed
    then obtain m2 n where m2: "(case search_mappings ?i (ex_id x) m1 of
        [] \<Rightarrow> rbind (create_mapping ?mm ?i None (ex_id x) m1) (\<lambda>(_, m2). Inr m2)
      | ms1 \<Rightarrow> rbind (write_internal ?mm ms1 None m1) (\<lambda>(_, m2). Inr m2)) = Inr m2"
      "mdb_ok m2" "md_externals m2 = md_externals m1" "search_mappings ?i (ex_id x) m2 = [n]" "mp_internal n = None" by blast
    have "open_mapping env p d = Inr (d\<lparr>pd_mapping := m2\<rparr>)"
      using 1 x(1) m2(1) assms(3) by (simp add: open_mapping_def lift_mapped_def Let_def)
    moreover have "x \<in> set (md_externals m2)" using o1(2) m2(3) by simp
    from search_external_unique [OF m2(2) this] have "get_mapping ?i (px_external p) m2 = Inr [n]"
      using o1(3,4) m2(4) assms(3) by (simp add: get_mapping_def search_mapping_from_external_def)
    ultimately show ?thesis using m2(5) by auto
  qed
qed

text \<open>C31: If customers are mapped by hand, an order of a customer without a mapped contact is refused, and no contact is
  created or changed. A mapping without a contact is left for the user if the customer has an identifier of the shop.
  A customer without one is refused as well, with the general exception of a missing mapping, and never
  gets the default customer.\<close>
theorem manual_mapping_refuses:
  assumes "pn_manual env" and "fa_initial f = False" and "fa_customer f = Some p"
    and "mdb_ok (pd_mapping d)" and "queue_ok (pn_mapping env) (pd_mapping d)"
    and "to_odoo (pn_mapping env) (pn_shop env) (px_external p) False (pd_mapping d) = Inr []"
  shows "\<exists>e d'. get_partner_and_addresses env f d = (Inl e, d') \<and> pd_partners d' = pd_partners d \<and>
    (if px_external p = [] then d' = d \<and> (\<exists>msg. e = MappingError (NotMappedFromExternal msg))
     else e = CustomerNotMapped (px_external p) \<and>
       (\<exists>m. get_mapping (in_id (pn_shop env)) (px_external p) (pd_mapping d') = Inr [m] \<and> mp_internal m = None))"
proof -
  have g: "get_customer env p False d = Inr (None, p\<lparr>px_partner := None\<rparr>)"
    using assms(6) by (simp add: get_customer_def lift_mapped_def Let_def)
  show ?thesis
  proof (cases "px_external p = []")
    case False
    obtain d' m where d': "open_mapping env p d = Inr d'" "pd_partners d' = pd_partners d"
      "get_mapping (in_id (pn_shop env)) (px_external p) (pd_mapping d') = Inr [m]" "mp_internal m = None"
      using open_mapping_ok [OF assms(4,5) False assms(6)] by blast
    then have "get_partner_and_addresses env f d = (Inl (CustomerNotMapped (px_external p)), d')"
      using assms(1-3) g False by (simp add: get_partner_and_addresses_def validate_data_def validate_for_sales_orders_def raise_not_mapped_def)
    with d' False show ?thesis by auto
  next
    case True
    obtain msg where "to_odoo (pn_mapping env) (pn_shop env) (px_external p) True (pd_mapping d) = Inl (NotMappedFromExternal msg)"
      using True by (simp add: to_odoo_def get_mapping_def get_internal_record_def internal_records_def List.map_filter_def)
    then have "get_customer env p True d = Inl (MappingError (NotMappedFromExternal msg))" by (simp add: get_customer_def lift_mapped_def)
    then have "get_partner_and_addresses env f d = (Inl (MappingError (NotMappedFromExternal msg)), d)"
      using assms(1-3) g True
      by (simp add: get_partner_and_addresses_def validate_data_def validate_for_sales_orders_def find_partners_def)
    with True show ?thesis by auto
  qed
qed

text \<open>A guest, where the default customer is set.\<close>

lemma manual_mapping_refuses_witness:
  "\<exists>msg. get_partner_and_addresses (ex_penv False True)
      \<lparr>fa_initial = False, fa_customer = Some (ex_customer\<lparr>px_external := []\<rparr>), fa_billing = None, fa_shipping = None\<rparr> ex_contact_db =
    (Inl (MappingError (NotMappedFromExternal msg)), ex_contact_db)"
proof -
  let ?p = "ex_customer\<lparr>px_external := []\<rparr>"
  let ?f = "\<lparr>fa_initial = False, fa_customer = Some ?p, fa_billing = None, fa_shipping = None\<rparr>"
  have "pn_manual (ex_penv False True)" "fa_initial ?f = False" "fa_customer ?f = Some ?p" by (simp_all add: ex_penv_def)
  moreover have "queue_ok (pn_mapping (ex_penv False True)) (pd_mapping ex_contact_db)"
    by (simp add: queue_ok_def ex_penv_def ex_contacts_def ex_contact_db_def sys_ok_def table_ok_def links_ok_def dep_inv_def)
  moreover have "to_odoo (pn_mapping (ex_penv False True)) (pn_shop (ex_penv False True)) (px_external ?p) False (pd_mapping ex_contact_db) = Inr []"
    by (simp add: to_odoo_def get_mapping_def get_internal_record_def internal_records_def List.map_filter_def)
  ultimately show ?thesis using manual_mapping_refuses [of "ex_penv False True" ?f ?p ex_contact_db] ex_contact_db_ok(2) by auto
qed

section \<open>Escaped addresses of mail\<close>

text \<open>The pattern of the search for an address of mail is also compared with the normalized address: if the escape
  changes it, a contact is not found by its normalized address.\<close>

lemma escaped_mail_not_found:
  assumes "fld ''email_normalized'' x = PStr mail" and "mail \<noteq> []" and "pn_escape env mail \<noteq> mail" and "pn_escape env mail \<noteq> []"
    and "fld ''email'' x = PStr written" and "\<not> pn_ilike env written (pn_escape env mail)" and "map_of vals ''email'' = Some (PStr mail)"
  shows "\<not> criterion env vals x (''email'', OpIlike)"
  using assms by (simp add: criterion_def criterion_terms_def dict_get_def Let_def same_value_def)

end
