(* ===== verification/Spec2Isabelle.thy ===== *)
theory Spec2Isabelle
  imports ChannelProperties QueueProperties IntegrationProperties IntegrationQueueProperties
    WorkflowProperties ShopifyProperties ShopifyOrderProperties MappingProperties DeliveryProperties PartnerProperties JobBase
begin

text \<open>
  A model of three Odoo add-ons of the repository: the job queue (\<open>src/queue_job\<close>), which runs jobs in the
  background, the e-commerce integration (\<open>src/integration\<close>), whose exports and imports are such jobs, and
  its adapter of Shopify (\<open>src/integration_shopify\<close>).

  \<^bold>\<open>How the parts of the queue interact.\<close> A user delays a graph of delayables (\<open>delay.py\<close>); each vertex becomes
  a job (\<open>job.py\<close>) and is stored as a row of the table \<open>queue.job\<close>. A job that depends on others waits. The
  runner (\<open>jobrunner/runner.py\<close>) is notified of each change of a row, puts the job into its channel
  (\<open>jobrunner/channels.py\<close>) and asks the server to run the jobs that the capacities of the channels allow. The
  controller (\<open>controllers/main.py\<close>) runs one job per request, stores its outcome, and makes those of its
  dependent jobs pending whose parents are all done. A job whose process died is found by its free lock and is
  put back by the runner.

  \<^bold>\<open>The channels\<close> (\<open>queue_job/jobrunner/channels.py\<close>). \<open>Heapq\<close> models the heap functions of the standard
  library, \<open>PyString\<close> the string methods. \<open>PriorityQueue\<close> is the class of this name; \<open>ChannelQueue\<close> the
  classes \<open>ChannelJob\<close> and \<open>ChannelQueue\<close>; \<open>ChannelConfig\<close> the parser of configuration strings; \<open>Channel\<close>
  the class \<open>Channel\<close>; \<open>ChannelManager\<close> the class \<open>ChannelManager\<close>. \<open>ChannelRun\<close>, \<open>ChannelTree\<close>,
  \<open>ChannelJobs\<close> and \<open>ChannelRefs\<close> hold the lemmas about running a channel, the invariant of the tree, the
  transitions of a job and references; \<open>ManagerNames\<close>, \<open>ManagerInv\<close>, \<open>ManagerRun\<close>, \<open>ManagerWakeup\<close>,
  \<open>ManagerSystem\<close> and \<open>ManagerSequential\<close> those about the manager and its reachable states.
  \<open>ChannelProperties\<close> states what follows: a job is in one place only, notifications and runs do what they
  should, capacities and sequences are respected, the wakeup time is right, names and configurations agree.

  \<^bold>\<open>Jobs and their storage\<close> (\<open>job.py\<close>, \<open>exception.py\<close>). \<open>PyValue\<close> is the data of Python that fields hold;
  \<open>Job\<close> the class \<open>Job\<close> with its states, options and retries; \<open>JobStore\<close> its storage and the SQL updates of
  the dependent jobs; \<open>JobFacts\<close> the round trip through a row, \<open>JobGraph\<close> the invariant of the links and states
  of the rows, \<open>JobTable\<close> the effect of each store on the table.

  \<^bold>\<open>Delayables\<close> (\<open>delay.py\<close>, \<open>utils.py\<close>, \<open>models/base.py\<close>). \<open>DepGraph\<close> is the class \<open>Graph\<close> with its paths and
  its topological sort; \<open>Delay\<close> the delayables, their merge into one graph and \<open>delay\<close>; \<open>DelayFacts\<close> and
  \<open>DelayStore\<close> the lemmas about both; \<open>JobBase\<close> the methods that every model gets.

  \<^bold>\<open>The models\<close> (\<open>models/queue_job.py\<close>, \<open>queue_job_function.py\<close>, \<open>queue_job_channel.py\<close>, \<open>fields.py\<close>).
  \<open>QueueJob\<close> is the model of the jobs with its buttons, guards and messages; \<open>QueueJobViews\<close> its graph view,
  the removal of old jobs and the actions; \<open>JobFunction\<close> the job functions with the cache of their
  configuration; \<open>JobChannel\<close> the channels as records; \<open>JobFields\<close> the serialised fields; \<open>TestJobs\<close> the test
  jobs, the wizards and the notification trigger.

  \<^bold>\<open>Running jobs\<close> (\<open>controllers/main.py\<close>, \<open>jobrunner/runner.py\<close>). \<open>RunJob\<close> is the controller, \<open>Runner\<close> the
  runner with its databases. \<open>QueueSystem\<close> and \<open>RunFacts\<close> prove what each event does to the table, and
  \<open>JobSystem\<close> composes all events, delaying a graph, running a job, the buttons and the runner, to a system with its
  reachable tables. \<open>JobProperties\<close> and \<open>QueueProperties\<close> state the properties of jobs and of the system.

  \<^bold>\<open>The integration\<close> (\<open>integration/tools.py\<close>, \<open>integration/models/stock_picking.py\<close>). \<open>SaleTransfer\<close> is the export
  of the pickings of a sale, \<open>SaleTransferFacts\<close> its lemmas, \<open>TemplateHub\<close> the checks of products,
  \<open>ApiRetry\<close> the repetition of API calls, \<open>ToolFunctions\<close> the other functions on values, names, clients and
  prices. \<open>IntegrationProperties\<close> states the properties.

  \<^bold>\<open>The workflow of imported orders\<close> (\<open>integration/models/auto_workflow\<close>, \<open>sale_order.py\<close>,
  \<open>sale_integration_file.py\<close>, \<open>external/integration_sale_order_sub_status_external.py\<close>). The statuses of an order
  enable tasks, which make up a pipeline; jobs run one task after the other, and buttons run a task by hand.
  \<open>Workflow\<close> is the model with its system of jobs and buttons, \<open>WorkflowFacts\<close> its invariant and the lemmas
  on automatic runs, \<open>WorkflowProperties\<close> the properties. \<open>IntegrationQueue\<close> is what the integration adds to the
  model of the jobs (\<open>integration/models/queue_job.py\<close>), on top of \<open>RunJob\<close>; \<open>IntegrationQueueProperties\<close>
  shows what its button to run a job at once does to the table of the queue.

  \<^bold>\<open>Deliveries to Shopify\<close> (\<open>integration_shopify/shopify_api.py\<close>, \<open>shopify/resources/fulfillment*.py\<close>).
  \<open>ShopifyFulfillment\<close> models the export of a picking: the requests to fulfillment orders, the moves of what is
  at another location, and the fulfillments. The shop is any function from the calls sent so far to an answer, so
  that all runs are covered; what is sent is the log. \<open>ShopifyFacts\<close> holds the lemmas on both loops and the
  log, \<open>ShopifyProperties\<close> the properties: what is requested, the order of moves and deliveries, and the
  location of what is delivered.

  \<^bold>\<open>Orders of Shopify\<close> (\<open>shopify/resources/order.py\<close>, \<open>line_item.py\<close>, \<open>delivery_method.py\<close>, \<open>base.py\<close>,
  \<open>integration_shopify/tools.py\<close>). \<open>ShopifyTools\<close> is the functions on identifiers and answers, \<open>ShopifyOrder\<close> the
  parts of an order that are parsed from its fulfillment orders: lines, locations and the delivery method.
  \<open>ShopifyOrderFacts\<close> and \<open>ShopifyOrderProperties\<close> are their lemmas and properties.

  \<^bold>\<open>Mappings\<close> (\<open>integration/models/mixins\<close>, \<open>integration/exceptions.py\<close>). A mapping connects an external record,
  which the shop names by a code, with a record of Odoo. A job that misses one fails, keeps the kind, model and
  key of the exception, and is to be started again when the mapping is made. \<open>MappingErrors\<close> is the texts of the
  exceptions and the regular expression over them, \<open>MappingTables\<close> the tables and their operations, on top of
  \<open>IntegrationQueue\<close>. \<open>MappingErrorFacts\<close> holds the lemmas on texts and on the requeue, \<open>MappingFacts\<close> the
  invariant of the tables and the effect of each operation; \<open>MappingProperties\<close> composes the operations to a system
  and states its properties: codes lead to what they were mapped to and back, what an automatic mapping
  does, which jobs a mapping starts, and which failed jobs it cannot find.

  \<^bold>\<open>Deliveries in Odoo\<close> (\<open>integration/models/stock_picking.py\<close>, \<open>stock_move.py\<close>, \<open>sale_order.py\<close>,
  \<open>external/external_order_fulfillment.py\<close>). \<open>Deliveries\<close> models how what the shop delivered is taken over into a
  picking, how the pickings of an order are validated one after the other, and which jobs send validated pickings
  to the shop. \<open>DeliveryProperties\<close> bounds the quantities, names the outcomes of a fulfillment, shows when the
  validation of all pickings ends, and which pickings are sent.

  \<^bold>\<open>Customers of orders\<close> (\<open>integration/models/integration_res_partner_proxy.py\<close>,
  \<open>integration_res_partner_factory.py\<close>, \<open>res_partner.py\<close>). The factory turns the data of an order into
  proxies of the customer and its addresses, and asks each proxy for a contact of Odoo. \<open>Partners\<close> is the
  proxies, the domains of searches and the lookups, \<open>PartnerContacts\<close> the VAT numbers, the contacts of companies and
  customers with their mappings, on top of \<open>MappingTables\<close>, the addresses and the factory. The table of contacts is a
  list of dictionaries; what Odoo does when it creates or writes one is an argument. \<open>PartnerFacts\<close> shows how
  the table grows, what a domain says of the contacts it finds, and that a company is found again;
  \<open>CustomerFacts\<close> the same for customers and their mappings. \<open>PartnerProperties\<close> states which contacts an order
  may get, that a customer keeps its contact, and what the manual mapping does.

  \<^bold>\<open>Conventions.\<close> Python integers are \<open>int\<close>, strings lists of characters below 256, dictionaries association
  lists in insertion order; an object that several containers share and that is mutated lives in a
  store from identities to records; an exception is a value of \<open>PyError\<close> in a result \<open>PyError + 'a\<close>.
  Times are integers in one unit. A field of a record that is not set reads as \<open>False\<close>. What the code takes
  from outside is an argument: the clock, new uuids, random numbers, \<open>repr\<close>, \<open>str\<close>, hashes, the parser of
  literals, the functions of the jobs, \<open>groupby\<close> of Odoo, its search for a reference, its validation of a picking,
  the components of a kit, the comparison of floats, the creation and writing of contacts, \<open>=ilike\<close>, the order of
  contacts, the formats of phones, the service that checks VAT numbers, and the countries, languages and pricelists.

  \<^bold>\<open>Assumptions of the properties of the system.\<close> \<open>model_ok\<close>: the values that a model adds to a row are not those
  of the columns that the queue uses. \<open>work_ok\<close>: what a job's function does to the table keeps the
  rows of the jobs. \<open>env_ok\<close> and \<open>fresh_env\<close>: uuids are new and the table starts without jobs. A request and
  a statement of the database are one step; a job that is done is not set back by a user. Of the integration,
  \<open>groups_ok\<close> states what \<open>groupby\<close> does; of Shopify, \<open>lines_ok\<close> that the lines of an order it answers
  have different identifiers and no negative rest, and \<open>delivered_from_location\<close> names what its answers after a move say. Of the mappings, \<open>queue_ok\<close> states that the table of jobs is well formed,
  and \<open>plain_name\<close> that names and codes are neither empty nor hold a line break or an opening parenthesis; of the
  deliveries, \<open>decreases\<close> that a validation by Odoo that succeeds makes a measure of the pickings smaller. Of the
  customers, \<open>orm_ok\<close> states that a contact that Odoo creates or writes keeps the fields it is given, that a write
  changes no others of them and no other contact, that the order of contacts depends on these fields, and that an
  escaped text matches itself; \<open>shop_ok\<close> that the numbers
  for tax and of persons have fields of their own; \<open>partners_ok\<close> that contacts have different identifiers. Each of
  these is shown to hold for a concrete environment by a witness.

  \<^bold>\<open>Loops and fuel.\<close> Every loop is a function that terminates, by structure or by a measure, but for
  two partial functions whose value is \<open>None\<close> if they do not return: \<open>catch_exception\<close>, which repeats a call
  without a bound for some errors, and \<open>validate_loop\<close>, which calls itself as long as Odoo adds pickings and is
  shown to return if \<open>decreases\<close> holds. No fuel is used.

  \<^bold>\<open>Not modelled.\<close> HTTP requests, sockets, signals and threads of the runner, the commits of the
  controller, logging, translations and the views, which are input and output; the rest of the integration, the
  prices, taxes, customers and query texts of the adapter of Shopify, and the other add-ons, nearly all of whose
  steps are calls of the ORM or of an external service.
\<close>

end
